(* ===== verification/QJS_Prelude.thy ===== *)
theory QJS_Prelude
  imports Main "HOL-Library.Word" "HOL-Library.Monad_Syntax" "HOL-Library.Multiset"
begin

text \<open>
  Shared vocabulary of the development: the C integer types as machine words, memory
  accesses that are checked against the object they touch, signed arithmetic that is
  checked for overflow, swaps of two array cells, and the lemmas about them that the
  component theories use.

  A C function that may run into undefined behaviour is modelled by an \<open>option\<close>:
  \<open>None\<close> is the undefined behaviour (a read or write outside its object, a missing
  terminator, a signed overflow), \<open>Some r\<close> a normal return. A theorem that gives
  \<open>f x = Some \<dots>\<close> therefore shows memory safety as well as the result.
\<close>

unbundle bit_operations_syntax

type_synonym u8 = "8 word"
type_synonym u16 = "16 word"
type_synonym u32 = "32 word"
type_synonym u64 = "64 word"

named_theorems mem_simps \<open>evaluation of checked memory accesses\<close>
named_theorems len_simps \<open>lengths of results of the model's operations\<close>

subsection \<open>Checked memory accesses\<close>

definition rd :: "'a list \<Rightarrow> nat \<Rightarrow> 'a option" where
  "rd m i = (if i < length m then Some (m ! i) else None)"

definition rdi :: "'a list \<Rightarrow> int \<Rightarrow> 'a option" where
  "rdi m i = (if 0 \<le> i then rd m (nat i) else None)"

definition wr :: "'a list \<Rightarrow> nat \<Rightarrow> 'a \<Rightarrow> 'a list option" where
  "wr m i v = (if i < length m then Some (m[i := v]) else None)"

text \<open>The source and the destination of a \<open>memcpy\<close> or \<open>memmove\<close>.\<close>

definition rdn :: "'a list \<Rightarrow> nat \<Rightarrow> nat \<Rightarrow> 'a list option" where
  "rdn m i n = (if i + n \<le> length m then Some (take n (drop i m)) else None)"

definition wrn :: "'a list \<Rightarrow> nat \<Rightarrow> 'a list \<Rightarrow> 'a list option" where
  "wrn m i d = (if i + length d \<le> length m
                then Some (take i m @ d @ drop (i + length d) m) else None)"

text \<open>A value of C type \<open>int\<close>: a result outside the type is a signed overflow.\<close>

definition INT_MAX :: int where "INT_MAX = 2 ^ 31 - 1"

definition cint :: "int \<Rightarrow> int option" where
  "cint x = (if - (2 ^ 31) \<le> x \<and> x < 2 ^ 31 then Some x else None)"

text \<open>\<open>size_t\<close> arithmetic wraps at 64 bits.\<close>

definition size_t :: "nat \<Rightarrow> nat" where
  "size_t n = n mod 2 ^ 64"

lemma rd_Some_iff [mem_simps]: "rd m i = Some v \<longleftrightarrow> i < length m \<and> v = m ! i"
  by (auto simp: rd_def)

lemma rd_in [mem_simps, simp]: "i < length m \<Longrightarrow> rd m i = Some (m ! i)"
  by (simp add: rd_def)

lemma rd_None_iff [mem_simps]: "rd m i = None \<longleftrightarrow> length m \<le> i"
  by (auto simp: rd_def)

lemma rdi_in [mem_simps, simp]: "0 \<le> i \<Longrightarrow> i < int (length m) \<Longrightarrow> rdi m i = Some (m ! nat i)"
  by (simp add: rdi_def nat_less_iff)

lemma rdi_of_nat [simp]: "rdi m (int i) = rd m i"
  by (simp add: rdi_def)

lemma wr_Some_iff [mem_simps]: "wr m i v = Some m' \<longleftrightarrow> i < length m \<and> m' = m[i := v]"
  by (auto simp: wr_def)

lemma wr_in [mem_simps, simp]: "i < length m \<Longrightarrow> wr m i v = Some (m[i := v])"
  by (simp add: wr_def)

lemma rdn_Some_iff [mem_simps]:
  "rdn m i n = Some d \<longleftrightarrow> i + n \<le> length m \<and> d = take n (drop i m)"
  by (auto simp: rdn_def)

lemma rdn_in [mem_simps, simp]: "i + n \<le> length m \<Longrightarrow> rdn m i n = Some (take n (drop i m))"
  by (simp add: rdn_def)

lemma wrn_Some_iff [mem_simps]:
  "wrn m i d = Some m' \<longleftrightarrow>
     i + length d \<le> length m \<and> m' = take i m @ d @ drop (i + length d) m"
  by (auto simp: wrn_def)

lemma wrn_in [mem_simps, simp]:
  "i + length d \<le> length m \<Longrightarrow> wrn m i d = Some (take i m @ d @ drop (i + length d) m)"
  by (simp add: wrn_def)

lemma length_wrn [len_simps]: "wrn m i d = Some m' \<Longrightarrow> length m' = length m"
  by (auto simp: wrn_def split: if_splits)

lemma length_wr [len_simps]: "wr m i v = Some m' \<Longrightarrow> length m' = length m"
  by (auto simp: wr_def split: if_splits)

lemma length_rdn [len_simps]: "rdn m i n = Some d \<Longrightarrow> length d = n"
  by (auto simp: rdn_def split: if_splits)

lemma rdn_wrn_same: "wrn m i d = Some m' \<Longrightarrow> rdn m' i (length d) = Some d"
  by (auto simp: wrn_def rdn_def split: if_splits)

lemma cint_in [simp]: "- (2 ^ 31) \<le> x \<Longrightarrow> x < 2 ^ 31 \<Longrightarrow> cint x = Some x"
  by (simp add: cint_def)

lemma size_t_id [simp]: "n < 2 ^ 64 \<Longrightarrow> size_t n = n"
  by (simp add: size_t_def)

lemma size_t_le: "size_t n \<le> n"
  by (simp add: size_t_def)

subsection \<open>Zero-terminated strings\<close>

definition cstr :: "u8 list \<Rightarrow> u8 list" where
  "cstr s = takeWhile (\<lambda>c. c \<noteq> 0) s"

fun c_strlen :: "u8 list \<Rightarrow> nat option" where
  "c_strlen [] = None"
| "c_strlen (c # s) = (if c = 0 then Some 0 else map_option Suc (c_strlen s))"

lemma cstr_Nil [simp]: "cstr [] = []"
  by (simp add: cstr_def)

lemma cstr_Cons [simp]: "cstr (c # s) = (if c = 0 then [] else c # cstr s)"
  by (simp add: cstr_def)

lemma cstr_no_zero: "0 \<notin> set (cstr s)"
  by (induction s) auto

lemma cstr_append_zero: "0 \<notin> set t \<Longrightarrow> cstr (t @ 0 # r) = t"
  by (induction t) auto

lemma cstr_len: "0 \<in> set s \<Longrightarrow> length (cstr s) < length s"
  by (induction s) auto

lemma take_cstr: "take (length (cstr s)) s = cstr s"
  by (induction s) auto

lemma c_strlen_zero: "0 \<in> set s \<Longrightarrow> c_strlen s = Some (length (cstr s))"
  by (induction s) auto

subsection \<open>Exchanging two cells of an array\<close>

definition swap :: "'a list \<Rightarrow> nat \<Rightarrow> nat \<Rightarrow> 'a list" where
  "swap xs i j = xs[i := xs ! j, j := xs ! i]"

lemma length_swap [simp, len_simps]: "length (swap xs i j) = length xs"
  by (simp add: swap_def)

lemma mset_swap_cells [simp]: "i < length xs \<Longrightarrow> j < length xs \<Longrightarrow> mset (swap xs i j) = mset xs"
  unfolding swap_def by (rule mset_swap)

lemma nth_swap:
  "i < length xs \<Longrightarrow> j < length xs \<Longrightarrow> k < length xs \<Longrightarrow>
   swap xs i j ! k = (if k = j then xs ! i else if k = i then xs ! j else xs ! k)"
  by (auto simp: swap_def nth_list_update)

lemma swap_same [simp]: "swap xs i i = xs"
  by (simp add: swap_def)

subsection \<open>Bits of words\<close>

lemma word8_cases_bit: "bit (w :: u8) n \<Longrightarrow> n < 8"
  using bit_imp_le_length by fastforce

lemma word16_cases_bit: "bit (w :: u16) n \<Longrightarrow> n < 16"
  using bit_imp_le_length by fastforce

lemma word32_cases_bit: "bit (w :: u32) n \<Longrightarrow> n < 32"
  using bit_imp_le_length by fastforce

lemma word64_cases_bit: "bit (w :: u64) n \<Longrightarrow> n < 64"
  using bit_imp_le_length by fastforce

text \<open>Little-endian byte order of the target machines (x86 and ARM).\<close>

fun le_word :: "u8 list \<Rightarrow> 'a::len word" where
  "le_word [] = 0"
| "le_word (b # bs) = ucast b OR push_bit 8 (le_word bs)"

fun le_bytes :: "nat \<Rightarrow> 'a::len word \<Rightarrow> u8 list" where
  "le_bytes 0 w = []"
| "le_bytes (Suc n) w = ucast w # le_bytes n (drop_bit 8 w)"

lemma length_le_bytes [simp, len_simps]: "length (le_bytes n w) = n"
  by (induction n arbitrary: w) auto

lemma bit_le_bytes:
  "k < n \<Longrightarrow> bit (le_bytes n w ! k) i \<longleftrightarrow> i < 8 \<and> bit w (8 * k + i)"
proof (induction n arbitrary: w k)
  case 0
  then show ?case by simp
next
  case (Suc n)
  then show ?case
    by (cases k) (auto simp: bit_simps algebra_simps)
qed

lemma bit_le_word:
  "bit (le_word bs :: 'a::len word) n \<longleftrightarrow>
     n < LENGTH('a) \<and> n < 8 * length bs \<and> bit (bs ! (n div 8)) (n mod 8)"
proof (induction bs arbitrary: n)
  case Nil
  then show ?case by simp
next
  case (Cons b bs)
  show ?case
  proof (cases "n < 8")
    case True
    then show ?thesis by (auto simp: bit_simps)
  next
    case False
    then obtain m where m: "n = m + 8" by (metis add.commute le_add_diff_inverse not_less)
    have "\<not> bit b n" using False word8_cases_bit by blast
    moreover have "(m + 8) div 8 - Suc 0 = m div 8" by simp
    ultimately show ?thesis using m by (auto simp: bit_simps Cons.IH)
  qed
qed

lemma le_word_le_bytes:
  assumes "LENGTH('a) \<le> 8 * n"
  shows "le_word (le_bytes n w) = (w :: 'a::len word)"
proof (rule bit_word_eqI)
  fix i assume "i < LENGTH('a)"
  moreover from this assms have "i div 8 < n" by auto
  ultimately show "bit (le_word (le_bytes n w) :: 'a word) i \<longleftrightarrow> bit w i"
    using assms by (simp add: bit_le_word bit_le_bytes)
qed

lemma le_bytes_le_word:
  assumes "8 * length bs \<le> LENGTH('a)"
  shows "le_bytes (length bs) (le_word bs :: 'a::len word) = bs"
proof (rule nth_equalityI)
  fix k assume "k < length (le_bytes (length bs) (le_word bs :: 'a word))"
  then have k: "k < length bs" by simp
  show "le_bytes (length bs) (le_word bs :: 'a word) ! k = bs ! k"
  proof (rule bit_word_eqI)
    fix i assume "i < LENGTH(8)"
    then have "i < 8" by simp
    moreover from this k assms have "8 * k + i < LENGTH('a)" by simp
    ultimately show "bit (le_bytes (length bs) (le_word bs :: 'a word) ! k) i \<longleftrightarrow> bit (bs ! k) i"
      using k by (simp add: bit_le_bytes bit_le_word)
  qed
qed simp

end
