(* ===== verification/Cutils.thy ===== *)
theory Cutils
  imports QJS_Prelude
begin

text \<open>
  The C utilities of \<open>cutils.c\<close> and \<open>cutils.h\<close> that work on plain bytes:
  bounded string copies, prefix and suffix tests, minimum and maximum, unaligned
  little-endian loads and stores, byte swaps and hexadecimal digits. A \<open>char *\<close>
  is the list of the bytes of the object it points into, from the pointer on.
\<close>

subsection \<open>Bounded strings\<close>

fun pstrcpy_loop :: "u8 list \<Rightarrow> nat \<Rightarrow> nat \<Rightarrow> u8 list \<Rightarrow> (u8 list \<times> nat) option" where
  "pstrcpy_loop m q lim [] = None"
| "pstrcpy_loop m q lim (c # str) =
     (if c = 0 \<or> q \<ge> lim then Some (m, q)
      else do { m \<leftarrow> wr m q c; pstrcpy_loop m (q + 1) lim str })"

text \<open>The destination is the byte \<open>b\<close> of the object \<open>m\<close>.\<close>

definition pstrcpy :: "u8 list \<Rightarrow> nat \<Rightarrow> int \<Rightarrow> u8 list \<Rightarrow> u8 list option" where
  "pstrcpy m b buf_size str =
     (if buf_size \<le> 0 then Some m
      else do { (m, q) \<leftarrow> pstrcpy_loop m b (b + nat buf_size - 1) str; wr m q 0 })"

definition pstrcat :: "u8 list \<Rightarrow> int \<Rightarrow> u8 list \<Rightarrow> u8 list option" where
  "pstrcat buf buf_size s =
     do { len \<leftarrow> c_strlen buf;
          if int len < buf_size then pstrcpy buf len (buf_size - int len) s else Some buf }"

text \<open>Result 0 is \<open>None\<close>; result 1 is \<open>Some p\<close> with the value stored in \<open>*ptr\<close>.\<close>

fun strstart_loop :: "u8 list \<Rightarrow> u8 list \<Rightarrow> nat \<Rightarrow> nat option option" where
  "strstart_loop str [] p = None"
| "strstart_loop str (v # val) p =
     (if v = 0 then Some (Some p)
      else case str of
             [] \<Rightarrow> None
           | c # cs \<Rightarrow> if c \<noteq> v then Some None else strstart_loop cs val (p + 1))"

definition strstart :: "u8 list \<Rightarrow> u8 list \<Rightarrow> nat option option" where
  "strstart str val = strstart_loop str val 0"

definition has_suffix :: "u8 list \<Rightarrow> u8 list \<Rightarrow> bool option" where
  "has_suffix str suffix =
     do { len \<leftarrow> c_strlen str;
          slen \<leftarrow> c_strlen suffix;
          if len \<ge> slen
          then do { a \<leftarrow> rdn str (len - slen) slen; b \<leftarrow> rdn suffix 0 slen; Some (a = b) }
          else Some False }"

subsection \<open>Minimum and maximum\<close>

definition max_int :: "int \<Rightarrow> int \<Rightarrow> int" where
  "max_int a b = (if a > b then a else b)"

definition min_int :: "int \<Rightarrow> int \<Rightarrow> int" where
  "min_int a b = (if a < b then a else b)"

definition max_uint32 :: "u32 \<Rightarrow> u32 \<Rightarrow> u32" where
  "max_uint32 a b = (if a > b then a else b)"

definition min_uint32 :: "u32 \<Rightarrow> u32 \<Rightarrow> u32" where
  "min_uint32 a b = (if a < b then a else b)"

definition max_int64 :: "int \<Rightarrow> int \<Rightarrow> int" where
  "max_int64 a b = (if a > b then a else b)"

definition min_int64 :: "int \<Rightarrow> int \<Rightarrow> int" where
  "min_int64 a b = (if a < b then a else b)"

subsection \<open>Unaligned loads and stores\<close>

definition get_u64 :: "u8 list \<Rightarrow> nat \<Rightarrow> u64 option" where
  "get_u64 tab p = do { bs \<leftarrow> rdn tab p 8; Some (le_word bs) }"

definition get_i64 :: "u8 list \<Rightarrow> nat \<Rightarrow> int option" where
  "get_i64 tab p = do { bs \<leftarrow> rdn tab p 8; Some (sint (le_word bs :: u64)) }"

definition put_u64 :: "u8 list \<Rightarrow> nat \<Rightarrow> u64 \<Rightarrow> u8 list option" where
  "put_u64 tab p val = wrn tab p (le_bytes 8 val)"

definition get_u32 :: "u8 list \<Rightarrow> nat \<Rightarrow> u32 option" where
  "get_u32 tab p = do { bs \<leftarrow> rdn tab p 4; Some (le_word bs) }"

definition get_i32 :: "u8 list \<Rightarrow> nat \<Rightarrow> int option" where
  "get_i32 tab p = do { bs \<leftarrow> rdn tab p 4; Some (sint (le_word bs :: u32)) }"

definition put_u32 :: "u8 list \<Rightarrow> nat \<Rightarrow> u32 \<Rightarrow> u8 list option" where
  "put_u32 tab p val = wrn tab p (le_bytes 4 val)"

definition get_u16 :: "u8 list \<Rightarrow> nat \<Rightarrow> u32 option" where
  "get_u16 tab p = do { bs \<leftarrow> rdn tab p 2; Some (ucast (le_word bs :: u16)) }"

definition get_i16 :: "u8 list \<Rightarrow> nat \<Rightarrow> int option" where
  "get_i16 tab p = do { bs \<leftarrow> rdn tab p 2; Some (sint (le_word bs :: u16)) }"

definition put_u16 :: "u8 list \<Rightarrow> nat \<Rightarrow> u16 \<Rightarrow> u8 list option" where
  "put_u16 tab p val = wrn tab p (le_bytes 2 val)"

definition get_u8 :: "u8 list \<Rightarrow> nat \<Rightarrow> u32 option" where
  "get_u8 tab p = do { b \<leftarrow> rd tab p; Some (ucast b) }"

definition get_i8 :: "u8 list \<Rightarrow> nat \<Rightarrow> int option" where
  "get_i8 tab p = do { b \<leftarrow> rd tab p; Some (sint b) }"

definition put_u8 :: "u8 list \<Rightarrow> nat \<Rightarrow> u8 \<Rightarrow> u8 list option" where
  "put_u8 tab p val = wr tab p val"

subsection \<open>Byte swaps and hexadecimal digits\<close>

definition bswap16 :: "u16 \<Rightarrow> u16" where
  "bswap16 x = drop_bit 8 x OR push_bit 8 x"

definition bswap32 :: "u32 \<Rightarrow> u32" where
  "bswap32 v =
     drop_bit 24 (v AND 0xff000000) OR drop_bit 8 (v AND 0x00ff0000) OR
     push_bit 8 (v AND 0x0000ff00) OR push_bit 24 (v AND 0x000000ff)"

definition bswap64 :: "u64 \<Rightarrow> u64" where
  "bswap64 v =
     drop_bit (7 * 8) (v AND push_bit (7 * 8) 0xff) OR
     drop_bit (5 * 8) (v AND push_bit (6 * 8) 0xff) OR
     drop_bit (3 * 8) (v AND push_bit (5 * 8) 0xff) OR
     drop_bit (1 * 8) (v AND push_bit (4 * 8) 0xff) OR
     push_bit (1 * 8) (v AND push_bit (3 * 8) 0xff) OR
     push_bit (3 * 8) (v AND push_bit (2 * 8) 0xff) OR
     push_bit (5 * 8) (v AND push_bit (1 * 8) 0xff) OR
     push_bit (7 * 8) (v AND push_bit (0 * 8) 0xff)"

text \<open>Character codes: \<open>'0'\<close> is 48, \<open>'A'\<close> is 65 and \<open>'a'\<close> is 97.\<close>

definition from_hex :: "int \<Rightarrow> int" where
  "from_hex c =
     (if c \<ge> 48 \<and> c \<le> 57 then c - 48
      else if c \<ge> 65 \<and> c \<le> 70 then c - 65 + 10
      else if c \<ge> 97 \<and> c \<le> 102 then c - 97 + 10
      else -1)"

subsection \<open>Bounded strings: what the copies leave in the buffer\<close>

lemma pstrcpy_loop_ok:
  assumes "0 \<in> set s" and "q \<le> lim" and "lim < length m"
  shows "pstrcpy_loop m q lim s =
           Some (take q m @ take (lim - q) (cstr s) @ drop (q + length (take (lim - q) (cstr s))) m,
                 q + length (take (lim - q) (cstr s)))"
  using assms
proof (induction s arbitrary: m q)
  case Nil
  then show ?case by simp
next
  case (Cons c s)
  show ?case
  proof (cases "c = 0 \<or> q \<ge> lim")
    case True
    with Cons.prems show ?thesis by auto
  next
    case False
    with Cons.prems have q: "q < length m" and z: "0 \<in> set s" by auto
    from q have m: "take (Suc q) (m[q := c]) = take q m @ [c]"
      by (simp add: take_Suc_conv_app_nth)
    obtain d where d: "lim - q = Suc d" using False by (metis Suc_diff_Suc not_le)
    then have "lim - Suc q = d" by simp
    with False q z d m Cons.prems Cons.IH [of "Suc q" "m[q := c]"] show ?thesis
      by simp
  qed
qed

lemma strstart_loop_ok:
  assumes "0 \<in> set str" and "0 \<in> set val"
  shows "strstart_loop str val p =
           Some (if take (length (cstr val)) (cstr str) = cstr val
                 then Some (p + length (cstr val)) else None)"
  using assms
proof (induction str val p rule: strstart_loop.induct)
  case (1 str p)
  then show ?case by simp
next
  case (2 str v val p)
  show ?case
  proof (cases "v = 0")
    case True
    then show ?thesis by simp
  next
    case False
    with 2 show ?thesis by (cases str) auto
  qed
qed

lemma pstrcpy_ok:
  assumes "0 \<in> set s" and "0 < n" and "b + nat n \<le> length m"
  shows "pstrcpy m b n s =
           (let t = take (nat n - 1) (cstr s)
            in Some (take b m @ t @ 0 # drop (b + length t + 1) m))"
proof -
  let ?t = "take (nat n - 1) (cstr s)"
  have lim: "b + nat n - 1 - b = nat n - 1" "b \<le> b + nat n - 1" "b + nat n - 1 < length m"
    using assms by auto
  have t: "length ?t \<le> nat n - 1" by simp
  have "b + length ?t < length m" using t assms(2,3) by linarith
  moreover have "drop (b + length ?t) m = m ! (b + length ?t) # drop (b + length ?t + 1) m"
    using calculation by (simp add: Cons_nth_drop_Suc)
  moreover have "length (take b m) = b" using assms by simp
  ultimately show ?thesis
    using assms pstrcpy_loop_ok [OF assms(1) lim(2,3)]
    by (simp add: pstrcpy_def Let_def lim(1) list_update_append nth_append)
qed

lemma pstrcat_truncates:
  assumes buf: "0 \<in> set buf" and s: "0 \<in> set s"
    and n: "int (length (cstr buf)) < n" "nat n \<le> length buf"
  shows "\<exists>rest. pstrcat buf n s =
           Some (take (nat n - 1) (cstr buf @ cstr s) @ 0 # rest)"
proof -
  let ?l = "length (cstr buf)"
  have l: "c_strlen buf = Some ?l" using buf by (rule c_strlen_zero)
  have "pstrcpy buf ?l (n - int ?l) s =
          (let t = take (nat (n - int ?l) - 1) (cstr s)
           in Some (take ?l buf @ t @ 0 # drop (?l + length t + 1) buf))"
    by (rule pstrcpy_ok [OF s]) (use n in auto)
  moreover have "take (nat n - 1) (cstr buf) = cstr buf" using n by simp
  moreover have "nat (n - int ?l) - 1 = nat n - 1 - ?l" using n by simp
  ultimately show ?thesis using n l
    by (simp add: pstrcat_def Let_def take_cstr)
qed

text \<open>\<open>strstart\<close> recognises exactly the prefixes and returns the end of the prefix.\<close>

lemma strstart_prefix:
  "0 \<in> set str \<Longrightarrow> 0 \<in> set val \<Longrightarrow>
   strstart str val = Some (if take (length (cstr val)) (cstr str) = cstr val
                            then Some (length (cstr val)) else None)"
  by (simp add: strstart_def strstart_loop_ok)

lemma has_suffix_suffix:
  assumes "0 \<in> set str" and "0 \<in> set suffix"
  shows "has_suffix str suffix = Some (\<exists>pre. cstr str = pre @ cstr suffix)"
proof -
  let ?s = "cstr str" and ?x = "cstr suffix"
  have eq: "take (length ?x) (drop (length ?s - length ?x) str) =
              drop (length ?s - length ?x) ?s" if "length ?x \<le> length ?s"
  proof -
    have "take (length ?x) (drop (length ?s - length ?x) str) =
            drop (length ?s - length ?x) (take (length ?s) str)"
      using that by (simp add: drop_take)
    then show ?thesis by (simp add: take_cstr)
  qed
  have suf: "(drop (length ?s - length ?x) ?s = ?x) \<longleftrightarrow> (\<exists>pre. ?s = pre @ ?x)"
    by (metis append_eq_conv_conj append_take_drop_id length_append diff_add_inverse2)
  have no: "length ?s < length ?x \<Longrightarrow> \<not> (\<exists>pre. ?s = pre @ ?x)"
    by (auto dest: arg_cong [of _ _ length])
  show ?thesis
    using assms cstr_len [OF assms(1)] cstr_len [OF assms(2)] eq suf no
    by (auto simp: has_suffix_def c_strlen_zero take_cstr)
qed

subsection \<open>Loads undo stores, byte swaps reverse the bytes\<close>

lemma put_get_u32: "put_u32 tab p v = Some tab' \<Longrightarrow> get_u32 tab' p = Some v"
  using rdn_wrn_same [of tab p "le_bytes 4 v" tab'] le_word_le_bytes [where n = 4 and w = v]
  by (simp add: put_u32_def get_u32_def)

lemma put_get_u64: "put_u64 tab p v = Some tab' \<Longrightarrow> get_u64 tab' p = Some v"
  using rdn_wrn_same [of tab p "le_bytes 8 v" tab'] le_word_le_bytes [where n = 8 and w = v]
  by (simp add: put_u64_def get_u64_def)

lemma put_get_u16: "put_u16 tab p v = Some tab' \<Longrightarrow> get_u16 tab' p = Some (ucast v)"
  using rdn_wrn_same [of tab p "le_bytes 2 v" tab'] le_word_le_bytes [where n = 2 and w = v]
  by (simp add: put_u16_def get_u16_def)

lemma less_numeral_cases:
  "(i::nat) < 2 \<longleftrightarrow> i = 0 \<or> i = 1"
  "(i::nat) < 4 \<longleftrightarrow> i = 0 \<or> i = 1 \<or> i = 2 \<or> i = 3"
  "(i::nat) < 8 \<longleftrightarrow> i = 0 \<or> i = 1 \<or> i = 2 \<or> i = 3 \<or> i = 4 \<or> i = 5 \<or> i = 6 \<or> i = 7"
  by auto

lemma byte_mask: "(0xff :: 'a::len word) = mask 8"
  by (simp add: mask_eq_exp_minus_1)

lemma bit_byte_field:
  "bit ((v :: 'a::len word) AND push_bit m 0xff) i \<longleftrightarrow> bit v i \<and> m \<le> i \<and> i < m + 8"
  unfolding byte_mask by (auto simp: bit_and_iff bit_push_bit_iff bit_mask_iff
      dest: bit_imp_le_length)

lemma bswap_fields:
  "bswap32 v =
     drop_bit 24 (v AND push_bit 24 0xff) OR drop_bit 8 (v AND push_bit 16 0xff) OR
     push_bit 8 (v AND push_bit 8 0xff) OR push_bit 24 (v AND push_bit 0 0xff)"
  by (simp add: bswap32_def)

lemmas bit_field_simps = bit_or_iff bit_drop_bit_eq bit_push_bit_iff bit_byte_field comp_def

lemma bit_bswap32:
  "bit (bswap32 v) n \<longleftrightarrow>
     n < 8 \<and> bit v (24 + n) \<or> 8 \<le> n \<and> n < 16 \<and> bit v (8 + n) \<or>
     16 \<le> n \<and> n < 24 \<and> bit v (n - 8) \<or> 24 \<le> n \<and> n < 32 \<and> bit v (n - 24)"
  unfolding bswap_fields bit_field_simps by auto

lemma bswap16_rev: "le_bytes 2 (bswap16 v) = rev (le_bytes 2 v)"
proof (rule nth_equalityI)
  fix k assume "k < length (le_bytes 2 (bswap16 v))"
  then have k: "k < 2" by simp
  show "le_bytes 2 (bswap16 v) ! k = rev (le_bytes 2 v) ! k"
  proof (rule bit_word_eqI)
    fix i assume "i < LENGTH(8)"
    then show "bit (le_bytes 2 (bswap16 v) ! k) i \<longleftrightarrow> bit (rev (le_bytes 2 v) ! k) i"
      using k by (auto simp: rev_nth bit_le_bytes bswap16_def bit_simps less_numeral_cases(1)
        dest: word16_cases_bit)
  qed
qed simp

lemma bswap32_rev: "le_bytes 4 (bswap32 v) = rev (le_bytes 4 v)"
proof (rule nth_equalityI)
  fix k assume "k < length (le_bytes 4 (bswap32 v))"
  then have k: "k < 4" by simp
  show "le_bytes 4 (bswap32 v) ! k = rev (le_bytes 4 v) ! k"
  proof (rule bit_word_eqI)
    fix i assume "i < LENGTH(8)"
    then have "i < 8" by simp
    then show "bit (le_bytes 4 (bswap32 v) ! k) i \<longleftrightarrow> bit (rev (le_bytes 4 v) ! k) i"
      using k [unfolded less_numeral_cases(2)]
      by (elim disjE) (simp_all add: rev_nth bit_le_bytes bit_bswap32)
  qed
qed simp

lemma bit_drop_field:
  "bit (drop_bit d (v AND push_bit m 0xff)) n \<longleftrightarrow> m \<le> d + n \<and> d + n < m + 8 \<and> bit (v :: u64) (d + n)"
  unfolding bit_drop_bit_eq comp_def bit_byte_field by auto

lemma bit_push_field:
  "bit (push_bit d (v AND push_bit m 0xff)) n \<longleftrightarrow>
     m + d \<le> n \<and> n < m + d + 8 \<and> n < 64 \<and> bit (v :: u64) (n - d)"
  unfolding bit_push_bit_iff bit_byte_field by auto

lemma bit_bswap64:
  assumes "i < 8"
  shows "bit (bswap64 v) i \<longleftrightarrow> bit v (56 + i)" 
    "bit (bswap64 v) (8 + i) \<longleftrightarrow> bit v (48 + i)" 
    "bit (bswap64 v) (16 + i) \<longleftrightarrow> bit v (40 + i)" 
    "bit (bswap64 v) (24 + i) \<longleftrightarrow> bit v (32 + i)" 
    "bit (bswap64 v) (32 + i) \<longleftrightarrow> bit v (24 + i)" 
    "bit (bswap64 v) (40 + i) \<longleftrightarrow> bit v (16 + i)" 
    "bit (bswap64 v) (48 + i) \<longleftrightarrow> bit v (8 + i)" 
    "bit (bswap64 v) (56 + i) \<longleftrightarrow> bit v i" 
  using assms unfolding bswap64_def bit_or_iff bit_drop_field bit_push_field by simp_all
lemma bswap64_rev: "le_bytes 8 (bswap64 v) = rev (le_bytes 8 v)"
proof (rule nth_equalityI)
  fix k assume "k < length (le_bytes 8 (bswap64 v))"
  then have k: "k < 8" by simp
  show "le_bytes 8 (bswap64 v) ! k = rev (le_bytes 8 v) ! k"
  proof (rule bit_word_eqI)
    fix i assume "i < LENGTH(8)"
    then have "i < 8" by simp
    then show "bit (le_bytes 8 (bswap64 v) ! k) i \<longleftrightarrow> bit (rev (le_bytes 8 v) ! k) i"
      using k [unfolded less_numeral_cases(3)]
      by (elim disjE) (simp_all add: rev_nth bit_le_bytes bit_bswap64)
  qed
qed simp

lemma from_hex_digit: "from_hex c \<noteq> -1 \<longleftrightarrow> 0 \<le> from_hex c \<and> from_hex c < 16"
  by (simp add: from_hex_def)

end
