(* ===== verification/Dyn_Buf.thy ===== *)
theory Dyn_Buf
  imports Cutils
begin

text \<open>
  The growable byte buffer \<open>DynBuf\<close> of \<open>cutils.c\<close> and the allocator interface it
  relies on. The allocator is the caller's \<open>realloc_func\<close>; its documented contract (that of
  C's \<open>realloc\<close>) is the locale \<open>reallocator\<close>, inside which the buffer's operations are
  shown to implement an append-only byte string with a sticky error flag.

  The field \<open>db_opaque\<close> is the allocator state that the opaque pointer leads to:
  every call of the allocator takes it and returns the next one. \<open>db_buf\<close> is the block
  the buffer owns (the empty list for a null pointer), \<open>db_realloc_func = None\<close> the null
  function pointer left by \<open>dbuf_free\<close>. \<open>size_t\<close> sums are reduced modulo \<open>2 ^ 64\<close>.
\<close>

subsection \<open>The allocator interface\<close>

type_synonym ('h, 'e) realloc_fn = "'h \<Rightarrow> 'e list \<Rightarrow> nat \<Rightarrow> 'h \<times> 'e list option"

locale reallocator =
  fixes rf :: "('h, 'e) realloc_fn"
  assumes rf_length: "rf h b n = (h', Some b') \<Longrightarrow> length b' = n"
    and rf_prefix: "rf h b n = (h', Some b') \<Longrightarrow> k \<le> length b \<Longrightarrow> k \<le> n \<Longrightarrow> take k b' = take k b"

text \<open>
  C's own \<open>realloc\<close>, which \<open>dbuf_default_realloc\<close> calls: the state is the number of
  bytes the heap still has; the bytes past the old block are unspecified in C, zero here.
\<close>

definition dbuf_default_realloc :: "(nat, u8) realloc_fn" where
  "dbuf_default_realloc avail ptr n =
     (if n \<le> avail + length ptr
      then (avail + length ptr - n, Some (take n ptr @ replicate (n - length ptr) 0))
      else (avail, None))"

interpretation dflt: reallocator dbuf_default_realloc
  by unfold_locales
    (auto simp: dbuf_default_realloc_def min_def split: if_splits)

subsection \<open>The buffer and its operations\<close>

record 'h DynBuf =
  db_buf :: "u8 list"
  db_size :: nat
  db_allocated_size :: nat
  db_error :: bool
  db_realloc_func :: "('h, u8) realloc_fn option"
  db_opaque :: 'h

definition dbuf_init2 :: "'h \<Rightarrow> ('h, u8) realloc_fn \<Rightarrow> 'h DynBuf" where
  "dbuf_init2 opaque realloc_func =
     \<lparr>db_buf = [], db_size = 0, db_allocated_size = 0, db_error = False,
      db_realloc_func = Some realloc_func, db_opaque = opaque\<rparr>"

definition dbuf_init :: "nat \<Rightarrow> nat DynBuf" where
  "dbuf_init heap = dbuf_init2 heap dbuf_default_realloc"

definition dbuf_realloc :: "'h DynBuf \<Rightarrow> nat \<Rightarrow> (int \<times> 'h DynBuf) option" where
  "dbuf_realloc s new_size =
     (if new_size > db_allocated_size s then
        (if db_error s then Some (-1, s)
         else
           let grown = size_t (db_allocated_size s * 3) div 2;
               new_size = (if grown > new_size then grown else new_size)
           in do {
             f \<leftarrow> db_realloc_func s;
             let (h, new_buf) = f (db_opaque s) (db_buf s) new_size;
             case new_buf of
               None \<Rightarrow> Some (-1, s\<lparr>db_opaque := h, db_error := True\<rparr>)
             | Some b \<Rightarrow> Some (0, s\<lparr>db_opaque := h, db_buf := b, db_allocated_size := new_size\<rparr>)
           })
      else Some (0, s))"

definition dbuf_write :: "'h DynBuf \<Rightarrow> nat \<Rightarrow> u8 list \<Rightarrow> (int \<times> 'h DynBuf) option" where
  "dbuf_write s offset data =
     (let fin = size_t (offset + length data) in do {
        (r, s) \<leftarrow> dbuf_realloc s fin;
        if r \<noteq> 0 then Some (-1, s)
        else do {
          b \<leftarrow> wrn (db_buf s) offset data;
          let s = s\<lparr>db_buf := b\<rparr>;
          Some (0, if fin > db_size s then s\<lparr>db_size := fin\<rparr> else s)
        }
      })"

definition dbuf_put :: "'h DynBuf \<Rightarrow> u8 list \<Rightarrow> (int \<times> 'h DynBuf) option" where
  "dbuf_put s data =
     do {
       (r, s) \<leftarrow> (if size_t (db_size s + length data) > db_allocated_size s
                  then dbuf_realloc s (size_t (db_size s + length data)) else Some (0, s));
       if r \<noteq> 0 then Some (-1, s)
       else do {
         b \<leftarrow> wrn (db_buf s) (db_size s) data;
         Some (0, s\<lparr>db_buf := b, db_size := size_t (db_size s + length data)\<rparr>)
       }
     }"

text \<open>\<open>memcpy\<close> within one block: overlapping source and destination are undefined.\<close>

definition dbuf_put_self :: "'h DynBuf \<Rightarrow> nat \<Rightarrow> nat \<Rightarrow> (int \<times> 'h DynBuf) option" where
  "dbuf_put_self s offset len =
     do {
       (r, s) \<leftarrow> (if size_t (db_size s + len) > db_allocated_size s
                  then dbuf_realloc s (size_t (db_size s + len)) else Some (0, s));
       if r \<noteq> 0 then Some (-1, s)
       else if offset < db_size s + len \<and> db_size s < offset + len then None
       else do {
         d \<leftarrow> rdn (db_buf s) offset len;
         b \<leftarrow> wrn (db_buf s) (db_size s) d;
         Some (0, s\<lparr>db_buf := b, db_size := size_t (db_size s + len)\<rparr>)
       }
     }"

definition dbuf_putc :: "'h DynBuf \<Rightarrow> u8 \<Rightarrow> (int \<times> 'h DynBuf) option" where
  "dbuf_putc s c = dbuf_put s [c]"

definition dbuf_putstr :: "'h DynBuf \<Rightarrow> u8 list \<Rightarrow> (int \<times> 'h DynBuf) option" where
  "dbuf_putstr s str = do { n \<leftarrow> c_strlen str; dbuf_put s (take n str) }"

definition dbuf_put_u16 :: "'h DynBuf \<Rightarrow> u16 \<Rightarrow> (int \<times> 'h DynBuf) option" where
  "dbuf_put_u16 s val = dbuf_put s (le_bytes 2 val)"

definition dbuf_put_u32 :: "'h DynBuf \<Rightarrow> u32 \<Rightarrow> (int \<times> 'h DynBuf) option" where
  "dbuf_put_u32 s val = dbuf_put s (le_bytes 4 val)"

definition dbuf_put_u64 :: "'h DynBuf \<Rightarrow> u64 \<Rightarrow> (int \<times> 'h DynBuf) option" where
  "dbuf_put_u64 s val = dbuf_put s (le_bytes 8 val)"

text \<open>
  \<open>out\<close> is the text that \<open>vsnprintf\<close> formats. The slow path writes it, cut to the room
  that is left and terminated, straight behind the data.
\<close>

definition dbuf_printf :: "'h DynBuf \<Rightarrow> u8 list \<Rightarrow> (int \<times> 'h DynBuf) option" where
  "dbuf_printf s out =
     (let len = length out in
      if len < 128 then dbuf_put s out
      else do {
        (r, s) \<leftarrow> dbuf_realloc s (size_t (db_size s + len + 1));
        if r \<noteq> 0 then Some (-1, s)
        else do {
          b \<leftarrow> (if db_allocated_size s - db_size s = 0 then Some (db_buf s)
                else wrn (db_buf s) (db_size s)
                       (take (db_allocated_size s - db_size s - 1) out @ [0]));
          Some (0, s\<lparr>db_buf := b, db_size := size_t (db_size s + len)\<rparr>)
        }
      })"

text \<open>The allocator keeps its state; clearing the function pointer makes it unreachable.\<close>

definition dbuf_free :: "'h DynBuf \<Rightarrow> 'h DynBuf option" where
  "dbuf_free s =
     do {
       h \<leftarrow> (if db_buf s \<noteq> []
             then do { f \<leftarrow> db_realloc_func s; Some (fst (f (db_opaque s) (db_buf s) 0)) }
             else Some (db_opaque s));
       Some \<lparr>db_buf = [], db_size = 0, db_allocated_size = 0, db_error = False,
             db_realloc_func = None, db_opaque = h\<rparr>
     }"

definition dbuf_error :: "'h DynBuf \<Rightarrow> bool" where
  "dbuf_error s = db_error s"

definition dbuf_set_error :: "'h DynBuf \<Rightarrow> 'h DynBuf" where
  "dbuf_set_error s = s\<lparr>db_error := True\<rparr>"

text \<open>From \<open>libregexp.c\<close>: open a gap of \<open>len\<close> bytes at \<open>pos\<close>.\<close>

definition dbuf_insert :: "'h DynBuf \<Rightarrow> nat \<Rightarrow> nat \<Rightarrow> (int \<times> 'h DynBuf) option" where
  "dbuf_insert s pos len =
     do {
       (r, s) \<leftarrow> dbuf_realloc s (size_t (db_size s + len));
       if r \<noteq> 0 then Some (-1, s)
       else if pos > db_size s then None
       else do {
         d \<leftarrow> rdn (db_buf s) pos (db_size s - pos);
         b \<leftarrow> wrn (db_buf s) (pos + len) d;
         Some (0, s\<lparr>db_buf := b, db_size := size_t (db_size s + len)\<rparr>)
       }
     }"

text \<open>A client's sequence of writes that looks at no return value.\<close>

fun dbuf_puts :: "'h DynBuf \<Rightarrow> u8 list list \<Rightarrow> 'h DynBuf option" where
  "dbuf_puts s [] = Some s"
| "dbuf_puts s (d # ds) = do { (r, s) \<leftarrow> dbuf_put s d; dbuf_puts s ds }"

subsection \<open>The invariant and the abstract value\<close>

text \<open>What the buffer holds: the first \<open>size\<close> bytes of its block.\<close>

definition db_data :: "'h DynBuf \<Rightarrow> u8 list" where
  "db_data s = take (db_size s) (db_buf s)"

definition db_wf :: "('h, u8) realloc_fn \<Rightarrow> 'h DynBuf \<Rightarrow> bool" where
  "db_wf f s \<longleftrightarrow> db_realloc_func s = Some f \<and> length (db_buf s) = db_allocated_size s \<and>
     db_size s \<le> db_allocated_size s \<and> db_allocated_size s < 2 ^ 64"

text \<open>
  The contract of an appending operation: it either returns 0 and has appended \<open>d\<close>, or
  returns -1, sets the error flag and leaves the contents alone.
\<close>

definition db_appends :: "('h, u8) realloc_fn \<Rightarrow> 'h DynBuf \<Rightarrow> u8 list \<Rightarrow>
    (int \<times> 'h DynBuf) option \<Rightarrow> bool" where
  "db_appends f s d res \<longleftrightarrow>
     (\<exists>s'. db_wf f s' \<and>
        (res = Some (0, s') \<and> db_data s' = db_data s @ d \<and> db_error s' = db_error s \<or>
         res = Some (-1, s') \<and> db_data s' = db_data s \<and> db_error s'))"

lemma length_db_data [simp]: "db_wf f s \<Longrightarrow> length (db_data s) = db_size s"
  by (simp add: db_wf_def db_data_def)

text \<open>The state after the bytes \<open>d\<close> have been copied behind the data.\<close>

definition db_store :: "'h DynBuf \<Rightarrow> u8 list \<Rightarrow> 'h DynBuf" where
  "db_store s d =
     s\<lparr>db_buf := take (db_size s) (db_buf s) @ d @ drop (db_size s + length d) (db_buf s),
       db_size := db_size s + length d\<rparr>"

lemma db_store_ok:
  assumes "db_wf f s" and "db_size s + length d \<le> db_allocated_size s"
  shows "db_wf f (db_store s d)" "db_data (db_store s d) = db_data s @ d"
    "db_error (db_store s d) = db_error s"
    "wrn (db_buf s) (db_size s) d = Some (db_buf (db_store s d))"
  using assms by (simp_all add: db_store_def db_wf_def db_data_def)

lemma db_store_eq:
  "db_buf (db_store s d) = b \<Longrightarrow> db_size s + length d = n \<Longrightarrow>
   s\<lparr>db_buf := b, db_size := n\<rparr> = db_store s d"
  by (auto simp: db_store_def)

lemma db_appends_store:
  assumes "db_wf f s'" "db_size s' + length d \<le> db_allocated_size s'"
    "db_data s' = db_data s" "db_error s' = db_error s"
  shows "db_appends f s d (Some (0, db_store s' d))"
  using db_store_ok [OF assms(1,2)] assms(3,4) by (auto simp: db_appends_def)

lemma db_size_lt: "db_wf f s \<Longrightarrow> n \<le> db_allocated_size s \<Longrightarrow> n < 2 ^ 64"
  by (simp add: db_wf_def)

lemma db_appends_error:
  "db_wf f s' \<Longrightarrow> db_data s' = db_data s \<Longrightarrow> db_error s' \<Longrightarrow> db_appends f s d (Some (-1, s'))"
  by (auto simp: db_appends_def)

locale byte_reallocator = reallocator rf for rf :: "('h, u8) realloc_fn"
begin

text \<open>Making room keeps the contents; on success there is room for \<open>n\<close> bytes.\<close>

lemma dbuf_realloc_cases:
  assumes wf: "db_wf rf s" and n: "n < 2 ^ 64"
  obtains (room) s' where "dbuf_realloc s n = Some (0, s')" "db_wf rf s'" "n \<le> db_allocated_size s'"
      "db_data s' = db_data s" "db_size s' = db_size s" "db_error s' = db_error s"
  | (fail) s' where "dbuf_realloc s n = Some (-1, s')" "db_wf rf s'"
      "db_data s' = db_data s" "db_size s' = db_size s" "db_error s'" "\<not> n \<le> db_allocated_size s"
proof (cases "n > db_allocated_size s \<and> \<not> db_error s")
  case False
  then show thesis
  proof (cases "n > db_allocated_size s")
    case True
    with False have "dbuf_realloc s n = Some (-1, s)" by (simp add: dbuf_realloc_def)
    with fail True False wf show thesis by simp
  next
    case False
    then have "dbuf_realloc s n = Some (0, s)" by (simp add: dbuf_realloc_def)
    with room False wf show thesis by simp
  qed
next
  case True
  let ?g = "size_t (db_allocated_size s * 3) div 2"
  let ?n = "if ?g > n then ?g else n"
  have g: "?g < 2 ^ 64" by (simp add: size_t_def)
  then have n': "?n < 2 ^ 64" "n \<le> ?n" using n by auto
  obtain h b where fb: "rf (db_opaque s) (db_buf s) ?n = (h, b)" by fastforce
  show thesis
  proof (cases b)
    case None
    with True wf fb fail show thesis
      by (auto simp: dbuf_realloc_def Let_def db_wf_def db_data_def)
  next
    case (Some b')
    then have len: "length b' = ?n" using fb rf_length by blast
    have "take (db_size s) b' = take (db_size s) (db_buf s)"
      using True wf n' rf_prefix [OF fb [unfolded Some], of "db_size s"] by (auto simp: db_wf_def)
    with True wf fb Some len n' room show thesis
      by (auto simp: dbuf_realloc_def Let_def db_wf_def db_data_def)
  qed
qed

lemma dbuf_put_appends:
  assumes wf: "db_wf rf s" and n: "db_size s + length d < 2 ^ 64"
  shows "db_appends rf s d (dbuf_put s d)"
proof (cases "db_size s + length d > db_allocated_size s")
  case False
  then have "dbuf_put s d = Some (0, db_store s d)"
    using wf n by (simp add: dbuf_put_def db_store_ok(4) db_store_eq)
  with False wf show ?thesis by (simp add: db_appends_store)
next
  case True
  show ?thesis
    using wf n
  proof (cases rule: dbuf_realloc_cases)
    case (room s')
    then have "dbuf_put s d = Some (0, db_store s' d)"
      using True n db_store_ok(4) [of rf s' d] db_store_eq [of s' d]
      by (simp add: dbuf_put_def)
    with room show ?thesis by (simp add: db_appends_store)
  next
    case (fail s')
    then show ?thesis using True n by (simp add: dbuf_put_def db_appends_error)
  qed
qed

lemma dbuf_put_room:
  assumes "db_wf rf s" and "db_size s + length d \<le> db_allocated_size s"
  shows "dbuf_put s d = Some (0, db_store s d)"
  using assms db_size_lt [OF assms] by (simp add: dbuf_put_def db_store_ok(4) db_store_eq)

lemma rdn_data:
  assumes "db_wf rf s" and "offset + len \<le> db_size s"
  shows "rdn (db_buf s) offset len = Some (take len (drop offset (db_data s)))"
  using assms by (simp add: db_wf_def db_data_def drop_take min_def)

lemma dbuf_put_self_appends:
  assumes wf: "db_wf rf s" and n: "db_size s + len < 2 ^ 64" and off: "offset + len \<le> db_size s"
  shows "db_appends rf s (take len (drop offset (db_data s))) (dbuf_put_self s offset len)"
proof -
  let ?d = "take len (drop offset (db_data s))"
  have l: "length ?d = len" using wf off by simp
  have nov: "\<not> db_size s < offset + len" using off by simp
  show ?thesis
  proof (cases "db_size s + len > db_allocated_size s")
    case False
    then have "dbuf_put_self s offset len = Some (0, db_store s ?d)"
      using wf n off nov l rdn_data [OF wf off]
      by (simp add: dbuf_put_self_def db_store_ok(4) db_store_eq)
    with False wf l show ?thesis by (simp add: db_appends_store)
  next
    case True
    show ?thesis
      using wf n
    proof (cases rule: dbuf_realloc_cases)
      case (room s')
      then have "dbuf_put_self s offset len = Some (0, db_store s' ?d)"
        using True n off nov l rdn_data [of s' offset len]
          db_store_ok(4) [of rf s' ?d] db_store_eq [of s' ?d]
        by (simp add: dbuf_put_self_def)
      with room l show ?thesis by (simp add: db_appends_store)
    next
      case (fail s')
      then show ?thesis using True n by (simp add: dbuf_put_self_def db_appends_error)
    qed
  qed
qed

lemma dbuf_printf_long:
  assumes wf: "db_wf rf s" and n: "db_size s + length out + 1 < 2 ^ 64" and out: "\<not> length out < 128"
  shows "db_appends rf s out (dbuf_printf s out)"
  using wf n
proof (cases rule: dbuf_realloc_cases)
  case (room s')
  let ?w = "take (db_allocated_size s' - db_size s' - 1) out @ [0]"
  have w: "?w = out @ [0]" using room by simp
  let ?s = "s'\<lparr>db_buf := db_buf (db_store s' ?w), db_size := db_size s' + length out\<rparr>"
  have "dbuf_printf s out = Some (0, ?s)"
    using room out n w db_store_ok(4) [of rf s' ?w] by (simp add: dbuf_printf_def Let_def)
  moreover have "db_size s' + length out + 1 \<le> db_allocated_size s'" using room by simp
  then have "db_wf rf ?s" "db_data ?s = db_data s' @ out"
    using room(2) unfolding w by (simp_all add: db_wf_def db_data_def db_store_def)
  ultimately show ?thesis using room by (auto simp: db_appends_def)
next
  case (fail s')
  then show ?thesis using out n by (simp add: dbuf_printf_def Let_def db_appends_error)
qed

lemma dbuf_printf_appends:
  assumes "db_wf rf s" and "db_size s + length out + 1 < 2 ^ 64"
  shows "db_appends rf s out (dbuf_printf s out)"
  using assms dbuf_printf_long [OF assms]
  by (cases "length out < 128") (simp_all add: dbuf_printf_def dbuf_put_appends)

text \<open>Opening a gap moves the tail up and leaves the bytes before the gap in place.\<close>

lemma dbuf_insert_shifts:
  assumes wf: "db_wf rf s" and n: "db_size s + len < 2 ^ 64" and pos: "pos \<le> db_size s"
  shows "\<exists>s'. db_wf rf s' \<and>
     (dbuf_insert s pos len = Some (0, s') \<and> db_size s' = db_size s + len \<and>
        take pos (db_data s') = take pos (db_data s) \<and>
        drop (pos + len) (db_data s') = drop pos (db_data s) \<or>
      dbuf_insert s pos len = Some (-1, s') \<and> db_data s' = db_data s \<and> db_error s')"
  using wf n
proof (cases rule: dbuf_realloc_cases)
  case (room s')
  have r: "rdn (db_buf s') pos (db_size s' - pos) = Some (drop pos (db_data s'))"
    using rdn_data [of s' pos "db_size s' - pos"] room(2,5) pos length_db_data [OF room(2)]
    by simp
  let ?b = "take (pos + len) (db_buf s') @ drop pos (db_data s') @
            drop (pos + len + (db_size s' - pos)) (db_buf s')"
  have l: "length (drop pos (db_data s')) = db_size s' - pos" using room(2) by simp
  have w: "wrn (db_buf s') (pos + len) (drop pos (db_data s')) = Some ?b"
    using room pos l by (simp add: db_wf_def)
  let ?s = "s'\<lparr>db_buf := ?b, db_size := db_size s' + len\<rparr>"
  have "dbuf_insert s pos len = Some (0, ?s)"
    using room n pos r w by (simp add: dbuf_insert_def)
  moreover have "db_wf rf ?s" using room pos l by (auto simp: db_wf_def)
  moreover have "db_data ?s = take (pos + len) (db_buf s') @ drop pos (db_data s')"
    using room pos l by (simp add: db_data_def db_wf_def)
  moreover have "take pos (take (pos + len) (db_buf s')) = take pos (db_data s')"
    using room(5) pos by (simp add: db_data_def min_def)
  moreover have "length (take (pos + len) (db_buf s')) = pos + len"
    using room pos by (simp add: db_wf_def)
  ultimately show ?thesis using room pos by (intro exI [of _ ?s]) simp
next
  case (fail s')
  then show ?thesis using n by (intro exI [of _ s']) (simp add: dbuf_insert_def)
qed

text \<open>
  A client that ignores the return values, as the regexp compiler does, learns from the
  error flag alone whether everything was written.
\<close>

lemma dbuf_puts_latch:
  "db_wf rf s \<Longrightarrow> db_size s + length (concat ds) < 2 ^ 64 \<Longrightarrow>
   \<exists>s'. dbuf_puts s ds = Some s' \<and> db_wf rf s' \<and> db_size s' \<le> db_size s + length (concat ds) \<and>
        (db_error s \<longrightarrow> db_error s') \<and>
        (\<not> db_error s' \<longrightarrow> db_data s' = db_data s @ concat ds)"
proof (induction ds arbitrary: s)
  case Nil
  then show ?case by simp
next
  case (Cons d ds)
  have "db_appends rf s d (dbuf_put s d)"
    using Cons.prems by (intro dbuf_put_appends) auto
  then obtain r s1 where p: "dbuf_put s d = Some (r, s1)" "db_wf rf s1"
    "db_data s1 = db_data s @ d \<and> db_error s1 = db_error s \<or> db_data s1 = db_data s \<and> db_error s1"
    by (auto simp: db_appends_def)
  from p(3) have "length (db_data s1) \<le> length (db_data s) + length d" by auto
  then have sz: "db_size s1 \<le> db_size s + length d" using p(2) Cons.prems(1) by simp
  then have "db_size s1 + length (concat ds) < 2 ^ 64" using Cons.prems by simp
  from Cons.IH [OF p(2) this] show ?case using p sz by auto
qed

end

interpretation dfltb: byte_reallocator dbuf_default_realloc
  by unfold_locales

lemma db_wf_init: "db_wf f (dbuf_init2 h f)"
  by (simp add: db_wf_def dbuf_init2_def)

text \<open>
  Claim C22. Every append operation of the dynamic buffer (bytes, a copy of its own data,
  formatted text of either length) refines appending to a byte string, for any allocator
  that keeps \<open>realloc\<close>'s contract: it stays inside its block and either returns 0 with the
  bytes appended or returns -1 with the error flag set and the contents unchanged.
\<close>

theorem dbuf_append_refines:
  assumes "byte_reallocator f" and "db_wf f s" and "db_size s + length d + 1 < 2 ^ 64"
    and "offset + len \<le> db_size s" and "db_size s + len < 2 ^ 64"
  shows "db_appends f s d (dbuf_put s d) \<and>
         db_appends f s d (dbuf_printf s d) \<and>
         db_appends f s (take len (drop offset (db_data s))) (dbuf_put_self s offset len)"
proof (intro conjI)
  show "db_appends f s d (dbuf_put s d)"
    using assms by (intro byte_reallocator.dbuf_put_appends) auto
  show "db_appends f s d (dbuf_printf s d)"
    using assms by (intro byte_reallocator.dbuf_printf_appends) auto
  show "db_appends f s (take len (drop offset (db_data s))) (dbuf_put_self s offset len)"
    using assms by (intro byte_reallocator.dbuf_put_self_appends) auto
qed

theorem dbuf_append_refines_witness:
  "let s = \<lparr>db_buf = [7, 8, 0], db_size = 2, db_allocated_size = 3, db_error = False,
            db_realloc_func = Some dbuf_default_realloc, db_opaque = (100::nat)\<rparr>
   in byte_reallocator dbuf_default_realloc \<and> db_wf dbuf_default_realloc s \<and>
      db_appends dbuf_default_realloc s [1, 2] (dbuf_put s [1, 2]) \<and>
      db_appends dbuf_default_realloc s [8] (dbuf_put_self s 1 1)"
proof -
  let ?s = "\<lparr>db_buf = [7, 8, 0], db_size = 2, db_allocated_size = 3, db_error = False,
            db_realloc_func = Some dbuf_default_realloc, db_opaque = (100::nat)\<rparr>"
  have wf: "db_wf dbuf_default_realloc ?s" by (simp add: db_wf_def)
  show ?thesis
    using wf dfltb.byte_reallocator_axioms
      dbuf_append_refines [OF dfltb.byte_reallocator_axioms wf, of "[1, 2]" 1 1]
    by (simp add: Let_def db_data_def)
qed

text \<open>
  Claim C23. Starting from a fresh buffer, any sequence of writes whose return values are
  ignored runs without undefined behaviour, and if the error flag is clear at the end the
  buffer holds exactly the concatenation of everything written.
\<close>

theorem dbuf_error_flag_latches:
  assumes "byte_reallocator f" and "length (concat ds) < 2 ^ 64"
  shows "\<exists>s. dbuf_puts (dbuf_init2 h f) ds = Some s \<and> db_wf f s \<and>
             (\<not> dbuf_error s \<longrightarrow> db_data s = concat ds)"
proof -
  have "db_size (dbuf_init2 h f) + length (concat ds) < 2 ^ 64"
    using assms(2) by (simp add: dbuf_init2_def)
  from byte_reallocator.dbuf_puts_latch [OF assms(1) db_wf_init this]
  show ?thesis by (auto simp: dbuf_error_def db_data_def dbuf_init2_def)
qed

theorem dbuf_error_flag_latches_witness:
  "length (concat [[1, 2], [3 :: u8]]) < 2 ^ 64 \<and>
   (\<exists>s. dbuf_puts (dbuf_init2 2 dbuf_default_realloc) [[1, 2], [3]] = Some s \<and>
        db_wf dbuf_default_realloc s \<and> (\<not> dbuf_error s \<longrightarrow> db_data s = concat [[1, 2], [3]]))"
  using dbuf_error_flag_latches
    [OF dfltb.byte_reallocator_axioms, of "[[1, 2], [3]]" 2] by simp

end
