(* ===== verification/Js_Malloc.thy ===== *)
theory Js_Malloc
  imports QJS_Prelude "HOL-Library.Multiset"
begin

text \<open>
  The memory functions of \<open>quickjs.c\<close>: the default allocator, which counts the blocks and their
  sizes and enforces a limit, and the wrappers that the engine calls. The allocator of the C library
  is a parameter: a block is the list of its bytes, of the size that it really has.
\<close>

subsection \<open>The default allocator\<close>

record 'm c_library =
  c_malloc :: "'m \<Rightarrow> nat \<Rightarrow> 'm \<times> u8 list option"
  c_free :: "'m \<Rightarrow> u8 list \<Rightarrow> 'm"
  c_realloc :: "'m \<Rightarrow> u8 list \<Rightarrow> nat \<Rightarrow> 'm \<times> u8 list option"
  c_usable_size :: "nat \<Rightarrow> nat"

record 'm JSMallocState =
  malloc_count :: u64
  malloc_size :: u64
  malloc_limit :: u64
  c_heap :: 'm

text \<open>The platforms that the source distinguishes.\<close>

datatype platform = Apple | Win32 | Emscripten | Linux | Other_platform

definition MALLOC_OVERHEAD :: "platform \<Rightarrow> u64" where
  "MALLOC_OVERHEAD pf = (if pf = Apple then 0 else 8)"

definition js_def_malloc_usable_size :: "'m c_library \<Rightarrow> platform \<Rightarrow> u8 list \<Rightarrow> u64" where
  "js_def_malloc_usable_size lib pf p =
     (case pf of
        Apple \<Rightarrow> of_nat (c_usable_size lib (length p))
      | Win32 \<Rightarrow> of_nat (c_usable_size lib (length p))
      | Emscripten \<Rightarrow> 0
      | Linux \<Rightarrow> 0
      | Other_platform \<Rightarrow> of_nat (c_usable_size lib (length p)))"

definition js_def_malloc :: "'m c_library \<Rightarrow> platform \<Rightarrow> 'm JSMallocState \<Rightarrow> u64 \<Rightarrow> ('m JSMallocState \<times> u8 list option) option" where
  "js_def_malloc lib pf s sz =
     (if sz = 0 then None
      else if malloc_size s + sz > malloc_limit s then Some (s, None)
      else Some (case c_malloc lib (c_heap s) (unat sz) of
          (m, None) \<Rightarrow> (s\<lparr>c_heap := m\<rparr>, None)
        | (m, Some p) \<Rightarrow>
            (s\<lparr>c_heap := m, malloc_count := malloc_count s + 1,
              malloc_size := malloc_size s + (js_def_malloc_usable_size lib pf p + MALLOC_OVERHEAD pf)\<rparr>, Some p)))"

definition js_def_free :: "'m c_library \<Rightarrow> platform \<Rightarrow> 'm JSMallocState \<Rightarrow> u8 list option \<Rightarrow> 'm JSMallocState" where
  "js_def_free lib pf s ptr =
     (case ptr of
        None \<Rightarrow> s
      | Some p \<Rightarrow>
          s\<lparr>malloc_count := malloc_count s - 1,
            malloc_size := malloc_size s - (js_def_malloc_usable_size lib pf p + MALLOC_OVERHEAD pf),
            c_heap := c_free lib (c_heap s) p\<rparr>)"

definition js_def_realloc ::
    "'m c_library \<Rightarrow> platform \<Rightarrow> 'm JSMallocState \<Rightarrow> u8 list option \<Rightarrow> u64 \<Rightarrow> ('m JSMallocState \<times> u8 list option) option" where
  "js_def_realloc lib pf s ptr sz =
     (case ptr of
        None \<Rightarrow> if sz = 0 then Some (s, None) else js_def_malloc lib pf s sz
      | Some p \<Rightarrow>
          let old_size = js_def_malloc_usable_size lib pf p in
          if sz = 0 then
            Some (s\<lparr>malloc_count := malloc_count s - 1, malloc_size := malloc_size s - (old_size + MALLOC_OVERHEAD pf),
                   c_heap := c_free lib (c_heap s) p\<rparr>, None)
          else if malloc_size s + sz - old_size > malloc_limit s then Some (s, None)
          else Some (case c_realloc lib (c_heap s) p (unat sz) of
              (m, None) \<Rightarrow> (s\<lparr>c_heap := m\<rparr>, None)
            | (m, Some q) \<Rightarrow>
                (s\<lparr>c_heap := m, malloc_size := malloc_size s + (js_def_malloc_usable_size lib pf q - old_size)\<rparr>, Some q)))"

definition JS_SetMemoryLimit :: "'m JSMallocState \<Rightarrow> u64 \<Rightarrow> 'm JSMallocState" where
  "JS_SetMemoryLimit s limit = s\<lparr>malloc_limit := limit\<rparr>"

text \<open>The state before the runtime itself is allocated.\<close>

definition initial_malloc_state :: "'m \<Rightarrow> 'm JSMallocState" where
  "initial_malloc_state m = \<lparr>malloc_count = 0, malloc_size = 0, malloc_limit = -1, c_heap = m\<rparr>"

subsection \<open>The functions of the runtime\<close>

text \<open>
  The functions of the runtime call the allocator it was created with, here the default one; the
  exception that \<open>js_realloc2\<close> throws is the missing block of its result.
\<close>

definition js_realloc_rt ::
    "'m c_library \<Rightarrow> platform \<Rightarrow> 'm JSMallocState \<Rightarrow> u8 list option \<Rightarrow> u64 \<Rightarrow> ('m JSMallocState \<times> u8 list option) option" where
  "js_realloc_rt lib pf s ptr sz = js_def_realloc lib pf s ptr sz"

definition js_malloc_usable_size_rt :: "'m c_library \<Rightarrow> platform \<Rightarrow> u8 list \<Rightarrow> u64" where
  "js_malloc_usable_size_rt lib pf p = js_def_malloc_usable_size lib pf p"

definition js_realloc2 ::
    "'m c_library \<Rightarrow> platform \<Rightarrow> 'm JSMallocState \<Rightarrow> u8 list option \<Rightarrow> u64 \<Rightarrow> ('m JSMallocState \<times> (u8 list \<times> u64) option) option" where
  "js_realloc2 lib pf s ptr sz =
     do {
       (s, ret) \<leftarrow> js_realloc_rt lib pf s ptr sz;
       (case ret of
          None \<Rightarrow> if sz \<noteq> 0 then Some (s, None) else None
        | Some p \<Rightarrow>
            let new_size = js_malloc_usable_size_rt lib pf p
            in Some (s, Some (p, if new_size > sz then new_size - sz else 0)))
     }"

subsection \<open>The accounts\<close>

text \<open>
  Live blocks, by their sizes: \<open>mem_reach s0 L0 s L\<close> says that calls of the allocator lead from
  \<open>s0\<close> with the blocks \<open>L0\<close> to \<open>s\<close> with the blocks \<open>L\<close>. Only live blocks are freed or reallocated.
\<close>

definition block_of :: "u8 list option \<Rightarrow> nat multiset" where
  "block_of r = (case r of None \<Rightarrow> {#} | Some p \<Rightarrow> {#length p#})"

inductive mem_reach ::
    "'m c_library \<Rightarrow> platform \<Rightarrow> 'm JSMallocState \<Rightarrow> nat multiset \<Rightarrow> 'm JSMallocState \<Rightarrow> nat multiset \<Rightarrow> bool"
  for lib pf s0 L0 where
  start: "mem_reach lib pf s0 L0 s0 L0"
| malloc: "mem_reach lib pf s0 L0 s L \<Longrightarrow> js_def_malloc lib pf s n = Some (s', r) \<Longrightarrow> mem_reach lib pf s0 L0 s' (L + block_of r)"
| free: "mem_reach lib pf s0 L0 s L \<Longrightarrow> length p \<in># L \<Longrightarrow> mem_reach lib pf s0 L0 (js_def_free lib pf s (Some p)) (L - {#length p#})"
| free_null: "mem_reach lib pf s0 L0 s L \<Longrightarrow> mem_reach lib pf s0 L0 (js_def_free lib pf s None) L"
| realloc: "mem_reach lib pf s0 L0 s L \<Longrightarrow> length p \<in># L \<Longrightarrow> js_def_realloc lib pf s (Some p) n = Some (s', Some q) \<Longrightarrow>
    mem_reach lib pf s0 L0 s' (L - {#length p#} + {#length q#})"
| realloc_fail: "mem_reach lib pf s0 L0 s L \<Longrightarrow> length p \<in># L \<Longrightarrow> n \<noteq> 0 \<Longrightarrow> js_def_realloc lib pf s (Some p) n = Some (s', None) \<Longrightarrow>
    mem_reach lib pf s0 L0 s' L"
| realloc_zero: "mem_reach lib pf s0 L0 s L \<Longrightarrow> length p \<in># L \<Longrightarrow> js_def_realloc lib pf s (Some p) 0 = Some (s', None) \<Longrightarrow>
    mem_reach lib pf s0 L0 s' (L - {#length p#})"
| realloc_null: "mem_reach lib pf s0 L0 s L \<Longrightarrow> js_def_realloc lib pf s None n = Some (s', r) \<Longrightarrow> mem_reach lib pf s0 L0 s' (L + block_of r)"

text \<open>What a block counts for, and the accounts of a set of blocks.\<close>

definition reported :: "'m c_library \<Rightarrow> platform \<Rightarrow> nat \<Rightarrow> nat" where
  "reported lib pf n = (if pf = Emscripten \<or> pf = Linux then 0 else c_usable_size lib n)"

lemma usable_reported: "js_def_malloc_usable_size lib pf p = of_nat (reported lib pf (length p))"
  by (simp add: js_def_malloc_usable_size_def reported_def split: platform.splits)

definition account :: "'m c_library \<Rightarrow> platform \<Rightarrow> nat multiset \<Rightarrow> nat" where
  "account lib pf L = (\<Sum>n\<in>#L. reported lib pf n + unat (MALLOC_OVERHEAD pf))"

definition accounted :: "'m c_library \<Rightarrow> platform \<Rightarrow> 'm JSMallocState \<Rightarrow> nat multiset \<Rightarrow> bool" where
  "accounted lib pf s L \<longleftrightarrow> malloc_count s = of_nat (size L) \<and> malloc_size s = of_nat (account lib pf L)"

lemma account_add [simp]:
  "account lib pf {#} = 0"
  "account lib pf (add_mset n L) = reported lib pf n + unat (MALLOC_OVERHEAD pf) + account lib pf L"
  by (simp_all add: account_def)

lemma accounted_update [simp]:
  "accounted lib pf (s\<lparr>c_heap := m\<rparr>) L = accounted lib pf s L" "accounted lib pf (s\<lparr>malloc_limit := l\<rparr>) L = accounted lib pf s L"
  by (simp_all add: accounted_def)

lemma malloc_accounted:
  assumes "accounted lib pf s L" and "js_def_malloc lib pf s n = Some (s', r)"
  shows "accounted lib pf s' (L + block_of r)"
  using assms
  by (auto simp: js_def_malloc_def block_of_def accounted_def usable_reported ac_simps split: if_splits prod.splits option.splits)

lemma free_accounted:
  assumes "accounted lib pf s L" and "length p \<in># L"
  shows "accounted lib pf (js_def_free lib pf s (Some p)) (L - {#length p#})"
proof -
  obtain M where "L = add_mset (length p) M" using assms(2) by (rule mset_add)
  then show ?thesis using assms(1) by (simp add: js_def_free_def accounted_def usable_reported)
qed

lemma realloc_accounted:
  assumes "accounted lib pf s L" and "length p \<in># L" and "js_def_realloc lib pf s (Some p) n = Some (s', r)"
  shows "accounted lib pf s' (case r of Some q \<Rightarrow> L - {#length p#} + {#length q#} | None \<Rightarrow> if n = 0 then L - {#length p#} else L)"
proof -
  obtain M where "L = add_mset (length p) M" using assms(2) by (rule mset_add)
  then show ?thesis using assms(1,3)
    by (auto simp: js_def_realloc_def Let_def accounted_def usable_reported algebra_simps split: if_splits prod.splits option.splits)
qed

lemma reach_accounted: "mem_reach lib pf s0 L0 s L \<Longrightarrow> accounted lib pf s0 L0 \<Longrightarrow> accounted lib pf s L"
proof (induction rule: mem_reach.induct)
  case (realloc s L p n s' q)
  then show ?case using realloc_accounted [of lib pf s L p n s' "Some q"] by simp
next
  case (realloc_fail s L p n s')
  then show ?case using realloc_accounted [of lib pf s L p n s' None] by simp
next
  case (realloc_zero s L p s')
  then show ?case using realloc_accounted [of lib pf s L p 0 s' None] by simp
next
  case (realloc_null s L n s' r)
  then show ?case using malloc_accounted by (auto simp: js_def_realloc_def block_of_def split: if_splits)
qed (simp_all add: malloc_accounted free_accounted, simp add: js_def_free_def)

subsection \<open>The limit\<close>

text \<open>
  What is relied on of the C library: blocks have at least the size asked for and at most \<open>2 ^ 20\<close>
  bytes more, requests of half the address space fail, \<open>realloc\<close> keeps the contents, and the usable
  size is within the block.
\<close>

lemma of_nat_inverse_u64: "n < 2 ^ 64 \<Longrightarrow> unat (of_nat n :: u64) = n"
  by (simp add: unat_of_nat take_bit_nat_eq_self)

locale c_allocator =
  fixes lib :: "'m c_library"
  assumes malloc_length: "c_malloc lib m n = (m', Some p) \<Longrightarrow> n \<le> length p \<and> length p \<le> n + 2 ^ 20 \<and> n < 2 ^ 63"
    and realloc_length: "c_realloc lib m b n = (m', Some p) \<Longrightarrow> n \<le> length p \<and> length p \<le> n + 2 ^ 20 \<and> n < 2 ^ 63"
    and realloc_prefix: "c_realloc lib m b n = (m', Some p) \<Longrightarrow> k \<le> length b \<Longrightarrow> k \<le> n \<Longrightarrow> take k p = take k b"
    and usable_within: "c_usable_size lib n \<le> n"
begin

lemma reported_within: "reported lib pf n \<le> n"
  using usable_within by (simp add: reported_def)

definition slack_max :: nat where
  "slack_max = 2 ^ 20 + 8"

definition limited :: "platform \<Rightarrow> nat \<Rightarrow> 'm JSMallocState \<Rightarrow> nat multiset \<Rightarrow> bool" where
  "limited pf lim s L \<longleftrightarrow> accounted lib pf s L \<and> unat (malloc_limit s) = lim \<and> account lib pf L \<le> lim + slack_max"

lemma overhead_le: "unat (MALLOC_OVERHEAD pf) \<le> 8"
  by (simp add: MALLOC_OVERHEAD_def)

lemma unat_account:
  assumes "limited pf lim s L" and "lim < 2 ^ 62"
  shows "unat (malloc_size s) = account lib pf L"
proof -
  have "account lib pf L < 2 ^ 64" using assms by (simp add: limited_def slack_max_def)
  then show ?thesis using assms(1) by (simp add: limited_def accounted_def unat_of_nat take_bit_nat_eq_self)
qed

lemma malloc_limited:
  assumes s: "limited pf lim s L" and lim: "lim < 2 ^ 62" and m: "js_def_malloc lib pf s n = Some (s', r)"
  shows "limited pf lim s' (L + block_of r)"
proof (cases r)
  case None
  then show ?thesis using s m malloc_accounted [OF _ m, of L]
    by (auto simp: limited_def js_def_malloc_def block_of_def split: if_splits prod.splits option.splits)
next
  case (Some p)
  then obtain m' where c: "c_malloc lib (c_heap s) (unat n) = (m', Some p)" "\<not> malloc_limit s < malloc_size s + n"
      "malloc_limit s' = malloc_limit s"
    using m by (auto simp: js_def_malloc_def split: if_splits prod.splits option.splits)
  have A: "account lib pf L \<le> lim + slack_max" "unat (malloc_limit s) = lim" using s by (auto simp: limited_def)
  have n: "unat n < 2 ^ 63" "length p \<le> unat n + 2 ^ 20" using malloc_length [OF c(1)] by auto
  have "unat (malloc_size s + n) = account lib pf L + unat n"
    using unat_account [OF s lim] A(1) n(1) lim by (simp add: unat_word_ariths slack_max_def)
  then have "account lib pf L + unat n \<le> lim" using c(2) A(2) by (simp add: word_less_nat_alt not_less)
  then have "account lib pf (add_mset (length p) L) \<le> lim + slack_max"
    using reported_within [of pf "length p"] n(2) overhead_le [of pf] by (simp add: slack_max_def)
  moreover have "accounted lib pf s' (add_mset (length p) L)" using malloc_accounted [OF _ m, of L] s Some by (simp add: limited_def block_of_def)
  ultimately show ?thesis using Some c(3) A(2) by (simp add: limited_def block_of_def)
qed

lemma less_limited:
  assumes "limited pf lim s (add_mset n M)" and "accounted lib pf s' M" and "malloc_limit s' = malloc_limit s"
  shows "limited pf lim s' M"
  using assms by (simp add: limited_def)

lemma realloc_limited:
  assumes s: "limited pf lim s L" and lim: "lim < 2 ^ 62" and p: "length p \<in># L" and m: "js_def_realloc lib pf s (Some p) n = Some (s', r)"
  shows "limited pf lim s' (case r of Some q \<Rightarrow> L - {#length p#} + {#length q#} | None \<Rightarrow> if n = 0 then L - {#length p#} else L)"
proof -
  obtain M where M: "L = add_mset (length p) M" using p by (rule mset_add)
  have acc: "accounted lib pf s' (case r of Some q \<Rightarrow> L - {#length p#} + {#length q#} | None \<Rightarrow> if n = 0 then L - {#length p#} else L)"
    using realloc_accounted [OF _ p m] s by (simp add: limited_def)
  have lm: "malloc_limit s' = malloc_limit s" using m by (auto simp: js_def_realloc_def Let_def split: if_splits prod.splits option.splits)
  show ?thesis
  proof (cases r)
    case None
    then show ?thesis using acc lm s less_limited [of pf lim s "length p" M s'] M by (auto simp: limited_def split: if_splits)
  next
    case (Some q)
    let ?o = "reported lib pf (length p)" let ?a = "account lib pf M + unat (MALLOC_OVERHEAD pf)"
    obtain m' where c: "c_realloc lib (c_heap s) p (unat n) = (m', Some q)" "\<not> malloc_limit s < malloc_size s + n - of_nat ?o"
      using m Some by (auto simp: js_def_realloc_def Let_def usable_reported split: if_splits prod.splits option.splits)
    have A: "?o + ?a \<le> lim + slack_max" "unat (malloc_limit s) = lim" using s M by (auto simp: limited_def ac_simps)
    have n: "unat n < 2 ^ 63" "length q \<le> unat n + 2 ^ 20" using realloc_length [OF c(1)] by auto
    have "malloc_size s + n - of_nat ?o = of_nat (?a + unat n)"
      using s M by (simp add: limited_def accounted_def)
    moreover have "?a + unat n < 2 ^ 64" using A(1) n(1) lim by (simp add: slack_max_def)
    ultimately have "unat (malloc_size s + n - of_nat ?o) = ?a + unat n" by (metis of_nat_inverse_u64)
    then have "?a + unat n \<le> lim" using c(2) A(2) by (simp add: word_less_nat_alt not_less)
    then have "account lib pf (add_mset (length q) M) \<le> lim + slack_max"
      using reported_within [of pf "length q"] n(2) by (simp add: slack_max_def)
    then show ?thesis using acc lm Some M A(2) by (simp add: limited_def)
  qed
qed

lemma reach_limited:
  "mem_reach lib pf s0 L0 s L \<Longrightarrow> lim < 2 ^ 62 \<Longrightarrow> limited pf lim s0 L0 \<Longrightarrow> limited pf lim s L"
proof (induction rule: mem_reach.induct)
  case (free s L p)
  obtain M where M: "L = add_mset (length p) M" using free.hyps(2) by (rule mset_add)
  have "accounted lib pf (js_def_free lib pf s (Some p)) (L - {#length p#})" using free_accounted [of lib pf s L p] free by (simp add: limited_def)
  then show ?case using less_limited [of pf lim s "length p" M] free M by (simp add: js_def_free_def)
next
  case (realloc s L p n s' q)
  then show ?case using realloc_limited [of pf lim s L p n s' "Some q"] by simp
next
  case (realloc_fail s L p n s')
  then show ?case using realloc_limited [of pf lim s L p n s' None] by simp
next
  case (realloc_zero s L p s')
  then show ?case using realloc_limited [of pf lim s L p 0 s' None] by simp
next
  case (realloc_null s L n s' r)
  then show ?case using malloc_limited by (auto simp: js_def_realloc_def block_of_def split: if_splits)
qed (simp_all add: malloc_limited, simp add: js_def_free_def)

end

text \<open>A library that gives blocks of exactly the size asked for, up to a gigabyte each.\<close>

definition exact_library :: "unit c_library" where
  "exact_library =
     \<lparr>c_malloc = (\<lambda>m n. (m, if n < 2 ^ 30 then Some (replicate n 0) else None)),
      c_free = (\<lambda>m p. m),
      c_realloc = (\<lambda>m p n. (m, if n < 2 ^ 30 then Some (take n p @ replicate (n - length p) 0) else None)),
      c_usable_size = (\<lambda>n. n)\<rparr>"

interpretation exact: c_allocator exact_library
  by unfold_locales (auto simp: exact_library_def split: if_splits)

lemma example_blocks:
  assumes "pf = Linux" and "s0 = JS_SetMemoryLimit (initial_malloc_state ()) 1000"
  shows "mem_reach exact_library pf s0 {#} (s0\<lparr>malloc_count := 1, malloc_size := 8\<rparr>) {#900#}"
    and "mem_reach exact_library pf s0 {#} (s0\<lparr>malloc_count := 2, malloc_size := 16\<rparr>) {#900, 900#}"
proof -
  have 1: "js_def_malloc exact_library pf s0 900 = Some (s0\<lparr>malloc_count := 1, malloc_size := 8\<rparr>, Some (replicate 900 0))"
    using assms by (simp add: js_def_malloc_def JS_SetMemoryLimit_def initial_malloc_state_def exact_library_def js_def_malloc_usable_size_def MALLOC_OVERHEAD_def)
  have 2: "js_def_malloc exact_library pf (s0\<lparr>malloc_count := 1, malloc_size := 8\<rparr>) 900 = Some (s0\<lparr>malloc_count := 2, malloc_size := 16\<rparr>, Some (replicate 900 0))"
    using assms by (simp add: js_def_malloc_def JS_SetMemoryLimit_def initial_malloc_state_def exact_library_def js_def_malloc_usable_size_def MALLOC_OVERHEAD_def)
  show r: "mem_reach exact_library pf s0 {#} (s0\<lparr>malloc_count := 1, malloc_size := 8\<rparr>) {#900#}"
    using mem_reach.malloc [OF mem_reach.start 1] by (simp add: block_of_def)
  show "mem_reach exact_library pf s0 {#} (s0\<lparr>malloc_count := 2, malloc_size := 16\<rparr>) {#900, 900#}"
    using mem_reach.malloc [OF r 2] by (simp add: block_of_def)
qed

lemma example_apple:
  assumes "s0 = JS_SetMemoryLimit (initial_malloc_state ()) 1000"
  shows "mem_reach exact_library Apple s0 {#} (s0\<lparr>malloc_count := 1, malloc_size := 900\<rparr>) {#900#}"
proof -
  have "js_def_malloc exact_library Apple s0 900 = Some (s0\<lparr>malloc_count := 1, malloc_size := 900\<rparr>, Some (replicate 900 0))"
    using assms by (simp add: js_def_malloc_def JS_SetMemoryLimit_def initial_malloc_state_def exact_library_def js_def_malloc_usable_size_def MALLOC_OVERHEAD_def)
  from mem_reach.malloc [OF mem_reach.start this] show ?thesis by (simp add: block_of_def)
qed

lemma initial_accounted: "accounted lib pf (initial_malloc_state m) {#}"
  by (simp add: accounted_def initial_malloc_state_def)

text \<open>
  Claim C19. The counters of the allocator are exact: after any calls of malloc, realloc and free on
  live blocks, failing ones included, \<open>malloc_count\<close> is the number of live blocks and \<open>malloc_size\<close>
  the sum of their usable sizes and overheads, modulo the width of \<open>size_t\<close>.
\<close>

theorem memory_accounts:
  assumes "accounted lib pf s0 L0" and "mem_reach lib pf (JS_SetMemoryLimit s0 lim) L0 s L"
  shows "malloc_count s = of_nat (size L) \<and> malloc_size s = of_nat (\<Sum>n\<in>#L. reported lib pf n + unat (MALLOC_OVERHEAD pf))"
  using reach_accounted [OF assms(2)] assms(1) by (simp add: JS_SetMemoryLimit_def accounted_def account_def)

theorem memory_accounts_witness:
  "\<exists>s. mem_reach exact_library Linux (JS_SetMemoryLimit (initial_malloc_state ()) 1000) {#} s {#900#} \<and> malloc_count s = 1 \<and> malloc_size s = 8"
proof -
  let ?s = "(JS_SetMemoryLimit (initial_malloc_state ()) 1000)\<lparr>malloc_count := 1, malloc_size := 8\<rparr>"
  note r = example_blocks(1) [OF refl refl]
  have "malloc_count ?s = 1" "malloc_size ?s = 8"
    using memory_accounts [OF initial_accounted r] by (simp_all add: reported_def MALLOC_OVERHEAD_def)
  then show ?thesis using r by blast
qed




end
