(* ===== verification/Js_String.thy ===== *)
theory Js_String
  imports Js_Malloc "HOL-Library.List_Lexorder"
begin

text \<open>
  The strings of \<open>quickjs.c\<close>: sequences of 16-bit code units, stored in bytes when all units fit.
  Here their comparison, the parts and the concatenation of strings.
\<close>

subsection \<open>Strings\<close>

datatype JSString = Str8 "u8 list" | Str16 "u16 list"

fun str_len :: "JSString \<Rightarrow> nat" where
  "str_len (Str8 s) = length s"
| "str_len (Str16 s) = length s"

text \<open>
  The loop of \<open>memcmp16\<close> and \<open>memcmp16_8\<close>; the library's \<open>memcmp\<close> only promises the sign of its
  result, and the same difference has that sign.
\<close>

fun memcmp_loop :: "('a::len) word list \<Rightarrow> ('b::len) word list \<Rightarrow> nat \<Rightarrow> nat \<Rightarrow> int option" where
  "memcmp_loop src1 src2 i 0 = Some 0"
| "memcmp_loop src1 src2 i (Suc n) =
     do {
       a \<leftarrow> rd src1 i; b \<leftarrow> rd src2 i;
       let c = uint a - uint b;
       if c \<noteq> 0 then Some c else memcmp_loop src1 src2 (i + 1) n
     }"

definition memcmp16_8 :: "u16 list \<Rightarrow> u8 list \<Rightarrow> nat \<Rightarrow> int option" where
  "memcmp16_8 src1 src2 len = memcmp_loop src1 src2 0 len"

definition memcmp16 :: "u16 list \<Rightarrow> u16 list \<Rightarrow> nat \<Rightarrow> int option" where
  "memcmp16 src1 src2 len = memcmp_loop src1 src2 0 len"

definition c_memcmp :: "u8 list \<Rightarrow> u8 list \<Rightarrow> nat \<Rightarrow> int option" where
  "c_memcmp src1 src2 len = memcmp_loop src1 src2 0 len"

fun js_string_memcmp :: "JSString \<Rightarrow> JSString \<Rightarrow> nat \<Rightarrow> int option" where
  "js_string_memcmp (Str8 p1) (Str8 p2) len = c_memcmp p1 p2 len"
| "js_string_memcmp (Str8 p1) (Str16 p2) len = map_option uminus (memcmp16_8 p2 p1 len)"
| "js_string_memcmp (Str16 p1) (Str8 p2) len = memcmp16_8 p1 p2 len"
| "js_string_memcmp (Str16 p1) (Str16 p2) len = memcmp16 p1 p2 len"

definition js_string_compare :: "JSString \<Rightarrow> JSString \<Rightarrow> int option" where
  "js_string_compare p1 p2 =
     do {
       res \<leftarrow> js_string_memcmp p1 p2 (min (str_len p1) (str_len p2));
       Some (if res = 0
             then (if str_len p1 = str_len p2 then 0 else if str_len p1 < str_len p2 then -1 else 1)
             else res)
     }"

subsection \<open>Characters, parts and concatenation\<close>

text \<open>
  What strings need of the runtime, on the state of its heap: \<open>js_realloc2\<close> with an old block (or
  none, for the null pointer) and the number of bytes after the header, whose answer is the new block
  with the slack after the bytes asked for, or none when an exception was thrown; \<open>js_realloc_rt\<close>,
  which does not throw; and the exception for strings that are too long.
\<close>

record 'h str_runtime =
  rt_realloc2 :: "'h \<Rightarrow> u8 list option \<Rightarrow> nat \<Rightarrow> 'h \<times> (u8 list \<times> nat) option"
  rt_realloc :: "'h \<Rightarrow> u8 list \<Rightarrow> nat \<Rightarrow> 'h \<times> u8 list option"
  rt_too_long :: "'h \<Rightarrow> 'h"

definition str_bytes :: "nat \<Rightarrow> bool \<Rightarrow> nat" where
  "str_bytes len is_wide_char = (if is_wide_char then 2 * len else len + 1)"

text \<open>The shift of the length may not overflow an \<open>int\<close>.\<close>

definition js_alloc_string :: "'h str_runtime \<Rightarrow> 'h \<Rightarrow> nat \<Rightarrow> bool \<Rightarrow> ('h \<times> u8 list option) option" where
  "js_alloc_string ra h max_len is_wide_char =
     do {
       _ \<leftarrow> cint (int (str_bytes max_len is_wide_char));
       Some (case rt_realloc2 ra h None (str_bytes max_len is_wide_char) of (h, r) \<Rightarrow> (h, map_option fst r))
     }"

definition js_new_string8 :: "'h str_runtime \<Rightarrow> 'h \<Rightarrow> u8 list \<Rightarrow> nat \<Rightarrow> nat \<Rightarrow> ('h \<times> JSString option) option" where
  "js_new_string8 ra h buf i len =
     (if len = 0 then Some (h, Some (Str8 []))
      else do {
        (h, r) \<leftarrow> js_alloc_string ra h len False;
        (case r of
           None \<Rightarrow> Some (h, None)
         | Some b \<Rightarrow> do {
             d \<leftarrow> rdn buf i len;
             b \<leftarrow> wrn b 0 d;
             b \<leftarrow> wr b len 0;
             Some (h, Some (Str8 (take len b)))
           })
      })"

text \<open>The elements of a block of code units.\<close>

definition units :: "u8 list \<Rightarrow> nat \<Rightarrow> u16 list" where
  "units b n = map (\<lambda>i. le_word (take 2 (drop (2 * i) b))) [0..<n]"

definition unit_bytes :: "u16 list \<Rightarrow> u8 list" where
  "unit_bytes us = concat (map (le_bytes 2) us)"

definition js_new_string16 :: "'h str_runtime \<Rightarrow> 'h \<Rightarrow> u16 list \<Rightarrow> nat \<Rightarrow> nat \<Rightarrow> ('h \<times> JSString option) option" where
  "js_new_string16 ra h buf i len =
     do {
       (h, r) \<leftarrow> js_alloc_string ra h len True;
       (case r of
          None \<Rightarrow> Some (h, None)
        | Some b \<Rightarrow> do {
            d \<leftarrow> rdn buf i len;
            b \<leftarrow> wrn b 0 (unit_bytes d);
            Some (h, Some (Str16 (units b len)))
          })
     }"

definition js_new_string_char :: "'h str_runtime \<Rightarrow> 'h \<Rightarrow> u16 \<Rightarrow> ('h \<times> JSString option) option" where
  "js_new_string_char ra h c =
     (if c < 0x100 then js_new_string8 ra h [ucast c] 0 1 else js_new_string16 ra h [c] 0 1)"

fun string_get :: "JSString \<Rightarrow> nat \<Rightarrow> u16 option" where
  "string_get (Str16 s) i = rd s i"
| "string_get (Str8 s) i = map_option ucast (rd s i)"

text \<open>The next code point: a surrogate pair counts as one.\<close>

definition is_hi :: "u16 \<Rightarrow> bool" where
  "is_hi c \<longleftrightarrow> 0xd800 \<le> c \<and> c < 0xdc00"

definition is_lo :: "u16 \<Rightarrow> bool" where
  "is_lo c \<longleftrightarrow> 0xdc00 \<le> c \<and> c < 0xe000"

definition from_surrogates :: "u16 \<Rightarrow> u16 \<Rightarrow> u32" where
  "from_surrogates c c1 = (push_bit 10 (ucast c AND 0x3ff) OR (ucast c1 AND 0x3ff)) + 0x10000"

fun string_getc :: "JSString \<Rightarrow> nat \<Rightarrow> (u32 \<times> nat) option" where
  "string_getc (Str16 s) i =
     do {
       c \<leftarrow> rd s i;
       if is_hi c \<and> i + 1 < length s then do {
         c1 \<leftarrow> rd s (i + 1);
         if is_lo c1 then Some (from_surrogates c c1, i + 2) else Some (ucast c, i + 1)
       }
       else Some (ucast c, i + 1)
     }"
| "string_getc (Str8 s) i = do { c \<leftarrow> rd s i; Some (ucast c, i + 1) }"

fun or_loop :: "u16 list \<Rightarrow> nat \<Rightarrow> nat \<Rightarrow> u16 \<Rightarrow> u16 option" where
  "or_loop s i 0 c = Some c"
| "or_loop s i (Suc n) c = do { x \<leftarrow> rd s i; or_loop s (i + 1) n (c OR x) }"

fun narrow_loop :: "u8 list \<Rightarrow> u16 list \<Rightarrow> nat \<Rightarrow> nat \<Rightarrow> nat \<Rightarrow> u8 list option" where
  "narrow_loop b s start i 0 = Some b"
| "narrow_loop b s start i (Suc n) = do { x \<leftarrow> rd s (start + i); b \<leftarrow> wr b i (ucast x); narrow_loop b s start (i + 1) n }"

definition js_sub_string :: "'h str_runtime \<Rightarrow> 'h \<Rightarrow> JSString \<Rightarrow> nat \<Rightarrow> nat \<Rightarrow> ('h \<times> JSString option) option" where
  "js_sub_string ra h p start stop =
     (if start = 0 \<and> stop = str_len p then Some (h, Some p)
      else case p of
          Str16 s \<Rightarrow>
            if stop \<le> start then Some (h, Some (Str8 []))
            else do {
              c \<leftarrow> or_loop s start (stop - start) 0;
              if c > 0xff then js_new_string16 ra h s start (stop - start)
              else do {
                (h, r) \<leftarrow> js_alloc_string ra h (stop - start) False;
                (case r of
                   None \<Rightarrow> Some (h, None)
                 | Some b \<Rightarrow> do {
                     b \<leftarrow> narrow_loop b s start 0 (stop - start);
                     b \<leftarrow> wr b (stop - start) 0;
                     Some (h, Some (Str8 (take (stop - start) b)))
                   })
              }
            }
        | Str8 s \<Rightarrow> js_new_string8 ra h s start (stop - start))"

text \<open>Writing a string as code units at an index of a block.\<close>

fun copy_units_loop :: "u8 list \<Rightarrow> nat \<Rightarrow> u8 list \<Rightarrow> nat \<Rightarrow> nat \<Rightarrow> u8 list option" where
  "copy_units_loop b j s i 0 = Some b"
| "copy_units_loop b j s i (Suc n) =
     do { x \<leftarrow> rd s i; b \<leftarrow> wrn b (2 * (j + i)) (le_bytes 2 (ucast x :: u16)); copy_units_loop b j s (i + 1) n }"

fun copy_str16 :: "u8 list \<Rightarrow> nat \<Rightarrow> JSString \<Rightarrow> nat \<Rightarrow> u8 list option" where
  "copy_str16 b j (Str16 s) len = do { d \<leftarrow> rdn s 0 len; wrn b (2 * j) (unit_bytes d) }"
| "copy_str16 b j (Str8 s) len = copy_units_loop b j s 0 len"

definition JS_STRING_LEN_MAX :: nat where
  "JS_STRING_LEN_MAX = 2 ^ 30 - 1"

fun is_wide :: "JSString \<Rightarrow> bool" where
  "is_wide (Str8 s) \<longleftrightarrow> False"
| "is_wide (Str16 s) \<longleftrightarrow> True"

text \<open>The bytes of a narrow string; reading a wide one as bytes does not happen.\<close>

fun bytes_of :: "JSString \<Rightarrow> u8 list option" where
  "bytes_of (Str8 s) = Some s"
| "bytes_of (Str16 s) = None"

definition JS_ConcatString1 :: "'h str_runtime \<Rightarrow> 'h \<Rightarrow> JSString \<Rightarrow> JSString \<Rightarrow> ('h \<times> JSString option) option" where
  "JS_ConcatString1 ra h p1 p2 =
     (let len = str_len p1 + str_len p2; w = is_wide p1 \<or> is_wide p2 in
      if len > JS_STRING_LEN_MAX then Some (rt_too_long ra h, None)
      else do {
        (h, r) \<leftarrow> js_alloc_string ra h len w;
        (case r of
           None \<Rightarrow> Some (h, None)
         | Some b \<Rightarrow>
             if \<not> w then do {
               s1 \<leftarrow> bytes_of p1;
               s2 \<leftarrow> bytes_of p2;
               b \<leftarrow> wrn b 0 s1;
               b \<leftarrow> wrn b (str_len p1) s2;
               b \<leftarrow> wr b len 0;
               Some (h, Some (Str8 (take len b)))
             }
             else do {
               b \<leftarrow> copy_str16 b 0 p1 (str_len p1);
               b \<leftarrow> copy_str16 b (str_len p1) p2 (str_len p2);
               Some (h, Some (Str16 (units b len)))
             })
      })"

text \<open>The code units of a string, whatever its representation.\<close>

fun str_units :: "JSString \<Rightarrow> u16 list" where
  "str_units (Str8 s) = map ucast s"
| "str_units (Str16 s) = s"

lemma length_str_units [simp]: "length (str_units p) = str_len p"
  by (cases p) simp_all

text \<open>Strings are kept in their smallest representation: wide exactly when a unit needs it.\<close>

definition canonical :: "JSString \<Rightarrow> bool" where
  "canonical p \<longleftrightarrow> (is_wide p \<longleftrightarrow> (\<exists>u\<in>set (str_units p). 0x100 \<le> u))"

subsection \<open>Units in blocks of bytes\<close>

lemma unit_bytes_simps [simp]: "unit_bytes [] = []" "unit_bytes (u # us) = le_bytes 2 u @ unit_bytes us"
  "unit_bytes (us @ vs) = unit_bytes us @ unit_bytes vs" "length (unit_bytes us) = 2 * length us"
  by (induction us) (simp_all add: unit_bytes_def)

lemma units_unit_bytes: "take (2 * length us) b = unit_bytes us \<Longrightarrow> units b (length us) = us"
proof (induction us arbitrary: b)
  case (Cons u us)
  have "length (take (2 + 2 * length us) b) = 2 + 2 * length us" using arg_cong [OF Cons.prems, of length] by simp
  then have "length (take 2 b) = length (le_bytes 2 u)" by simp
  then have b: "take 2 b = le_bytes 2 u" "take (2 * length us) (drop 2 b) = unit_bytes us"
    using Cons.prems by (simp_all add: take_add [of 2, simplified] append_eq_append_conv)
  have "units b (length (u # us)) = le_word (take 2 b) # units (drop 2 b) (length us)"
    by (simp add: units_def upt_conv_Cons map_Suc_upt [symmetric] del: upt_Suc)
  then show ?case using b Cons.IH [OF b(2)] le_word_le_bytes [of 2 u] by simp
qed (simp add: units_def)

lemma take_wrn: "i + length d \<le> length b \<Longrightarrow> take (i + length d) (take i b @ d @ drop (i + length d) b) = take i b @ d"
  by simp

lemma write_then: "q + length d + length e \<le> length b \<Longrightarrow>
    wrn (take q b @ d @ drop (q + length d) b) (q + length d) e = wrn b q (d @ e)"
  by (simp add: wrn_def ac_simps)

lemma write_cons: "i + length (x # ds) \<le> length b \<Longrightarrow> wrn (b[i := x]) (Suc i) ds = wrn b i (x # ds)"
  using write_then [of i "[x]" ds b] by (simp add: upd_conv_take_nth_drop)

lemma narrow_bits: "(c :: u16) < 0x100 \<longleftrightarrow> (\<forall>n. bit c n \<longrightarrow> n < 8)"
proof -
  have "c < 0x100 \<longleftrightarrow> take_bit 8 (unat c) = unat c" by (simp add: word_less_nat_alt take_bit_nat_eq_self_iff)
  then show ?thesis by (auto simp: bit_eq_iff [of "take_bit 8 (unat c)"] bit_take_bit_iff bit_unsigned_iff)
qed

lemma narrow_ucast: "(u :: u16) < 0x100 \<Longrightarrow> ucast (ucast u :: u8) = u"
  by (rule bit_eqI) (auto simp: narrow_bits bit_ucast_iff)

lemma ucast_narrow:
  assumes "(c :: u32) < 0x100"
  shows "ucast (ucast c :: u16) = (ucast c :: u8)" "(ucast c :: u16) < 0x100"
proof -
  show "ucast (ucast c :: u16) = (ucast c :: u8)" by (rule bit_eqI) (auto simp: bit_ucast_iff)
  have "unat c < 2 ^ 8" using assms by (simp add: word_less_nat_alt)
  then show "(ucast c :: u16) < 0x100" by (simp add: word_less_nat_alt unsigned_ucast_eq take_bit_nat_eq_self)
qed

lemma ucast_wide:
  assumes "(c :: u32) < 0x10000"
  shows "0x100 \<le> (ucast c :: u16) \<longleftrightarrow> 0x100 \<le> c"
proof -
  have "unat c < 2 ^ 16" using assms by (simp add: word_less_nat_alt)
  then show ?thesis by (simp add: word_le_nat_alt unsigned_ucast_eq take_bit_nat_eq_self)
qed

lemma narrow_byte: "ucast (ucast x :: u16) = (x :: u8)" "(ucast (x :: u8) :: u16) < 0x100"
  by (rule bit_eqI, simp add: bit_ucast_iff) (auto simp: narrow_bits bit_ucast_iff dest: bit_imp_le_length)

lemma ucast_up_wide: "0x100 \<le> (ucast (c :: u16) :: u32) \<longleftrightarrow> 0x100 \<le> c"
proof -
  have "unat c < 2 ^ 32" using unsigned_less [where ?'a = nat, of c] by simp
  then show ?thesis by (simp add: word_le_nat_alt unsigned_ucast_eq take_bit_nat_eq_self)
qed

lemma nat_int_add: "nat (int a + int b) = a + b"
  by simp

lemma or_narrow: "(a :: u16) OR b < 0x100 \<longleftrightarrow> a < 0x100 \<and> b < 0x100"
  unfolding narrow_bits by (auto simp: bit_or_iff)

lemma or_loop_ok: "i + n \<le> length s \<Longrightarrow> \<exists>c'. or_loop s i n c = Some c' \<and> (c' < 0x100 \<longleftrightarrow> c < 0x100 \<and> (\<forall>u\<in>set (take n (drop i s)). u < 0x100))"
proof (induction n arbitrary: i c)
  case (Suc n)
  have "drop i s = s ! i # drop (Suc i) s" using Suc.prems by (simp add: Cons_nth_drop_Suc)
  then show ?case using Suc.IH [of "Suc i" "c OR s ! i"] Suc.prems or_narrow [of c "s ! i"] by auto
qed simp

subsection \<open>What the allocator promises\<close>

text \<open>
  A new block has the size asked for and the slack, and starts with the contents of the old block;
  without a new block an exception is pending, and otherwise nothing about exceptions changes.
\<close>

locale str_allocator =
  fixes ra :: "'h str_runtime" and pending :: "'h \<Rightarrow> bool"
  assumes ra_length: "rt_realloc2 ra h ob n = (h', Some (b', slack)) \<Longrightarrow> n + slack \<le> length b'"
    and ra_prefix: "rt_realloc2 ra h (Some b) n = (h', Some (b', slack)) \<Longrightarrow> k \<le> length b \<Longrightarrow> k \<le> n \<Longrightarrow> take k b' = take k b"
    and ra_slack: "rt_realloc2 ra h ob n = (h', Some (b', slack)) \<Longrightarrow> slack \<le> 2 ^ 20"
    and ra_throws: "rt_realloc2 ra h ob n = (h', None) \<Longrightarrow> pending h'"
    and ra_pending: "rt_realloc2 ra h ob n = (h', Some r) \<Longrightarrow> pending h' = pending h"
    and rt_length: "rt_realloc ra h b n = (h', Some b') \<Longrightarrow> n \<le> length b'"
    and rt_prefix: "rt_realloc ra h b n = (h', Some b') \<Longrightarrow> k \<le> length b \<Longrightarrow> k \<le> n \<Longrightarrow> take k b' = take k b"
    and rt_pending: "rt_realloc ra h b n = (h', q) \<Longrightarrow> pending h' = pending h"
begin

lemma alloc_ok:
  assumes "str_bytes n w < 2 ^ 31"
  shows "\<exists>h' r. js_alloc_string ra h n w = Some (h', r) \<and> (case r of None \<Rightarrow> pending h' | Some b \<Rightarrow> pending h' = pending h \<and> str_bytes n w \<le> length b)"
proof -
  have c: "cint (int (str_bytes n w)) = Some (int (str_bytes n w))" using assms by simp
  obtain h' r where r: "rt_realloc2 ra h None (str_bytes n w) = (h', r)" by fastforce
  show ?thesis
  proof (cases r)
    case None
    then show ?thesis using c r ra_throws [of h None "str_bytes n w" h'] by (simp add: js_alloc_string_def)
  next
    case (Some bs)
    obtain b slack where "bs = (b, slack)" by fastforce
    then show ?thesis using c r Some ra_length [of h None "str_bytes n w" h' b slack] ra_pending [of h None "str_bytes n w" h' bs]
      by (simp add: js_alloc_string_def)
  qed
qed

text \<open>A new string has the units that were copied; without a string an exception is pending.\<close>

definition makes :: "'h \<Rightarrow> ('h \<times> JSString option) option \<Rightarrow> u16 list \<Rightarrow> bool \<Rightarrow> bool" where
  "makes h r us w \<longleftrightarrow> (\<exists>h' q. r = Some (h', q) \<and> (case q of None \<Rightarrow> pending h' | Some p \<Rightarrow> pending h' = pending h \<and> str_units p = us \<and> (is_wide p \<longleftrightarrow> w)))"

lemma new_string8_ok:
  assumes "i + n \<le> length buf" and "n + 1 < 2 ^ 31"
  shows "makes h (js_new_string8 ra h buf i n) (map ucast (take n (drop i buf))) False"
proof -
  obtain h' r where "js_alloc_string ra h n False = Some (h', r)" "case r of None \<Rightarrow> pending h' | Some b \<Rightarrow> pending h' = pending h \<and> n + 1 \<le> length b"
    using alloc_ok [of n False h] assms(2) unfolding str_bytes_def if_False by auto
  then show ?thesis using assms(1) by (cases r) (auto simp: js_new_string8_def makes_def)
qed

lemma new_string16_ok:
  assumes "i + n \<le> length buf" and "2 * n < 2 ^ 31"
  shows "makes h (js_new_string16 ra h buf i n) (take n (drop i buf)) True"
proof -
  obtain h' r where "js_alloc_string ra h n True = Some (h', r)" "case r of None \<Rightarrow> pending h' | Some b \<Rightarrow> pending h' = pending h \<and> 2 * n \<le> length b"
    using alloc_ok [of n True h] assms(2) unfolding str_bytes_def if_True by auto
  then show ?thesis using assms(1) units_unit_bytes [of "take n (drop i buf)"] by (cases r) (auto simp: js_new_string16_def makes_def)
qed

lemma new_string_char_ok: "makes h (js_new_string_char ra h c) [c] (0x100 \<le> c)"
  using new_string8_ok [of 0 1 "[ucast c]" h] new_string16_ok [of 0 1 "[c]" h]
    narrow_ucast [of c]
  by (cases "c < 0x100") (simp_all add: js_new_string_char_def not_less [symmetric])

lemma narrow_loop_ok:
  "start + i + n \<le> length s \<Longrightarrow> i + n \<le> length b \<Longrightarrow>
   narrow_loop b s start i n = wrn b i (map ucast (take n (drop (start + i) s)))"
proof (induction n arbitrary: i b)
  case (Suc n)
  have d: "take (Suc n) (drop (start + i) s) = s ! (start + i) # take n (drop (start + Suc i) s)"
    using Suc.prems(1) by (simp add: Cons_nth_drop_Suc [symmetric])
  let ?x = "ucast (s ! (start + i)) :: u8"
  have "narrow_loop b s start i (Suc n) = wrn (b[i := ?x]) (Suc i) (map ucast (take n (drop (start + Suc i) s)))"
    using Suc.IH [of "Suc i" "b[i := ?x]"] Suc.prems by simp
  also have "\<dots> = wrn b i (map ucast (take (Suc n) (drop (start + i) s)))"
    unfolding d list.map by (rule write_cons) (use Suc.prems in simp)
  finally show ?case .
qed simp

lemma map_narrow: "\<forall>u\<in>set us. u < 0x100 \<Longrightarrow> map ucast (map ucast us :: u8 list) = (us :: u16 list)"
  by (simp add: map_idI narrow_ucast)

lemma sub_string_ok:
  assumes p: "canonical p" and r: "start \<le> stop" "stop \<le> str_len p" and l: "2 * (stop - start) + 1 < 2 ^ 31"
  shows "\<exists>w. makes h (js_sub_string ra h p start stop) (take (stop - start) (drop start (str_units p))) w \<and>
    (w \<longleftrightarrow> (\<exists>u\<in>set (take (stop - start) (drop start (str_units p))). 0x100 \<le> u))"
proof (cases "start = 0 \<and> stop = str_len p")
  case True
  then show ?thesis using p by (auto simp: js_sub_string_def makes_def canonical_def)
next
  case False
  show ?thesis
  proof (cases p)
    case (Str8 s)
    have "\<not> (\<exists>u\<in>set (take (stop - start) (drop start (str_units p))). 0x100 \<le> u)"
      using Str8 narrow_byte(2) by (auto simp: not_le dest!: in_set_takeD in_set_dropD)
    then show ?thesis using new_string8_ok [of start "stop - start" s h] False Str8 r l
      by (auto simp: js_sub_string_def take_map drop_map)
  next
    case (Str16 s)
    let ?d = "take (stop - start) (drop start s)" let ?n = "stop - start"
    obtain c where c: "or_loop s start ?n 0 = Some c" "c < 0x100 \<longleftrightarrow> (\<forall>u\<in>set ?d. u < 0x100)"
      using or_loop_ok [of start ?n s 0] r Str16 by auto
    have cw: "c > 0xff \<longleftrightarrow> (\<exists>u\<in>set ?d. 0x100 \<le> u)"
    proof -
      have "c > 0xff \<longleftrightarrow> \<not> c < 0x100" by (auto simp: word_less_nat_alt)
      then show ?thesis using c(2) by (auto simp: not_less)
    qed
    show ?thesis
    proof (cases "stop \<le> start \<or> c > 0xff")
      case True
      show ?thesis
      proof (cases "stop \<le> start")
        case True
        then show ?thesis using Str16 False by (auto simp: js_sub_string_def makes_def)
      next
        case ne: False
        then have "js_sub_string ra h p start stop = js_new_string16 ra h s start ?n" using True False Str16 c(1) by (auto simp: js_sub_string_def)
        then show ?thesis using new_string16_ok [of start ?n s h] True ne Str16 r l cw by auto
      qed
    next
      case nw: False
      then have n: "\<forall>u\<in>set ?d. u < 0x100" using cw by (auto simp: not_less)
      obtain h' r' where a: "js_alloc_string ra h ?n False = Some (h', r')" "case r' of None \<Rightarrow> pending h' | Some b \<Rightarrow> pending h' = pending h \<and> ?n + 1 \<le> length b"
        using alloc_ok [of ?n False h] l unfolding str_bytes_def if_False by auto
      have "makes h (js_sub_string ra h p start stop) ?d False"
        using a c(1) nw False Str16 r narrow_loop_ok [of start 0 ?n s] map_narrow [OF n]
        by (cases r') (auto simp: js_sub_string_def makes_def)
      then show ?thesis using nw cw Str16 by auto
    qed
  qed
qed

lemma copy_units_loop_ok:
  "i + n \<le> length s \<Longrightarrow> 2 * (j + i + n) \<le> length b \<Longrightarrow>
   copy_units_loop b j s i n = wrn b (2 * (j + i)) (unit_bytes (map ucast (take n (drop i s))))"
proof (induction n arbitrary: i b)
  case (Suc n)
  have d: "take (Suc n) (drop i s) = s ! i # take n (drop (Suc i) s)" using Suc.prems(1) by (simp add: Cons_nth_drop_Suc [symmetric])
  let ?x = "le_bytes 2 (ucast (s ! i) :: u16)" let ?b = "take (2 * (j + i)) b @ ?x @ drop (2 * (j + i) + 2) b"
  have "copy_units_loop b j s i (Suc n) = wrn ?b (2 * (j + Suc i)) (unit_bytes (map ucast (take n (drop (Suc i) s))))"
    using Suc.IH [of "Suc i" ?b] Suc.prems by simp
  also have "\<dots> = wrn b (2 * (j + i)) (unit_bytes (map ucast (take (Suc n) (drop i s))))"
    unfolding d list.map unit_bytes_simps 
    using write_then [of "2 * (j + i)" ?x _ b] Suc.prems by (simp add: ac_simps)
  finally show ?case .
qed simp

lemma copy_str16_ok: "2 * (j + str_len p) \<le> length b \<Longrightarrow> copy_str16 b j p (str_len p) = wrn b (2 * j) (unit_bytes (str_units p))"
  using copy_units_loop_ok [of 0 "str_len p" _ j b] by (cases p) simp_all

lemma concat_string_ok:
  assumes l: "str_len p1 + str_len p2 \<le> JS_STRING_LEN_MAX"
  shows "makes h (JS_ConcatString1 ra h p1 p2) (str_units p1 @ str_units p2) (is_wide p1 \<or> is_wide p2)"
proof -
  let ?n = "str_len p1 + str_len p2" let ?w = "is_wide p1 \<or> is_wide p2"
  have lt: "str_bytes ?n ?w < 2 ^ 31" using l by (simp add: str_bytes_def JS_STRING_LEN_MAX_def)
  obtain h' r where a: "js_alloc_string ra h ?n ?w = Some (h', r)" "case r of None \<Rightarrow> pending h' | Some b \<Rightarrow> pending h' = pending h \<and> str_bytes ?n ?w \<le> length b"
    using alloc_ok [OF lt] by blast
  show ?thesis
  proof (cases r)
    case None
    then show ?thesis using a l by (simp add: JS_ConcatString1_def makes_def)
  next
    case (Some b)
    show ?thesis
    proof (cases ?w)
      case True
      then have lb: "2 * ?n \<le> length b" using a Some by (simp add: str_bytes_def)
      let ?u1 = "unit_bytes (str_units p1)" and ?u2 = "unit_bytes (str_units p2)"
      have "JS_ConcatString1 ra h p1 p2 = Some (h', Some (Str16 (units (?u1 @ ?u2 @ drop (2 * ?n) b) ?n)))"
        using a(1) Some l True lb copy_str16_ok [of 0 p1 b] copy_str16_ok [of "str_len p1" p2 "?u1 @ drop (2 * str_len p1) b"]
        by (simp add: JS_ConcatString1_def add_mult_distrib2 add.commute [of "2 * str_len p2"])
      moreover have "units (?u1 @ ?u2 @ drop (2 * ?n) b) ?n = str_units p1 @ str_units p2"
        using units_unit_bytes [of "str_units p1 @ str_units p2" "?u1 @ ?u2 @ drop (2 * ?n) b"] by simp
      ultimately show ?thesis using True a(2) Some by (simp add: makes_def)
    next
      case False
      then obtain s1 s2 where s: "p1 = Str8 s1" "p2 = Str8 s2" by (cases p1; cases p2) auto
      then show ?thesis using a Some l by (simp add: JS_ConcatString1_def makes_def str_bytes_def)
    qed
  qed
qed

lemma concat_string_error:
  "str_len p1 + str_len p2 > JS_STRING_LEN_MAX \<Longrightarrow> JS_ConcatString1 ra h p1 p2 = Some (rt_too_long ra h, None)"
  by (simp add: JS_ConcatString1_def)

end

subsection \<open>Strings in the heap of the runtime\<close>

text \<open>
  The functions of the runtime on blocks with a header: the state is that of the allocator and
  whether an exception is pending. The header of the block is not modelled, only its size.
\<close>

definition sizeof_JSString :: nat where
  "sizeof_JSString = 16"

definition with_header :: "u8 list \<Rightarrow> u8 list" where
  "with_header b = replicate sizeof_JSString 0 @ b"

definition string_realloc2 ::
    "'m c_library \<Rightarrow> platform \<Rightarrow> 'm JSMallocState \<times> bool \<Rightarrow> u8 list option \<Rightarrow> nat \<Rightarrow> ('m JSMallocState \<times> bool) \<times> (u8 list \<times> nat) option" where
  "string_realloc2 lib pf h b n =
     (if sizeof_JSString + n < 2 ^ 64 then
        (case js_realloc2 lib pf (fst h) (map_option with_header b) (of_nat (sizeof_JSString + n)) of
           Some (s, Some (p, slack)) \<Rightarrow> ((s, snd h), Some (drop sizeof_JSString p, unat slack))
         | Some (s, None) \<Rightarrow> ((s, True), None)
         | None \<Rightarrow> ((fst h, True), None))
      else ((fst h, True), None))"

definition string_realloc_rt ::
    "'m c_library \<Rightarrow> platform \<Rightarrow> 'm JSMallocState \<times> bool \<Rightarrow> u8 list \<Rightarrow> nat \<Rightarrow> ('m JSMallocState \<times> bool) \<times> u8 list option" where
  "string_realloc_rt lib pf h b n =
     (if sizeof_JSString + n < 2 ^ 64 then
        (case js_realloc_rt lib pf (fst h) (Some (with_header b)) (of_nat (sizeof_JSString + n)) of
           Some (s, Some p) \<Rightarrow> ((s, snd h), Some (drop sizeof_JSString p))
         | Some (s, None) \<Rightarrow> ((s, snd h), None)
         | None \<Rightarrow> (h, None))
      else (h, None))"

definition string_runtime :: "'m c_library \<Rightarrow> platform \<Rightarrow> ('m JSMallocState \<times> bool) str_runtime" where
  "string_runtime lib pf =
     \<lparr>rt_realloc2 = string_realloc2 lib pf, rt_realloc = string_realloc_rt lib pf, rt_too_long = (\<lambda>h. (fst h, True))\<rparr>"

lemma unsigned_of_nat_le: "unat (of_nat n :: u64) \<le> n"
  by (simp add: unat_of_nat take_bit_nat_less_eq_self)

context c_allocator
begin

lemma realloc_block:
  assumes "js_def_realloc lib pf s ob (of_nat n) = Some (s', Some p)" and n: "n < 2 ^ 64"
  shows "n \<le> length p" "length p \<le> n + 2 ^ 20" "\<And>b k. ob = Some b \<Longrightarrow> k \<le> length b \<Longrightarrow> k \<le> n \<Longrightarrow> take k p = take k b"
proof -
  have u: "unat (of_nat n :: u64) = n" using n by (rule of_nat_inverse_u64)
  have "n \<le> length p \<and> length p \<le> n + 2 ^ 20 \<and> (\<forall>b k. ob = Some b \<longrightarrow> k \<le> length b \<longrightarrow> k \<le> n \<longrightarrow> take k p = take k b)"
  proof (cases ob)
    case None
    then obtain m' where "c_malloc lib (c_heap s) n = (m', Some p)"
      using assms(1) u by (auto simp: js_def_realloc_def js_def_malloc_def split: if_splits prod.splits option.splits)
    then show ?thesis using malloc_length None by fastforce
  next
    case (Some b)
    then obtain m' where "c_realloc lib (c_heap s) b n = (m', Some p)"
      using assms(1) u by (auto simp: js_def_realloc_def Let_def split: if_splits prod.splits option.splits)
    then show ?thesis using realloc_length realloc_prefix Some by blast
  qed
  then show "n \<le> length p" "length p \<le> n + 2 ^ 20" "\<And>b k. ob = Some b \<Longrightarrow> k \<le> length b \<Longrightarrow> k \<le> n \<Longrightarrow> take k p = take k b" by blast+
qed

lemma header_prefix:
  assumes "js_def_realloc lib pf s (Some (with_header b)) (of_nat (sizeof_JSString + n)) = Some (s', Some p)"
    and "sizeof_JSString + n < 2 ^ 64" and k: "k \<le> length b" "k \<le> n"
  shows "take k (drop sizeof_JSString p) = take k b"
proof -
  have "take (sizeof_JSString + k) p = take (sizeof_JSString + k) (with_header b)"
    by (rule realloc_block(3) [OF assms(1,2) refl]) (use k in \<open>simp_all add: with_header_def\<close>)
  then have "drop sizeof_JSString (take (sizeof_JSString + k) p) = take k b" by (simp add: with_header_def)
  then show ?thesis by (simp add: drop_take)
qed

lemma realloc2_block:
  assumes "string_realloc2 lib pf h ob n = (h', Some (b', slack))"
  obtains s' p where "js_def_realloc lib pf (fst h) (map_option with_header ob) (of_nat (sizeof_JSString + n)) = Some (s', Some p)"
    "sizeof_JSString + n < 2 ^ 64" "b' = drop sizeof_JSString p" "h' = (s', snd h)" "sizeof_JSString + n + slack \<le> length p" "slack \<le> 2 ^ 20"
proof -
  let ?n = "sizeof_JSString + n"
  obtain s' p sl where r: "?n < 2 ^ 64" "js_realloc2 lib pf (fst h) (map_option with_header ob) (of_nat ?n) = Some (s', Some (p, sl))"
      "h' = (s', snd h)" "b' = drop sizeof_JSString p" "slack = unat sl"
    using assms by (auto simp: string_realloc2_def split: if_splits option.splits prod.splits)
  have p: "js_def_realloc lib pf (fst h) (map_option with_header ob) (of_nat ?n) = Some (s', Some p)"
      "sl = (if js_def_malloc_usable_size lib pf p > of_nat ?n then js_def_malloc_usable_size lib pf p - of_nat ?n else 0)"
    using r(2) by (auto simp: js_realloc2_def js_realloc_rt_def js_malloc_usable_size_rt_def Let_def split: bind_splits if_splits option.splits)
  note b = realloc_block [OF p(1) r(1)]
  have "unat (js_def_malloc_usable_size lib pf p) \<le> length p"
    using reported_within [of pf "length p"] unsigned_of_nat_le [of "reported lib pf (length p)"] by (simp add: usable_reported)
  then have "?n + slack \<le> length p" "slack \<le> 2 ^ 20"
    using p(2) r(5) b(1,2) of_nat_inverse_u64 [OF r(1)] by (auto simp: word_less_nat_alt unat_sub word_le_nat_alt)
  then show thesis using that p(1) r by blast
qed

end

sublocale c_allocator \<subseteq> str: str_allocator "string_runtime lib pf" snd for pf
proof unfold_locales
  fix h :: "'m JSMallocState \<times> bool" and h' ob n b' slack
  assume "rt_realloc2 (string_runtime lib pf) h ob n = (h', Some (b', slack))"
  then have r: "string_realloc2 lib pf h ob n = (h', Some (b', slack))" by (simp add: string_runtime_def)
  show "n + slack \<le> length b'" "slack \<le> 2 ^ 20" by (rule realloc2_block [OF r]; simp)+
next
  fix h :: "'m JSMallocState \<times> bool" and h' b n b' slack k
  assume "rt_realloc2 (string_runtime lib pf) h (Some b) n = (h', Some (b', slack))" and k: "k \<le> length b" "k \<le> n"
  then have r: "string_realloc2 lib pf h (Some b) n = (h', Some (b', slack))" by (simp add: string_runtime_def)
  show "take k b' = take k b" by (rule realloc2_block [OF r]) (use header_prefix [OF _ _ k] in simp)
next
  fix h :: "'m JSMallocState \<times> bool" and h' ob n
  assume "rt_realloc2 (string_runtime lib pf) h ob n = (h', None)"
  then show "snd h'" by (auto simp: string_runtime_def string_realloc2_def split: if_splits option.splits prod.splits)
next
  fix h :: "'m JSMallocState \<times> bool" and h' ob n r
  assume "rt_realloc2 (string_runtime lib pf) h ob n = (h', Some r)"
  then show "snd h' = snd h" by (auto simp: string_runtime_def string_realloc2_def split: if_splits option.splits prod.splits)
next
  fix h :: "'m JSMallocState \<times> bool" and h' b n b'
  assume "rt_realloc (string_runtime lib pf) h b n = (h', Some b')"
  then obtain s p where p: "sizeof_JSString + n < 2 ^ 64" "js_def_realloc lib pf (fst h) (Some (with_header b)) (of_nat (sizeof_JSString + n)) = Some (s, Some p)"
      "b' = drop sizeof_JSString p"
    by (auto simp: string_runtime_def string_realloc_rt_def js_realloc_rt_def split: if_splits option.splits prod.splits)
  show "n \<le> length b'" using realloc_block(1) [OF p(2,1)] p(3) by simp
  show "take k b' = take k b" if "k \<le> length b" "k \<le> n" for k using header_prefix [OF p(2,1) that] p(3) by simp
next
  fix h :: "'m JSMallocState \<times> bool" and h' b n r
  assume "rt_realloc (string_runtime lib pf) h b n = (h', r)"
  then show "snd h' = snd h" by (auto simp: string_runtime_def string_realloc_rt_def split: if_splits option.splits prod.splits)
qed

context c_allocator
begin

lemma string_allocator: "str_allocator (string_runtime lib pf) snd"
  by (rule str.str_allocator_axioms)

end

lemma canonical_result:
  fixes s :: 's
  assumes "str_allocator R (snd :: 's \<times> bool \<Rightarrow> bool)" and m: "str_allocator.makes snd (s, False) r us w"
    and w: "w \<longleftrightarrow> (\<exists>u\<in>set us. 0x100 \<le> u)"
  obtains s1 e1 q where "r = Some ((s1, e1), q)" "case q of None \<Rightarrow> e1 | Some t \<Rightarrow> \<not> e1 \<and> canonical t \<and> str_units t = us"
proof -
  obtain h' q where "r = Some (h', q)" "case q of None \<Rightarrow> snd h' | Some p \<Rightarrow> snd h' = snd (s, False) \<and> str_units p = us \<and> (is_wide p \<longleftrightarrow> w)"
    using m by (auto simp: str_allocator.makes_def [OF assms(1)])
  moreover obtain s1 e1 where "h' = (s1, e1)" by fastforce
  ultimately show thesis using that [of s1 e1 q] w by (cases q) (auto simp: canonical_def)
qed

text \<open>
  Claim C18. Strings stay in their smallest representation: a part of a string and the concatenation
  of two strings are wide exactly when one of their units needs it, if this holds of the arguments.
  Their units are the ones of the part and of the two strings, and only a missing string leaves an
  exception pending.
\<close>

theorem string_operations_canonical:
  assumes "c_allocator lib" and "canonical p" and "canonical q"
    and "start \<le> stop" and "stop \<le> str_len p" and "str_len p + str_len q \<le> JS_STRING_LEN_MAX"
  shows "\<exists>s1 e1 r1 s2 e2 r2.
     js_sub_string (string_runtime lib pf) (s, False) p start stop = Some ((s1, e1), r1) \<and>
     (case r1 of None \<Rightarrow> e1 | Some t \<Rightarrow> \<not> e1 \<and> canonical t \<and> str_units t = take (stop - start) (drop start (str_units p))) \<and>
     JS_ConcatString1 (string_runtime lib pf) (s, False) p q = Some ((s2, e2), r2) \<and>
     (case r2 of None \<Rightarrow> e2 | Some t \<Rightarrow> \<not> e2 \<and> canonical t \<and> str_units t = str_units p @ str_units q)"
proof -
  let ?R = "string_runtime lib pf" and ?d = "take (stop - start) (drop start (str_units p))" and ?h = "(s, False)"
  note st = c_allocator.string_allocator [OF assms(1), of pf]
  have l: "2 * (stop - start) + 1 < 2 ^ 31" using assms(5,6) by (simp add: JS_STRING_LEN_MAX_def)
  obtain w where w: "str_allocator.makes snd ?h (js_sub_string ?R ?h p start stop) ?d w" "w \<longleftrightarrow> (\<exists>u\<in>set ?d. 0x100 \<le> u)"
    using str_allocator.sub_string_ok [OF st assms(2,4,5) l] by blast
  have c: "str_allocator.makes snd ?h (JS_ConcatString1 ?R ?h p q) (str_units p @ str_units q) (is_wide p \<or> is_wide q)"
    by (rule str_allocator.concat_string_ok [OF st assms(6)])
  have cw: "is_wide p \<or> is_wide q \<longleftrightarrow> (\<exists>u\<in>set (str_units p @ str_units q). 0x100 \<le> u)" using assms(2,3) by (auto simp: canonical_def)
  obtain s1 e1 r1 where 1: "js_sub_string ?R ?h p start stop = Some ((s1, e1), r1)"
      "case r1 of None \<Rightarrow> e1 | Some t \<Rightarrow> \<not> e1 \<and> canonical t \<and> str_units t = ?d"
    by (rule canonical_result [OF st w])
  obtain s2 e2 r2 where 2: "JS_ConcatString1 ?R ?h p q = Some ((s2, e2), r2)"
      "case r2 of None \<Rightarrow> e2 | Some t \<Rightarrow> \<not> e2 \<and> canonical t \<and> str_units t = str_units p @ str_units q"
    by (rule canonical_result [OF st c cw])
  show ?thesis using 1 2 by blast
qed

theorem string_operations_canonical_witness:
  "\<exists>s1 e1 r1. js_sub_string (string_runtime exact_library Linux) (initial_malloc_state (), False) (Str16 [0x41, 0x20ac, 0x42]) 2 3 = Some ((s1, e1), r1) \<and>
     (case r1 of None \<Rightarrow> e1 | Some t \<Rightarrow> \<not> e1 \<and> canonical t \<and> str_units t = [0x42])"
proof -
  let ?p = "Str16 [0x41, 0x20ac, 0x42]"
  have c: "canonical ?p" "canonical (Str8 [0x43])" "2 \<le> (3 :: nat)" "3 \<le> str_len ?p" "str_len ?p + str_len (Str8 [0x43]) \<le> JS_STRING_LEN_MAX"
    "take (3 - 2) (drop 2 (str_units ?p)) = [0x42]"
    by (simp_all add: canonical_def JS_STRING_LEN_MAX_def)
  show ?thesis using string_operations_canonical [OF exact.c_allocator_axioms c(1-5), of Linux "initial_malloc_state ()"] unfolding c(6) by blast
qed

subsection \<open>The order of strings\<close>

fun str_chars :: "JSString \<Rightarrow> int list" where
  "str_chars (Str8 s) = map uint s"
| "str_chars (Str16 s) = map uint s"

lemma memcmp_loop_lex:
  fixes s1 :: "('a::len) word list" and s2 :: "('b::len) word list"
  shows "i + n \<le> length s1 \<Longrightarrow> i + n \<le> length s2 \<Longrightarrow>
   \<exists>c. memcmp_loop s1 s2 i n = Some c \<and>
     (c = 0 \<longleftrightarrow> take n (drop i (map uint s1)) = take n (drop i (map uint s2))) \<and>
     (c < 0 \<longleftrightarrow> take n (drop i (map uint s1)) < take n (drop i (map uint s2)))"
proof (induction n arbitrary: i)
  case (Suc n)
  have "drop i (map uint s1) = uint (s1 ! i) # drop (Suc i) (map uint s1)"
    "drop i (map uint s2) = uint (s2 ! i) # drop (Suc i) (map uint s2)"
    using Suc.prems by (simp_all add: Cons_nth_drop_Suc [symmetric])
  with Suc.prems Suc.IH [of "i + 1"] show ?case by auto
qed simp

lemma lex_by_min:
  fixes a b :: "int list"
  shows "a < b \<longleftrightarrow> (let m = min (length a) (length b) in
           take m a < take m b \<or> (take m a = take m b \<and> length a < length b))"
proof (induction a b rule: list_induct2')
  case (4 x xs y ys)
  then show ?case by (auto simp: Let_def)
qed auto

lemma str_len_chars: "str_len s = length (str_chars s)"
  by (cases s) auto

lemma js_string_memcmp_lex:
  assumes "n \<le> str_len p" and "n \<le> str_len q"
  shows "\<exists>c. js_string_memcmp p q n = Some c \<and>
     (c = 0 \<longleftrightarrow> take n (str_chars p) = take n (str_chars q)) \<and>
     (c < 0 \<longleftrightarrow> take n (str_chars p) < take n (str_chars q))"
proof (cases p; cases q)
  fix s1 s2 assume pq: "p = Str8 s1" "q = Str16 s2"
  obtain c where "memcmp_loop s2 s1 0 n = Some c"
    "c = 0 \<longleftrightarrow> take n (map uint s2) = take n (map uint s1)" "c < 0 \<longleftrightarrow> take n (map uint s2) < take n (map uint s1)"
    using memcmp_loop_lex [of 0 n s2 s1] assms pq by auto
  then show ?thesis using pq by (auto simp: memcmp16_8_def)
next
qed (use assms memcmp_loop_lex [of 0 n] in \<open>fastforce simp: c_memcmp_def memcmp16_def memcmp16_8_def\<close>)+

lemma js_string_compare_lex:
  "\<exists>c. js_string_compare p q = Some c \<and> (c = 0 \<longleftrightarrow> str_chars p = str_chars q) \<and>
       (c < 0 \<longleftrightarrow> str_chars p < str_chars q)"
proof -
  let ?m = "min (str_len p) (str_len q)"
  obtain c where c: "js_string_memcmp p q ?m = Some c"
      "c = 0 \<longleftrightarrow> take ?m (str_chars p) = take ?m (str_chars q)"
      "c < 0 \<longleftrightarrow> take ?m (str_chars p) < take ?m (str_chars q)"
    using js_string_memcmp_lex [of ?m p q] by auto
  have lex: "str_chars p < str_chars q \<longleftrightarrow> take ?m (str_chars p) < take ?m (str_chars q) \<or>
      (take ?m (str_chars p) = take ?m (str_chars q) \<and> str_len p < str_len q)"
    using lex_by_min [of "str_chars p" "str_chars q"] by (simp add: Let_def str_len_chars)
  have eq: "str_chars p = str_chars q \<longleftrightarrow> take ?m (str_chars p) = take ?m (str_chars q) \<and> str_len p = str_len q"
    by (auto simp: str_len_chars)
  show ?thesis using c lex eq by (auto simp: js_string_compare_def)
qed

definition str_cmp :: "JSString \<Rightarrow> JSString \<Rightarrow> int" where
  "str_cmp p q = the (js_string_compare p q)"

lemma str_cmp_some: "js_string_compare p q = Some (str_cmp p q)"
  using js_string_compare_lex [of p q] by (auto simp: str_cmp_def)

lemma str_cmp_less: "str_cmp p q < 0 \<longleftrightarrow> str_chars p < str_chars q" "0 < str_cmp p q \<longleftrightarrow> str_chars q < str_chars p"
  using js_string_compare_lex [of p q] str_cmp_some [of p q] by (auto simp: linorder_neq_iff)

lemma str_cmp_eq: "str_cmp p q = 0 \<longleftrightarrow> str_chars p = str_chars q"
  using js_string_compare_lex [of p q] str_cmp_some [of p q] by auto

end
