(* ===== verification/String_Buffer.thy ===== *)
theory String_Buffer
  imports Js_String
begin

text \<open>
  The string buffer of \<open>quickjs.c\<close>, with which strings are built: it starts with bytes and is
  widened in place to 16-bit units when a character needs it. The block is modelled in bytes, so
  that the widening is the loop of the source over overlapping cells. The length and the size are
  values of C's \<open>int\<close>, and their sums, products and shifts are checked for overflow.
\<close>

subsection \<open>The buffer and its operations\<close>

record 'h StringBuffer =
  sb_str :: "u8 list option"
  sb_len :: nat
  sb_size :: nat
  sb_is_wide_char :: bool
  sb_error_status :: bool
  sb_ctx :: 'h

definition string_buffer_init2 :: "'h str_runtime \<Rightarrow> 'h \<Rightarrow> nat \<Rightarrow> bool \<Rightarrow> (int \<times> 'h StringBuffer) option" where
  "string_buffer_init2 ra h sz w =
     do {
       (h, r) \<leftarrow> js_alloc_string ra h sz w;
       Some (case r of
          None \<Rightarrow> (-1, \<lparr>sb_str = None, sb_len = 0, sb_size = 0, sb_is_wide_char = w, sb_error_status = True, sb_ctx = h\<rparr>)
        | Some b \<Rightarrow> (0, \<lparr>sb_str = Some b, sb_len = 0, sb_size = sz, sb_is_wide_char = w, sb_error_status = False, sb_ctx = h\<rparr>))
     }"

definition string_buffer_init :: "'h str_runtime \<Rightarrow> 'h \<Rightarrow> nat \<Rightarrow> (int \<times> 'h StringBuffer) option" where
  "string_buffer_init ra h sz = string_buffer_init2 ra h sz False"

definition string_buffer_set_error :: "'h StringBuffer \<Rightarrow> int \<times> 'h StringBuffer" where
  "string_buffer_set_error s = (-1, s\<lparr>sb_str := None, sb_size := 0, sb_len := 0, sb_error_status := True\<rparr>)"

definition string_buffer_free :: "'h StringBuffer \<Rightarrow> 'h StringBuffer" where
  "string_buffer_free s = s\<lparr>sb_str := None\<rparr>"

text \<open>The loop that spreads the bytes over the units, from the last one down.\<close>

fun widen_loop :: "u8 list \<Rightarrow> nat \<Rightarrow> u8 list option" where
  "widen_loop b 0 = Some b"
| "widen_loop b (Suc i) = do { c \<leftarrow> rd b i; b \<leftarrow> wrn b (2 * i) (le_bytes 2 (ucast c :: u16)); widen_loop b i }"

definition string_buffer_widen :: "'h str_runtime \<Rightarrow> 'h StringBuffer \<Rightarrow> nat \<Rightarrow> (int \<times> 'h StringBuffer) option" where
  "string_buffer_widen ra s sz =
     (if sb_error_status s then Some (-1, s)
      else do {
        b \<leftarrow> sb_str s;
        _ \<leftarrow> cint (int sz * 2);
        (case rt_realloc2 ra (sb_ctx s) (Some b) (2 * sz) of
           (h, None) \<Rightarrow> Some (string_buffer_set_error (s\<lparr>sb_ctx := h\<rparr>))
         | (h, Some (b, slack)) \<Rightarrow> do {
             sz \<leftarrow> cint (int sz + int (slack div 2));
             b \<leftarrow> widen_loop b (sb_len s);
             Some (0, s\<lparr>sb_is_wide_char := True, sb_size := nat sz, sb_str := Some b, sb_ctx := h\<rparr>)
           })
      })"

definition string_buffer_realloc :: "'h str_runtime \<Rightarrow> 'h StringBuffer \<Rightarrow> nat \<Rightarrow> u32 \<Rightarrow> (int \<times> 'h StringBuffer) option" where
  "string_buffer_realloc ra s new_len c =
     (if sb_error_status s then Some (-1, s)
      else if new_len > JS_STRING_LEN_MAX then Some (string_buffer_set_error (s\<lparr>sb_ctx := rt_too_long ra (sb_ctx s)\<rparr>))
      else do {
        s3 \<leftarrow> cint (int (sb_size s) * 3);
        let new_size = min (max new_len (nat s3 div 2)) JS_STRING_LEN_MAX;
        if \<not> sb_is_wide_char s \<and> c \<ge> 0x100 then string_buffer_widen ra s new_size
        else do {
          b \<leftarrow> sb_str s;
          _ \<leftarrow> cint (int (str_bytes new_size (sb_is_wide_char s)));
          Some (case rt_realloc2 ra (sb_ctx s) (Some b) (str_bytes new_size (sb_is_wide_char s)) of
             (h, None) \<Rightarrow> string_buffer_set_error (s\<lparr>sb_ctx := h\<rparr>)
           | (h, Some (b, slack)) \<Rightarrow>
               (0, s\<lparr>sb_size := min (new_size + (if sb_is_wide_char s then slack div 2 else slack)) JS_STRING_LEN_MAX,
                    sb_str := Some b, sb_ctx := h\<rparr>))
        }
      })"

text \<open>Storing one unit at the end, in the width of the buffer.\<close>

definition put_unit :: "'h StringBuffer \<Rightarrow> u32 \<Rightarrow> (int \<times> 'h StringBuffer) option" where
  "put_unit s c =
     do {
       b \<leftarrow> sb_str s;
       b \<leftarrow> (if sb_is_wide_char s then wrn b (2 * sb_len s) (le_bytes 2 (ucast c :: u16)) else wr b (sb_len s) (ucast c));
       len \<leftarrow> cint (int (sb_len s) + 1);
       Some (0, s\<lparr>sb_str := Some b, sb_len := nat len\<rparr>)
     }"

definition string_buffer_putc_slow :: "'h str_runtime \<Rightarrow> 'h StringBuffer \<Rightarrow> u32 \<Rightarrow> (int \<times> 'h StringBuffer) option" where
  "string_buffer_putc_slow ra s c =
     do {
       (r, s) \<leftarrow> (if sb_len s \<ge> sb_size s then string_buffer_realloc ra s (sb_len s + 1) c else Some (0, s));
       if r \<noteq> 0 then Some (-1, s)
       else if sb_is_wide_char s \<or> c < 0x100 then put_unit s c
       else do {
         (r, s) \<leftarrow> string_buffer_widen ra s (sb_size s);
         if r \<noteq> 0 then Some (-1, s) else put_unit s c
       }
     }"

definition string_buffer_putc8 :: "'h str_runtime \<Rightarrow> 'h StringBuffer \<Rightarrow> u32 \<Rightarrow> (int \<times> 'h StringBuffer) option" where
  "string_buffer_putc8 ra s c =
     do {
       (r, s) \<leftarrow> (if sb_len s \<ge> sb_size s then string_buffer_realloc ra s (sb_len s + 1) c else Some (0, s));
       if r \<noteq> 0 then Some (-1, s) else put_unit s c
     }"

definition string_buffer_putc16 :: "'h str_runtime \<Rightarrow> 'h StringBuffer \<Rightarrow> u32 \<Rightarrow> (int \<times> 'h StringBuffer) option" where
  "string_buffer_putc16 ra s c =
     (if sb_len s < sb_size s \<and> (sb_is_wide_char s \<or> c < 0x100) then put_unit s c
      else string_buffer_putc_slow ra s c)"

definition string_buffer_putc :: "'h str_runtime \<Rightarrow> 'h StringBuffer \<Rightarrow> u32 \<Rightarrow> (int \<times> 'h StringBuffer) option" where
  "string_buffer_putc ra s c =
     (if c \<ge> 0x10000 then do {
        let c = c - 0x10000;
        (r, s) \<leftarrow> string_buffer_putc16 ra s (drop_bit 10 c + 0xd800);
        if r \<noteq> 0 then Some (-1, s) else string_buffer_putc16 ra s ((c AND 0x3ff) + 0xdc00)
      }
      else string_buffer_putc16 ra s c)"

text \<open>Copying bytes to units one by one, units to bytes one by one, or either as a block.\<close>

fun write8_loop :: "u8 list \<Rightarrow> nat \<Rightarrow> u8 list \<Rightarrow> u8 list option" where
  "write8_loop b i [] = Some b"
| "write8_loop b i (x # xs) = do { b \<leftarrow> wrn b (2 * i) (le_bytes 2 (ucast x :: u16)); write8_loop b (i + 1) xs }"

fun write16_loop :: "u8 list \<Rightarrow> nat \<Rightarrow> u16 list \<Rightarrow> u8 list option" where
  "write16_loop b i [] = Some b"
| "write16_loop b i (x # xs) = do { b \<leftarrow> wr b i (ucast x); write16_loop b (i + 1) xs }"

text \<open>A copy of no bytes touches no memory, also when the buffer has lost its block.\<close>

definition string_buffer_write8 :: "'h str_runtime \<Rightarrow> 'h StringBuffer \<Rightarrow> u8 list \<Rightarrow> (int \<times> 'h StringBuffer) option" where
  "string_buffer_write8 ra s p =
     do {
       new_len \<leftarrow> cint (int (sb_len s) + int (length p));
       (r, s) \<leftarrow> (if nat new_len > sb_size s then string_buffer_realloc ra s (nat new_len) 0 else Some (0, s));
       if r \<noteq> 0 then Some (-1, s)
       else if p = [] then Some (0, s)
       else do {
         b \<leftarrow> sb_str s;
         b \<leftarrow> (if sb_is_wide_char s then write8_loop b (sb_len s) p else wrn b (sb_len s) p);
         Some (0, s\<lparr>sb_str := Some b, sb_len := sb_len s + length p\<rparr>)
       }
     }"

definition string_buffer_write16 :: "'h str_runtime \<Rightarrow> 'h StringBuffer \<Rightarrow> u16 list \<Rightarrow> (int \<times> 'h StringBuffer) option" where
  "string_buffer_write16 ra s p =
     do {
       c \<leftarrow> or_loop p 0 (length p) 0;
       new_len \<leftarrow> cint (int (sb_len s) + int (length p));
       (r, s) \<leftarrow> (if nat new_len > sb_size s then string_buffer_realloc ra s (nat new_len) (ucast c)
                  else if \<not> sb_is_wide_char s \<and> c \<ge> 0x100 then string_buffer_widen ra s (sb_size s)
                  else Some (0, s));
       if r \<noteq> 0 then Some (-1, s)
       else if p = [] then Some (0, s)
       else do {
         b \<leftarrow> sb_str s;
         b \<leftarrow> (if sb_is_wide_char s then wrn b (2 * sb_len s) (unit_bytes p) else write16_loop b (sb_len s) p);
         Some (0, s\<lparr>sb_str := Some b, sb_len := sb_len s + length p\<rparr>)
       }
     }"

definition string_buffer_puts8 :: "'h str_runtime \<Rightarrow> 'h StringBuffer \<Rightarrow> u8 list \<Rightarrow> (int \<times> 'h StringBuffer) option" where
  "string_buffer_puts8 ra s str = do { n \<leftarrow> c_strlen str; p \<leftarrow> rdn str 0 n; string_buffer_write8 ra s p }"

fun string_buffer_concat :: "'h str_runtime \<Rightarrow> 'h StringBuffer \<Rightarrow> JSString \<Rightarrow> nat \<Rightarrow> nat \<Rightarrow> (int \<times> 'h StringBuffer) option" where
  "string_buffer_concat ra s (Str16 p) from to =
     (if to \<le> from then Some (0, s) else do { d \<leftarrow> rdn p from (to - from); string_buffer_write16 ra s d })"
| "string_buffer_concat ra s (Str8 p) from to =
     (if to \<le> from then Some (0, s) else do { d \<leftarrow> rdn p from (to - from); string_buffer_write8 ra s d })"

text \<open>The value is a string, or \<open>to_string\<close> converts it, perhaps with an exception.\<close>

definition string_buffer_concat_value ::
    "'h str_runtime \<Rightarrow> ('h \<Rightarrow> 'v \<Rightarrow> 'h \<times> JSString option) \<Rightarrow> 'h StringBuffer \<Rightarrow> JSString + 'v \<Rightarrow> (int \<times> 'h StringBuffer) option" where
  "string_buffer_concat_value ra to_string s v =
     (if sb_error_status s then Some (-1, s)
      else case v of
          Inl p \<Rightarrow> string_buffer_concat ra s p 0 (str_len p)
        | Inr v \<Rightarrow>
            (case to_string (sb_ctx s) v of
               (h, None) \<Rightarrow> Some (string_buffer_set_error (s\<lparr>sb_ctx := h\<rparr>))
             | (h, Some p) \<Rightarrow> string_buffer_concat ra (s\<lparr>sb_ctx := h\<rparr>) p 0 (str_len p)))"

text \<open>The same for a value that the call consumes: only the reference counts differ.\<close>

definition string_buffer_concat_value_free ::
    "'h str_runtime \<Rightarrow> ('h \<Rightarrow> 'v \<Rightarrow> 'h \<times> JSString option) \<Rightarrow> 'h StringBuffer \<Rightarrow> JSString + 'v \<Rightarrow> (int \<times> 'h StringBuffer) option" where
  "string_buffer_concat_value_free ra to_string s v =
     (if sb_error_status s then Some (-1, s)
      else
        let (h, r) = (case v of Inl p \<Rightarrow> (sb_ctx s, Some p) | Inr v \<Rightarrow> to_string (sb_ctx s) v);
            s = s\<lparr>sb_ctx := h\<rparr>
        in (case r of
              None \<Rightarrow> Some (string_buffer_set_error s)
            | Some p \<Rightarrow> string_buffer_concat ra s p 0 (str_len p)))"

fun fill_loop :: "'h str_runtime \<Rightarrow> 'h StringBuffer \<Rightarrow> u32 \<Rightarrow> nat \<Rightarrow> (int \<times> 'h StringBuffer) option" where
  "fill_loop ra s c 0 = Some (0, s)"
| "fill_loop ra s c (Suc n) =
     do { (r, s) \<leftarrow> string_buffer_putc16 ra s c; if r \<noteq> 0 then Some (-1, s) else fill_loop ra s c n }"

definition string_buffer_fill :: "'h str_runtime \<Rightarrow> 'h StringBuffer \<Rightarrow> u32 \<Rightarrow> nat \<Rightarrow> (int \<times> 'h StringBuffer) option" where
  "string_buffer_fill ra s c cnt =
     do {
       new_len \<leftarrow> cint (int (sb_len s) + int cnt);
       (r, s) \<leftarrow> (if nat new_len > sb_size s then string_buffer_realloc ra s (nat new_len) c else Some (0, s));
       if r \<noteq> 0 then Some (-1, s) else fill_loop ra s c cnt
     }"

definition string_buffer_end :: "'h str_runtime \<Rightarrow> 'h StringBuffer \<Rightarrow> ('h \<times> JSString option) option" where
  "string_buffer_end ra s =
     (if sb_error_status s then Some (sb_ctx s, None)
      else if sb_len s = 0 then Some (sb_ctx s, Some (Str8 []))
      else do {
        b \<leftarrow> sb_str s;
        let (h, b) = (if sb_len s < sb_size s
                      then (case rt_realloc ra (sb_ctx s) b (str_bytes (sb_len s) (sb_is_wide_char s)) of
                              (h, None) \<Rightarrow> (h, b) | (h, Some b') \<Rightarrow> (h, b'))
                      else (sb_ctx s, b));
        if sb_is_wide_char s then Some (h, Some (Str16 (units b (sb_len s))))
        else do { b \<leftarrow> wr b (sb_len s) 0; Some (h, Some (Str8 (take (sb_len s) b))) }
      })"

lemma concat_value_free_eq: "string_buffer_concat_value_free ra ts s v = string_buffer_concat_value ra ts s v"
  by (simp add: string_buffer_concat_value_free_def string_buffer_concat_value_def split: sum.splits option.splits prod.splits)

subsection \<open>The copies\<close>

lemma widen_loop_ok:
  "2 * n \<le> length b \<Longrightarrow> \<exists>b'. widen_loop b n = Some b' \<and> length b' = length b \<and>
     take (2 * n) b' = unit_bytes (map ucast (take n b)) \<and> drop (2 * n) b' = drop (2 * n) b"
proof (induction n arbitrary: b)
  case (Suc i)
  let ?d = "le_bytes 2 (ucast (b ! i) :: u16)"
  let ?b = "take (2 * i) b @ ?d @ drop (2 * i + 2) b"
  have l: "2 * i + 2 \<le> length b" "length ?b = length b" using Suc.prems by simp_all
  obtain b' where 1: "widen_loop ?b i = Some b'" "length b' = length ?b" "take (2 * i) b' = unit_bytes (map ucast (take i ?b))"
      "drop (2 * i) b' = drop (2 * i) ?b" using Suc.IH [of ?b] l by auto
  have t: "take i ?b = take i b" using l by (simp add: min_def)
  have d: "drop (2 * i) b' = ?d @ drop (2 * i + 2) b" using 1(4) l by simp
  have b': "b' = take (2 * i) b' @ ?d @ drop (2 * i + 2) b" using d by (metis append_take_drop_id)
  have "take (2 * Suc i) b' = take (2 * i) b' @ ?d"
    by (subst b') (use l 1(2) in \<open>simp add: min_def\<close>)
  moreover have "drop (2 * Suc i) b' = drop (2 * Suc i) b"
    by (subst b') (use l 1(2) in \<open>simp add: min_def\<close>)
  moreover have "take (Suc i) b = take i b @ [b ! i]" using l by (simp add: take_Suc_conv_app_nth)
  ultimately show ?case using 1 t l by (simp add: wrn_def)
qed simp

lemma write8_loop_ok:
  "2 * (i + length xs) \<le> length b \<Longrightarrow> write8_loop b i xs = wrn b (2 * i) (unit_bytes (map ucast xs))"
proof (induction xs arbitrary: b i)
  case (Cons x xs)
  let ?d = "le_bytes 2 (ucast x :: u16)" let ?b = "take (2 * i) b @ ?d @ drop (2 * i + 2) b"
  have "write8_loop b i (x # xs) = wrn ?b (2 * Suc i) (unit_bytes (map ucast xs))"
    using Cons.IH [of "Suc i" ?b] Cons.prems by simp
  also have "\<dots> = wrn b (2 * i) (unit_bytes (map ucast (x # xs)))" using Cons.prems by (simp add: wrn_def min_def ac_simps)
  finally show ?case .
qed simp

lemma write16_loop_ok: "i + length xs \<le> length b \<Longrightarrow> write16_loop b i xs = wrn b i (map ucast xs)"
proof (induction xs arbitrary: b i)
  case (Cons x xs)
  then show ?case by (simp add: wrn_def upd_conv_take_nth_drop min_def ac_simps)
qed simp

subsection \<open>The contract of the buffer\<close>

text \<open>A block holds the units \<open>us\<close> in one of the two widths.\<close>

definition holds :: "u8 list \<Rightarrow> bool \<Rightarrow> u16 list \<Rightarrow> bool" where
  "holds b w us \<longleftrightarrow>
     (if w then take (2 * length us) b = unit_bytes us
      else take (length us) b = map ucast us \<and> (\<forall>u\<in>set us. u < 0x100))"

text \<open>
  The largest size that a buffer for at most \<open>2 ^ 28\<close> units gets: half as much again, and the slack
  of the allocator.
\<close>

definition sb_max :: "bool \<Rightarrow> nat" where
  "sb_max w = 3 * 2 ^ 27 + 2 ^ 20 + (if w then 2 ^ 20 else 0)"

definition fits :: "u16 list option \<Rightarrow> nat \<Rightarrow> bool" where
  "fits X n \<longleftrightarrow> (case X of None \<Rightarrow> True | Some us \<Rightarrow> length us + n \<le> 2 ^ 28)"

text \<open>Characters above the basic plane are two units.\<close>

definition char_units :: "u32 \<Rightarrow> u16 list" where
  "char_units c =
     (if c \<ge> 0x10000 then [ucast (drop_bit 10 (c - 0x10000) + 0xd800), ucast (((c - 0x10000) AND 0x3ff) + 0xdc00)]
      else [ucast c])"

lemma surrogate_range:
  assumes "c \<le> (0x10ffff :: u32)" and "0x10000 \<le> c"
  shows "drop_bit 10 (c - 0x10000) + 0xd800 < (0x10000 :: u32)" "((c - 0x10000) AND 0x3ff) + 0xdc00 < (0x10000 :: u32)"
proof -
  let ?d = "c - 0x10000"
  have c: "unat c \<le> 0x10ffff" using assms(1) by (simp add: word_le_nat_alt)
  have d: "unat ?d < 2 ^ 20" using assms c by (simp add: unat_sub word_le_nat_alt)
  have "unat (drop_bit 10 ?d) < 2 ^ 10" 
    using d by (simp only: unat_drop_bit_eq) (simp add: drop_bit_eq_div)
  then show "drop_bit 10 ?d + 0xd800 < (0x10000 :: u32)" by (simp add: word_less_nat_alt unat_word_ariths)
  have "?d AND 0x3ff = take_bit 10 ?d" by (simp add: take_bit_eq_mask mask_eq_exp_minus_1)
  then have "unat (?d AND 0x3ff) < 2 ^ 10" by (simp add: unsigned_take_bit_eq take_bit_nat_less_exp [of 10, simplified])
  then show "(?d AND 0x3ff) + 0xdc00 < (0x10000 :: u32)" by (simp add: word_less_nat_alt unat_word_ariths)
qed

text \<open>
  What is relied on of the conversion of values: it throws when it does not return a string, and the
  strings have at most \<open>L\<close> units.
\<close>

definition conversion :: "('h \<Rightarrow> bool) \<Rightarrow> ('h \<Rightarrow> 'v \<Rightarrow> 'h \<times> JSString option) \<Rightarrow> nat \<Rightarrow> bool" where
  "conversion pending ts L \<longleftrightarrow>
     (\<forall>h x h' p. ts h x = (h', Some p) \<longrightarrow> str_len p \<le> L \<and> pending h' = pending h) \<and>
     (\<forall>h x h'. ts h x = (h', None) \<longrightarrow> pending h')"

text \<open>The units that a value adds.\<close>

definition value_units :: "('h \<Rightarrow> 'v \<Rightarrow> 'h \<times> JSString option) \<Rightarrow> JSString + 'v \<Rightarrow> u16 list \<Rightarrow> bool" where
  "value_units to_string v ds \<longleftrightarrow>
     (case v of Inl p \<Rightarrow> ds = str_units p | Inr x \<Rightarrow> \<exists>h h' p. to_string h x = (h', Some p) \<and> ds = str_units p)"

context str_allocator
begin

text \<open>The buffer contains the units \<open>us\<close>, or an error has happened and its exception is pending.\<close>

definition sb_ok :: "'h StringBuffer \<Rightarrow> u16 list option \<Rightarrow> bool" where
  "sb_ok s X \<longleftrightarrow>
     (case X of
        None \<Rightarrow> sb_error_status s \<and> sb_str s = None \<and> sb_len s = 0 \<and> sb_size s = 0 \<and> pending (sb_ctx s)
      | Some us \<Rightarrow>
          \<not> sb_error_status s \<and> \<not> pending (sb_ctx s) \<and> sb_len s = length us \<and> length us \<le> sb_size s \<and> sb_size s \<le> sb_max (sb_is_wide_char s) \<and>
          (\<exists>b. sb_str s = Some b \<and> holds b (sb_is_wide_char s) us \<and> str_bytes (sb_size s) (sb_is_wide_char s) \<le> length b))"

lemma sb_ok_None: "pending h \<Longrightarrow> sb_ok (snd (string_buffer_set_error (s\<lparr>sb_ctx := h\<rparr>))) None" "fst (string_buffer_set_error s) = -1"
  by (simp_all add: sb_ok_def string_buffer_set_error_def)

lemma sb_ok_ctx: "pending h = pending (sb_ctx s) \<Longrightarrow> sb_ok (s\<lparr>sb_ctx := h\<rparr>) X = sb_ok s X"
  by (simp add: sb_ok_def split: option.splits)

text \<open>
  What the operations promise, for the units \<open>ds\<close>: they are appended, and the buffer is widened
  exactly when one of them needs it; or there is an error.
\<close>

definition appended :: "'h StringBuffer \<Rightarrow> u16 list option \<Rightarrow> u16 list \<Rightarrow> int \<times> 'h StringBuffer \<Rightarrow> u16 list option \<Rightarrow> bool" where
  "appended s X ds rs Y \<longleftrightarrow>
     sb_ok (snd rs) Y \<and> (fst rs = 0 \<or> fst rs = -1 \<and> Y = None) \<and>
     (case Y of
        None \<Rightarrow> X = None \<or> fst rs = -1
      | Some vs \<Rightarrow> \<exists>us. X = Some us \<and> vs = us @ ds \<and> (sb_is_wide_char (snd rs) \<longleftrightarrow> sb_is_wide_char s \<or> (\<exists>d\<in>set ds. 0x100 \<le> d)))"

lemma error_appended: "sb_ok s None \<Longrightarrow> appended s None ds (-1, s) None"
  by (simp add: appended_def)

lemma empty_appended: "sb_ok s X \<Longrightarrow> appended s X [] (0, s) X"
  by (cases X) (simp_all add: appended_def)

lemma appended_sb: "appended s X ds rs Y \<Longrightarrow> sb_ok (snd rs) Y"
  by (simp add: appended_def)

lemma appended_fits: "appended s X ds rs Y \<Longrightarrow> fits X (length ds + n) \<Longrightarrow> fits Y n"
  by (auto simp: appended_def fits_def split: option.splits)

lemma appended_trans:
  assumes 1: "appended s X ds (0, s1) Y" and 2: "appended s1 Y es rs Z"
  shows "appended s X (ds @ es) rs Z"
proof (cases Z)
  case None
  then show ?thesis using 1 2 by (auto simp: appended_def split: option.splits)
next
  case (Some vs)
  then obtain us where "Y = Some us" "vs = us @ es" "sb_is_wide_char (snd rs) \<longleftrightarrow> sb_is_wide_char s1 \<or> (\<exists>d\<in>set es. 0x100 \<le> d)" using 2 by (auto simp: appended_def)
  then show ?thesis using 1 2 Some by (auto simp: appended_def)
qed

lemma appended_fail:
  assumes "appended s X ds (r, s1) Y" and "r \<noteq> 0"
  shows "appended s X es (-1, s1) None"
  using assms by (auto simp: appended_def split: option.splits)

lemma then_appended:
  assumes 1: "appended s X ds (r, s1) Y" and 2: "\<And>Y. sb_ok s1 Y \<Longrightarrow> fits Y (length es) \<Longrightarrow> \<exists>rs Z. f s1 = Some rs \<and> appended s1 Y es rs Z"
    and l: "fits X (length ds + length es)"
  shows "\<exists>rs Z. (if r \<noteq> 0 then Some (-1, s1) else f s1) = Some rs \<and> appended s X (ds @ es) rs Z"
proof (cases "r = 0")
  case True
  obtain rs Z where "f s1 = Some rs" "appended s1 Y es rs Z"
    using 2 [OF appended_sb [OF 1, simplified] appended_fits [OF 1 l]] by blast
  then show ?thesis using appended_trans 1 True by (metis (full_types))
next
  case False
  then show ?thesis using appended_fail [OF 1] by (metis (full_types))
qed

text \<open>Room for \<open>n\<close> units of the width that \<open>ds\<close> needs, before they are written.\<close>

definition roomy :: "'h StringBuffer \<Rightarrow> u16 list \<Rightarrow> nat \<Rightarrow> bool \<Rightarrow> int \<times> 'h StringBuffer \<Rightarrow> bool" where
  "roomy s us n w rs \<longleftrightarrow>
     fst rs = -1 \<and> sb_ok (snd rs) None \<or>
     fst rs = 0 \<and> sb_ok (snd rs) (Some us) \<and> length us + n \<le> sb_size (snd rs) \<and> (sb_is_wide_char (snd rs) \<longleftrightarrow> sb_is_wide_char s \<or> w)"

lemma widen_room:
  assumes s: "sb_ok s (Some us)" and w: "\<not> sb_is_wide_char s" and n: "length us \<le> n" "n \<le> sb_max False"
  shows "\<exists>rs. string_buffer_widen ra s n = Some rs \<and> roomy s us (n - length us) True rs"
proof -
  obtain b where b: "sb_str s = Some b" "take (length us) b = map ucast us" "\<forall>u\<in>set us. u < 0x100" "length us \<le> length b"
    using s w by (auto simp: sb_ok_def holds_def str_bytes_def)
  have e: "\<not> sb_error_status s" "sb_len s = length us" using s by (simp_all add: sb_ok_def)
  have c: "cint (int n * 2) = Some (int n * 2)" using n by (simp add: sb_max_def)
  obtain h r where ra: "rt_realloc2 ra (sb_ctx s) (Some b) (2 * n) = (h, r)" by fastforce
  show ?thesis
  proof (cases r)
    case None
    then show ?thesis using e b c ra sb_ok_None(1) [OF ra_throws [OF ra [unfolded None]], of s] sb_ok_None(2)
      by (auto simp: string_buffer_widen_def roomy_def)
  next
    case (Some bs)
    obtain b' slack where bs: "bs = (b', slack)" by fastforce
    note ra' = ra [unfolded Some bs]
    have l: "2 * n + slack \<le> length b'" "slack \<le> 2 ^ 20" "take (length us) b' = take (length us) b"
      using ra_length [OF ra'] ra_slack [OF ra'] ra_prefix [OF ra', of "length us"] b(4) n(1) by simp_all
    obtain b'' where wl: "widen_loop b' (length us) = Some b''" "length b'' = length b'" "take (2 * length us) b'' = unit_bytes (map ucast (take (length us) b'))"
      using widen_loop_ok [of "length us" b'] l(1) n(1) by auto
    have "map (ucast \<circ> (ucast :: u16 \<Rightarrow> u8)) us = us"
      by (rule map_idI) (use b(3) in \<open>simp add: narrow_ucast\<close>)
    then have u: "take (2 * length us) b'' = unit_bytes us" using wl(3) l(3) b(2) by simp
    let ?s = "s\<lparr>sb_is_wide_char := True, sb_size := n + slack div 2, sb_str := Some b'', sb_ctx := h\<rparr>"
    have c2: "cint (int n + int (slack div 2)) = Some (int n + int (slack div 2))" using n l(2) by (simp add: sb_max_def) 
    have "string_buffer_widen ra s n = Some (0, ?s)"
      using e b(1) c ra' wl(1) c2 by (simp add: string_buffer_widen_def nat_add_distrib)
    moreover have np: "\<not> pending h" using ra_pending [OF ra'] s by (simp add: sb_ok_def)
    have sz: "n + slack div 2 \<le> sb_max True" "2 * n + 2 * (slack div 2) \<le> length b'" using n(2) l(1,2) by (simp add: sb_max_def, arith+)
    have "sb_ok ?s (Some us)" using e u n l wl(2) np sz by (simp add: sb_ok_def holds_def str_bytes_def)
    ultimately show ?thesis using n(1) by (intro exI [of _ "(0, ?s)"]) (simp add: roomy_def)
  qed
qed

lemma realloc_room:
  assumes s: "sb_ok s (Some us)" and n: "length us + n \<le> 2 ^ 28" "sb_size s < length us + n"
  shows "\<exists>rs. string_buffer_realloc ra s (length us + n) c = Some rs \<and> roomy s us n (0x100 \<le> c) rs"
proof -
  let ?w = "sb_is_wide_char s"
  obtain b where b: "sb_str s = Some b" "holds b ?w us" "str_bytes (sb_size s) ?w \<le> length b" using s by (auto simp: sb_ok_def)
  have e: "\<not> sb_error_status s" "sb_len s = length us" "length us \<le> sb_size s" "sb_size s \<le> sb_max ?w" using s by (simp_all add: sb_ok_def)
  define m where "m = max (length us + n) (sb_size s * 3 div 2)"
  have m: "length us + n \<le> m" "m \<le> 3 * 2 ^ 27" using n by (simp_all add: m_def)
  have c3: "cint (int (sb_size s) * 3) = Some (int (sb_size s) * 3)" using n by simp
  have "nat (int (sb_size s) * 3) div 2 = sb_size s * 3 div 2" by (simp add: nat_mult_distrib)
  then have ms: "min (max (length us + n) (nat (int (sb_size s) * 3) div 2)) JS_STRING_LEN_MAX = m"
    using m(2) unfolding m_def by (simp add: JS_STRING_LEN_MAX_def)
  have lm: "\<not> JS_STRING_LEN_MAX < length us + n" using n(1) by (simp add: JS_STRING_LEN_MAX_def)
  show ?thesis
  proof (cases "\<not> ?w \<and> 0x100 \<le> c")
    case True
    obtain rs where rs: "string_buffer_widen ra s m = Some rs" "roomy s us (m - length us) True rs"
      using widen_room [OF s, of m] True m by (auto simp: sb_max_def)
    have "string_buffer_realloc ra s (length us + n) c = Some rs"
      using e(1) lm c3 True rs(1) by (simp add: string_buffer_realloc_def ms)
    then show ?thesis using rs(2) True m(1) by (auto simp: roomy_def)
  next
    case False
    have cb: "cint (int (str_bytes m ?w)) = Some (int (str_bytes m ?w))" using m(2) by (simp add: str_bytes_def)
    obtain h r where ra: "rt_realloc2 ra (sb_ctx s) (Some b) (str_bytes m ?w) = (h, r)" by fastforce
    note def = string_buffer_realloc_def e(1) lm c3 ms cb b(1) ra
    show ?thesis
    proof (cases r)
      case None
      then have "string_buffer_realloc ra s (length us + n) c = Some (string_buffer_set_error (s\<lparr>sb_ctx := h\<rparr>))"
        using False lm by (auto simp: def)
      then show ?thesis using sb_ok_None(1) [OF ra_throws [OF ra [unfolded None]], of s] sb_ok_None(2) by (auto simp: roomy_def)
    next
      case (Some bs)
      obtain b' slack where bs: "bs = (b', slack)" by fastforce
      note ra' = ra [unfolded Some bs]
      have l: "str_bytes m ?w + slack \<le> length b'" "slack \<le> 2 ^ 20" using ra_length [OF ra'] ra_slack [OF ra'] by simp_all
      have np: "\<not> pending h" using ra_pending [OF ra'] s by (simp add: sb_ok_def)
      have "holds b' ?w us"
        using b(2,3) e(3) m(1) ra_prefix [OF ra', of "length us"] ra_prefix [OF ra', of "2 * length us"]
        by (auto simp: holds_def str_bytes_def split: if_splits)
      then have "sb_ok (s\<lparr>sb_size := min (m + (if ?w then slack div 2 else slack)) JS_STRING_LEN_MAX, sb_str := Some b', sb_ctx := h\<rparr>) (Some us)" (is "sb_ok ?s _")
        using e m l np by (auto simp: sb_ok_def str_bytes_def sb_max_def JS_STRING_LEN_MAX_def)
      moreover have "string_buffer_realloc ra s (length us + n) c = Some (0, ?s)"
        using False lm by (auto simp: def Some bs)
      ultimately show ?thesis using m False lm by (intro exI [of _ "(0, ?s)"]) (auto simp: roomy_def)
    qed
  qed
qed

lemma realloc_error: "sb_ok s None \<Longrightarrow> string_buffer_realloc ra s n c = Some (-1, s)"
  by (simp add: string_buffer_realloc_def sb_ok_def)

lemma put_unit_ok:
  assumes s: "sb_ok s (Some us)" and r: "length us < sb_size s" and c: "sb_is_wide_char s \<or> c < 0x100"
  shows "\<exists>s'. put_unit s c = Some (0, s') \<and> sb_ok s' (Some (us @ [ucast c])) \<and> sb_is_wide_char s' = sb_is_wide_char s \<and> sb_size s' = sb_size s"
proof -
  obtain b where b: "sb_str s = Some b" "holds b (sb_is_wide_char s) us" "str_bytes (sb_size s) (sb_is_wide_char s) \<le> length b"
    using s by (auto simp: sb_ok_def)
  have e: "\<not> sb_error_status s" "sb_len s = length us" "sb_size s \<le> sb_max (sb_is_wide_char s)" "\<not> pending (sb_ctx s)" using s by (simp_all add: sb_ok_def)
  have ci: "cint (int (length us) + 1) = Some (int (length us) + 1)" using r e(3) by (simp add: sb_max_def split: if_splits)
  show ?thesis
  proof (cases "sb_is_wide_char s")
    case True
    let ?b = "take (2 * length us) b @ le_bytes 2 (ucast c :: u16) @ drop (2 * length us + 2) b"
    have l: "2 * length us + 2 \<le> length b" using b(3) r True by (simp add: str_bytes_def)
    let ?s = "s\<lparr>sb_str := Some ?b, sb_len := length us + 1\<rparr>"
    have "put_unit s c = Some (0, ?s)" using b(1) e ci True l by (simp add: put_unit_def nat_add_distrib)
    moreover have "sb_ok ?s (Some (us @ [ucast c]))" using e r b True l by (simp add: sb_ok_def holds_def str_bytes_def)
    ultimately show ?thesis by (intro exI [of _ ?s]) simp
  next
    case False
    have l: "length us < length b" using b(3) r False by (simp add: str_bytes_def)
    let ?s = "s\<lparr>sb_str := Some (b[length us := ucast c]), sb_len := length us + 1\<rparr>"
    have "put_unit s c = Some (0, ?s)" using b(1) e ci False l by (simp add: put_unit_def nat_add_distrib)
    moreover have "take (Suc (length us)) (b[length us := ucast c]) = take (length us) b @ [ucast c]"
      using l by (simp add: take_Suc_conv_app_nth)
    then have "sb_ok ?s (Some (us @ [ucast c]))" using e r b False l c
      by (auto simp: sb_ok_def holds_def str_bytes_def ucast_narrow)
    ultimately show ?thesis by (intro exI [of _ ?s]) simp
  qed
qed

lemma roomy_put:
  assumes r: "roomy s us 1 (0x100 \<le> c) (r, s1)" and c: "c < 0x10000"
  shows "\<exists>rs Y. (if r \<noteq> 0 then Some (-1, s1) else put_unit s1 c) = Some rs \<and> appended s (Some us) [ucast c] rs Y"
proof (cases "r = 0")
  case True
  then have s1: "sb_ok s1 (Some us)" "length us < sb_size s1" "sb_is_wide_char s1 \<longleftrightarrow> sb_is_wide_char s \<or> 0x100 \<le> c"
    using r by (auto simp: roomy_def)
  obtain s' where "put_unit s1 c = Some (0, s')" "sb_ok s' (Some (us @ [ucast c]))" "sb_is_wide_char s' = sb_is_wide_char s1"
    using put_unit_ok [OF s1(1,2), of c] s1(3) by fastforce
  then show ?thesis using True s1(3) ucast_wide [OF c] by (intro exI [of _ "(0, s')"] exI [of _ "Some (us @ [ucast c])"]) (simp add: appended_def)
next
  case False
  then show ?thesis using r by (intro exI [of _ "(-1, s1)"] exI [of _ None]) (auto simp: appended_def roomy_def)
qed

lemma putc_slow_ok:
  assumes s: "sb_ok s (Some us)" and l: "length us + 1 \<le> 2 ^ 28" and c: "c < 0x10000"
  shows "\<exists>rs Y. string_buffer_putc_slow ra s c = Some rs \<and> appended s (Some us) [ucast c] rs Y"
proof -
  have e: "sb_len s = length us" "length us \<le> sb_size s" "sb_size s \<le> sb_max (sb_is_wide_char s)" using s by (simp_all add: sb_ok_def)
  have put: "\<exists>rs Y. (if r \<noteq> 0 then Some (-1, s1) else if sb_is_wide_char s1 \<or> c < 0x100 then put_unit s1 c
      else do { (r, s) \<leftarrow> string_buffer_widen ra s1 (sb_size s1); if r \<noteq> 0 then Some (-1, s) else put_unit s c }) = Some rs \<and> appended s (Some us) [ucast c] rs Y"
    if "roomy s us 1 (0x100 \<le> c) (r, s1)" for r s1
  proof -
    have "r \<noteq> 0 \<or> sb_is_wide_char s1 \<or> c < 0x100" using that by (auto simp: roomy_def not_le)
    then show ?thesis using roomy_put [OF that c] by (cases "r = 0") auto
  qed
  show ?thesis
  proof (cases "sb_len s \<ge> sb_size s")
    case True
    obtain r s1 where rs: "string_buffer_realloc ra s (length us + 1) c = Some (r, s1)" "roomy s us 1 (0x100 \<le> c) (r, s1)"
      using realloc_room [OF s, of 1 c] l e True by auto
    then show ?thesis using put [OF rs(2)] True e(1) by (auto simp: string_buffer_putc_slow_def)
  next
    case False
    show ?thesis
    proof (cases "sb_is_wide_char s \<or> c < 0x100")
      case True
      then have "roomy s us 1 (0x100 \<le> c) (0, s)" using s False e by (auto simp: roomy_def)
      from put [OF this] show ?thesis using False by (simp add: string_buffer_putc_slow_def)
    next
      case nw: False
      then obtain r s1 where rs: "string_buffer_widen ra s (sb_size s) = Some (r, s1)" "roomy s us (sb_size s - length us) True (r, s1)"
        using widen_room [OF s, of "sb_size s"] e by auto
      then have "roomy s us 1 (0x100 \<le> c) (r, s1)" using nw False e by (auto simp: roomy_def not_less)
      from roomy_put [OF this c] show ?thesis using nw False rs(1) by (simp add: string_buffer_putc_slow_def)
    qed
  qed
qed

lemma putc16_ok:
  assumes s: "sb_ok s X" and l: "fits X 1" and c: "c < 0x10000"
  shows "\<exists>rs Y. string_buffer_putc16 ra s c = Some rs \<and> appended s X [ucast c] rs Y"
proof (cases X)
  case None
  then have "sb_len s = 0" "sb_size s = 0" using s by (simp_all add: sb_ok_def)
  then have "string_buffer_putc16 ra s c = Some (-1, s)"
    using realloc_error [of s] s None by (simp add: string_buffer_putc16_def string_buffer_putc_slow_def)
  then show ?thesis using error_appended s None by blast
next
  case (Some us)
  note s' = s [unfolded Some]
  show ?thesis
  proof (cases "sb_len s < sb_size s \<and> (sb_is_wide_char s \<or> c < 0x100)")
    case True
    then have "roomy s us 1 (0x100 \<le> c) (0, s)" using s' by (auto simp: roomy_def sb_ok_def)
    from roomy_put [OF this c] show ?thesis using True Some by (simp add: string_buffer_putc16_def)
  next
    case False
    then have "string_buffer_putc16 ra s c = string_buffer_putc_slow ra s c" by (auto simp: string_buffer_putc16_def)
    then show ?thesis using putc_slow_ok [OF s' _ c] l Some by (simp add: fits_def)
  qed
qed

lemma putc8_ok:
  assumes s: "sb_ok s X" and l: "fits X 1" and c: "c < 0x100"
  shows "\<exists>rs Y. string_buffer_putc8 ra s c = Some rs \<and> appended s X [ucast c] rs Y"
proof (cases X)
  case None
  then have "sb_len s = 0" "sb_size s = 0" using s by (simp_all add: sb_ok_def)
  then have "string_buffer_putc8 ra s c = Some (-1, s)"
    using realloc_error [of s] s None by (simp add: string_buffer_putc8_def)
  then show ?thesis using error_appended s None by blast
next
  case (Some us)
  note s' = s [unfolded Some]
  have c': "c < 0x10000" using c by (rule less_le_trans) simp
  have e: "sb_len s = length us" "length us \<le> sb_size s" using s' by (simp_all add: sb_ok_def)
  show ?thesis
  proof (cases "sb_len s \<ge> sb_size s")
    case True
    obtain r s1 where rs: "string_buffer_realloc ra s (length us + 1) c = Some (r, s1)" "roomy s us 1 (0x100 \<le> c) (r, s1)"
      using realloc_room [OF s', of 1 c] l e True Some by (auto simp: fits_def)
    from roomy_put [OF rs(2) c'] show ?thesis using True e(1) rs(1) Some by (simp add: string_buffer_putc8_def)
  next
    case False
    then have "roomy s us 1 (0x100 \<le> c) (0, s)" using s' e c by (auto simp: roomy_def not_le)
    from roomy_put [OF this c'] show ?thesis using False Some by (simp add: string_buffer_putc8_def)
  qed
qed

text \<open>Blocks of units.\<close>

lemma roomy_write:
  assumes r: "roomy s us (length ds) w (0, s1)" and w: "w \<longleftrightarrow> (\<exists>d\<in>set ds. 0x100 \<le> d)" and ne: "ds \<noteq> []"
  shows "\<exists>b. sb_str s1 = Some b \<and> (if sb_is_wide_char s1 then 2 * (length us + length ds) \<le> length b else length us + length ds \<le> length b) \<and>
     (\<forall>b'. wrn b (if sb_is_wide_char s1 then 2 * length us else length us) (if sb_is_wide_char s1 then unit_bytes ds else map ucast ds) = Some b' \<longrightarrow>
        appended s (Some us) ds (0, s1\<lparr>sb_str := Some b', sb_len := sb_len s1 + length ds\<rparr>) (Some (us @ ds)))"
proof -
  have s1: "sb_ok s1 (Some us)" "length us + length ds \<le> sb_size s1" "sb_is_wide_char s1 \<longleftrightarrow> sb_is_wide_char s \<or> w"
    using r by (auto simp: roomy_def)
  obtain b where b: "sb_str s1 = Some b" "holds b (sb_is_wide_char s1) us" "str_bytes (sb_size s1) (sb_is_wide_char s1) \<le> length b"
    using s1(1) by (auto simp: sb_ok_def)
  have e: "\<not> sb_error_status s1" "sb_len s1 = length us" "sb_size s1 \<le> sb_max (sb_is_wide_char s1)" "\<not> pending (sb_ctx s1)" using s1(1) by (simp_all add: sb_ok_def)
  show ?thesis
  proof (cases "sb_is_wide_char s1")
    case True
    have l: "2 * (length us + length ds) \<le> length b" using b(3) s1(2) True by (simp add: str_bytes_def)
    then show ?thesis using b s1 e True w by (auto simp: appended_def sb_ok_def holds_def str_bytes_def)
  next
    case False
    have l: "length us + length ds \<le> length b" using b(3) s1(2) False by (simp add: str_bytes_def)
    have "\<forall>d\<in>set ds. d < 0x100" using False s1(3) w by (auto simp: not_le)
    then show ?thesis using l b s1 e False w by (auto simp: appended_def sb_ok_def holds_def str_bytes_def)
  qed
qed

lemma write_room:
  assumes s: "sb_ok s (Some us)" and n: "length us + n \<le> 2 ^ 28" and w: "c < 0x100 \<or> sb_is_wide_char s \<or> sb_size s < length us + n"
  shows "\<exists>r s1. (if nat (int (length us) + int n) > sb_size s then string_buffer_realloc ra s (nat (int (length us) + int n)) c else Some (0, s)) = Some (r, s1) \<and>
     roomy s us n (0x100 \<le> c) (r, s1)"
proof (cases "sb_size s < length us + n")
  case True
  moreover have "nat (int (length us) + int n) = length us + n" by simp
  ultimately show ?thesis using realloc_room [OF s n True, of c] by auto
next
  case False
  moreover have "nat (int (length us) + int n) = length us + n" by simp
  ultimately show ?thesis using s w by (auto simp: roomy_def sb_ok_def not_less)
qed

lemma write8_ok:
  assumes s: "sb_ok s X" and l: "fits X (length p)" and p: "length p < 2 ^ 31"
  shows "\<exists>rs Y. string_buffer_write8 ra s p = Some rs \<and> appended s X (map ucast p) rs Y"
proof (cases X)
  case None
  have "sb_len s = 0" "sb_size s = 0" using s None by (simp_all add: sb_ok_def)
  then have "string_buffer_write8 ra s p = (if p = [] then Some (0, s) else Some (-1, s))"
    using realloc_error [of s] s None p by (simp add: string_buffer_write8_def)
  then show ?thesis using error_appended [of s] empty_appended [OF s] s None by (cases "p = []") auto
next
  case (Some us)
  note s' = s [unfolded Some]
  have l': "length us + length p \<le> 2 ^ 28" using l Some by (simp add: fits_def)
  have e: "sb_len s = length us" using s' by (simp add: sb_ok_def)
  have ci: "cint (int (length us) + int (length p)) = Some (int (length us) + int (length p))" using l' by simp
  have nr: "\<not> (\<exists>d\<in>set (map ucast p :: u16 list). 0x100 \<le> d)" by (auto simp: not_le narrow_byte)
  obtain r s1 where rs: "(if nat (int (length us) + int (length p)) > sb_size s then string_buffer_realloc ra s (nat (int (length us) + int (length p))) 0 else Some (0, s)) = Some (r, s1)"
      "roomy s us (length p) (0x100 \<le> (0 :: u32)) (r, s1)" using write_room [OF s' l', of 0] by auto
  note def = string_buffer_write8_def e ci rs(1)
  show ?thesis
  proof (cases "r \<noteq> 0 \<or> p = []")
    case True
    then show ?thesis using rs(2) Some empty_appended [of s1]
      by (auto simp: def roomy_def appended_def)
  next
    case False
    then have rm: "roomy s us (length (map ucast p :: u16 list)) False (0, s1)" using rs(2) by simp
    have s1: "sb_len s1 = length us" using rm by (auto simp: roomy_def sb_ok_def)
    obtain b where b: "sb_str s1 = Some b" "if sb_is_wide_char s1 then 2 * (length us + length p) \<le> length b else length us + length p \<le> length b"
        "\<And>b'. wrn b (if sb_is_wide_char s1 then 2 * length us else length us) (if sb_is_wide_char s1 then unit_bytes (map ucast p) else map ucast (map ucast p :: u16 list)) = Some b' \<Longrightarrow>
          appended s (Some us) (map ucast p) (0, s1\<lparr>sb_str := Some b', sb_len := sb_len s1 + length p\<rparr>) (Some (us @ map ucast p))"
      using roomy_write [OF rm, unfolded length_map] nr False by blast
    have pp: "map ucast (map ucast p :: u16 list) = p" by (simp add: comp_def narrow_byte map_idI)
    obtain b' where b': "(if sb_is_wide_char s1 then write8_loop b (length us) p else wrn b (length us) p) = Some b'"
        "wrn b (if sb_is_wide_char s1 then 2 * length us else length us) (if sb_is_wide_char s1 then unit_bytes (map ucast p) else p) = Some b'"
      using b(2) by (auto simp: write8_loop_ok split: if_splits)
    have "string_buffer_write8 ra s p = Some (0, s1\<lparr>sb_str := Some b', sb_len := sb_len s1 + length p\<rparr>)"
      using False b(1) b'(1) s1 by (cases "sb_is_wide_char s1") (simp_all add: def)
    then show ?thesis using b(3) [of b'] b'(2) Some unfolding pp by blast
  qed
qed

lemma write16_ok:
  assumes s: "sb_ok s X" and l: "fits X (length p)" and p: "length p < 2 ^ 31"
  shows "\<exists>rs Y. string_buffer_write16 ra s p = Some rs \<and> appended s X p rs Y"
proof -
  obtain c where c: "or_loop p 0 (length p) 0 = Some c" "c < 0x100 \<longleftrightarrow> (\<forall>u\<in>set p. u < 0x100)" using or_loop_ok [of 0 "length p" p 0] by auto
  have cw: "0x100 \<le> (ucast c :: u32) \<longleftrightarrow> 0x100 \<le> c" by (rule ucast_up_wide)
  have wd: "0x100 \<le> c \<longleftrightarrow> (\<exists>d\<in>set p. 0x100 \<le> d)" using c(2) by (auto simp: not_less [symmetric])
  show ?thesis
  proof (cases X)
    case None
    have z: "sb_len s = 0" "sb_size s = 0" "sb_error_status s" using s None by (simp_all add: sb_ok_def)
    have "string_buffer_write16 ra s p = (if p = [] then Some (0, s) else Some (-1, s))"
      using realloc_error [of s] s None p z c(1) by (cases "p = []") (auto simp: string_buffer_write16_def string_buffer_widen_def)
    then show ?thesis using error_appended [of s] empty_appended [OF s] s None by (cases "p = []") auto
  next
    case (Some us)
    note s' = s [unfolded Some]
    have l': "length us + length p \<le> 2 ^ 28" using l Some by (simp add: fits_def)
    have e: "sb_len s = length us" "length us \<le> sb_size s" "sb_size s \<le> sb_max (sb_is_wide_char s)" using s' by (simp_all add: sb_ok_def)
    have ci: "cint (int (length us) + int (length p)) = Some (int (length us) + int (length p))" using l' by simp
    have "\<exists>r s1. (if nat (int (length us) + int (length p)) > sb_size s then string_buffer_realloc ra s (nat (int (length us) + int (length p))) (ucast c)
        else if \<not> sb_is_wide_char s \<and> c \<ge> 0x100 then string_buffer_widen ra s (sb_size s) else Some (0, s)) = Some (r, s1) \<and>
        roomy s us (length p) (0x100 \<le> c) (r, s1)"
    proof (cases "\<not> sb_is_wide_char s \<and> c \<ge> 0x100 \<and> \<not> sb_size s < length us + length p")
      case True
      then show ?thesis using widen_room [OF s', of "sb_size s"] e by (auto simp: roomy_def nat_int_add)
    next
      case False
      have "(ucast c :: u32) < 0x100 \<or> sb_is_wide_char s \<or> sb_size s < length us + length p" using False cw by (auto simp: not_le)
      from write_room [OF s' l' this] show ?thesis using False unfolding cw by (auto simp: nat_int_add)
    qed
    then obtain r s1 where rs: "(if nat (int (length us) + int (length p)) > sb_size s then string_buffer_realloc ra s (nat (int (length us) + int (length p))) (ucast c)
        else if \<not> sb_is_wide_char s \<and> c \<ge> 0x100 then string_buffer_widen ra s (sb_size s) else Some (0, s)) = Some (r, s1)"
        "roomy s us (length p) (0x100 \<le> c) (r, s1)" by blast
    note def = string_buffer_write16_def e(1) ci rs(1) c(1)
    show ?thesis
    proof (cases "r \<noteq> 0 \<or> p = []")
      case True
      then show ?thesis using rs(2) Some empty_appended [of s1] c
        by (auto simp: def roomy_def appended_def)
    next
      case False
      then have rm: "roomy s us (length p) (0x100 \<le> c) (0, s1)" using rs(2) by simp
      have s1: "sb_len s1 = length us" using rm by (auto simp: roomy_def sb_ok_def)
      obtain b where b: "sb_str s1 = Some b" "if sb_is_wide_char s1 then 2 * (length us + length p) \<le> length b else length us + length p \<le> length b"
          "\<And>b'. wrn b (if sb_is_wide_char s1 then 2 * length us else length us) (if sb_is_wide_char s1 then unit_bytes p else map ucast p) = Some b' \<Longrightarrow>
            appended s (Some us) p (0, s1\<lparr>sb_str := Some b', sb_len := sb_len s1 + length p\<rparr>) (Some (us @ p))"
        using roomy_write [OF rm wd] False by blast
      obtain b' where b': "(if sb_is_wide_char s1 then wrn b (2 * length us) (unit_bytes p) else write16_loop b (length us) p) = Some b'"
          "wrn b (if sb_is_wide_char s1 then 2 * length us else length us) (if sb_is_wide_char s1 then unit_bytes p else map ucast p) = Some b'"
        using b(2) by (auto simp: write16_loop_ok split: if_splits)
      have "string_buffer_write16 ra s p = Some (0, s1\<lparr>sb_str := Some b', sb_len := sb_len s1 + length p\<rparr>)"
        using False b(1) b'(1) s1 by (cases "sb_is_wide_char s1") (simp_all add: def)
      then show ?thesis using b(3) [of b'] b'(2) Some by blast
    qed
  qed
qed

lemma putc_ok:
  assumes s: "sb_ok s X" and l: "fits X (length (char_units c))" and c: "c \<le> 0x10ffff"
  shows "\<exists>rs Y. string_buffer_putc ra s c = Some rs \<and> appended s X (char_units c) rs Y"
proof (cases "c \<ge> 0x10000")
  case True
  note sr = surrogate_range [OF c True]
  let ?h = "drop_bit 10 (c - 0x10000) + 0xd800" and ?l = "((c - 0x10000) AND 0x3ff) + 0xdc00"
  have l2: "fits X (1 + 1)" using l True by (simp add: char_units_def)
  then have l1: "fits X 1" by (simp add: fits_def split: option.splits)
  obtain r s1 Y where h: "string_buffer_putc16 ra s ?h = Some (r, s1)" "appended s X [ucast ?h] (r, s1) Y"
    using putc16_ok [OF s l1 sr(1)] by auto
  have "\<exists>rs Z. (if r \<noteq> 0 then Some (-1, s1) else string_buffer_putc16 ra s1 ?l) = Some rs \<and> appended s X ([ucast ?h] @ [ucast ?l]) rs Z"
    by (rule then_appended [OF h(2)]) (use putc16_ok sr(2) l2 in \<open>simp_all\<close>)
  then show ?thesis using True h(1) by (simp add: string_buffer_putc_def char_units_def Let_def del: drop_bit_eq_div)
next
  case False
  then show ?thesis using putc16_ok [OF s, of c] l by (simp add: string_buffer_putc_def char_units_def)
qed

lemma puts8_ok:
  assumes s: "sb_ok s X" and z: "0 \<in> set str" and l: "fits X (length (cstr str))" and n: "length (cstr str) < 2 ^ 31"
  shows "\<exists>rs Y. string_buffer_puts8 ra s str = Some rs \<and> appended s X (map ucast (cstr str)) rs Y"
  using write8_ok [OF s l n] z cstr_len [OF z] by (simp add: string_buffer_puts8_def c_strlen_zero take_cstr)

lemma concat_ok:
  assumes s: "sb_ok s X" and l: "fits X (to - from)" and n: "to \<le> str_len p" "to - from < 2 ^ 31"
  shows "\<exists>rs Y. string_buffer_concat ra s p from to = Some rs \<and>
     appended s X (take (to - from) (drop from (str_units p))) rs Y"
proof (cases "to \<le> from")
  case True
  then show ?thesis using empty_appended [OF s] by (cases p) auto
next
  case False
  show ?thesis
  proof (cases p)
    case (Str16 us)
    have k: "length (take (to - from) (drop from us)) = to - from" using n Str16 False by simp
    show ?thesis using write16_ok [OF s, of "take (to - from) (drop from us)"] l n False Str16 unfolding k by simp
  next
    case (Str8 bs)
    have k: "length (take (to - from) (drop from bs)) = to - from" using n Str8 False by simp
    show ?thesis using write8_ok [OF s, of "take (to - from) (drop from bs)"] l n False Str8 unfolding k by (simp add: take_map drop_map)
  qed
qed

text \<open>A value that is not a string is converted first, which may be an error of its own.\<close>

lemma concat_value_ok:
  assumes s: "sb_ok s X" and l: "fits X L" "L < 2 ^ 31"
    and v: "\<And>p. v = Inl p \<Longrightarrow> str_len p \<le> L" "\<And>x. v = Inr x \<Longrightarrow> K \<le> L"
    and ts: "conversion pending to_string K"
  shows "\<exists>rs Y ds. string_buffer_concat_value ra to_string s v = Some rs \<and> length ds \<le> L \<and>
     (X \<noteq> None \<longrightarrow> Y \<noteq> None \<longrightarrow> value_units to_string v ds) \<and>
     appended s X ds rs Y"
proof (cases X)
  case None
  then have "string_buffer_concat_value ra to_string s v = Some (-1, s)"
    using s by (simp add: string_buffer_concat_value_def sb_ok_def)
  then show ?thesis using error_appended s None by (intro exI [of _ "(-1, s)"] exI [of _ None] exI [of _ "[]"]) simp
next
  case (Some us)
  have e: "\<not> sb_error_status s" using s Some by (simp add: sb_ok_def)
  have put: "\<exists>rs Y. string_buffer_concat ra (s\<lparr>sb_ctx := h\<rparr>) p 0 (str_len p) = Some rs \<and>
      appended s X (str_units p) rs Y" if pl: "str_len p \<le> L" and hp: "pending h = pending (sb_ctx s)" for p h
  proof -
    have "fits X (str_len p)" using l(1) pl by (auto simp: fits_def split: option.splits)
    then obtain rs Y where "string_buffer_concat ra (s\<lparr>sb_ctx := h\<rparr>) p 0 (str_len p) = Some rs"
        "appended (s\<lparr>sb_ctx := h\<rparr>) X (str_units p) rs Y"
      using concat_ok [of "s\<lparr>sb_ctx := h\<rparr>" X "str_len p" 0 p] s l(2) pl sb_ok_ctx [OF hp] by auto
    then show ?thesis by (auto simp: appended_def split: option.splits)
  qed
  show ?thesis
  proof (cases v)
    case (Inl p)
    obtain rs Y where 1: "string_buffer_concat ra s p 0 (str_len p) = Some rs"
      "appended s X (str_units p) rs Y" using put [of p "sb_ctx s"] v(1) Inl by auto
    then show ?thesis using e Inl v(1) [OF Inl]
      by (intro exI [of _ rs] exI [of _ Y] exI [of _ "str_units p"]) (simp add: string_buffer_concat_value_def value_units_def)
  next
    case (Inr x)
    obtain h r where t: "to_string (sb_ctx s) x = (h, r)" by fastforce
    show ?thesis
    proof (cases r)
      case None
      have "pending h" using ts t None by (simp add: conversion_def)
      then show ?thesis using sb_ok_None(1) [of h s] sb_ok_None(2) e t None Inr
        by (intro exI [of _ "string_buffer_set_error (s\<lparr>sb_ctx := h\<rparr>)"] exI [of _ None] exI [of _ "[]"])
          (simp add: string_buffer_concat_value_def appended_def)
    next
      case (Some p)
      have p: "str_len p \<le> L" "pending h = pending (sb_ctx s)"
        using order_trans [OF _ v(2) [OF Inr]] ts t Some by (auto simp: conversion_def)
      obtain rs Y where 1: "string_buffer_concat ra (s\<lparr>sb_ctx := h\<rparr>) p 0 (str_len p) = Some rs"
        "appended s X (str_units p) rs Y" using put [OF p] by blast
      have "value_units to_string v (str_units p)" using t Some Inr by (auto simp: value_units_def)
      then show ?thesis using 1 e t Inr p Some
        by (intro exI [of _ rs] exI [of _ Y] exI [of _ "str_units p"]) (simp add: string_buffer_concat_value_def)
    qed
  qed
qed

lemma fill_loop_ok:
  assumes "sb_ok s X" and "fits X n" and "c < 0x10000"
  shows "\<exists>rs Y. fill_loop ra s c n = Some rs \<and> appended s X (replicate n (ucast c)) rs Y"
  using assms
proof (induction n arbitrary: s X)
  case 0
  then show ?case using empty_appended by auto
next
  case (Suc n)
  have l1: "fits X 1" using Suc.prems(2) by (auto simp: fits_def split: option.splits)
  obtain r s1 Y where 1: "string_buffer_putc16 ra s c = Some (r, s1)" "appended s X [ucast c] (r, s1) Y"
    using putc16_ok [OF Suc.prems(1) l1 Suc.prems(3)] by auto
  have "\<exists>rs Z. (if r \<noteq> 0 then Some (-1, s1) else fill_loop ra s1 c n) = Some rs \<and> appended s X ([ucast c] @ replicate n (ucast c)) rs Z"
    by (rule then_appended [OF 1(2)]) (use Suc in simp_all)
  then show ?case using 1(1) by simp
qed

lemma roomy_appended: "roomy s us n w (r, s1) \<Longrightarrow> \<not> w \<Longrightarrow> appended s (Some us) [] (r, s1) (if r = 0 then Some us else None)"
  by (auto simp: roomy_def appended_def)

lemma fill_ok:
  assumes s: "sb_ok s X" and l: "fits X n" and c: "c < 0x10000" and n: "n < 2 ^ 31"
  shows "\<exists>rs Y. string_buffer_fill ra s c n = Some rs \<and> appended s X (replicate n (ucast c)) rs Y"
proof (cases "nat (int (sb_len s) + int n) > sb_size s")
  case False
  have "sb_len s \<le> 2 ^ 28 \<or> sb_len s = 0" using s l by (auto simp: sb_ok_def fits_def split: option.splits)
  then have "cint (int (sb_len s) + int n) = Some (int (sb_len s) + int n)" using s l n by (auto simp: sb_ok_def fits_def split: option.splits)
  then show ?thesis using fill_loop_ok [OF s l c] False by (simp add: string_buffer_fill_def)
next
  case True
  show ?thesis
  proof (cases X)
    case None
    then have "string_buffer_fill ra s c n = Some (-1, s)"
      using s realloc_error [of s] True n by (simp add: string_buffer_fill_def sb_ok_def)
    then show ?thesis using error_appended s None by blast
  next
    case (Some us)
    have e: "sb_len s = length us" "length us + n \<le> 2 ^ 28" using s l Some by (simp_all add: sb_ok_def fits_def)
    then have ci: "cint (int (length us) + int n) = Some (int (length us) + int n)" by simp
    obtain r s1 where rs: "string_buffer_realloc ra s (length us + n) c = Some (r, s1)" "roomy s us n (0x100 \<le> c) (r, s1)"
      using realloc_room [of s us n c] s Some e True by (auto simp: nat_int_add)
    have def: "string_buffer_fill ra s c n = (if r \<noteq> 0 then Some (-1, s1) else fill_loop ra s1 c n)"
      using True ci rs(1) e(1) by (simp add: string_buffer_fill_def nat_int_add)
    have n0: "n \<noteq> 0" using True e s Some by (auto simp: nat_int_add sb_ok_def)
    show ?thesis
    proof (cases "r = 0")
      case True
      then have s1: "sb_ok s1 (Some us)" "sb_is_wide_char s1 \<longleftrightarrow> sb_is_wide_char s \<or> 0x100 \<le> c" using rs(2) by (auto simp: roomy_def)
      obtain rs' Y where f: "fill_loop ra s1 c n = Some rs'" "appended s1 (Some us) (replicate n (ucast c)) rs' Y"
        using fill_loop_ok [OF s1(1) _ c, of n] l Some by blast
      have "appended s X (replicate n (ucast c)) rs' Y"
        using f(2) s1(2) ucast_wide [OF c] n0 Some by (auto simp: appended_def split: option.splits)
      then show ?thesis using def True f(1) by auto
    next
      case False
      then show ?thesis using rs(2) def Some by (intro exI [of _ "(-1, s1)"] exI [of _ None]) (auto simp: roomy_def appended_def)
    qed
  qed
qed

text \<open>Beginning and end.\<close>

lemma init_ok:
  assumes "n \<le> 2 ^ 28" and "\<not> pending h"
  shows "\<exists>r s. string_buffer_init2 ra h n w = Some (r, s) \<and> sb_is_wide_char s = w \<and>
     (r = 0 \<and> sb_ok s (Some []) \<or> r = -1 \<and> sb_ok s None)"
proof -
  have c: "cint (int (str_bytes n w)) = Some (int (str_bytes n w))" using assms by (simp add: str_bytes_def)
  obtain h' r where ra: "rt_realloc2 ra h None (str_bytes n w) = (h', r)" by fastforce
  show ?thesis
  proof (cases r)
    case None
    then show ?thesis using c ra ra_throws by (auto simp: string_buffer_init2_def js_alloc_string_def sb_ok_def)
  next
    case (Some bs)
    obtain b slack where bs: "bs = (b, slack)" by fastforce
    have "str_bytes n w + slack \<le> length b" "\<not> pending h'" using ra_length ra_pending ra Some bs assms(2) by auto
    then show ?thesis using c ra Some bs assms by (simp add: string_buffer_init2_def js_alloc_string_def sb_ok_def sb_max_def holds_def)
  qed
qed

lemma end_error: "sb_ok s None \<Longrightarrow> string_buffer_end ra s = Some (sb_ctx s, None)"
  by (simp add: string_buffer_end_def sb_ok_def)

lemma end_ok:
  assumes s: "sb_ok s (Some us)"
  shows "\<exists>h p. string_buffer_end ra s = Some (h, Some p) \<and> \<not> pending h \<and> str_units p = us \<and> (is_wide p \<longleftrightarrow> us \<noteq> [] \<and> sb_is_wide_char s)"
proof (cases "us = []")
  case True
  then show ?thesis using s by (simp add: string_buffer_end_def sb_ok_def)
next
  case False
  let ?w = "sb_is_wide_char s"
  obtain b where b: "sb_str s = Some b" "holds b ?w us" "str_bytes (sb_size s) ?w \<le> length b" using s by (auto simp: sb_ok_def)
  have e: "\<not> sb_error_status s" "sb_len s = length us" "length us \<le> sb_size s" using s by (simp_all add: sb_ok_def)
  obtain h b' where hb: "(if sb_len s < sb_size s
                      then (case rt_realloc ra (sb_ctx s) b (str_bytes (sb_len s) ?w) of
                              (h, None) \<Rightarrow> (h, b) | (h, Some b') \<Rightarrow> (h, b'))
                      else (sb_ctx s, b)) = (h, b')" by fastforce
  have "holds b' ?w us \<and> str_bytes (length us) ?w \<le> length b'"
  proof (cases "b' = b")
    case True
    then show ?thesis using b e by (auto simp: str_bytes_def split: if_splits)
  next
    case False
    then have ra: "rt_realloc ra (sb_ctx s) b (str_bytes (length us) ?w) = (h, Some b')"
      using hb e(2) by (auto split: if_splits option.splits prod.splits)
    have "k \<le> str_bytes (length us) ?w \<Longrightarrow> take k b' = take k b" for k
      using rt_prefix [OF ra, of k] b(3) e(3) by (auto simp: str_bytes_def split: if_splits)
    then show ?thesis using b(2) rt_length [OF ra] by (auto simp: holds_def str_bytes_def)
  qed
  then have b': "holds b' ?w us" "str_bytes (length us) ?w \<le> length b'" by blast+
  have "pending h = pending (sb_ctx s)" using hb rt_pending by (fastforce split: if_splits option.splits prod.splits)
  then have np: "\<not> pending h" using s by (simp add: sb_ok_def)
  have def: "string_buffer_end ra s = (if ?w then Some (h, Some (Str16 (units b' (length us))))
        else do { b \<leftarrow> wr b' (length us) 0; Some (h, Some (Str8 (take (length us) b))) })"
    using e b(1) hb False by (simp add: string_buffer_end_def)
  show ?thesis
  proof (cases ?w)
    case True
    then show ?thesis using def np b' False units_unit_bytes [of us b'] by (simp add: holds_def)
  next
    case wf: False
    have "map (ucast \<circ> (ucast :: u16 \<Rightarrow> u8)) us = us"
      by (rule map_idI) (use b'(1) wf in \<open>simp add: narrow_ucast holds_def\<close>)
    then show ?thesis using def np b' False wf by (simp add: holds_def str_bytes_def)
  qed
qed

end

subsection \<open>Sequences of operations\<close>

text \<open>
  A client calls the operations in any order, without looking at their results, and ends with
  \<open>string_buffer_end\<close>: the comment before \<open>string_buffer_init2\<close> says that this is valid.
\<close>

datatype 'v sb_op =
    Putc8 u32 | Putc16 u32 | Putc u32 | Write8 "u8 list" | Write16 "u16 list" | Puts8 "u8 list"
  | Concat JSString nat nat | Concat_value "JSString + 'v" | Fill u32 nat | Concat_value_free "JSString + 'v"

fun sb_step :: "'h str_runtime \<Rightarrow> ('h \<Rightarrow> 'v \<Rightarrow> 'h \<times> JSString option) \<Rightarrow> 'h StringBuffer \<Rightarrow> 'v sb_op \<Rightarrow> (int \<times> 'h StringBuffer) option" where
  "sb_step ra ts s (Putc8 c) = string_buffer_putc8 ra s c"
| "sb_step ra ts s (Putc16 c) = string_buffer_putc16 ra s c"
| "sb_step ra ts s (Putc c) = string_buffer_putc ra s c"
| "sb_step ra ts s (Write8 p) = string_buffer_write8 ra s p"
| "sb_step ra ts s (Write16 p) = string_buffer_write16 ra s p"
| "sb_step ra ts s (Puts8 p) = string_buffer_puts8 ra s p"
| "sb_step ra ts s (Concat p from to) = string_buffer_concat ra s p from to"
| "sb_step ra ts s (Concat_value v) = string_buffer_concat_value ra ts s v"
| "sb_step ra ts s (Fill c n) = string_buffer_fill ra s c n"
| "sb_step ra ts s (Concat_value_free v) = string_buffer_concat_value_free ra ts s v"

fun sb_run :: "'h str_runtime \<Rightarrow> ('h \<Rightarrow> 'v \<Rightarrow> 'h \<times> JSString option) \<Rightarrow> 'h StringBuffer \<Rightarrow> 'v sb_op list \<Rightarrow> 'h StringBuffer option" where
  "sb_run ra ts s [] = Some s"
| "sb_run ra ts s (a # as) = do { (_, s) \<leftarrow> sb_step ra ts s a; sb_run ra ts s as }"

definition sb_build :: "'h str_runtime \<Rightarrow> ('h \<Rightarrow> 'v \<Rightarrow> 'h \<times> JSString option) \<Rightarrow> 'h \<Rightarrow> nat \<Rightarrow> 'v sb_op list \<Rightarrow> ('h \<times> JSString option) option" where
  "sb_build ra ts h sz as = do { (_, s) \<leftarrow> string_buffer_init ra h sz; s \<leftarrow> sb_run ra ts s as; string_buffer_end ra s }"

text \<open>The arguments that the comments of the source allow, and the number of units that an operation adds at most.\<close>

fun op_valid :: "'v sb_op \<Rightarrow> bool" where
  "op_valid (Putc8 c) \<longleftrightarrow> c < 0x100"
| "op_valid (Putc16 c) \<longleftrightarrow> c < 0x10000"
| "op_valid (Putc c) \<longleftrightarrow> c \<le> 0x10ffff"
| "op_valid (Puts8 p) \<longleftrightarrow> 0 \<in> set p"
| "op_valid (Concat p from to) \<longleftrightarrow> to \<le> str_len p"
| "op_valid (Fill c n) \<longleftrightarrow> c < 0x10000"
| "op_valid _ \<longleftrightarrow> True"

fun op_size :: "nat \<Rightarrow> 'v sb_op \<Rightarrow> nat" where
  "op_size L (Putc8 c) = 1"
| "op_size L (Putc16 c) = 1"
| "op_size L (Putc c) = length (char_units c)"
| "op_size L (Write8 p) = length p"
| "op_size L (Write16 p) = length p"
| "op_size L (Puts8 p) = length (cstr p)"
| "op_size L (Concat p from to) = to - from"
| "op_size L (Concat_value v) = (case v of Inl p \<Rightarrow> str_len p | Inr x \<Rightarrow> L)"
| "op_size L (Fill c n) = n"
| "op_size L (Concat_value_free v) = (case v of Inl p \<Rightarrow> str_len p | Inr x \<Rightarrow> L)"

text \<open>The units that an operation stands for.\<close>

fun op_units :: "('h \<Rightarrow> 'v \<Rightarrow> 'h \<times> JSString option) \<Rightarrow> 'v sb_op \<Rightarrow> u16 list \<Rightarrow> bool" where
  "op_units ts (Putc8 c) ds \<longleftrightarrow> ds = [ucast c]"
| "op_units ts (Putc16 c) ds \<longleftrightarrow> ds = [ucast c]"
| "op_units ts (Putc c) ds \<longleftrightarrow> ds = char_units c"
| "op_units ts (Write8 p) ds \<longleftrightarrow> ds = map ucast p"
| "op_units ts (Write16 p) ds \<longleftrightarrow> ds = p"
| "op_units ts (Puts8 p) ds \<longleftrightarrow> ds = map ucast (cstr p)"
| "op_units ts (Concat p from to) ds \<longleftrightarrow> ds = take (to - from) (drop from (str_units p))"
| "op_units ts (Concat_value v) ds \<longleftrightarrow> value_units ts v ds"
| "op_units ts (Fill c n) ds \<longleftrightarrow> ds = replicate n (ucast c)"
| "op_units ts (Concat_value_free v) ds \<longleftrightarrow> value_units ts v ds"

context str_allocator
begin

text \<open>What a sequence of operations does: as \<open>appended\<close>, whatever the results were.\<close>

definition grown :: "'h StringBuffer \<Rightarrow> u16 list option \<Rightarrow> u16 list \<Rightarrow> 'h StringBuffer \<Rightarrow> u16 list option \<Rightarrow> bool" where
  "grown s X ds s' Y \<longleftrightarrow>
     sb_ok s' Y \<and>
     (case Y of
        None \<Rightarrow> True
      | Some vs \<Rightarrow> \<exists>us. X = Some us \<and> vs = us @ ds \<and> (sb_is_wide_char s' \<longleftrightarrow> sb_is_wide_char s \<or> (\<exists>d\<in>set ds. 0x100 \<le> d)))"

lemma appended_grown: "appended s X ds (r, s') Y \<Longrightarrow> grown s X ds s' Y"
  by (auto simp: appended_def grown_def split: option.splits)

lemma grown_refl: "sb_ok s X \<Longrightarrow> grown s X [] s X"
  by (auto simp: grown_def split: option.splits)

lemma grown_sb: "grown s X ds s' Y \<Longrightarrow> sb_ok s' Y"
  by (simp add: grown_def)

lemma grown_fits: "grown s X ds s' Y \<Longrightarrow> fits X (length ds + n) \<Longrightarrow> fits Y n"
  by (auto simp: grown_def fits_def split: option.splits)

lemma fits_mono: "fits X n \<Longrightarrow> m \<le> n \<Longrightarrow> fits X m"
  by (auto simp: fits_def split: option.splits)

lemma grown_trans: "grown s X ds s1 Y \<Longrightarrow> grown s1 Y es s2 Z \<Longrightarrow> grown s X (ds @ es) s2 Z"
  by (auto simp: grown_def split: option.splits)

lemma step_ok:
  assumes s: "sb_ok s X" and v: "op_valid a" and l: "fits X (op_size L a)" "op_size L a < 2 ^ 31"
    and ts: "conversion pending ts L"
  shows "\<exists>r s' Y ds. sb_step ra ts s a = Some (r, s') \<and> length ds \<le> op_size L a \<and> (Y \<noteq> None \<longrightarrow> op_units ts a ds) \<and>
     grown s X ds s' Y"
proof (cases "\<exists>v. a = Concat_value v \<or> a = Concat_value_free v")
  case True
  then obtain v where a: "a = Concat_value v \<or> a = Concat_value_free v" by blast
  let ?L = "op_size L a"
  have "\<exists>rs Y ds. string_buffer_concat_value ra ts s v = Some rs \<and> length ds \<le> ?L \<and>
      (X \<noteq> None \<longrightarrow> Y \<noteq> None \<longrightarrow> value_units ts v ds) \<and> appended s X ds rs Y"
    by (rule concat_value_ok [OF s l _ _ ts]) (use a in auto)
  then obtain rs Y ds where c: "string_buffer_concat_value ra ts s v = Some rs" "length ds \<le> ?L"
      "X \<noteq> None \<longrightarrow> Y \<noteq> None \<longrightarrow> value_units ts v ds" "appended s X ds rs Y" by blast
  obtain r s' where rs: "rs = (r, s')" by fastforce
  have "Y \<noteq> None \<longrightarrow> X \<noteq> None" using c(4) by (auto simp: appended_def)
  then have "Y \<noteq> None \<longrightarrow> op_units ts a ds" using c(3) a by auto
  moreover have "sb_step ra ts s a = Some rs" using c(1) a by (auto simp: concat_value_free_eq)
  ultimately show ?thesis using c(2) appended_grown [OF c(4) [unfolded rs]] rs by blast
next
  case False
  have "\<exists>rs Y ds. sb_step ra ts s a = Some rs \<and> length ds \<le> op_size L a \<and> op_units ts a ds \<and> appended s X ds rs Y"
    using v l s False
    by (cases a) (use putc8_ok [OF s] putc16_ok [OF s] putc_ok [OF s] write8_ok [OF s] write16_ok [OF s] puts8_ok [OF s] concat_ok [OF s] fill_ok [OF s] in \<open>simp_all, (fastforce)?\<close>)
  then show ?thesis using appended_grown by (metis surj_pair)
qed

lemma run_ok:
  assumes "sb_ok s X" and "\<forall>a\<in>set as. op_valid a" and "fits X (sum_list (map (op_size L) as))" and "sum_list (map (op_size L) as) < 2 ^ 31"
    and ts: "conversion pending ts L"
  shows "\<exists>s' Y dss. sb_run ra ts s as = Some s' \<and> (Y \<noteq> None \<longrightarrow> list_all2 (op_units ts) as dss) \<and> grown s X (concat dss) s' Y"
  using assms(1-4)
proof (induction as arbitrary: s X)
  case Nil
  then show ?case using grown_refl by (intro exI [of _ s] exI [of _ X] exI [of _ "[]"]) simp
next
  case (Cons a as)
  have l: "fits X (op_size L a)" "op_size L a < 2 ^ 31" using Cons.prems(3,4) by (auto simp: fits_def split: option.splits)
  obtain r s1 Y ds where 1: "sb_step ra ts s a = Some (r, s1)" "length ds \<le> op_size L a" "Y \<noteq> None \<longrightarrow> op_units ts a ds"
      "grown s X ds s1 Y"
    using step_ok [OF Cons.prems(1) _ l ts] Cons.prems(2) by fastforce
  have "fits X (length ds + sum_list (map (op_size L) as))" using fits_mono [OF Cons.prems(3)] 1(2) by simp
  then have f: "fits Y (sum_list (map (op_size L) as))" by (rule grown_fits [OF 1(4)])
  have v: "\<forall>a\<in>set as. op_valid a" "sum_list (map (op_size L) as) < 2 ^ 31" using Cons.prems(2,4) by simp_all
  obtain s' Z dss where 2: "sb_run ra ts s1 as = Some s'" "Z \<noteq> None \<longrightarrow> list_all2 (op_units ts) as dss"
      "grown s1 Y (concat dss) s' Z" using Cons.IH [OF grown_sb [OF 1(4)] v(1) f v(2)] by blast
  have "Z \<noteq> None \<longrightarrow> Y \<noteq> None" using 2(3) by (auto simp: grown_def)
  then show ?case using 1 2 grown_trans [OF 1(4) 2(3)] by (intro exI [of _ s'] exI [of _ Z] exI [of _ "ds # dss"]) auto
qed

lemma build_ok:
  assumes v: "\<forall>a\<in>set as. op_valid a" and n: "sum_list (map (op_size L) as) \<le> 2 ^ 28" "sz \<le> 2 ^ 28" and h: "\<not> pending h"
    and ts: "conversion pending ts L"
  shows "\<exists>h' r. sb_build ra ts h sz as = Some (h', r) \<and>
     (case r of
        None \<Rightarrow> pending h'
      | Some p \<Rightarrow> \<not> pending h' \<and> canonical p \<and> (\<exists>dss. list_all2 (op_units ts) as dss \<and> str_units p = concat dss))"
proof -
  obtain r s where i: "string_buffer_init ra h sz = Some (r, s)" "\<not> sb_is_wide_char s" "sb_ok s (Some []) \<or> sb_ok s None"
    using init_ok [OF n(2) h, of False] by (auto simp: string_buffer_init_def)
  obtain X where X: "sb_ok s X" "X = Some [] \<or> X = None" using i(3) by blast
  have f: "fits X (sum_list (map (op_size L) as))" "sum_list (map (op_size L) as) < 2 ^ 31" using X(2) n(1) by (auto simp: fits_def)
  obtain s' Y dss where 1: "sb_run ra ts s as = Some s'" "Y \<noteq> None \<longrightarrow> list_all2 (op_units ts) as dss"
      "grown s X (concat dss) s' Y"
    using run_ok [OF X(1) v f ts] by blast
  show ?thesis
  proof (cases Y)
    case None
    then have "string_buffer_end ra s' = Some (sb_ctx s', None)" "pending (sb_ctx s')"
      using end_error [of s'] 1(3) by (auto simp: grown_def sb_ok_def)
    then show ?thesis using i(1) 1(1) by (simp add: sb_build_def)
  next
    case (Some vs)
    then have s': "sb_ok s' (Some vs)" "vs = concat dss" "sb_is_wide_char s' \<longleftrightarrow> (\<exists>d\<in>set vs. 0x100 \<le> d)"
      using 1(3) X(2) i(2) by (auto simp: grown_def simp del: set_concat)
    obtain h' p where p: "string_buffer_end ra s' = Some (h', Some p)" "str_units p = vs \<and> \<not> pending h'" "is_wide p \<longleftrightarrow> vs \<noteq> [] \<and> sb_is_wide_char s'"
      using end_ok [OF s'(1)] by blast
    have "canonical p" unfolding canonical_def p(2) [THEN conjunct1] p(3) s'(3) by fastforce
    then show ?thesis using i(1) 1 p s'(2) Some by (auto simp: sb_build_def)
  qed
qed

end



end
