(* ===== verification/Utf8.thy ===== *)
theory Utf8
  imports Cutils
begin

text \<open>
  UTF-8 encoding and decoding of \<open>cutils.c\<close>, for code points of up to 31 bits.
\<close>

subsection \<open>Encoding\<close>

text \<open>
  \<open>unicode_to_utf8\<close> gives the bytes stored through \<open>q\<close> in order; their number is the
  return value. A code point above 31 bits returns 0 before anything is stored.
\<close>

definition utf8_cont :: "u32 \<Rightarrow> nat \<Rightarrow> u8" where
  "utf8_cont c s = ucast ((drop_bit s c AND 0x3f) OR 0x80)"

definition unicode_to_utf8 :: "u32 \<Rightarrow> u8 list" where
  "unicode_to_utf8 c =
     (if c < 0x80 then [ucast c]
      else if c < 0x800 then
        [ucast (drop_bit 6 c OR 0xc0), utf8_cont c 0]
      else if c < 0x10000 then
        [ucast (drop_bit 12 c OR 0xe0), utf8_cont c 6, utf8_cont c 0]
      else if c < 0x00200000 then
        [ucast (drop_bit 18 c OR 0xf0), utf8_cont c 12, utf8_cont c 6, utf8_cont c 0]
      else if c < 0x04000000 then
        [ucast (drop_bit 24 c OR 0xf8), utf8_cont c 18, utf8_cont c 12, utf8_cont c 6, utf8_cont c 0]
      else if c < 0x80000000 then
        [ucast (drop_bit 30 c OR 0xfc), utf8_cont c 24, utf8_cont c 18, utf8_cont c 12,
         utf8_cont c 6, utf8_cont c 0]
      else [])"

subsection \<open>Decoding\<close>

definition utf8_min_code :: "u32 list" where
  "utf8_min_code = [0x80, 0x800, 0x10000, 0x00200000, 0x04000000]"

definition utf8_first_code_mask :: "u32 list" where
  "utf8_first_code_mask = [0x1f, 0xf, 0x7, 0x3, 0x1]"

text \<open>The number of continuation bytes that the \<open>switch\<close> gives for a first byte.\<close>

definition utf8_trail :: "u8 \<Rightarrow> nat option" where
  "utf8_trail c =
     (if 0xc0 \<le> c \<and> c \<le> 0xdf then Some 1
      else if 0xe0 \<le> c \<and> c \<le> 0xef then Some 2
      else if 0xf0 \<le> c \<and> c \<le> 0xf7 then Some 3
      else if 0xf8 \<le> c \<and> c \<le> 0xfb then Some 4
      else if 0xfc \<le> c \<and> c \<le> 0xfd then Some 5
      else None)"

text \<open>
  Results: \<open>None\<close> is a read outside the object, \<open>Some None\<close> the error return -1 and
  \<open>Some (Some (c, n))\<close> the code point with \<open>*pp\<close> set \<open>n\<close> bytes further.
\<close>

fun from_utf8_loop :: "nat \<Rightarrow> u8 list \<Rightarrow> u32 \<Rightarrow> u32 option option" where
  "from_utf8_loop 0 p c = Some (Some c)"
| "from_utf8_loop (Suc l) [] c = None"
| "from_utf8_loop (Suc l) (b # p) c =
     (if b < 0x80 \<or> b \<ge> 0xc0 then Some None
      else from_utf8_loop l p (push_bit 6 c OR (ucast b AND 0x3f)))"

definition unicode_from_utf8 :: "u8 list \<Rightarrow> int \<Rightarrow> (u32 \<times> nat) option option" where
  "unicode_from_utf8 p max_len =
     (case p of
        [] \<Rightarrow> None
      | c # p \<Rightarrow>
          if c < 0x80 then Some (Some (ucast c, 1))
          else (case utf8_trail c of
              None \<Rightarrow> Some None
            | Some l \<Rightarrow>
                if int l > max_len - 1 then Some None
                else do {
                  r \<leftarrow> from_utf8_loop l p (ucast c AND utf8_first_code_mask ! (l - 1));
                  case r of
                    None \<Rightarrow> Some None
                  | Some c \<Rightarrow>
                      if c < utf8_min_code ! (l - 1) then Some None else Some (Some (c, Suc l))
                }))"

subsection \<open>Bits of the encoding\<close>

fun cont_bytes :: "nat \<Rightarrow> u32 \<Rightarrow> u8 list" where
  "cont_bytes 0 c = []"
| "cont_bytes (Suc k) c = utf8_cont c (6 * k) # cont_bytes k c"

lemma length_cont_bytes [simp]: "length (cont_bytes k c) = k"
  by (induction k) auto

lemma mask63: "(0x3f :: 'a::len word) = mask 6"
  by (simp add: mask_eq_exp_minus_1)

lemma lt_bits:
  assumes "unat (c :: 'a::len word) < 2 ^ k" and "bit c n"
  shows "n < k"
proof -
  have "bit (unat c) n" using assms(2) by (simp add: bit_simps)
  moreover have "take_bit k (unat c) = unat c" using assms(1) by (simp add: take_bit_nat_eq_self)
  ultimately show ?thesis by (metis bit_take_bit_iff)
qed

lemma cont_range: "128 \<le> utf8_cont c s \<and> utf8_cont c s < 192"
proof -
  have "drop_bit 6 (utf8_cont c s) = 2"
  proof (rule bit_word_eqI)
    fix n assume "n < LENGTH(8)"
    then have "n < 8" by simp
    then show "bit (drop_bit 6 (utf8_cont c s)) n \<longleftrightarrow> bit (2 :: u8) n"
      unfolding utf8_cont_def less_numeral_cases(3)
      by (elim disjE) (simp_all add: mask63 bit_simps)
  qed
  then have "drop_bit 6 (unat (utf8_cont c s)) = unat (2 :: u8)"
    by (simp only: unat_drop_bit_eq [symmetric])
  then have "unat (utf8_cont c s) div 64 = 2" by (simp add: drop_bit_eq_div)
  then have "128 \<le> unat (utf8_cont c s) \<and> unat (utf8_cont c s) < 192" by arith
  then show ?thesis by (simp add: word_le_nat_alt word_less_nat_alt)
qed

lemma cont_payload: "(ucast (utf8_cont c s) :: u32) AND 0x3f = take_bit 6 (drop_bit s c)"
proof (rule bit_word_eqI)
  fix n assume "n < LENGTH(32)"
  show "bit ((ucast (utf8_cont c s) :: u32) AND 0x3f) n \<longleftrightarrow> bit (take_bit 6 (drop_bit s c)) n"
  proof (cases "n < 6")
    case True
    then have "n < 8" by simp
    then show ?thesis using True unfolding utf8_cont_def mask63 less_numeral_cases(3)
      by (elim disjE) (simp_all add: bit_simps)
  qed (simp add: mask63 bit_simps)
qed

lemma push_take_bits: "push_bit 6 (drop_bit (6 + s) c) OR take_bit 6 (drop_bit s c) = drop_bit s (c :: u32)"
  by (rule bit_word_eqI) (auto simp: bit_simps)

lemma loop_cont_bytes:
  "from_utf8_loop k (cont_bytes k c @ r) (drop_bit (6 * k) c) = Some (Some c)"
proof (induction k)
  case 0
  then show ?case by simp
next
  case (Suc k)
  have "\<not> (utf8_cont c (6 * k) < 0x80 \<or> utf8_cont c (6 * k) \<ge> 0xc0)"
    using cont_range [of c "6 * k"] by (simp add: not_less not_le)
  then show ?case using Suc.IH push_take_bits [of "6 * k" c]
    by (simp add: cont_payload)
qed


text \<open>A first byte: \<open>m\<close> payload bits below the marker \<open>h\<close>.\<close>

lemma head_payload:
  assumes "unat c < 2 ^ (s + m)" and "m \<le> 6" and "take_bit m (h :: u32) = 0"
  shows "(ucast (ucast (drop_bit s c OR h) :: u8) :: u32) AND mask m = drop_bit s (c :: u32)"
proof (rule bit_word_eqI)
  fix n assume "n < LENGTH(32)"
  then have n: "n < 32" by simp
  have h: "n < m \<Longrightarrow> \<not> bit h n"
    using assms(3) by (metis bit_0_eq bit_take_bit_iff bot_apply bot_bool_def)
  have c: "bit c (s + n) \<Longrightarrow> n < m" using lt_bits [OF assms(1)] by fastforce
  show "bit ((ucast (ucast (drop_bit s c OR h) :: u8) :: u32) AND mask m) n \<longleftrightarrow> bit (drop_bit s c) n"
    using n h c assms(2) by (auto simp: bit_simps)
qed

lemma head_drop:
  assumes "unat c < 2 ^ (s + m)" and "m \<le> 6"
    and "drop_bit m (take_bit 8 h) = (hm :: u32)"
  shows "drop_bit m (ucast (drop_bit s (c :: u32) OR h) :: u8) = ucast hm"
proof (rule bit_word_eqI)
  fix n assume "n < LENGTH(8)"
  then have n: "n < 8" by simp
  have c: "\<not> bit c (s + (m + n))" using lt_bits [OF assms(1)] by fastforce
  show "bit (drop_bit m (ucast (drop_bit s c OR h) :: u8)) n \<longleftrightarrow> bit (ucast hm :: u8) n"
    unfolding assms(3) [symmetric] using n c by (auto simp: bit_simps)
qed

lemma drop_range:
  "drop_bit m (b :: u8) = v \<longleftrightarrow> unat b div 2 ^ m = unat v"
  by (metis unat_drop_bit_eq drop_bit_eq_div word_unat_eq_iff)

lemma decode_enc:
  assumes k: "1 \<le> k" "k \<le> 5" and rng: "unat c < 2 ^ (6 * k + m)" and m: "m \<le> 6"
    and h: "take_bit m h = 0" and t: "utf8_trail (ucast (drop_bit (6 * k) c OR h)) = Some k"
    and mk: "utf8_first_code_mask ! (k - 1) = mask m" and mn: "\<not> c < utf8_min_code ! (k - 1)"
    and ml: "int (Suc k) \<le> max_len"
  shows "unicode_from_utf8 ((ucast (drop_bit (6 * k) c OR h) # cont_bytes k c) @ r) max_len
           = Some (Some (c, Suc k))"
proof -
  let ?b = "ucast (drop_bit (6 * k) c OR h) :: u8"
  have "\<not> ?b < 0x80" using t by (auto simp: utf8_trail_def word_less_nat_alt word_le_nat_alt split: if_splits)
  moreover have "ucast ?b AND mask m = drop_bit (6 * k) c" using head_payload [OF rng m h] .
  ultimately show ?thesis
    using t mk mn ml k loop_cont_bytes [of k c r] by (simp add: unicode_from_utf8_def)
qed


text \<open>The five multi-byte forms: length, payload bits of the first byte, its marker.\<close>

definition utf8_form :: "nat \<Rightarrow> nat \<Rightarrow> u32 \<Rightarrow> bool" where
  "utf8_form k m h \<longleftrightarrow>
     (k, m, h) \<in> {(1, 5, 0xc0), (2, 4, 0xe0), (3, 3, 0xf0), (4, 2, 0xf8), (5, 1, 0xfc)}"

lemma utf8_form_facts:
  assumes "utf8_form k m h"
  shows "1 \<le> k" "k \<le> 5" "m \<le> 6" "6 * k + m \<le> 31" "take_bit m h = 0"
    "utf8_first_code_mask ! (k - 1) = mask m"
  using assms unfolding utf8_form_def
  by (auto simp: utf8_first_code_mask_def mask_eq_exp_minus_1)

lemma cont_bytes_numeral:
  "cont_bytes 1 c = [utf8_cont c 0]"
  "cont_bytes 2 c = [utf8_cont c 6, utf8_cont c 0]"
  "cont_bytes 3 c = [utf8_cont c 12, utf8_cont c 6, utf8_cont c 0]"
  "cont_bytes 4 c = [utf8_cont c 18, utf8_cont c 12, utf8_cont c 6, utf8_cont c 0]"
  "cont_bytes 5 c = [utf8_cont c 24, utf8_cont c 18, utf8_cont c 12, utf8_cont c 6, utf8_cont c 0]"
proof -
  show c1: "cont_bytes 1 c = [utf8_cont c 0]" by simp
  show c2: "cont_bytes 2 c = [utf8_cont c 6, utf8_cont c 0]"
    using cont_bytes.simps(2) [of 1 c] c1 by (simp del: cont_bytes.simps add: numeral_2_eq_2)
  show c3: "cont_bytes 3 c = [utf8_cont c 12, utf8_cont c 6, utf8_cont c 0]"
    using cont_bytes.simps(2) [of 2 c] c2 by simp
  show c4: "cont_bytes 4 c = [utf8_cont c 18, utf8_cont c 12, utf8_cont c 6, utf8_cont c 0]"
    using cont_bytes.simps(2) [of 3 c] c3 by simp
  show "cont_bytes 5 c = [utf8_cont c 24, utf8_cont c 18, utf8_cont c 12, utf8_cont c 6, utf8_cont c 0]"
    using cont_bytes.simps(2) [of 4 c] c4 by simp
qed

lemma utf8_trail_div:
  "utf8_trail b =
     (let n = unat b in
      if n div 32 = 6 then Some 1 else if n div 16 = 14 then Some 2
      else if n div 8 = 30 then Some 3 else if n div 4 = 62 then Some 4
      else if n div 2 = 126 then Some 5 else None)"
proof -
  have d: "192 \<le> n \<and> n \<le> 223 \<longleftrightarrow> n div 32 = 6" "224 \<le> n \<and> n \<le> 239 \<longleftrightarrow> n div 16 = 14"
    "240 \<le> n \<and> n \<le> 247 \<longleftrightarrow> n div 8 = 30" "248 \<le> n \<and> n \<le> 251 \<longleftrightarrow> n div 4 = 62"
    "252 \<le> n \<and> n \<le> 253 \<longleftrightarrow> n div 2 = 126" for n :: nat
    by arith+
  show ?thesis unfolding utf8_trail_def word_le_nat_alt Let_def by (simp add: d)
qed

definition form_head :: "nat \<Rightarrow> u32 \<Rightarrow> u8" where
  "form_head m h = ucast (drop_bit m (take_bit 8 h))"

lemma form_head_simps:
  "form_head 5 0xc0 = 6" "form_head 4 0xe0 = 14" "form_head 3 0xf0 = 30"
  "form_head 2 0xf8 = 62" "form_head 1 0xfc = 126"
  by (simp_all add: form_head_def)

lemma utf8_trail_form:
  assumes "utf8_form k m h" and "drop_bit m b = form_head m h"
  shows "utf8_trail b = Some k"
proof -
  have "unat b div 2 ^ m = unat (form_head m h)" using assms(2) by (simp only: drop_range)
  with assms(1) show ?thesis
    unfolding utf8_form_def utf8_trail_div Let_def insert_iff empty_iff prod.inject
    by (elim disjE conjE) (simp_all only: form_head_simps, simp_all, arith+)
qed

lemma utf8_trail_inv:
  assumes "utf8_trail b = Some k"
  obtains m h where "utf8_form k m h" "drop_bit m b = form_head m h"
proof -
  consider "unat b div 2 ^ 5 = 6" "k = 1" | "unat b div 2 ^ 4 = 14" "k = 2"
    | "unat b div 2 ^ 3 = 30" "k = 3" | "unat b div 2 ^ 2 = 62" "k = 4" | "unat b div 2 ^ 1 = 126" "k = 5"
    using assms unfolding utf8_trail_div Let_def by (auto split: if_splits)
  then show thesis
    using that [of 5 "0xc0"] that [of 4 "0xe0"] that [of 3 "0xf0"] that [of 2 "0xf8"] that [of 1 "0xfc"]
    unfolding form_head_simps drop_range by cases (simp_all add: utf8_form_def)
qed

lemma trail_head:
  assumes "utf8_form k m h" and "unat c < 2 ^ (6 * k + m)"
  shows "utf8_trail (ucast (drop_bit (6 * k) c OR h)) = Some k"
  using utf8_trail_form [OF assms(1)] head_drop [OF assms(2) utf8_form_facts(3) [OF assms(1)] refl, of h]
  by (simp only: form_head_def)

lemma encode_form:
  assumes "0x80 \<le> c" and "c < 0x80000000"
  obtains k m h where "utf8_form k m h" "unat c < 2 ^ (6 * k + m)" "\<not> c < utf8_min_code ! (k - 1)"
    "unicode_to_utf8 c = ucast (drop_bit (6 * k) c OR h) # cont_bytes k c"
proof -
  consider "c < 0x800" | "\<not> c < 0x800" "c < 0x10000" | "\<not> c < 0x10000" "c < 0x200000"
    | "\<not> c < 0x200000" "c < 0x4000000" | "\<not> c < 0x4000000"
    by blast
  then show thesis
    using assms that [of 1 5 "0xc0"] that [of 2 4 "0xe0"] that [of 3 3 "0xf0"]
      that [of 4 2 "0xf8"] that [of 5 1 "0xfc"]
    by cases
      (simp_all add: utf8_form_def utf8_min_code_def unicode_to_utf8_def cont_bytes_numeral
        word_less_nat_alt word_le_nat_alt)
qed

lemma decode_encode:
  assumes "c < 0x80000000" and ml: "int (length (unicode_to_utf8 c)) \<le> max_len"
  shows "unicode_from_utf8 (unicode_to_utf8 c @ r) max_len = Some (Some (c, length (unicode_to_utf8 c)))"
proof (cases "c < 0x80")
  case True
  then have "unat c < 128" by (simp add: word_less_nat_alt)
  then have "unat (ucast c :: u8) = unat c" by (simp add: unsigned_ucast_eq take_bit_nat_eq_self)
  moreover from this have "ucast (ucast c :: u8) = c"
    using \<open>unat c < 128\<close>
    by (intro bit_word_eqI) (auto simp: bit_simps dest: lt_bits [of c 7, simplified])
  ultimately show ?thesis using True by (simp add: unicode_to_utf8_def unicode_from_utf8_def word_less_nat_alt)
next
  case False
  then have "0x80 \<le> c" by simp
  from encode_form [OF this assms(1)] obtain k m h where f: "utf8_form k m h" "unat c < 2 ^ (6 * k + m)"
    "\<not> c < utf8_min_code ! (k - 1)" "unicode_to_utf8 c = ucast (drop_bit (6 * k) c OR h) # cont_bytes k c"
    by blast
  have "int (Suc k) \<le> max_len" using ml f(4) by simp
  from decode_enc [OF utf8_form_facts(1,2) [OF f(1)] f(2) utf8_form_facts(3,5) [OF f(1)]
        trail_head [OF f(1,2)] utf8_form_facts(6) [OF f(1)] f(3) this]
  show ?thesis using f(4)
    by simp
qed


subsection \<open>Everything that decodes is an encoding\<close>

lemma cont_byte_inv:
  assumes "\<not> b < 0x80" and "\<not> b \<ge> 0xc0" and "ucast (b :: u8) AND 0x3f = take_bit 6 (drop_bit s c)"
  shows "b = utf8_cont c s"
proof (rule bit_word_eqI)
  fix n assume "n < LENGTH(8)"
  then have n: "n < 8" by simp
  have "unat b div 64 = 2" using assms(1,2) by (simp add: word_less_nat_alt word_le_nat_alt)
  then have "drop_bit 6 b = 2" using drop_range [of 6 b 2] by simp
  then have "bit (drop_bit 6 b) 0 \<longleftrightarrow> bit (2 :: u8) 0" "bit (drop_bit 6 b) 1 \<longleftrightarrow> bit (2 :: u8) 1"
    by simp_all
  then have hi: "bit b 6 \<longleftrightarrow> False" "bit b 7 \<longleftrightarrow> True"
    by (simp_all add: bit_drop_bit_eq comp_def del: drop_bit_eq_div)
  have lo: "m < 6 \<Longrightarrow> bit b m \<longleftrightarrow> bit (drop_bit s c) m" for m
    using arg_cong [OF assms(3), of "\<lambda>w. bit w m"] by (simp add: mask63 bit_simps)
  show "bit b n \<longleftrightarrow> bit (utf8_cont c s) n"
    using n hi lo [of n] unfolding utf8_cont_def less_numeral_cases(3)
    by (elim disjE) (simp_all add: mask63 bit_simps)
qed

lemma loop_inv:
  "from_utf8_loop k p a = Some (Some c) \<Longrightarrow> \<forall>m. bit a m \<longrightarrow> m + 6 * k < 31 \<Longrightarrow> k \<le> 5 \<Longrightarrow>
   drop_bit (6 * k) c = a \<and> take k p = cont_bytes k c \<and> k \<le> length p"
proof (induction k p a rule: from_utf8_loop.induct)
  case (3 l b p a)
  let ?a = "push_bit 6 a OR (ucast b AND 0x3f) :: u32"
  have step: "from_utf8_loop l p ?a = Some (Some c)" and b: "\<not> b < 0x80" "\<not> b \<ge> 0xc0"
    using "3.prems"(1) by (auto split: if_splits)
  have bits: "bit ?a n \<longleftrightarrow> 6 \<le> n \<and> n < 32 \<and> bit a (n - 6) \<or> n < 6 \<and> bit b n" for n
    unfolding mask63 by (auto simp: bit_simps)
  have lt: "bit a m \<Longrightarrow> m + 6 * Suc l < 31" for m using "3.prems"(2) by blast
  have "n + 6 * l < 31" if "bit ?a n" for n
    using that unfolding bits using lt [of "n - 6"] "3.prems"(3) by auto
  with "3.IH" step b "3.prems"(3)
  have IH: "drop_bit (6 * l) c = ?a" "take l p = cont_bytes l c" "l \<le> length p"
    by auto
  have "bit (drop_bit 6 ?a) n \<longleftrightarrow> bit a n" for n
    unfolding bit_drop_bit_eq comp_def bits using lt [of n] by auto
  then have d6: "drop_bit 6 ?a = a" by (intro bit_word_eqI)
  have "bit (take_bit 6 ?a) n \<longleftrightarrow> bit (ucast b AND 0x3f :: u32) n" for n
    unfolding bit_take_bit_iff bits mask63 by (auto simp: bit_simps)
  then have t6: "take_bit 6 ?a = ucast b AND 0x3f" by (intro bit_word_eqI)
  have "b = utf8_cont c (6 * l)" using cont_byte_inv [OF b] t6 IH(1) by simp
  moreover have "drop_bit (6 * Suc l) c = a"
    using IH(1) d6 by (metis drop_bit_drop_bit mult_Suc_right)
  ultimately show ?case using IH by simp
qed auto

lemma head_byte_inv:
  assumes "utf8_form k m h" and "drop_bit m b = form_head m h"
  shows "b = ucast ((ucast b AND mask m :: u32) OR h)"
proof (rule bit_word_eqI)
  fix n assume "n < LENGTH(8)"
  then have n: "n < 8" by simp
  have h: "\<not> bit h n" if "n < m"
    using utf8_form_facts(5) [OF assms(1)] that by (metis bit_0_eq bit_take_bit_iff bot_apply bot_bool_def)
  have b: "bit b n \<longleftrightarrow> bit h n" if "m \<le> n"
  proof -
    have "bit (drop_bit m b) (n - m) \<longleftrightarrow> bit (form_head m h) (n - m)" by (simp only: assms(2))
    moreover have "n - m < 8" using n by simp
    ultimately show ?thesis using that n
      by (simp add: form_head_def bit_simps del: drop_bit_eq_div)
  qed
  show "bit b n \<longleftrightarrow> bit (ucast ((ucast b AND mask m :: u32) OR h) :: u8) n"
    using n h b utf8_form_facts(3) [OF assms(1)]
    by (cases "n < m") (auto simp: bit_simps)
qed

lemma unat_lt_bits:
  assumes "\<forall>n. bit (c :: u32) n \<longrightarrow> n < k"
  shows "unat c < 2 ^ k"
proof -
  have "take_bit k c = c" using assms by (intro bit_word_eqI) (auto simp: bit_simps)
  then have "take_bit k (unat c) = unat c" by (metis unsigned_take_bit_eq)
  then show ?thesis by (metis take_bit_nat_less_exp)
qed

lemma encode_shape:
  assumes "utf8_form k m h" and "unat c < 2 ^ (6 * k + m)" and "\<not> c < utf8_min_code ! (k - 1)"
  shows "unicode_to_utf8 c = ucast (drop_bit (6 * k) c OR h) # cont_bytes k c" "c < 0x80000000"
  using assms unfolding utf8_form_def insert_iff empty_iff prod.inject
  by (elim disjE conjE; simp add: utf8_min_code_def unicode_to_utf8_def cont_bytes_numeral
        word_less_nat_alt word_le_nat_alt)+

lemma encode_decode_multi:
  assumes b: "\<not> b < 0x80" and dec: "unicode_from_utf8 (b # q) max_len = Some (Some (c, n))"
  shows "c < 0x80000000 \<and> n = length (unicode_to_utf8 c) \<and> take n (b # q) = unicode_to_utf8 c"
proof -
  obtain k where k: "utf8_trail b = Some k"
    using b dec by (auto simp: unicode_from_utf8_def split: option.splits)
  then obtain m h where f: "utf8_form k m h" "drop_bit m b = form_head m h"
    by (rule utf8_trail_inv)
  note ff = utf8_form_facts [OF f(1)]
  let ?a = "ucast b AND mask m :: u32"
  have l: "from_utf8_loop k q ?a = Some (Some c)" "\<not> c < utf8_min_code ! (k - 1)" "n = Suc k"
    using b dec k ff(6)
    by (auto simp: unicode_from_utf8_def split: option.splits if_splits bind_splits)
  have abits: "bit ?a i \<Longrightarrow> i < m" for i by (simp add: bit_simps)
  have inv: "drop_bit (6 * k) c = ?a" "take k q = cont_bytes k c" "k \<le> length q"
    using loop_inv [OF l(1)] ff(2,4) abits by fastforce+
  have "i < 6 * k + m" if "bit c i" for i
  proof (cases "i < 6 * k")
    case False
    then have "bit (drop_bit (6 * k) c) (i - 6 * k)" using that by (simp add: bit_drop_bit_eq)
    with inv(1) have "bit ?a (i - 6 * k)" by simp
    then show ?thesis using abits [of "i - 6 * k"] by simp
  qed simp
  then have "unat c < 2 ^ (6 * k + m)" by (intro unat_lt_bits) blast
  note shape = encode_shape [OF f(1) this l(2)]
  have "b = ucast (drop_bit (6 * k) c OR h)" using head_byte_inv [OF f] inv(1) by simp
  with shape l(3) inv(2,3) show ?thesis by simp
qed

lemma encode_decode:
  assumes "unicode_from_utf8 p max_len = Some (Some (c, n))"
  shows "c < 0x80000000 \<and> n = length (unicode_to_utf8 c) \<and> take n p = unicode_to_utf8 c"
proof (cases p)
  case Nil
  then show ?thesis using assms by (simp add: unicode_from_utf8_def)
next
  case (Cons b q)
  show ?thesis
  proof (cases "b < 0x80")
    case True
    then have cn: "c = ucast b" "n = 1" using assms Cons by (simp_all add: unicode_from_utf8_def)
    have "unat (ucast b :: u32) = unat b" by (simp add: unsigned_ucast_eq take_bit_nat_eq_self unsigned_less [THEN order.strict_trans2])
    moreover have "ucast (ucast b :: u32) = b" by (rule bit_word_eqI) (simp add: bit_simps)
    ultimately show ?thesis using True cn Cons
      by (simp add: unicode_to_utf8_def word_less_nat_alt)
  next
    case False
    with assms Cons show ?thesis using encode_decode_multi by blast
  qed
qed

text \<open>
  Claim C24. UTF-8 round trip: for every code point of at most 31 bits, decoding its encoding
  followed by any bytes, with a limit that is at least the length of the encoding, gives the code
  point back, consumes exactly the encoding and reads nothing outside it.
\<close>

theorem utf8_decode_encode:
  assumes "c < 0x80000000" and "int (length (unicode_to_utf8 c)) \<le> max_len"
  shows "unicode_from_utf8 (unicode_to_utf8 c @ rest) max_len =
           Some (Some (c, length (unicode_to_utf8 c)))"
  using assms by (rule decode_encode)

theorem utf8_decode_encode_witness:
  "(0x20ac :: u32) < 0x80000000 \<and> unicode_to_utf8 0x20ac = [0xe2, 0x82, 0xac] \<and>
   unicode_from_utf8 (unicode_to_utf8 0x20ac @ [65]) 3 =
     Some (Some (0x20ac, length (unicode_to_utf8 0x20ac)))"
  using utf8_decode_encode [of "0x20ac" 3 "[65]"]
  by (simp add: unicode_to_utf8_def utf8_cont_def)

text \<open>
  Claim C25. The decoder accepts nothing but encodings: whatever it accepts is the (unique,
  shortest) encoding of the code point it returns, so overlong forms are rejected.
\<close>

theorem utf8_encode_decode:
  assumes "unicode_from_utf8 p max_len = Some (Some (c, n))"
  shows "c < 0x80000000 \<and> n = length (unicode_to_utf8 c) \<and> take n p = unicode_to_utf8 c"
  using assms by (rule encode_decode)

theorem utf8_encode_decode_witness:
  "unicode_from_utf8 [0xc3, 0xa9, 0x21] 6 = Some (Some (0xe9, 2)) \<and>
   take 2 [0xc3, 0xa9, 0x21] = unicode_to_utf8 0xe9"
proof -
  have d: "unicode_from_utf8 [0xc3, 0xa9, 0x21] 6 = Some (Some (0xe9, 2))"
    by (simp add: unicode_from_utf8_def utf8_trail_def utf8_first_code_mask_def utf8_min_code_def)
  show ?thesis using d utf8_encode_decode [OF d] by simp
qed

end
