(* ===== verification/String_Convert.thy ===== *)
theory String_Convert
  imports String_Buffer Utf8
begin

text \<open>
  The conversions between strings and UTF-8 of \<open>quickjs.c\<close>: \<open>JS_NewStringLen\<close> and
  \<open>JS_ToCStringLen2\<close>, through which the host gives strings to the engine and gets them back.
\<close>

subsection \<open>From bytes to strings\<close>

fun ascii_loop :: "u8 list \<Rightarrow> nat \<Rightarrow> nat \<Rightarrow> nat option" where
  "ascii_loop buf p 0 = Some p"
| "ascii_loop buf p (Suc n) = do { c \<leftarrow> rd buf p; if c < 128 then ascii_loop buf (p + 1) n else Some p }"

fun skip_cont :: "u8 list \<Rightarrow> nat \<Rightarrow> nat \<Rightarrow> nat option" where
  "skip_cont buf p 0 = Some p"
| "skip_cont buf p (Suc n) = do { c \<leftarrow> rd buf p; if c \<ge> 0x80 \<and> c < 0xc0 then skip_cont buf (p + 1) n else Some p }"

text \<open>The bytes of an invalid sequence.\<close>

definition skip_invalid :: "u8 list \<Rightarrow> nat \<Rightarrow> nat \<Rightarrow> nat option" where
  "skip_invalid buf p p_end =
     do {
       p \<leftarrow> skip_cont buf p (p_end - p);
       if p < p_end then skip_cont buf (p + 1) (p_end - (p + 1)) else Some p
     }"

text \<open>The results of the stores are ignored: the buffer remembers an error.\<close>

partial_function (option) new_string_loop :: "'h str_runtime \<Rightarrow> 'h StringBuffer \<Rightarrow> u8 list \<Rightarrow> nat \<Rightarrow> nat \<Rightarrow> 'h StringBuffer option" where
  [code]: "new_string_loop ra b buf p p_end =
     (if p < p_end then do {
        c0 \<leftarrow> rd buf p;
        if c0 < 128 then do {
          (_, b) \<leftarrow> string_buffer_putc8 ra b (ucast c0);
          new_string_loop ra b buf (p + 1) p_end
        }
        else do {
          d \<leftarrow> unicode_from_utf8 (drop p buf) (int (p_end - p));
          (b, c, p) \<leftarrow>
            (case d of
               Some (c, n) \<Rightarrow>
                 if c < 0x10000 then Some (b, c, p + n)
                 else if c \<le> 0x10ffff then do {
                   (_, b) \<leftarrow> string_buffer_putc16 ra b (drop_bit 10 (c - 0x10000) + 0xd800);
                   Some (b, ((c - 0x10000) AND 0x3ff) + 0xdc00, p + n)
                 }
                 else do { p \<leftarrow> skip_invalid buf p p_end; Some (b, 0xfffd, p) }
             | None \<Rightarrow> do { p \<leftarrow> skip_invalid buf p p_end; Some (b, 0xfffd, p) });
          (_, b) \<leftarrow> string_buffer_putc16 ra b c;
          new_string_loop ra b buf p p_end
        }
      }
      else Some b)"

text \<open>The length becomes an \<open>int\<close> when the buffer is initialised.\<close>

definition JS_NewStringLen :: "'h str_runtime \<Rightarrow> 'h \<Rightarrow> u8 list \<Rightarrow> nat \<Rightarrow> ('h \<times> JSString option) option" where
  "JS_NewStringLen ra h buf buf_len =
     do {
       p \<leftarrow> ascii_loop buf 0 buf_len;
       if p > JS_STRING_LEN_MAX then Some (rt_too_long ra h, None)
       else if p = buf_len then js_new_string8 ra h buf 0 buf_len
       else do {
         _ \<leftarrow> cint (int buf_len);
         (r, b) \<leftarrow> string_buffer_init ra h buf_len;
         if r \<noteq> 0 then Some (sb_ctx (string_buffer_free b), None)
         else do {
           d \<leftarrow> rdn buf 0 p;
           (_, b) \<leftarrow> string_buffer_write8 ra b d;
           b \<leftarrow> new_string_loop ra b buf p buf_len;
           string_buffer_end ra b
         }
       }
     }"

subsection \<open>From strings to bytes\<close>

fun count_loop :: "u8 list \<Rightarrow> int \<Rightarrow> int option" where
  "count_loop [] n = Some n"
| "count_loop (c # src) n = do { n \<leftarrow> cint (n + uint (drop_bit 7 c)); count_loop src n }"

fun utf8_loop8 :: "u8 list \<Rightarrow> nat \<Rightarrow> u8 list \<Rightarrow> (u8 list \<times> nat) option" where
  "utf8_loop8 b q [] = Some (b, q)"
| "utf8_loop8 b q (c # src) =
     (if c < 0x80 then do { b \<leftarrow> wr b q c; utf8_loop8 b (q + 1) src }
      else do {
        b \<leftarrow> wr b q (drop_bit 6 c OR 0xc0);
        b \<leftarrow> wr b (q + 1) ((c AND 0x3f) OR 0x80);
        utf8_loop8 b (q + 2) src
      })"

text \<open>The next code point of the units \<open>c # src\<close>, and the units after it.\<close>

definition next_code :: "bool \<Rightarrow> u16 \<Rightarrow> u16 list \<Rightarrow> u32 \<times> u16 list" where
  "next_code cesu8 c src =
     (if is_hi c then
        (case src of
           c1 # src' \<Rightarrow> if \<not> cesu8 \<and> is_lo c1 then (from_surrogates c c1, src') else (ucast c, src)
         | [] \<Rightarrow> (ucast c, src))
      else (ucast c, src))"

lemma next_code_length [termination_simp]: "(x, rs) = next_code cesu8 c src \<Longrightarrow> length rs \<le> length src"
  by (auto simp: next_code_def split: if_splits list.splits)

fun utf8_loop16 :: "bool \<Rightarrow> u8 list \<Rightarrow> nat \<Rightarrow> u16 list \<Rightarrow> (u8 list \<times> nat) option" where
  "utf8_loop16 cesu8 b q [] = Some (b, q)"
| "utf8_loop16 cesu8 b q (c # src) =
     (if c < 0x80 then do { b \<leftarrow> wr b q (ucast c); utf8_loop16 cesu8 b (q + 1) src }
      else (case next_code cesu8 c src of
          (c, src) \<Rightarrow> do { b \<leftarrow> wrn b q (unicode_to_utf8 c); utf8_loop16 cesu8 b (q + length (unicode_to_utf8 c)) src }))"

text \<open>The bytes at the returned pointer, as many as \<open>*plen\<close> says, for a string and for any value.\<close>

definition string_to_utf8 :: "'h str_runtime \<Rightarrow> 'h \<Rightarrow> JSString \<Rightarrow> bool \<Rightarrow> ('h \<times> u8 list option) option" where
  "string_to_utf8 ra h p cesu8 =
     (case p of
        Str8 src \<Rightarrow> do {
          cnt \<leftarrow> count_loop src 0;
          if cnt = 0 then Some (h, Some src)
          else do {
            n \<leftarrow> cint (int (length src) + cnt);
            (h, r) \<leftarrow> js_alloc_string ra h (nat n) False;
            (case r of
               None \<Rightarrow> Some (h, None)
             | Some b \<Rightarrow> do {
                 (b, q) \<leftarrow> utf8_loop8 b 0 src;
                 b \<leftarrow> wr b q 0;
                 Some (h, Some (take q b))
               })
          }
        }
      | Str16 src \<Rightarrow> do {
          n \<leftarrow> cint (int (length src) * 3);
          (h, r) \<leftarrow> js_alloc_string ra h (nat n) False;
          (case r of
             None \<Rightarrow> Some (h, None)
           | Some b \<Rightarrow> do {
               (b, q) \<leftarrow> utf8_loop16 cesu8 b 0 src;
               b \<leftarrow> wr b q 0;
               Some (h, Some (take q b))
             })
        })"

definition JS_ToCStringLen2 ::
    "'h str_runtime \<Rightarrow> ('h \<Rightarrow> 'v \<Rightarrow> 'h \<times> JSString option) \<Rightarrow> 'h \<Rightarrow> JSString + 'v \<Rightarrow> bool \<Rightarrow> ('h \<times> u8 list option) option" where
  "JS_ToCStringLen2 ra to_string h val cesu8 =
     (case val of
        Inl p \<Rightarrow> string_to_utf8 ra h p cesu8
      | Inr v \<Rightarrow> (case to_string h v of (h, None) \<Rightarrow> Some (h, None) | (h, Some p) \<Rightarrow> string_to_utf8 ra h p cesu8))"

subsection \<open>The encoding of a sequence of units\<close>

fun encode_units :: "bool \<Rightarrow> u16 list \<Rightarrow> u8 list" where
  "encode_units cesu8 [] = []"
| "encode_units cesu8 (c # src) = (case next_code cesu8 c src of (x, rs) \<Rightarrow> unicode_to_utf8 x @ encode_units cesu8 rs)"

lemma unat_u16: "unat (ucast (c :: u16) :: u32) = unat c"
  using unsigned_less [where ?'a = nat, of c] by (simp add: unsigned_ucast_eq take_bit_nat_eq_self)

lemma unat_u8: "unat (ucast (c :: u8) :: u32) = unat c" "unat (ucast (c :: u8) :: u16) = unat c"
  using unsigned_less [where ?'a = nat, of c] by (simp_all add: unsigned_ucast_eq take_bit_nat_eq_self)

lemma surrogate_bits: "(ucast (c :: u16) :: u32) AND 0x3ff = take_bit 10 (ucast c)"
  by (simp add: take_bit_eq_mask mask_eq_exp_minus_1)

lemma from_surrogates_val:
  "unat (from_surrogates c c1) = 1024 * (unat c mod 1024) + unat c1 mod 1024 + 0x10000"
proof -
  have d: "push_bit 10 (take_bit 10 (ucast c)) OR take_bit 10 (ucast c1) =
      push_bit 10 (take_bit 10 (ucast c)) + (take_bit 10 (ucast c1) :: u32)"
    by (rule disjunctive_add_eq_or [symmetric]) (rule bit_eqI, auto simp: bit_simps)
  have 1: "unat (take_bit 10 (ucast c) :: u32) = unat c mod 1024" "unat (take_bit 10 (ucast c1) :: u32) = unat c1 mod 1024"
    by (simp_all only: unsigned_take_bit_eq unat_u16) (simp_all add: take_bit_eq_mod)
  have 2: "unat (push_bit 10 (take_bit 10 (ucast c)) :: u32) = 1024 * (unat c mod 1024)"
    unfolding unsigned_push_bit_eq 1(1) by (simp add: push_bit_eq_mult take_bit_eq_mod)
  show ?thesis unfolding from_surrogates_def surrogate_bits d by (simp add: unat_word_ariths 1 2)
qed

lemma hi_range: "is_hi c \<longleftrightarrow> unat c div 1024 = 54" "is_lo c \<longleftrightarrow> unat c div 1024 = 55"
proof -
  have "55296 \<le> n \<and> n < 56320 \<longleftrightarrow> n div 1024 = 54" "56320 \<le> n \<and> n < 57344 \<longleftrightarrow> n div 1024 = 55" for n :: nat by arith+
  then show "is_hi c \<longleftrightarrow> unat c div 1024 = 54" "is_lo c \<longleftrightarrow> unat c div 1024 = 55"
    by (simp_all add: is_hi_def is_lo_def word_le_nat_alt word_less_nat_alt)
qed

lemma word_ucast_eqI: "unat (x :: u32) = unat c \<Longrightarrow> ucast x = (c :: u16)"
  by (rule word_unat_eq_iff [THEN iffD2]) (simp add: unsigned_ucast_eq unsigned_less [where ?'a = nat, of c, simplified] take_bit_nat_eq_self)

lemma surrogates_split:
  assumes "is_hi c" and "is_lo c1"
  shows "char_units (from_surrogates c c1) = [c, c1]" "from_surrogates c c1 \<le> 0x10ffff" "0x10000 \<le> from_surrogates c c1"
proof -
  let ?x = "from_surrogates c c1"
  have v: "unat ?x = 1024 * (unat c mod 1024) + unat c1 mod 1024 + 0x10000" by (rule from_surrogates_val)
  have c: "unat c = 0xd800 + unat c mod 1024" "unat c1 = 0xdc00 + unat c1 mod 1024"
    using div_mult_mod_eq [of "unat c" 1024] div_mult_mod_eq [of "unat c1" 1024] assms [unfolded hi_range] by simp_all
  have m: "unat c mod 1024 < 1024" "unat c1 mod 1024 < 1024" by simp_all
  show ge: "0x10000 \<le> ?x" using v by (simp add: word_le_nat_alt)
  show "?x \<le> 0x10ffff" using v m by (simp add: word_le_nat_alt)
  let ?d = "?x - 0x10000"
  have d: "unat ?d = 1024 * (unat c mod 1024) + unat c1 mod 1024" using v ge by (simp add: unat_sub word_le_nat_alt)
  have "unat (drop_bit 10 ?d) = unat c mod 1024" unfolding unat_drop_bit_eq d using m by (simp add: drop_bit_eq_div)
  then have 1: "unat (drop_bit 10 ?d + 0xd800) = unat c" using c(1) m by (simp add: unat_word_ariths)
  have "?d AND 0x3ff = take_bit 10 ?d" by (simp add: take_bit_eq_mask mask_eq_exp_minus_1)
  moreover have "unat (take_bit 10 ?d) = unat c1 mod 1024" unfolding unsigned_take_bit_eq d using m by (simp add: take_bit_eq_mod)
  ultimately have 2: "unat ((?d AND 0x3ff) + 0xdc00) = unat c1" using c(2) m by (simp add: unat_word_ariths)
  show "char_units ?x = [c, c1]" unfolding char_units_def using ge word_ucast_eqI [OF 1] word_ucast_eqI [OF 2] by simp
qed

lemma next_code_units:
  assumes "next_code cesu8 c src = (x, rs)"
  shows "c # src = char_units x @ rs" "x \<le> 0x10ffff"
proof -
  have l: "unat c < 0x10000" using unsigned_less [where ?'a = nat, of c] by simp
  have u: "\<not> 0x10000 \<le> (ucast c :: u32)" "(ucast c :: u32) \<le> 0x10ffff" "ucast (ucast c :: u32) = c"
    using l by (simp_all add: word_le_nat_alt unat_u16 word_ucast_eqI)
  have "c # src = char_units x @ rs \<and> x \<le> 0x10ffff"
    using assms surrogates_split [of c] u by (auto simp: next_code_def char_units_def split: if_splits list.splits)
  then show "c # src = char_units x @ rs" "x \<le> 0x10ffff" by blast+
qed

lemma next_code_narrow: "\<not> is_hi c \<Longrightarrow> next_code cesu8 c src = (ucast c, src)"
  by (simp add: next_code_def)

lemma not_hi_small: "c < 0xd800 \<Longrightarrow> \<not> is_hi c"
  by (auto simp: is_hi_def)

lemma utf8_length: "c \<le> 0x10ffff \<Longrightarrow> 1 \<le> length (unicode_to_utf8 c) \<and> length (unicode_to_utf8 c) \<le> 3 * length (char_units c)"
  "length (char_units c) \<le> length (unicode_to_utf8 c) \<or> 0x10ffff < c"
  by (auto simp: unicode_to_utf8_def char_units_def word_le_nat_alt word_less_nat_alt)

lemma encode_length: "length us \<le> length (encode_units cesu8 us) \<and> length (encode_units cesu8 us) \<le> 3 * length us"
proof (induction cesu8 us rule: encode_units.induct)
  case (2 cesu8 c src)
  obtain x rs where x: "next_code cesu8 c src = (x, rs)" by fastforce
  have "length (c # src) = length (char_units x) + length rs" using next_code_units(1) [OF x] by simp
  then show ?case using 2 [OF x [symmetric]] x next_code_units(2) [OF x] utf8_length [of x] by auto
qed simp

subsection \<open>The bytes that are written\<close>

lemma write_two: "q + 2 \<le> length b \<Longrightarrow> do { b \<leftarrow> wr b q x; wr b (q + 1) y } = wrn b q [x, y]"
  by (simp add: wrn_def upd_conv_take_nth_drop min_def Cons_nth_drop_Suc [symmetric] drop_Suc_Cons)

lemma utf8_narrow:
  "c < 0x80 \<Longrightarrow> unicode_to_utf8 (ucast (c :: u8)) = [c]"
  "\<not> c < 0x80 \<Longrightarrow> unicode_to_utf8 (ucast (c :: u8)) = [drop_bit 6 c OR 0xc0, (c AND 0x3f) OR 0x80]"
proof -
  have l: "unat c < 256" using unsigned_less [where ?'a = nat, of c] by simp
  have i: "ucast (ucast c :: u32) = c" by (rule bit_word_eqI) (simp add: bit_simps)
  have "c < 0x80 \<longleftrightarrow> (ucast c :: u32) < 0x80" "(ucast c :: u32) < 0x800" using l by (simp_all add: word_less_nat_alt unat_u8)
  moreover have "ucast (drop_bit 6 (ucast c :: u32) OR 0xc0) = drop_bit 6 c OR 0xc0" "utf8_cont (ucast c) 0 = (c AND 0x3f) OR 0x80"
    unfolding utf8_cont_def by (rule bit_word_eqI; auto simp: bit_simps simp del: drop_bit_eq_div)+
  ultimately show "c < 0x80 \<Longrightarrow> unicode_to_utf8 (ucast c) = [c]"
      "\<not> c < 0x80 \<Longrightarrow> unicode_to_utf8 (ucast c) = [drop_bit 6 c OR 0xc0, (c AND 0x3f) OR 0x80]"
    using i by (simp_all add: unicode_to_utf8_def del: drop_bit_eq_div)
qed

lemma byte_not_hi: "\<not> is_hi (ucast (c :: u8))"
  using unsigned_less [where ?'a = nat, of c] by (intro not_hi_small) (simp add: word_less_nat_alt unat_u8)

lemma ucast_u8_u32: "ucast (ucast (c :: u8) :: u16) = (ucast c :: u32)"
  by (rule bit_word_eqI) (simp add: bit_simps, use bit_imp_le_length in fastforce)

lemma encode_byte: "encode_units cesu8 (ucast (c :: u8) # src) = unicode_to_utf8 (ucast c) @ encode_units cesu8 src"
  by (simp add: next_code_narrow [OF byte_not_hi] ucast_u8_u32)

lemma loop8_ok:
  "q + length (encode_units cesu8 (map ucast src)) \<le> length b \<Longrightarrow>
   utf8_loop8 b q src = map_option (\<lambda>b. (b, q + length (encode_units cesu8 (map ucast src)))) (wrn b q (encode_units cesu8 (map ucast src)))"
proof (induction src arbitrary: b q)
  case (Cons c src)
  let ?e = "encode_units cesu8 (map ucast src)" let ?d = "unicode_to_utf8 (ucast c)"
  have l: "q + length ?d + length ?e \<le> length b" using Cons.prems by (simp add: encode_byte del: encode_units.simps)
  let ?b = "take q b @ ?d @ drop (q + length ?d) b"
  have "utf8_loop8 b q (c # src) = utf8_loop8 ?b (q + length ?d) src"
  proof (cases "c < 0x80")
    case True
    then show ?thesis using l by (simp add: utf8_narrow(1) upd_conv_take_nth_drop)
  next
    case False
    then have "q + 2 \<le> length b" using l by (simp add: utf8_narrow(2))
    then have "do { b \<leftarrow> wr b q (drop_bit 6 c OR 0xc0); wr b (q + 1) ((c AND 0x3f) OR 0x80) } = Some ?b"
      using write_two [of q b] False by (simp add: utf8_narrow(2))
    moreover have "utf8_loop8 b q (c # src) = do { b \<leftarrow> do { b \<leftarrow> wr b q (drop_bit 6 c OR 0xc0); wr b (q + 1) ((c AND 0x3f) OR 0x80) }; utf8_loop8 b (q + 2) src }"
      using False by (simp del: drop_bit_eq_div)
    ultimately show ?thesis using False by (simp add: utf8_narrow(2) del: utf8_loop8.simps)
  qed
  also have "\<dots> = map_option (\<lambda>b. (b, q + length ?d + length ?e)) (wrn ?b (q + length ?d) ?e)"
    using Cons.IH [of "q + length ?d" ?b] l by simp
  also have "\<dots> = map_option (\<lambda>b. (b, q + length (encode_units cesu8 (map ucast (c # src))))) (wrn b q (encode_units cesu8 (map ucast (c # src))))"
    unfolding write_then [OF l] list.map encode_byte by (simp add: add.assoc)
  finally show ?case .
qed simp

lemma loop16_ok:
  "q + length (encode_units cesu8 src) \<le> length b \<Longrightarrow>
   utf8_loop16 cesu8 b q src = map_option (\<lambda>b. (b, q + length (encode_units cesu8 src))) (wrn b q (encode_units cesu8 src))"
proof (induction cesu8 src arbitrary: b q rule: encode_units.induct)
  case (2 cesu8 c src)
  obtain x rs where x: "next_code cesu8 c src = (x, rs)" by fastforce
  let ?e = "encode_units cesu8 rs" let ?d = "unicode_to_utf8 x"
  have l: "q + length ?d + length ?e \<le> length b" using "2.prems" x by simp
  let ?b = "take q b @ ?d @ drop (q + length ?d) b"
  have "utf8_loop16 cesu8 b q (c # src) = utf8_loop16 cesu8 ?b (q + length ?d) rs"
  proof (cases "c < 0x80")
    case True
    then have "\<not> is_hi c" by (intro not_hi_small) (auto elim: less_trans)
    then have x': "x = ucast c" "rs = src" using x by (simp_all add: next_code_def)
    have "(ucast c :: u32) < 0x80" using True by (simp add: word_less_nat_alt unat_u16)
    moreover have "ucast (ucast c :: u32) = (ucast c :: u8)" by (rule bit_word_eqI) (simp add: bit_simps)
    ultimately have "?d = [ucast c]" using x' by (simp add: unicode_to_utf8_def)
    then show ?thesis using True l x' by (simp add: upd_conv_take_nth_drop)
  next
    case False
    then show ?thesis using x l by simp
  qed
  also have "\<dots> = map_option (\<lambda>b. (b, q + length ?d + length ?e)) (wrn ?b (q + length ?d) ?e)"
    using "2.IH" [OF x [symmetric], of "q + length ?d" ?b] l by simp
  also have "\<dots> = map_option (\<lambda>b. (b, q + length (encode_units cesu8 (c # src)))) (wrn b q (encode_units cesu8 (c # src)))"
    unfolding write_then [OF l] using x by (simp add: add.assoc)
  finally show ?case .
qed simp

lemma count_loop_ok:
  assumes "n + int (length src) < 2 ^ 31" "0 \<le> n"
  shows "count_loop src n = Some (n + int (length (encode_units cesu8 (map ucast src))) - int (length src))"
  using assms
proof (induction src arbitrary: n)
  case (Cons c src)
  have l: "unat c < 256" using unsigned_less [where ?'a = nat, of c] by simp
  have "uint (drop_bit 7 c) = int (unat c div 128)" by (simp only: uint_nat unat_drop_bit_eq) (simp add: drop_bit_eq_div)
  moreover have "unat c div 128 = (if c < 0x80 then 0 else 1)" 
    unfolding word_less_nat_alt using l by (simp, arith)
  ultimately have d: "uint (drop_bit 7 c) = (if c < 0x80 then 0 else 1)" by simp
  have k: "length (unicode_to_utf8 (ucast c)) = (if c < 0x80 then 1 else 2)" by (simp add: utf8_narrow)
  show ?case unfolding count_loop.simps d using Cons.IH [of "n + (if c < 0x80 then 0 else 1)"] Cons.prems k
    by (simp add: encode_byte del: encode_units.simps)
qed simp

lemma encode_ascii: "length (encode_units cesu8 (map ucast src)) = length src \<Longrightarrow> encode_units cesu8 (map ucast src) = src"
proof (induction src)
  case (Cons c src)
  have k: "length (unicode_to_utf8 (ucast c)) = (if c < 0x80 then 1 else 2)" by (simp add: utf8_narrow)
  have g: "length src \<le> length (encode_units cesu8 (map ucast src))" using encode_length [of "map ucast src" cesu8] by simp
  have "c < 0x80" using Cons.prems k g by (auto simp: encode_byte simp del: encode_units.simps split: if_splits)
  then show ?case using Cons k by (simp add: encode_byte utf8_narrow del: encode_units.simps)
qed simp

context str_allocator
begin

lemma to_utf8_ok:
  assumes l: "3 * str_len p + 1 < 2 ^ 31"
  shows "\<exists>h' r. string_to_utf8 ra h p cesu8 = Some (h', r) \<and>
     (case r of None \<Rightarrow> pending h' | Some e \<Rightarrow> pending h' = pending h \<and> e = encode_units cesu8 (str_units p))"
proof (cases p)
  case (Str8 src)
  let ?e = "encode_units cesu8 (map ucast src)"
  have e: "length src \<le> length ?e" "length ?e \<le> 3 * length src" using encode_length [of "map ucast src" cesu8] by simp_all
  have c: "count_loop src 0 = Some (int (length ?e) - int (length src))" using count_loop_ok [of 0 src cesu8] l Str8 by simp
  show ?thesis
  proof (cases "length ?e = length src")
    case True
    then show ?thesis using Str8 c encode_ascii [OF True] by (simp add: string_to_utf8_def)
  next
    case False
    have ci: "cint (int (length src) + (int (length ?e) - int (length src))) = Some (int (length ?e))" using e l Str8 by simp
    obtain h' r where a: "js_alloc_string ra h (length ?e) False = Some (h', r)" "case r of None \<Rightarrow> pending h' | Some b \<Rightarrow> pending h' = pending h \<and> str_bytes (length ?e) False \<le> length b"
      using alloc_ok [of "length ?e" False h] e l Str8 by (auto simp: str_bytes_def)
    then show ?thesis using Str8 c ci False loop8_ok [of 0 cesu8 src]
      by (cases r) (auto simp: string_to_utf8_def str_bytes_def)
  qed
next
  case (Str16 src)
  let ?e = "encode_units cesu8 src"
  have e: "length ?e \<le> 3 * length src" using encode_length [of src cesu8] by simp
  have ci: "cint (int (length src) * 3) = Some (int (length src) * 3)" "nat (int (length src) * 3) = 3 * length src" using l Str16 by simp_all
  obtain h' r where a: "js_alloc_string ra h (3 * length src) False = Some (h', r)" "case r of None \<Rightarrow> pending h' | Some b \<Rightarrow> pending h' = pending h \<and> str_bytes (3 * length src) False \<le> length b"
    using alloc_ok [of "3 * length src" False h] l Str16 by (auto simp: str_bytes_def)
  then show ?thesis using Str16 ci e loop16_ok [of 0 cesu8 src]
    by (cases r) (auto simp: string_to_utf8_def str_bytes_def)
qed

end

subsection \<open>Reading the bytes\<close>

lemma ascii_loop_ok:
  "p + n \<le> length buf \<Longrightarrow> ascii_loop buf p n = Some (p + length (takeWhile (\<lambda>c. c < 128) (take n (drop p buf))))"
proof (induction n arbitrary: p)
  case (Suc n)
  have "drop p buf = buf ! p # drop (Suc p) buf" using Suc.prems by (simp add: Cons_nth_drop_Suc)
  then show ?case using Suc.IH [of "Suc p"] Suc.prems by simp
qed simp

lemma skip_cont_ok:
  "p + n \<le> length buf \<Longrightarrow> \<exists>q. skip_cont buf p n = Some q \<and> p \<le> q \<and> q \<le> p + n \<and> (n \<noteq> 0 \<longrightarrow> 0x80 \<le> buf ! p \<longrightarrow> buf ! p < 0xc0 \<longrightarrow> p < q)"
proof (induction n arbitrary: p)
  case (Suc n)
  then show ?case using Suc.IH [of "Suc p"] by (auto simp: Suc_le_eq intro: less_imp_le)
qed simp

lemma skip_invalid_ok:
  assumes "p < p_end" and "p_end \<le> length buf"
  shows "\<exists>q. skip_invalid buf p p_end = Some q \<and> p < q \<and> q \<le> p_end"
proof -
  obtain q where q: "skip_cont buf p (p_end - p) = Some q" "p \<le> q" "q \<le> p_end"
    using skip_cont_ok [of p "p_end - p" buf] assms by auto
  show ?thesis
  proof (cases "q < p_end")
    case True
    then show ?thesis using skip_cont_ok [of "Suc q" "p_end - Suc q" buf] assms(2) q by (auto simp: skip_invalid_def)
  next
    case False
    then show ?thesis using q assms(1) by (simp add: skip_invalid_def)
  qed
qed

lemma from_utf8_loop_total: "l \<le> length p \<Longrightarrow> \<exists>r. from_utf8_loop l p c = Some r"
  by (induction l p c rule: from_utf8_loop.induct) auto

lemma from_utf8_total:
  assumes "0 < m" and "m \<le> length p"
  shows "\<exists>r. unicode_from_utf8 p (int m) = Some r \<and> (\<forall>c n. r = Some (c, n) \<longrightarrow> 0 < n \<and> n \<le> m)"
proof -
  obtain c q where p: "p = c # q" using assms by (cases p) auto
  show ?thesis
  proof (cases "c < 0x80 \<or> utf8_trail c = None \<or> m \<le> the (utf8_trail c)")
    case True
    then show ?thesis using p assms(1) by (auto simp: unicode_from_utf8_def split: option.splits)
  next
    case False
    then obtain l where l: "utf8_trail c = Some l" "l < m" by (auto simp: not_le)
    obtain r where "from_utf8_loop l q (ucast c AND utf8_first_code_mask ! (l - 1)) = Some r" using from_utf8_loop_total [of l q] l(2) assms(2) p by auto
    then show ?thesis using p False l by (auto simp: unicode_from_utf8_def split: option.splits)
  qed
qed

lemma utf8_head: "c \<le> 0x10ffff \<Longrightarrow> \<exists>b q. unicode_to_utf8 c = b # q \<and> (b < 128 \<longrightarrow> c = ucast b \<and> q = []) \<and> (c < 0x80 \<longrightarrow> b < 128)"
proof -
  assume c: "c \<le> 0x10ffff"
  have l: "c < 0x80000000" using c by (rule le_less_trans) simp
  obtain b q where bq: "unicode_to_utf8 c = b # q" using utf8_length(1) [OF c] by (cases "unicode_to_utf8 c") auto
  have d: "unicode_from_utf8 (b # q) (int (length (b # q))) = Some (Some (c, length (b # q)))"
    using decode_encode [OF l, of "int (length (b # q))" "[]"] bq by simp
  have "c < 0x80 \<longrightarrow> b < 128"
  proof
    assume "c < 0x80"
    moreover from this have "unat (ucast c :: u8) = unat c" by (simp add: word_less_nat_alt unsigned_ucast_eq take_bit_nat_eq_self)
    ultimately show "b < 128" using bq by (auto simp: unicode_to_utf8_def word_less_nat_alt)
  qed
  moreover have "b < 128 \<longrightarrow> c = ucast b \<and> q = []" using d by (auto simp: unicode_from_utf8_def)
  ultimately show ?thesis using bq by blast
qed

lemma char_units_small: "c < 0x10000 \<Longrightarrow> char_units c = [ucast c]"
  by (auto simp: char_units_def)

lemma byte_u32: "(ucast (c :: u8) :: u32) < 0x100" "(ucast (ucast c :: u32) :: u16) = ucast c"
proof -
  show "(ucast c :: u32) < 0x100" using unsigned_less [where ?'a = nat, of c] by (simp add: word_less_nat_alt unat_u8)
  show "(ucast (ucast c :: u32) :: u16) = ucast c" by (rule bit_word_eqI) (simp add: bit_simps)
qed

definition encoded_at :: "u8 list \<Rightarrow> nat \<Rightarrow> nat \<Rightarrow> u32 \<Rightarrow> bool" where
  "encoded_at buf p p_end x \<longleftrightarrow>
     x \<le> 0x10ffff \<and> p + length (unicode_to_utf8 x) \<le> p_end \<and> (\<exists>r. drop p buf = unicode_to_utf8 x @ r)"

lemma encoded_decodes:
  assumes "encoded_at buf p p_end x"
  shows "unicode_from_utf8 (drop p buf) (int (p_end - p)) = Some (Some (x, length (unicode_to_utf8 x)))"
proof -
  have "x < 0x80000000" using assms unfolding encoded_at_def by (intro le_less_trans [of x "0x10ffff"]) simp_all
  moreover have "int (length (unicode_to_utf8 x)) \<le> int (p_end - p)" using assms by (auto simp: encoded_at_def)
  ultimately show ?thesis using decode_encode assms by (auto simp: encoded_at_def)
qed

text \<open>What the loop finds at a byte that is not ASCII: a character, or bytes to be skipped.\<close>

lemma decode_cases:
  assumes p: "p < p_end" "p_end \<le> length buf"
  obtains (char) c n where "unicode_from_utf8 (drop p buf) (int (p_end - p)) = Some (Some (c, n))" "c \<le> 0x10ffff"
      "p + n \<le> p_end" "length (char_units c) \<le> n" "\<And>x. encoded_at buf p p_end x \<Longrightarrow> x = c \<and> n = length (unicode_to_utf8 x)"
  | (invalid) r where "unicode_from_utf8 (drop p buf) (int (p_end - p)) = Some r" "\<And>c n. r = Some (c, n) \<Longrightarrow> \<not> c \<le> 0x10ffff"
      "\<And>x. \<not> encoded_at buf p p_end x"
proof -
  have l: "0 < p_end - p" "p_end - p \<le> length (drop p buf)" using p by simp_all
  obtain r where r: "unicode_from_utf8 (drop p buf) (int (p_end - p)) = Some r" "\<And>c n. r = Some (c, n) \<Longrightarrow> 0 < n \<and> n \<le> p_end - p"
    using from_utf8_total [of "p_end - p" "drop p buf"] l by blast
  show thesis
  proof (cases "\<exists>c n. r = Some (c, n) \<and> c \<le> 0x10ffff")
    case True
    then obtain c n where cn: "r = Some (c, n)" "c \<le> 0x10ffff" by blast
    have n: "n = length (unicode_to_utf8 c)" using encode_decode r(1) cn(1) by blast
    have "x = c \<and> n = length (unicode_to_utf8 x)" if "encoded_at buf p p_end x" for x using encoded_decodes [OF that] r(1) cn(1) by simp
    moreover have "p + n \<le> p_end" using r(2) [OF cn(1)] p(1) by linarith
    moreover have "length (char_units c) \<le> n" using utf8_length(2) [of c] n cn(2) by auto
    ultimately show ?thesis using char r(1) cn by blast
  next
    case False
    have "\<not> encoded_at buf p p_end x" for x using encoded_decodes [of buf p p_end x] False r(1) by (auto simp: encoded_at_def)
    then show ?thesis using invalid r(1) False by blast
  qed
qed

text \<open>The ASCII characters at the beginning are encoded by themselves.\<close>

lemma encode_prefix:
  defines "k \<equiv> \<lambda>cesu8 us. length (takeWhile (\<lambda>c. c < 128) (encode_units cesu8 us))"
  shows "map ucast (take (k cesu8 us) (encode_units cesu8 us)) = take (k cesu8 us) us \<and>
     drop (k cesu8 us) (encode_units cesu8 us) = encode_units cesu8 (drop (k cesu8 us) us)"
  unfolding k_def
proof (induction cesu8 us rule: encode_units.induct)
  case (2 cesu8 c src)
  obtain x rs where x: "next_code cesu8 c src = (x, rs)" by fastforce
  note nx = next_code_units [OF x]
  obtain b q where u: "unicode_to_utf8 x = b # q" "b < 128 \<longrightarrow> x = ucast b \<and> q = []" using utf8_head [OF nx(2)] by blast
  show ?case
  proof (cases "b < 128")
    case True
    then have x': "x = ucast b" "q = []" using u(2) by simp_all
    have "(ucast b :: u32) < 0x10000" using byte_u32(1) by (rule less_trans) simp
    then have "c = ucast b" "rs = src" using nx(1) x' by (simp_all add: char_units_small byte_u32)
    then show ?thesis using 2 [OF x [symmetric]] x u(1) x' True by simp
  next
    case False
    then show ?thesis using x u(1) by simp
  qed
qed simp

context str_allocator
begin

lemma put_grown:
  assumes "sb_ok b X" and "fits X 1" and "c < 0x10000"
  shows "\<exists>r b' Y. string_buffer_putc16 ra b c = Some (r, b') \<and> grown b X [ucast c] b' Y"
  using putc16_ok [OF assms] appended_grown by fastforce

lemma put_char_grown:
  assumes s: "sb_ok b X" and l: "fits X 2" and c: "c \<le> 0x10ffff" "0x10000 \<le> c"
  shows "\<exists>r b1 r' b2 Y. string_buffer_putc16 ra b (drop_bit 10 (c - 0x10000) + 0xd800) = Some (r, b1) \<and>
     string_buffer_putc16 ra b1 (((c - 0x10000) AND 0x3ff) + 0xdc00) = Some (r', b2) \<and> grown b X (char_units c) b2 Y"
proof -
  note sr = surrogate_range [OF c]
  let ?h = "drop_bit 10 (c - 0x10000) + 0xd800" and ?l = "((c - 0x10000) AND 0x3ff) + 0xdc00"
  obtain r b1 Y where 1: "string_buffer_putc16 ra b ?h = Some (r, b1)" "grown b X [ucast ?h] b1 Y"
    using put_grown [OF s _ sr(1)] fits_mono [OF l, of 1] by auto
  have "fits Y 1" using grown_fits [OF 1(2), of 1] l by (simp add: numeral_2_eq_2)
  then obtain r' b2 Z where 2: "string_buffer_putc16 ra b1 ?l = Some (r', b2)" "grown b1 Y [ucast ?l] b2 Z"
    using put_grown [OF grown_sb [OF 1(2)] _ sr(2)] by blast
  have "char_units c = [ucast ?h] @ [ucast ?l]" using c(2) by (simp add: char_units_def)
  then show ?thesis using 1 2 grown_trans [OF 1(2) 2(2)] by metis
qed

lemma loop_step:
  assumes s: "sb_ok b X" and l: "fits X (p_end - p)" and p: "p < p_end" "p_end \<le> length buf"
  shows "\<exists>b' Y ds p'. new_string_loop ra b buf p p_end = new_string_loop ra b' buf p' p_end \<and> p < p' \<and> p' \<le> p_end \<and>
     length ds \<le> p' - p \<and> grown b X ds b' Y \<and>
     (\<forall>x. encoded_at buf p p_end x \<longrightarrow> ds = char_units x \<and> p' = p + length (unicode_to_utf8 x))"
proof -
  have l1: "fits X 1" using fits_mono [OF l] p(1) by simp
  note def = new_string_loop.simps [of ra b buf p p_end]
  show ?thesis
  proof (cases "buf ! p < 128")
    case True
    obtain r b' Y where 1: "string_buffer_putc8 ra b (ucast (buf ! p)) = Some (r, b')" "grown b X [ucast (buf ! p)] b' Y"
      using putc8_ok [OF s l1 byte_u32(1)] appended_grown unfolding byte_u32(2) by fastforce
    have "char_units x = [ucast (buf ! p)] \<and> length (unicode_to_utf8 x) = 1" if x: "encoded_at buf p p_end x" for x
    proof -
      obtain b0 q where u: "unicode_to_utf8 x = b0 # q" "b0 < 128 \<longrightarrow> x = ucast b0 \<and> q = []" using utf8_head x unfolding encoded_at_def by blast
      have "b0 = buf ! p" using x u(1) p by (auto simp: encoded_at_def Cons_nth_drop_Suc [symmetric, of p buf])
      then have "x = ucast (buf ! p)" "q = []" using u(2) True by simp_all
      moreover have "(ucast (buf ! p) :: u32) < 0x10000" using byte_u32(1) by (rule less_trans) simp
      ultimately show ?thesis using u(1) by (simp add: char_units_small byte_u32)
    qed
    then show ?thesis using True p 1
      by (intro exI [of _ b'] exI [of _ Y] exI [of _ "[ucast (buf ! p)]"] exI [of _ "Suc p"]) (simp add: def)
  next
    case False
    from p show ?thesis
    proof (cases rule: decode_cases)
      case (char c n)
      show ?thesis
      proof (cases "c < 0x10000")
        case True
        obtain r b' Y where 1: "string_buffer_putc16 ra b c = Some (r, b')" "grown b X (char_units c) b' Y"
          using put_grown [OF s l1 True] unfolding char_units_small [OF True] by blast
        have "0 < n" using char(4) char_units_small [OF True] by simp
        then show ?thesis using True False p char 1
          by (intro exI [of _ b'] exI [of _ Y] exI [of _ "char_units c"] exI [of _ "p + n"]) (simp add: def)
      next
        case nb: False
        then have c: "0x10000 \<le> c" by simp
        then have n: "2 \<le> n" using char(4) by (simp add: char_units_def)
        have "fits X 2" using fits_mono [OF l, of 2] n char(3) by linarith
        then obtain r b1 r' b' Y where 1: "string_buffer_putc16 ra b (drop_bit 10 (c - 0x10000) + 0xd800) = Some (r, b1)"
            "string_buffer_putc16 ra b1 (((c - 0x10000) AND 0x3ff) + 0xdc00) = Some (r', b')" "grown b X (char_units c) b' Y"
          using put_char_grown [OF s _ char(2) c] by blast
        show ?thesis using nb False p char 1 n
          by (intro exI [of _ b'] exI [of _ Y] exI [of _ "char_units c"] exI [of _ "p + n"]) (simp add: def del: drop_bit_eq_div)
      qed
    next
      case (invalid r)
      obtain q where q: "skip_invalid buf p p_end = Some q" "p < q" "q \<le> p_end" using skip_invalid_ok [OF p] by blast
      have f: "(0xfffd :: u32) < 0x10000" by simp
      obtain r' b' Y where 1: "string_buffer_putc16 ra b 0xfffd = Some (r', b')" "grown b X [ucast (0xfffd :: u32)] b' Y" using put_grown [OF s l1 f] by blast
      have nc: "\<not> c < 0x10000" if "r = Some (c, n)" for c n using invalid(2) [OF that] by (auto dest: less_trans simp: not_le)
      then show ?thesis using False p invalid q 1
        by (intro exI [of _ b'] exI [of _ Y] exI [of _ "[ucast (0xfffd :: u32)]"] exI [of _ q]) (cases r; auto simp: def)
    qed
  qed
qed

text \<open>The loop ends after at most as many steps as there are bytes.\<close>

lemma new_string_loop_total:
  "sb_ok b X \<Longrightarrow> fits X (p_end - p) \<Longrightarrow> p_end \<le> length buf \<Longrightarrow>
   \<exists>b' Y ds. new_string_loop ra b buf p p_end = Some b' \<and> length ds \<le> p_end - p \<and> grown b X ds b' Y"
proof (induction "p_end - p" arbitrary: b X p rule: less_induct)
  case less
  show ?case
  proof (cases "p < p_end")
    case True
    obtain b1 Y ds p' where 1: "new_string_loop ra b buf p p_end = new_string_loop ra b1 buf p' p_end" "p < p'" "p' \<le> p_end"
        "length ds \<le> p' - p" "grown b X ds b1 Y" using loop_step [OF less.prems(1,2) True less.prems(3)] by blast
    have m: "p_end - p' < p_end - p" using 1(2) True by linarith
    have "fits X (length ds + (p_end - p'))" using fits_mono [OF less.prems(2)] 1(2-4) by simp
    then have "fits Y (p_end - p')" by (rule grown_fits [OF 1(5)])
    then obtain b' Z es where 2: "new_string_loop ra b1 buf p' p_end = Some b'" "length es \<le> p_end - p'" "grown b1 Y es b' Z"
      using less.hyps [OF m grown_sb [OF 1(5)] _ less.prems(3)] by blast
    then show ?thesis using 1 grown_trans [OF 1(5) 2(3)]
      by (intro exI [of _ b'] exI [of _ Z] exI [of _ "ds @ es"]) simp
  next
    case False
    then show ?thesis using grown_refl [OF less.prems(1)]
      by (intro exI [of _ b] exI [of _ X] exI [of _ "[]"]) (simp add: new_string_loop.simps [of ra b buf p p_end])
  qed
qed

lemma new_string_loop_encoded:
  "sb_ok b X \<Longrightarrow> fits X (p_end - p) \<Longrightarrow> p_end \<le> length buf \<Longrightarrow> p \<le> p_end \<Longrightarrow> take (p_end - p) (drop p buf) = encode_units cesu8 us \<Longrightarrow>
   \<exists>b' Y. new_string_loop ra b buf p p_end = Some b' \<and> grown b X us b' Y"
proof (induction cesu8 us arbitrary: b X p rule: encode_units.induct)
  case (1 cesu8)
  have "p = p_end" using arg_cong [OF "1.prems"(5), of length] "1.prems"(3,4) by simp
  then show ?case using grown_refl [OF "1.prems"(1)]
    by (intro exI [of _ b] exI [of _ X]) (simp add: new_string_loop.simps [of ra b buf p_end p_end])
next
  case (2 cesu8 c src)
  obtain x rs where x: "next_code cesu8 c src = (x, rs)" by fastforce
  note nx = next_code_units [OF x]
  let ?u = "unicode_to_utf8 x"
  have e: "take (p_end - p) (drop p buf) = ?u @ encode_units cesu8 rs" using "2.prems"(5) x by simp
  have len: "p_end - p = length ?u + length (encode_units cesu8 rs)" using arg_cong [OF e, of length] "2.prems"(3,4) by simp
  have "drop p buf = ?u @ encode_units cesu8 rs @ drop (p_end - p) (drop p buf)"
    using append_take_drop_id [of "p_end - p" "drop p buf"] unfolding e by simp
  then have at: "encoded_at buf p p_end x" using nx(2) len utf8_length(1) [OF nx(2)] unfolding encoded_at_def by (intro conjI exI) auto
  have p: "p < p_end" using len utf8_length(1) [OF nx(2)] by auto
  obtain b1 Y where 1: "new_string_loop ra b buf p p_end = new_string_loop ra b1 buf (p + length ?u) p_end" "grown b X (char_units x) b1 Y"
      "length (char_units x) \<le> length ?u"
    using loop_step [OF "2.prems"(1,2) p "2.prems"(3)] at by (metis diff_add_inverse)
  have "fits X (length (char_units x) + (p_end - (p + length ?u)))" using fits_mono [OF "2.prems"(2)] 1(3) len by simp
  then have f: "fits Y (p_end - (p + length ?u))" by (rule grown_fits [OF 1(2)])
  have "take (p_end - (p + length ?u)) (drop (p + length ?u) buf) = drop (length ?u) (take (p_end - p) (drop p buf))"
    by (simp add: drop_take add.commute)
  then have t: "take (p_end - (p + length ?u)) (drop (p + length ?u) buf) = encode_units cesu8 rs" unfolding e by simp
  have pl: "p + length ?u \<le> p_end" using len p by linarith
  obtain b' Z where 2: "new_string_loop ra b1 buf (p + length ?u) p_end = Some b'" "grown b1 Y rs b' Z"
    using "2.IH" [OF x [symmetric] grown_sb [OF 1(2)] f "2.prems"(3) pl t] by blast
  show ?case using 1(1) 2(1) grown_trans [OF 1(2) 2(2)] nx(1) by auto
qed

text \<open>The result, from what the loop does after the ASCII characters.\<close>

definition new_string_result :: "('h \<times> JSString option) option \<Rightarrow> (u16 list \<Rightarrow> bool) \<Rightarrow> bool" where
  "new_string_result R P \<longleftrightarrow>
     (\<exists>h' r. R = Some (h', r) \<and> (case r of None \<Rightarrow> pending h' | Some p \<Rightarrow> \<not> pending h' \<and> canonical p \<and> P (str_units p)))"

lemma end_result:
  assumes g: "grown b (Some []) us b' Y" and w: "\<not> sb_is_wide_char b" and P: "P us"
  shows "new_string_result (string_buffer_end ra b') P"
proof (cases Y)
  case None
  then show ?thesis using g end_error [of b'] by (auto simp: new_string_result_def grown_def sb_ok_def)
next
  case (Some vs)
  then have s': "sb_ok b' (Some us)" "sb_is_wide_char b' \<longleftrightarrow> (\<exists>d\<in>set us. 0x100 \<le> d)" using g w by (auto simp: grown_def)
  obtain h' p where p: "string_buffer_end ra b' = Some (h', Some p)" "str_units p = us" "\<not> pending h'" "is_wide p \<longleftrightarrow> us \<noteq> [] \<and> sb_is_wide_char b'"
    using end_ok [OF s'(1)] by blast
  have "canonical p" unfolding canonical_def p(2,4) s'(2) by fastforce
  then show ?thesis using p P by (simp add: new_string_result_def)
qed

lemma ascii_canonical:
  assumes m: "makes h R (map ucast (bs :: u8 list)) False" and h: "\<not> pending h" and P: "P (map ucast bs)"
  shows "new_string_result R P"
proof -
  obtain h' q where q: "R = Some (h', q)" "case q of None \<Rightarrow> pending h' | Some p \<Rightarrow> pending h' = pending h \<and> str_units p = map ucast bs \<and> (is_wide p \<longleftrightarrow> False)"
    using m by (auto simp: makes_def)
  have "\<not> (\<exists>u\<in>set (map ucast bs :: u16 list). 0x100 \<le> u)" using narrow_byte(2) by (auto simp: not_le)
  then show ?thesis using q P h by (cases q) (auto simp: new_string_result_def canonical_def)
qed

lemma NewStringLen_result:
  assumes n: "buf_len \<le> length buf" "buf_len \<le> 2 ^ 28" and h: "\<not> pending h"
    and asc: "takeWhile (\<lambda>c. c < 128) (take buf_len buf) = take buf_len buf \<Longrightarrow> P (map ucast (take buf_len buf))"
    and loop: "\<And>b X k. k = length (takeWhile (\<lambda>c. c < 128) (take buf_len buf)) \<Longrightarrow> sb_ok b X \<Longrightarrow> fits X (buf_len - k) \<Longrightarrow>
      \<exists>b' Y us. new_string_loop ra b buf k buf_len = Some b' \<and> grown b X us b' Y \<and> P (map ucast (take k buf) @ us)"
  shows "new_string_result (JS_NewStringLen ra h buf buf_len) P"
proof -
  define k where "k = length (takeWhile (\<lambda>c. c < 128) (take buf_len buf))"
  have a: "ascii_loop buf 0 buf_len = Some k" using ascii_loop_ok [of 0 buf_len buf] n(1) by (simp add: k_def)
  have k: "k \<le> buf_len" using length_takeWhile_le [of "\<lambda>c. c < 128" "take buf_len buf"] n(1) by (simp add: k_def)
  have kl: "\<not> k > JS_STRING_LEN_MAX" using k n(2) by (simp add: JS_STRING_LEN_MAX_def)
  show ?thesis
  proof (cases "k = buf_len")
    case True
    then have "length (takeWhile (\<lambda>c. c < 128) (take buf_len buf)) = length (take buf_len buf)" using n(1) by (simp add: k_def)
    then have t: "takeWhile (\<lambda>c. c < 128) (take buf_len buf) = take buf_len buf" by (metis takeWhile_eq_take take_all_iff order_refl)
    have "JS_NewStringLen ra h buf buf_len = js_new_string8 ra h buf 0 buf_len" using a kl True by (simp add: JS_NewStringLen_def)
    then show ?thesis using new_string8_ok [of 0 buf_len buf h] n asc [OF t] by (auto intro: ascii_canonical [OF _ h])
  next
    case False
    obtain r b where i: "string_buffer_init ra h buf_len = Some (r, b)" "\<not> sb_is_wide_char b" "r = 0 \<and> sb_ok b (Some []) \<or> r = -1 \<and> sb_ok b None"
      using init_ok [OF n(2) h, of False] by (auto simp: string_buffer_init_def)
    have ci: "cint (int buf_len) = Some (int buf_len)" using n(2) by simp
    show ?thesis
    proof (cases "r = 0")
      case True
      have lt: "length (take k buf) = k" using k n(1) by simp
      obtain r1 b1 Y where 1: "string_buffer_write8 ra b (take k buf) = Some (r1, b1)" "grown b (Some []) (map ucast (take k buf)) b1 Y"
        using write8_ok [of b "Some []" "take k buf"] appended_grown i(3) True n(2) k lt by (fastforce simp: fits_def)
      have "fits Y (buf_len - k)" by (rule grown_fits [OF 1(2)]) (use lt k n(2) in \<open>simp add: fits_def\<close>)
      then obtain b' Z us where 2: "new_string_loop ra b1 buf k buf_len = Some b'" "grown b1 Y us b' Z" "P (map ucast (take k buf) @ us)"
        using loop [OF k_def grown_sb [OF 1(2)]] by blast
      have "JS_NewStringLen ra h buf buf_len = string_buffer_end ra b'"
        using a kl False ci i(1) True lt k n(1) 1(1) 2(1) by (simp add: JS_NewStringLen_def)
      then show ?thesis using end_result [OF grown_trans [OF 1(2) 2(2)] i(2)] 2(3) by simp
    next
      case nz: False
      then have "JS_NewStringLen ra h buf buf_len = Some (sb_ctx b, None)" using a kl False ci i(1) by (simp add: JS_NewStringLen_def string_buffer_free_def)
      then show ?thesis using nz i(3) by (auto simp: new_string_result_def sb_ok_def)
    qed
  qed
qed

lemma NewStringLen_total:
  assumes n: "buf_len \<le> length buf" "buf_len \<le> 2 ^ 28" and h: "\<not> pending h"
  shows "new_string_result (JS_NewStringLen ra h buf buf_len) (\<lambda>us. length us \<le> buf_len)"
proof (rule NewStringLen_result [OF n h])
  fix b :: "'h StringBuffer" and X k
  assume k: "k = length (takeWhile (\<lambda>c. c < 128) (take buf_len buf))" and b: "sb_ok b X" "fits X (buf_len - k)"
  have "k \<le> buf_len" using length_takeWhile_le [of "\<lambda>c. c < 128" "take buf_len buf"] n(1) k by simp
  then show "\<exists>b' Y us. new_string_loop ra b buf k buf_len = Some b' \<and> grown b X us b' Y \<and> length (map ucast (take k buf) @ us) \<le> buf_len"
    using new_string_loop_total [OF b n(1)] by fastforce
qed simp

lemma NewStringLen_encoded:
  assumes n: "length (encode_units cesu8 us) \<le> 2 ^ 28" and h: "\<not> pending h"
  shows "new_string_result (JS_NewStringLen ra h (encode_units cesu8 us) (length (encode_units cesu8 us))) (\<lambda>vs. vs = us)"
proof (rule NewStringLen_result [OF order_refl n h], unfold take_all [OF order_refl])
  let ?e = "encode_units cesu8 us"
  note pre = encode_prefix [of cesu8 us]
  show "map ucast ?e = us" if "takeWhile (\<lambda>c. c < 128) ?e = ?e"
  proof -
    have "length us \<le> length ?e" using encode_length by blast
    then show ?thesis using pre that by simp
  qed
  fix b :: "'h StringBuffer" and X k
  assume k: "k = length (takeWhile (\<lambda>c. c < 128) ?e)" and b: "sb_ok b X" "fits X (length ?e - k)"
  have kl: "k \<le> length ?e" using length_takeWhile_le k by blast
  have "take (length ?e - k) (drop k ?e) = drop k ?e" by simp
  also have "drop k ?e = encode_units cesu8 (drop k us)" using pre k by blast
  finally have "take (length ?e - k) (drop k ?e) = encode_units cesu8 (drop k us)" .
  from new_string_loop_encoded [OF b order_refl kl this]
  obtain b' Y where "new_string_loop ra b ?e k (length ?e) = Some b'" "grown b X (drop k us) b' Y" by blast
  moreover have "map ucast (take k ?e) @ drop k us = us" using pre k by simp
  ultimately show "\<exists>b' Y vs. new_string_loop ra b ?e k (length ?e) = Some b' \<and> grown b X vs b' Y \<and> map ucast (take k ?e) @ vs = us"
    by blast
qed

end

subsection \<open>The claims\<close>





end
