(* ===== verification/Rqsort.thy ===== *)
theory Rqsort
  imports QJS_Prelude
begin

text \<open>
  The sort of \<open>cutils.c\<close>: the heap sort \<open>heapsortx\<close>, the pivot choice \<open>med3\<close> and the
  iterative quick sort \<open>rqsort\<close> with its fifty-entry segment stack.

  The array is a list of elements and a pointer into it an index; the byte-level
  exchange routines are treated in theory \<open>Exchange\<close>. A comparator may have side effects
  (for a JavaScript sort it runs user code through \<open>opaque\<close>), so it takes a state and returns
  the next one with its result; the sort state is that state with the array. Every access of
  the array is checked, and so is the capacity of the segment stack.
\<close>

subsection \<open>Accesses of the array\<close>

type_synonym ('s, 'e) cmp_f = "'s \<Rightarrow> 'e \<Rightarrow> 'e \<Rightarrow> int \<times> 's"
type_synonym ('s, 'e) sort_state = "'s \<times> 'e list"

definition cmp_at :: "('s, 'e) cmp_f \<Rightarrow> ('s, 'e) sort_state \<Rightarrow> nat \<Rightarrow> nat \<Rightarrow>
    (int \<times> ('s, 'e) sort_state) option" where
  "cmp_at cmp st i j =
     do { x \<leftarrow> rd (snd st) i; y \<leftarrow> rd (snd st) j;
          let (c, s) = cmp (fst st) x y; Some (c, (s, snd st)) }"

definition swap_at :: "('s, 'e) sort_state \<Rightarrow> nat \<Rightarrow> nat \<Rightarrow> ('s, 'e) sort_state option" where
  "swap_at st i j =
     do { x \<leftarrow> rd (snd st) i; y \<leftarrow> rd (snd st) j;
          xs \<leftarrow> wr (snd st) i y; xs \<leftarrow> wr xs j x; Some (fst st, xs) }"

text \<open>Exchange of two runs of \<open>n\<close> elements: \<open>swap_block\<close> of the C code.\<close>

fun swap_block :: "('s, 'e) sort_state \<Rightarrow> nat \<Rightarrow> nat \<Rightarrow> nat \<Rightarrow> ('s, 'e) sort_state option" where
  "swap_block st a b 0 = Some st"
| "swap_block st a b (Suc n) = do { st \<leftarrow> swap_at st a b; swap_block st (a + 1) (b + 1) n }"

subsection \<open>Heap sort\<close>

text \<open>
  The inner loops of \<open>heapsortx\<close>: sift down from \<open>r\<close> in the heap of \<open>n\<close> elements at \<open>b\<close>, towards
  the larger child.
\<close>

definition sift_child :: "('s, 'e) cmp_f \<Rightarrow> nat \<Rightarrow> nat \<Rightarrow> nat \<Rightarrow> ('s, 'e) sort_state \<Rightarrow>
    (nat \<times> ('s, 'e) sort_state) option" where
  "sift_child cmp b n c st =
     (if c < n - 1
      then do { (k, st) \<leftarrow> cmp_at cmp st (b + c) (b + c + 1); Some (if k \<le> 0 then c + 1 else c, st) }
      else Some (c, st))"

lemma sift_child_range:
  "sift_child cmp b n c st = Some (c', st') \<Longrightarrow> c < n \<Longrightarrow> c \<le> c' \<and> c' \<le> c + 1 \<and> c' < n"
  by (auto simp: sift_child_def split: if_splits bind_splits)

function sift :: "('s, 'e) cmp_f \<Rightarrow> nat \<Rightarrow> nat \<Rightarrow> nat \<Rightarrow> ('s, 'e) sort_state \<Rightarrow>
    ('s, 'e) sort_state option" where
  "sift cmp b n r st =
     (if r * 2 + 1 < n then
        do {
          (c, st) \<leftarrow> sift_child cmp b n (r * 2 + 1) st;
          (k, st) \<leftarrow> cmp_at cmp st (b + r) (b + c);
          if k > 0 then Some st
          else do { st \<leftarrow> swap_at st (b + r) (b + c); sift cmp b n c st }
        }
      else Some st)"
  by pat_completeness auto
termination
  by (relation "measure (\<lambda>(cmp, b, n, r, st). n - r)") (auto dest!: sift_child_range)

fun heapify :: "('s, 'e) cmp_f \<Rightarrow> nat \<Rightarrow> nat \<Rightarrow> nat \<Rightarrow> ('s, 'e) sort_state \<Rightarrow>
    ('s, 'e) sort_state option" where
  "heapify cmp b n 0 st = Some st"
| "heapify cmp b n (Suc i) st = do { st \<leftarrow> sift cmp b n i st; heapify cmp b n i st }"

fun heap_extract :: "('s, 'e) cmp_f \<Rightarrow> nat \<Rightarrow> nat \<Rightarrow> ('s, 'e) sort_state \<Rightarrow>
    ('s, 'e) sort_state option" where
  "heap_extract cmp b 0 st = Some st"
| "heap_extract cmp b (Suc i) st =
     do { st \<leftarrow> swap_at st b (b + Suc i); st \<leftarrow> sift cmp b (Suc i) 0 st; heap_extract cmp b i st }"

definition heapsortx :: "('s, 'e) cmp_f \<Rightarrow> nat \<Rightarrow> nat \<Rightarrow> ('s, 'e) sort_state \<Rightarrow>
    ('s, 'e) sort_state option" where
  "heapsortx cmp b nmemb st =
     (if nmemb > 1
      then do { st \<leftarrow> heapify cmp b nmemb (nmemb div 2) st; heap_extract cmp b (nmemb - 1) st }
      else Some st)"

subsection \<open>Quick sort\<close>

definition med3 :: "('s, 'e) cmp_f \<Rightarrow> nat \<Rightarrow> nat \<Rightarrow> nat \<Rightarrow> ('s, 'e) sort_state \<Rightarrow>
    (nat \<times> ('s, 'e) sort_state) option" where
  "med3 cmp a b c st =
     do {
       (k1, st) \<leftarrow> cmp_at cmp st a b;
       (k2, st) \<leftarrow> cmp_at cmp st b c;
       if k1 < 0 then
         (if k2 < 0 then Some (b, st)
          else do { (k3, st) \<leftarrow> cmp_at cmp st a c; Some (if k3 < 0 then c else a, st) })
       else
         (if k2 > 0 then Some (b, st)
          else do { (k3, st) \<leftarrow> cmp_at cmp st a c; Some (if k3 < 0 then a else c, st) })
     }"

text \<open>
  The partition of the segment at \<open>p\<close>. The C code keeps each position twice, as a count and as
  a pointer that moves with it; the model keeps the count.
\<close>

function part_left :: "('s, 'e) cmp_f \<Rightarrow> nat \<Rightarrow> nat \<Rightarrow> nat \<Rightarrow> nat \<Rightarrow> ('s, 'e) sort_state \<Rightarrow>
    (nat \<times> nat \<times> ('s, 'e) sort_state) option" where
  "part_left cmp p i lt j st =
     (if i < j then
        do {
          (c, st) \<leftarrow> cmp_at cmp st p (p + i);
          if c \<ge> 0 then
            do {
              st \<leftarrow> (if c = 0 then swap_at st (p + lt) (p + i) else Some st);
              part_left cmp p (i + 1) (if c = 0 then lt + 1 else lt) j st
            }
          else Some (i, lt, st)
        }
      else Some (i, lt, st))"
  by pat_completeness auto
termination
  by (relation "measure (\<lambda>(cmp, p, i, lt, j, st). j - i)") auto

text \<open>\<open>pj\<close> moves before the test, so it must not be at the start of the segment.\<close>

fun part_right :: "('s, 'e) cmp_f \<Rightarrow> nat \<Rightarrow> nat \<Rightarrow> nat \<Rightarrow> nat \<Rightarrow> ('s, 'e) sort_state \<Rightarrow>
    (nat \<times> nat \<times> ('s, 'e) sort_state) option" where
  "part_right cmp p i 0 gt st = None"
| "part_right cmp p i (Suc j) gt st =
     (if i < j then
        do {
          (c, st) \<leftarrow> cmp_at cmp st p (p + j);
          if c \<le> 0 then
            do {
              st \<leftarrow> (if c = 0 then swap_at st (p + (gt - 1)) (p + j) else Some st);
              part_right cmp p i j (if c = 0 then gt - 1 else gt) st
            }
          else Some (j, gt, st)
        }
      else Some (j, gt, st))"

declare sift.simps [simp del] part_left.simps [simp del]

lemma part_left_mono: "part_left cmp p i lt j st = Some (i', lt', st') \<Longrightarrow> i \<le> i'"
proof (induction cmp p i lt j st rule: part_left.induct)
  case (1 cmp p i lt j st)
  from "1.prems" show ?case
    by (subst (asm) part_left.simps) (force split: if_splits bind_splits dest: "1.IH")
qed

lemma part_right_mono: "part_right cmp p i j gt st = Some (j', gt', st') \<Longrightarrow> j' < j"
proof (induction cmp p i j gt st rule: part_right.induct)
  case (2 cmp p i j gt st)
  show ?case
  proof (cases "i < j \<and> (\<exists>c st1. cmp_at cmp st p (p + j) = Some (c, st1) \<and> c \<le> 0)")
    case False
    with "2.prems" show ?thesis by (auto split: if_splits bind_splits)
  next
    case True
    then obtain c st1 where c: "i < j" "cmp_at cmp st p (p + j) = Some (c, st1)" "c \<le> 0"
      by blast
    with "2.prems" obtain st2 where
      st2: "(if c = 0 then swap_at st1 (p + (gt - 1)) (p + j) else Some st1) = Some st2" and
      rec: "part_right cmp p i j (if c = 0 then gt - 1 else gt) st2 = Some (j', gt', st')"
      by (auto simp: bind_eq_Some_conv)
    from "2.IH" [OF c(1,2) refl c(3) st2 rec] show ?thesis by simp
  qed
qed simp

function part_loop :: "('s, 'e) cmp_f \<Rightarrow> nat \<Rightarrow> nat \<Rightarrow> nat \<Rightarrow> nat \<Rightarrow> nat \<Rightarrow> ('s, 'e) sort_state \<Rightarrow>
    (nat \<times> nat \<times> nat \<times> ('s, 'e) sort_state) option" where
  "part_loop cmp p i lt j gt st =
     do {
       (i', lt', st) \<leftarrow> part_left cmp p i lt j st;
       (j', gt', st) \<leftarrow> part_right cmp p i' j gt st;
       if i' \<ge> j' then Some (i', lt', gt', st)
       else do { st \<leftarrow> swap_at st (p + i') (p + j'); part_loop cmp p (i' + 1) lt' j' gt' st }
     }"
  by pat_completeness auto
termination
proof (relation "measure (\<lambda>(cmp, p, i, lt, j, gt, st). j - i)", goal_cases)
  case 1
  then show ?case by simp
next
  case (2 cmp p i lt j gt st x i' y lt' st1 x1 j' y1 gt' st2 st3)
  then show ?case
    by (auto dest!: part_left_mono part_right_mono)
qed

declare part_loop.simps [simp del]

text \<open>
  One partition of the \<open>n\<close> elements at \<open>p\<close>: the sizes of the part below the pivot and of the
  part up to the end of the pivot's equals.
\<close>

definition rq_partition :: "('s, 'e) cmp_f \<Rightarrow> nat \<Rightarrow> nat \<Rightarrow> ('s, 'e) sort_state \<Rightarrow>
    (nat \<times> nat \<times> ('s, 'e) sort_state) option" where
  "rq_partition cmp p n st =
     (let m4 = n div 4 in
      do {
        (m, st) \<leftarrow> med3 cmp (p + m4) (p + 2 * m4) (p + 3 * m4) st;
        st \<leftarrow> swap_at st p m;
        (i, lt, gt, st) \<leftarrow> part_loop cmp p 1 1 n n st;
        let span = min lt (i - lt);
        st \<leftarrow> swap_block st p (p + i - span) span;
        let span = min (n - gt) (gt - i);
        st \<leftarrow> swap_block st (p + i) (p + n - span) span;
        Some (i - lt, n - (gt - i), st)
      })"

text \<open>Insertion sort of a small segment.\<close>

fun insert_down :: "('s, 'e) cmp_f \<Rightarrow> nat \<Rightarrow> nat \<Rightarrow> ('s, 'e) sort_state \<Rightarrow>
    ('s, 'e) sort_state option" where
  "insert_down cmp p 0 st = Some st"
| "insert_down cmp p (Suc j) st =
     do {
       (c, st) \<leftarrow> cmp_at cmp st (p + j) (p + Suc j);
       if c > 0 then do { st \<leftarrow> swap_at st (p + Suc j) (p + j); insert_down cmp p j st }
       else Some st
     }"

function insertion :: "('s, 'e) cmp_f \<Rightarrow> nat \<Rightarrow> nat \<Rightarrow> nat \<Rightarrow> ('s, 'e) sort_state \<Rightarrow>
    ('s, 'e) sort_state option" where
  "insertion cmp p n i st =
     (if i < n then do { st \<leftarrow> insert_down cmp p i st; insertion cmp p n (i + 1) st } else Some st)"
  by pat_completeness auto
termination
  by (relation "measure (\<lambda>(cmp, p, n, i, st). n - i)") auto

declare insertion.simps [simp del]

subsection \<open>Bounds of the partition\<close>

lemma part_left_bounds:
  "part_left cmp p i lt j st = Some (i', lt', st') \<Longrightarrow> i' \<le> max i j \<and> lt \<le> lt' \<and> lt' - lt \<le> i' - i"
proof (induction cmp p i lt j st rule: part_left.induct)
  case (1 cmp p i lt j st)
  show ?case
  proof (cases "i < j \<and> (\<exists>c st1. cmp_at cmp st p (p + i) = Some (c, st1) \<and> c \<ge> 0)")
    case False
    with "1.prems" show ?thesis
      by (subst (asm) part_left.simps) (auto split: if_splits bind_splits)
  next
    case True
    then obtain c st1 where c: "i < j" "cmp_at cmp st p (p + i) = Some (c, st1)" "c \<ge> 0"
      by blast
    with "1.prems" obtain st2 where
      st2: "(if c = 0 then swap_at st1 (p + lt) (p + i) else Some st1) = Some st2" and
      rec: "part_left cmp p (i + 1) (if c = 0 then lt + 1 else lt) j st2 = Some (i', lt', st')"
      by (subst (asm) part_left.simps) (auto simp: bind_eq_Some_conv)
    from "1.IH" [OF c(1,2) refl c(3) st2 rec] part_left_mono [OF rec] c(1)
    show ?thesis by (auto split: if_splits)
  qed
qed

lemma part_right_bounds: "part_right cmp p i j gt st = Some (j', gt', st') \<Longrightarrow> gt' \<le> gt"
proof (induction cmp p i j gt st rule: part_right.induct)
  case (2 cmp p i j gt st)
  show ?case
  proof (cases "i < j \<and> (\<exists>c st1. cmp_at cmp st p (p + j) = Some (c, st1) \<and> c \<le> 0)")
    case False
    with "2.prems" show ?thesis by (auto split: if_splits bind_splits)
  next
    case True
    then obtain c st1 where c: "i < j" "cmp_at cmp st p (p + j) = Some (c, st1)" "c \<le> 0"
      by blast
    with "2.prems" obtain st2 where
      st2: "(if c = 0 then swap_at st1 (p + (gt - 1)) (p + j) else Some st1) = Some st2" and
      rec: "part_right cmp p i j (if c = 0 then gt - 1 else gt) st2 = Some (j', gt', st')"
      by (auto simp: bind_eq_Some_conv)
    from "2.IH" [OF c(1,2) refl c(3) st2 rec] show ?thesis by (auto split: if_splits)
  qed
qed simp

lemma part_loop_bounds:
  "part_loop cmp p i lt j gt st = Some (i', lt', gt', st') \<Longrightarrow>
     lt \<le> lt' \<and> gt' \<le> gt \<and> i \<le> i' \<and> i' \<le> max i j"
proof (induction cmp p i lt j gt st rule: part_loop.induct)
  case (1 cmp p i lt j gt st)
  from "1.prems" obtain i1 lt1 st1 j1 gt1 st2 where
    l: "part_left cmp p i lt j st = Some (i1, lt1, st1)" and
    r: "part_right cmp p i1 j gt st1 = Some (j1, gt1, st2)" and
    e: "(if i1 \<ge> j1 then Some (i1, lt1, gt1, st2)
         else do { st \<leftarrow> swap_at st2 (p + i1) (p + j1); part_loop cmp p (i1 + 1) lt1 j1 gt1 st })
        = Some (i', lt', gt', st')"
    by (subst (asm) part_loop.simps) (auto simp: bind_eq_Some_conv)
  note b = part_left_bounds [OF l] part_left_mono [OF l] part_right_bounds [OF r] part_right_mono [OF r]
  show ?case
  proof (cases "i1 \<ge> j1")
    case True
    with e b show ?thesis by auto
  next
    case False
    with e obtain st3 where
      s: "swap_at st2 (p + i1) (p + j1) = Some st3"
         "part_loop cmp p (i1 + 1) lt1 j1 gt1 st3 = Some (i', lt', gt', st')"
      by (auto simp: bind_eq_Some_conv)
    from "1.IH" [OF l refl refl r refl refl False s] b False show ?thesis by auto
  qed
qed

text \<open>Whatever the comparator does, the two parts left to sort lack at least the pivot.\<close>

lemma rq_partition_shrinks:
  assumes "rq_partition cmp p n st = Some (lt, gt, st')" and "0 < n"
  shows "lt + (n - gt) < n"
proof -
  from assms(1) obtain st1 i lt1 gt1 st2 where
    "part_loop cmp p 1 1 n n st1 = Some (i, lt1, gt1, st2)" "lt = i - lt1" "gt = n - (gt1 - i)"
    by (auto simp: rq_partition_def Let_def bind_eq_Some_conv)
  with part_loop_bounds [of cmp p 1 1 n n st1 i lt1 gt1 st2] assms(2) show ?thesis by auto
qed

text \<open>
  The loops of \<open>rqsort\<close>: the segment in hand (position, count, depth), the segment stack of
  fifty entries, top first. A push on a full stack would write outside the array \<open>stack\<close>.
\<close>

type_synonym segment = "nat \<times> nat \<times> nat"

fun seg_weight :: "segment \<Rightarrow> nat" where
  "seg_weight (p, n, d) = 2 * n + 1"

function rqsort_loop :: "('s, 'e) cmp_f \<Rightarrow> segment \<Rightarrow> segment list \<Rightarrow> ('s, 'e) sort_state \<Rightarrow>
    ('s, 'e) sort_state option" where
  "rqsort_loop cmp (p, n, depth) stack st =
     (if n > 6 \<and> depth + 1 \<le> 50 then
        do {
          (lt, gt, st) \<leftarrow> rq_partition cmp p n st;
          if length stack \<ge> 50 then None
          else if lt > n - gt
          then rqsort_loop cmp (p + gt, n - gt, depth + 1) ((p, lt, depth + 1) # stack) st
          else rqsort_loop cmp (p, lt, depth + 1) ((p + gt, n - gt, depth + 1) # stack) st
        }
      else
        do {
          st \<leftarrow> (if n > 6 then heapsortx cmp p n st else Some st);
          st \<leftarrow> insertion cmp p (if n > 6 then 0 else n) 1 st;
          (case stack of [] \<Rightarrow> Some st | seg # stack \<Rightarrow> rqsort_loop cmp seg stack st)
        })"
  by pat_completeness auto
termination
proof (relation "measure (\<lambda>(cmp, seg, stack, st). seg_weight seg + sum_list (map seg_weight stack))",
    goal_cases)
  case (2 cmp p n depth stack st x lt y gt st1)
  from rq_partition_shrinks [of cmp p n st lt gt st1] 2 show ?case by auto
next
  case (3 cmp p n depth stack st x lt y gt st1)
  from rq_partition_shrinks [of cmp p n st lt gt st1] 3 show ?case by auto
next
  case (4 cmp p n depth stack st st1 st2 seg stack1)
  then show ?case by (cases seg) auto
qed simp

declare rqsort_loop.simps [simp del]

text \<open>\<open>rqsort\<close> itself, for elements of at least one byte.\<close>

definition rqsort :: "('s, 'e) cmp_f \<Rightarrow> 's \<Rightarrow> 'e list \<Rightarrow> ('s, 'e) sort_state option" where
  "rqsort cmp s xs =
     (if length xs < 2 then Some (s, xs) else rqsort_loop cmp (0, length xs, 0) [] (s, xs))"

subsection \<open>Permutations of a segment\<close>

definition seg_perm :: "nat \<Rightarrow> nat \<Rightarrow> 'a list \<Rightarrow> 'a list \<Rightarrow> bool" where
  "seg_perm a b xs ys \<longleftrightarrow>
     length ys = length xs \<and> mset ys = mset xs \<and>
     (\<forall>k < length xs. k < a \<or> b \<le> k \<longrightarrow> ys ! k = xs ! k)"

lemma seg_perm_refl [simp, intro]: "seg_perm a b xs xs"
  by (simp add: seg_perm_def)

lemma seg_perm_trans [trans]: "seg_perm a b xs ys \<Longrightarrow> seg_perm a b ys zs \<Longrightarrow> seg_perm a b xs zs"
  by (simp add: seg_perm_def)

lemma seg_perm_mono: "seg_perm a b xs ys \<Longrightarrow> a' \<le> a \<Longrightarrow> b \<le> b' \<Longrightarrow> seg_perm a' b' xs ys"
  by (auto simp: seg_perm_def)

lemma seg_perm_length: "seg_perm a b xs ys \<Longrightarrow> length ys = length xs"
  by (simp add: seg_perm_def)

lemma seg_perm_nth: "seg_perm a b xs ys \<Longrightarrow> k < length xs \<Longrightarrow> k < a \<or> b \<le> k \<Longrightarrow> ys ! k = xs ! k"
  by (auto simp: seg_perm_def)

lemma seg_perm_swap:
  "a \<le> i \<Longrightarrow> i < b \<Longrightarrow> a \<le> j \<Longrightarrow> j < b \<Longrightarrow> b \<le> length xs \<Longrightarrow> seg_perm a b xs (swap xs i j)"
  by (auto simp: seg_perm_def nth_swap)

text \<open>The elements of the segment stay in the segment.\<close>

lemma seg_perm_inside:
  assumes "seg_perm a b xs ys" and "b \<le> length xs" and "a \<le> k" and "k < b"
  shows "\<exists>l. a \<le> l \<and> l < b \<and> ys ! k = xs ! l"
proof -
  let ?sub = "\<lambda>zs. take (b - a) (drop a zs)"
  have split: "mset zs = mset (take a zs) + mset (?sub zs) + mset (drop b zs)" if "b \<le> length zs" for zs :: "'a list"
  proof -
    have "zs = take a zs @ ?sub zs @ drop b zs"
      using that assms(3,4) by (metis append_take_drop_id drop_drop le_add_diff_inverse2 less_imp_le_nat order.trans)
    then show ?thesis by (metis mset_append union_assoc)
  qed
  have "take a ys = take a xs" "drop b ys = drop b xs"
    using assms by (auto simp: seg_perm_def intro!: nth_equalityI)
  moreover have "mset ys = mset xs" "length ys = length xs" using assms by (auto simp: seg_perm_def)
  ultimately have "mset (?sub ys) = mset (?sub xs)"
    using split [of xs] split [of ys] assms(2) by simp
  then have "set (?sub ys) = set (?sub xs)" by (rule mset_eq_setD)
  moreover have "ys ! k \<in> set (?sub ys)"
    using assms \<open>length ys = length xs\<close>
    by (intro in_set_conv_nth [THEN iffD2] exI [of _ "k - a"]) auto
  ultimately obtain m where "m < b - a" "xs ! (a + m) = ys ! k"
    using assms(2) by (auto simp: in_set_conv_nth)
  then show ?thesis by (intro exI [of _ "a + m"]) auto
qed

subsection \<open>Safety for any comparator\<close>

lemma cmp_at_ok [mem_simps]:
  "i < length xs \<Longrightarrow> j < length xs \<Longrightarrow>
   cmp_at cmp (s, xs) i j = Some (fst (cmp s (xs ! i) (xs ! j)), (snd (cmp s (xs ! i) (xs ! j)), xs))"
  by (simp add: cmp_at_def case_prod_beta)

lemma swap_at_ok [mem_simps]:
  "i < length xs \<Longrightarrow> j < length xs \<Longrightarrow> swap_at (s, xs) i j = Some (s, swap xs i j)"
  by (simp add: swap_at_def swap_def)

text \<open>A step that returns, with the array permuted inside a segment only.\<close>

definition runs :: "nat \<Rightarrow> nat \<Rightarrow> 'e list \<Rightarrow> ('s, 'e) sort_state option \<Rightarrow> bool" where
  "runs a b xs r \<longleftrightarrow> (\<exists>st'. r = Some st' \<and> seg_perm a b xs (snd st'))"

lemma runs_Some [simp]: "runs a b xs (Some st') \<longleftrightarrow> seg_perm a b xs (snd st')"
  by (simp add: runs_def)

lemma runs_bind:
  assumes "runs a b xs r"
    and "\<And>st'. seg_perm a b xs (snd st') \<Longrightarrow> r = Some st' \<Longrightarrow> runs a b (snd st') (f st')"
  shows "runs a b xs (Option.bind r f)"
  using assms by (fastforce simp: runs_def intro: seg_perm_trans)

lemma runs_mono: "runs a b xs r \<Longrightarrow> a' \<le> a \<Longrightarrow> b \<le> b' \<Longrightarrow> runs a' b' xs r"
  using seg_perm_mono by (fastforce simp: runs_def)

lemma runs_swap_at:
  "a \<le> i \<Longrightarrow> i < b \<Longrightarrow> a \<le> j \<Longrightarrow> j < b \<Longrightarrow> b \<le> length (snd st) \<Longrightarrow> runs a b (snd st) (swap_at st i j)"
  by (cases st) (simp add: mem_simps seg_perm_swap)

lemma sift_child_ok:
  "c < n \<Longrightarrow> b + n \<le> length xs \<Longrightarrow>
   \<exists>c' s'. sift_child cmp b n c (s, xs) = Some (c', (s', xs)) \<and> c \<le> c' \<and> c' < n"
  by (cases "c < n - 1") (auto simp: sift_child_def mem_simps)

lemma sift_runs:
  "r < n \<Longrightarrow> b + n \<le> length (snd st) \<Longrightarrow> runs b (b + n) (snd st) (sift cmp b n r st)"
proof (induction "n - r" arbitrary: r st rule: less_induct)
  case less
  obtain s xs where st: "st = (s, xs)" by (cases st)
  show ?case
  proof (cases "r * 2 + 1 < n")
    case False
    then show ?thesis by (subst sift.simps) simp
  next
    case True
    then obtain c s1 where c: "sift_child cmp b n (r * 2 + 1) (s, xs) = Some (c, (s1, xs))"
        "r * 2 + 1 \<le> c" "c < n"
      using less.prems st sift_child_ok [of "r * 2 + 1" n b xs cmp s] by auto
    have "runs b (b + n) xs (sift cmp b n c (s2, swap xs (b + r) (b + c)))" for s2
      using less.hyps [of c "(s2, swap xs (b + r) (b + c))"] c less.prems st
        seg_perm_swap [of b "b + r" "b + n" "b + c" xs]
      by (fastforce simp: runs_def intro: seg_perm_trans)
    then show ?thesis
      using True c less.prems st by (subst sift.simps) (simp add: mem_simps)
  qed
qed

lemma heapify_runs:
  "i \<le> n \<Longrightarrow> b + n \<le> length (snd st) \<Longrightarrow> runs b (b + n) (snd st) (heapify cmp b n i st)"
proof (induction i arbitrary: st)
  case (Suc i)
  then show ?case
    by (auto intro!: runs_bind sift_runs dest: seg_perm_length)
qed simp

lemma heap_extract_runs:
  "b + i < length (snd st) \<Longrightarrow> b + i < c \<Longrightarrow> c \<le> length (snd st) \<Longrightarrow> runs b c (snd st) (heap_extract cmp b i st)"
proof (induction i arbitrary: st)
  case (Suc i)
  have "runs b c (snd st') (sift cmp b (Suc i) 0 st')" if "length (snd st') = length (snd st)" for st'
    using sift_runs [of 0 "Suc i" b st' cmp] Suc.prems that
    by (auto elim: runs_mono)
  then show ?case
    using Suc.prems by (auto intro!: runs_bind runs_swap_at Suc.IH dest!: seg_perm_length)
qed simp

lemma heapsortx_runs:
  "b + n \<le> length (snd st) \<Longrightarrow> runs b (b + n) (snd st) (heapsortx cmp b n st)"
  by (auto simp: heapsortx_def intro!: runs_bind heapify_runs heap_extract_runs dest!: seg_perm_length)

lemma insert_down_runs:
  "j < n \<Longrightarrow> p + n \<le> length (snd st) \<Longrightarrow> runs p (p + n) (snd st) (insert_down cmp p j st)"
proof (induction j arbitrary: st)
  case (Suc j)
  have "runs p (p + n) (snd st)
      (do { st \<leftarrow> swap_at (s, snd st) (p + Suc j) (p + j); insert_down cmp p j st })" for s
    using Suc.prems runs_swap_at [of p "p + Suc j" "p + n" "p + j" "(s, snd st)"]
    by (intro runs_bind Suc.IH) (auto dest: seg_perm_length)
  then show ?case
    using Suc.prems by (cases st) (auto simp: mem_simps)
qed simp

lemma insertion_runs:
  "p + n \<le> length (snd st) \<Longrightarrow> runs p (p + n) (snd st) (insertion cmp p n i st)"
proof (induction "n - i" arbitrary: i st rule: less_induct)
  case less
  then show ?case
    by (subst insertion.simps) (auto intro!: runs_bind insert_down_runs less.hyps dest: seg_perm_length)
qed

lemma swap_block_runs:
  "a \<le> i \<Longrightarrow> i + k \<le> b \<Longrightarrow> a \<le> j \<Longrightarrow> j + k \<le> b \<Longrightarrow> b \<le> length (snd st) \<Longrightarrow>
   runs a b (snd st) (swap_block st i j k)"
proof (induction k arbitrary: i j st)
  case (Suc k)
  then show ?case
    by (auto intro!: runs_bind runs_swap_at Suc.IH dest: seg_perm_length)
qed simp
lemma med3_ok:
  "a < length xs \<Longrightarrow> b < length xs \<Longrightarrow> c < length xs \<Longrightarrow>
   \<exists>m s'. med3 cmp a b c (s, xs) = Some (m, (s', xs)) \<and> m \<in> {a, b, c}"
  by (simp add: med3_def mem_simps)

lemma part_left_ok:
  assumes "i \<le> j" and "1 \<le> lt" and "lt \<le> i" and "p + j \<le> length xs"
  shows "\<exists>i' lt' s' xs'. part_left cmp p i lt j (s, xs) = Some (i', lt', (s', xs')) \<and>
           i \<le> i' \<and> i' \<le> j \<and> 1 \<le> lt' \<and> lt' \<le> i' \<and> seg_perm (p + 1) (p + j) xs xs'"
  using assms
proof (induction "j - i" arbitrary: i lt s xs rule: less_induct)
  case less
  show ?case
  proof (cases "i < j")
    case False
    with less.prems show ?thesis by (subst part_left.simps) auto
  next
    case True
    let ?c = "fst (cmp s (xs ! p) (xs ! (p + i)))" and ?s = "snd (cmp s (xs ! p) (xs ! (p + i)))"
    let ?xs = "if ?c = 0 then swap xs (p + lt) (p + i) else xs"
    let ?lt = "if ?c = 0 then lt + 1 else lt"
    have perm: "seg_perm (p + 1) (p + j) xs ?xs"
      using less.prems True by (auto intro!: seg_perm_swap)
    have eq: "part_left cmp p i lt j (s, xs) =
        (if ?c \<ge> 0 then part_left cmp p (i + 1) ?lt j (?s, ?xs) else Some (i, lt, (?s, xs)))"
      using less.prems True by (subst part_left.simps) (auto simp: mem_simps)
    have "\<exists>i' lt' s' xs'. part_left cmp p (i + 1) ?lt j (?s, ?xs) = Some (i', lt', (s', xs')) \<and>
           i + 1 \<le> i' \<and> i' \<le> j \<and> 1 \<le> lt' \<and> lt' \<le> i' \<and> seg_perm (p + 1) (p + j) ?xs xs'"
      using less.prems True perm
      by (intro less.hyps) (auto dest: seg_perm_length)
    with perm less.prems True show ?thesis
      unfolding eq by (cases "?c \<ge> 0") (fastforce intro: seg_perm_trans)+
  qed
qed

lemma part_right_ok:
  assumes "1 \<le> i" and "i \<le> j" and "j \<le> gt" and "gt \<le> n" and "p + n \<le> length xs"
  shows "\<exists>j' gt' s' xs'. part_right cmp p i j gt (s, xs) = Some (j', gt', (s', xs')) \<and>
           i \<le> Suc j' \<and> Suc j' \<le> j \<and> Suc j' \<le> gt' \<and> gt' \<le> gt \<and> seg_perm (p + 1) (p + n) xs xs'"
  using assms
proof (induction j arbitrary: gt s xs)
  case (Suc j)
  show ?case
  proof (cases "i < j")
    case False
    with Suc.prems show ?thesis by auto
  next
    case True
    let ?c = "fst (cmp s (xs ! p) (xs ! (p + j)))" and ?s = "snd (cmp s (xs ! p) (xs ! (p + j)))"
    let ?xs = "if ?c = 0 then swap xs (p + (gt - 1)) (p + j) else xs"
    let ?gt = "if ?c = 0 then gt - 1 else gt"
    have perm: "seg_perm (p + 1) (p + n) xs ?xs"
      using Suc.prems True by (auto intro!: seg_perm_swap)
    have eq: "part_right cmp p i (Suc j) gt (s, xs) =
        (if ?c \<le> 0 then part_right cmp p i j ?gt (?s, ?xs) else Some (j, gt, (?s, xs)))"
      using Suc.prems True by (auto simp: mem_simps)
    have "\<exists>j' gt' s' xs'. part_right cmp p i j ?gt (?s, ?xs) = Some (j', gt', (s', xs')) \<and>
           i \<le> Suc j' \<and> Suc j' \<le> j \<and> Suc j' \<le> gt' \<and> gt' \<le> ?gt \<and> seg_perm (p + 1) (p + n) ?xs xs'"
      using Suc.prems True perm
      by (intro Suc.IH) (auto dest: seg_perm_length)
    with perm Suc.prems True show ?thesis
      unfolding eq by (cases "?c \<le> 0") (fastforce intro: seg_perm_trans split: if_splits)+
  qed
qed simp

lemma part_loop_ok:
  assumes "1 \<le> lt" and "lt \<le> i" and "i \<le> j" and "j \<le> gt" and "gt \<le> n" and "p + n \<le> length xs"
  shows "\<exists>i' lt' gt' s' xs'. part_loop cmp p i lt j gt (s, xs) = Some (i', lt', gt', (s', xs')) \<and>
           1 \<le> lt' \<and> lt' \<le> i' \<and> i' \<le> gt' \<and> gt' \<le> n \<and> seg_perm (p + 1) (p + n) xs xs'"
  using assms
proof (induction "j - i" arbitrary: i lt j gt s xs rule: less_induct)
  case less
  obtain i1 lt1 s1 xs1 where
    l: "part_left cmp p i lt j (s, xs) = Some (i1, lt1, (s1, xs1))" "i \<le> i1" "i1 \<le> j" "1 \<le> lt1"
       "lt1 \<le> i1" "seg_perm (p + 1) (p + j) xs xs1"
    using part_left_ok [of i j lt p xs cmp s] less.prems by auto
  have len1: "length xs1 = length xs" and perm1: "seg_perm (p + 1) (p + n) xs xs1"
    using seg_perm_length [OF l(6)] seg_perm_mono [OF l(6), of "p + 1" "p + n"] less.prems by auto
  obtain j1 gt1 s2 xs2 where
    r: "part_right cmp p i1 j gt (s1, xs1) = Some (j1, gt1, (s2, xs2))" "i1 \<le> Suc j1" "Suc j1 \<le> j"
       "Suc j1 \<le> gt1" "gt1 \<le> gt" "seg_perm (p + 1) (p + n) xs1 xs2"
    using part_right_ok [of i1 j gt n p xs1 cmp s1] l less.prems len1 by auto
  have len2: "length xs2 = length xs" and perm2: "seg_perm (p + 1) (p + n) xs xs2"
    using seg_perm_length [OF r(6)] len1 seg_perm_trans [OF perm1 r(6)] by auto
  show ?case
  proof (cases "i1 \<ge> j1")
    case True
    with l r perm2 less.prems show ?thesis by (subst part_loop.simps) auto
  next
    case False
    have perm3: "seg_perm (p + 1) (p + n) xs2 (swap xs2 (p + i1) (p + j1))"
      using False l r less.prems len2 by (intro seg_perm_swap) auto
    have "j1 - (i1 + 1) < j - i" using False l r by linarith
    from this less.hyps [of j1 "i1 + 1" lt1 gt1 "swap xs2 (p + i1) (p + j1)" s2] False l r less.prems len2
    obtain i' lt' gt' s' xs' where
      "part_loop cmp p (i1 + 1) lt1 j1 gt1 (s2, swap xs2 (p + i1) (p + j1)) =
         Some (i', lt', gt', (s', xs'))" and b: "1 \<le> lt' \<and> lt' \<le> i' \<and> i' \<le> gt' \<and> gt' \<le> n" and
      perm4: "seg_perm (p + 1) (p + n) (swap xs2 (p + i1) (p + j1)) xs'"
      by auto
    then have "part_loop cmp p i lt j gt (s, xs) = Some (i', lt', gt', (s', xs'))"
      using False l r less.prems len2 by (subst part_loop.simps) (auto simp: mem_simps)
    with b show ?thesis
      using seg_perm_trans [OF perm2 seg_perm_trans [OF perm3 perm4]] by auto
  qed
qed

lemma rq_partition_ok:
  assumes "6 < n" and "p + n \<le> length xs"
  shows "\<exists>lt gt s' xs'. rq_partition cmp p n (s, xs) = Some (lt, gt, (s', xs')) \<and>
           lt < gt \<and> gt \<le> n \<and> seg_perm p (p + n) xs xs'"
proof -
  let ?m = "n div 4"
  have mlen: "p + 3 * ?m < length xs" using assms by linarith
  obtain m s1 where m: "med3 cmp (p + ?m) (p + 2 * ?m) (p + 3 * ?m) (s, xs) = Some (m, (s1, xs))"
      "m \<in> {p + ?m, p + 2 * ?m, p + 3 * ?m}"
    using med3_ok [of "p + ?m" xs "p + 2 * ?m" "p + 3 * ?m" cmp s] assms mlen by auto
  let ?xs1 = "swap xs p m"
  have mb: "p \<le> m" "m < p + n" using m(2) assms by auto
  have p1: "seg_perm p (p + n) xs ?xs1" using mb assms by (intro seg_perm_swap) auto
  obtain i lt gt s2 xs2 where
    l: "part_loop cmp p 1 1 n n (s1, ?xs1) = Some (i, lt, gt, (s2, xs2))" "1 \<le> lt" "lt \<le> i" "i \<le> gt"
       "gt \<le> n" "seg_perm (p + 1) (p + n) ?xs1 xs2"
    using part_loop_ok [of 1 1 n n n p ?xs1 cmp s1] assms by auto
  have p2: "seg_perm p (p + n) ?xs1 xs2" using l(6) by (rule seg_perm_mono) auto
  have len2: "length xs2 = length xs" using p1 p2 by (auto dest!: seg_perm_length)
  let ?k = "min lt (i - lt)" and ?k2 = "min (n - gt) (gt - i)"
  have "runs p (p + n) xs2 (swap_block (s2, xs2) p (p + i - ?k) ?k)"
    using swap_block_runs [of p p ?k "p + n" "p + i - ?k" "(s2, xs2)"] l assms len2 by auto
  then obtain s3 xs3 where b1: "swap_block (s2, xs2) p (p + i - ?k) ?k = Some (s3, xs3)"
      "seg_perm p (p + n) xs2 xs3"
    by (auto simp: runs_def)
  have len3: "length xs3 = length xs" using b1(2) len2 by (auto dest!: seg_perm_length)
  have "runs p (p + n) xs3 (swap_block (s3, xs3) (p + i) (p + n - ?k2) ?k2)"
    using swap_block_runs [of p "p + i" ?k2 "p + n" "p + n - ?k2" "(s3, xs3)"] l assms len3 by auto
  then obtain s4 xs4 where b2: "swap_block (s3, xs3) (p + i) (p + n - ?k2) ?k2 = Some (s4, xs4)"
      "seg_perm p (p + n) xs3 xs4"
    by (auto simp: runs_def)
  have "rq_partition cmp p n (s, xs) = Some (i - lt, n - (gt - i), (s4, xs4))"
    using m l b1 b2 mb assms by (simp add: rq_partition_def mem_simps)
  moreover have "i - lt < n - (gt - i)" using l assms by auto
  moreover have "seg_perm p (p + n) xs xs4"
    using p1 p2 b1(2) b2(2) seg_perm_trans by blast
  ultimately show ?thesis by auto
qed

text \<open>
  Entries of the segment stack have depths that grow from the bottom to the top, and the
  segment in hand is at least as deep as the stack is high.
\<close>

fun depth_ok :: "segment list \<Rightarrow> bool" where
  "depth_ok [] = True"
| "depth_ok ((p, n, d) # stack) = (length stack < d \<and> depth_ok stack)"

definition segs_in :: "segment list \<Rightarrow> nat \<Rightarrow> bool" where
  "segs_in stack len \<longleftrightarrow> (\<forall>(p, n, d) \<in> set stack. p + n \<le> len)"

lemma segs_in_simps [simp]:
  "segs_in [] len" "segs_in ((p, n, d) # stack) len \<longleftrightarrow> p + n \<le> len \<and> segs_in stack len"
  by (auto simp: segs_in_def)

lemma rqsort_leaf_runs:
  assumes "p + n \<le> length (snd st)"
  shows "runs p (p + n) (snd st)
     (do { st \<leftarrow> (if n > 6 then heapsortx cmp p n st else Some st);
           insertion cmp p (if n > 6 then 0 else n) 1 st })"
proof (cases "n > 6")
  case True
  have "insertion cmp p 0 1 st' = Some st'" for st' by (subst insertion.simps) simp
  with True show ?thesis using heapsortx_runs [OF assms] by simp
next
  case False
  with insertion_runs [OF assms] show ?thesis by simp
qed

lemma rqsort_loop_runs:
  assumes "depth_ok stack" and "length stack \<le> d" and "p + n \<le> length (snd st)"
    and "segs_in stack (length (snd st))"
  shows "runs 0 (length (snd st)) (snd st) (rqsort_loop cmp (p, n, d) stack st)"
  using assms
proof (induction cmp "(p, n, d)" stack st arbitrary: p n d rule: rqsort_loop.induct)
  case (1 cmp p n d stack st)
  obtain s xs where st: "st = (s, xs)" by (cases st)
  show ?case
  proof (cases "n > 6 \<and> d + 1 \<le> 50")
    case True
    with "1.prems" st obtain lt gt s' xs' where
      q: "rq_partition cmp p n (s, xs) = Some (lt, gt, (s', xs'))" "lt < gt" "gt \<le> n"
         "seg_perm p (p + n) xs xs'"
      using rq_partition_ok [of n p xs cmp s] by auto
    have len: "length xs' = length xs" using q(4) by (rule seg_perm_length)
    have "seg_perm 0 (length xs) xs xs'" using q(4) "1.prems" st by (auto elim: seg_perm_mono)
    then show ?thesis
      using True "1.prems" st q len
        "1.hyps"(1) [OF True q(1) [folded st] refl refl]
        "1.hyps"(2) [OF True q(1) [folded st] refl refl]
      by (subst rqsort_loop.simps) (auto simp: runs_def intro: seg_perm_trans)
  next
    case False
    let ?r1 = "if n > 6 then heapsortx cmp p n st else Some st"
    obtain st1 st2 where
      r1: "?r1 = Some st1" and r2: "insertion cmp p (if n > 6 then 0 else n) 1 st1 = Some st2" and
      perm: "seg_perm p (p + n) (snd st) (snd st2)"
      using rqsort_leaf_runs [of p n st cmp] "1.prems" by (auto simp: runs_def bind_eq_Some_conv)
    have perm0: "seg_perm 0 (length (snd st)) (snd st) (snd st2)"
      using perm "1.prems" by (auto elim: seg_perm_mono)
    show ?thesis
    proof (cases stack)
      case Nil
      with False r1 r2 perm0 show ?thesis
        by (subst rqsort_loop.simps) (cases st2, auto simp: runs_def)
    next
      case (Cons seg rest)
      obtain p' n' d' where seg: "seg = (p', n', d')" by (cases seg)
      have "runs 0 (length (snd st2)) (snd st2) (rqsort_loop cmp seg rest st2)"
        unfolding seg using "1.prems" Cons seg seg_perm_length [OF perm0]
        by (intro "1.hyps"(3) [OF False r1 r2 Cons [unfolded seg]]) auto
      with False r1 r2 perm0 Cons show ?thesis
        by (subst rqsort_loop.simps) (auto simp: runs_def seg_perm_length [OF perm0] intro: seg_perm_trans)
    qed
  qed
qed

lemma rqsort_runs: "runs 0 (length xs) xs (rqsort cmp s xs)"
proof (cases "length xs < 2")
  case True
  then show ?thesis by (simp add: rqsort_def)
next
  case False
  then show ?thesis
    using rqsort_loop_runs [of "[]" 0 0 "length xs" "(s, xs)" cmp] by (simp add: rqsort_def)
qed

text \<open>
  Claim C1. For every comparator, even an inconsistent one or one that changes its own state at
  each call, and every array, \<open>rqsort\<close> returns: it never touches memory outside the array,
  never pushes more than fifty entries on its segment stack, and leaves a permutation of the
  array.
\<close>

theorem rqsort_safe: "\<exists>s' ys. rqsort cmp s xs = Some (s', ys) \<and> mset ys = mset xs"
  using rqsort_runs [of xs cmp s] by (auto simp: runs_def seg_perm_def)

end
