(* ===== verification/Exchange.thy ===== *)
theory Exchange
  imports Rqsort
begin

text \<open>
  The byte-level exchange routines of \<open>cutils.c\<close> that \<open>rqsort\<close> and \<open>heapsortx\<close> call through a
  function pointer chosen by \<open>exchange_func\<close> from the alignment of the array and of the element
  size. An access of \<open>k\<close> bytes through a \<open>uint16_t\<close>, \<open>uint32_t\<close> or \<open>uint64_t\<close> pointer is checked
  for its bounds and for its alignment: the array starts at the address \<open>base\<close>.
\<close>

subsection \<open>Definitions\<close>

definition ld :: "nat \<Rightarrow> nat \<Rightarrow> u8 list \<Rightarrow> nat \<Rightarrow> u8 list option" where
  "ld base k m p = (if (base + p) mod k = 0 then rdn m p k else None)"

definition st :: "nat \<Rightarrow> nat \<Rightarrow> u8 list \<Rightarrow> nat \<Rightarrow> u8 list \<Rightarrow> u8 list option" where
  "st base k m p v = (if (base + p) mod k = 0 \<and> length v = k then wrn m p v else None)"

definition exchange_unit :: "nat \<Rightarrow> nat \<Rightarrow> u8 list \<Rightarrow> nat \<Rightarrow> nat \<Rightarrow> u8 list option" where
  "exchange_unit base k m ap bp =
     do { t \<leftarrow> ld base k m ap; u \<leftarrow> ld base k m bp; m \<leftarrow> st base k m ap u; st base k m bp t }"

fun exchange_loop :: "nat \<Rightarrow> nat \<Rightarrow> nat \<Rightarrow> u8 list \<Rightarrow> nat \<Rightarrow> nat \<Rightarrow> u8 list option" where
  "exchange_loop base k 0 m ap bp = Some m"
| "exchange_loop base k (Suc n) m ap bp =
     do { m \<leftarrow> exchange_unit base k m ap bp; exchange_loop base k n m (ap + k) (bp + k) }"

type_synonym exchange_f = "nat \<Rightarrow> u8 list \<Rightarrow> nat \<Rightarrow> nat \<Rightarrow> nat \<Rightarrow> u8 list option"

definition exchange_bytes :: exchange_f where
  "exchange_bytes base m a b size_arg = exchange_loop base 1 size_arg m a b"

definition exchange_one_byte :: exchange_f where
  "exchange_one_byte base m a b size_arg = exchange_unit base 1 m a b"

definition exchange_int16s :: exchange_f where
  "exchange_int16s base m a b size_arg = exchange_loop base 2 (size_arg div 2) m a b"

definition exchange_one_int16 :: exchange_f where
  "exchange_one_int16 base m a b size_arg = exchange_unit base 2 m a b"

definition exchange_int32s :: exchange_f where
  "exchange_int32s base m a b size_arg = exchange_loop base 4 (size_arg div 4) m a b"

definition exchange_one_int32 :: exchange_f where
  "exchange_one_int32 base m a b size_arg = exchange_unit base 4 m a b"

definition exchange_int64s :: exchange_f where
  "exchange_int64s base m a b size_arg = exchange_loop base 8 (size_arg div 8) m a b"

definition exchange_one_int64 :: exchange_f where
  "exchange_one_int64 base m a b size_arg = exchange_unit base 8 m a b"

text \<open>Two 64-bit words at once, all four loads before the stores.\<close>

definition exchange_one_int128 :: exchange_f where
  "exchange_one_int128 base m ap bp size_arg =
     do {
       t \<leftarrow> ld base 8 m ap; u \<leftarrow> ld base 8 m (ap + 8);
       v \<leftarrow> ld base 8 m bp; m \<leftarrow> st base 8 m ap v;
       v \<leftarrow> ld base 8 m (bp + 8); m \<leftarrow> st base 8 m (ap + 8) v;
       m \<leftarrow> st base 8 m bp t; st base 8 m (bp + 8) u
     }"

fun exchange_loop128 :: "nat \<Rightarrow> nat \<Rightarrow> u8 list \<Rightarrow> nat \<Rightarrow> nat \<Rightarrow> u8 list option" where
  "exchange_loop128 base 0 m ap bp = Some m"
| "exchange_loop128 base (Suc n) m ap bp =
     do { m \<leftarrow> exchange_one_int128 base m ap bp 16; exchange_loop128 base n m (ap + 16) (bp + 16) }"

definition exchange_int128s :: exchange_f where
  "exchange_int128s base m a b size_arg = exchange_loop128 base (size_arg div 16) m a b"

definition exchange_func :: "nat \<Rightarrow> nat \<Rightarrow> exchange_f" where
  "exchange_func base size_arg =
     (let k = (base OR size_arg) AND 15 in
      if k = 0 then (if size_arg = 16 then exchange_one_int128 else exchange_int128s)
      else if k = 8 then (if size_arg = 8 then exchange_one_int64 else exchange_int64s)
      else if k = 4 \<or> k = 12 then (if size_arg = 4 then exchange_one_int32 else exchange_int32s)
      else if k = 2 \<or> k = 6 \<or> k = 10 \<or> k = 14
        then (if size_arg = 2 then exchange_one_int16 else exchange_int16s)
      else (if size_arg = 1 then exchange_one_byte else exchange_bytes))"

subsection \<open>What an exchange does\<close>

definition apart :: "nat \<Rightarrow> nat \<Rightarrow> nat \<Rightarrow> bool" where
  "apart a b l \<longleftrightarrow> a = b \<or> a + l \<le> b \<or> b + l \<le> a"

definition blk_swap :: "'a list \<Rightarrow> nat \<Rightarrow> nat \<Rightarrow> nat \<Rightarrow> 'a list" where
  "blk_swap m a b l =
     map (\<lambda>i. if a \<le> i \<and> i < a + l then m ! (b + (i - a))
              else if b \<le> i \<and> i < b + l then m ! (a + (i - b)) else m ! i) [0..<length m]"

lemma length_blk_swap [simp, len_simps]: "length (blk_swap m a b l) = length m"
  by (simp add: blk_swap_def)

lemma blk_swap_nth:
  "i < length m \<Longrightarrow> blk_swap m a b l ! i =
     (if a \<le> i \<and> i < a + l then m ! (b + (i - a))
      else if b \<le> i \<and> i < b + l then m ! (a + (i - b)) else m ! i)"
  by (simp add: blk_swap_def)

lemma blk_swap_0 [simp]: "blk_swap m a b 0 = m"
  by (rule nth_equalityI) (auto simp: blk_swap_nth)

lemma blk_swap_same [simp]: "blk_swap m a a l = m"
  by (rule nth_equalityI) (auto simp: blk_swap_nth)

lemma blk_swap_in:
  assumes "a + l \<le> b \<or> b + l \<le> a" and "a + l \<le> length m" and "b + l \<le> length m"
  shows "i < l \<Longrightarrow> blk_swap m a b l ! (a + i) = m ! (b + i)"
    and "i < l \<Longrightarrow> blk_swap m a b l ! (b + i) = m ! (a + i)"
    and "i < length m \<Longrightarrow> \<not> (a \<le> i \<and> i < a + l) \<Longrightarrow> \<not> (b \<le> i \<and> i < b + l) \<Longrightarrow> blk_swap m a b l ! i = m ! i"
  using assms by (auto simp: blk_swap_nth)

text \<open>Two exchanges side by side make one.\<close>

lemma blk_swap_add:
  assumes "apart a b (l + k)" and "a + l + k \<le> length m" and "b + l + k \<le> length m"
  shows "blk_swap (blk_swap m a b l) (a + l) (b + l) k = blk_swap m a b (l + k)"
proof (cases "a = b")
  case False
  then have d: "a + (l + k) \<le> b \<or> b + (l + k) \<le> a" using assms(1) by (auto simp: apart_def)
  let ?x = "blk_swap m a b l" and ?z = "blk_swap m a b (l + k)"
  have X: "a + l \<le> b \<or> b + l \<le> a" "a + l \<le> length m" "b + l \<le> length m" using d assms by auto
  have Y: "a + l + k \<le> b + l \<or> b + l + k \<le> a + l" "a + l + k \<le> length ?x" "b + l + k \<le> length ?x"
    using d assms by auto
  have Z: "a + (l + k) \<le> length m" "b + (l + k) \<le> length m" using assms by auto
  note bx = blk_swap_in [OF X] and bz = blk_swap_in [OF d Z]
  note by' = blk_swap_in [OF Y]
  show ?thesis
  proof (rule nth_equalityI)
    fix i assume "i < length (blk_swap ?x (a + l) (b + l) k)"
    then have i: "i < length m" by simp
    consider (a1) j where "i = a + j" "j < l" | (a2) j where "i = a + l + j" "j < k"
      | (b1) j where "i = b + j" "j < l" | (b2) j where "i = b + l + j" "j < k"
      | (out) "\<not> (a \<le> i \<and> i < a + (l + k))" "\<not> (b \<le> i \<and> i < b + (l + k))"
      by (metis add.assoc add_less_cancel_left le_add_diff_inverse linorder_not_le)
    then show "blk_swap ?x (a + l) (b + l) k ! i = ?z ! i"
    proof cases
      case a1
      then have "blk_swap ?x (a + l) (b + l) k ! i = ?x ! i" using d i by (intro by') auto
      with a1 show ?thesis using bx(1) [of j] bz(1) [of j] by simp
    next
      case a2
      then have "?x ! (b + l + j) = m ! (b + l + j)" using d assms by (intro bx) auto
      with a2 show ?thesis using by'(1) [of j] bz(1) [of "l + j"] by (simp add: add.assoc)
    next
      case b1
      then have "blk_swap ?x (a + l) (b + l) k ! i = ?x ! i" using d i by (intro by') auto
      with b1 show ?thesis using bx(2) [of j] bz(2) [of j] by simp
    next
      case b2
      then have "?x ! (a + l + j) = m ! (a + l + j)" using d assms by (intro bx) auto
      with b2 show ?thesis using by'(2) [of j] bz(2) [of "l + j"] by (simp add: add.assoc)
    next
      case out
      then have "?x ! i = m ! i" using d i by (intro bx) auto
      moreover have "blk_swap ?x (a + l) (b + l) k ! i = ?x ! i" using out d i by (intro by') auto
      moreover have "?z ! i = m ! i" using out i by (intro bz) auto
      ultimately show ?thesis by simp
    qed
  qed simp
qed simp

lemma st_nth:
  "st base k m p v = Some m' \<Longrightarrow> length m' = length m \<and> p + k \<le> length m \<and>
     (\<forall>i < length m. m' ! i = (if p \<le> i \<and> i < p + k then v ! (i - p) else m ! i))"
  by (auto simp: st_def wrn_def nth_append min_def split: if_splits)

lemma st_ok:
  "(base + p) mod k = 0 \<Longrightarrow> length v = k \<Longrightarrow> p + k \<le> length m \<Longrightarrow> \<exists>m'. st base k m p v = Some m'"
  by (simp add: st_def)

lemma exchange_unit_ok:
  assumes "apart a b k" and "a + k \<le> length m" and "b + k \<le> length m"
    and al: "(base + a) mod k = 0" "(base + b) mod k = 0"
  shows "exchange_unit base k m a b = Some (blk_swap m a b k)"
proof -
  let ?t = "take k (drop a m)" and ?u = "take k (drop b m)"
  obtain m1 where m1: "st base k m a ?u = Some m1" using st_ok [OF al(1), of ?u m] assms by auto
  have n1: "length m1 = length m" "\<And>i. i < length m \<Longrightarrow> m1 ! i = (if a \<le> i \<and> i < a + k then ?u ! (i - a) else m ! i)"
    using st_nth [OF m1] by auto
  obtain m2 where m2: "st base k m1 b ?t = Some m2" using st_ok [OF al(2), of ?t m1] assms n1(1) by auto
  have n2: "length m2 = length m" "\<And>i. i < length m \<Longrightarrow> m2 ! i = (if b \<le> i \<and> i < b + k then ?t ! (i - b) else m1 ! i)"
    using st_nth [OF m2] n1(1) by auto
  have "m2 = blk_swap m a b k"
  proof (rule nth_equalityI)
    fix i assume "i < length m2"
    then have i: "i < length m" using n2(1) by simp
    show "m2 ! i = blk_swap m a b k ! i"
      using assms(1-3) i n1(2) [OF i] n2(2) [OF i] unfolding apart_def by (auto simp: blk_swap_nth)
  qed (simp add: n2)
  with m1 m2 assms show ?thesis by (simp add: exchange_unit_def ld_def)
qed

lemma exchange_loop_ok:
  assumes "apart a b (k * n)" and "a + k * n \<le> length m" and "b + k * n \<le> length m"
    and "(base + a) mod k = 0" "(base + b) mod k = 0"
  shows "exchange_loop base k n m a b = Some (blk_swap m a b (k * n))"
  using assms
proof (induction n arbitrary: m a b)
  case (Suc n)
  have ap: "apart a b k" using Suc.prems(1) by (auto simp: apart_def)
  have "exchange_unit base k m a b = Some (blk_swap m a b k)"
    using Suc.prems ap by (intro exchange_unit_ok) auto
  moreover have "exchange_loop base k n (blk_swap m a b k) (a + k) (b + k) =
      Some (blk_swap (blk_swap m a b k) (a + k) (b + k) (k * n))"
    using Suc.prems by (intro Suc.IH) (auto simp: apart_def add.assoc [symmetric])
  moreover have "blk_swap (blk_swap m a b k) (a + k) (b + k) (k * n) = blk_swap m a b (k + k * n)"
    using Suc.prems by (intro blk_swap_add) auto
  ultimately show ?case by simp
qed simp

lemma exchange_one_int128_ok:
  assumes ap: "apart a b 16" and "a + 16 \<le> length m" and "b + 16 \<le> length m"
    and al: "(base + a) mod 8 = 0" "(base + b) mod 8 = 0"
  shows "exchange_one_int128 base m a b sz = Some (blk_swap m a b 16)"
proof -
  let ?rd = "\<lambda>m p. take 8 (drop p m)"
  have al2: "(base + (a + 8)) mod 8 = 0" "(base + (b + 8)) mod 8 = 0" using al by presburger+
  obtain m1 where m1: "st base 8 m a (?rd m b) = Some m1"
    using st_ok [OF al(1), of "?rd m b" m] assms by auto
  note n1 = st_nth [OF m1]
  obtain m2 where m2: "st base 8 m1 (a + 8) (?rd m1 (b + 8)) = Some m2"
    using st_ok [OF al2(1), of "?rd m1 (b + 8)" m1] assms n1 by auto
  note n2 = st_nth [OF m2]
  obtain m3 where m3: "st base 8 m2 b (?rd m a) = Some m3"
    using st_ok [OF al(2), of "?rd m a" m2] assms n1 n2 by auto
  note n3 = st_nth [OF m3]
  obtain m4 where m4: "st base 8 m3 (b + 8) (?rd m (a + 8)) = Some m4"
    using st_ok [OF al2(2), of "?rd m (a + 8)" m3] assms n1 n2 n3 by auto
  note n4 = st_nth [OF m4]
  have l: "length m1 = length m" "length m2 = length m" "length m3 = length m" "length m4 = length m"
    using n1 n2 n3 n4 by auto
  have "m4 = blk_swap m a b 16"
  proof (rule nth_equalityI)
    fix i assume "i < length m4"
    then have i: "i < length m" using l by simp
    have e1: "m1 ! j = (if a \<le> j \<and> j < a + 8 then m ! (b + (j - a)) else m ! j)" if "j < length m" for j
      using n1 that assms by auto
    have e2: "m2 ! i = (if a + 8 \<le> i \<and> i < a + 16 then m1 ! (b + (i - a)) else m1 ! i)"
      using n2 i l assms by auto
    have e3: "m3 ! i = (if b \<le> i \<and> i < b + 8 then m ! (a + (i - b)) else m2 ! i)"
      using n3 i l assms by auto
    have e4: "m4 ! i = (if b + 8 \<le> i \<and> i < b + 16 then m ! (a + (i - b)) else m3 ! i)"
      using n4 i l assms by auto
    show "m4 ! i = blk_swap m a b 16 ! i"
      using ap assms(2,3) i unfolding e4 e3 e2 apart_def by (auto simp: blk_swap_nth e1)
  qed (simp add: l)
  moreover have "exchange_one_int128 base m a b sz = Some m4"
    using assms al2 m1 m2 m3 m4 l by (simp add: exchange_one_int128_def ld_def)
  ultimately show ?thesis by simp
qed

lemma exchange_loop128_ok:
  assumes "apart a b (16 * n)" and "a + 16 * n \<le> length m" and "b + 16 * n \<le> length m"
    and "(base + a) mod 8 = 0" "(base + b) mod 8 = 0"
  shows "exchange_loop128 base n m a b = Some (blk_swap m a b (16 * n))"
  using assms
proof (induction n arbitrary: m a b)
  case (Suc n)
  have "exchange_one_int128 base m a b 16 = Some (blk_swap m a b 16)"
    using Suc.prems by (intro exchange_one_int128_ok) (auto simp: apart_def)
  moreover have "(base + (a + 16)) mod 8 = 0" "(base + (b + 16)) mod 8 = 0" using Suc.prems(4,5) by presburger+
  then have "exchange_loop128 base n (blk_swap m a b 16) (a + 16) (b + 16) =
      Some (blk_swap (blk_swap m a b 16) (a + 16) (b + 16) (16 * n))"
    using Suc.prems(1-3) by (intro Suc.IH) (auto simp: apart_def)
  moreover have "blk_swap (blk_swap m a b 16) (a + 16) (b + 16) (16 * n) = blk_swap m a b (16 + 16 * n)"
    using Suc.prems by (intro blk_swap_add) auto
  ultimately show ?case by simp
qed simp

lemma low_bits_or: "(x OR y) AND 15 = (x mod 16) OR (y mod 16)" for x y :: nat
proof -
  have "(15 :: nat) = mask 4" by (simp add: mask_eq_exp_minus_1)
  then show ?thesis
    by (simp only: take_bit_eq_mask [symmetric] take_bit_or) (simp add: take_bit_eq_mod)
qed

lemma low_bits_table:
  "list_all (\<lambda>x. list_all (\<lambda>y. let q = x OR y in
      (q = 0 \<longrightarrow> x = 0 \<and> y = 0) \<and> (q = 8 \<longrightarrow> x mod 8 = 0 \<and> y mod 8 = 0) \<and>
      (q = 4 \<or> q = 12 \<longrightarrow> x mod 4 = 0 \<and> y mod 4 = 0) \<and>
      (q = 2 \<or> q = 6 \<or> q = 10 \<or> q = 14 \<longrightarrow> x mod 2 = 0 \<and> y mod 2 = 0)) [0..<16]) [0..<16 :: nat]"
  by code_simp

lemma low_bits:
  fixes x y :: nat
  defines "q \<equiv> (x OR y) AND 15"
  shows "q = 0 \<Longrightarrow> 16 dvd x \<and> 16 dvd y" and "q = 8 \<Longrightarrow> 8 dvd x \<and> 8 dvd y"
    and "q = 4 \<or> q = 12 \<Longrightarrow> 4 dvd x \<and> 4 dvd y"
    and "q = 2 \<or> q = 6 \<or> q = 10 \<or> q = 14 \<Longrightarrow> 2 dvd x \<and> 2 dvd y"
proof -
  have "x mod 16 \<in> set [0..<16]" "y mod 16 \<in> set [0..<16]" by auto
  with low_bits_table [unfolded list_all_iff Let_def] have
    t: "(q = 0 \<longrightarrow> x mod 16 = 0 \<and> y mod 16 = 0) \<and> (q = 8 \<longrightarrow> x mod 16 mod 8 = 0 \<and> y mod 16 mod 8 = 0) \<and>
      (q = 4 \<or> q = 12 \<longrightarrow> x mod 16 mod 4 = 0 \<and> y mod 16 mod 4 = 0) \<and>
      (q = 2 \<or> q = 6 \<or> q = 10 \<or> q = 14 \<longrightarrow> x mod 16 mod 2 = 0 \<and> y mod 16 mod 2 = 0)"
    unfolding q_def low_bits_or by blast
  have m: "z mod 16 mod 8 = z mod 8" "z mod 16 mod 4 = z mod 4" "z mod 16 mod 2 = z mod 2" for z :: nat
    by (simp_all add: mod_mod_cancel)
  from t show "q = 0 \<Longrightarrow> 16 dvd x \<and> 16 dvd y" "q = 8 \<Longrightarrow> 8 dvd x \<and> 8 dvd y"
    "q = 4 \<or> q = 12 \<Longrightarrow> 4 dvd x \<and> 4 dvd y" "q = 2 \<or> q = 6 \<or> q = 10 \<or> q = 14 \<Longrightarrow> 2 dvd x \<and> 2 dvd y"
    unfolding m dvd_eq_mod_eq_0 by blast+
qed

text \<open>
  The routine that \<open>exchange_func\<close> chooses exchanges two ranges whose offsets and length are
  multiples of a size with the low bits of its argument, as long as the argument is the length
  itself or too large for the one-unit routines.
\<close>

lemma exchange_func_ok:
  assumes "apart a b l" and "a + l \<le> length m" and "b + l \<le> length m"
    and mult: "\<And>k. k dvd 16 \<Longrightarrow> k dvd sz \<Longrightarrow> k dvd a \<and> k dvd b \<and> k dvd l" and one: "sz = l \<or> 16 < sz"
  shows "exchange_func base sz base m a b l = Some (blk_swap m a b l)"
proof -
  define q where "q = (base OR sz) AND 15"
  have mults: "k dvd base \<Longrightarrow> k dvd sz \<Longrightarrow> k dvd 16 \<Longrightarrow>
      (base + a) mod k = 0 \<and> (base + b) mod k = 0 \<and> k * (l div k) = l" for k
    using mult [of k] by (simp add: dvd_add dvd_imp_mod_0)
  note lb = low_bits [of base sz, folded q_def]
  consider "q = 0" | "q = 8" | "q = 4 \<or> q = 12" | "q = 2 \<or> q = 6 \<or> q = 10 \<or> q = 14"
    | "q \<notin> {0, 8, 4, 12, 2, 6, 10, 14}" by blast
  then show ?thesis
  proof cases
    case 1
    then have d: "16 dvd base" "16 dvd sz" using lb by auto
    then have "8 dvd base" "8 dvd sz" by (auto elim: dvd_trans [rotated])
    with mults [of 8] mults [of 16] d have al: "(base + a) mod 8 = 0" "(base + b) mod 8 = 0" "16 * (l div 16) = l" by auto
    have f: "exchange_func base sz = (if sz = 16 then exchange_one_int128 else exchange_int128s)"
      using 1 unfolding exchange_func_def q_def [symmetric] Let_def by force
    show ?thesis
    proof (cases "sz = 16")
      case True
      with one have "l = 16" by auto
      with True f assms(1-3) al exchange_one_int128_ok [of a b m base sz] show ?thesis by (simp add: exchange_int128s_def)
    next
      case False
      with f assms(1-3) al exchange_loop128_ok [of a b "l div 16" m base] show ?thesis by (simp add: exchange_int128s_def)
    qed
  next
    case 2
    with lb mults [of 8] have al: "(base + a) mod 8 = 0" "(base + b) mod 8 = 0" "8 * (l div 8) = l" by auto
    have f: "exchange_func base sz = (if sz = 8 then exchange_one_int64 else exchange_int64s)"
      using 2 unfolding exchange_func_def q_def [symmetric] Let_def by force
    show ?thesis
    proof (cases "sz = 8")
      case True
      with one have "l = 8" by auto
      with True f assms(1-3) al exchange_unit_ok [of a b 8 m base] show ?thesis by (simp add: exchange_int64s_def exchange_one_int64_def)
    next
      case False
      with f assms(1-3) al exchange_loop_ok [of a b 8 "l div 8" m base] show ?thesis by (simp add: exchange_int64s_def exchange_one_int64_def)
    qed
  next
    case 3
    with lb mults [of 4] have al: "(base + a) mod 4 = 0" "(base + b) mod 4 = 0" "4 * (l div 4) = l" by auto
    have f: "exchange_func base sz = (if sz = 4 then exchange_one_int32 else exchange_int32s)"
      using 3 unfolding exchange_func_def q_def [symmetric] Let_def by force
    show ?thesis
    proof (cases "sz = 4")
      case True
      with one have "l = 4" by auto
      with True f assms(1-3) al exchange_unit_ok [of a b 4 m base] show ?thesis by (simp add: exchange_int32s_def exchange_one_int32_def)
    next
      case False
      with f assms(1-3) al exchange_loop_ok [of a b 4 "l div 4" m base] show ?thesis by (simp add: exchange_int32s_def exchange_one_int32_def)
    qed
  next
    case 4
    with lb mults [of 2] have al: "(base + a) mod 2 = 0" "(base + b) mod 2 = 0" "2 * (l div 2) = l" by auto
    have f: "exchange_func base sz = (if sz = 2 then exchange_one_int16 else exchange_int16s)"
      using 4 unfolding exchange_func_def q_def [symmetric] Let_def by force
    show ?thesis
    proof (cases "sz = 2")
      case True
      with one have "l = 2" by auto
      with True f assms(1-3) al exchange_unit_ok [of a b 2 m base] show ?thesis by (simp add: exchange_int16s_def exchange_one_int16_def)
    next
      case False
      with f assms(1-3) al exchange_loop_ok [of a b 2 "l div 2" m base] show ?thesis by (simp add: exchange_int16s_def exchange_one_int16_def)
    qed
  next
    case 5
    have f: "exchange_func base sz = (if sz = 1 then exchange_one_byte else exchange_bytes)"
      using 5 unfolding exchange_func_def q_def [symmetric] Let_def by force
    show ?thesis
    proof (cases "sz = 1")
      case True
      with one have "l = 1" by auto
      with True f assms(1-3)  exchange_unit_ok [of a b 1 m base] show ?thesis by (simp add: exchange_bytes_def exchange_one_byte_def)
    next
      case False
      with f assms(1-3)  exchange_loop_ok [of a b 1 "l" m base] show ?thesis by (simp add: exchange_bytes_def exchange_one_byte_def)
    qed
  qed
qed

subsection \<open>Elements\<close>

lemma concat_uniform_nth:
  assumes "\<forall>e \<in> set es. length e = sz" and "q < length es" and "r < sz"
  shows "concat es ! (q * sz + r) = es ! q ! r"
  using assms
proof (induction es arbitrary: q)
  case (Cons e es)
  then show ?case by (cases q) (auto simp: nth_append add.assoc)
qed simp

lemma length_concat_uniform: "\<forall>e \<in> set es. length e = sz \<Longrightarrow> length (concat es) = length es * sz"
  by (induction es) auto

lemma block_range_iff:
  fixes q r i k sz :: nat
  assumes "r < sz"
  shows "i * sz \<le> q * sz + r \<and> q * sz + r < i * sz + k * sz \<longleftrightarrow> i \<le> q \<and> q < i + k"
proof -
  have "i * sz \<le> q * sz + r \<longleftrightarrow> i \<le> q"
  proof
    assume "i * sz \<le> q * sz + r"
    also have "\<dots> < (q + 1) * sz" using assms by simp
    finally have "i < q + 1" using mult_less_cancel2 by blast
    then show "i \<le> q" by simp
  next
    assume "i \<le> q"
    then show "i * sz \<le> q * sz + r" using mult_le_mono1 trans_le_add1 by blast
  qed
  moreover have "q * sz + r < (i + k) * sz \<longleftrightarrow> q < i + k"
  proof
    assume "q < i + k"
    then have "(q + 1) * sz \<le> (i + k) * sz" by (intro mult_le_mono1) simp
    with assms show "q * sz + r < (i + k) * sz" by simp
  next
    assume "q * sz + r < (i + k) * sz"
    then have "q * sz < (i + k) * sz" by linarith
    then show "q < i + k" using mult_less_cancel2 by blast
  qed
  ultimately show ?thesis by (simp add: add_mult_distrib)
qed

lemma concat_blk_swap:
  assumes u: "\<forall>e \<in> set es. length e = sz" and "0 < sz" and "i + k \<le> length es" and "j + k \<le> length es"
  shows "concat (blk_swap es i j k) = blk_swap (concat es) (i * sz) (j * sz) (k * sz)"
proof (rule nth_equalityI)
  have len: "\<forall>e \<in> set (blk_swap es i j k). length e = sz"
    using u assms(3,4) by (auto simp: blk_swap_def)
  then show l: "length (concat (blk_swap es i j k)) = length (blk_swap (concat es) (i * sz) (j * sz) (k * sz))"
    using length_concat_uniform [OF u] length_concat_uniform [OF len] by simp
  fix t assume "t < length (concat (blk_swap es i j k))"
  then have t: "t < length es * sz" using length_concat_uniform [OF u] l by simp
  define q r where "q = t div sz" and "r = t mod sz"
  have qr: "t = q * sz + r" "r < sz" "q < length es"
    using assms(2) t by (auto simp: q_def r_def less_mult_imp_div_less)
  have lhs: "concat (blk_swap es i j k) ! t = blk_swap es i j k ! q ! r"
    using concat_uniform_nth [OF len] qr by simp
  have off: "concat es ! (b * sz + (q * sz + r - a * sz)) = es ! (b + (q - a)) ! r"
    if "a \<le> q" "b + (q - a) < length es" for a b
  proof -
    have "a * sz \<le> q * sz" using that(1) by (rule mult_le_mono1)
    then have "b * sz + (q * sz + r - a * sz) = (b + (q - a)) * sz + r"
      unfolding add_mult_distrib diff_mult_distrib by linarith
    then show ?thesis using concat_uniform_nth [OF u that(2) qr(2)] by simp
  qed
  have "t < length (concat es)" using t length_concat_uniform [OF u] by simp
  from blk_swap_nth [OF this, of "i * sz" "j * sz" "k * sz"]
  have rhs: "blk_swap (concat es) (i * sz) (j * sz) (k * sz) ! t =
      (if i \<le> q \<and> q < i + k then concat es ! (j * sz + (q * sz + r - i * sz))
       else if j \<le> q \<and> q < j + k then concat es ! (i * sz + (q * sz + r - j * sz))
       else concat es ! (q * sz + r))"
    unfolding qr(1) block_range_iff [OF qr(2)] .
  consider "i \<le> q \<and> q < i + k" | "\<not> (i \<le> q \<and> q < i + k)" "j \<le> q \<and> q < j + k"
    | "\<not> (i \<le> q \<and> q < i + k)" "\<not> (j \<le> q \<and> q < j + k)" by blast
  then show "concat (blk_swap es i j k) ! t = blk_swap (concat es) (i * sz) (j * sz) (k * sz) ! t"
  proof cases
    case 1
    then have "j + (q - i) < length es" using assms(4) by linarith
    with 1 off [of i j] show ?thesis unfolding lhs rhs blk_swap_nth [OF qr(3)] by simp
  next
    case 2
    then have "i + (q - j) < length es" using assms(3) by linarith
    with 2 off [of j i] show ?thesis unfolding lhs rhs blk_swap_nth [OF qr(3)] by auto
  next
    case 3
    then show ?thesis
      using concat_uniform_nth [OF u qr(3,2)] unfolding lhs rhs blk_swap_nth [OF qr(3)] by auto
  qed
qed

lemma swap_at_blk: "i < length es \<Longrightarrow> j < length es \<Longrightarrow> swap_at (s, es) i j = Some (s, blk_swap es i j 1)"
  by (auto simp: mem_simps swap_at_ok intro!: nth_equalityI simp: nth_swap blk_swap_nth)

lemma swap_block_blk:
  "apart i j k \<Longrightarrow> i + k \<le> length es \<Longrightarrow> j + k \<le> length es \<Longrightarrow>
   swap_block (s, es) i j k = Some (s, blk_swap es i j k)"
proof (induction k arbitrary: es i j)
  case (Suc k)
  have "swap_block (s, blk_swap es i j 1) (i + 1) (j + 1) k = Some (s, blk_swap (blk_swap es i j 1) (i + 1) (j + 1) k)"
    using Suc.prems by (intro Suc.IH) (auto simp: apart_def)
  also have "blk_swap (blk_swap es i j 1) (i + 1) (j + 1) k = blk_swap es i j (1 + k)"
    using Suc.prems by (intro blk_swap_add) auto
  finally show ?case using Suc.prems swap_at_blk [of i es j s] by simp
qed simp

lemma dvd_or_128: "k dvd 16 \<Longrightarrow> k dvd (sz OR 128) \<longleftrightarrow> k dvd (sz :: nat)"
proof -
  assume k: "k dvd 16"
  have "take_bit 4 (sz OR 128) = take_bit 4 sz OR take_bit 4 (128 :: nat)" by (simp add: take_bit_or)
  then have "(sz OR 128) mod 16 = sz mod 16" by (simp add: take_bit_eq_mod)
  then show ?thesis using k by (metis dvd_mod_iff)
qed

text \<open>
  Claim C3. The byte-level exchange routines implement the element-level swaps of the sort. For
  an array of elements of any positive size at any address, the routine that \<open>exchange_func\<close>
  picks for the element size exchanges exactly two elements, and the one it picks for
  \<open>size | 128\<close> exchanges exactly two runs of elements; neither makes a misaligned access or one
  outside the array.
\<close>

theorem exchange_func_swaps:
  assumes "\<forall>e \<in> set es. length e = sz" and "0 < sz" and "i + k \<le> length es" and "j + k \<le> length es"
    and "i = j \<or> i + k \<le> j \<or> j + k \<le> i" and "0 < k"
  shows "map_option (\<lambda>(s, es). concat es) (swap_at (s, es) i j) =
           exchange_func base sz base (concat es) (i * sz) (j * sz) sz \<and>
         map_option (\<lambda>(s, es). concat es) (swap_block (s, es) i j k) =
           exchange_func base (sz OR 128) base (concat es) (i * sz) (j * sz) (k * sz) \<and>
         swap_block (s, es) i j k \<noteq> None"
proof -
  have len: "length (concat es) = length es * sz" using length_concat_uniform [OF assms(1)] .
  have mul: "a * sz + c * sz \<le> length es * sz" if "a + c \<le> length es" for a c
    using mult_le_mono1 [OF that, of sz] by (simp add: add_mult_distrib)
  have ap: "apart (i * sz) (j * sz) (c * sz)" if "c \<le> k" for c
  proof -
    have "i = j \<or> i + c \<le> j \<or> j + c \<le> i" using assms(5) that by linarith
    then show ?thesis
      using mult_le_mono1 [of "i + c" j sz] mult_le_mono1 [of "j + c" i sz]
      by (auto simp: apart_def add_mult_distrib)
  qed
  have one: "exchange_func base sz base (concat es) (i * sz) (j * sz) sz = Some (blk_swap (concat es) (i * sz) (j * sz) sz)"
    using ap [of 1] mul [of i 1] mul [of j 1] assms(3,4,6) len by (intro exchange_func_ok) auto
  have "int 128 \<le> int (sz OR 128)"
    using or_greater_eq [of "int sz" 128] by (simp add: of_nat_or_eq or.commute)
  then have big: "16 < sz OR 128" by linarith
  have block: "exchange_func base (sz OR 128) base (concat es) (i * sz) (j * sz) (k * sz) =
      Some (blk_swap (concat es) (i * sz) (j * sz) (k * sz))"
    using ap [of k] mul [OF assms(3)] mul [OF assms(4)] len big
    by (intro exchange_func_ok) (auto simp: dvd_or_128)
  show ?thesis
    using one block swap_at_blk [of i es j s] concat_blk_swap [OF assms(1,2), of i 1 j]
      swap_block_blk [of i j k es s] concat_blk_swap [OF assms(1-4)] assms(3-6)
    by (simp add: apart_def)
qed

theorem exchange_func_swaps_witness:
  "exchange_func 8 6 8 (concat [[1, 2, 3, 4, 5, 6], [7, 8, 9, 10, 11, 12]]) 0 6 6 =
     Some [7, 8, 9, 10, 11, 12, 1, 2, 3, 4, 5, 6]"
  using exchange_func_swaps [of "[[1, 2, 3, 4, 5, 6], [7, 8, 9, 10, 11, 12]]" 6 0 1 1 "()" 8]
  by (simp add: swap_at_ok swap_def)

end
