(* ===== verification/Rqsort_Order.thy ===== *)
theory Rqsort_Order
  imports Rqsort
begin

text \<open>
  The result of \<open>rqsort\<close> is in order when the comparator is a total preorder: the four-region
  invariant of the partition, the heap invariant of \<open>heapsortx\<close>, insertion, and the invariant
  of the main loop, an array in order except inside the segments still on the stack.
\<close>

subsection \<open>Order, for a comparator that is a total preorder\<close>

definition reg :: "('e \<Rightarrow> bool) \<Rightarrow> 'e list \<Rightarrow> nat \<Rightarrow> nat \<Rightarrow> nat \<Rightarrow> bool" where
  "reg P xs p a b \<longleftrightarrow> (\<forall>k. a \<le> k \<and> k < b \<longrightarrow> P (xs ! (p + k)))"

lemma reg_empty [simp]: "b \<le> a \<Longrightarrow> reg P xs p a b"
  by (auto simp: reg_def)

lemma reg_Suc: "a \<le> b \<Longrightarrow> reg P xs p a (Suc b) \<longleftrightarrow> reg P xs p a b \<and> P (xs ! (p + b))"
  by (auto simp: reg_def less_Suc_eq)

lemma reg_cong:
  "(\<And>k. a \<le> k \<Longrightarrow> k < b \<Longrightarrow> ys ! (p + k) = xs ! (p + k)) \<Longrightarrow> reg P ys p a b = reg P xs p a b"
  by (simp add: reg_def)

locale total_cmp =
  fixes cmp :: "('s, 'e) cmp_f" and cf :: "'e \<Rightarrow> 'e \<Rightarrow> int"
  assumes cmp_cf: "fst (cmp s x y) = cf x y"
    and cf_swap: "cf x y < 0 \<longleftrightarrow> 0 < cf y x"
    and cf_trans: "cf x y \<le> 0 \<Longrightarrow> cf y z \<le> 0 \<Longrightarrow> cf x z \<le> 0"
begin

lemma cf_refl [simp]: "cf x x = 0"
  using cf_swap [of x x] by linarith

lemma cf_eq_sym: "cf x y = 0 \<longleftrightarrow> cf y x = 0"
  using cf_swap [of x y] cf_swap [of y x] by linarith

lemma cf_le_swap: "cf x y \<le> 0 \<longleftrightarrow> 0 \<le> cf y x"
  using cf_swap [of y x] by linarith

abbreviation EQ where "EQ v x \<equiv> cf v x = 0"
abbreviation LO where "LO v x \<equiv> cf v x > 0"
abbreviation HI where "HI v x \<equiv> cf v x < 0"

lemma part_left_ord:
  assumes "i \<le> j" and "1 \<le> lt" and "lt \<le> i" and "p + j \<le> length xs"
    and "reg (EQ (xs ! p)) xs p 1 lt" and "reg (LO (xs ! p)) xs p lt i"
    and "part_left cmp p i lt j (s, xs) = Some (i', lt', (s', xs'))"
  shows "xs' ! p = xs ! p \<and> reg (EQ (xs ! p)) xs' p 1 lt' \<and> reg (LO (xs ! p)) xs' p lt' i' \<and>
     (i' < j \<longrightarrow> HI (xs ! p) (xs' ! (p + i'))) \<and> (\<forall>k < length xs. p + i' \<le> k \<longrightarrow> xs' ! k = xs ! k)"
  using assms
proof (induction "j - i" arbitrary: i lt s xs rule: less_induct)
  case less
  show ?case
  proof (cases "i < j")
    case False
    with less.prems show ?thesis by (subst (asm) part_left.simps) auto
  next
    case True
    let ?c = "cf (xs ! p) (xs ! (p + i))" and ?s = "snd (cmp s (xs ! p) (xs ! (p + i)))"
    let ?xs = "if ?c = 0 then swap xs (p + lt) (p + i) else xs"
    let ?lt = "if ?c = 0 then lt + 1 else lt"
    have eq: "part_left cmp p i lt j (s, xs) =
        (if ?c \<ge> 0 then part_left cmp p (i + 1) ?lt j (?s, ?xs) else Some (i, lt, (?s, xs)))"
      using less.prems True by (subst part_left.simps) (auto simp: mem_simps cmp_cf)
    show ?thesis
    proof (cases "?c \<ge> 0")
      case False
      with less.prems eq show ?thesis by auto
    next
      case c: True
      define ys l where "ys = ?xs" and "l = ?lt"
      have nths: "ys ! p = xs ! p" "\<And>k. k < length xs \<Longrightarrow> p + Suc i \<le> k \<Longrightarrow> ys ! k = xs ! k"
        "length ys = length xs" "1 \<le> l" "l \<le> i + 1"
        using less.prems True by (auto simp: nth_swap ys_def l_def)
      have eqr: "reg (EQ (ys ! p)) ys p 1 l"
        using less.prems(2,3,4,5) True nths(1)
        by (auto simp: reg_def nth_swap less_Suc_eq ys_def l_def)
      have lor: "reg (LO (ys ! p)) ys p l (i + 1)"
        using less.prems(2,3,4,6) True c nths(1)
        by (auto simp: reg_def nth_swap less_Suc_eq ys_def l_def)
      have rec: "part_left cmp p (i + 1) l j (?s, ys) = Some (i', lt', (s', xs'))"
        using less.prems(7) eq c by (simp add: ys_def l_def)
      have "xs' ! p = ys ! p \<and> reg (EQ (ys ! p)) xs' p 1 lt' \<and> reg (LO (ys ! p)) xs' p lt' i' \<and>
         (i' < j \<longrightarrow> HI (ys ! p) (xs' ! (p + i'))) \<and> (\<forall>k < length ys. p + i' \<le> k \<longrightarrow> xs' ! k = ys ! k)"
        using True less.prems nths by (intro less.hyps [OF _ _ _ _ _ eqr lor rec]) auto
      with nths part_left_mono [OF rec] show ?thesis by auto
    qed
  qed
qed

lemma part_right_ord:
  assumes "1 \<le> i" and "i \<le> j" and "j \<le> gt" and "gt \<le> n" and "p + n \<le> length xs"
    and "reg (HI (xs ! p)) xs p j gt" and "reg (EQ (xs ! p)) xs p gt n"
    and "part_right cmp p i j gt (s, xs) = Some (j', gt', (s', xs'))"
  shows "xs' ! p = xs ! p \<and> reg (HI (xs ! p)) xs' p (Suc j') gt' \<and> reg (EQ (xs ! p)) xs' p gt' n \<and>
     (i < j' \<longrightarrow> LO (xs ! p) (xs' ! (p + j'))) \<and> (\<forall>k < length xs. k < p + Suc j' \<longrightarrow> xs' ! k = xs ! k)"
  using assms
proof (induction j arbitrary: gt s xs)
  case (Suc j)
  show ?case
  proof (cases "i < j")
    case False
    with Suc.prems show ?thesis by auto
  next
    case True
    let ?c = "cf (xs ! p) (xs ! (p + j))" and ?s = "snd (cmp s (xs ! p) (xs ! (p + j)))"
    let ?xs = "if ?c = 0 then swap xs (p + (gt - 1)) (p + j) else xs"
    let ?gt = "if ?c = 0 then gt - 1 else gt"
    have eq: "part_right cmp p i (Suc j) gt (s, xs) =
        (if ?c \<le> 0 then part_right cmp p i j ?gt (?s, ?xs) else Some (j, gt, (?s, xs)))"
      using Suc.prems True by (auto simp: mem_simps cmp_cf)
    show ?thesis
    proof (cases "?c \<le> 0")
      case False
      with Suc.prems eq show ?thesis by auto
    next
      case c: True
      define ys g where "ys = ?xs" and "g = ?gt"
      have nths: "ys ! p = xs ! p" "\<And>k. k < length xs \<Longrightarrow> k < p + j \<Longrightarrow> ys ! k = xs ! k"
        "length ys = length xs" "j \<le> g" "g \<le> n"
        using Suc.prems True by (auto simp: nth_swap ys_def g_def)
      have last: "j < gt - 1 \<Longrightarrow> HI (xs ! p) (xs ! (p + gt - Suc 0))"
        using Suc.prems(6) [unfolded reg_def, rule_format, of "gt - 1"] by auto
      have hir: "reg (HI (ys ! p)) ys p j g"
        unfolding reg_def
      proof (intro allI impI)
        fix k assume k: "j \<le> k \<and> k < g"
        show "HI (ys ! p) (ys ! (p + k))"
          using k Suc.prems(3,4,5,6) True c nths(1) last
          by (cases "k = j") (auto simp: reg_def nth_swap ys_def g_def split: if_splits)
      qed
      have eqr: "reg (EQ (ys ! p)) ys p g n"
        unfolding reg_def
      proof (intro allI impI)
        fix k assume k: "g \<le> k \<and> k < n"
        show "EQ (ys ! p) (ys ! (p + k))"
          using k Suc.prems(3,4,5,7) True c nths(1)
          by (cases "k = gt - 1") (auto simp: reg_def nth_swap ys_def g_def split: if_splits)
      qed
      have rec: "part_right cmp p i j g (?s, ys) = Some (j', gt', (s', xs'))"
        using Suc.prems(8) eq c by (simp add: ys_def g_def)
      have "xs' ! p = ys ! p \<and> reg (HI (ys ! p)) xs' p (Suc j') gt' \<and> reg (EQ (ys ! p)) xs' p gt' n \<and>
         (i < j' \<longrightarrow> LO (ys ! p) (xs' ! (p + j'))) \<and> (\<forall>k < length ys. k < p + Suc j' \<longrightarrow> xs' ! k = ys ! k)"
        using True Suc.prems nths by (intro Suc.IH [OF _ _ _ _ _ hir eqr rec]) auto
      with nths part_right_mono [OF rec] show ?thesis by auto
    qed
  qed
qed simp

lemma part_loop_ord:
  assumes "1 \<le> lt" and "lt \<le> i" and "i \<le> j" and "j \<le> gt" and "gt \<le> n" and "p + n \<le> length xs"
    and "reg (EQ (xs ! p)) xs p 1 lt" and "reg (LO (xs ! p)) xs p lt i"
    and "reg (HI (xs ! p)) xs p j gt" and "reg (EQ (xs ! p)) xs p gt n"
    and "part_loop cmp p i lt j gt (s, xs) = Some (i', lt', gt', (s', xs'))"
  shows "xs' ! p = xs ! p \<and> reg (EQ (xs ! p)) xs' p 1 lt' \<and> reg (LO (xs ! p)) xs' p lt' i' \<and>
     reg (HI (xs ! p)) xs' p i' gt' \<and> reg (EQ (xs ! p)) xs' p gt' n"
  using assms
proof (induction "j - i" arbitrary: i lt j gt s xs rule: less_induct)
  case less
  obtain i1 lt1 s1 xs1 where
    l: "part_left cmp p i lt j (s, xs) = Some (i1, lt1, (s1, xs1))" "i \<le> i1" "i1 \<le> j" "1 \<le> lt1"
       "lt1 \<le> i1" "seg_perm (p + 1) (p + j) xs xs1"
    using part_left_ok [of i j lt p xs cmp s] less.prems by auto
  have lo: "xs1 ! p = xs ! p" "reg (EQ (xs ! p)) xs1 p 1 lt1" "reg (LO (xs ! p)) xs1 p lt1 i1"
     "i1 < j \<Longrightarrow> HI (xs ! p) (xs1 ! (p + i1))" "\<And>k. k < length xs \<Longrightarrow> p + i1 \<le> k \<Longrightarrow> xs1 ! k = xs ! k"
    using part_left_ord [OF _ _ _ _ less.prems(7,8) l(1)] less.prems by auto
  have len1: "length xs1 = length xs" using seg_perm_length [OF l(6)] .
  obtain j1 gt1 s2 xs2 where
    r: "part_right cmp p i1 j gt (s1, xs1) = Some (j1, gt1, (s2, xs2))" "i1 \<le> Suc j1" "Suc j1 \<le> j"
       "Suc j1 \<le> gt1" "gt1 \<le> gt" "seg_perm (p + 1) (p + n) xs1 xs2"
    using part_right_ok [of i1 j gt n p xs1 cmp s1] l less.prems len1 by auto
  have hi1: "reg (HI (xs1 ! p)) xs1 p j gt" and eq1: "reg (EQ (xs1 ! p)) xs1 p gt n"
    using less.prems l lo(1) lo(5) by (auto simp: reg_def)
  have ro: "xs2 ! p = xs ! p" "reg (HI (xs ! p)) xs2 p (Suc j1) gt1" "reg (EQ (xs ! p)) xs2 p gt1 n"
     "i1 < j1 \<Longrightarrow> LO (xs ! p) (xs2 ! (p + j1))"
     "\<And>k. k < length xs \<Longrightarrow> k < p + Suc j1 \<Longrightarrow> xs2 ! k = xs1 ! k"
    using part_right_ord [OF _ _ _ _ _ hi1 eq1 r(1)] less.prems l len1 lo(1) by auto
  have lo2: "reg (EQ (xs ! p)) xs2 p 1 lt1" "reg (LO (xs ! p)) xs2 p lt1 i1"
    using lo(2,3) ro(5) r(2-5) l less.prems by (auto simp: reg_def)
  have len2: "length xs2 = length xs" using seg_perm_length [OF r(6)] len1 by simp
  show ?case
  proof (cases "i1 \<ge> j1")
    case True
    have "reg (HI (xs ! p)) xs2 p i1 gt1"
      unfolding reg_def
    proof (intro allI impI)
      fix k assume k: "i1 \<le> k \<and> k < gt1"
      show "HI (xs ! p) (xs2 ! (p + k))"
        using k ro(2) lo(4) ro(5) [of "p + i1"] r l less.prems True
        by (cases "k = j1") (auto simp: reg_def)
    qed
    moreover have "i' = i1 \<and> lt' = lt1 \<and> gt' = gt1 \<and> xs' = xs2"
      using less.prems(11) l r True by (subst (asm) part_loop.simps) auto
    ultimately show ?thesis using ro lo2 by simp
  next
    case False
    define ys where "ys = swap xs2 (p + i1) (p + j1)"
    have len: "length ys = length xs" by (simp add: ys_def len2)
    have nths: "ys ! p = xs ! p" using False r l less.prems len2 ro(1) by (auto simp: ys_def nth_swap)
    have e1: "reg (EQ (ys ! p)) ys p 1 lt1" and e2: "reg (LO (ys ! p)) ys p lt1 (i1 + 1)"
      using lo2 ro(4) False r l less.prems len2 nths by (auto simp: ys_def reg_def nth_swap less_Suc_eq)
    have e3: "reg (HI (ys ! p)) ys p j1 gt1"
      unfolding reg_def
    proof (intro allI impI)
      fix k assume k: "j1 \<le> k \<and> k < gt1"
      show "HI (ys ! p) (ys ! (p + k))"
        using k ro(2) lo(4) ro(5) [of "p + i1"] r l less.prems False len2 nths
        by (cases "k = j1") (auto simp: reg_def ys_def nth_swap)
    qed
    have e4: "reg (EQ (ys ! p)) ys p gt1 n"
      using ro(3) False r l less.prems len2 nths by (auto simp: reg_def ys_def nth_swap)
    have rec: "part_loop cmp p (i1 + 1) lt1 j1 gt1 (s2, ys) = Some (i', lt', gt', (s', xs'))"
      using less.prems(11) False l r less.prems len2
      by (subst (asm) part_loop.simps) (auto simp: mem_simps ys_def)
    show ?thesis
      using less.hyps [OF _ _ _ _ _ _ _ e1 e2 e3 e4 rec] False l r less.prems len nths by auto
  qed
qed

end

lemma swap_block_nth:
  assumes "swap_block (s, xs) a b k = Some (s', ys)" and "a + k \<le> b" and "b + k \<le> length xs"
  shows "length ys = length xs \<and>
    (\<forall>m < length xs. ys ! m = (if a \<le> m \<and> m < a + k then xs ! (b + (m - a))
                              else if b \<le> m \<and> m < b + k then xs ! (a + (m - b)) else xs ! m))"
  using assms
proof (induction k arbitrary: s xs a b)
  case (Suc k)
  let ?xs = "swap xs a b"
  have "swap_block (s, ?xs) (a + 1) (b + 1) k = Some (s', ys)"
    using Suc.prems by (auto simp: mem_simps)
  from Suc.IH [OF this] Suc.prems have
    len: "length ys = length xs" and
    n: "\<And>m. m < length xs \<Longrightarrow> ys ! m = (if a + 1 \<le> m \<and> m < a + 1 + k then ?xs ! (b + 1 + (m - (a + 1)))
          else if b + 1 \<le> m \<and> m < b + 1 + k then ?xs ! (a + 1 + (m - (b + 1))) else ?xs ! m)"
    by auto
  have "ys ! m = (if a \<le> m \<and> m < a + Suc k then xs ! (b + (m - a))
            else if b \<le> m \<and> m < b + Suc k then xs ! (a + (m - b)) else xs ! m)" if m: "m < length xs" for m
  proof -
    consider "m < a" | "m = a" | "a < m" "m < a + Suc k" | "a + Suc k \<le> m" "m < b" | "m = b"
      | "b < m" "m < b + Suc k" | "b + Suc k \<le> m" by linarith
    then show ?thesis
      using n [OF m] Suc.prems m
      by cases (auto simp: nth_swap Suc_diff_Suc)
  qed
  with len show ?case by blast
qed auto

definition sseg :: "('e \<Rightarrow> 'e \<Rightarrow> int) \<Rightarrow> 'e list \<Rightarrow> nat \<Rightarrow> nat \<Rightarrow> bool" where
  "sseg cf xs a b \<longleftrightarrow> (\<forall>i j. a \<le> i \<and> i < j \<and> j < b \<longrightarrow> cf (xs ! i) (xs ! j) \<le> 0)"

lemma ssegI:
  assumes "\<And>a b. a < b \<Longrightarrow> b < n \<Longrightarrow> cf (xs ! (p + a)) (xs ! (p + b)) \<le> 0"
  shows "sseg cf xs p (p + n)"
  unfolding sseg_def
proof (intro allI impI)
  fix i j assume "p \<le> i \<and> i < j \<and> j < p + n"
  then show "cf (xs ! i) (xs ! j) \<le> 0"
    using assms [of "i - p" "j - p"] by auto
qed

definition heap_from :: "('e \<Rightarrow> 'e \<Rightarrow> int) \<Rightarrow> 'e list \<Rightarrow> nat \<Rightarrow> nat \<Rightarrow> nat \<Rightarrow> bool" where
  "heap_from cf xs b n k \<longleftrightarrow>
     (\<forall>i c. k \<le> i \<and> c < n \<and> (c = 2 * i + 1 \<or> c = 2 * i + 2) \<longrightarrow> cf (xs ! (b + c)) (xs ! (b + i)) \<le> 0)"

context total_cmp
begin

lemma cf_less_le: "0 < cf x y \<Longrightarrow> cf y x \<le> 0"
  using cf_swap [of y x] by linarith

lemma insert_down_sorted:
  assumes "insert_down cmp p j (s, xs) = Some (s', ys)" and "j \<le> i" and "p + i < length xs"
    and "\<forall>a b. a < b \<and> b \<le> i \<and> b \<noteq> j \<longrightarrow> cf (xs ! (p + a)) (xs ! (p + b)) \<le> 0"
  shows "\<forall>a b. a < b \<and> b \<le> i \<longrightarrow> cf (ys ! (p + a)) (ys ! (p + b)) \<le> 0"
  using assms
proof (induction j arbitrary: s xs)
  case 0
  then show ?case by auto
next
  case (Suc j)
  let ?c = "cf (xs ! (p + j)) (xs ! (p + Suc j))"
  show ?case
  proof (cases "?c > 0")
    case False
    then have ys: "ys = xs" using Suc.prems by (auto simp: mem_simps cmp_cf)
    show ?thesis
    proof (intro allI impI)
      fix a b assume ab: "a < b \<and> b \<le> i"
      show "cf (ys ! (p + a)) (ys ! (p + b)) \<le> 0"
      proof (cases "b = Suc j")
        case True
        have "cf (xs ! (p + a)) (xs ! (p + j)) \<le> 0"
          using Suc.prems(2,4) ab True by (cases "a = j") auto
        then show ?thesis using False True ys cf_trans by force
      qed (use Suc.prems(4) ab ys in auto)
    qed
  next
    case True
    define zs where "zs = swap xs (p + Suc j) (p + j)"
    have zs: "length zs = length xs" "zs ! (p + j) = xs ! (p + Suc j)" "zs ! (p + Suc j) = xs ! (p + j)"
      "\<And>k. k < length xs \<Longrightarrow> k \<noteq> p + j \<Longrightarrow> k \<noteq> p + Suc j \<Longrightarrow> zs ! k = xs ! k"
      using Suc.prems(2,3) by (auto simp: zs_def nth_swap)
    have "cf (zs ! (p + a)) (zs ! (p + b)) \<le> 0" if ab: "a < b" "b \<le> i" "b \<noteq> j" for a b
    proof -
      have le: "cf (zs ! (p + j)) (zs ! (p + Suc j)) \<le> 0"
        using cf_less_le [OF True] zs by simp
      have *: "cf (xs ! (p + u)) (xs ! (p + v)) \<le> 0" if "u < v" "v \<le> i" "v \<noteq> Suc j" for u v
        using Suc.prems(4) that by blast
      consider "a = j" "b = Suc j" | "a < j" "b = Suc j" | "b < j" | "Suc j < b" "a = j" | "Suc j < b" "a = Suc j"
        | "Suc j < b" "a \<noteq> j" "a \<noteq> Suc j"
        using ab by linarith
      then show ?thesis
      proof cases
        case 1 with le show ?thesis by simp
      next
        case 4 with * [of "Suc j" b] zs ab Suc.prems(2,3) show ?thesis by simp
      qed (use * zs ab Suc.prems(2,3) in auto)
    qed
    moreover have "insert_down cmp p j (snd (cmp s (xs ! (p + j)) (xs ! (p + Suc j))), zs) = Some (s', ys)"
      using Suc.prems True by (auto simp: mem_simps cmp_cf zs_def)
    ultimately show ?thesis using Suc.IH Suc.prems zs(1) by auto
  qed
qed

lemma insertion_sorted:
  assumes "insertion cmp p n i st = Some st'" and "p + n \<le> length (snd st)"
    and "sseg cf (snd st) p (p + i)" and "i \<le> n"
  shows "sseg cf (snd st') p (p + n)"
  using assms
proof (induction "n - i" arbitrary: i st rule: less_induct)
  case less
  show ?case
  proof (cases "i < n")
    case False
    with less.prems show ?thesis by (subst (asm) insertion.simps) auto
  next
    case True
    with less.prems obtain st1 where
      d: "insert_down cmp p i st = Some st1" "insertion cmp p n (i + 1) st1 = Some st'"
      by (subst (asm) insertion.simps) (auto simp: bind_eq_Some_conv)
    have len: "length (snd st1) = length (snd st)"
      using insert_down_runs [of i n p st cmp] d(1) True less.prems by (auto simp: seg_perm_length)
    have "\<forall>a b. a < b \<and> b \<le> i \<longrightarrow> cf (snd st1 ! (p + a)) (snd st1 ! (p + b)) \<le> 0"
      using insert_down_sorted [of p i "fst st" "snd st" "fst st1" "snd st1" i] d(1) less.prems True
      by (auto simp: sseg_def)
    then have "sseg cf (snd st1) p (p + (i + 1))"
      by (intro ssegI) auto
    then show ?thesis using less.hyps [OF _ d(2)] True less.prems len by auto
  qed
qed

text \<open>The larger child, by the comparison of \<open>heapsortx\<close>.\<close>

lemma sift_child_max:
  assumes "sift_child cmp b n (2 * r + 1) (s, xs) = Some (c, (s', xs'))" and "2 * r + 1 < n" and "b + n \<le> length xs"
  shows "xs' = xs \<and> (c = 2 * r + 1 \<or> c = 2 * r + 2) \<and> c < n \<and>
    (\<forall>d < n. d = 2 * r + 1 \<or> d = 2 * r + 2 \<longrightarrow> cf (xs ! (b + d)) (xs ! (b + c)) \<le> 0)"
proof (cases "2 * r + 1 < n - 1")
  case True
  have "cf (xs ! (b + (2 * r + 1))) (xs ! (b + (2 * r + 2))) \<le> 0 \<or> cf (xs ! (b + (2 * r + 2))) (xs ! (b + (2 * r + 1))) \<le> 0"
    using cf_le_swap [of "xs ! (b + (2 * r + 2))"] by fastforce
  then show ?thesis
    using True assms by (auto simp: sift_child_def mem_simps cmp_cf split: if_splits)
next
  case False
  with assms have "n = 2 * r + 2" by linarith
  with False assms show ?thesis by (auto simp: sift_child_def)
qed

lemma sift_heap:
  assumes "sift cmp b n r (s, xs) = Some (s', ys)" and "k \<le> r" and "r < n" and "b + n \<le> length xs"
    and "\<forall>i c. k \<le> i \<and> i \<noteq> r \<and> c < n \<and> (c = 2 * i + 1 \<or> c = 2 * i + 2) \<longrightarrow>
           cf (xs ! (b + c)) (xs ! (b + i)) \<le> 0"
    and "\<forall>q c. k \<le> q \<and> (r = 2 * q + 1 \<or> r = 2 * q + 2) \<and> c < n \<and> (c = 2 * r + 1 \<or> c = 2 * r + 2) \<longrightarrow>
           cf (xs ! (b + c)) (xs ! (b + q)) \<le> 0"
  shows "heap_from cf ys b n k"
  using assms
proof (induction "n - r" arbitrary: r s xs rule: less_induct)
  case less
  show ?case
  proof (cases "r * 2 + 1 < n")
    case False
    then have "ys = xs" using less.prems(1) by (subst (asm) sift.simps) auto
    moreover have "i \<noteq> r" if "c < n" "c = 2 * i + 1 \<or> c = 2 * i + 2" for i c
      using that False by auto
    ultimately show ?thesis using less.prems(5) by (auto simp: heap_from_def)
  next
    case True
    then obtain c s1 where c: "sift_child cmp b n (2 * r + 1) (s, xs) = Some (c, (s1, xs))"
      using sift_child_ok [of "2 * r + 1" n b xs cmp s] less.prems by (auto simp: mult.commute)
    have cm: "c = 2 * r + 1 \<or> c = 2 * r + 2" "c < n"
      "\<And>d. d < n \<Longrightarrow> d = 2 * r + 1 \<or> d = 2 * r + 2 \<Longrightarrow> cf (xs ! (b + d)) (xs ! (b + c)) \<le> 0"
      using sift_child_max [OF c] True less.prems by (auto simp: mult.commute)
    let ?k = "cf (xs ! (b + r)) (xs ! (b + c))" and ?s = "snd (cmp s1 (xs ! (b + r)) (xs ! (b + c)))"
    have eq: "sift cmp b n r (s, xs) =
        (if ?k > 0 then Some (?s, xs) else sift cmp b n c (?s, swap xs (b + r) (b + c)))"
      using True c cm less.prems by (subst sift.simps) (auto simp: mult.commute mem_simps cmp_cf)
    show ?thesis
    proof (cases "?k > 0")
      case k: True
      then have "ys = xs" using eq less.prems(1) by simp
      moreover have "cf (xs ! (b + c)) (xs ! (b + r)) \<le> 0" using cf_less_le [OF k] .
      then have "cf (xs ! (b + d)) (xs ! (b + r)) \<le> 0" if "d < n" "d = 2 * r + 1 \<or> d = 2 * r + 2" for d
        using cm(3) [OF that] cf_trans by blast
      ultimately show ?thesis using less.prems(5) unfolding heap_from_def by metis
    next
      case k: False
      define zs where "zs = swap xs (b + r) (b + c)"
      have rc: "r < c" using cm(1) by auto
      have zs: "length zs = length xs" "zs ! (b + r) = xs ! (b + c)" "zs ! (b + c) = xs ! (b + r)"
        "\<And>m. m < n \<Longrightarrow> m \<noteq> r \<Longrightarrow> m \<noteq> c \<Longrightarrow> zs ! (b + m) = xs ! (b + m)"
        using rc cm(2) less.prems(4) by (auto simp: zs_def nth_swap)
      have P1: "cf (zs ! (b + d)) (zs ! (b + i)) \<le> 0"
        if a: "k \<le> i \<and> i \<noteq> c \<and> d < n \<and> (d = 2 * i + 1 \<or> d = 2 * i + 2)" for i d
      proof (cases "i = r")
        case True
        with a k cm(3) [of d] zs(2,3) zs(4) [of d] rc show ?thesis by (cases "d = c") auto
      next
        case False
        have dn: "d \<noteq> c" using a cm(1) False by auto
        have "i < n" using a by auto
        show ?thesis
        proof (cases "d = r")
          case True
          then show ?thesis using less.prems(6) a False cm zs \<open>i < n\<close> by auto
        next
          case False
          then show ?thesis
            using less.prems(5) [rule_format, of i d] a \<open>i \<noteq> r\<close> dn zs(4) [of d] zs(4) [of i] \<open>i < n\<close> by simp
        qed
      qed
      have P2: "cf (zs ! (b + d)) (zs ! (b + q)) \<le> 0"
        if a: "k \<le> q \<and> (c = 2 * q + 1 \<or> c = 2 * q + 2) \<and> d < n \<and> (d = 2 * c + 1 \<or> d = 2 * c + 2)" for q d
      proof -
        have "q = r" using a cm(1) by auto
        moreover have "d \<noteq> r" "d \<noteq> c" using a rc by auto
        ultimately show ?thesis using less.prems(5) less.prems(2) a rc zs by auto
      qed
      have "sift cmp b n c (?s, zs) = Some (s', ys)" using eq k less.prems(1) zs_def by simp
      from less.hyps [OF _ this] P1 P2 rc cm(2) zs(1) less.prems show ?thesis by auto
    qed
  qed
qed

lemma heap_top:
  assumes "heap_from cf xs b n 0" and "i < n"
  shows "cf (xs ! (b + i)) (xs ! b) \<le> 0"
  using assms(2)
proof (induction i rule: less_induct)
  case (less i)
  show ?case
  proof (cases "i = 0")
    case False
    let ?q = "(i - 1) div 2"
    have "i = 2 * ?q + 1 \<or> i = 2 * ?q + 2" using False by presburger
    then have "cf (xs ! (b + i)) (xs ! (b + ?q)) \<le> 0"
      using assms(1) less.prems unfolding heap_from_def by blast
    moreover have "cf (xs ! (b + ?q)) (xs ! b) \<le> 0" using less False by simp
    ultimately show ?thesis by (rule cf_trans)
  qed simp
qed

lemma heapify_heap:
  assumes "heapify cmp b n i st = Some st'" and "i \<le> n" and "b + n \<le> length (snd st)"
    and "heap_from cf (snd st) b n i"
  shows "heap_from cf (snd st') b n 0"
  using assms
proof (induction i arbitrary: st)
  case (Suc i)
  then obtain st1 where
    s: "sift cmp b n i st = Some st1" "heapify cmp b n i st1 = Some st'"
    by (auto simp: bind_eq_Some_conv)
  have "length (snd st1) = length (snd st)"
    using sift_runs [of i n b st cmp] s(1) Suc.prems by (auto dest: seg_perm_length)
  moreover have "heap_from cf (snd st1) b n i"
  proof (rule sift_heap [of b n i "fst st" "snd st" "fst st1" "snd st1" i], goal_cases)
    case 5
    then show ?case using Suc.prems(4) unfolding heap_from_def by (metis Suc_leI le_neq_implies_less)
  qed (use s(1) Suc.prems in auto)
  ultimately show ?case using Suc.IH [OF s(2)] Suc.prems by simp
qed simp

lemma heap_extract_sorted:
  assumes "heap_extract cmp b i st = Some st'" and "i < n" and "b + n \<le> length (snd st)"
    and "heap_from cf (snd st) b (Suc i) 0" and "sseg cf (snd st) (b + Suc i) (b + n)"
    and "\<forall>u v. u \<le> i \<and> i < v \<and> v < n \<longrightarrow> cf (snd st ! (b + u)) (snd st ! (b + v)) \<le> 0"
  shows "sseg cf (snd st') b (b + n)"
  using assms
proof (induction i arbitrary: st)
  case 0
  show ?case
  proof (intro ssegI)
    fix u v assume "u < v" "v < n"
    then show "cf (snd st' ! (b + u)) (snd st' ! (b + v)) \<le> 0"
      using 0 by (cases "u = 0") (auto simp: sseg_def)
  qed
next
  case (Suc i)
  obtain s xs where st: "st = (s, xs)" by (cases st)
  define zs where "zs = swap xs b (b + Suc i)"
  have zs: "length zs = length xs" "zs ! b = xs ! (b + Suc i)" "zs ! (b + Suc i) = xs ! b"
      "\<And>m. m < length xs \<Longrightarrow> m \<noteq> b \<Longrightarrow> m \<noteq> b + Suc i \<Longrightarrow> zs ! m = xs ! m"
    using Suc.prems st by (auto simp: zs_def nth_swap)
  obtain s1 ys where
    sf: "sift cmp b (Suc i) 0 (s, zs) = Some (s1, ys)" and rec: "heap_extract cmp b i (s1, ys) = Some st'"
    using Suc.prems st by (auto simp: mem_simps zs_def bind_eq_Some_conv)
  have perm: "seg_perm b (b + Suc i) zs ys"
    using sift_runs [of 0 "Suc i" b "(s, zs)" cmp] sf Suc.prems zs(1) st by auto
  have hp: "heap_from cf ys b (Suc i) 0"
  proof (rule sift_heap [OF sf], goal_cases)
    case 4
    have "cf (zs ! (b + c)) (zs ! (b + k)) \<le> 0"
      if "k \<noteq> 0" "c < Suc i" "c = 2 * k + 1 \<or> c = 2 * k + 2" for k c
    proof -
      have "cf (xs ! (b + c)) (xs ! (b + k)) \<le> 0"
        using Suc.prems(4) that st unfolding heap_from_def by (metis less_SucI le0 snd_conv)
      moreover have "c \<noteq> 0" "k < Suc i" using that by auto
      ultimately show ?thesis
        using zs(4) [of "b + c"] zs(4) [of "b + k"] that Suc.prems(2,3) st by simp
    qed
    then show ?case by auto
  qed (use Suc.prems zs(1) st in auto)
  have out: "ys ! m = zs ! m" if "b + Suc i \<le> m" "m < length xs" for m
    using seg_perm_nth [OF perm] that zs(1) by auto
  have top: "cf (zs ! (b + u)) (zs ! (b + Suc i)) \<le> 0" if "u \<le> i" for u
    using heap_top [OF Suc.prems(4), of u] heap_top [OF Suc.prems(4), of "Suc i"] that zs Suc.prems(2,3) st
    by (cases "u = 0") auto
  have "cf (ys ! (b + u)) (ys ! (b + v)) \<le> 0" if uv: "u \<le> i" "i < v" "v < n" for u v
  proof -
    obtain l where l: "b \<le> l" "l < b + Suc i" "ys ! (b + u) = zs ! l"
      using seg_perm_inside [OF perm, of "b + u"] uv(1) Suc.prems(2,3) zs(1) st by auto
    have le: "cf (zs ! l) (zs ! (b + Suc i)) \<le> 0" using top [of "l - b"] l by auto
    show ?thesis
    proof (cases "v = Suc i")
      case True
      with le l out Suc.prems(2,3) st show ?thesis by simp
    next
      case False
      then have "cf (zs ! (b + Suc i)) (zs ! (b + v)) \<le> 0"
        using Suc.prems(6) [rule_format, of 0 v] uv zs Suc.prems(2,3) st by simp
      then show ?thesis using cf_trans [OF le] l out uv Suc.prems(2,3) st by simp
    qed
  qed
  moreover have "sseg cf ys (b + Suc i) (b + n)"
    unfolding sseg_def
  proof (intro allI impI)
    fix u v assume uv: "b + Suc i \<le> u \<and> u < v \<and> v < b + n"
    then have "ys ! u = zs ! u" "ys ! v = zs ! v" "zs ! v = xs ! v"
      using out zs Suc.prems(2,3) st by auto
    moreover have "cf (zs ! u) (xs ! v) \<le> 0"
    proof (cases "u = b + Suc i")
      case True
      with uv have "Suc i < v - b" "v - b < n" by auto
      with uv zs(3) Suc.prems(6) [rule_format, of 0 "v - b"] st True show ?thesis by simp
    next
      case False
      with uv zs Suc.prems(2,3,5) st show ?thesis by (auto simp: sseg_def)
    qed
    ultimately show "cf (ys ! u) (ys ! v) \<le> 0" by simp
  qed
  ultimately show ?case
    using Suc.IH [OF rec] hp Suc.prems(2,3) seg_perm_length [OF perm] zs(1) st by auto
qed

lemma heapsortx_sorted:
  assumes "heapsortx cmp b n st = Some st'" and "b + n \<le> length (snd st)"
  shows "sseg cf (snd st') b (b + n)"
proof (cases "n > 1")
  case False
  then show ?thesis by (auto simp: sseg_def)
next
  case True
  with assms obtain st1 where
    h: "heapify cmp b n (n div 2) st = Some st1" "heap_extract cmp b (n - 1) st1 = Some st'"
    by (auto simp: heapsortx_def bind_eq_Some_conv)
  have "length (snd st1) = length (snd st)"
    using heapify_runs [of "n div 2" n b st cmp] h(1) assms(2) by (auto dest: seg_perm_length)
  moreover have "heap_from cf (snd st1) b n 0"
    by (rule heapify_heap [OF h(1)]) (use assms(2) in \<open>auto simp: heap_from_def\<close>)
  ultimately show ?thesis
    using True assms(2) by (intro heap_extract_sorted [OF h(2), of n]) (auto simp: sseg_def)
qed

end

text \<open>
  The array is in order except inside segments that are still to be sorted, and these do not
  overlap.
\<close>

definition ord_but :: "('e \<Rightarrow> 'e \<Rightarrow> int) \<Rightarrow> segment list \<Rightarrow> 'e list \<Rightarrow> bool" where
  "ord_but cf segs xs \<longleftrightarrow>
     (\<forall>i j. i < j \<and> j < length xs \<longrightarrow>
        cf (xs ! i) (xs ! j) \<le> 0 \<or> (\<exists>(p, n, d) \<in> set segs. p \<le> i \<and> j < p + n))"

definition seg_apart :: "segment \<Rightarrow> segment \<Rightarrow> bool" where
  "seg_apart a b \<longleftrightarrow> (case (a, b) of ((p, n, d), (q, m, e)) \<Rightarrow> p + n \<le> q \<or> q + m \<le> p)"

definition segs_apart :: "segment list \<Rightarrow> bool" where
  "segs_apart segs = sorted_wrt seg_apart segs"

lemma segs_apart_Cons [simp]:
  "segs_apart (a # segs) \<longleftrightarrow> (\<forall>b \<in> set segs. seg_apart a b) \<and> segs_apart segs"
  by (simp add: segs_apart_def)

lemma ord_but_Nil_iff: "ord_but cf [] xs \<longleftrightarrow> sseg cf xs 0 (length xs)"
  by (auto simp: ord_but_def sseg_def)

text \<open>Sorting work inside one pending segment replaces it by segments inside it.\<close>

lemma ord_but_refine:
  assumes ob: "ord_but cf ((p, n, d) # segs) xs" and ap: "\<forall>b \<in> set segs. seg_apart (p, n, d) b"
    and perm: "seg_perm p (p + n) xs ys" and len: "p + n \<le> length xs"
    and new: "\<And>i j. p \<le> i \<Longrightarrow> i < j \<Longrightarrow> j < p + n \<Longrightarrow>
       cf (ys ! i) (ys ! j) \<le> 0 \<or> (\<exists>(q, m, e) \<in> set news. q \<le> i \<and> j < q + m)"
  shows "ord_but cf (news @ segs) ys"
  unfolding ord_but_def
proof (intro allI impI)
  fix i j assume ij: "i < j \<and> j < length ys"
  then have jl: "j < length xs" using seg_perm_length [OF perm] by simp
  let ?in = "\<lambda>k. p \<le> k \<and> k < p + n"
  have old: "cf (xs ! u) (xs ! v) \<le> 0 \<or> (\<exists>(q, m, e) \<in> set segs. q \<le> u \<and> v < q + m)"
    if "u < v" "v < length xs" "\<not> (?in u \<and> ?in v)" for u v
    using ob that unfolding ord_but_def by fastforce
  have none: "\<not> (\<exists>(q, m, e) \<in> set segs. q \<le> u \<and> v < q + m)"
    if "u < v" "?in u \<or> ?in v" for u v
    using ap that unfolding seg_apart_def by fastforce
  consider "?in i" "?in j" | "?in i" "\<not> ?in j" | "\<not> ?in i" "?in j" | "\<not> ?in i" "\<not> ?in j" by blast
  then show "cf (ys ! i) (ys ! j) \<le> 0 \<or> (\<exists>(q, m, e) \<in> set (news @ segs). q \<le> i \<and> j < q + m)"
  proof cases
    case 1
    with new [of i j] ij show ?thesis by auto
  next
    case 2
    obtain l where l: "?in l" "ys ! i = xs ! l" using seg_perm_inside [OF perm len, of i] 2 by auto
    have "ys ! j = xs ! j" using seg_perm_nth [OF perm jl] 2 by auto
    moreover have "cf (xs ! l) (xs ! j) \<le> 0" using old [of l j] none [of l j] l 2 ij jl by auto
    ultimately show ?thesis using l by simp
  next
    case 3
    obtain l where l: "?in l" "ys ! j = xs ! l" using seg_perm_inside [OF perm len, of j] 3 by auto
    have "ys ! i = xs ! i" using seg_perm_nth [OF perm, of i] 3 ij jl by auto
    moreover have "cf (xs ! i) (xs ! l) \<le> 0" using old [of i l] none [of i l] l 3 ij len by auto
    ultimately show ?thesis using l by simp
  next
    case 4
    have "ys ! i = xs ! i" "ys ! j = xs ! j" using seg_perm_nth [OF perm] 4 ij jl by auto
    then show ?thesis using old [of i j] 4 ij jl by auto
  qed
qed

text \<open>Exchange of two adjacent blocks by swapping as many cells as the smaller one has.\<close>

lemma block_exchange:
  assumes "swap_block (s, zs) (p + a) (p + c - k) k = Some (s', us)" and k: "k = min (b - a) (c - b)"
    and "a \<le> b" and "b \<le> c" and "p + c \<le> length zs" and "reg P zs p a b" and "reg Q zs p b c"
  shows "length us = length zs \<and> reg Q us p a (a + (c - b)) \<and> reg P us p (a + (c - b)) c \<and>
    (\<forall>q < length zs. q < p + a \<or> p + c \<le> q \<longrightarrow> us ! q = zs ! q)"
proof -
  have ck: "p + c - k = p + (c - k)" using k assms(3,4) by auto
  have kk: "k = b - a \<and> k \<le> c - b \<or> k = c - b \<and> k \<le> b - a" using k by auto
  then have "k \<le> b - a" "k \<le> c - b" by auto
  then have le: "p + a + k \<le> p + (c - k)" using assms(3,4) by linarith
  note nth = swap_block_nth [OF assms(1) [unfolded ck] le]
  have len: "length us = length zs" using nth k assms(3-5) by auto
  have nth1: "us ! (p + q) = (if a \<le> q \<and> q < a + k then zs ! (p + (c - k + (q - a)))
      else if c - k \<le> q \<and> q < c then zs ! (p + (a + (q - (c - k)))) else zs ! (p + q))" if "q < c" for q
  proof -
    have "p + (c - k) + k = p + c" "p + (c - k) + (p + q - (p + a)) = p + (c - k + (q - a))"
      "p + a + (p + q - (p + (c - k))) = p + (a + (q - (c - k)))"
      using \<open>k \<le> c - b\<close> assms(3,4) by linarith+
    then show ?thesis using nth that k assms(3-5) by (simp add: add.assoc)
  qed
  have "Q (us ! (p + q))" if "a \<le> q" "q < a + (c - b)" for q
  proof (cases "q < a + k")
    case True
    then have "b \<le> c - k + (q - a) \<and> c - k + (q - a) < c" using that kk assms(3,4) by linarith+
    then show ?thesis using nth1 [of q] that True assms(3,4,7) by (auto simp: reg_def)
  next
    case False
    then have "b \<le> q \<and> q < c - k" using that kk assms(3,4) by linarith+
    then show ?thesis using nth1 [of q] that False assms(3,4,7) by (auto simp: reg_def)
  qed
  moreover have "P (us ! (p + q))" if "a + (c - b) \<le> q" "q < c" for q
  proof (cases "c - k \<le> q")
    case True
    then have "a \<le> a + (q - (c - k)) \<and> a + (q - (c - k)) < b" "\<not> q < a + k" using that kk assms(3,4) by linarith+
    then show ?thesis using nth1 [of q] that True assms(6) by (auto simp: reg_def)
  next
    case False
    then have "a \<le> q \<and> q < b" "\<not> q < a + k" using that kk assms(3,4) by linarith+
    then show ?thesis using nth1 [of q] that False assms(6) by (auto simp: reg_def)
  qed
  moreover have "us ! q = zs ! q" if "q < length zs" "q < p + a \<or> p + c \<le> q" for q
    using nth that k assms(3-5) by auto
  ultimately show ?thesis using len by (auto simp: reg_def)
qed

context total_cmp
begin

text \<open>The two block exchanges bring the pivot's equals to the middle.\<close>

lemma rq_partition_ord:
  assumes "6 < n" and "p + n \<le> length xs" and "rq_partition cmp p n (s, xs) = Some (lt, gt, (s', xs'))"
  obtains v where "reg (LO v) xs' p 0 lt" and "reg (EQ v) xs' p lt gt" and "reg (HI v) xs' p gt n"
proof -
  let ?m = "n div 4"
  have mlen: "p + 3 * ?m < length xs" using assms by linarith
  obtain m s1 where m: "med3 cmp (p + ?m) (p + 2 * ?m) (p + 3 * ?m) (s, xs) = Some (m, (s1, xs))"
      "m \<in> {p + ?m, p + 2 * ?m, p + 3 * ?m}"
    using med3_ok [of "p + ?m" xs "p + 2 * ?m" "p + 3 * ?m" cmp s] assms mlen by auto
  define ys where "ys = swap xs p m"
  have mb: "m < length xs" "length ys = length xs" using m(2) mlen by (auto simp: ys_def)
  obtain i lt1 gt1 s2 zs where
    l: "part_loop cmp p 1 1 n n (s1, ys) = Some (i, lt1, gt1, (s2, zs))" "1 \<le> lt1" "lt1 \<le> i" "i \<le> gt1"
       "gt1 \<le> n" "seg_perm (p + 1) (p + n) ys zs"
    using part_loop_ok [of 1 1 n n n p ys cmp s1] assms mb by auto
  define v where "v = ys ! p"
  have o: "zs ! p = v" "reg (EQ v) zs p 1 lt1" "reg (LO v) zs p lt1 i" "reg (HI v) zs p i gt1"
      "reg (EQ v) zs p gt1 n"
    using part_loop_ord [OF _ _ _ _ _ _ _ _ _ _ l(1), of n] assms mb by (auto simp: v_def)
  have o0: "reg (EQ v) zs p 0 lt1"
    unfolding reg_def
  proof (intro allI impI)
    fix q assume "0 \<le> q \<and> q < lt1"
    then show "EQ v (zs ! (p + q))" using o(1,2) by (cases q) (auto simp: reg_def)
  qed
  have len: "length zs = length xs" using seg_perm_length [OF l(6)] mb by simp
  define k where "k = min lt1 (i - lt1)"
  define h where "h = min (n - gt1) (gt1 - i)"
  obtain s3 us where b1: "swap_block (s2, zs) p (p + i - k) k = Some (s3, us)" and
      b2: "swap_block (s3, us) (p + i) (p + n - h) h = Some (s', xs')" and
      r: "lt = i - lt1" "gt = n - (gt1 - i)"
    using assms(3) m l mb assms(1,2)
    by (auto simp: rq_partition_def mem_simps ys_def [symmetric] k_def [symmetric] h_def [symmetric]
        bind_eq_Some_conv)
  have e1: "length us = length zs" "reg (LO v) us p 0 (0 + (i - lt1))" "reg (EQ v) us p (0 + (i - lt1)) i"
      "\<And>q. q < length zs \<Longrightarrow> q < p + 0 \<or> p + i \<le> q \<Longrightarrow> us ! q = zs ! q"
    using block_exchange [of s2 zs p 0 i k s3 us lt1 "EQ v" "LO v"] b1 k_def l assms(2) len o o0 by auto
  have "reg (HI v) us p i gt1" "reg (EQ v) us p gt1 n"
    using o(4,5) e1(4) l len assms(2) by (auto simp: reg_def)
  then have e2: "reg (EQ v) xs' p i (i + (n - gt1))" "reg (HI v) xs' p (i + (n - gt1)) n"
      "\<And>q. q < length us \<Longrightarrow> q < p + i \<or> p + n \<le> q \<Longrightarrow> xs' ! q = us ! q"
    using block_exchange [of s3 us p i n h s' xs' gt1 "HI v" "EQ v"] b2 h_def l assms(2) len e1(1)
    by (auto simp: min.commute)
  have "i + (n - gt1) = gt" using l r by simp
  moreover have "reg (LO v) xs' p 0 lt" "reg (EQ v) xs' p lt i"
  proof -
    have "xs' ! (p + q) = us ! (p + q)" if "q < i" for q
      using e2(3) [of "p + q"] that e1(1) len l assms(2) by auto
    then show "reg (LO v) xs' p 0 lt" "reg (EQ v) xs' p lt i" using e1(2,3) r by (auto simp: reg_def)
  qed
  moreover have "reg (EQ v) xs' p lt gt"
    using e2(1) \<open>i + (n - gt1) = gt\<close> \<open>reg (EQ v) xs' p lt i\<close> unfolding reg_def by (metis not_less)
  ultimately show thesis using that e2 by metis
qed

lemma rq_partition_segments:
  assumes "6 < n" and "p + n \<le> length xs" and "rq_partition cmp p n (s, xs) = Some (lt, gt, (s', xs'))"
    and "p \<le> i" and "i < j" and "j < p + n"
  shows "cf (xs' ! i) (xs' ! j) \<le> 0 \<or> j < p + lt \<or> p + gt \<le> i"
proof -
  obtain v where v: "reg (LO v) xs' p 0 lt" "reg (EQ v) xs' p lt gt" "reg (HI v) xs' p gt n"
    using rq_partition_ord [OF assms(1-3)] .
  have le: "cf (xs' ! k) v \<le> 0" if "p \<le> k" "k < p + gt" for k
  proof (cases "k - p < lt")
    case True
    then have "0 < cf v (xs' ! k)" using v(1) [unfolded reg_def, rule_format, of "k - p"] that by auto
    then show ?thesis by (rule cf_less_le)
  next
    case False
    then have "cf v (xs' ! k) = 0" using v(2) [unfolded reg_def, rule_format, of "k - p"] that by auto
    then show ?thesis using cf_eq_sym [of v] by simp
  qed
  have ge: "cf v (xs' ! k) \<le> 0" if "p + lt \<le> k" "k < p + n" for k
  proof (cases "k - p < gt")
    case True
    then show ?thesis using v(2) [unfolded reg_def, rule_format, of "k - p"] that by auto
  next
    case False
    moreover have "k - p < n" using that by linarith
    ultimately show ?thesis using v(3) [unfolded reg_def, rule_format, of "k - p"] that by auto
  qed
  show ?thesis using cf_trans [OF le [of i] ge [of j]] assms(4-6) by fastforce
qed

lemma rqsort_leaf_sorted:
  assumes "p + n \<le> length (snd st)"
    and "(if n > 6 then heapsortx cmp p n st else Some st) = Some st1"
    and "insertion cmp p (if n > 6 then 0 else n) 1 st1 = Some st2"
  shows "sseg cf (snd st2) p (p + n)"
proof (cases "n > 6")
  case True
  moreover have "insertion cmp p 0 1 st1 = Some st1" by (subst insertion.simps) simp
  ultimately show ?thesis using heapsortx_sorted [of p n st st1] assms by simp
next
  case False
  show ?thesis
  proof (cases "n = 0")
    case True
    then show ?thesis by (simp add: sseg_def)
  next
    case n: False
    with False assms show ?thesis
      by (intro insertion_sorted [of p n 1 st st2]) (auto simp: sseg_def)
  qed
qed

lemma rqsort_loop_sorted:
  assumes "rqsort_loop cmp (p, n, d) stack st = Some st'" and "p + n \<le> length (snd st)"
    and "segs_in stack (length (snd st))"
    and "segs_apart ((p, n, d) # stack)" and "ord_but cf ((p, n, d) # stack) (snd st)"
  shows "sseg cf (snd st') 0 (length (snd st'))"
  using assms
proof (induction "2 * n + 1 + sum_list (map seg_weight stack)" arbitrary: p n d stack st rule: less_induct)
  case less
  obtain s xs where st: "st = (s, xs)" by (cases st)
  show ?case
  proof (cases "n > 6 \<and> d + 1 \<le> 50")
    case True
    with less.prems st obtain lt gt s1 ys where
      q: "rq_partition cmp p n (s, xs) = Some (lt, gt, (s1, ys))" "lt < gt" "gt \<le> n"
         "seg_perm p (p + n) xs ys"
      using rq_partition_ok [of n p xs cmp s] by auto
    have len: "length ys = length xs" using q(4) by (rule seg_perm_length)
    have w: "lt + (n - gt) < n" using rq_partition_shrinks [OF q(1)] True by simp
    have ord: "ord_but cf (news @ stack) ys"
      if "set news = {(p, lt, d + 1), (p + gt, n - gt, d + 1)}" for news
    proof (rule ord_but_refine [of cf p n d stack xs ys])
      fix i j assume "p \<le> i" "i < j" "j < p + n"
      with rq_partition_segments [OF _ _ q(1), of i j] True less.prems st that q(3)
      show "cf (ys ! i) (ys ! j) \<le> 0 \<or> (\<exists>(q, m, e) \<in> set news. q \<le> i \<and> j < q + m)" by auto
    qed (use less.prems st q in auto)
    have apart: "seg_apart a b" if "b \<in> set stack" "a \<in> {(p, lt, d + 1), (p + gt, n - gt, d + 1)}" for a b
      using less.prems(4) that q(2,3) unfolding segs_apart_Cons by (fastforce simp: seg_apart_def)
    have two: "seg_apart (p, lt, d + 1) (p + gt, n - gt, d + 1)" "seg_apart (p + gt, n - gt, d + 1) (p, lt, d + 1)"
      using q by (auto simp: seg_apart_def)
    have ordA: "ord_but cf ((p + gt, n - gt, d + 1) # (p, lt, d + 1) # stack) ys"
      and ordB: "ord_but cf ((p, lt, d + 1) # (p + gt, n - gt, d + 1) # stack) ys"
      using ord [of "[(p + gt, n - gt, d + 1), (p, lt, d + 1)]"] ord [of "[(p, lt, d + 1), (p + gt, n - gt, d + 1)]"]
      by auto
    show ?thesis
    proof (cases "lt > n - gt")
      case c: True
      have "rqsort_loop cmp (p + gt, n - gt, d + 1) ((p, lt, d + 1) # stack) (s1, ys) = Some st'"
        using less.prems(1) True st q(1) c by (subst (asm) rqsort_loop.simps) (auto split: if_splits)
      then show ?thesis
        using w less.prems st q len apart two ordA
        by (intro less.hyps [of "n - gt" "(p, lt, d + 1) # stack" "p + gt" "d + 1" "(s1, ys)"]) auto
    next
      case c: False
      have "rqsort_loop cmp (p, lt, d + 1) ((p + gt, n - gt, d + 1) # stack) (s1, ys) = Some st'"
        using less.prems(1) True st q(1) c by (subst (asm) rqsort_loop.simps) (auto split: if_splits)
      then show ?thesis
        using w less.prems st q len apart two ordB
        by (intro less.hyps [of lt "(p + gt, n - gt, d + 1) # stack" p "d + 1" "(s1, ys)"]) auto
    qed
  next
    case False
    obtain st1 st2 where
      r1: "(if n > 6 then heapsortx cmp p n st else Some st) = Some st1" and
      r2: "insertion cmp p (if n > 6 then 0 else n) 1 st1 = Some st2" and
      perm: "seg_perm p (p + n) (snd st) (snd st2)"
      using rqsort_leaf_runs [of p n st cmp] less.prems by (auto simp: runs_def bind_eq_Some_conv)
    have ord: "ord_but cf stack (snd st2)"
      using ord_but_refine [of cf p n d stack "snd st" "snd st2" "[]"] less.prems perm
        rqsort_leaf_sorted [OF _ r1 r2] by (auto simp: sseg_def)
    have len: "length (snd st2) = length (snd st)" using perm by (rule seg_perm_length)
    have eq: "Some st' = (case stack of [] \<Rightarrow> Some st2 | seg # stack \<Rightarrow> rqsort_loop cmp seg stack st2)"
      using less.prems(1) False r1 r2 by (subst (asm) rqsort_loop.simps) auto
    show ?thesis
    proof (cases stack)
      case Nil
      with eq ord show ?thesis by (simp add: ord_but_Nil_iff)
    next
      case (Cons seg rest)
      obtain p' n' d' where seg: "seg = (p', n', d')" by (cases seg)
      show ?thesis
        using less.prems Cons seg len ord eq
        by (intro less.hyps [of n' rest p' d' st2]) auto
    qed
  qed
qed

end

end
