(* ===== verification/Rqsort_Cmp.thy ===== *)
theory Rqsort_Cmp
  imports Rqsort_Order
begin

text \<open>
  The interface between \<open>rqsort\<close> and its comparators: invariants of the comparator's state,
  comparators that agree where the invariant holds, and the order of the result for a
  comparator that is a total preorder.
\<close>

subsection \<open>Invariants of the comparator's state\<close>

text \<open>
  What a comparator keeps invariant of its own state holds at the end of the sort, and two
  comparators that agree wherever the invariant holds give the same sort. A comparator may be
  well behaved in some states only (no pending exception, an unmodified array).
\<close>

definition in_st :: "('s \<Rightarrow> bool) \<Rightarrow> ('s, 'e) sort_state \<Rightarrow> bool" where
  "in_st P st \<longleftrightarrow> P (fst st)"

definition agree :: "('s \<Rightarrow> bool) \<Rightarrow> ('r \<Rightarrow> ('s, 'e) sort_state) \<Rightarrow> 'r option \<Rightarrow> 'r option \<Rightarrow> bool" where
  "agree P f r1 r2 \<longleftrightarrow> r1 = r2 \<and> (\<forall>x. r1 = Some x \<longrightarrow> in_st P (f x))"

lemma agree_bind:
  assumes "agree P f r1 r2"
    and "\<And>x. in_st P (f x) \<Longrightarrow> r1 = Some x \<Longrightarrow> agree P g (h1 x) (h2 x)"
  shows "agree P g (Option.bind r1 h1) (Option.bind r2 h2)"
  using assms by (cases r2) (auto simp: agree_def)

lemma agree_Some [simp]: "agree P f (Some x) (Some x) \<longleftrightarrow> in_st P (f x)"
  by (simp add: agree_def)

lemma agree_None [simp]: "agree P f None None"
  by (simp add: agree_def)

lemma agree_if:
  "(b \<Longrightarrow> agree P f x y) \<Longrightarrow> (\<not> b \<Longrightarrow> agree P f x' y') \<Longrightarrow>
   agree P f (if b then x else x') (if b then y else y')"
  by simp

lemma agree_swap_at: "in_st P st \<Longrightarrow> agree P (\<lambda>x. x) (swap_at st i j) (swap_at st i j)"
  by (auto simp: agree_def in_st_def swap_at_def bind_eq_Some_conv)

lemma agree_swap_block: "in_st P st \<Longrightarrow> agree P (\<lambda>x. x) (swap_block st a b k) (swap_block st a b k)"
proof (induction k arbitrary: st a b)
  case (Suc k)
  then show ?case by (auto intro!: agree_bind [OF agree_swap_at])
qed simp

locale cmp_agree =
  fixes cmp cmp2 :: "('s, 'e) cmp_f" and P :: "'s \<Rightarrow> bool"
  assumes agree_step: "P s \<Longrightarrow> cmp s x y = cmp2 s x y \<and> P (snd (cmp s x y))"
begin

lemma agree_cmp_at: "in_st P st \<Longrightarrow> agree P snd (cmp_at cmp st i j) (cmp_at cmp2 st i j)"
  by (auto simp: agree_def in_st_def cmp_at_def bind_eq_Some_conv case_prod_beta
      agree_step [THEN conjunct1, symmetric] agree_step [THEN conjunct2])

lemma agree_sift_child:
  "in_st P st \<Longrightarrow> agree P snd (sift_child cmp b n c st) (sift_child cmp2 b n c st)"
  unfolding sift_child_def by (auto intro!: agree_if agree_bind [OF agree_cmp_at])

lemma agree_sift: "in_st P st \<Longrightarrow> agree P (\<lambda>x. x) (sift cmp b n r st) (sift cmp2 b n r st)"
proof (induction "n - r" arbitrary: r st rule: less_induct)
  case less
  then show ?case
    by (subst (1 2) sift.simps)
       (auto intro!: agree_if agree_bind [OF agree_sift_child] agree_bind [OF agree_cmp_at]
          agree_bind [OF agree_swap_at] less.hyps dest!: sift_child_range)
qed

lemma agree_heapify:
  "in_st P st \<Longrightarrow> agree P (\<lambda>x. x) (heapify cmp b n i st) (heapify cmp2 b n i st)"
  by (induction i arbitrary: st) (auto intro!: agree_bind [OF agree_sift])

lemma agree_heap_extract:
  "in_st P st \<Longrightarrow> agree P (\<lambda>x. x) (heap_extract cmp b i st) (heap_extract cmp2 b i st)"
  by (induction i arbitrary: st) (auto intro!: agree_bind [OF agree_sift] agree_bind [OF agree_swap_at])

lemma agree_heapsortx:
  "in_st P st \<Longrightarrow> agree P (\<lambda>x. x) (heapsortx cmp b n st) (heapsortx cmp2 b n st)"
  unfolding heapsortx_def by (auto intro!: agree_bind [OF agree_heapify] agree_heap_extract)

lemma agree_med3: "in_st P st \<Longrightarrow> agree P snd (med3 cmp a b c st) (med3 cmp2 a b c st)"
  unfolding med3_def by (auto intro!: agree_if agree_bind [OF agree_cmp_at])

lemma agree_part_left:
  "in_st P st \<Longrightarrow>
   agree P (\<lambda>x. snd (snd x)) (part_left cmp p i lt j st) (part_left cmp2 p i lt j st)"
proof (induction "j - i" arbitrary: i lt st rule: less_induct)
  case less
  then show ?case
    by (subst (1 2) part_left.simps)
       (auto intro!: agree_if agree_bind [OF agree_cmp_at] agree_bind [OF agree_swap_at] less.hyps)
qed

lemma agree_part_right:
  "in_st P st \<Longrightarrow>
   agree P (\<lambda>x. snd (snd x)) (part_right cmp p i j gt st) (part_right cmp2 p i j gt st)"
  by (induction j arbitrary: gt st)
     (auto intro!: agree_if agree_bind [OF agree_cmp_at] agree_bind [OF agree_swap_at])

lemma agree_part_loop:
  "in_st P st \<Longrightarrow>
   agree P (\<lambda>x. snd (snd (snd x))) (part_loop cmp p i lt j gt st) (part_loop cmp2 p i lt j gt st)"
proof (induction "j - i" arbitrary: i lt j gt st rule: less_induct)
  case less
  then show ?case
    by (subst (1 2) part_loop.simps)
       (auto intro!: agree_if agree_bind [OF agree_part_left] agree_bind [OF agree_part_right]
          agree_bind [OF agree_swap_at] less.hyps dest!: part_left_mono part_right_mono)
qed

lemma agree_rq_partition:
  "in_st P st \<Longrightarrow>
   agree P (\<lambda>x. snd (snd x)) (rq_partition cmp p n st) (rq_partition cmp2 p n st)"
  unfolding rq_partition_def Let_def
  by (auto intro!: agree_bind [OF agree_med3] agree_bind [OF agree_swap_at]
      agree_bind [OF agree_part_loop] agree_bind [OF agree_swap_block])

lemma agree_insert_down:
  "in_st P st \<Longrightarrow> agree P (\<lambda>x. x) (insert_down cmp p j st) (insert_down cmp2 p j st)"
  by (induction j arbitrary: st)
     (auto intro!: agree_if agree_bind [OF agree_cmp_at] agree_bind [OF agree_swap_at])

lemma agree_insertion:
  "in_st P st \<Longrightarrow> agree P (\<lambda>x. x) (insertion cmp p n i st) (insertion cmp2 p n i st)"
proof (induction "n - i" arbitrary: i st rule: less_induct)
  case less
  then show ?case
    by (subst (1 2) insertion.simps) (auto intro!: agree_if agree_bind [OF agree_insert_down] less.hyps)
qed

lemma agree_rqsort_loop:
  "in_st P st \<Longrightarrow>
   agree P (\<lambda>x. x) (rqsort_loop cmp seg stack st) (rqsort_loop cmp2 seg stack st)"
proof (induction "seg_weight seg + sum_list (map seg_weight stack)" arbitrary: seg stack st
    rule: less_induct)
  case less
  obtain p n d where seg: "seg = (p, n, d)" by (cases seg)
  have next_seg: "agree P (\<lambda>x. x) (case stack of [] \<Rightarrow> Some st' | seg # stack \<Rightarrow> rqsort_loop cmp seg stack st')
      (case stack of [] \<Rightarrow> Some st' | seg # stack \<Rightarrow> rqsort_loop cmp2 seg stack st')" if "in_st P st'" for st'
    using that seg by (cases stack) (auto intro!: less.hyps)
  show ?case
    unfolding seg using less.prems
    by (subst (1 2) rqsort_loop.simps)
       (auto intro!: agree_if agree_bind [OF agree_heapsortx] agree_bind [OF agree_insertion] next_seg
          agree_bind [OF agree_rq_partition] less.hyps dest!: rq_partition_shrinks simp: seg)
qed

lemma rqsort_agree: "P s \<Longrightarrow> agree P (\<lambda>x. x) (rqsort cmp s xs) (rqsort cmp2 s xs)"
  using agree_rqsort_loop [of "(s, xs)" "(0, length xs, 0)" "[]"]
  by (simp add: rqsort_def in_st_def)

end

locale ordered_cmp =
  fixes cmp :: "('s, 'e) cmp_f" and P :: "'s \<Rightarrow> bool" and cf :: "'e \<Rightarrow> 'e \<Rightarrow> int"
  assumes order_value: "P s \<Longrightarrow> fst (cmp s x y) = cf x y"
    and order_keeps: "P s \<Longrightarrow> P (snd (cmp s x y))"
    and order_swap: "cf x y < 0 \<longleftrightarrow> 0 < cf y x"
    and order_trans: "cf x y \<le> 0 \<Longrightarrow> cf y z \<le> 0 \<Longrightarrow> cf x z \<le> 0"
begin

abbreviation total :: "('s, 'e) cmp_f" where "total \<equiv> \<lambda>s x y. (cf x y, snd (cmp s x y))"

lemma total_laws: "cmp_agree cmp total P" "total_cmp total cf"
  by unfold_locales (auto simp: order_keeps order_swap prod_eq_iff order_value intro: order_trans)

end

sublocale ordered_cmp \<subseteq> cmp_agree cmp total P
  by (rule total_laws)

sublocale ordered_cmp \<subseteq> tot: total_cmp total cf
  by (rule total_laws)

context ordered_cmp
begin

lemma rqsort_orders:
  assumes "P s"
  shows "\<exists>s' ys. rqsort cmp s xs = Some (s', ys) \<and> P s' \<and> mset ys = mset xs \<and>
     sorted_wrt (\<lambda>x y. cf x y \<le> 0) ys"
proof (cases "length xs < 2")
  case True
  then have "sorted_wrt (\<lambda>x y. cf x y \<le> 0) xs" by (cases xs) auto
  with True assms show ?thesis by (simp add: rqsort_def)
next
  case False
  obtain s' ys where r: "rqsort_loop cmp (0, length xs, 0) [] (s, xs) = Some (s', ys)"
      "mset ys = mset xs"
    using rqsort_loop_runs [of "[]" 0 0 "length xs" "(s, xs)" cmp] by (auto simp: runs_def seg_perm_def)
  have "P s'" and "rqsort_loop total (0, length xs, 0) [] (s, xs) = Some (s', ys)"
    using agree_rqsort_loop [of "(s, xs)" "(0, length xs, 0)" "[]"] r assms by (auto simp: agree_def in_st_def)
  with tot.rqsort_loop_sorted [of 0 "length xs" 0 "[]" "(s, xs)" "(s', ys)"]
  have "sseg cf ys 0 (length ys)" by (auto simp: ord_but_def segs_apart_def)
  then have "sorted_wrt (\<lambda>x y. cf x y \<le> 0) ys" by (simp add: sseg_def sorted_wrt_iff_nth_less)
  with r \<open>P s'\<close> False show ?thesis by (simp add: rqsort_def)
qed

end

text \<open>
  Claim C2. With a comparator that, in all the states it can reach, is one total preorder,
  \<open>rqsort\<close> returns the array in order: a permutation in which no element is greater than a later
  one. This covers the quick sort, the heap sort it falls back to at depth fifty and the
  insertion sort of small segments.
\<close>

theorem rqsort_sorts:
  assumes "ordered_cmp cmp P cf" and "P s"
  shows "\<exists>s' ys. rqsort cmp s xs = Some (s', ys) \<and> P s' \<and> mset ys = mset xs \<and>
     sorted_wrt (\<lambda>x y. cf x y \<le> 0) ys"
  using ordered_cmp.rqsort_orders [OF assms] .

text \<open>The witness counts the comparisons in the comparator's state.\<close>

theorem rqsort_sorts_witness:
  "map_option snd (rqsort (\<lambda>s x y. (x - y, Suc s)) 0 [3, 1, 2, 9, 5, 4, 8, 7 :: int]) =
     Some [1, 2, 3, 4, 5, 7, 8, 9] \<and>
   (\<exists>s' ys. rqsort (\<lambda>s x y. (x - y, Suc s)) 0 [3, 1, 2, 9, 5, 4, 8, 7 :: int] = Some (s', ys) \<and> True \<and>
      mset ys = mset [3, 1, 2, 9, 5, 4, 8, 7] \<and> sorted_wrt (\<lambda>x y. x - y \<le> 0) ys)"
proof
  show "map_option snd (rqsort (\<lambda>s x y. (x - y, Suc s)) 0 [3, 1, 2, 9, 5, 4, 8, 7 :: int]) =
     Some [1, 2, 3, 4, 5, 7, 8, 9]"
    by code_simp
  have "ordered_cmp (\<lambda>s x y. (x - y, Suc s)) (\<lambda>_. True) (\<lambda>x y :: int. x - y)"
    by unfold_locales auto
  from rqsort_sorts [OF this TrueI]
  show "\<exists>s' ys. rqsort (\<lambda>s x y. (x - y, Suc s)) 0 [3, 1, 2, 9, 5, 4, 8, 7 :: int] = Some (s', ys) \<and> True \<and>
      mset ys = mset [3, 1, 2, 9, 5, 4, 8, 7] \<and> sorted_wrt (\<lambda>x y. x - y \<le> 0) ys"
    by blast
qed

end
