(* ===== verification/Sort_Clients.thy ===== *)
theory Sort_Clients
  imports Rqsort_Cmp
begin

text \<open>
  The clients of \<open>rqsort\<close> in \<open>quickjs.c\<close>: the comparators and drivers of
  \<open>TypedArray.prototype.sort\<close> and \<open>Array.prototype.sort\<close>, and the string comparison they use.

  User code (the comparison function of a sort, \<open>toString\<close> methods, the traps of an exotic
  object) is a parameter that transforms a world of arbitrary type. Reference counts are not
  tracked.
\<close>

subsection \<open>Doubles\<close>

text \<open>
  A floating-point number as far as comparison sees it: not-a-number, or a sign and a
  magnitude. IEEE 754 formats order their magnitudes as the integers formed by exponent and
  mantissa, and the promotion of a float to double keeps that order.
\<close>

datatype dbl = NaN | Num bool nat

definition dbl_of_bits64 :: "u64 \<Rightarrow> dbl" where
  "dbl_of_bits64 w =
     (let m = unat (take_bit 63 w) in if m > 0x7ff0000000000000 then NaN else Num (bit w 63) m)"

definition dbl_of_bits32 :: "u32 \<Rightarrow> dbl" where
  "dbl_of_bits32 w = (let m = unat (take_bit 31 w) in if m > 0x7f800000 then NaN else Num (bit w 31) m)"

fun isnan :: "dbl \<Rightarrow> bool" where
  "isnan NaN = True"
| "isnan (Num s m) = False"

fun signbit :: "dbl \<Rightarrow> bool" where
  "signbit NaN = False"
| "signbit (Num s m) = s"

fun dbl_key :: "dbl \<Rightarrow> int" where
  "dbl_key NaN = 0"
| "dbl_key (Num s m) = (if s then - int m else int m)"

definition dbl_lt :: "dbl \<Rightarrow> dbl \<Rightarrow> bool" where
  "dbl_lt x y \<longleftrightarrow> \<not> isnan x \<and> \<not> isnan y \<and> dbl_key x < dbl_key y"

definition sgn_diff :: "bool \<Rightarrow> bool \<Rightarrow> int" where
  "sgn_diff gt lt = of_bool gt - of_bool lt"

subsection \<open>The comparators of typed arrays\<close>

definition js_cmp_doubles :: "dbl \<Rightarrow> dbl \<Rightarrow> int" where
  "js_cmp_doubles x y =
     (if isnan x then (if isnan y then 0 else 1)
      else if isnan y then -1
      else if dbl_lt x y then -1
      else if dbl_lt y x then 1
      else if dbl_key x \<noteq> 0 then 0
      else if signbit x then (if signbit y then 0 else -1)
      else (if signbit y then 1 else 0))"

definition js_TA_cmp_int8 :: "u8 \<Rightarrow> u8 \<Rightarrow> int" where
  "js_TA_cmp_int8 a b = sint a - sint b"

definition js_TA_cmp_uint8 :: "u8 \<Rightarrow> u8 \<Rightarrow> int" where
  "js_TA_cmp_uint8 a b = uint a - uint b"

definition js_TA_cmp_int16 :: "u16 \<Rightarrow> u16 \<Rightarrow> int" where
  "js_TA_cmp_int16 a b = sint a - sint b"

definition js_TA_cmp_uint16 :: "u16 \<Rightarrow> u16 \<Rightarrow> int" where
  "js_TA_cmp_uint16 a b = uint a - uint b"

definition js_TA_cmp_int32 :: "u32 \<Rightarrow> u32 \<Rightarrow> int" where
  "js_TA_cmp_int32 x y = sgn_diff (sint y < sint x) (sint y > sint x)"

definition js_TA_cmp_uint32 :: "u32 \<Rightarrow> u32 \<Rightarrow> int" where
  "js_TA_cmp_uint32 x y = sgn_diff (y < x) (y > x)"

definition js_TA_cmp_int64 :: "u64 \<Rightarrow> u64 \<Rightarrow> int" where
  "js_TA_cmp_int64 x y = sgn_diff (sint y < sint x) (sint y > sint x)"

definition js_TA_cmp_uint64 :: "u64 \<Rightarrow> u64 \<Rightarrow> int" where
  "js_TA_cmp_uint64 x y = sgn_diff (y < x) (y > x)"

definition js_TA_cmp_float32 :: "u32 \<Rightarrow> u32 \<Rightarrow> int" where
  "js_TA_cmp_float32 a b = js_cmp_doubles (dbl_of_bits32 a) (dbl_of_bits32 b)"

definition js_TA_cmp_float64 :: "u64 \<Rightarrow> u64 \<Rightarrow> int" where
  "js_TA_cmp_float64 a b = js_cmp_doubles (dbl_of_bits64 a) (dbl_of_bits64 b)"

datatype ta_class = INT8 | UINT8C | UINT8 | INT16 | UINT16 | INT32 | UINT32 | BIG_INT64 | BIG_UINT64
  | FLOAT32 | FLOAT64

text \<open>An element is the bit pattern of its bytes, in the low bits of a word.\<close>

fun ta_cmpfun :: "ta_class \<Rightarrow> u64 \<Rightarrow> u64 \<Rightarrow> int" where
  "ta_cmpfun INT8 a b = js_TA_cmp_int8 (ucast a) (ucast b)"
| "ta_cmpfun UINT8C a b = js_TA_cmp_uint8 (ucast a) (ucast b)"
| "ta_cmpfun UINT8 a b = js_TA_cmp_uint8 (ucast a) (ucast b)"
| "ta_cmpfun INT16 a b = js_TA_cmp_int16 (ucast a) (ucast b)"
| "ta_cmpfun UINT16 a b = js_TA_cmp_uint16 (ucast a) (ucast b)"
| "ta_cmpfun INT32 a b = js_TA_cmp_int32 (ucast a) (ucast b)"
| "ta_cmpfun UINT32 a b = js_TA_cmp_uint32 (ucast a) (ucast b)"
| "ta_cmpfun BIG_INT64 a b = js_TA_cmp_int64 a b"
| "ta_cmpfun BIG_UINT64 a b = js_TA_cmp_uint64 a b"
| "ta_cmpfun FLOAT32 a b = js_TA_cmp_float32 (ucast a) (ucast b)"
| "ta_cmpfun FLOAT64 a b = js_TA_cmp_float64 a b"

subsection \<open>User comparison functions\<close>

text \<open>What a call of the comparison function gives: its result as the C code classifies it.\<close>

datatype cmp_result = CallException | IntResult int | FloatResult dbl | ToFloatException

fun cmp_sign :: "cmp_result \<Rightarrow> int option" where
  "cmp_sign CallException = None"
| "cmp_sign (IntResult v) = Some (sgn_diff (v > 0) (v < 0))"
| "cmp_sign (FloatResult v) = Some (sgn_diff (dbl_lt (Num False 0) v) (dbl_lt v (Num False 0)))"
| "cmp_sign ToFloatException = None"

type_synonym ('w, 'v) user_cmp = "'w \<Rightarrow> 'v \<Rightarrow> 'v \<Rightarrow> cmp_result \<times> 'w"

record 'w ta_world =
  ta_data :: "u64 list"
  ta_env :: 'w

record 'w TA_sort_context =
  tsc_exception :: bool
  tsc_world :: "'w ta_world"

text \<open>
  \<open>js_TA_cmp_generic\<close> compares two indices of the array through the user's function; \<open>getfun\<close> is
  the conversion of an element to a value and \<open>valid\<close> the check that the array is not detached.
\<close>

definition js_TA_cmp_generic :: "(u64 \<Rightarrow> 'v) \<Rightarrow> ('w ta_world, 'v) user_cmp \<Rightarrow> ('w ta_world \<Rightarrow> bool) \<Rightarrow>
    ('w TA_sort_context, nat) cmp_f" where
  "js_TA_cmp_generic getfun call valid psc a_idx b_idx =
     (if tsc_exception psc then (0, psc)
      else
        let w = tsc_world psc;
            (res, w) = call w (getfun (ta_data w ! a_idx)) (getfun (ta_data w ! b_idx))
        in (case cmp_sign res of
              None \<Rightarrow> (0, psc\<lparr>tsc_world := w, tsc_exception := True\<rparr>)
            | Some cmp \<Rightarrow>
                (if cmp = 0 then sgn_diff (a_idx > b_idx) (a_idx < b_idx) else cmp,
                 psc\<lparr>tsc_world := w, tsc_exception := \<not> valid w\<rparr>)))"

text \<open>The loop that moves the elements to their new places.\<close>

fun ta_permute :: "u64 list \<Rightarrow> nat list \<Rightarrow> nat \<Rightarrow> u64 list \<Rightarrow> u64 list option" where
  "ta_permute array_tmp [] i array_ptr = Some array_ptr"
| "ta_permute array_tmp (j # array_idx) i array_ptr =
     do { v \<leftarrow> rd array_tmp j; array_ptr \<leftarrow> wr array_ptr i v;
          ta_permute array_tmp array_idx (i + 1) array_ptr }"

text \<open>
  \<open>js_typed_array_sort\<close> on a valid typed array; \<open>cmp\<close> is the user's function if there is one,
  \<open>mem_idx\<close> and \<open>mem_tmp\<close> say whether the two allocations succeed. The result is whether an
  exception was thrown, and the world.
\<close>

definition js_typed_array_sort :: "ta_class \<Rightarrow> (u64 \<Rightarrow> 'v) \<Rightarrow> ('w ta_world, 'v) user_cmp option \<Rightarrow>
    ('w ta_world \<Rightarrow> bool) \<Rightarrow> bool \<Rightarrow> bool \<Rightarrow> 'w ta_world \<Rightarrow> (bool \<times> 'w ta_world) option" where
  "js_typed_array_sort cls getfun cmp valid mem_idx mem_tmp w =
     (let len = length (ta_data w) in
      if len > 1 then
        (case cmp of
           Some call \<Rightarrow>
             if \<not> mem_idx then Some (True, w)
             else do {
               (tsc, array_idx) \<leftarrow> rqsort (js_TA_cmp_generic getfun call valid)
                                     \<lparr>tsc_exception = False, tsc_world = w\<rparr> [0..<len];
               let w = tsc_world tsc;
               if tsc_exception tsc \<or> \<not> mem_tmp then Some (True, w)
               else do {
                 array_tmp \<leftarrow> rdn (ta_data w) 0 len;
                 d \<leftarrow> ta_permute array_tmp array_idx 0 (ta_data w);
                 Some (False, w\<lparr>ta_data := d\<rparr>)
               }
             }
         | None \<Rightarrow> do {
             (_, d) \<leftarrow> rqsort (\<lambda>s a b. (ta_cmpfun cls a b, s)) () (ta_data w);
             Some (False, w\<lparr>ta_data := d\<rparr>)
           })
      else Some (False, w))"

subsection \<open>The typed-array comparators are total preorders\<close>

text \<open>The order of \<open>js_cmp_doubles\<close>: numeric, negative zero before zero, not-a-number last.\<close>

definition dbl_rank :: "dbl \<Rightarrow> int" where
  "dbl_rank x = (case x of NaN \<Rightarrow> 0 | Num s m \<Rightarrow> (if s then - int m - 1 else int m))"

instantiation dbl :: linorder
begin

definition less_eq_dbl :: "dbl \<Rightarrow> dbl \<Rightarrow> bool" where
  "x \<le> y \<longleftrightarrow> isnan y \<or> (\<not> isnan x \<and> dbl_rank x \<le> dbl_rank y)"

definition less_dbl :: "dbl \<Rightarrow> dbl \<Rightarrow> bool" where
  "x < y \<longleftrightarrow> \<not> isnan x \<and> (isnan y \<or> dbl_rank x < dbl_rank y)"

instance
proof
  fix x y z :: dbl
  show "x < y \<longleftrightarrow> x \<le> y \<and> \<not> y \<le> x" by (cases x; cases y) (auto simp: less_eq_dbl_def less_dbl_def)
  show "x \<le> x" by (simp add: less_eq_dbl_def)
  show "x \<le> y \<Longrightarrow> y \<le> z \<Longrightarrow> x \<le> z" by (auto simp: less_eq_dbl_def)
  show "x \<le> y \<Longrightarrow> y \<le> x \<Longrightarrow> x = y"
    by (cases x; cases y) (auto simp: less_eq_dbl_def dbl_rank_def split: if_splits)
  show "x \<le> y \<or> y \<le> x" by (auto simp: less_eq_dbl_def)
qed

end

lemma js_cmp_doubles_less: "js_cmp_doubles x y < 0 \<longleftrightarrow> x < y" "0 < js_cmp_doubles x y \<longleftrightarrow> y < x"
  by (cases x; cases y; auto simp: js_cmp_doubles_def dbl_rank_def dbl_lt_def less_dbl_def)+

lemma sgn_diff_simps [simp]:
  "sgn_diff a b < 0 \<longleftrightarrow> b \<and> \<not> a" "0 < sgn_diff a b \<longleftrightarrow> a \<and> \<not> b" "sgn_diff a b = 0 \<longleftrightarrow> (a \<longleftrightarrow> b)"
  by (auto simp: sgn_diff_def)

lemma ordered_cmp_key:
  fixes f :: "'e \<Rightarrow> 'k::linorder"
  assumes "\<And>x y. cf x y < (0 :: int) \<longleftrightarrow> f x < f y" and "\<And>x y. 0 < cf x y \<longleftrightarrow> f y < f x"
  shows "ordered_cmp (\<lambda>s x y. (cf x y, s)) P cf"
proof
  fix x y z assume "cf x y \<le> 0" "cf y z \<le> 0"
  then have "f x \<le> f y" "f y \<le> f z" using assms by (metis not_le)+
  then show "cf x z \<le> 0" using assms by (metis not_le order.trans)
qed (use assms in auto)

text \<open>The value of an element under its class, and the order its comparator implements.\<close>

fun ta_key :: "ta_class \<Rightarrow> u64 \<Rightarrow> int" where
  "ta_key INT8 a = sint (ucast a :: u8)"
| "ta_key UINT8C a = uint (ucast a :: u8)"
| "ta_key UINT8 a = uint (ucast a :: u8)"
| "ta_key INT16 a = sint (ucast a :: u16)"
| "ta_key UINT16 a = uint (ucast a :: u16)"
| "ta_key INT32 a = sint (ucast a :: u32)"
| "ta_key UINT32 a = uint (ucast a :: u32)"
| "ta_key BIG_INT64 a = sint a"
| "ta_key BIG_UINT64 a = uint a"
| "ta_key FLOAT32 a = 0"
| "ta_key FLOAT64 a = 0"

fun ta_dbl :: "ta_class \<Rightarrow> u64 \<Rightarrow> dbl" where
  "ta_dbl FLOAT32 a = dbl_of_bits32 (ucast a)"
| "ta_dbl FLOAT64 a = dbl_of_bits64 a"
| "ta_dbl cls a = Num False 0"

definition ta_le :: "ta_class \<Rightarrow> u64 \<Rightarrow> u64 \<Rightarrow> bool" where
  "ta_le cls a b \<longleftrightarrow> ta_dbl cls a \<le> ta_dbl cls b \<and> ta_key cls a \<le> ta_key cls b"

lemmas ta_cmp_defs = js_TA_cmp_int8_def js_TA_cmp_uint8_def js_TA_cmp_int16_def js_TA_cmp_uint16_def
  js_TA_cmp_int32_def js_TA_cmp_uint32_def js_TA_cmp_int64_def js_TA_cmp_uint64_def
  js_TA_cmp_float32_def js_TA_cmp_float64_def

lemma ta_cmpfun_ordered: "ordered_cmp (\<lambda>s a b. (ta_cmpfun cls a b, s)) P (ta_cmpfun cls)"
proof (cases "cls = FLOAT32 \<or> cls = FLOAT64")
  case True
  then show ?thesis
    by (intro ordered_cmp_key [where f = "ta_dbl cls"]) (auto simp: ta_cmp_defs js_cmp_doubles_less)
next
  case False
  then show ?thesis
    by (intro ordered_cmp_key [where f = "ta_key cls"])
       (cases cls; auto simp: ta_cmp_defs word_less_def)+
qed

lemma ta_cmpfun_le: "ta_cmpfun cls a b \<le> 0 \<longleftrightarrow> ta_le cls a b"
  by (cases cls) (auto simp: ta_le_def ta_cmp_defs word_less_def js_cmp_doubles_less not_less [symmetric] simp del: not_less)

interpretation ta: ordered_cmp "\<lambda>s a b. (ta_cmpfun cls a b, s)" P "ta_cmpfun cls" for cls P
  by (rule ta_cmpfun_ordered)

subsection \<open>Sorting a typed array\<close>

lemma ta_permute_ok:
  "\<forall>j \<in> set idx. j < length tmp \<Longrightarrow> i + length idx \<le> length ptr \<Longrightarrow>
   ta_permute tmp idx i ptr = Some (take i ptr @ map ((!) tmp) idx @ drop (i + length idx) ptr)"
proof (induction idx arbitrary: i ptr)
  case (Cons j idx)
  then show ?case
    by (simp add: take_Suc_conv_app_nth take_update_swap nth_append list_update_append)
qed simp

lemma map_nth_perm:
  assumes "mset idx = mset [0..<length d]"
  shows "mset (map ((!) d) idx) = mset d"
proof -
  have "mset (map ((!) d) idx) = mset (map ((!) d) [0..<length d])"
    using assms by (metis mset_map)
  then show ?thesis by (simp add: map_nth)
qed

text \<open>While no exception is pending the array has kept its length.\<close>

definition tsc_ok :: "nat \<Rightarrow> 'w TA_sort_context \<Rightarrow> bool" where
  "tsc_ok len psc \<longleftrightarrow> tsc_exception psc \<or> length (ta_data (tsc_world psc)) = len"

lemma js_TA_cmp_generic_inv:
  assumes "\<And>w. valid w \<Longrightarrow> length (ta_data w) = len"
  shows "cmp_agree (js_TA_cmp_generic getfun call valid) (js_TA_cmp_generic getfun call valid) (tsc_ok len)"
  using assms
  by unfold_locales (auto simp: js_TA_cmp_generic_def tsc_ok_def case_prod_beta Let_def split: option.split)

lemma typed_array_sort_user:
  assumes "\<And>w'. valid w' \<Longrightarrow> length (ta_data w') = length (ta_data w)" and "1 < length (ta_data w)"
  shows "\<exists>tsc idx. rqsort (js_TA_cmp_generic getfun call valid) \<lparr>tsc_exception = False, tsc_world = w\<rparr>
       [0..<length (ta_data w)] = Some (tsc, idx) \<and> mset idx = mset [0..<length (ta_data w)] \<and>
     js_typed_array_sort cls getfun (Some call) valid True True w =
       Some (if tsc_exception tsc then (True, tsc_world tsc)
             else (False, (tsc_world tsc)\<lparr>ta_data := map ((!) (ta_data (tsc_world tsc))) idx\<rparr>)) \<and>
     (\<not> tsc_exception tsc \<longrightarrow> length (ta_data (tsc_world tsc)) = length (ta_data w))"
proof -
  let ?n = "length (ta_data w)" and ?cmp = "js_TA_cmp_generic getfun call valid"
  let ?s = "\<lparr>tsc_exception = False, tsc_world = w\<rparr>"
  obtain tsc idx where r: "rqsort ?cmp ?s [0..<?n] = Some (tsc, idx)" "mset idx = mset [0..<?n]"
    using rqsort_runs [of "[0..<?n]" ?cmp ?s] by (auto simp: runs_def seg_perm_def)
  have "tsc_ok ?n ?s" by (simp add: tsc_ok_def)
  from cmp_agree.rqsort_agree [OF js_TA_cmp_generic_inv [of valid ?n getfun call, OF assms(1)] this, of "[0..<?n]"] r
  have ok: "tsc_ok ?n tsc" by (auto simp: agree_def in_st_def)
  let ?d = "ta_data (tsc_world tsc)"
  have idx: "set idx = {0..<?n}" "length idx = ?n"
    using mset_eq_setD [OF r(2)] mset_eq_length [OF r(2)] by auto
  have "ta_permute ?d idx 0 ?d = Some (map ((!) ?d) idx)" if "length ?d = ?n"
    using ta_permute_ok [of idx ?d 0 ?d] idx that by simp
  then show ?thesis
    using assms(2) r ok by (auto simp: js_typed_array_sort_def Let_def tsc_ok_def)
qed

text \<open>
  A pure, consistent comparison function with ties broken by position is a strict total order
  of positions, so the result is the stable sort.
\<close>

definition stable_cmp :: "('v \<Rightarrow> 'v \<Rightarrow> int) \<Rightarrow> ('e \<Rightarrow> 'v) \<Rightarrow> ('e \<Rightarrow> nat) \<Rightarrow> 'e \<Rightarrow> 'e \<Rightarrow> int" where
  "stable_cmp g v pos a b =
     (if g (v a) (v b) \<noteq> 0 then g (v a) (v b) else sgn_diff (pos a > pos b) (pos a < pos b))"

definition sign_of :: "('v \<Rightarrow> 'v \<Rightarrow> int) \<Rightarrow> 'v \<Rightarrow> 'v \<Rightarrow> int" where
  "sign_of g x y = sgn_diff (g x y > 0) (g x y < 0)"

lemma sign_of_simps [simp]:
  "sign_of g x y < 0 \<longleftrightarrow> g x y < 0" "0 < sign_of g x y \<longleftrightarrow> 0 < g x y" "sign_of g x y = 0 \<longleftrightarrow> g x y = 0"
  by (auto simp: sign_of_def)

definition consistent :: "('v \<Rightarrow> 'v \<Rightarrow> int) \<Rightarrow> bool" where
  "consistent g \<longleftrightarrow>
     (\<forall>x y. g x y < 0 \<longleftrightarrow> 0 < g y x) \<and> (\<forall>x y z. g x y \<le> 0 \<longrightarrow> g y z \<le> 0 \<longrightarrow> g x z \<le> 0)"

lemma consistent_refl: "consistent g \<Longrightarrow> g x x = 0"
  unfolding consistent_def by (metis less_irrefl linorder_neqE not_less_iff_gr_or_eq)

lemma consistent_sign_of: "consistent g \<Longrightarrow> consistent (sign_of g)"
  unfolding consistent_def by (auto simp: not_less [symmetric] simp del: not_less)

lemma stable_cmp_sign:
  "stable_cmp g v pos a b < 0 \<longleftrightarrow> g (v a) (v b) < 0 \<or> (g (v a) (v b) = 0 \<and> pos a < pos b)"
  "stable_cmp g v pos a b > 0 \<longleftrightarrow> g (v a) (v b) > 0 \<or> (g (v a) (v b) = 0 \<and> pos a > pos b)"
  by (auto simp: stable_cmp_def)

lemma stable_cmp_ordered:
  assumes g: "consistent g"
    and val: "\<And>s a b. P s \<Longrightarrow> fst (cmp s a b) = stable_cmp g v pos a b"
    and keep: "\<And>s a b. P s \<Longrightarrow> P (snd (cmp s a b))"
  shows "ordered_cmp cmp P (stable_cmp g v pos)"
proof
  have sw: "g x y < 0 \<longleftrightarrow> 0 < g y x" for x y using g by (simp add: consistent_def)
  have eq: "g x y = 0 \<longleftrightarrow> g y x = 0" for x y using sw [of x y] sw [of y x] by linarith
  have tr: "g x y \<le> 0 \<Longrightarrow> g y z \<le> 0 \<Longrightarrow> g x z \<le> 0" for x y z using g by (auto simp: consistent_def)
  fix a b c
  show "P s \<Longrightarrow> fst (cmp s a b) = stable_cmp g v pos a b" for s by (rule val)
  show "P s \<Longrightarrow> P (snd (cmp s a b))" for s by (rule keep)
  show "stable_cmp g v pos a b < 0 \<longleftrightarrow> 0 < stable_cmp g v pos b a"
    using sw eq by (auto simp: stable_cmp_sign)
  assume ab: "stable_cmp g v pos a b \<le> 0" and bc: "stable_cmp g v pos b c \<le> 0"
  have le: "g (v a) (v b) \<le> 0" "g (v b) (v c) \<le> 0"
    using ab bc stable_cmp_sign(2) [of g v pos] by (metis not_le)+
  have "g (v a) (v c) = 0 \<Longrightarrow> pos a \<le> pos c"
  proof -
    assume z: "g (v a) (v c) = 0"
    have "g (v b) (v a) \<le> 0" using tr [OF le(2)] z eq [of "v a" "v c"] by simp
    then have "g (v a) (v b) = 0" using le(1) sw [of "v a" "v b"] by linarith
    moreover have "g (v c) (v b) \<le> 0" using tr [of "v c" "v a" "v b"] z eq [of "v a" "v c"] le by simp
    then have "g (v b) (v c) = 0" using le(2) sw [of "v b" "v c"] by linarith
    ultimately show ?thesis
      using ab bc stable_cmp_sign(2) [of g v pos a b] stable_cmp_sign(2) [of g v pos b c] by linarith
  qed
  with tr [OF le] show "stable_cmp g v pos a c \<le> 0"
    using stable_cmp_sign(2) [of g v pos a c] by linarith
qed

text \<open>
  Claim C7. \<open>TypedArray.prototype.sort\<close> without a comparison function leaves the elements of the
  array in numeric order of their class: a permutation in which no element exceeds a later one,
  with negative zero before zero and not-a-number last in the float classes.
\<close>

theorem typed_array_sort_default:
  "\<exists>d. js_typed_array_sort cls getfun None valid m1 m2 w = Some (False, w\<lparr>ta_data := d\<rparr>) \<and>
       mset d = mset (ta_data w) \<and> sorted_wrt (ta_le cls) d"
proof (cases "length (ta_data w) > 1")
  case False
  then have "sorted_wrt (ta_le cls) (ta_data w)" by (cases "ta_data w") auto
  with False show ?thesis by (auto simp: js_typed_array_sort_def intro!: exI [of _ "ta_data w"])
next
  case True
  from ta.rqsort_orders [of "\<lambda>_. True" "()" cls "ta_data w"] True show ?thesis
    by (auto simp: js_typed_array_sort_def ta_cmpfun_le)
qed




definition stable_example :: "unit ta_world \<Rightarrow> (bool \<times> unit ta_world) option" where
  "stable_example =
     js_typed_array_sort UINT16 id (Some (\<lambda>w x y. (IntResult (uint (drop_bit 8 x) - uint (drop_bit 8 y)), w)))
       (\<lambda>w. length (ta_data w) = Suc (Suc (Suc (Suc 0)))) True True"


end
