(* ===== verification/Array_Sort.thy ===== *)
theory Array_Sort
  imports Sort_Clients Js_String
begin

text \<open>
  \<open>Array.prototype.sort\<close> of \<open>quickjs.c\<close>. The array may be any object: its
  property operations are parameters that transform the world, as is the user's comparison
  function and the conversion of a value to a string.
\<close>

subsection \<open>The comparator of \<open>Array.prototype.sort\<close>\<close>

record 'v ValueSlot =
  vs_val :: 'v
  vs_pos :: nat

text \<open>The string cached in a slot is kept beside the slots, under the slot's value and position.\<close>

record ('w, 'v) array_sort_context =
  asc_exception :: bool
  asc_world :: 'w
  asc_str :: "'v ValueSlot \<Rightarrow> JSString option"

type_synonym ('w, 'v) to_string = "'w \<Rightarrow> 'v \<Rightarrow> JSString option \<times> 'w"

definition slot_string :: "('w, 'v) to_string \<Rightarrow> ('w, 'v) array_sort_context \<Rightarrow> 'v ValueSlot \<Rightarrow>
    JSString option \<times> ('w, 'v) array_sort_context" where
  "slot_string ts psc ap =
     (case asc_str psc ap of
        Some s \<Rightarrow> (Some s, psc)
      | None \<Rightarrow>
          (case ts (asc_world psc) (vs_val ap) of
             (None, w) \<Rightarrow> (None, psc\<lparr>asc_world := w, asc_exception := True\<rparr>)
           | (Some s, w) \<Rightarrow> (Some s, psc\<lparr>asc_world := w, asc_str := (asc_str psc)(ap := Some s)\<rparr>)))"

definition cmp_pos :: "'v ValueSlot \<Rightarrow> 'v ValueSlot \<Rightarrow> int" where
  "cmp_pos ap bp = sgn_diff (vs_pos ap > vs_pos bp) (vs_pos ap < vs_pos bp)"

definition js_array_cmp_generic :: "('w, 'v) user_cmp option \<Rightarrow> ('w, 'v) to_string \<Rightarrow>
    (('w, 'v) array_sort_context, 'v ValueSlot) cmp_f" where
  "js_array_cmp_generic meth ts psc ap bp =
     (if asc_exception psc then (0, psc)
      else case meth of
        Some call \<Rightarrow>
          if vs_val ap = vs_val bp then (cmp_pos ap bp, psc)
          else
            let (res, w) = call (asc_world psc) (vs_val ap) (vs_val bp)
            in (case cmp_sign res of
                  None \<Rightarrow> (0, psc\<lparr>asc_world := w, asc_exception := True\<rparr>)
                | Some cmp \<Rightarrow> (if cmp \<noteq> 0 then cmp else cmp_pos ap bp, psc\<lparr>asc_world := w\<rparr>))
      | None \<Rightarrow>
          (case slot_string ts psc ap of
             (None, psc) \<Rightarrow> (0, psc)
           | (Some sa, psc) \<Rightarrow>
               (case slot_string ts psc bp of
                  (None, psc) \<Rightarrow> (0, psc)
                | (Some sb, psc) \<Rightarrow>
                    (case js_string_compare sa sb of
                       None \<Rightarrow> (0, psc)
                     | Some cmp \<Rightarrow> (if cmp \<noteq> 0 then cmp else cmp_pos ap bp, psc)))))"

subsection \<open>\<open>js_array_sort\<close>\<close>

text \<open>
  The property operations of the array: the length, a try-get (\<open>None\<close> for an exception, then
  whether the property is present), a set and a delete, both with success.
\<close>

record ('w, 'v) obj_ops =
  op_length :: "'w \<Rightarrow> nat option \<times> 'w"
  op_tryget :: "'w \<Rightarrow> nat \<Rightarrow> 'v option option \<times> 'w"
  op_set :: "'w \<Rightarrow> nat \<Rightarrow> 'v \<Rightarrow> bool \<times> 'w"
  op_delete :: "'w \<Rightarrow> nat \<Rightarrow> bool \<times> 'w"

definition grow_size :: "nat \<Rightarrow> nat" where
  "grow_size array_size = (array_size + array_size div 2 + 31) div 16 * 16"

text \<open>
  Collect the present and defined elements; \<open>mem\<close> is the allocator's answer to a growth, with the
  slack in elements.
\<close>

function sort_collect :: "('w, 'v) obj_ops \<Rightarrow> ('v \<Rightarrow> bool) \<Rightarrow> (nat \<Rightarrow> nat option) \<Rightarrow> nat \<Rightarrow> nat \<Rightarrow> nat \<Rightarrow>
    'v ValueSlot list \<Rightarrow> nat \<Rightarrow> 'w \<Rightarrow> ('w + 'v ValueSlot list \<times> nat \<times> 'w) option" where
  "sort_collect ops is_undef mem len i array_size array undefined_count w =
     (if i < len then
        (case (if length array \<ge> array_size
               then map_option (\<lambda>slack. grow_size array_size + slack) (mem (grow_size array_size))
               else Some array_size) of
           None \<Rightarrow> Some (Inl w)
         | Some array_size \<Rightarrow>
             if length array \<ge> array_size then None
             else
               (case op_tryget ops w i of
                  (None, w) \<Rightarrow> Some (Inl w)
                | (Some None, w) \<Rightarrow>
                    sort_collect ops is_undef mem len (i + 1) array_size array undefined_count w
                | (Some (Some v), w) \<Rightarrow>
                    if is_undef v
                    then sort_collect ops is_undef mem len (i + 1) array_size array (undefined_count + 1) w
                    else sort_collect ops is_undef mem len (i + 1) array_size
                           (array @ [\<lparr>vs_val = v, vs_pos = i\<rparr>]) undefined_count w))
      else Some (Inr (array, undefined_count, w)))"
  by pat_completeness auto
termination
  by (relation "measure (\<lambda>(ops, u, mem, len, i, sz, a, c, w). len - i)") auto

declare sort_collect.simps [simp del]

text \<open>Write the sorted elements back, except those that are at their place already.\<close>

fun sort_write :: "('w, 'v) obj_ops \<Rightarrow> 'v ValueSlot list \<Rightarrow> nat \<Rightarrow> 'w \<Rightarrow> 'w + 'w" where
  "sort_write ops [] n w = Inr w"
| "sort_write ops (a # array) n w =
     (if vs_pos a = n then sort_write ops array (n + 1) w
      else (case op_set ops w n (vs_val a) of
              (False, w) \<Rightarrow> Inl w
            | (True, w) \<Rightarrow> sort_write ops array (n + 1) w))"

fun sort_undefs :: "('w, 'v) obj_ops \<Rightarrow> 'v \<Rightarrow> nat \<Rightarrow> nat \<Rightarrow> 'w \<Rightarrow> 'w + 'w" where
  "sort_undefs ops undef 0 i w = Inr w"
| "sort_undefs ops undef (Suc k) i w =
     (case op_set ops w i undef of
        (False, w) \<Rightarrow> Inl w
      | (True, w) \<Rightarrow> sort_undefs ops undef k (i + 1) w)"

fun sort_deletes :: "('w, 'v) obj_ops \<Rightarrow> nat \<Rightarrow> nat \<Rightarrow> 'w \<Rightarrow> 'w + 'w" where
  "sort_deletes ops 0 i w = Inr w"
| "sort_deletes ops (Suc k) i w =
     (case op_delete ops w i of
        (False, w) \<Rightarrow> Inl w
      | (True, w) \<Rightarrow> sort_deletes ops k (i + 1) w)"

datatype ('w, 'v) sort_method = MethodUndefined | NotCallable | Callable "('w, 'v) user_cmp"

fun method_fun :: "('w, 'v) sort_method \<Rightarrow> ('w, 'v) user_cmp option" where
  "method_fun (Callable f) = Some f"
| "method_fun m = None"

text \<open>\<open>Inl\<close> is a thrown exception, \<open>Inr\<close> the normal return of the object.\<close>

definition js_array_sort :: "('w, 'v) obj_ops \<Rightarrow> 'v \<Rightarrow> ('v \<Rightarrow> bool) \<Rightarrow> (nat \<Rightarrow> nat option) \<Rightarrow>
    ('w, 'v) to_string \<Rightarrow> ('w, 'v) sort_method \<Rightarrow> 'w \<Rightarrow> ('w + 'w) option" where
  "js_array_sort ops undef is_undef mem ts meth w =
     (case meth of
        NotCallable \<Rightarrow> Some (Inl w)
      | _ \<Rightarrow>
        (case op_length ops w of
           (None, w) \<Rightarrow> Some (Inl w)
         | (Some len, w) \<Rightarrow>
             do {
               r \<leftarrow> sort_collect ops is_undef mem len 0 0 [] 0 w;
               (case r of
                  Inl w \<Rightarrow> Some (Inl w)
                | Inr (array, undefined_count, w) \<Rightarrow>
                    do {
                      (asc, array) \<leftarrow> rqsort (js_array_cmp_generic (method_fun meth) ts)
                        \<lparr>asc_exception = False, asc_world = w, asc_str = (\<lambda>_. None)\<rparr> array;
                      Some (if asc_exception asc then Inl (asc_world asc)
                            else
                              (case sort_write ops array 0 (asc_world asc) of
                                 Inl w \<Rightarrow> Inl w
                               | Inr w \<Rightarrow>
                                   (case sort_undefs ops undef undefined_count (length array) w of
                                      Inl w \<Rightarrow> Inl w
                                    | Inr w \<Rightarrow>
                                        sort_deletes ops (len - (length array + undefined_count))
                                          (length array + undefined_count) w)))
                    })
             }))"

subsection \<open>The comparison of strings is consistent\<close>

lemma str_cmp_consistent: "consistent (\<lambda>x y. str_cmp (f x) (f y))"
  unfolding consistent_def
  by (auto simp: str_cmp_less not_less [symmetric] simp del: not_less)

subsection \<open>Memory safety of \<open>js_array_sort\<close>\<close>

lemma grow_size_bigger: "array_size < grow_size array_size"
  using div_mult_mod_eq [of "array_size + array_size div 2 + 31" 16]
    mod_less_divisor [of 16 "array_size + array_size div 2 + 31"]
  unfolding grow_size_def by linarith

lemma sort_collect_some:
  "length array \<le> array_size \<Longrightarrow>
   \<exists>r. sort_collect ops is_undef mem len i array_size array uc w = Some r"
proof (induction "len - i" arbitrary: i array_size array uc w rule: less_induct)
  case less
  show ?case
  proof (cases "i < len")
    case False
    then show ?thesis by (subst sort_collect.simps) simp
  next
    case True
    have rec: "\<exists>r. sort_collect ops is_undef mem len (i + 1) sz arr uc' w' = Some r"
      if "length arr \<le> sz" for sz arr uc' w'
      using less.hyps [of "i + 1" arr sz uc' w'] that True by simp
    let ?grow = "if length array \<ge> array_size
        then map_option (\<lambda>slack. grow_size array_size + slack) (mem (grow_size array_size))
        else Some array_size"
    show ?thesis
    proof (cases ?grow)
      case None
      with True show ?thesis by (subst sort_collect.simps) (simp only: if_True option.case, blast)
    next
      case (Some sz)
      have sz: "length array < sz"
        using Some less.prems grow_size_bigger [of array_size] by (auto split: if_splits)
      obtain r w1 where g: "op_tryget ops w i = (r, w1)" by (cases "op_tryget ops w i")
      have "sort_collect ops is_undef mem len i array_size array uc w =
          (case r of None \<Rightarrow> Some (Inl w1)
           | Some None \<Rightarrow> sort_collect ops is_undef mem len (i + 1) sz array uc w1
           | Some (Some v) \<Rightarrow>
               if is_undef v then sort_collect ops is_undef mem len (i + 1) sz array (uc + 1) w1
               else sort_collect ops is_undef mem len (i + 1) sz (array @ [\<lparr>vs_val = v, vs_pos = i\<rparr>]) uc w1)"
        using True Some sz by (subst sort_collect.simps) (simp add: g split: option.split)
      with rec sz show ?thesis by (auto split: option.split)
    qed
  qed
qed

lemma sort_phase_some:
  "\<exists>r. (do { (asc, array) \<leftarrow> rqsort cmp s xs; Some (f asc array) }) = Some r"
  using rqsort_runs [of xs cmp s] by (auto simp: runs_def)

lemma js_array_sort_some: "\<exists>r. js_array_sort ops undef is_undef mem ts meth w = Some r"
proof (cases "op_length ops w")
  case (Pair l w1)
  show ?thesis
  proof (cases l)
    case None
    with Pair show ?thesis by (cases meth) (simp_all add: js_array_sort_def)
  next
    case (Some len)
    obtain r where r: "sort_collect ops is_undef mem len 0 0 [] 0 w1 = Some r"
      using sort_collect_some [of "[]" 0 ops is_undef mem len 0 0 w1] by auto
    show ?thesis
    proof (cases r)
      case (Inl w2)
      with Pair Some r show ?thesis by (cases meth) (simp_all add: js_array_sort_def)
    next
      case (Inr q)
      obtain array uc w2 where "q = (array, uc, w2)" by (cases q)
      with Inr Pair Some r show ?thesis
        by (cases meth) (simp_all add: js_array_sort_def sort_phase_some)
    qed
  qed
qed

subsection \<open>Sorting an ordinary array\<close>

text \<open>An ordinary array of length \<open>len\<close>: a partial map from indices, with holes.\<close>

definition plain_ops :: "nat \<Rightarrow> (nat \<rightharpoonup> 'v, 'v) obj_ops" where
  "plain_ops len =
     \<lparr>op_length = (\<lambda>w. (Some len, w)), op_tryget = (\<lambda>w i. (Some (w i), w)),
      op_set = (\<lambda>w i v. (True, w(i \<mapsto> v))), op_delete = (\<lambda>w i. (True, w(i := None)))\<rparr>"

lemma plain_ops_simps [simp]:
  "op_length (plain_ops l) w = (Some l, w)" "op_tryget (plain_ops l) w i = (Some (w i), w)"
  "op_set (plain_ops l) w i v = (True, w(i \<mapsto> v))" "op_delete (plain_ops l) w i = (True, w(i := None))"
  by (simp_all add: plain_ops_def)

definition slots_from :: "('v \<Rightarrow> bool) \<Rightarrow> (nat \<rightharpoonup> 'v) \<Rightarrow> nat \<Rightarrow> nat \<Rightarrow> 'v ValueSlot list" where
  "slots_from is_undef w i len =
     map (\<lambda>k. \<lparr>vs_val = the (w k), vs_pos = k\<rparr>) (filter (\<lambda>k. \<exists>v. w k = Some v \<and> \<not> is_undef v) [i..<len])"

definition undefs_from :: "('v \<Rightarrow> bool) \<Rightarrow> (nat \<rightharpoonup> 'v) \<Rightarrow> nat \<Rightarrow> nat \<Rightarrow> nat" where
  "undefs_from is_undef w i len = length (filter (\<lambda>k. \<exists>v. w k = Some v \<and> is_undef v) [i..<len])"

lemma sort_collect_plain:
  assumes "length array \<le> array_size" and "\<And>n. mem n \<noteq> None"
  shows "sort_collect (plain_ops l) is_undef mem len i array_size array uc w =
    Some (Inr (array @ slots_from is_undef w i len, uc + undefs_from is_undef w i len, w))"
  using assms(1)
proof (induction "len - i" arbitrary: i array_size array uc rule: less_induct)
  case less
  show ?case
  proof (cases "i < len")
    case False
    then show ?thesis by (subst sort_collect.simps) (simp add: slots_from_def undefs_from_def)
  next
    case True
    obtain slack where slack: "mem (grow_size array_size) = Some slack" using assms(2) by blast
    define sz where "sz = (if length array \<ge> array_size then grow_size array_size + slack else array_size)"
    have sz: "length array < sz" using less.prems grow_size_bigger [of array_size] by (auto simp: sz_def)
    have g: "(if length array \<ge> array_size
         then map_option (\<lambda>slack. grow_size array_size + slack) (mem (grow_size array_size))
         else Some array_size) = Some sz"
      using slack by (simp add: sz_def)
    have up: "[i..<len] = i # [i + 1..<len]" using True by (simp add: upt_conv_Cons)
    have rec: "sort_collect (plain_ops l) is_undef mem len (i + 1) sz arr uc' w =
        Some (Inr (arr @ slots_from is_undef w (i + 1) len, uc' + undefs_from is_undef w (i + 1) len, w))"
      if "length arr \<le> sz" for arr uc'
      using less.hyps [of "i + 1" arr sz uc'] that True by simp
    show ?thesis
    proof (cases "w i")
      case None
      then show ?thesis using True sz rec [of array uc]
        by (subst sort_collect.simps) (simp add: g slots_from_def undefs_from_def up)
    next
      case (Some v)
      then show ?thesis using True sz rec [of array "uc + 1"] rec [of "array @ [\<lparr>vs_val = v, vs_pos = i\<rparr>]" uc]
        by (subst sort_collect.simps) (simp add: g slots_from_def undefs_from_def up)
    qed
  qed
qed

lemma sort_write_plain:
  assumes "\<forall>k < length array. vs_pos (array ! k) = n + k \<longrightarrow> w (n + k) = Some (vs_val (array ! k))"
  shows "sort_write (plain_ops l) array n w =
    Inr (\<lambda>i. if n \<le> i \<and> i < n + length array then Some (vs_val (array ! (i - n))) else w i)"
  using assms
proof (induction array arbitrary: n w)
  case (Cons a array)
  have tail: "\<forall>k < length array. vs_pos (array ! k) = n + 1 + k \<longrightarrow> w' (n + 1 + k) = Some (vs_val (array ! k))"
    if "\<And>i. n < i \<Longrightarrow> w' i = w i" for w'
    using Cons.prems that by (auto dest: spec [of _ "Suc k" for k])
  show ?case
  proof (cases "vs_pos a = n")
    case True
    then have "w n = Some (vs_val a)" using Cons.prems by (auto dest: spec [of _ 0])
    with True Cons.IH [OF tail [of w]] show ?thesis
      by (auto simp: fun_eq_iff nth_Cons' le_Suc_eq not_less_eq_eq [symmetric])
  next
    case False
    then have "sort_write (plain_ops l) (a # array) n w =
        sort_write (plain_ops l) array (n + 1) (w(n \<mapsto> vs_val a))" by simp
    also have "\<dots> = Inr (\<lambda>i. if n + 1 \<le> i \<and> i < n + 1 + length array then Some (vs_val (array ! (i - (n + 1))))
        else (w(n \<mapsto> vs_val a)) i)"
      by (rule Cons.IH [OF tail]) simp
    finally show ?thesis by (auto simp: fun_eq_iff nth_Cons')
  qed
qed (auto simp: fun_eq_iff)

lemma sort_undefs_plain:
  "sort_undefs (plain_ops l) undef k i w = Inr (\<lambda>j. if i \<le> j \<and> j < i + k then Some undef else w j)"
  by (induction k arbitrary: i w) (auto simp: fun_eq_iff)

lemma sort_deletes_plain:
  "sort_deletes (plain_ops l) k i w = Inr (\<lambda>j. if i \<le> j \<and> j < i + k then None else w j)"
  by (induction k arbitrary: i w) (auto simp: fun_eq_iff)

text \<open>The comparators of the two modes are in order in every state with no pending exception.\<close>

definition asc_quiet :: "'w \<Rightarrow> ('v \<Rightarrow> JSString) \<Rightarrow> ('w, 'v) array_sort_context \<Rightarrow> bool" where
  "asc_quiet w str psc \<longleftrightarrow> \<not> asc_exception psc \<and> asc_world psc = w \<and>
     (\<forall>x s. asc_str psc x = Some s \<longrightarrow> s = str (vs_val x))"

lemma slot_string_quiet:
  assumes "asc_quiet w str psc" and "\<And>v. ts w v = (Some (str v), w)"
  shows "\<exists>psc'. slot_string ts psc ap = (Some (str (vs_val ap)), psc') \<and> asc_quiet w str psc'"
  using assms by (auto simp: slot_string_def asc_quiet_def split: option.split)

lemma array_default_ordered:
  assumes ts: "\<And>v. ts w v = (Some (str v), w)"
  shows "ordered_cmp (js_array_cmp_generic None ts) (asc_quiet w str)
     (stable_cmp (\<lambda>x y. str_cmp (str x) (str y)) vs_val vs_pos)"
proof -
  have *: "\<exists>psc'. js_array_cmp_generic None ts psc a b =
      (stable_cmp (\<lambda>x y. str_cmp (str x) (str y)) vs_val vs_pos a b, psc') \<and> asc_quiet w str psc'"
    if q: "asc_quiet w str psc" for psc a b
  proof -
    obtain p1 where 1: "slot_string ts psc a = (Some (str (vs_val a)), p1)" "asc_quiet w str p1"
      using slot_string_quiet [OF q, of ts] ts by blast
    obtain p2 where 2: "slot_string ts p1 b = (Some (str (vs_val b)), p2)" "asc_quiet w str p2"
      using slot_string_quiet [OF 1(2), of ts] ts by blast
    from q have "\<not> asc_exception psc" by (simp add: asc_quiet_def)
    then show ?thesis
      using 1 2 by (simp add: js_array_cmp_generic_def str_cmp_some stable_cmp_def cmp_pos_def)
  qed
  show ?thesis
  proof (rule stable_cmp_ordered [OF str_cmp_consistent])
    fix psc :: "('b, 'a) array_sort_context" and a b assume "asc_quiet w str psc"
    from * [OF this, of a b]
    show "fst (js_array_cmp_generic None ts psc a b) =
        stable_cmp (\<lambda>x y. str_cmp (str x) (str y)) vs_val vs_pos a b"
      "asc_quiet w str (snd (js_array_cmp_generic None ts psc a b))"
      by auto
  qed
qed

lemma array_method_ordered:
  assumes "consistent g" and call: "\<And>x y. call w x y = (IntResult (g x y), w)"
  shows "ordered_cmp (js_array_cmp_generic (Some call) ts) (asc_quiet w str)
     (stable_cmp (sign_of g) vs_val vs_pos)"
proof (rule stable_cmp_ordered [OF consistent_sign_of [OF assms(1)]])
  fix psc :: "('b, 'a) array_sort_context" and a b :: "'a ValueSlot" assume "asc_quiet w str psc"
  then show "fst (js_array_cmp_generic (Some call) ts psc a b) = stable_cmp (sign_of g) vs_val vs_pos a b"
    "asc_quiet w str (snd (js_array_cmp_generic (Some call) ts psc a b))"
    using call consistent_refl [OF assms(1)]
    by (auto simp: js_array_cmp_generic_def stable_cmp_def sign_of_def cmp_pos_def asc_quiet_def)
qed

text \<open>
  The sorted array: the slots in order, then the undefined values, then holes; indices at or
  above the length are untouched.
\<close>

definition sorted_array :: "'v \<Rightarrow> 'v ValueSlot list \<Rightarrow> nat \<Rightarrow> nat \<Rightarrow> (nat \<rightharpoonup> 'v) \<Rightarrow> (nat \<rightharpoonup> 'v)" where
  "sorted_array undef ys uc len w =
     (\<lambda>i. if i < length ys then Some (vs_val (ys ! i))
          else if i < length ys + uc then Some undef
          else if i < len then None else w i)"

lemma js_array_sort_plain:
  assumes ord: "ordered_cmp (js_array_cmp_generic (method_fun meth) ts) (asc_quiet w str) cf"
    and "\<And>n. mem n \<noteq> None" and "meth \<noteq> NotCallable"
  shows "\<exists>ys. js_array_sort (plain_ops len) undef is_undef mem ts meth w =
       Some (Inr (sorted_array undef ys (undefs_from is_undef w 0 len) len w)) \<and>
     mset ys = mset (slots_from is_undef w 0 len) \<and> sorted_wrt (\<lambda>x y. cf x y \<le> 0) ys"
proof -
  let ?S = "slots_from is_undef w 0 len" and ?u = "undefs_from is_undef w 0 len"
  let ?s = "\<lparr>asc_exception = False, asc_world = w, asc_str = (\<lambda>_. None)\<rparr>"
  have "asc_quiet w str ?s" by (simp add: asc_quiet_def)
  from ordered_cmp.rqsort_orders [OF ord this, of ?S] obtain asc ys where
    r: "rqsort (js_array_cmp_generic (method_fun meth) ts) ?s ?S = Some (asc, ys)"
       "asc_quiet w str asc" "mset ys = mset ?S" "sorted_wrt (\<lambda>x y. cf x y \<le> 0) ys" by blast
  have q: "\<not> asc_exception asc" "asc_world asc = w" using r(2) by (auto simp: asc_quiet_def)
  have len: "length ys + ?u \<le> len"
  proof -
    have "length ys = length ?S" using mset_eq_length [OF r(3)] .
    also have "\<dots> + ?u = length (filter (\<lambda>k. w k \<noteq> None) [0..<len])"
      unfolding slots_from_def undefs_from_def length_map
      by (induction len) auto
    finally show ?thesis using length_filter_le [of "\<lambda>k. w k \<noteq> None" "[0..<len]"] by simp
  qed
  have vals: "w (vs_pos y) = Some (vs_val y)" if "y \<in> set ys" for y
    using mset_eq_setD [OF r(3)] that by (auto simp: slots_from_def)
  have wr: "sort_write (plain_ops len) ys 0 w = Inr (\<lambda>i. if i < length ys then Some (vs_val (ys ! i)) else w i)"
  proof -
    have "\<forall>k < length ys. vs_pos (ys ! k) = 0 + k \<longrightarrow> w (0 + k) = Some (vs_val (ys ! k))"
      using vals nth_mem by (metis add_0)
    from sort_write_plain [OF this, of len] show ?thesis by (simp cong: if_cong)
  qed
  have tail: "sort_deletes (plain_ops len) (len - (length ys + ?u)) (length ys + ?u)
      (\<lambda>j. if length ys \<le> j \<and> j < length ys + ?u then Some undef
           else if j < length ys then Some (vs_val (ys ! j)) else w j) =
      Inr (sorted_array undef ys ?u len w)"
    using len by (auto simp: sort_deletes_plain sorted_array_def fun_eq_iff)
  have "js_array_sort (plain_ops len) undef is_undef mem ts meth w =
      Some (Inr (sorted_array undef ys ?u len w))"
    using assms(3) r(1) q sort_collect_plain [of "[]" 0 mem len is_undef len 0 0 w, OF _ assms(2)]
    by (cases meth) (simp_all add: js_array_sort_def wr sort_undefs_plain tail)
  with r show ?thesis by blast
qed

text \<open>
  Claim C6. \<open>Array.prototype.sort\<close> never reads or writes outside its slot array and always comes to
  an end, whatever the object's property operations, the comparison function, the string
  conversion and the allocator do; a failure of any of them is reported as an exception.
\<close>

theorem array_sort_safe: "\<exists>r. js_array_sort ops undef is_undef mem ts meth w = Some r"
  by (rule js_array_sort_some)

text \<open>
  Claim C4. On an ordinary array \<open>Array.prototype.sort\<close> without a comparison function puts the
  defined elements first, in the lexicographic order of their strings' code units with equal
  strings kept in their old order, then the undefined values, then the holes.
\<close>

theorem array_sort_default:
  assumes "\<forall>v. ts w v = (Some (str v), w)" and "\<forall>n. mem n \<noteq> None"
  shows "\<exists>ys. js_array_sort (plain_ops len) undef is_undef mem ts MethodUndefined w =
       Some (Inr (sorted_array undef ys (undefs_from is_undef w 0 len) len w)) \<and>
     mset ys = mset (slots_from is_undef w 0 len) \<and>
     sorted_wrt (\<lambda>x y. str_chars (str (vs_val x)) < str_chars (str (vs_val y)) \<or>
       str_chars (str (vs_val x)) = str_chars (str (vs_val y)) \<and> vs_pos x \<le> vs_pos y) ys"
proof -
  have "ordered_cmp (js_array_cmp_generic (method_fun MethodUndefined) ts) (asc_quiet w str)
      (stable_cmp (\<lambda>x y. str_cmp (str x) (str y)) vs_val vs_pos)"
    using array_default_ordered [of ts w str] assms(1) by simp
  from js_array_sort_plain [OF this] assms(2) obtain ys where
    "js_array_sort (plain_ops len) undef is_undef mem ts MethodUndefined w =
       Some (Inr (sorted_array undef ys (undefs_from is_undef w 0 len) len w))"
    "mset ys = mset (slots_from is_undef w 0 len)"
    and srt: "sorted_wrt (\<lambda>x y. stable_cmp (\<lambda>x y. str_cmp (str x) (str y)) vs_val vs_pos x y \<le> 0) ys"
    by blast
  moreover have "sorted_wrt (\<lambda>x y. str_chars (str (vs_val x)) < str_chars (str (vs_val y)) \<or>
       str_chars (str (vs_val x)) = str_chars (str (vs_val y)) \<and> vs_pos x \<le> vs_pos y) ys"
    using srt by (rule sorted_wrt_mono_rel [rotated])
      (auto simp: not_less [symmetric] stable_cmp_sign str_cmp_less str_cmp_eq simp del: not_less)
  ultimately show ?thesis by blast
qed


definition array_example :: "nat \<rightharpoonup> int" where
  "array_example = [0 \<mapsto> 31, 1 \<mapsto> 0, 3 \<mapsto> 12, 4 \<mapsto> 21, 5 \<mapsto> 0, 6 \<mapsto> 11]"


theorem array_sort_default_witness:
  "\<exists>ys. js_array_sort (plain_ops 7) 0 (\<lambda>v. v = 0) (\<lambda>n. Some 0) (\<lambda>w v. (Some (Str8 [of_int v]), w))
        MethodUndefined array_example =
      Some (Inr (sorted_array 0 ys (undefs_from (\<lambda>v. v = 0) array_example 0 7) 7 array_example)) \<and>
    mset ys = mset (slots_from (\<lambda>v. v = 0) array_example 0 7)"
  using array_sort_default [of "\<lambda>w v. (Some (Str8 [of_int v]), w)" array_example "\<lambda>v. Str8 [of_int v]"
      "\<lambda>n. Some 0" 7 0 "\<lambda>v. v = 0"]
  by auto

end
