(* ===== verification/Char_Range.thy ===== *)
theory Char_Range
  imports Dyn_Buf
begin

text \<open>
  Character ranges of \<open>libunicode.c\<close>: sets of code points kept as a list of interval bounds
  (the points at even positions open an interval, those at odd positions close it), with the
  operations the Unicode property tables and the regular-expression compiler use. As for the
  dynamic buffer the allocator is a parameter; sizes are counted in points. Signed arithmetic
  on \<open>len\<close> and \<open>size\<close> is checked for overflow.
\<close>

subsection \<open>Definitions\<close>

record 'h CharRange =
  cr_len :: nat
  cr_size :: nat
  cr_points :: "u32 list"
  cr_mem_opaque :: 'h
  cr_realloc_func :: "('h, u32) realloc_fn"

datatype CharRangeOp = CR_OP_UNION | CR_OP_INTER | CR_OP_XOR

definition cr_default_realloc :: "(nat, u32) realloc_fn" where
  "cr_default_realloc avail ptr n =
     (if n \<le> avail + length ptr
      then (avail + length ptr - n, Some (take n ptr @ replicate (n - length ptr) 0))
      else (avail, None))"

definition cr_init :: "'h \<Rightarrow> ('h, u32) realloc_fn \<Rightarrow> 'h CharRange" where
  "cr_init mem_opaque realloc_func =
     \<lparr>cr_len = 0, cr_size = 0, cr_points = [], cr_mem_opaque = mem_opaque,
      cr_realloc_func = realloc_func\<rparr>"

definition cr_free :: "'h CharRange \<Rightarrow> 'h" where
  "cr_free cr = fst (cr_realloc_func cr (cr_mem_opaque cr) (cr_points cr) 0)"

definition cr_realloc :: "'h CharRange \<Rightarrow> nat \<Rightarrow> (int \<times> 'h CharRange) option" where
  "cr_realloc cr n =
     (if n > cr_size cr then
        do {
          grown \<leftarrow> cint (int (cr_size cr) * 3);
          let new_size = max n (nat grown div 2);
          let (h, new_buf) = cr_realloc_func cr (cr_mem_opaque cr) (cr_points cr) new_size;
          case new_buf of
            None \<Rightarrow> Some (-1, cr\<lparr>cr_mem_opaque := h\<rparr>)
          | Some b \<Rightarrow> Some (0, cr\<lparr>cr_mem_opaque := h, cr_points := b, cr_size := new_size\<rparr>)
        }
      else Some (0, cr))"

definition cr_copy :: "'h CharRange \<Rightarrow> 'h CharRange \<Rightarrow> (int \<times> 'h CharRange) option" where
  "cr_copy cr cr1 =
     do {
       (r, cr) \<leftarrow> cr_realloc cr (cr_len cr1);
       if r \<noteq> 0 then Some (-1, cr)
       else do {
         d \<leftarrow> rdn (cr_points cr1) 0 (cr_len cr1);
         b \<leftarrow> wrn (cr_points cr) 0 d;
         Some (0, cr\<lparr>cr_points := b, cr_len := cr_len cr1\<rparr>)
       }
     }"

definition cr_add_point :: "'h CharRange \<Rightarrow> u32 \<Rightarrow> (int \<times> 'h CharRange) option" where
  "cr_add_point cr v =
     do {
       (r, cr) \<leftarrow> (if cr_len cr \<ge> cr_size cr then cr_realloc cr (cr_len cr + 1) else Some (0, cr));
       if r \<noteq> 0 then Some (-1, cr)
       else do {
         b \<leftarrow> wr (cr_points cr) (cr_len cr) v;
         Some (0, cr\<lparr>cr_points := b, cr_len := cr_len cr + 1\<rparr>)
       }
     }"

definition cr_add_interval :: "'h CharRange \<Rightarrow> u32 \<Rightarrow> u32 \<Rightarrow> (int \<times> 'h CharRange) option" where
  "cr_add_interval cr c1 c2 =
     do {
       (r, cr) \<leftarrow> (if cr_len cr + 2 > cr_size cr then cr_realloc cr (cr_len cr + 2) else Some (0, cr));
       if r \<noteq> 0 then Some (-1, cr)
       else do {
         b \<leftarrow> wr (cr_points cr) (cr_len cr) c1;
         b \<leftarrow> wr b (cr_len cr + 1) c2;
         Some (0, cr\<lparr>cr_points := b, cr_len := cr_len cr + 2\<rparr>)
       }
     }"

text \<open>\<open>cr_compress\<close>: the inner loop that skips to the end of a run of adjacent intervals.\<close>

function compress_skip :: "u32 list \<Rightarrow> nat \<Rightarrow> nat \<Rightarrow> nat option" where
  "compress_skip pt len j =
     (if j + 3 < len then
        do {
          x \<leftarrow> rd pt (j + 1); y \<leftarrow> rd pt (j + 2);
          if x = y then compress_skip pt len (j + 2) else Some j
        }
      else Some j)"
  by pat_completeness auto
termination
  by (relation "measure (\<lambda>(pt, len, j). len - j)") auto

declare compress_skip.simps [simp del]

lemma compress_skip_le: "compress_skip pt len j = Some j' \<Longrightarrow> j \<le> j'"
proof (induction pt len j rule: compress_skip.induct)
  case (1 pt len j)
  from "1.prems" show ?case
    by (subst (asm) compress_skip.simps) (force split: if_splits bind_splits dest: "1.IH")
qed

function compress_loop :: "u32 list \<Rightarrow> nat \<Rightarrow> nat \<Rightarrow> nat \<Rightarrow> (u32 list \<times> nat) option" where
  "compress_loop pt len i k =
     (if i + 1 < len then
        do {
          x \<leftarrow> rd pt i; y \<leftarrow> rd pt (i + 1);
          if x = y then compress_loop pt len (i + 2) k
          else do {
            j \<leftarrow> compress_skip pt len i;
            pt \<leftarrow> wr pt k x;
            z \<leftarrow> rd pt (j + 1);
            pt \<leftarrow> wr pt (k + 1) z;
            compress_loop pt len (j + 2) (k + 2)
          }
        }
      else Some (pt, k))"
  by pat_completeness auto
termination
  by (relation "measure (\<lambda>(pt, len, i, k). len - i)") (auto dest!: compress_skip_le)

declare compress_loop.simps [simp del]

definition cr_compress :: "'h CharRange \<Rightarrow> 'h CharRange option" where
  "cr_compress cr =
     do {
       (pt, k) \<leftarrow> compress_loop (cr_points cr) (cr_len cr) 0 0;
       Some (cr\<lparr>cr_points := pt, cr_len := k\<rparr>)
     }"

fun cr_is_in :: "CharRangeOp \<Rightarrow> bool \<Rightarrow> bool \<Rightarrow> bool" where
  "cr_is_in CR_OP_UNION a b = (a \<or> b)"
| "cr_is_in CR_OP_INTER a b = (a \<and> b)"
| "cr_is_in CR_OP_XOR a b = (a \<noteq> b)"

text \<open>The next point of the two lists in increasing order, with the indices after it.\<close>

definition cr_next :: "u32 list \<Rightarrow> nat \<Rightarrow> u32 list \<Rightarrow> nat \<Rightarrow> nat \<Rightarrow> nat \<Rightarrow> (u32 \<times> nat \<times> nat) option option" where
  "cr_next a_pt a_len b_pt b_len a_idx b_idx =
     (if a_idx < a_len \<and> b_idx < b_len then
        do {
          x \<leftarrow> rd a_pt a_idx; y \<leftarrow> rd b_pt b_idx;
          Some (Some (if x < y then (x, a_idx + 1, b_idx)
                      else if x = y then (x, a_idx + 1, b_idx + 1)
                      else (y, a_idx, b_idx + 1)))
        }
      else if a_idx < a_len then do { x \<leftarrow> rd a_pt a_idx; Some (Some (x, a_idx + 1, b_idx)) }
      else if b_idx < b_len then do { y \<leftarrow> rd b_pt b_idx; Some (Some (y, a_idx, b_idx + 1)) }
      else Some None)"

lemma cr_next_mono:
  "cr_next a_pt a_len b_pt b_len i j = Some (Some (v, i', j')) \<Longrightarrow>
     (a_len - i') + (b_len - j') < (a_len - i) + (b_len - j)"
  by (auto simp: cr_next_def split: if_splits bind_splits)

function cr_op_loop :: "'h CharRange \<Rightarrow> u32 list \<Rightarrow> nat \<Rightarrow> u32 list \<Rightarrow> nat \<Rightarrow> CharRangeOp \<Rightarrow> nat \<Rightarrow> nat \<Rightarrow>
    (int \<times> 'h CharRange) option" where
  "cr_op_loop cr a_pt a_len b_pt b_len op a_idx b_idx =
     do {
       nxt \<leftarrow> cr_next a_pt a_len b_pt b_len a_idx b_idx;
       (case nxt of
          None \<Rightarrow> Some (0, cr)
        | Some (v, a_idx, b_idx) \<Rightarrow>
            if cr_is_in op (odd a_idx) (odd b_idx) \<noteq> odd (cr_len cr)
            then do {
              (r, cr) \<leftarrow> cr_add_point cr v;
              if r \<noteq> 0 then Some (-1, cr)
              else cr_op_loop cr a_pt a_len b_pt b_len op a_idx b_idx
            }
            else cr_op_loop cr a_pt a_len b_pt b_len op a_idx b_idx)
     }"
  by pat_completeness auto
termination
  by (relation "measure (\<lambda>(cr, a_pt, a_len, b_pt, b_len, op, i, j). (a_len - i) + (b_len - j))")
     (auto dest!: cr_next_mono)

declare cr_op_loop.simps [simp del]

definition cr_op :: "'h CharRange \<Rightarrow> u32 list \<Rightarrow> nat \<Rightarrow> u32 list \<Rightarrow> nat \<Rightarrow> CharRangeOp \<Rightarrow>
    (int \<times> 'h CharRange) option" where
  "cr_op cr a_pt a_len b_pt b_len op =
     do {
       (r, cr) \<leftarrow> cr_op_loop cr a_pt a_len b_pt b_len op 0 0;
       if r \<noteq> 0 then Some (-1, cr) else do { cr \<leftarrow> cr_compress cr; Some (0, cr) }
     }"

text \<open>The old block is freed after the union has been built in a new one.\<close>

definition cr_union1 :: "'h CharRange \<Rightarrow> u32 list \<Rightarrow> nat \<Rightarrow> (int \<times> 'h CharRange) option" where
  "cr_union1 cr b_pt b_len =
     (let a = cr; cr = cr\<lparr>cr_len := 0, cr_size := 0, cr_points := []\<rparr> in
      do {
        (ret, cr) \<leftarrow> cr_op cr (cr_points a) (cr_len a) b_pt b_len CR_OP_UNION;
        Some (ret, cr\<lparr>cr_mem_opaque := cr_free (a\<lparr>cr_mem_opaque := cr_mem_opaque cr\<rparr>)\<rparr>)
      })"

definition cr_union_interval :: "'h CharRange \<Rightarrow> u32 \<Rightarrow> u32 \<Rightarrow> (int \<times> 'h CharRange) option" where
  "cr_union_interval cr c1 c2 = cr_union1 cr [c1, c2 + 1] 2"

definition cr_invert :: "'h CharRange \<Rightarrow> (int \<times> 'h CharRange) option" where
  "cr_invert cr =
     (let len = cr_len cr in
      do {
        (r, cr) \<leftarrow> cr_realloc cr (len + 2);
        if r \<noteq> 0 then Some (-1, cr)
        else do {
          d \<leftarrow> rdn (cr_points cr) 0 len;
          pt \<leftarrow> wrn (cr_points cr) 1 d;
          pt \<leftarrow> wr pt 0 0;
          pt \<leftarrow> wr pt (len + 1) (- 1);
          cr \<leftarrow> cr_compress (cr\<lparr>cr_points := pt, cr_len := len + 2\<rparr>);
          Some (0, cr)
        }
      })"

subsection \<open>The set a list of points stands for\<close>

fun cr_mem :: "u32 list \<Rightarrow> u32 \<Rightarrow> bool" where
  "cr_mem (lo # hi # pts) c = ((lo \<le> c \<and> c < hi) \<or> cr_mem pts c)"
| "cr_mem _ c = False"

text \<open>Canonical lists: an even number of points, strictly increasing.\<close>

definition cr_canonical :: "u32 list \<Rightarrow> bool" where
  "cr_canonical pts \<longleftrightarrow> even (length pts) \<and> sorted_wrt (<) pts"

definition cr_sorted :: "u32 list \<Rightarrow> bool" where
  "cr_sorted pts \<longleftrightarrow> even (length pts) \<and> sorted pts"

text \<open>On a sorted list membership is the parity of the number of points at or below.\<close>

definition cnt :: "u32 list \<Rightarrow> u32 \<Rightarrow> nat" where
  "cnt pts c = length (filter (\<lambda>p. p \<le> c) pts)"

lemma cnt_simps [simp]: "cnt [] c = 0" "cnt (p # pts) c = (if p \<le> c then Suc (cnt pts c) else cnt pts c)"
  by (simp_all add: cnt_def)

lemma cnt_append [simp]: "cnt (xs @ ys) c = cnt xs c + cnt ys c"
  by (simp add: cnt_def)

lemma cnt_zero: "\<forall>p \<in> set pts. c < p \<Longrightarrow> cnt pts c = 0"
  by (simp add: cnt_def filter_empty_conv not_le)

lemma cr_mem_parity: "cr_sorted pts \<Longrightarrow> cr_mem pts c \<longleftrightarrow> odd (cnt pts c)"
proof (induction pts c rule: cr_mem.induct)
  case (1 lo hi pts c)
  then have s: "lo \<le> hi" "\<forall>p \<in> set pts. hi \<le> p" "cr_sorted pts" by (auto simp: cr_sorted_def)
  show ?case
  proof (cases "c < hi")
    case True
    then have "cnt pts c = 0" using s by (intro cnt_zero) auto
    then show ?thesis using True 1 s by (auto simp: not_le [symmetric])
  next
    case False
    then show ?thesis using 1 s by auto
  qed
qed (auto simp: cr_sorted_def)

lemma cr_canonical_sorted: "cr_canonical pts \<Longrightarrow> cr_sorted pts"
  by (auto simp: cr_canonical_def cr_sorted_def intro: strict_sorted_imp_sorted)

subsection \<open>Merging and compressing, on lists\<close>

definition cr_emit :: "CharRangeOp \<Rightarrow> bool \<Rightarrow> bool \<Rightarrow> bool \<Rightarrow> bool \<Rightarrow> u32 \<Rightarrow> u32 list" where
  "cr_emit op pa pb pa' pb' v = (if cr_is_in op pa' pb' \<noteq> cr_is_in op pa pb then [v] else [])"

fun cr_merge :: "CharRangeOp \<Rightarrow> bool \<Rightarrow> bool \<Rightarrow> u32 list \<Rightarrow> u32 list \<Rightarrow> u32 list" where
  "cr_merge op pa pb [] [] = []"
| "cr_merge op pa pb (x # a) [] = cr_emit op pa pb (\<not> pa) pb x @ cr_merge op (\<not> pa) pb a []"
| "cr_merge op pa pb [] (y # b) = cr_emit op pa pb pa (\<not> pb) y @ cr_merge op pa (\<not> pb) [] b"
| "cr_merge op pa pb (x # a) (y # b) =
     (if x < y then cr_emit op pa pb (\<not> pa) pb x @ cr_merge op (\<not> pa) pb a (y # b)
      else if x = y then cr_emit op pa pb (\<not> pa) (\<not> pb) x @ cr_merge op (\<not> pa) (\<not> pb) a b
      else cr_emit op pa pb pa (\<not> pb) y @ cr_merge op pa (\<not> pb) (x # a) b)"

lemma cr_merge_set: "p \<in> set (cr_merge op pa pb a b) \<Longrightarrow> p \<in> set a \<or> p \<in> set b"
  by (induction op pa pb a b rule: cr_merge.induct) (auto simp: cr_emit_def split: if_splits)

lemma sorted_emit: "sorted m \<Longrightarrow> \<forall>p \<in> set m. v \<le> p \<Longrightarrow> sorted (cr_emit op pa pb pa' pb' v @ m)"
  by (simp add: cr_emit_def)

lemma cr_merge_lower:
  assumes "\<forall>p \<in> set a. v \<le> p" and "\<forall>p \<in> set b. v \<le> p"
  shows "\<forall>p \<in> set (cr_merge op pa pb a b). v \<le> p"
  using assms cr_merge_set by blast

lemma cr_merge_sorted: "sorted a \<Longrightarrow> sorted b \<Longrightarrow> sorted (cr_merge op pa pb a b)"
proof (induction op pa pb a b rule: cr_merge.induct)
  case (4 op pa pb x a y b)
  have low: "\<forall>p \<in> set (x # a). x \<le> p" "\<forall>p \<in> set (y # b). y \<le> p" using "4.prems" by auto
  consider "x < y" | "x = y" | "y < x" by force
  then show ?case
  proof cases
    case 1
    then have "\<forall>p \<in> set (y # b). x \<le> p" using low(2) by (meson less_imp_le order_trans)
    moreover have "sorted (cr_merge op (\<not> pa) pb a (y # b))" using 4 1 by simp
    ultimately have "sorted (cr_emit op pa pb (\<not> pa) pb x @ cr_merge op (\<not> pa) pb a (y # b))"
      using low(1) by (intro sorted_emit cr_merge_lower) auto
    with 1 show ?thesis by simp
  next
    case 2
    then have "sorted (cr_merge op (\<not> pa) (\<not> pb) a b)" using 4 by simp
    then have "sorted (cr_emit op pa pb (\<not> pa) (\<not> pb) x @ cr_merge op (\<not> pa) (\<not> pb) a b)"
      using low 2 by (intro sorted_emit cr_merge_lower) auto
    with 2 show ?thesis by simp
  next
    case 3
    then have "\<forall>p \<in> set (x # a). y \<le> p" using low(1) by (meson less_imp_le order_trans)
    moreover have "sorted (cr_merge op pa (\<not> pb) (x # a) b)" using 4 3 by auto
    ultimately have "sorted (cr_emit op pa pb pa (\<not> pb) y @ cr_merge op pa (\<not> pb) (x # a) b)"
      using low(2) by (intro sorted_emit cr_merge_lower) auto
    with 3 show ?thesis by auto
  qed
qed (auto intro!: sorted_emit dest!: cr_merge_set)

lemma cr_merge_length:
  "(cr_is_in op pa pb \<noteq> odd (length (cr_merge op pa pb a b))) =
     cr_is_in op (pa \<noteq> odd (length a)) (pb \<noteq> odd (length b))"
  by (induction op pa pb a b rule: cr_merge.induct) (auto simp: cr_emit_def)

lemma cr_merge_length_even:
  assumes "even (length a)" and "even (length b)"
  shows "even (length (cr_merge op pa pb a b))"
  using cr_merge_length [of op pa pb a b] assms by auto

lemma cr_merge_shorter: "length (cr_merge op pa pb a b) \<le> length a + length b"
  by (induction op pa pb a b rule: cr_merge.induct) (auto simp: cr_emit_def)

lemma cr_merge_above:
  assumes "\<forall>p \<in> set a. c < p" and "\<forall>p \<in> set b. c < p"
  shows "cnt (cr_merge op pa pb a b) c = 0" "cnt a c = 0" "cnt b c = 0"
  using assms cr_merge_set by (fastforce intro!: cnt_zero)+

lemma cr_merge_parity:
  "sorted a \<Longrightarrow> sorted b \<Longrightarrow>
   (cr_is_in op pa pb \<noteq> odd (cnt (cr_merge op pa pb a b) c)) =
     cr_is_in op (pa \<noteq> odd (cnt a c)) (pb \<noteq> odd (cnt b c))"
proof (induction op pa pb a b rule: cr_merge.induct)
  case (2 op pa pb x a)
  show ?case
  proof (cases "x \<le> c")
    case True
    with 2 show ?thesis by (auto simp: cr_emit_def)
  next
    case False
    then have "\<forall>p \<in> set (x # a). c < p" using "2.prems" by (auto simp: not_le intro: less_le_trans)
    from cr_merge_above [OF this, of "[]"] cr_merge_above [OF _ this, of "[]"] show ?thesis
      by (simp del: cr_merge.simps cnt_simps(2))
  qed
next
  case (3 op pa pb y b)
  show ?case
  proof (cases "y \<le> c")
    case True
    with 3 show ?thesis by (auto simp: cr_emit_def)
  next
    case False
    then have "\<forall>p \<in> set (y # b). c < p" using "3.prems" by (auto simp: not_le intro: less_le_trans)
    from cr_merge_above [OF this, of "[]"] cr_merge_above [OF _ this, of "[]"] show ?thesis
      by (simp del: cr_merge.simps cnt_simps(2))
  qed
next
  case (4 op pa pb x a y b)
  show ?case
  proof (cases "x \<le> c \<or> y \<le> c")
    case False
    then have "\<forall>p \<in> set (x # a). c < p" "\<forall>p \<in> set (y # b). c < p"
      using "4.prems" by (auto simp: not_le intro: less_le_trans)
    from cr_merge_above [OF this] show ?thesis by (simp del: cr_merge.simps cnt_simps)
  next
    case le: True
    consider "x < y" | "x = y" | "y < x" by force
    then show ?thesis
    proof cases
      case 1
      then have "x \<le> c" using le by auto
      with 4 1 show ?thesis by (auto simp: cr_emit_def)
    next
      case 2
      with 4 le show ?thesis by (auto simp: cr_emit_def)
    next
      case 3
      then have "y \<le> c" using le by auto
      with 4 3 show ?thesis by (auto simp: cr_emit_def)
    qed
  qed
qed simp

text \<open>Compressing on lists: the end of a run of adjacent intervals and what follows it.\<close>

fun comp_run :: "u32 \<Rightarrow> u32 list \<Rightarrow> u32 \<times> u32 list" where
  "comp_run hi (lo' # hi' # pts) = (if hi = lo' then comp_run hi' pts else (hi, lo' # hi' # pts))"
| "comp_run hi pts = (hi, pts)"

lemma comp_run_length: "comp_run hi pts = (e, r) \<Longrightarrow> length r \<le> length pts"
  by (induction hi pts rule: comp_run.induct) (auto split: if_splits)

function cr_comp :: "u32 list \<Rightarrow> u32 list" where
  "cr_comp (lo # hi # pts) =
     (if lo = hi then cr_comp pts else (let (e, r) = comp_run hi pts in lo # e # cr_comp r))"
| "cr_comp [] = []"
| "cr_comp [x] = []"
  by pat_completeness auto
termination
  by (relation "measure length") (auto dest!: comp_run_length [OF sym])

lemma cr_comp_shorter: "length (cr_comp pts) \<le> length pts"
proof (induction pts rule: cr_comp.induct)
  case (1 lo hi pts)
  obtain e r where er: "comp_run hi pts = (e, r)" by fastforce
  show ?case
  proof (cases "lo = hi")
    case True
    then show ?thesis using 1 by simp
  next
    case False
    then show ?thesis using "1.IH"(2) [OF False er [symmetric] refl] comp_run_length [OF er] er by simp
  qed
qed simp_all

lemma comp_run_props:
  "cr_sorted pts \<Longrightarrow> \<forall>p \<in> set pts. hi \<le> p \<Longrightarrow> comp_run hi pts = (e, r) \<Longrightarrow>
   cr_sorted r \<and> hi \<le> e \<and> (\<forall>p \<in> set r. e < p) \<and> even (cnt (hi # pts) c) = even (cnt (e # r) c) \<and>
   set (e # r) \<subseteq> set (hi # pts)"
proof (induction hi pts arbitrary: e r rule: comp_run.induct)
  case (1 hi lo' hi' pts)
  show ?case
  proof (cases "hi = lo'")
    case True
    have "cr_sorted pts" "\<forall>p \<in> set pts. hi' \<le> p" "lo' \<le> hi'" using "1.prems"(1) by (auto simp: cr_sorted_def)
    with "1.IH" [OF True, of e r] "1.prems"(3) True show ?thesis
      by (auto intro: order_trans)
  next
    case False
    then have er: "e = hi" "r = lo' # hi' # pts" using "1.prems"(3) by auto
    have "hi < lo'" using "1.prems"(2) False by (simp add: order.strict_iff_order)
    moreover have "\<forall>p \<in> set r. lo' \<le> p" using "1.prems"(1) er by (auto simp: cr_sorted_def)
    ultimately show ?thesis using "1.prems"(1) er by (auto intro: less_le_trans)
  qed
qed (auto simp: cr_sorted_def)

lemma comp_props:
  "cr_sorted pts \<Longrightarrow>
   cr_canonical (cr_comp pts) \<and> even (cnt (cr_comp pts) c) = even (cnt pts c) \<and> set (cr_comp pts) \<subseteq> set pts"
proof (induction pts rule: cr_comp.induct)
  case (1 lo hi pts)
  have s: "cr_sorted pts" "\<forall>p \<in> set pts. hi \<le> p" "lo \<le> hi" using "1.prems" by (auto simp: cr_sorted_def)
  show ?case
  proof (cases "lo = hi")
    case True
    with 1 s show ?thesis by auto
  next
    case False
    obtain e r where er: "comp_run hi pts = (e, r)" by (cases "comp_run hi pts")
    note p = comp_run_props [OF s(1,2) er, of c]
    have ih: "cr_canonical (cr_comp r)" "even (cnt (cr_comp r) c) = even (cnt r c)" "set (cr_comp r) \<subseteq> set r"
      using "1.IH"(2) [OF False er [symmetric] refl] p by auto
    have "lo < e" using s(3) False p by (meson le_neq_trans order.strict_trans2)
    moreover have "\<forall>q \<in> set (cr_comp r). e < q" using p ih(3) by blast
    ultimately have "cr_canonical (lo # e # cr_comp r)"
      using ih(1) by (auto simp: cr_canonical_def intro: less_trans)
    moreover have "even (cnt (lo # e # cr_comp r) c) = even (cnt (lo # hi # pts) c)"
      using p ih(2) by auto
    moreover have "set (lo # e # cr_comp r) \<subseteq> set (lo # hi # pts)" using p ih(3) by auto
    ultimately show ?thesis using False er by simp
  qed
qed (auto simp: cr_sorted_def cr_canonical_def)

text \<open>The in-place loops compute \<open>cr_comp\<close>: the part before \<open>k\<close> is done, the part from \<open>i\<close> is to do.\<close>

definition rest :: "u32 list \<Rightarrow> nat \<Rightarrow> nat \<Rightarrow> u32 list" where
  "rest pt len i = take (len - i) (drop i pt)"

lemma rest_step: "i < len \<Longrightarrow> len \<le> length pt \<Longrightarrow> rest pt len i = pt ! i # rest pt len (i + 1)"
  by (simp add: rest_def Cons_nth_drop_Suc [symmetric] Suc_diff_Suc [symmetric])

lemma rest_end [simp]: "len \<le> i \<Longrightarrow> rest pt len i = []"
  by (simp add: rest_def)

lemma compress_skip_run:
  assumes "j + 2 \<le> len" and "len \<le> length pt" and "even (len - j)"
  shows "\<exists>j'. compress_skip pt len j = Some j' \<and> j \<le> j' \<and> j' + 2 \<le> len \<and> even (len - j') \<and>
     comp_run (pt ! (j + 1)) (rest pt len (j + 2)) = (pt ! (j' + 1), rest pt len (j' + 2))"
  using assms
proof (induction "len - j" arbitrary: j rule: less_induct)
  case less
  show ?case
  proof (cases "j + 3 < len")
    case False
    then have "len = j + 2" using less.prems by (cases "len = j + 3") auto
    then show ?thesis using less.prems by (subst compress_skip.simps) auto
  next
    case True
    have r: "rest pt len (j + 2) = pt ! (j + 2) # pt ! (j + 3) # rest pt len (j + 4)"
      using True less.prems rest_step [of "j + 2" len pt] rest_step [of "j + 3" len pt]
      by (simp add: numeral_eq_Suc)
    show ?thesis
    proof (cases "pt ! (j + 1) = pt ! (j + 2)")
      case eq: True
      have "\<exists>j'. compress_skip pt len (j + 2) = Some j' \<and> j + 2 \<le> j' \<and> j' + 2 \<le> len \<and> even (len - j') \<and>
         comp_run (pt ! (j + 2 + 1)) (rest pt len (j + 2 + 2)) = (pt ! (j' + 1), rest pt len (j' + 2))"
        using True less.prems by (intro less.hyps) auto
      with eq True less.prems r show ?thesis
        by (subst compress_skip.simps) (auto simp: numeral_eq_Suc)
    next
      case neq: False
      with True less.prems r show ?thesis by (subst compress_skip.simps) auto
    qed
  qed
qed

lemma compress_loop_comp:
  assumes "k \<le> i" and "i \<le> len" and "len \<le> length pt" and "even (len - i)"
  shows "\<exists>pt' k'. compress_loop pt len i k = Some (pt', k') \<and> length pt' = length pt \<and> k' \<le> len \<and>
     take k' pt' = take k pt @ cr_comp (rest pt len i)"
  using assms
proof (induction "len - i" arbitrary: pt i k rule: less_induct)
  case less
  show ?case
  proof (cases "i + 1 < len")
    case False
    then have "i = len" using less.prems by (cases "len = i + 1") auto
    with less.prems show ?thesis by (subst compress_loop.simps) auto
  next
    case True
    have r: "rest pt len i = pt ! i # pt ! (i + 1) # rest pt len (i + 2)"
      using True less.prems rest_step [of i len pt] rest_step [of "i + 1" len pt] by simp
    show ?thesis
    proof (cases "pt ! i = pt ! (i + 1)")
      case eq: True
      have "\<exists>pt' k'. compress_loop pt len (i + 2) k = Some (pt', k') \<and> length pt' = length pt \<and> k' \<le> len \<and>
          take k' pt' = take k pt @ cr_comp (rest pt len (i + 2))"
        using True less.prems by (intro less.hyps) auto
      with eq True less.prems r show ?thesis by (subst compress_loop.simps) auto
    next
      case neq: False
      obtain j where j: "compress_skip pt len i = Some j" "i \<le> j" "j + 2 \<le> len" "even (len - j)"
        "comp_run (pt ! (i + 1)) (rest pt len (i + 2)) = (pt ! (j + 1), rest pt len (j + 2))"
        using compress_skip_run [of i len pt] True less.prems by auto
      define pt1 where "pt1 = pt[k := pt ! i, k + 1 := pt ! (j + 1)]"
      have rd: "rd (pt[k := pt ! i]) (j + 1) = Some (pt ! (j + 1))" using j less.prems by auto
      have same: "rest pt1 len (j + 2) = rest pt len (j + 2)"
        using j less.prems by (simp add: rest_def pt1_def)
      have tk: "take (k + 2) pt1 = take k pt @ [pt ! i, pt ! (j + 1)]"
        using j less.prems by (intro nth_equalityI) (auto simp: pt1_def nth_append nth_list_update less_Suc_eq)
      have "\<exists>pt' k'. compress_loop pt1 len (j + 2) (k + 2) = Some (pt', k') \<and> length pt' = length pt1 \<and> k' \<le> len \<and>
          take k' pt' = take (k + 2) pt1 @ cr_comp (rest pt1 len (j + 2))"
        using j less.prems by (intro less.hyps) (auto simp: pt1_def)
      moreover have "compress_loop pt len i k = compress_loop pt1 len (j + 2) (k + 2)"
        using neq True less.prems j rd by (subst compress_loop.simps) (simp add: pt1_def)
      moreover have "length pt1 = length pt" by (simp add: pt1_def)
      moreover have "cr_comp (rest pt len i) = pt ! i # pt ! (j + 1) # cr_comp (rest pt len (j + 2))"
        using neq r j(5) by simp
      ultimately show ?thesis unfolding same tk by auto
    qed
  qed
qed

subsection \<open>The contract of the operations\<close>

text \<open>
  The invariant, relative to a bound \<open>N\<close> on the number of points: with \<open>N \<le> 2 ^ 28\<close> no signed
  arithmetic overflows.
\<close>

definition cr_data :: "'h CharRange \<Rightarrow> u32 list" where
  "cr_data cr = take (cr_len cr) (cr_points cr)"

definition cr_wf :: "nat \<Rightarrow> ('h, u32) realloc_fn \<Rightarrow> 'h CharRange \<Rightarrow> bool" where
  "cr_wf N f cr \<longleftrightarrow> cr_realloc_func cr = f \<and> length (cr_points cr) = cr_size cr \<and>
     cr_len cr \<le> cr_size cr \<and> 2 * cr_size cr \<le> 3 * N \<and> N \<le> 2 ^ 28"

definition cr_gives :: "nat \<Rightarrow> ('h, u32) realloc_fn \<Rightarrow> u32 list \<Rightarrow> (int \<times> 'h CharRange) option \<Rightarrow> bool" where
  "cr_gives N f d res \<longleftrightarrow>
     (\<exists>cr'. cr_wf N f cr' \<and> (res = Some (0, cr') \<and> cr_data cr' = d \<or> res = Some (-1, cr')))"

lemma cr_gives_0: "cr_wf N f cr \<Longrightarrow> cr_data cr = d \<Longrightarrow> cr_gives N f d (Some (0, cr))"
  by (auto simp: cr_gives_def)

lemma cr_gives_fail: "cr_wf N f cr \<Longrightarrow> cr_gives N f d (Some (-1, cr))"
  by (auto simp: cr_gives_def)

lemma cr_wf_len: "cr_wf N f cr \<Longrightarrow> length (cr_data cr) = cr_len cr"
  by (simp add: cr_wf_def cr_data_def)

lemma Suc_Suc_diff: "\<not> i \<le> Suc k \<Longrightarrow> Suc (Suc (i - 2)) = i"
  by simp

locale cr_reallocator = reallocator rf for rf :: "('h, u32) realloc_fn"
begin

lemma cr_realloc_cases:
  assumes wf: "cr_wf N rf cr" and n: "n \<le> N"
  obtains (room) cr' where "cr_realloc cr n = Some (0, cr')" "cr_wf N rf cr'" "n \<le> cr_size cr'"
      "cr_data cr' = cr_data cr" "cr_len cr' = cr_len cr"
  | (fail) cr' where "cr_realloc cr n = Some (-1, cr')" "cr_wf N rf cr'"
proof (cases "n > cr_size cr")
  case False
  with wf show thesis by (intro room [of cr]) (auto simp: cr_realloc_def)
next
  case True
  let ?m = "max n (cr_size cr * 3 div 2)"
  have c: "cint (int (cr_size cr) * 3) = Some (int (cr_size cr) * 3)"
    using wf by (auto simp: cr_wf_def)
  have g: "nat (int (cr_size cr) * 3) = cr_size cr * 3" by simp
  have m: "2 * ?m \<le> 3 * N" using True n by auto
  obtain h b where f: "rf (cr_mem_opaque cr) (cr_points cr) ?m = (h, b)" by fastforce
  show thesis
  proof (cases b)
    case None
    then have "cr_realloc cr n = Some (-1, cr\<lparr>cr_mem_opaque := h\<rparr>)"
      using True wf f by (simp add: cr_realloc_def c g cr_wf_def Let_def)
    moreover have "cr_wf N rf (cr\<lparr>cr_mem_opaque := h\<rparr>)" using wf by (simp add: cr_wf_def)
    ultimately show thesis by (rule fail)
  next
    case (Some d)
    let ?cr = "cr\<lparr>cr_mem_opaque := h, cr_points := d, cr_size := ?m\<rparr>"
    have "cr_realloc cr n = Some (0, ?cr)"
      using True wf f Some by (simp add: cr_realloc_def c g cr_wf_def Let_def)
    moreover have "length d = ?m" using rf_length [OF f [unfolded Some]] .
    moreover have "take (cr_len cr) d = take (cr_len cr) (cr_points cr)"
      using wf True by (intro rf_prefix [OF f [unfolded Some]]) (auto simp: cr_wf_def)
    ultimately show thesis using wf m True by (intro room [of ?cr]) (auto simp: cr_wf_def cr_data_def)
  qed
qed

text \<open>Storing points behind the data, once there is room.\<close>

lemma cr_store:
  assumes "cr_wf N rf cr" and "cr_len cr + length d \<le> cr_size cr"
  shows "cr_wf N rf (cr\<lparr>cr_points := take (cr_len cr) (cr_points cr) @ d @ drop (cr_len cr + length d) (cr_points cr),
      cr_len := cr_len cr + length d\<rparr>)"
    and "cr_data (cr\<lparr>cr_points := take (cr_len cr) (cr_points cr) @ d @ drop (cr_len cr + length d) (cr_points cr),
      cr_len := cr_len cr + length d\<rparr>) = cr_data cr @ d"
  using assms by (auto simp: cr_wf_def cr_data_def)

lemma cr_add_point_gives:
  assumes wf: "cr_wf N rf cr" and n: "cr_len cr + 1 \<le> N"
  shows "cr_gives N rf (cr_data cr @ [v]) (cr_add_point cr v)"
proof -
  have store: "cr_gives N rf (cr_data cr @ [v])
      (do { b \<leftarrow> wr (cr_points cr') (cr_len cr') v; Some (0, cr'\<lparr>cr_points := b, cr_len := cr_len cr' + 1\<rparr>) })"
    if "cr_wf N rf cr'" "cr_len cr' < cr_size cr'" "cr_data cr' = cr_data cr" for cr'
  proof -
    have "wr (cr_points cr') (cr_len cr') v =
        Some (take (cr_len cr') (cr_points cr') @ [v] @ drop (cr_len cr' + length [v]) (cr_points cr'))"
      using that by (simp add: cr_wf_def upd_conv_take_nth_drop)
    then show ?thesis using cr_store [OF that(1), of "[v]"] that by (auto intro: cr_gives_0)
  qed
  show ?thesis
  proof (cases "cr_len cr \<ge> cr_size cr")
    case False
    with store [OF wf] show ?thesis by (simp add: cr_add_point_def)
  next
    case True
    from wf n show ?thesis
    proof (cases rule: cr_realloc_cases)
      case (room cr')
      with True store [of cr'] show ?thesis by (simp add: cr_add_point_def)
    next
      case (fail cr')
      with True show ?thesis by (simp add: cr_add_point_def cr_gives_fail)
    qed
  qed
qed

lemma cr_add_interval_gives:
  assumes wf: "cr_wf N rf cr" and n: "cr_len cr + 2 \<le> N"
  shows "cr_gives N rf (cr_data cr @ [c1, c2]) (cr_add_interval cr c1 c2)"
proof -
  have store: "cr_gives N rf (cr_data cr @ [c1, c2])
      (do { b \<leftarrow> wr (cr_points cr') (cr_len cr') c1; b \<leftarrow> wr b (cr_len cr' + 1) c2;
            Some (0, cr'\<lparr>cr_points := b, cr_len := cr_len cr' + 2\<rparr>) })"
    if "cr_wf N rf cr'" "cr_len cr' + 2 \<le> cr_size cr'" "cr_data cr' = cr_data cr" for cr'
  proof -
    have "(cr_points cr')[cr_len cr' := c1, cr_len cr' + 1 := c2] =
        take (cr_len cr') (cr_points cr') @ [c1, c2] @ drop (cr_len cr' + length [c1, c2]) (cr_points cr')"
      using that by (intro nth_equalityI) (auto simp: cr_wf_def nth_append nth_list_update nth_Cons' Suc_Suc_diff)
    then show ?thesis using cr_store [OF that(1), of "[c1, c2]"] that
      by (auto simp: cr_wf_def intro!: cr_gives_0)
  qed
  show ?thesis
  proof (cases "cr_len cr + 2 > cr_size cr")
    case False
    with store [OF wf] show ?thesis by (simp add: cr_add_interval_def)
  next
    case True
    from wf n show ?thesis
    proof (cases rule: cr_realloc_cases)
      case (room cr')
      with True store [of cr'] show ?thesis by (simp add: cr_add_interval_def)
    next
      case (fail cr')
      with True show ?thesis by (simp add: cr_add_interval_def cr_gives_fail)
    qed
  qed
qed

lemma cr_compress_gives:
  assumes wf: "cr_wf N rf cr" and ev: "even (cr_len cr)"
  shows "\<exists>cr'. cr_compress cr = Some cr' \<and> cr_wf N rf cr' \<and> cr_data cr' = cr_comp (cr_data cr)"
proof -
  have "cr_len cr \<le> length (cr_points cr)" using wf by (simp add: cr_wf_def)
  with compress_loop_comp [of 0 0 "cr_len cr" "cr_points cr"] ev obtain pt' k' where
    l: "compress_loop (cr_points cr) (cr_len cr) 0 0 = Some (pt', k')" "length pt' = length (cr_points cr)"
      "k' \<le> cr_len cr" "take k' pt' = cr_comp (cr_data cr)"
    by (auto simp: rest_def cr_data_def)
  then show ?thesis using wf by (auto simp: cr_compress_def cr_wf_def cr_data_def)
qed

lemma cr_op_loop_gives:
  assumes "cr_wf N rf cr" and "cr_len cr + (a_len - i) + (b_len - j) \<le> N"
    and "a_len \<le> length a_pt" and "b_len \<le> length b_pt" and "i \<le> a_len" and "j \<le> b_len"
    and "odd (cr_len cr) = cr_is_in op (odd i) (odd j)"
  shows "cr_gives N rf (cr_data cr @ cr_merge op (odd i) (odd j) (rest a_pt a_len i) (rest b_pt b_len j))
     (cr_op_loop cr a_pt a_len b_pt b_len op i j)"
  using assms
proof (induction "(a_len - i) + (b_len - j)" arbitrary: cr i j rule: less_induct)
  case less
  let ?M = "\<lambda>i j. cr_merge op (odd i) (odd j) (rest a_pt a_len i) (rest b_pt b_len j)"
  have step: "cr_gives N rf (cr_data cr @ ?M i j) (cr_op_loop cr a_pt a_len b_pt b_len op i j)"
    if nx: "cr_next a_pt a_len b_pt b_len i j = Some (Some (v, i', j'))"
      and M: "?M i j = cr_emit op (odd i) (odd j) (odd i') (odd j') v @ ?M i' j'"
      and le: "i \<le> i'" "i' \<le> a_len" "j \<le> j'" "j' \<le> b_len" for v i' j'
  proof -
    note dec = cr_next_mono [OF nx]
    show ?thesis
    proof (cases "cr_is_in op (odd i') (odd j') \<noteq> odd (cr_len cr)")
      case False
      have "cr_gives N rf (cr_data cr @ ?M i' j') (cr_op_loop cr a_pt a_len b_pt b_len op i' j')"
        using less.prems le dec False by (intro less.hyps) auto
      moreover have "?M i j = ?M i' j'" using M False less.prems(7) by (simp add: cr_emit_def)
      ultimately show ?thesis using False nx by (subst cr_op_loop.simps) simp
    next
      case True
      have M': "?M i j = v # ?M i' j'" using M True less.prems(7) by (simp add: cr_emit_def)
      have "cr_gives N rf (cr_data cr @ [v]) (cr_add_point cr v)"
        using less.prems(1,2) dec by (intro cr_add_point_gives) auto
      then obtain cr' where wf': "cr_wf N rf cr'" and
        ap: "cr_add_point cr v = Some (0, cr') \<and> cr_data cr' = cr_data cr @ [v] \<or> cr_add_point cr v = Some (-1, cr')"
        by (auto simp: cr_gives_def)
      from ap show ?thesis
      proof
        assume a: "cr_add_point cr v = Some (0, cr') \<and> cr_data cr' = cr_data cr @ [v]"
        then have len: "cr_len cr' = cr_len cr + 1"
          using cr_wf_len [OF wf'] cr_wf_len [OF less.prems(1)] by simp
        have "cr_gives N rf (cr_data cr' @ ?M i' j') (cr_op_loop cr' a_pt a_len b_pt b_len op i' j')"
          using less.prems le dec True wf' len by (intro less.hyps) auto
        with a True nx M' show ?thesis by (subst cr_op_loop.simps) simp
      next
        assume "cr_add_point cr v = Some (-1, cr')"
        with True nx wf' show ?thesis by (subst cr_op_loop.simps) (simp add: cr_gives_fail)
      qed
    qed
  qed
  have ra: "i < a_len \<Longrightarrow> rest a_pt a_len i = a_pt ! i # rest a_pt a_len (i + 1)"
    and rb: "j < b_len \<Longrightarrow> rest b_pt b_len j = b_pt ! j # rest b_pt b_len (j + 1)"
    using less.prems(3,4) rest_step by blast+
  consider (both) "i < a_len" "j < b_len" | (a) "i < a_len" "b_len \<le> j" | (b) "a_len \<le> i" "j < b_len"
    | (none) "a_len \<le> i" "b_len \<le> j" by linarith
  then show ?case
  proof cases
    case both
    let ?x = "a_pt ! i" and ?y = "b_pt ! j"
    have nx: "cr_next a_pt a_len b_pt b_len i j = Some (Some (if ?x < ?y then (?x, i + 1, j)
        else if ?x = ?y then (?x, i + 1, j + 1) else (?y, i, j + 1)))"
      using both less.prems by (simp add: cr_next_def)
    consider "?x < ?y" | "?x = ?y" | "\<not> ?x < ?y" "?x \<noteq> ?y" by blast
    then show ?thesis
    proof cases
      case 1
      then show ?thesis using nx both ra rb by (intro step [of ?x "i + 1" j]) auto
    next
      case 2
      then show ?thesis using nx both ra rb by (intro step [of ?x "i + 1" "j + 1"]) auto
    next
      case 3
      then show ?thesis using nx both ra rb by (intro step [of ?y i "j + 1"]) auto
    qed
  next
    case a
    have "cr_next a_pt a_len b_pt b_len i j = Some (Some (a_pt ! i, i + 1, j))"
      using a less.prems by (simp add: cr_next_def)
    then show ?thesis using a ra less.prems by (intro step [of "a_pt ! i" "i + 1" j]) auto
  next
    case b
    have "cr_next a_pt a_len b_pt b_len i j = Some (Some (b_pt ! j, i, j + 1))"
      using b less.prems by (simp add: cr_next_def)
    then show ?thesis using b rb less.prems by (intro step [of "b_pt ! j" i "j + 1"]) auto
  next
    case none
    then show ?thesis using less.prems
      by (subst cr_op_loop.simps) (simp add: cr_next_def cr_gives_0)
  qed
qed

lemma cr_op_gives:
  assumes "cr_wf N rf cr" and "cr_len cr = 0" and "a_len + b_len \<le> N"
    and "a_len \<le> length a_pt" and "b_len \<le> length b_pt" and "even a_len" and "even b_len"
  shows "cr_gives N rf (cr_comp (cr_merge op False False (take a_len a_pt) (take b_len b_pt)))
     (cr_op cr a_pt a_len b_pt b_len op)"
proof -
  let ?m = "cr_merge op False False (take a_len a_pt) (take b_len b_pt)"
  have "cr_is_in op False False = False" by (cases op) auto
  moreover have "cr_data cr = []" using assms(2) by (simp add: cr_data_def)
  ultimately have "cr_gives N rf ?m (cr_op_loop cr a_pt a_len b_pt b_len op 0 0)"
    using cr_op_loop_gives [of N cr a_len 0 b_len 0 a_pt b_pt op] assms by (simp add: rest_def)
  then obtain cr' where wf: "cr_wf N rf cr'" and
    r: "cr_op_loop cr a_pt a_len b_pt b_len op 0 0 = Some (0, cr') \<and> cr_data cr' = ?m \<or>
        cr_op_loop cr a_pt a_len b_pt b_len op 0 0 = Some (-1, cr')"
    by (auto simp: cr_gives_def)
  from r show ?thesis
  proof
    assume l: "cr_op_loop cr a_pt a_len b_pt b_len op 0 0 = Some (0, cr') \<and> cr_data cr' = ?m"
    have "even (length ?m)"
      using cr_merge_length_even [of "take a_len a_pt" "take b_len b_pt" op False False] assms by auto
    then have "even (cr_len cr')" using l cr_wf_len [OF wf] by simp
    from cr_compress_gives [OF wf this] l show ?thesis by (auto simp: cr_op_def intro!: cr_gives_0)
  next
    assume "cr_op_loop cr a_pt a_len b_pt b_len op 0 0 = Some (-1, cr')"
    with wf show ?thesis by (simp add: cr_op_def cr_gives_fail)
  qed
qed

lemma cr_union1_gives:
  assumes "cr_wf N rf cr" and "cr_len cr + b_len \<le> N" and "b_len \<le> length b_pt"
    and "even (cr_len cr)" and "even b_len"
  shows "cr_gives N rf (cr_comp (cr_merge CR_OP_UNION False False (cr_data cr) (take b_len b_pt)))
     (cr_union1 cr b_pt b_len)"
proof -
  let ?cr = "cr\<lparr>cr_len := 0, cr_size := 0, cr_points := []\<rparr>"
  let ?d = "cr_comp (cr_merge CR_OP_UNION False False (cr_data cr) (take b_len b_pt))"
  have "cr_wf N rf ?cr" using assms(1) by (simp add: cr_wf_def)
  then have "cr_gives N rf ?d (cr_op ?cr (cr_points cr) (cr_len cr) b_pt b_len CR_OP_UNION)"
    using cr_op_gives [of N ?cr "cr_len cr" b_len "cr_points cr" b_pt CR_OP_UNION] assms
    by (simp add: cr_wf_def cr_data_def)
  then obtain cr' where wf: "cr_wf N rf cr'" and
    r: "cr_op ?cr (cr_points cr) (cr_len cr) b_pt b_len CR_OP_UNION = Some (0, cr') \<and> cr_data cr' = ?d \<or>
        cr_op ?cr (cr_points cr) (cr_len cr) b_pt b_len CR_OP_UNION = Some (-1, cr')"
    by (auto simp: cr_gives_def)
  have "cr_wf N rf (cr'\<lparr>cr_mem_opaque := h\<rparr>)" "cr_data (cr'\<lparr>cr_mem_opaque := h\<rparr>) = cr_data cr'" for h
    using wf by (auto simp: cr_wf_def cr_data_def)
  with r show ?thesis by (auto simp: cr_union1_def intro!: cr_gives_0 cr_gives_fail)
qed

lemma cr_invert_gives:
  assumes wf: "cr_wf N rf cr" and n: "cr_len cr + 2 \<le> N" and ev: "even (cr_len cr)"
  shows "cr_gives N rf (cr_comp (0 # cr_data cr @ [- 1])) (cr_invert cr)"
  using wf n
proof (cases rule: cr_realloc_cases)
  case (fail cr')
  then show ?thesis by (simp add: cr_invert_def cr_gives_fail)
next
  case (room cr')
  let ?n = "cr_len cr" and ?p = "cr_points cr'"
  define r where "r = take 1 ?p @ cr_data cr @ drop (1 + ?n) ?p"
  define q where "q = r[0 := 0, ?n + 1 := - 1]"
  have len: "?n + 2 \<le> length ?p" and d: "cr_data cr = take ?n ?p"
    using room by (auto simp: cr_wf_def cr_data_def)
  have lr: "length r = length ?p" using len d by (simp add: r_def)
  have rn: "r ! Suc i = cr_data cr ! i" if "i < ?n" for i
    using that len d by (simp add: r_def nth_append)
  have "take (?n + 2) q = 0 # cr_data cr @ [- 1]"
  proof (rule nth_equalityI)
    fix i assume "i < length (take (?n + 2) q)"
    then have "i = 0 \<or> (\<exists>k. i = Suc k \<and> k < ?n) \<or> i = Suc ?n" using lr len by (cases i) (auto simp: q_def)
    moreover have "0 < length r" "Suc ?n < length r" using lr len by linarith+
    ultimately show "take (?n + 2) q ! i = (0 # cr_data cr @ [- 1]) ! i"
      using lr len d rn by (auto simp: q_def nth_append)
  qed (use lr len d in \<open>simp add: q_def\<close>)
  moreover have "length q = length ?p" using lr by (simp add: q_def)
  ultimately have q: "cr_wf N rf (cr'\<lparr>cr_points := q, cr_len := ?n + 2\<rparr>)"
      "cr_data (cr'\<lparr>cr_points := q, cr_len := ?n + 2\<rparr>) = 0 # cr_data cr @ [- 1]"
    using room by (auto simp: cr_wf_def cr_data_def)
  from cr_compress_gives [OF q(1)] ev q(2) obtain cr2 where
    "cr_compress (cr'\<lparr>cr_points := q, cr_len := ?n + 2\<rparr>) = Some cr2" "cr_wf N rf cr2"
    "cr_data cr2 = cr_comp (0 # cr_data cr @ [- 1])" by auto
  then show ?thesis
    using room len d by (simp add: cr_invert_def q_def r_def cr_gives_0 add.commute)
qed

lemma cr_copy_gives:
  assumes wf: "cr_wf N rf cr" and wf1: "cr_wf N rf cr1" and n: "cr_len cr1 \<le> N"
  shows "cr_gives N rf (cr_data cr1) (cr_copy cr cr1)"
  using wf n
proof (cases rule: cr_realloc_cases)
  case (fail cr')
  then show ?thesis by (simp add: cr_copy_def cr_gives_fail)
next
  case (room cr')
  then show ?thesis using wf1 by (auto simp: cr_copy_def cr_wf_def cr_data_def intro!: cr_gives_0)
qed

end

interpretation crd: cr_reallocator cr_default_realloc
  by unfold_locales (auto simp: cr_default_realloc_def min_def split: if_splits)

subsection \<open>Set semantics\<close>

lemma comp_merge_set:
  assumes "cr_sorted a" and "cr_sorted b"
  shows "cr_canonical (cr_comp (cr_merge op False False a b)) \<and>
     (\<forall>c. cr_mem (cr_comp (cr_merge op False False a b)) c = cr_is_in op (cr_mem a c) (cr_mem b c))"
proof -
  let ?m = "cr_merge op False False a b"
  have m: "cr_sorted ?m"
    using assms cr_merge_sorted [of a b] cr_merge_length_even [of a b op False False] by (auto simp: cr_sorted_def)
  have "cr_is_in op False False = False" by (cases op) auto
  then have "odd (cnt ?m c) = cr_is_in op (odd (cnt a c)) (odd (cnt b c))" for c
    using cr_merge_parity [of a b op False False c] assms by (simp add: cr_sorted_def)
  with comp_props [OF m] assms show ?thesis
    by (simp add: cr_mem_parity cr_canonical_sorted)
qed

lemma comp_invert_set:
  assumes "cr_sorted d" and "c < - 1"
  shows "cr_mem (cr_comp (0 # d @ [- 1])) c \<longleftrightarrow> \<not> cr_mem d c"
proof -
  have s: "cr_sorted (0 # d @ [- 1])"
    using assms(1) by (auto simp: cr_sorted_def sorted_append)
  have "cnt (0 # d @ [- 1]) c = Suc (cnt d c)" using assms(2) by (simp add: not_le)
  with comp_props [OF s, of c] show ?thesis using assms(1) s by (simp add: cr_mem_parity cr_canonical_sorted)
qed

text \<open>
  Claim C26. \<open>cr_op\<close> computes the union, intersection or symmetric difference of two sets of code
  points given by sorted lists of interval bounds: for any allocator that keeps \<open>realloc\<close>'s
  contract it stays inside its blocks and either reports an allocation failure or leaves a
  strictly increasing list of bounds whose members are exactly those of the combined set.
\<close>

theorem cr_op_set:
  assumes "cr_reallocator f" and "cr_wf N f cr" and "cr_len cr = 0" and "length a + length b \<le> N"
    and "cr_sorted a" and "cr_sorted b"
  shows "\<exists>r cr'. cr_op cr a (length a) b (length b) op = Some (r, cr') \<and> cr_wf N f cr' \<and>
     (r = -1 \<or> r = 0 \<and> cr_canonical (cr_data cr') \<and>
        (\<forall>c. cr_mem (cr_data cr') c = cr_is_in op (cr_mem a c) (cr_mem b c)))"
proof -
  have "cr_gives N f (cr_comp (cr_merge op False False a b)) (cr_op cr a (length a) b (length b) op)"
    using cr_reallocator.cr_op_gives [OF assms(1-3), of "length a" "length b" a b op] assms(4-6)
    by (simp add: cr_sorted_def)
  with comp_merge_set [OF assms(5,6), of op] show ?thesis by (auto simp: cr_gives_def)
qed

theorem cr_op_set_witness:
  "\<exists>r cr'. cr_op (cr_init 100 cr_default_realloc) [1, 5, 9, 12] 4 [3, 10] 2 CR_OP_XOR = Some (r, cr') \<and>
     r = 0 \<and> cr_data cr' = [1, 3, 5, 9, 10, 12] \<and>
     (\<forall>c. cr_mem (cr_data cr') c = (cr_mem [1, 5, 9, 12] c \<noteq> cr_mem [3, 10] c))"
proof -
  let ?r = "cr_op (cr_init 100 cr_default_realloc) [1, 5, 9, 12] 4 [3, 10] 2 CR_OP_XOR"
  have "map_option (\<lambda>(r, cr). (r, cr_data cr)) ?r = Some (0, [1, 3, 5, 9, 10, 12])"
    by code_simp
  moreover have "\<exists>r cr'. ?r = Some (r, cr') \<and> cr_wf 6 cr_default_realloc cr' \<and>
     (r = -1 \<or> r = 0 \<and> cr_canonical (cr_data cr') \<and>
        (\<forall>c. cr_mem (cr_data cr') c = cr_is_in CR_OP_XOR (cr_mem [1, 5, 9, 12] c) (cr_mem [3, 10] c)))"
  proof -
    have l: "length [1, 5, 9, 12 :: u32] = 4" "length [3, 10 :: u32] = 2" by simp_all
    have wf: "cr_wf 6 cr_default_realloc (cr_init 100 cr_default_realloc)" "cr_len (cr_init 100 cr_default_realloc) = 0"
      by (simp_all add: cr_wf_def cr_init_def)
    have so: "cr_sorted [1, 5, 9, 12]" "cr_sorted [3, 10]" by (simp_all add: cr_sorted_def)
    from cr_op_set [OF crd.cr_reallocator_axioms wf _ so, of CR_OP_XOR, unfolded l] show ?thesis by simp
  qed
  ultimately show ?thesis by auto
qed

text \<open>
  Claim C27. \<open>cr_invert\<close> complements the set: either it reports an allocation failure or a code
  point below \<open>UINT32_MAX\<close> is in the result exactly when it was not in the argument, and the
  result is again strictly increasing.
\<close>

theorem cr_invert_set:
  assumes "cr_reallocator f" and "cr_wf N f cr" and "cr_len cr + 2 \<le> N" and "cr_sorted (cr_data cr)"
  shows "\<exists>r cr'. cr_invert cr = Some (r, cr') \<and> cr_wf N f cr' \<and>
     (r = -1 \<or> r = 0 \<and> cr_canonical (cr_data cr') \<and>
        (\<forall>c < - 1. cr_mem (cr_data cr') c \<longleftrightarrow> \<not> cr_mem (cr_data cr) c))"
proof -
  have "even (cr_len cr)" using assms(2,4) cr_wf_len by (fastforce simp: cr_sorted_def)
  then have "cr_gives N f (cr_comp (0 # cr_data cr @ [- 1])) (cr_invert cr)"
    using cr_reallocator.cr_invert_gives [OF assms(1-3)] by simp
  moreover have "cr_canonical (cr_comp (0 # cr_data cr @ [- 1]))"
    using assms(4) comp_props [of "0 # cr_data cr @ [- 1]"] by (auto simp: cr_sorted_def sorted_append)
  ultimately show ?thesis using comp_invert_set [OF assms(4)] by (auto simp: cr_gives_def)
qed

theorem cr_invert_set_witness:
  "let cr = \<lparr>cr_len = 2, cr_size = 2, cr_points = [0, 5], cr_mem_opaque = 50, cr_realloc_func = cr_default_realloc\<rparr>
   in map_option (\<lambda>(r, cr). (r, cr_data cr)) (cr_invert cr) = Some (0, [5, - 1]) \<and>
      (\<exists>r cr'. cr_invert cr = Some (r, cr') \<and> cr_wf 4 cr_default_realloc cr')"
proof -
  let ?cr = "\<lparr>cr_len = 2, cr_size = 2, cr_points = [0, 5], cr_mem_opaque = 50, cr_realloc_func = cr_default_realloc\<rparr>"
  have "map_option (\<lambda>(r, cr). (r, cr_data cr)) (cr_invert ?cr) = Some (0, [5, - 1])"
    by code_simp
  moreover have "\<exists>r cr'. cr_invert ?cr = Some (r, cr') \<and> cr_wf 4 cr_default_realloc cr'"
    using cr_invert_set [OF crd.cr_reallocator_axioms, of 4 ?cr]
    by (auto simp: cr_wf_def cr_data_def cr_sorted_def)
  ultimately show ?thesis by (simp only: Let_def)
qed

lemma u32_less_inc: "c2 < - 1 \<Longrightarrow> c < c2 + 1 \<longleftrightarrow> c \<le> c2" for c c2 :: u32
proof -
  assume "c2 < - 1"
  then have "uint c2 + 1 < 2 ^ 32"
    by (simp add: word_less_def unsigned_minus_1_eq_mask mask_eq_exp_minus_1)
  then have "uint (c2 + 1) = uint c2 + 1" by (simp add: uint_word_ariths)
  then show ?thesis by (simp add: word_less_def word_le_def zless_add1_eq le_less)
qed

text \<open>
  Claim C28. Adding a closed interval of code points with \<open>cr_union_interval\<close>: either an allocation
  failure is reported or the members of the result are the old ones and those of the interval.
\<close>

theorem cr_union_interval_set:
  assumes "cr_reallocator f" and "cr_wf N f cr" and "cr_len cr + 2 \<le> N" and "cr_sorted (cr_data cr)"
    and "c1 \<le> c2" and "c2 < - 1"
  shows "\<exists>r cr'. cr_union_interval cr c1 c2 = Some (r, cr') \<and> cr_wf N f cr' \<and>
     (r = -1 \<or> r = 0 \<and> cr_canonical (cr_data cr') \<and>
        (\<forall>c. cr_mem (cr_data cr') c \<longleftrightarrow> cr_mem (cr_data cr) c \<or> c1 \<le> c \<and> c \<le> c2))"
proof -
  have le: "c < c2 + 1 \<longleftrightarrow> c \<le> c2" for c using u32_less_inc [OF assms(6)] .
  have "even (cr_len cr)" using assms(2,4) cr_wf_len by (fastforce simp: cr_sorted_def)
  then have "cr_gives N f (cr_comp (cr_merge CR_OP_UNION False False (cr_data cr) [c1, c2 + 1])) (cr_union_interval cr c1 c2)"
    using cr_reallocator.cr_union1_gives [OF assms(1,2), of 2 "[c1, c2 + 1]"] assms(3)
    by (simp add: cr_union_interval_def)
  moreover have "cr_sorted [c1, c2 + 1]" using le assms(5) by (simp add: cr_sorted_def order_less_imp_le)
  ultimately show ?thesis
    using comp_merge_set [OF assms(4), of "[c1, c2 + 1]" CR_OP_UNION] le by (auto simp: cr_gives_def)
qed

theorem cr_union_interval_set_witness:
  "\<exists>r cr'. cr_union_interval (cr_init 10 cr_default_realloc) 7 9 = Some (r, cr') \<and> cr_wf 4 cr_default_realloc cr'"
proof -
  have "(9 :: u32) < - 1" "(7 :: u32) \<le> 9" by code_simp+
  then show ?thesis
    using cr_union_interval_set [OF crd.cr_reallocator_axioms, of 4 "cr_init 10 cr_default_realloc" 7 9]
    by (auto simp: cr_wf_def cr_init_def cr_data_def cr_sorted_def)
qed

end
