(* ===== verification/Unicode_Index.thy ===== *)
theory Unicode_Index
  imports Cutils
begin

text \<open>
  The run-length coded character tables of \<open>libunicode.c\<close> and their lookup through an index: the
  binary search \<open>get_index_pos\<close> over 24-bit index entries and the decoder \<open>lre_is_in_table\<close>. The
  tables are arguments here; theory \<open>Unicode_Tables\<close> has the real ones.
\<close>

subsection \<open>Definitions\<close>

definition get_le24 :: "u8 list \<Rightarrow> nat \<Rightarrow> u32 option" where
  "get_le24 tab i =
     do { a \<leftarrow> rd tab i; b \<leftarrow> rd tab (i + 1); c \<leftarrow> rd tab (i + 2);
          Some (ucast a OR push_bit 8 (ucast b) OR push_bit 16 (ucast c)) }"

definition UNICODE_INDEX_BLOCK_LEN :: nat where
  "UNICODE_INDEX_BLOCK_LEN = 32"

definition code_mask :: u32 where
  "code_mask = push_bit 21 1 - 1"

function index_search :: "u8 list \<Rightarrow> u32 \<Rightarrow> nat \<Rightarrow> nat \<Rightarrow> nat option" where
  "index_search index_table c idx_min idx_max =
     (if idx_max - idx_min > 1 then
        (let idx = (idx_max + idx_min) div 2 in
         do {
           v \<leftarrow> get_le24 index_table (idx * 3);
           if c < v AND code_mask then index_search index_table c idx_min idx
           else index_search index_table c idx idx_max
         })
      else Some idx_min)"
  by pat_completeness auto
termination
  by (relation "measure (\<lambda>(t, c, idx_min, idx_max). idx_max - idx_min)") auto

declare index_search.simps [simp del]

text \<open>The position of the block in the table and the code point it starts at; \<open>-1\<close> outside.\<close>

definition get_index_pos :: "u32 \<Rightarrow> u8 list \<Rightarrow> nat \<Rightarrow> (int \<times> u32) option" where
  "get_index_pos c index_table index_table_len =
     do {
       v \<leftarrow> get_le24 index_table 0;
       if c < v AND code_mask then Some (0, 0)
       else do {
         code \<leftarrow> get_le24 index_table ((index_table_len - 1) * 3);
         if c \<ge> code then Some (-1, 0)
         else do {
           idx_min \<leftarrow> index_search index_table c 0 (index_table_len - 1);
           v \<leftarrow> get_le24 index_table (idx_min * 3);
           Some (int ((idx_min + 1) * UNICODE_INDEX_BLOCK_LEN + unat (drop_bit 21 v)), v AND code_mask)
         }
       }
     }"

function in_table_loop :: "u32 \<Rightarrow> u8 list \<Rightarrow> nat \<Rightarrow> u32 \<Rightarrow> bool \<Rightarrow> bool option" where
  "in_table_loop c table p code bt =
     do {
       b \<leftarrow> rd table p;
       let b = (ucast b :: u32);
       if b < 64 then
         (let code = code + (drop_bit 3 b + 1) in
          if c < code then Some bt
          else
            let bt = (\<not> bt); code = code + ((b AND 7) + 1) in
            if c < code then Some bt else in_table_loop c table (p + 1) code (\<not> bt))
       else if b \<ge> 0x80 then
         (let code = code + (b - 0x80 + 1) in
          if c < code then Some bt else in_table_loop c table (p + 1) code (\<not> bt))
       else if b < 0x60 then
         do {
           p0 \<leftarrow> rd table (p + 1);
           let code = code + ((push_bit 8 (b - 0x40) OR ucast p0) + 1);
           if c < code then Some bt else in_table_loop c table (p + 2) code (\<not> bt)
         }
       else
         do {
           p0 \<leftarrow> rd table (p + 1); p1 \<leftarrow> rd table (p + 2);
           let code = code + ((push_bit 16 (b - 0x60) OR push_bit 8 (ucast p0) OR ucast p1) + 1);
           if c < code then Some bt else in_table_loop c table (p + 3) code (\<not> bt)
         }
     }"
  by pat_completeness auto
termination
  by (relation "measure (\<lambda>(c, table, p, code, bt). length table - p)") (auto simp: mem_simps)

declare in_table_loop.simps [simp del]

definition lre_is_in_table :: "u32 \<Rightarrow> u8 list \<Rightarrow> u8 list \<Rightarrow> nat \<Rightarrow> bool option" where
  "lre_is_in_table c table index_table index_table_len =
     do {
       (pos, code) \<leftarrow> get_index_pos c index_table index_table_len;
       if pos < 0 then Some False else in_table_loop c table (nat pos) code False
     }"

subsection \<open>The runs a table stands for\<close>

text \<open>
  A table is a sequence of run lengths: runs of code points outside and inside the set, by
  turns. A byte below 64 codes two short runs, the others one run in one, two or three bytes.
\<close>

fun table_runs :: "u8 list \<Rightarrow> nat list option" where
  "table_runs [] = Some []"
| "table_runs (b # p) =
     (let b = unat b in
      if b < 64 then map_option (\<lambda>rs. (b div 8 + 1) # (b mod 8 + 1) # rs) (table_runs p)
      else if b \<ge> 128 then map_option (\<lambda>rs. (b - 128 + 1) # rs) (table_runs p)
      else if b < 96 then
        (case p of
           p0 # p \<Rightarrow> map_option (\<lambda>rs. ((b - 64) * 256 + unat p0 + 1) # rs) (table_runs p)
         | [] \<Rightarrow> None)
      else
        (case p of
           p0 # p1 # p \<Rightarrow>
             map_option (\<lambda>rs. ((b - 96) * 65536 + unat p0 * 256 + unat p1 + 1) # rs) (table_runs p)
         | _ \<Rightarrow> None))"

fun in_runs :: "nat list \<Rightarrow> nat \<Rightarrow> bool \<Rightarrow> nat \<Rightarrow> bool option" where
  "in_runs [] code bt c = None"
| "in_runs (r # rs) code bt c = (if c < code + r then Some bt else in_runs rs (code + r) (\<not> bt) c)"

text \<open>The set of a table: the code points in its inside runs.\<close>

definition table_mem :: "u8 list \<Rightarrow> u32 \<Rightarrow> bool" where
  "table_mem table c =
     (case table_runs table of None \<Rightarrow> False | Some rs \<Rightarrow> in_runs rs 0 False (unat c) = Some True)"

lemma table_runs_append:
  "table_runs a = Some rs \<Longrightarrow> table_runs b = Some ss \<Longrightarrow> table_runs (a @ b) = Some (rs @ ss)"
proof (induction a arbitrary: rs rule: table_runs.induct)
  case (2 b' p)
  show ?case
    using "2.prems" "2.IH" by (auto simp: Let_def split: if_splits list.splits)
qed simp

lemma in_runs_skip:
  "code + sum_list rs \<le> c \<Longrightarrow>
   in_runs (rs @ ss) code bt c = in_runs ss (code + sum_list rs) (if even (length rs) then bt else \<not> bt) c"
  by (induction rs arbitrary: code bt) (auto simp: add.assoc)

lemma in_runs_within:
  "code \<le> c \<Longrightarrow> c < code + sum_list rs \<Longrightarrow>
   in_runs (rs @ ss) code bt c = in_runs rs code bt c \<and> in_runs rs code bt c \<noteq> None"
  by (induction rs arbitrary: code bt) (auto simp: add.assoc)

subsection \<open>The decoder follows the runs\<close>

lemma unat_widen: "unat (ucast (b :: u8) :: u32) = unat b"
  by (simp add: unsigned_ucast_eq take_bit_nat_eq_self unsigned_less [THEN order.strict_trans2])

lemma rd_drop_Cons: "drop p m = x # ys \<Longrightarrow> rd m p = Some x \<and> drop (Suc p) m = ys"
  by (auto simp: rd_def drop_Suc simp flip: tl_drop hd_drop_conv_nth intro: ccontr)

lemma unat_bounds: "unat (a :: u8) < 256" "unat (b :: u16) < 65536" "unat (c :: u32) < 4294967296"
  using unsigned_less [of a] unsigned_less [of b] unsigned_less [of c] by simp_all

lemma and_mask_mod: "(x :: u32) AND mask n = take_bit n x"
  by (simp add: take_bit_eq_mask)

lemma unat_field: "unat (drop_bit k (v :: u32) AND mask n) = unat v div 2 ^ k mod 2 ^ n"
  unfolding and_mask_mod
  by (subst unsigned_take_bit_eq, subst unat_drop_bit_eq) (simp add: take_bit_eq_mod drop_bit_eq_div)

lemma u32_eq_iff: "(a :: u32) = b \<longleftrightarrow> unat a = unat b"
  by (metis unsigned_word_eqI)

lemma unat_shr: "unat (drop_bit k (x :: u32)) = unat x div 2 ^ k"
  by (subst unat_drop_bit_eq) (simp add: drop_bit_eq_div)

lemma or_shift_add:
  fixes x :: u32 and y :: u32
  assumes "unat y < 2 ^ k" and "unat x * 2 ^ k + unat y < 2 ^ 32" and "k < 32"
  shows "unat (push_bit k x OR y) = unat x * 2 ^ k + unat y"
proof -
  have "unat (take_bit k y) = unat y"
    using assms(1) by (simp add: unsigned_take_bit_eq take_bit_nat_eq_self)
  then have m: "take_bit k y = y" by (rule unsigned_word_eqI)
  have "push_bit k x AND y = 0"
    by (subst m [symmetric], rule bit_eqI) (auto simp: bit_simps)
  then have eq: "push_bit k x OR y = push_bit k x + y" by (simp add: disjunctive_add_eq_or)
  have ux: "unat (push_bit k x) = unat x * 2 ^ k"
    using assms(2) by (subst unsigned_push_bit_eq) (simp add: push_bit_eq_mult take_bit_nat_eq_self)
  show ?thesis unfolding eq using assms(2) ux by (subst unat_add_lem [THEN iffD1]) auto
qed

lemma run_short:
  fixes b :: u8
  shows "unat (drop_bit 3 (ucast b :: u32) + 1) = unat b div 8 + 1"
    and "unat (((ucast b :: u32) AND 7) + 1) = unat b mod 8 + 1"
proof -
  have bl: "unat b < 256" using unsigned_less [of b] by simp
  have ub: "unat (ucast b :: u32) = unat b" by (rule unat_widen)
  have d: "unat (drop_bit 3 (ucast b :: u32)) = unat b div 8"
    by (subst unat_drop_bit_eq) (simp add: ub drop_bit_eq_div)
  have m: "unat ((ucast b :: u32) AND 7) = unat b mod 8"
  proof -
    have "(ucast b :: u32) AND 7 = take_bit 3 (ucast b)" by (simp add: take_bit_eq_mask mask_eq_exp_minus_1)
    moreover have "unat (take_bit 3 (ucast b :: u32)) = unat b mod 8"
      by (subst unsigned_take_bit_eq) (simp add: ub take_bit_eq_mod)
    ultimately show ?thesis by simp
  qed
  show "unat (drop_bit 3 (ucast b :: u32) + 1) = unat b div 8 + 1"
    by (subst unat_add_lem [THEN iffD1]) (use d bl in auto)
  show "unat (((ucast b :: u32) AND 7) + 1) = unat b mod 8 + 1"
    using m bl by (subst unat_add_lem [THEN iffD1]) auto
qed

lemma run_one:
  fixes b :: u8
  assumes "128 \<le> unat b"
  shows "unat ((ucast b :: u32) - 0x80 + 1) = unat b - 128 + 1"
proof -
  have bl: "unat b < 256" using unsigned_less [of b] by simp
  have ub: "unat (ucast b :: u32) = unat b" by (rule unat_widen)
  have "unat ((ucast b :: u32) - 0x80) = unat b - 128"
    using assms ub by (subst unat_sub) (auto simp: word_le_nat_alt)
  then show ?thesis using bl by (subst unat_add_lem [THEN iffD1]) auto
qed

lemma run_two:
  fixes b p0 :: u8
  assumes "64 \<le> unat b" "unat b < 96"
  shows "unat ((push_bit 8 ((ucast b :: u32) - 0x40) OR ucast p0) + 1) = (unat b - 64) * 256 + unat p0 + 1"
proof -
  have pl: "unat p0 < 256" using unsigned_less [of p0] by simp
  have ub: "unat (ucast b :: u32) = unat b" "unat (ucast p0 :: u32) = unat p0"
    by (rule unat_widen)+
  have s: "unat ((ucast b :: u32) - 0x40) = unat b - 64"
    using assms ub by (subst unat_sub) (auto simp: word_le_nat_alt)
  have "unat (push_bit 8 ((ucast b :: u32) - 0x40) OR ucast p0) = (unat b - 64) * 256 + unat p0"
    using or_shift_add [of "ucast p0" 8 "(ucast b :: u32) - 0x40"] s ub pl assms by simp
  then show ?thesis using pl assms by (subst unat_add_lem [THEN iffD1]) auto
qed

lemma run_three:
  fixes b p0 p1 :: u8
  assumes "96 \<le> unat b" "unat b < 128"
  shows "unat ((push_bit 16 ((ucast b :: u32) - 0x60) OR push_bit 8 (ucast p0) OR ucast p1) + 1)
           = (unat b - 96) * 65536 + unat p0 * 256 + unat p1 + 1"
proof -
  have pl: "unat p0 < 256" "unat p1 < 256" using unsigned_less [of p0] unsigned_less [of p1] by simp_all
  have ub: "unat (ucast b :: u32) = unat b" "unat (ucast p0 :: u32) = unat p0" "unat (ucast p1 :: u32) = unat p1"
    by (rule unat_widen)+
  have s: "unat ((ucast b :: u32) - 0x60) = unat b - 96"
    using assms ub by (subst unat_sub) (auto simp: word_le_nat_alt)
  have 1: "unat (push_bit 8 (ucast p0 :: u32) OR ucast p1) = unat p0 * 256 + unat p1"
    using or_shift_add [of "ucast p1" 8 "ucast p0 :: u32"] ub pl by simp
  have "unat (push_bit 16 ((ucast b :: u32) - 0x60) OR (push_bit 8 (ucast p0) OR ucast p1))
          = (unat b - 96) * 65536 + (unat p0 * 256 + unat p1)"
    using or_shift_add [of "push_bit 8 (ucast p0 :: u32) OR ucast p1" 16 "(ucast b :: u32) - 0x60"] s 1 pl assms
    by simp
  then show ?thesis using pl assms by (subst unat_add_lem [THEN iffD1]) (auto simp: or.assoc)
qed

text \<open>The four shapes of the next byte of a table that decodes, with the reads of the decoders.\<close>

lemma table_runs_step:
  assumes "table_runs (drop p table) = Some rs" and "p < length table"
  obtains (two) b ss k l where "rd table p = Some b" "(ucast b :: u32) < 64"
      "drop_bit 3 (ucast b :: u32) + 1 = of_nat k" "((ucast b :: u32) AND 7) + 1 = of_nat l" "0 < k" "0 < l"
      "rs = k # l # ss" "table_runs (drop (p + 1) table) = Some ss"
  | (one) b ss k where "rd table p = Some b" "\<not> (ucast b :: u32) < 64" "0x80 \<le> (ucast b :: u32)"
      "(ucast b :: u32) - 0x80 + 1 = of_nat k" "0 < k" "rs = k # ss" "table_runs (drop (p + 1) table) = Some ss"
  | (long) b p0 ss k where "rd table p = Some b" "\<not> (ucast b :: u32) < 64" "\<not> 0x80 \<le> (ucast b :: u32)"
      "(ucast b :: u32) < 0x60" "rd table (p + 1) = Some p0"
      "(push_bit 8 ((ucast b :: u32) - 0x40) OR ucast p0) + 1 = of_nat k" "0 < k" "rs = k # ss"
      "table_runs (drop (p + 2) table) = Some ss"
  | (longer) b p0 p1 ss k where "rd table p = Some b" "\<not> (ucast b :: u32) < 64" "\<not> 0x80 \<le> (ucast b :: u32)"
      "\<not> (ucast b :: u32) < 0x60" "rd table (p + 1) = Some p0" "rd table (p + 2) = Some p1"
      "(push_bit 16 ((ucast b :: u32) - 0x60) OR push_bit 8 (ucast p0) OR ucast p1) + 1 = of_nat k" "0 < k"
      "rs = k # ss" "table_runs (drop (p + 3) table) = Some ss"
proof -
  have nat: "x = of_nat n" if "unat x = n" for x :: u32 and n using that by auto
  define b where "b = table ! p"
  have d: "drop p table = b # drop (p + 1) table" using assms(2) by (simp add: b_def Cons_nth_drop_Suc)
  have rb: "rd table p = Some b" using assms(2) by (simp add: b_def)
  have ub: "unat (ucast b :: u32) = unat b" by (rule unat_widen)
  have cmp: "(ucast b :: u32) < 64 \<longleftrightarrow> unat b < 64" "0x80 \<le> (ucast b :: u32) \<longleftrightarrow> 128 \<le> unat b"
    "(ucast b :: u32) < 0x60 \<longleftrightarrow> unat b < 96"
    by (simp_all add: word_less_nat_alt word_le_nat_alt ub)
  consider "unat b < 64" | "unat b \<ge> 128" | "64 \<le> unat b" "unat b < 96" | "96 \<le> unat b" "unat b < 128" by linarith
  then show thesis
  proof cases
    case 1
    then obtain ss where "rs = (unat b div 8 + 1) # (unat b mod 8 + 1) # ss" "table_runs (drop (p + 1) table) = Some ss"
      using assms(1) unfolding d by (auto simp: Let_def)
    then show thesis using 1 by (intro two [OF rb _ nat [OF run_short(1)] nat [OF run_short(2)]]) (auto simp: cmp)
  next
    case 2
    then obtain ss where "rs = (unat b - 128 + 1) # ss" "table_runs (drop (p + 1) table) = Some ss"
      using assms(1) unfolding d by (auto simp: Let_def)
    then show thesis using 2 by (intro one [OF rb _ _ nat [OF run_one]]) (auto simp: cmp)
  next
    case 3
    obtain p0 ss where ss: "drop (p + 1) table = p0 # drop (p + 2) table" "table_runs (drop (p + 2) table) = Some ss"
        "rs = ((unat b - 64) * 256 + unat p0 + 1) # ss"
      using assms(1) 3 unfolding d
      by (auto simp: Let_def split: list.splits dest!: rd_drop_Cons [of "Suc p" table])
    then show thesis
      using 3 rd_drop_Cons [OF ss(1)] by (intro long [OF rb _ _ _ _ nat [OF run_two]]) (auto simp: cmp)
  next
    case 4
    obtain p0 p1 ss where ss: "drop (p + 1) table = p0 # p1 # drop (p + 3) table" "table_runs (drop (p + 3) table) = Some ss"
        "rs = ((unat b - 96) * 65536 + unat p0 * 256 + unat p1 + 1) # ss"
      using assms(1) 4 unfolding d
      by (auto simp: Let_def numeral_3_eq_3 split: list.splits dest!: rd_drop_Cons [of "Suc p" table]
          rd_drop_Cons [of "Suc (Suc p)" table])
    then have "rd table (p + 1) = Some p0" "rd table (p + 2) = Some p1"
      using rd_drop_Cons [OF ss(1)] by (auto dest: rd_drop_Cons)
    then show thesis using 4 ss by (intro longer [OF rb _ _ _ _ _ nat [OF run_three]]) (auto simp: cmp)
  qed
qed

lemma less_run: "code + k < 2 ^ 32 \<Longrightarrow> (c :: u32) < of_nat code + of_nat k \<longleftrightarrow> unat c < code + k"
  by (simp add: word_less_nat_alt unsigned_of_nat take_bit_nat_eq_self flip: of_nat_add)

lemma in_table_loop_runs:
  assumes "table_runs (drop p table) = Some rs" and "code + sum_list rs < 2 ^ 32"
  shows "in_table_loop c table p (of_nat code) bt = in_runs rs code bt (unat c)"
  using assms
proof (induction "length table - p" arbitrary: p code bt rs rule: less_induct)
  case less
  show ?case
  proof (cases "p < length table")
    case False
    then show ?thesis using less.prems by (subst in_table_loop.simps) (simp add: rd_def)
  next
    case True
    have IH: "in_table_loop c table (p + n) (of_nat code') bt' = in_runs ss code' bt' (unat c)"
      if "0 < n" "table_runs (drop (p + n) table) = Some ss" "code' + sum_list ss < 2 ^ 32" for n code' bt' ss
      using that True by (intro less.hyps) auto
    note eval = Let_def Option.bind.bind_lunit if_True if_False in_runs.simps not_not
    from less.prems(1) True show ?thesis
    proof (cases rule: table_runs_step)
      case (two b ss k l)
      have b: "code + k < 2 ^ 32" "code + k + l < 2 ^ 32" "code + k + l + sum_list ss < 2 ^ 32"
        using less.prems(2) two(7) by simp_all
      show ?thesis
        using IH [OF zero_less_one two(8) b(3), of bt] less_run [OF b(1), of c] less_run [OF b(2), of c]
        by (subst in_table_loop.simps) (simp only: two(1-7) eval of_nat_add)
    next
      case (one b ss k)
      have b: "code + k < 2 ^ 32" "code + k + sum_list ss < 2 ^ 32" using less.prems(2) one(6) by simp_all
      show ?thesis
        using IH [OF zero_less_one one(7) b(2)] less_run [OF b(1), of c]
        by (subst in_table_loop.simps) (simp only: one(1-6) eval of_nat_add)
    next
      case (long b p0 ss k)
      have b: "code + k < 2 ^ 32" "code + k + sum_list ss < 2 ^ 32" using less.prems(2) long(8) by simp_all
      show ?thesis
        using IH [OF zero_less_numeral long(9) b(2)] less_run [OF b(1), of c]
        by (subst in_table_loop.simps) (simp only: long(1-8) eval of_nat_add)
    next
      case (longer b p0 p1 ss k)
      have b: "code + k < 2 ^ 32" "code + k + sum_list ss < 2 ^ 32" using less.prems(2) longer(9) by simp_all
      show ?thesis
        using IH [OF zero_less_numeral longer(10) b(2)] less_run [OF b(1), of c]
        by (subst in_table_loop.simps) (simp only: longer(1-9) eval of_nat_add)
    qed
  qed
qed

subsection \<open>The index\<close>

text \<open>What the check needs of one block: its length and the sum of its runs, if they are even in number.\<close>

definition block_info :: "u8 list \<Rightarrow> (nat \<times> nat) option" where
  "block_info b =
     (case table_runs b of
        Some rs \<Rightarrow> if even (length rs) then Some (length b, sum_list rs) else None
      | None \<Rightarrow> None)"

text \<open>
  The checkable contract of a table with its index: the table is cut into blocks, every block
  codes an even number of runs, and entry \<open>i\<close> of the index has the code point at which block
  \<open>i + 1\<close> starts and its position, as the distance from \<open>32 (i + 1)\<close>.
\<close>

fun index_check :: "u8 list list \<Rightarrow> u8 list \<Rightarrow> nat \<Rightarrow> nat \<Rightarrow> nat \<Rightarrow> bool" where
  "index_check [] index pos code i = (index = [])"
| "index_check (b # bs) (i0 # i1 # i2 # index) pos code i =
     (case block_info b of
        None \<Rightarrow> False
      | Some (l, s) \<Rightarrow>
          code + s < 2 ^ 21 \<and>
          unat i0 + 256 * unat i1 + 65536 * unat i2 =
            code + s + 2 ^ 21 * (if bs = [] then 0 else pos + l - 32 * (i + 1)) \<and>
          (bs \<noteq> [] \<longrightarrow> 32 * (i + 1) \<le> pos + l) \<and>
          index_check bs index (pos + l) (code + s) (i + 1))"
| "index_check _ _ pos code i = False"

lemma block_infoE:
  assumes "block_info b = Some (l, s)"
  obtains rs where "table_runs b = Some rs" "even (length rs)" "l = length b" "s = sum_list rs"
  using assms by (auto simp: block_info_def split: option.splits if_splits)

definition block_runs :: "u8 list list \<Rightarrow> nat list" where
  "block_runs bs = concat (map (\<lambda>b. the (table_runs b)) bs)"

lemma block_runs_simps [simp]:
  "block_runs [] = []" "block_runs (b # bs) = the (table_runs b) @ block_runs bs"
  by (simp_all add: block_runs_def)

lemma index_check_runs:
  "index_check bs index pos code i \<Longrightarrow> table_runs (concat (drop j bs)) = Some (block_runs (drop j bs))"
proof (induction bs index pos code i arbitrary: j rule: index_check.induct)
  case (2 b bs i0 i1 i2 index pos code i)
  obtain l s where ls: "block_info b = Some (l, s)" using "2.prems" by (auto split: option.splits)
  obtain rs where rs: "table_runs b = Some rs" using ls by (rule block_infoE)
  have IH: "table_runs (concat (drop k bs)) = Some (block_runs (drop k bs))" for k
    using "2.IH" [OF ls refl] "2.prems" ls by simp
  show ?case using IH [of 0] IH rs by (cases j) (simp_all add: table_runs_append)
qed auto

lemma index_check_total:
  "index_check bs index pos code i \<Longrightarrow> code < 2 ^ 21 \<Longrightarrow> code + sum_list (block_runs bs) < 2 ^ 21"
  by (induction bs index pos code i rule: index_check.induct)
     (auto simp: add.assoc split: option.splits elim!: block_infoE)

lemma index_check_even: "index_check bs index pos code i \<Longrightarrow> even (length (block_runs (take j bs)))"
  by (induction bs index pos code i arbitrary: j rule: index_check.induct)
     (auto simp: take_Cons split: option.splits nat.splits elim!: block_infoE)

lemma get_le24_Cons:
  "\<exists>v. get_le24 (i0 # i1 # i2 # ix) 0 = Some v \<and> unat v = unat i0 + 256 * unat i1 + 65536 * unat i2"
proof -
  have l: "unat i0 < 256" "unat i1 < 256" "unat i2 < 256"
    using unsigned_less [of i0] unsigned_less [of i1] unsigned_less [of i2] by simp_all
  have 1: "unat (push_bit 8 (ucast i1 :: u32) OR ucast i0) = unat i1 * 256 + unat i0"
    using or_shift_add [of "ucast i0" 8 "ucast i1"] l by (simp add: unat_widen)
  have "unat (push_bit 16 (ucast i2 :: u32) OR (push_bit 8 (ucast i1) OR ucast i0))
      = unat i2 * 65536 + (unat i1 * 256 + unat i0)"
    using or_shift_add [of "push_bit 8 (ucast i1 :: u32) OR ucast i0" 16 "ucast i2"] l 1 by (simp add: unat_widen)
  moreover have "get_le24 (i0 # i1 # i2 # ix) 0 =
      Some (push_bit 16 (ucast i2 :: u32) OR (push_bit 8 (ucast i1) OR ucast i0))"
    by (simp add: get_le24_def rd_def or.commute or.left_commute)
  ultimately show ?thesis by simp
qed

lemma get_le24_shift: "get_le24 (i0 # i1 # i2 # ix) (3 + k) = get_le24 ix k"
  by (simp add: get_le24_def rd_def)

lemma index_check_entry:
  "index_check bs index pos code i \<Longrightarrow> j < length bs \<Longrightarrow>
   \<exists>v. get_le24 index (j * 3) = Some v \<and>
     unat v = code + sum_list (block_runs (take (j + 1) bs)) +
       2 ^ 21 * (if j + 1 = length bs then 0 else pos + length (concat (take (j + 1) bs)) - 32 * (i + j + 1)) \<and>
     (j + 1 < length bs \<longrightarrow> 32 * (i + j + 1) \<le> pos + length (concat (take (j + 1) bs)))"
proof (induction bs index pos code i arbitrary: j rule: index_check.induct)
  case (2 b bs i0 i1 i2 index pos code i)
  show ?case
  proof (cases j)
    case 0
    then show ?thesis
      using "2.prems"(1) get_le24_Cons [of i0 i1 i2 index]
      by (auto split: option.splits if_splits elim!: block_infoE)
  next
    case (Suc k)
    obtain l s where ls: "block_info b = Some (l, s)" using "2.prems" by (auto split: option.splits)
    then obtain rs where rs: "table_runs b = Some rs" "l = length b" "s = sum_list rs" by (rule block_infoE)
    show ?thesis
      using "2.IH" [OF ls refl, of k] "2.prems" ls rs Suc get_le24_shift [of i0 i1 i2 index "k * 3"]
      by (auto simp: ac_simps)
  qed
qed auto

lemma unat_code_mask: "unat (v AND code_mask) = unat v mod 2 ^ 21"
proof -
  have "v AND code_mask = take_bit 21 v" by (simp add: code_mask_def take_bit_eq_mask mask_eq_exp_minus_1)
  moreover have "unat (take_bit 21 v) = unat v mod 2 ^ 21" by (subst unsigned_take_bit_eq) (simp add: take_bit_eq_mod)
  ultimately show ?thesis by simp
qed

lemma unat_index_offset: "unat (drop_bit 21 (v :: u32)) = unat v div 2 ^ 21"
  by (subst unat_drop_bit_eq) (simp add: drop_bit_eq_div)

text \<open>The binary search ends at the last entry not above \<open>c\<close>, reading inside the index only.\<close>

lemma index_search_correct:
  assumes e: "\<And>j. j < n \<Longrightarrow> \<exists>v. get_le24 index (j * 3) = Some v \<and> unat (v AND code_mask) = S j"
    and "lo < hi" "hi < n" "S lo \<le> unat c" "unat c < S hi"
  shows "\<exists>k. index_search index c lo hi = Some k \<and> k + 1 < n \<and> S k \<le> unat c \<and> unat c < S (k + 1)"
  using assms(2-)
proof (induction "hi - lo" arbitrary: lo hi rule: less_induct)
  case less
  show ?case
  proof (cases "hi - lo > 1")
    case False
    then have "hi = lo + 1" using less.prems(1) by simp
    then show ?thesis using less.prems by (subst index_search.simps) simp
  next
    case True
    let ?m = "(hi + lo) div 2"
    have m: "lo < ?m" "?m < hi" using True by simp_all
    obtain v where v: "get_le24 index (?m * 3) = Some v" "unat (v AND code_mask) = S ?m"
      using e [of ?m] m less.prems(2) by auto
    have u: "index_search index c lo hi =
        (if unat c < S ?m then index_search index c lo ?m else index_search index c ?m hi)"
      using True by (subst index_search.simps) (simp add: v word_less_nat_alt)
    show ?thesis
      unfolding u using less.hyps [of ?m lo] less.hyps [of hi ?m] less.prems m by auto
  qed
qed

locale indexed_table =
  fixes table index :: "u8 list" and n :: nat and blocks :: "u8 list list"
  assumes table_blocks: "table = concat blocks"
    and n_blocks: "n = length blocks" "blocks \<noteq> []"
    and index_ok: "index_check blocks index 0 0 0"
begin

definition start_code :: "nat \<Rightarrow> nat" where
  "start_code j = sum_list (block_runs (take (j + 1) blocks))"

lemma table_total: "sum_list (block_runs blocks) < 2 ^ 21"
  using index_check_total [OF index_ok] by simp

lemma start_code_le: "start_code j \<le> sum_list (block_runs blocks)"
proof -
  have "block_runs blocks = block_runs (take (j + 1) blocks) @ block_runs (drop (j + 1) blocks)"
    by (simp add: block_runs_def flip: concat_append map_append)
  then show ?thesis by (simp add: start_code_def)
qed

lemma entry:
  assumes "j < n"
  shows "\<exists>v. get_le24 index (j * 3) = Some v \<and> unat (v AND code_mask) = start_code j \<and>
     (j + 1 = n \<longrightarrow> unat v = start_code j) \<and>
     (j + 1 < n \<longrightarrow> (j + 1) * 32 + unat (drop_bit 21 v) = length (concat (take (j + 1) blocks)))"
proof -
  obtain v where v: "get_le24 index (j * 3) = Some v"
      "unat v = start_code j + 2 ^ 21 * (if j + 1 = n then 0 else length (concat (take (j + 1) blocks)) - 32 * (j + 1))"
      "j + 1 < n \<longrightarrow> 32 * (j + 1) \<le> length (concat (take (j + 1) blocks))"
    using index_check_entry [OF index_ok, of j] assms n_blocks by (auto simp: start_code_def)
  have s: "start_code j < 2 ^ 21" using start_code_le table_total by (rule le_less_trans)
  have o: "unat v mod 2 ^ 21 = start_code j"
      "unat v div 2 ^ 21 = (if j + 1 = n then 0 else length (concat (take (j + 1) blocks)) - 32 * (j + 1))"
    using s unfolding v(2) by simp_all
  show ?thesis
    using v o by (auto simp: unat_code_mask unat_index_offset)
qed

lemma decode_from:
  assumes "j \<le> n" "unat code = sum_list (block_runs (take j blocks))" "unat code \<le> unat c"
    "pos = length (concat (take j blocks))"
  shows "in_table_loop c table pos code False = in_runs (block_runs blocks) 0 False (unat c)"
proof -
  have split: "blocks = take j blocks @ drop j blocks" by simp
  have runs: "block_runs blocks = block_runs (take j blocks) @ block_runs (drop j blocks)"
    by (simp add: block_runs_def flip: concat_append map_append)
  have "drop pos table = concat (drop j blocks)"
    using table_blocks assms(4) by (metis append_eq_conv_conj append_take_drop_id concat_append)
  moreover have "table_runs (concat (drop j blocks)) = Some (block_runs (drop j blocks))"
    by (rule index_check_runs [OF index_ok])
  ultimately have "in_table_loop c table pos (of_nat (unat code)) False =
      in_runs (block_runs (drop j blocks)) (unat code) False (unat c)"
    using table_total runs assms(2) by (intro in_table_loop_runs) auto
  then have "in_table_loop c table pos code False =
      in_runs (block_runs (drop j blocks)) (unat code) False (unat c)" by simp
  also have "\<dots> = in_runs (block_runs blocks) 0 False (unat c)"
    unfolding runs using in_runs_skip [of 0 "block_runs (take j blocks)" "unat c" "block_runs (drop j blocks)" False]
      assms index_check_even [OF index_ok] by simp
  finally show ?thesis .
qed

theorem lookup: "lre_is_in_table c table index n = Some (table_mem table c)"
proof -
  have n: "0 < n" using n_blocks by simp
  have mem: "table_mem table c = (in_runs (block_runs blocks) 0 False (unat c) = Some True)"
    using index_check_runs [OF index_ok, of 0] table_blocks by (simp add: table_mem_def)
  have inside: "\<exists>r. in_runs (block_runs blocks) 0 False (unat c) = Some r" if "unat c < sum_list (block_runs blocks)"
    using in_runs_within [of 0 "unat c" "block_runs blocks" "[]" False] that by auto
  obtain v0 where v0: "get_le24 index 0 = Some v0" "unat (v0 AND code_mask) = start_code 0"
    using entry [OF n] by auto
  obtain vl where vl: "get_le24 index ((n - 1) * 3) = Some vl" "unat vl = start_code (n - 1)"
    using entry [of "n - 1"] n by auto
  have total: "start_code (n - 1) = sum_list (block_runs blocks)" using n n_blocks by (simp add: start_code_def)
  consider "unat c < start_code 0" | "start_code 0 \<le> unat c" "start_code (n - 1) \<le> unat c"
    | "start_code 0 \<le> unat c" "unat c < start_code (n - 1)" by linarith
  then show ?thesis
  proof cases
    case 1
    then have "in_runs (block_runs blocks) 0 False (unat c) \<noteq> None"
      using inside start_code_le [of 0] by fastforce
    then show ?thesis
      using 1 v0 decode_from [of 0 0 c 0]
      by (auto simp: lre_is_in_table_def get_index_pos_def mem word_less_nat_alt)
  next
    case 2
    then have "in_runs (block_runs blocks) 0 False (unat c) = None"
      using in_runs_skip [of 0 "block_runs blocks" "unat c" "[]" False] total by simp
    then show ?thesis
      using 2 v0 vl by (auto simp: lre_is_in_table_def get_index_pos_def mem word_less_nat_alt word_le_nat_alt)
  next
    case 3
    then have "0 < n - 1" by (cases "n - 1") auto
    then obtain k where k: "index_search index c 0 (n - 1) = Some k" "k + 1 < n" "start_code k \<le> unat c"
        "unat c < start_code (k + 1)"
      using index_search_correct [of n index start_code 0 "n - 1" c] entry 3 by auto
    obtain v where v: "get_le24 index (k * 3) = Some v" "unat (v AND code_mask) = start_code k"
        "(k + 1) * 32 + unat (drop_bit 21 v) = length (concat (take (k + 1) blocks))"
      using entry [of k] k(2) by auto
    obtain r where r: "in_runs (block_runs blocks) 0 False (unat c) = Some r" using inside 3 total by auto
    have "in_table_loop c table ((k + 1) * 32 + unat (drop_bit 21 v)) (v AND code_mask) False = Some r"
      using decode_from [of "k + 1" "v AND code_mask" c] v k r by (simp add: start_code_def)
    moreover have "get_index_pos c index n = Some (int ((k + 1) * 32 + unat (drop_bit 21 v)), v AND code_mask)"
      using 3 v0 vl k v(1) by (auto simp: get_index_pos_def word_less_nat_alt word_le_nat_alt UNICODE_INDEX_BLOCK_LEN_def)
    ultimately show ?thesis
      unfolding lre_is_in_table_def mem r by (simp del: of_nat_add of_nat_mult of_nat_Suc)
  qed
qed

end

end
