(* ===== verification/Unicode_Runs.thy ===== *)
theory Unicode_Runs
  imports Char_Range Unicode_Index
begin

text \<open>
  Building a character range from a table of runs. The decoders of \<open>libunicode.c\<close> walk over
  consecutive runs of code points and add intervals for the runs they select. This theory has
  what they share: adding a list of intervals to a range, and a locale for the sets that
  labelled runs stand for.
\<close>

subsection \<open>Adding a list of intervals\<close>

fun add_all :: "'h CharRange \<Rightarrow> (nat \<times> nat) list \<Rightarrow> (int \<times> 'h CharRange) option" where
  "add_all cr [] = Some (0, cr)"
| "add_all cr ((a, b) # ivs) =
     do {
       (r, cr) \<leftarrow> cr_add_interval cr (of_nat a) (of_nat b);
       if r \<noteq> 0 then Some (-1, cr) else add_all cr ivs
     }"

definition iv_points :: "(nat \<times> nat) list \<Rightarrow> nat list" where
  "iv_points ivs = concat (map (\<lambda>(a, b). [a, b]) ivs)"

definition iv_flat :: "(nat \<times> nat) list \<Rightarrow> u32 list" where
  "iv_flat ivs = map of_nat (iv_points ivs)"

definition iv_mem :: "(nat \<times> nat) list \<Rightarrow> nat \<Rightarrow> bool" where
  "iv_mem ivs x \<longleftrightarrow> (\<exists>(a, b) \<in> set ivs. a \<le> x \<and> x < b)"

lemma iv_points_simps [simp]:
  "iv_points [] = []" "iv_points ((a, b) # ivs) = a # b # iv_points ivs"
  "iv_points (xs @ ys) = iv_points xs @ iv_points ys"
  by (simp_all add: iv_points_def)

lemma iv_mem_simps [simp]:
  "\<not> iv_mem [] x" "iv_mem ((a, b) # ivs) x \<longleftrightarrow> (a \<le> x \<and> x < b) \<or> iv_mem ivs x"
  "iv_mem (xs @ ys) x \<longleftrightarrow> iv_mem xs x \<or> iv_mem ys x"
  by (auto simp: iv_mem_def)

lemma length_iv_points: "length (iv_points ivs) = 2 * length ivs"
  by (induction ivs) auto

lemma add_all_append:
  "add_all cr (xs @ ys) = do { (r, cr) \<leftarrow> add_all cr xs; if r \<noteq> 0 then Some (-1, cr) else add_all cr ys }"
proof (induction xs arbitrary: cr)
  case (Cons ab xs)
  then show ?case by (cases ab) (auto split: Option.bind_split)
qed simp

lemma iv_flat_sorted:
  assumes "sorted (iv_points ivs)" and "\<forall>p\<in>set (iv_points ivs). p < 2 ^ 32"
  shows "cr_sorted (iv_flat ivs)"
proof -
  have "sorted (map (of_nat :: nat \<Rightarrow> u32) (iv_points ivs))"
    unfolding sorted_map
    by (rule sorted_wrt_mono_rel [OF _ assms(1)])
       (use assms(2) in \<open>auto simp: word_le_nat_alt unsigned_of_nat take_bit_nat_eq_self\<close>)
  then show ?thesis by (simp add: cr_sorted_def iv_flat_def length_iv_points)
qed

lemma iv_flat_mem:
  assumes "\<forall>p\<in>set (iv_points ivs). p < 2 ^ 32"
  shows "cr_mem (iv_flat ivs) c \<longleftrightarrow> iv_mem ivs (unat c)"
  using assms
proof (induction ivs)
  case Nil
  then show ?case by (simp add: iv_flat_def)
next
  case (Cons ab ivs)
  then show ?case
    by (cases ab) (auto simp: iv_flat_def word_le_nat_alt word_less_nat_alt unsigned_of_nat take_bit_nat_eq_self)
qed

context cr_reallocator
begin

lemma add_all_gives:
  "cr_wf N rf cr \<Longrightarrow> cr_len cr + 2 * length ivs \<le> N \<Longrightarrow>
   cr_gives N rf (cr_data cr @ iv_flat ivs) (add_all cr ivs)"
proof (induction ivs arbitrary: cr)
  case Nil
  then show ?case by (simp add: iv_flat_def cr_gives_0)
next
  case (Cons ab ivs)
  obtain a b where ab: "ab = (a, b)" by fastforce
  obtain cr' where wf: "cr_wf N rf cr'" and
    r: "cr_add_interval cr (of_nat a) (of_nat b) = Some (0, cr') \<and> cr_data cr' = cr_data cr @ [of_nat a, of_nat b] \<or>
        cr_add_interval cr (of_nat a) (of_nat b) = Some (-1, cr')"
    using cr_add_interval_gives [of N cr "of_nat a" "of_nat b"] Cons.prems by (auto simp: cr_gives_def)
  from r show ?case
  proof
    assume s: "cr_add_interval cr (of_nat a) (of_nat b) = Some (0, cr') \<and> cr_data cr' = cr_data cr @ [of_nat a, of_nat b]"
    then have "cr_len cr' = cr_len cr + 2"
      using cr_wf_len [OF wf] cr_wf_len [OF Cons.prems(1)] by simp
    then show ?thesis using Cons.IH [OF wf] Cons.prems(2) s by (simp add: ab iv_flat_def)
  next
    assume "cr_add_interval cr (of_nat a) (of_nat b) = Some (-1, cr')"
    then show ?thesis using wf by (simp add: ab cr_gives_fail)
  qed
qed

end

subsection \<open>Labelled runs\<close>

text \<open>
  A list of runs, each with its length and a label. \<open>seg\<close> gives the intervals a decoder adds for
  one run from its label, first code point and length.
\<close>

fun runs_ivs :: "('v \<Rightarrow> nat \<Rightarrow> nat \<Rightarrow> (nat \<times> nat) list) \<Rightarrow> (nat \<times> 'v) list \<Rightarrow> nat \<Rightarrow> (nat \<times> nat) list" where
  "runs_ivs seg [] c = []"
| "runs_ivs seg ((n, v) # rs) c = seg v c n @ runs_ivs seg rs (c + n)"

text \<open>The label of a code point and its distance from the start of its run.\<close>

fun run_at :: "(nat \<times> 'v) list \<Rightarrow> nat \<Rightarrow> ('v \<times> nat) option" where
  "run_at [] x = None"
| "run_at ((n, v) # rs) x = (if x < n then Some (v, x) else run_at rs (x - n))"

definition runs_total :: "(nat \<times> 'v) list \<Rightarrow> nat" where
  "runs_total rs = sum_list (map fst rs)"

lemma runs_total_simps [simp]:
  "runs_total [] = 0" "runs_total ((n, v) # rs) = n + runs_total rs"
  "runs_total (rs @ ss) = runs_total rs + runs_total ss"
  by (simp_all add: runs_total_def)

locale run_sets =
  fixes seg :: "'v \<Rightarrow> nat \<Rightarrow> nat \<Rightarrow> (nat \<times> nat) list"
    and sel :: "'v \<Rightarrow> nat \<Rightarrow> bool"
  assumes seg_points: "p \<in> set (iv_points (seg v c n)) \<Longrightarrow> c \<le> p \<and> p \<le> c + n"
    and seg_sorted: "sorted (iv_points (seg v c n))"
    and seg_mem: "c \<le> x \<Longrightarrow> x < c + n \<Longrightarrow> iv_mem (seg v c n) x \<longleftrightarrow> sel v (x - c)"
    and seg_length: "length (seg v c n) \<le> n"
begin

lemma seg_outside: "iv_mem (seg v c n) x \<Longrightarrow> c \<le> x \<and> x < c + n"
proof -
  assume "iv_mem (seg v c n) x"
  then obtain a b where ab: "(a, b) \<in> set (seg v c n)" "a \<le> x" "x < b" by (auto simp: iv_mem_def)
  then have "a \<in> set (iv_points (seg v c n))" "b \<in> set (iv_points (seg v c n))"
    by (force simp: iv_points_def)+
  then show ?thesis using ab seg_points by fastforce
qed

lemma ivs_points: "p \<in> set (iv_points (runs_ivs seg rs c)) \<Longrightarrow> c \<le> p \<and> p \<le> c + runs_total rs"
proof (induction rs arbitrary: c)
  case (Cons nv rs)
  then show ?case by (cases nv) (fastforce dest: seg_points)
qed simp

lemma ivs_sorted: "sorted (iv_points (runs_ivs seg rs c))"
proof (induction rs arbitrary: c)
  case (Cons nv rs)
  then show ?case
    by (cases nv) (auto simp: sorted_append seg_sorted dest!: seg_points ivs_points)
qed simp

lemma ivs_length: "length (runs_ivs seg rs c) \<le> runs_total rs"
proof (induction rs arbitrary: c)
  case (Cons nv rs)
  then show ?case using add_mono [OF seg_length Cons.IH] by (cases nv) auto
qed simp

lemma ivs_mem:
  "c \<le> x \<Longrightarrow> iv_mem (runs_ivs seg rs c) x \<longleftrightarrow>
     (case run_at rs (x - c) of None \<Rightarrow> False | Some (v, k) \<Rightarrow> sel v k)"
proof (induction rs arbitrary: c)
  case (Cons nv rs)
  obtain n v where nv: "nv = (n, v)" by fastforce
  show ?case
  proof (cases "x < c + n")
    case True
    have "\<not> iv_mem (runs_ivs seg rs (c + n)) x"
    proof
      assume "iv_mem (runs_ivs seg rs (c + n)) x"
      then obtain a b where "(a, b) \<in> set (runs_ivs seg rs (c + n))" "a \<le> x" by (auto simp: iv_mem_def)
      then have "a \<in> set (iv_points (runs_ivs seg rs (c + n)))" by (force simp: iv_points_def)
      then show False using ivs_points True \<open>a \<le> x\<close> by fastforce
    qed
    then show ?thesis using True Cons.prems seg_mem by (auto simp: nv)
  next
    case False
    then have "\<not> iv_mem (seg v c n) x" using seg_outside by blast
    moreover have "\<not> x - c < n" using False Cons.prems by linarith
    ultimately show ?thesis using False Cons.IH [of "c + n"] by (simp add: nv diff_diff_left)
  qed
qed simp

text \<open>The range built from the runs: sorted, and with the selected code points as members.\<close>

lemma runs_range:
  assumes "runs_total rs < 2 ^ 32"
  shows "cr_sorted (iv_flat (runs_ivs seg rs 0))"
    and "cr_mem (iv_flat (runs_ivs seg rs 0)) c \<longleftrightarrow>
       (case run_at rs (unat c) of None \<Rightarrow> False | Some (v, k) \<Rightarrow> sel v k)"
proof -
  have "\<forall>p\<in>set (iv_points (runs_ivs seg rs 0)). p < 2 ^ 32" using ivs_points [of _ rs 0] assms by fastforce
  then show "cr_sorted (iv_flat (runs_ivs seg rs 0))"
    and "cr_mem (iv_flat (runs_ivs seg rs 0)) c \<longleftrightarrow>
       (case run_at rs (unat c) of None \<Rightarrow> False | Some (v, k) \<Rightarrow> sel v k)"
    using ivs_sorted ivs_mem [of 0 "unat c" rs] by (auto simp: iv_flat_sorted iv_flat_mem)
qed

end

end
