(* ===== verification/Unicode_Decode.thy ===== *)
theory Unicode_Decode
  imports Unicode_Runs
begin

text \<open>
  The decoders of \<open>libunicode.c\<close> that turn a compressed table into a character range:
  \<open>unicode_prop1\<close> (binary properties), \<open>unicode_general_category1\<close> (general categories) and the two
  loops of \<open>unicode_script\<close> (scripts and script extensions). The table is an argument; each decoder
  is shown to add exactly the intervals of the runs the table stands for.
\<close>

subsection \<open>Binary properties\<close>

function prop1_loop :: "'h CharRange \<Rightarrow> u8 list \<Rightarrow> nat \<Rightarrow> u32 \<Rightarrow> bool \<Rightarrow> (int \<times> 'h CharRange) option" where
  "prop1_loop cr tab p c bt =
     (if p < length tab then
        do {
          let c0 = c;
          b \<leftarrow> rd tab p;
          let b = (ucast b :: u32);
          if b < 64 then
            do {
              let c = c + (drop_bit 3 b + 1);
              (r, cr) \<leftarrow> (if bt then cr_add_interval cr c0 c else Some (0, cr));
              if r \<noteq> 0 then Some (-1, cr)
              else do {
                let bt = (\<not> bt);
                let c0 = c;
                let c = c + ((b AND 7) + 1);
                (r, cr) \<leftarrow> (if bt then cr_add_interval cr c0 c else Some (0, cr));
                if r \<noteq> 0 then Some (-1, cr) else prop1_loop cr tab (p + 1) c (\<not> bt)
              }
            }
          else if b \<ge> 0x80 then
            do {
              let c = c + (b - 0x80 + 1);
              (r, cr) \<leftarrow> (if bt then cr_add_interval cr c0 c else Some (0, cr));
              if r \<noteq> 0 then Some (-1, cr) else prop1_loop cr tab (p + 1) c (\<not> bt)
            }
          else if b < 0x60 then
            do {
              p0 \<leftarrow> rd tab (p + 1);
              let c = c + ((push_bit 8 (b - 0x40) OR ucast p0) + 1);
              (r, cr) \<leftarrow> (if bt then cr_add_interval cr c0 c else Some (0, cr));
              if r \<noteq> 0 then Some (-1, cr) else prop1_loop cr tab (p + 2) c (\<not> bt)
            }
          else
            do {
              p0 \<leftarrow> rd tab (p + 1); p1 \<leftarrow> rd tab (p + 2);
              let c = c + ((push_bit 16 (b - 0x60) OR push_bit 8 (ucast p0) OR ucast p1) + 1);
              (r, cr) \<leftarrow> (if bt then cr_add_interval cr c0 c else Some (0, cr));
              if r \<noteq> 0 then Some (-1, cr) else prop1_loop cr tab (p + 3) c (\<not> bt)
            }
        }
      else Some (0, cr))"
  by pat_completeness auto
termination
  by (relation "measure (\<lambda>(cr, tab, p, c, bt). length tab - p)") auto

declare prop1_loop.simps [simp del]

text \<open>The runs of a property table carry the bits 0 and 1 by turns.\<close>

fun bit_runs :: "nat list \<Rightarrow> bool \<Rightarrow> (nat \<times> bool) list" where
  "bit_runs [] bt = []"
| "bit_runs (r # rs) bt = (r, bt) # bit_runs rs (\<not> bt)"

definition one_seg :: "('v \<Rightarrow> bool) \<Rightarrow> 'v \<Rightarrow> nat \<Rightarrow> nat \<Rightarrow> (nat \<times> nat) list" where
  "one_seg P v c n = (if P v \<and> 0 < n then [(c, c + n)] else [])"

interpretation one_sets: run_sets "one_seg P" "\<lambda>v k. P v" for P
  by unfold_locales (auto simp: one_seg_def split: if_splits)

abbreviation prop_seg :: "bool \<Rightarrow> nat \<Rightarrow> nat \<Rightarrow> (nat \<times> nat) list" where
  "prop_seg \<equiv> one_seg (\<lambda>bt. bt)"

lemma in_runs_run_at: "in_runs rs c bt (c + x) = map_option fst (run_at (bit_runs rs bt) x)"
proof (induction rs arbitrary: c bt x)
  case (Cons r rs)
  show ?case using Cons.IH [of "c + r" "\<not> bt" "x - r"] by auto
qed simp

lemma table_mem_run_at:
  "table_runs tab = Some rs \<Longrightarrow>
   table_mem tab c \<longleftrightarrow> (case run_at (bit_runs rs False) (unat c) of None \<Rightarrow> False | Some (bt, k) \<Rightarrow> bt)"
  using in_runs_run_at [of rs 0 False "unat c"] by (auto simp: table_mem_def split: option.splits)

lemma runs_total_bit_runs [simp]: "runs_total (bit_runs rs bt) = sum_list rs"
  by (induction rs arbitrary: bt) auto

lemma add_all_seg:
  "0 < n \<Longrightarrow> add_all cr (one_seg P v c n @ ivs) =
     do { (r, cr) \<leftarrow> (if P v then cr_add_interval cr (of_nat c) (of_nat (c + n)) else Some (0, cr));
          if r \<noteq> 0 then Some (-1, cr) else add_all cr ivs }"
  by (simp add: one_seg_def)

lemma of_nat_run: "unat (k :: u32) = n \<Longrightarrow> (of_nat c :: u32) + k = of_nat (c + n)"
  by (auto simp: of_nat_add)

lemmas prop1_eval = Let_def Option.bind.bind_lunit if_True if_False runs_ivs.simps bit_runs.simps
  add_all_seg append_Nil of_nat_add [symmetric] not_not simp_thms

lemma prop1_loop_runs:
  fixes cr :: "'h CharRange"
  shows "table_runs (drop p tab) = Some rs \<Longrightarrow>
   prop1_loop cr tab p (of_nat c) bt = add_all cr (runs_ivs prop_seg (bit_runs rs bt) c)"
proof (induction "length tab - p" arbitrary: p c bt rs cr rule: less_induct)
  case less
  show ?case
  proof (cases "p < length tab")
    case False
    then show ?thesis using less.prems by (subst prop1_loop.simps) simp
  next
    case True
    have IH: "prop1_loop cr tab (p + n) (of_nat c) bt = add_all cr (runs_ivs prop_seg (bit_runs ss bt) c)"
      if "0 < n" "table_runs (drop (p + n) tab) = Some ss" for n c bt ss and cr :: "'h CharRange"
      using that True by (intro less.hyps) auto
    from less.prems True show ?thesis
    proof (cases rule: table_runs_step)
      case (two b ss k l)
      show ?thesis
        by (subst prop1_loop.simps) (simp only: True two(1-7) IH [OF zero_less_one two(8)] prop1_eval)
    next
      case (one b ss k)
      show ?thesis
        by (subst prop1_loop.simps) (simp only: True one(1-6) IH [OF zero_less_one one(7)] prop1_eval)
    next
      case (long b p0 ss k)
      show ?thesis
        by (subst prop1_loop.simps) (simp only: True long(1-8) IH [OF zero_less_numeral long(9)] prop1_eval)
    next
      case (longer b p0 p1 ss k)
      show ?thesis
        by (subst prop1_loop.simps) (simp only: True longer(1-9) IH [OF zero_less_numeral longer(10)] prop1_eval)
    qed
  qed
qed

subsection \<open>General categories\<close>

text \<open>One run of the category table: its length less one, its category and the next position.\<close>

definition gc_step :: "u8 list \<Rightarrow> nat \<Rightarrow> (u32 \<times> u32 \<times> nat) option" where
  "gc_step tab p =
     do {
       b \<leftarrow> rd tab p;
       let n = drop_bit 5 (ucast b :: u32);
       let v = (ucast b :: u32) AND 0x1f;
       if n = 7 then
         do {
           n \<leftarrow> rd tab (p + 1);
           let n = (ucast n :: u32);
           if n < 128 then Some (n + 7, v, p + 2)
           else if n < 128 + 64 then
             do { p0 \<leftarrow> rd tab (p + 2); Some ((push_bit 8 (n - 128) OR ucast p0) + (7 + 128), v, p + 3) }
           else
             do { p0 \<leftarrow> rd tab (p + 2); p1 \<leftarrow> rd tab (p + 3);
                  Some ((push_bit 16 (n - 128 - 64) OR push_bit 8 (ucast p0) OR ucast p1) + (7 + 128 + push_bit 14 1), v, p + 4) }
         }
       else Some (n, v, p + 1)
     }"

lemma gc_step_mono: "gc_step tab p = Some (n, v, p') \<Longrightarrow> p < p'"
  by (auto simp: gc_step_def Let_def split: Option.bind_splits if_splits)

text \<open>The alternating run of upper-case and lower-case letters; it ends unless the counter wraps.\<close>

partial_function (option) gc_alt :: "'h CharRange \<Rightarrow> u32 \<Rightarrow> u32 \<Rightarrow> (int \<times> 'h CharRange) option" where
  "gc_alt cr c0 c =
     (if c0 < c then
        do { (r, cr) \<leftarrow> cr_add_interval cr c0 (c0 + 1);
             if r \<noteq> 0 then Some (-1, cr) else gc_alt cr (c0 + 2) c }
      else Some (0, cr))"

definition M_Lu :: u32 where "M_Lu = push_bit 1 1"
definition M_Ll :: u32 where "M_Ll = push_bit 2 1"

definition gc_add :: "'h CharRange \<Rightarrow> u32 \<Rightarrow> u32 \<Rightarrow> u32 \<Rightarrow> u32 \<Rightarrow> (int \<times> 'h CharRange) option" where
  "gc_add cr gc_mask v c0 c =
     (if v = 31 then
        (let b = gc_mask AND (M_Lu OR M_Ll) in
         if b \<noteq> 0 then
           if b = M_Lu OR M_Ll then cr_add_interval cr c0 c
           else gc_alt cr (c0 + (if gc_mask AND M_Ll \<noteq> 0 then 1 else 0)) c
         else Some (0, cr))
      else if drop_bit (unat v) gc_mask AND 1 \<noteq> 0 then cr_add_interval cr c0 c
      else Some (0, cr))"

function gc1_loop :: "'h CharRange \<Rightarrow> u8 list \<Rightarrow> u32 \<Rightarrow> nat \<Rightarrow> u32 \<Rightarrow> (int \<times> 'h CharRange) option" where
  "gc1_loop cr tab gc_mask p c =
     (if p < length tab then
        (case gc_step tab p of
           None \<Rightarrow> None
         | Some (n, v, p') \<Rightarrow>
             do {
               let c0 = c;
               let c = c + (n + 1);
               (r, cr) \<leftarrow> gc_add cr gc_mask v c0 c;
               if r \<noteq> 0 then Some (-1, cr) else gc1_loop cr tab gc_mask p' c
             })
      else Some (0, cr))"
  by pat_completeness auto
termination
  by (relation "measure (\<lambda>(cr, tab, m, p, c). length tab - p)") (auto dest!: gc_step_mono)

declare gc1_loop.simps [simp del]

text \<open>The runs a category table stands for.\<close>

fun gc_runs :: "u8 list \<Rightarrow> (nat \<times> nat) list option" where
  "gc_runs [] = Some []"
| "gc_runs (b # p) =
     (let n = unat b div 32; v = unat b mod 32 in
      if n = 7 then
        (case p of
           [] \<Rightarrow> None
         | m # p \<Rightarrow>
             (let n = unat m in
              if n < 128 then map_option (\<lambda>rs. (n + 8, v) # rs) (gc_runs p)
              else if n < 192 then
                (case p of
                   p0 # p \<Rightarrow> map_option (\<lambda>rs. ((n - 128) * 256 + unat p0 + 136, v) # rs) (gc_runs p)
                 | [] \<Rightarrow> None)
              else
                (case p of
                   p0 # p1 # p \<Rightarrow>
                     map_option (\<lambda>rs. ((n - 192) * 65536 + unat p0 * 256 + unat p1 + 16520, v) # rs) (gc_runs p)
                 | _ \<Rightarrow> None)))
      else map_option (\<lambda>rs. (n + 1, v) # rs) (gc_runs p))"

function alt_ivs :: "nat \<Rightarrow> nat \<Rightarrow> (nat \<times> nat) list" where
  "alt_ivs a b = (if a < b then (a, a + 1) # alt_ivs (a + 2) b else [])"
  by pat_completeness auto
termination
  by (relation "measure (\<lambda>(a, b). b - a)") auto

declare alt_ivs.simps [simp del]

definition gc_seg :: "u32 \<Rightarrow> nat \<Rightarrow> nat \<Rightarrow> nat \<Rightarrow> (nat \<times> nat) list" where
  "gc_seg m v c n =
     (if n = 0 then []
      else if v = 31 then
        (if bit m 1 \<and> bit m 2 then [(c, c + n)]
         else if bit m 1 then alt_ivs c (c + n)
         else if bit m 2 then alt_ivs (c + 1) (c + n)
         else [])
      else if bit m v then [(c, c + n)] else [])"

definition gc_sel :: "u32 \<Rightarrow> nat \<Rightarrow> nat \<Rightarrow> bool" where
  "gc_sel m v k = bit m (if v = 31 then if even k then 1 else 2 else v)"

lemma alt_ivs_points: "p \<in> set (iv_points (alt_ivs a b)) \<Longrightarrow> a \<le> p \<and> p \<le> b"
proof (induction a b rule: alt_ivs.induct)
  case (1 a b)
  show ?case using 1 by (subst (asm) alt_ivs.simps) (auto split: if_splits)
qed

lemma alt_ivs_sorted: "sorted (iv_points (alt_ivs a b))"
proof (induction a b rule: alt_ivs.induct)
  case (1 a b)
  then show ?case by (subst alt_ivs.simps) (auto dest!: alt_ivs_points)
qed

lemma alt_ivs_mem: "iv_mem (alt_ivs a b) x \<longleftrightarrow> a \<le> x \<and> x < b \<and> even (x - a)"
proof (induction a b rule: alt_ivs.induct)
  case (1 a b)
  have e: "alt_ivs a b = (if a < b then (a, a + 1) # alt_ivs (a + 2) b else [])" by (rule alt_ivs.simps)
  have "even (x - (a + 2)) \<longleftrightarrow> even (x - a)" if "a + 2 \<le> x" using that by presburger
  moreover consider "x < a" | "x = a" | "x = a + 1" | "a + 2 \<le> x" by linarith
  then show ?case using 1 calculation by cases (auto simp: e)
qed

lemma alt_ivs_length: "length (alt_ivs a b) \<le> b - a"
proof (induction a b rule: alt_ivs.induct)
  case (1 a b)
  then show ?case by (subst alt_ivs.simps) auto
qed

interpretation gc_sets: run_sets "gc_seg m" "gc_sel m" for m
proof
  fix p v c n :: nat assume "p \<in> set (iv_points (gc_seg m v c n))"
  then show "c \<le> p \<and> p \<le> c + n" by (auto simp: gc_seg_def dest!: alt_ivs_points split: if_splits)
next
  fix v c n :: nat show "sorted (iv_points (gc_seg m v c n))" by (simp add: gc_seg_def alt_ivs_sorted)
next
  fix c x n v :: nat assume "c \<le> x" "x < c + n"
  then show "iv_mem (gc_seg m v c n) x = gc_sel m v (x - c)"
    by (auto simp: gc_seg_def gc_sel_def alt_ivs_mem Suc_le_eq le_less)
next
  fix v c n :: nat show "length (gc_seg m v c n) \<le> n"
    using alt_ivs_length [of c "c + n"] alt_ivs_length [of "c + 1" "c + n"] by (auto simp: gc_seg_def)
qed

lemma gc_alt_ivs:
  fixes cr :: "'h CharRange"
  shows "a < 2 ^ 31 \<Longrightarrow> b < 2 ^ 31 \<Longrightarrow> gc_alt cr (of_nat a) (of_nat b) = add_all cr (alt_ivs a b)"
proof (induction a b arbitrary: cr rule: alt_ivs.induct)
  case (1 a b)
  have lt: "(of_nat a :: u32) < of_nat b \<longleftrightarrow> a < b"
    using "1.prems" by (simp add: word_less_nat_alt unsigned_of_nat take_bit_nat_eq_self)
  show ?case
  proof (cases "a < b")
    case True
    have IH: "gc_alt cr (of_nat a + 2) (of_nat b) = add_all cr (alt_ivs (a + 2) b)" if "a + 2 < 2 ^ 31"
      for cr :: "'h CharRange"
      using "1.IH" [OF True that "1.prems"(2), of cr] by (simp add: add.commute)
    have E: "gc_alt cr (of_nat a + 2) (of_nat b) = add_all cr (alt_ivs (a + 2) b)" for cr :: "'h CharRange"
    proof (cases "a + 2 < 2 ^ 31")
      case False
      then have "b \<le> a + 2" using True "1.prems" by linarith
      moreover have "unat (of_nat (a + 2) :: u32) = a + 2" "unat (of_nat b :: u32) = b"
        using "1.prems" by (simp_all only: unsigned_of_nat) (simp_all add: take_bit_nat_eq_self)
      then have "\<not> (of_nat (a + 2) :: u32) < of_nat b" using calculation by (simp only: word_less_nat_alt)
      then have "\<not> (of_nat a + 2 :: u32) < of_nat b" by (simp add: add.commute)
      ultimately show ?thesis by (subst gc_alt.simps, subst alt_ivs.simps) simp
    qed (rule IH)
    show ?thesis
      by (subst gc_alt.simps, subst alt_ivs.simps) (simp add: True lt E add.commute cong: if_cong)
  next
    case False
    then show ?thesis by (subst gc_alt.simps, subst alt_ivs.simps) (simp add: lt)
  qed
qed

lemma bit_tests:
  fixes m :: u32
  shows "m AND M_Ll \<noteq> 0 \<longleftrightarrow> bit m 2"
    and "m AND (M_Lu OR M_Ll) \<noteq> 0 \<longleftrightarrow> bit m 1 \<or> bit m 2"
    and "m AND (M_Lu OR M_Ll) = M_Lu OR M_Ll \<longleftrightarrow> bit m 1 \<and> bit m 2"
    and "drop_bit k m AND 1 \<noteq> 0 \<longleftrightarrow> bit m k"
proof -
  have L: "bit M_Ll n \<longleftrightarrow> n = 2" "bit M_Lu n \<longleftrightarrow> n = 1" for n
    unfolding M_Ll_def M_Lu_def bit_push_bit_iff bit_1_iff by auto
  show "m AND M_Ll \<noteq> 0 \<longleftrightarrow> bit m 2" by (auto simp: bit_eq_iff [where 'a = u32] bit_and_iff L)
  show "m AND (M_Lu OR M_Ll) \<noteq> 0 \<longleftrightarrow> bit m 1 \<or> bit m 2"
    by (auto simp: bit_eq_iff [where 'a = u32] bit_and_iff bit_or_iff L intro: exI [of _ "Suc 0"] exI [of _ 2])
  show "m AND (M_Lu OR M_Ll) = M_Lu OR M_Ll \<longleftrightarrow> bit m 1 \<and> bit m 2"
    by (auto simp: bit_eq_iff [where 'a = u32] bit_and_iff bit_or_iff L dest: spec [of _ "Suc 0"] spec [of _ 2])
  show "drop_bit k m AND 1 \<noteq> 0 \<longleftrightarrow> bit m k"
    by (auto simp: bit_eq_iff [where 'a = u32] bit_and_iff bit_drop_bit_eq bit_1_iff)
qed

lemma cr_realloc_ret: "cr_realloc cr n = Some (r, cr') \<Longrightarrow> r = 0 \<or> r = -1"
  by (auto simp: cr_realloc_def Let_def split: if_splits Option.bind_splits prod.splits option.splits)

lemma cr_add_interval_ret: "cr_add_interval cr a b = Some (r, cr') \<Longrightarrow> r = 0 \<or> r = -1"
  by (auto simp: cr_add_interval_def split: if_splits Option.bind_splits prod.splits)

lemma gc_add_seg:
  assumes "c + n < 2 ^ 31" and "0 < n" and "v < 32"
  shows "gc_add cr m (of_nat v) (of_nat c) (of_nat (c + n)) = add_all cr (gc_seg m v c n)"
proof -
  have v: "(of_nat v :: u32) = 31 \<longleftrightarrow> v = 31" "unat (of_nat v :: u32) = v"
    using assms(3) by (auto simp: unsigned_of_nat take_bit_nat_eq_self dest: arg_cong [where f = unat])
  have one: "add_all cr [(c, c + n)] = cr_add_interval cr (of_nat c) (of_nat (c + n))"
    by (auto split: Option.bind_split dest: cr_add_interval_ret)
  have alt: "gc_alt cr (of_nat c) (of_nat (c + n)) = add_all cr (alt_ivs c (c + n))"
      "gc_alt cr (of_nat c + 1) (of_nat (c + n)) = add_all cr (alt_ivs (c + 1) (c + n))"
    using gc_alt_ivs [of c "c + n" cr] gc_alt_ivs [of "c + 1" "c + n" cr] assms by (simp_all add: add.commute)
  show ?thesis
    unfolding gc_add_def gc_seg_def Let_def v bit_tests
    using assms(2) alt one by (auto simp del: of_nat_add add_all.simps simp: add_all.simps(1))
qed

text \<open>The byte-level run lengths of the category and script tables.\<close>

lemma unat_two_bytes:
  fixes n :: u32 and p0 :: u8
  assumes "k \<le> unat n" and "unat n < 256"
  shows "unat (push_bit 8 (n - of_nat k) OR ucast p0) = (unat n - k) * 256 + unat p0"
proof -
  have s: "unat (n - of_nat k) = unat n - k"
    using assms by (subst unat_sub) (auto simp: word_le_nat_alt unsigned_of_nat take_bit_nat_eq_self)
  show ?thesis
    using or_shift_add [of "ucast p0" 8 "n - of_nat k"] assms(2) unat_bounds(1) [of p0] by (simp add: s unat_widen)
qed

lemma unat_three_bytes:
  fixes n :: u32 and p0 p1 :: u8
  assumes "k \<le> unat n" and "unat n < 256"
  shows "unat (push_bit 16 (n - of_nat k) OR push_bit 8 (ucast p0) OR ucast p1)
     = (unat n - k) * 65536 + unat p0 * 256 + unat p1"
proof -
  have s: "unat (n - of_nat k) = unat n - k"
    using assms by (subst unat_sub) (auto simp: word_le_nat_alt unsigned_of_nat take_bit_nat_eq_self)
  have 1: "unat (push_bit 8 (ucast p0 :: u32) OR ucast p1) = unat p0 * 256 + unat p1"
    using or_shift_add [of "ucast p1" 8 "ucast p0"] unat_bounds(1) [of p0] unat_bounds(1) [of p1]
    by (simp add: unat_widen)
  show ?thesis
    using or_shift_add [of "push_bit 8 (ucast p0 :: u32) OR ucast p1" 16 "n - of_nat k"] assms(2) 1
      unat_bounds(1) [of p0] unat_bounds(1) [of p1]
    by (simp add: s or.assoc)
qed

lemma unat_plus:
  fixes x :: u32
  assumes "unat x = n" and "n + k < 2 ^ 32"
  shows "x + of_nat k = of_nat (n + k)"
  using assms by auto

lemma two_byte_run:
  fixes n :: u32 and p0 :: u8
  assumes "k \<le> unat n" and "unat n < 256" and "s < 2 ^ 31"
  shows "(push_bit 8 (n - of_nat k) OR ucast p0) + of_nat s = of_nat ((unat n - k) * 256 + unat p0 + s)"
proof -
  have "(unat n - k) * 256 + unat p0 + s < 2 ^ 32" using assms(2,3) unat_bounds(1) [of p0] by simp
  then show ?thesis by (rule unat_plus [OF unat_two_bytes [OF assms(1,2)]])
qed

lemma three_byte_run:
  fixes n :: u32 and p0 p1 :: u8
  assumes "k \<le> unat n" and "unat n < 256" and "s < 2 ^ 31"
  shows "(push_bit 16 (n - of_nat k) OR push_bit 8 (ucast p0) OR ucast p1) + of_nat s
    = of_nat ((unat n - k) * 65536 + unat p0 * 256 + unat p1 + s)"
proof -
  have "(unat n - k) * 65536 + unat p0 * 256 + unat p1 + s < 2 ^ 32"
    using assms(2,3) unat_bounds(1) [of p0] unat_bounds(1) [of p1] by simp
  then show ?thesis by (rule unat_plus [OF unat_three_bytes [OF assms(1,2)]])
qed

lemma of_nat_unatI: "unat x = n \<Longrightarrow> x = of_nat n" for x :: u32
  by auto

lemma byte_fields:
  fixes b :: u8
  shows "drop_bit k (ucast b :: u32) = of_nat (unat b div 2 ^ k)"
    and "((ucast b :: u32) AND mask k) = of_nat (unat b mod 2 ^ k)"
  using unat_shr [of k "ucast b"] unat_field [of 0 "ucast b" k] by (auto simp: unat_widen intro!: of_nat_unatI)

lemma gc_fields:
  fixes b :: u8
  shows "drop_bit 5 (ucast b :: u32) = of_nat (unat b div 32)" "((ucast b :: u32) AND 0x1f) = of_nat (unat b mod 32)"
  using byte_fields [where k = 5 and b = b] by (simp_all add: mask_eq_exp_minus_1)

lemma of_nat_eq_small: "n < 2 ^ 32 \<Longrightarrow> (of_nat n :: u32) = numeral k \<longleftrightarrow> n = unat (numeral k :: u32)"
  by (auto simp: u32_eq_iff unsigned_of_nat take_bit_nat_eq_self)

lemma gc_step_runs:
  assumes "gc_runs (drop p tab) = Some rs" and "p < length tab"
  shows "\<exists>n v p' ss. gc_step tab p = Some (of_nat n, of_nat v, p') \<and> v < 32 \<and> p < p' \<and>
    rs = (n + 1, v) # ss \<and> gc_runs (drop p' tab) = Some ss"
proof -
  define b where "b = tab ! p"
  have d: "drop p tab = b # drop (p + 1) tab" using assms(2) by (simp add: b_def Cons_nth_drop_Suc)
  have rb: "rd tab p = Some b" using assms(2) by (simp add: b_def)
  have b7: "(of_nat (unat b div 32) :: u32) = 7 \<longleftrightarrow> unat b div 32 = 7"
    using unat_bounds(1) [of b] by (subst of_nat_eq_small) auto
  show ?thesis
  proof (cases "unat b div 32 = 7")
    case False
    then show ?thesis using assms(1) rb b7 unfolding d by (auto simp: gc_step_def gc_fields Let_def)
  next
    case True
    obtain m where m: "drop (p + 1) tab = m # drop (p + 2) tab" and rm: "rd tab (p + 1) = Some m"
      using assms(1) True unfolding d
      by (auto simp: Let_def split: list.splits dest!: rd_drop_Cons [of "Suc p" tab])
    have cmp: "(ucast m :: u32) < 128 \<longleftrightarrow> unat m < 128" "(ucast m :: u32) < 128 + 64 \<longleftrightarrow> unat m < 192"
      by (simp_all add: word_less_nat_alt unat_widen)
    consider "unat m < 128" | "128 \<le> unat m" "unat m < 192" | "192 \<le> unat m" by linarith
    then show ?thesis
    proof cases
      case 1
      obtain ss where ss: "gc_runs (drop (p + 2) tab) = Some ss" "rs = (unat m + 8, unat b mod 32) # ss"
        using assms(1) True 1 unfolding d m by (auto simp: Let_def)
      have "(ucast m :: u32) + 7 = of_nat (unat m + 7)"
        using unat_plus [of "ucast m" "unat m" 7] unat_bounds(1) [of m] by (simp add: unat_widen)
      then have "gc_step tab p = Some (of_nat (unat m + 7), of_nat (unat b mod 32), p + 2)"
        using 1 True by (simp only: gc_step_def rb rm gc_fields Let_def Option.bind.bind_lunit cmp of_nat_numeral simp_thms if_True)
      then show ?thesis using ss by (intro exI [of _ "unat m + 7"] exI [of _ "unat b mod 32"] exI [of _ "p + 2"]) auto
    next
      case 2
      obtain p0 ss where ss: "drop (p + 2) tab = p0 # drop (p + 3) tab" "gc_runs (drop (p + 3) tab) = Some ss"
          "rs = ((unat m - 128) * 256 + unat p0 + 136, unat b mod 32) # ss"
        using assms(1) True 2 unfolding d m
        by (auto simp: Let_def numeral_3_eq_3 split: list.splits dest!: rd_drop_Cons [of "Suc (Suc p)" tab])
      let ?n = "(unat m - 128) * 256 + unat p0 + (7 + 128)"
      have "(push_bit 8 ((ucast m :: u32) - 128) OR ucast p0) + (7 + 128) = of_nat ?n"
        using two_byte_run [of 128 "ucast m" "7 + 128" p0] 2(1) unat_bounds(1) [of m] by (simp add: unat_widen)
      then have "gc_step tab p = Some (of_nat ?n, of_nat (unat b mod 32), p + 3)"
        using 2 True rd_drop_Cons [OF ss(1)]
        by (simp only: gc_step_def rb rm gc_fields Let_def Option.bind.bind_lunit cmp not_less of_nat_numeral simp_thms if_True if_False)
           (simp add: not_less)
      then show ?thesis using ss by (intro exI [of _ ?n] exI [of _ "unat b mod 32"] exI [of _ "p + 3"]) auto
    next
      case 3
      obtain p0 p1 q ss where q: "drop (p + 2) tab = p0 # p1 # q" "gc_runs q = Some ss"
          "rs = ((unat m - 192) * 65536 + unat p0 * 256 + unat p1 + 16520, unat b mod 32) # ss"
        using assms(1) True 3 unfolding d m by (auto simp: Let_def split: list.splits)
      have rp: "rd tab (p + 2) = Some p0" "rd tab (p + 3) = Some p1" and "q = drop (p + 4) tab"
        using rd_drop_Cons [OF q(1)] rd_drop_Cons [of "p + 3" tab p1 q] by (simp_all add: numeral_eq_Suc)
      note ss = q [unfolded this]
      let ?n = "(unat m - 192) * 65536 + unat p0 * 256 + unat p1 + 16519"
      have "(push_bit 16 ((ucast m :: u32) - 128 - 64) OR push_bit 8 (ucast p0) OR ucast p1) + (7 + 128 + push_bit 14 1) = of_nat ?n"
        using three_byte_run [of 192 "ucast m" 16519 p0 p1] 3 unat_bounds(1) [of m] by (simp add: unat_widen)
      then have "gc_step tab p = Some (of_nat ?n, of_nat (unat b mod 32), p + 4)"
        using 3 True rp
        by (simp only: gc_step_def rb rm gc_fields Let_def Option.bind.bind_lunit cmp not_less of_nat_numeral simp_thms if_True if_False)
           (simp add: not_less)
      then show ?thesis using ss by (intro exI [of _ ?n] exI [of _ "unat b mod 32"] exI [of _ "p + 4"]) auto
    qed
  qed
qed

lemma gc1_loop_runs:
  fixes cr :: "'h CharRange"
  shows "gc_runs (drop p tab) = Some rs \<Longrightarrow> c + runs_total rs < 2 ^ 31 \<Longrightarrow>
   gc1_loop cr tab m p (of_nat c) = add_all cr (runs_ivs (gc_seg m) rs c)"
proof (induction "length tab - p" arbitrary: p c rs cr rule: less_induct)
  case less
  show ?case
  proof (cases "p < length tab")
    case False
    then show ?thesis using less.prems by (subst gc1_loop.simps) simp
  next
    case True
    obtain n v p' ss where g: "gc_step tab p = Some (of_nat n, of_nat v, p')" "v < 32" "p < p'"
        "rs = (n + 1, v) # ss" "gc_runs (drop p' tab) = Some ss"
      using gc_step_runs [OF less.prems(1) True] by blast
    have IH: "gc1_loop cr tab m p' (of_nat (c + (n + 1))) = add_all cr (runs_ivs (gc_seg m) ss (c + (n + 1)))"
      for cr :: "'h CharRange"
      using less.prems(2) g True by (intro less.hyps) auto
    have add: "gc_add cr m (of_nat v) (of_nat c) (of_nat (c + (n + 1))) = add_all cr (gc_seg m v c (n + 1))"
      using less.prems(2) g by (intro gc_add_seg) auto
    have one: "(of_nat n :: u32) + 1 = of_nat (n + 1)" by simp
    show ?thesis
      by (subst gc1_loop.simps)
        (simp only: True g(1,4) if_True Let_def option.case prod.case one of_nat_add [symmetric] add IH
          runs_ivs.simps add_all_append)
  qed
qed

subsection \<open>Scripts\<close>

definition script_step :: "u8 list \<Rightarrow> nat \<Rightarrow> (u32 \<times> u32 \<times> nat) option" where
  "script_step tab p =
     do {
       b \<leftarrow> rd tab p;
       let type = drop_bit 7 (ucast b :: u32);
       let n = (ucast b :: u32) AND 0x7f;
       (n, p) \<leftarrow>
         (if n < 96 then Some (n, p + 1)
          else if n < 112 then
            do { p0 \<leftarrow> rd tab (p + 1); Some ((push_bit 8 (n - 96) OR ucast p0) + 96, p + 2) }
          else
            do { p0 \<leftarrow> rd tab (p + 1); p1 \<leftarrow> rd tab (p + 2);
                 Some ((push_bit 16 (n - 112) OR push_bit 8 (ucast p0) OR ucast p1) + (96 + push_bit 12 1), p + 3) });
       if type = 0 then Some (n, 0, p)
       else do { v \<leftarrow> rd tab p; Some (n, ucast v, p + 1) }
     }"

lemma script_step_mono: "script_step tab p = Some (n, v, p') \<Longrightarrow> p < p'"
  by (auto simp: script_step_def Let_def split: Option.bind_splits if_splits)

function script_loop :: "'h CharRange \<Rightarrow> u8 list \<Rightarrow> u32 \<Rightarrow> nat \<Rightarrow> u32 \<Rightarrow> (int \<times> 'h CharRange) option" where
  "script_loop cr tab script_idx p c =
     (if p < length tab then
        (case script_step tab p of
           None \<Rightarrow> None
         | Some (n, v, p') \<Rightarrow>
             do {
               let c1 = c + (n + 1);
               (r, cr) \<leftarrow> (if v = script_idx then cr_add_interval cr c c1 else Some (0, cr));
               if r \<noteq> 0 then Some (-1, cr) else script_loop cr tab script_idx p' c1
             })
      else Some (0, cr))"
  by pat_completeness auto
termination
  by (relation "measure (\<lambda>(cr, tab, m, p, c). length tab - p)") (auto dest!: script_step_mono)

declare script_loop.simps [simp del]

text \<open>One run of the extension table: its length less one, the number of scripts, where they start.\<close>

definition ext_step :: "u8 list \<Rightarrow> nat \<Rightarrow> (u32 \<times> nat \<times> nat) option" where
  "ext_step tab p =
     do {
       b \<leftarrow> rd tab p;
       let b = (ucast b :: u32);
       (n, p) \<leftarrow>
         (if b < 128 then Some (b, p + 1)
          else if b < 128 + 64 then
            do { p0 \<leftarrow> rd tab (p + 1); Some ((push_bit 8 (b - 128) OR ucast p0) + 128, p + 2) }
          else
            do { p0 \<leftarrow> rd tab (p + 1); p1 \<leftarrow> rd tab (p + 2);
                 Some ((push_bit 16 (b - 128 - 64) OR push_bit 8 (ucast p0) OR ucast p1) + (128 + push_bit 14 1), p + 3) });
       v_len \<leftarrow> rd tab p;
       Some (n, unat v_len, p + 1)
     }"

lemma ext_step_mono: "ext_step tab p = Some (n, v, p') \<Longrightarrow> p < p'"
  by (auto simp: ext_step_def Let_def split: Option.bind_splits if_splits)

text \<open>The search for the script in the list of a run; it stops at the first hit.\<close>

fun ext_find :: "u8 list \<Rightarrow> nat \<Rightarrow> nat \<Rightarrow> u32 \<Rightarrow> bool option" where
  "ext_find tab p 0 script_idx = Some False"
| "ext_find tab p (Suc k) script_idx =
     do { v \<leftarrow> rd tab p; if ucast v = script_idx then Some True else ext_find tab (p + 1) k script_idx }"

function ext_loop :: "'h CharRange \<Rightarrow> u8 list \<Rightarrow> u32 \<Rightarrow> bool \<Rightarrow> nat \<Rightarrow> u32 \<Rightarrow> (int \<times> 'h CharRange) option" where
  "ext_loop cr tab script_idx is_common p c =
     (if p < length tab then
        (case ext_step tab p of
           None \<Rightarrow> None
         | Some (n, v_len, p') \<Rightarrow>
             do {
               let c1 = c + (n + 1);
               hit \<leftarrow> (if is_common then Some (v_len \<noteq> 0) else ext_find tab p' v_len script_idx);
               (r, cr) \<leftarrow> (if hit then cr_add_interval cr c c1 else Some (0, cr));
               if r \<noteq> 0 then Some (-1, cr) else ext_loop cr tab script_idx is_common (p' + v_len) c1
             })
      else Some (0, cr))"
  by pat_completeness auto
termination
  by (relation "measure (\<lambda>(cr, tab, m, i, p, c). length tab - p)") (auto dest!: ext_step_mono)

declare ext_loop.simps [simp del]

text \<open>The runs of the two tables.\<close>

definition run_prefix :: "nat \<Rightarrow> nat \<Rightarrow> nat \<Rightarrow> nat \<Rightarrow> u8 list \<Rightarrow> (nat \<times> u8 list) option" where
  "run_prefix n s1 s2 k p =
     (if n < s1 then Some (n + 1, p)
      else if n < s2 then
        (case p of p0 # p \<Rightarrow> Some ((n - s1) * 256 + unat p0 + s1 + 1, p) | [] \<Rightarrow> None)
      else
        (case p of p0 # p1 # p \<Rightarrow> Some ((n - s2) * 65536 + unat p0 * 256 + unat p1 + s1 + k + 1, p) | _ \<Rightarrow> None))"

lemma run_prefix_length: "run_prefix n s1 s2 k p = Some (m, q) \<Longrightarrow> length q \<le> length p"
  by (auto simp: run_prefix_def split: if_splits list.splits)

function script_runs :: "u8 list \<Rightarrow> (nat \<times> nat) list option" where
  "script_runs [] = Some []"
| "script_runs (b # p) =
     (case run_prefix (unat b mod 128) 96 112 4096 p of
        None \<Rightarrow> None
      | Some (n, p) \<Rightarrow>
          if unat b < 128 then map_option (\<lambda>rs. (n, 0) # rs) (script_runs p)
          else (case p of [] \<Rightarrow> None | v # p \<Rightarrow> map_option (\<lambda>rs. (n, unat v) # rs) (script_runs p)))"
  by pat_completeness auto
termination
  by (relation "measure length") (auto dest!: run_prefix_length)

function ext_runs :: "u8 list \<Rightarrow> (nat \<times> nat list) list option" where
  "ext_runs [] = Some []"
| "ext_runs (b # p) =
     (case run_prefix (unat b) 128 192 16384 p of
        None \<Rightarrow> None
      | Some (n, p) \<Rightarrow>
          (case p of
             [] \<Rightarrow> None
           | l # p \<Rightarrow>
               if unat l \<le> length p
               then map_option (\<lambda>rs. (n, map unat (take (unat l) p)) # rs) (ext_runs (drop (unat l) p))
               else None))"
  by pat_completeness auto
termination
  by (relation "measure length") (auto dest!: run_prefix_length)

text \<open>The shared prefix of a run, as the two step functions read it.\<close>

lemma run_prefix_step:
  fixes nn :: u32
  assumes r: "run_prefix (unat nn) s1 s2 k (drop (p + 1) tab) = Some (n, q)"
    and s: "unat nn < 256" "s1 \<le> s2" "s2 < 256" "k < 65536"
  shows "\<exists>m p'. (if nn < of_nat s1 then Some (nn, p + 1)
      else if nn < of_nat s2 then
        do { p0 \<leftarrow> rd tab (p + 1); Some ((push_bit 8 (nn - of_nat s1) OR ucast p0) + of_nat s1, p + 2) }
      else
        do { p0 \<leftarrow> rd tab (p + 1); p1 \<leftarrow> rd tab (p + 2);
             Some ((push_bit 16 (nn - of_nat s2) OR push_bit 8 (ucast p0) OR ucast p1) + of_nat (s1 + k), p + 3) })
      = Some (of_nat m, p') \<and> n = m + 1 \<and> q = drop p' tab \<and> p < p'"
proof -
  have cmp: "nn < of_nat s1 \<longleftrightarrow> unat nn < s1" "nn < of_nat s2 \<longleftrightarrow> unat nn < s2"
    using s by (simp_all add: word_less_nat_alt unsigned_of_nat take_bit_nat_eq_self)
  consider "unat nn < s1" | "s1 \<le> unat nn" "unat nn < s2" | "s2 \<le> unat nn" by linarith
  then show ?thesis
  proof cases
    case 1
    then show ?thesis
      using r by (intro exI [of _ "unat nn"] exI [of _ "p + 1"]) (auto simp: cmp run_prefix_def)
  next
    case 2
    obtain p0 where p0: "drop (p + 1) tab = p0 # q" "n = (unat nn - s1) * 256 + unat p0 + s1 + 1"
      using r 2 by (auto simp: run_prefix_def split: list.splits)
    have e: "(push_bit 8 (nn - of_nat s1) OR ucast p0) + of_nat s1 = of_nat ((unat nn - s1) * 256 + unat p0 + s1)"
      using 2 s by (intro two_byte_run) auto
    show ?thesis
      using 2 p0 rd_drop_Cons [OF p0(1)]
      by (intro exI [of _ "(unat nn - s1) * 256 + unat p0 + s1"] exI [of _ "p + 2"]) (auto simp: cmp e simp del: of_nat_add)
  next
    case 3
    obtain p0 p1 where p0: "drop (p + 1) tab = p0 # p1 # q"
        "n = (unat nn - s2) * 65536 + unat p0 * 256 + unat p1 + s1 + k + 1"
      using r 3 s(2) by (auto simp: run_prefix_def split: list.splits)
    have e: "(push_bit 16 (nn - of_nat s2) OR push_bit 8 (ucast p0) OR ucast p1) + of_nat (s1 + k)
        = of_nat ((unat nn - s2) * 65536 + unat p0 * 256 + unat p1 + (s1 + k))"
      using 3 s by (intro three_byte_run) auto
    have rp: "rd tab (p + 1) = Some p0" "rd tab (p + 2) = Some p1" "q = drop (p + 3) tab"
      using rd_drop_Cons [OF p0(1)] rd_drop_Cons [of "p + 2" tab p1 q] by (simp_all add: numeral_eq_Suc)
    show ?thesis
      using 3 s(2) p0(2) rp
      by (intro exI [of _ "(unat nn - s2) * 65536 + unat p0 * 256 + unat p1 + (s1 + k)"] exI [of _ "p + 3"])
         (auto simp: cmp e simp del: of_nat_add)
  qed
qed

lemma script_step_runs:
  assumes "script_runs (drop p tab) = Some rs" and "p < length tab"
  shows "\<exists>n v p' ss. script_step tab p = Some (of_nat n, of_nat v, p') \<and> v < 256 \<and> p < p' \<and>
    rs = (n + 1, v) # ss \<and> script_runs (drop p' tab) = Some ss"
proof -
  define b where "b = tab ! p"
  have d: "drop p tab = b # drop (p + 1) tab" using assms(2) by (simp add: b_def Cons_nth_drop_Suc)
  have rb: "rd tab p = Some b" using assms(2) by (simp add: b_def)
  have f: "drop_bit 7 (ucast b :: u32) = of_nat (unat b div 128)" "((ucast b :: u32) AND 0x7f) = of_nat (unat b mod 128)"
    using byte_fields [where k = 7 and b = b] by (simp_all add: mask_eq_exp_minus_1)
  have u: "unat (of_nat (unat b mod 128) :: u32) = unat b mod 128"
    by (simp add: unsigned_of_nat take_bit_nat_eq_self)
  have t: "(of_nat (unat b div 128) :: u32) = 0 \<longleftrightarrow> unat b < 128"
    using unat_bounds(1) [of b] by (auto simp: u32_eq_iff unsigned_of_nat take_bit_nat_eq_self)
  have s: "unat b mod 128 < 256" "96 \<le> (112 :: nat)" "112 < (256 :: nat)" "4096 < (65536 :: nat)"
    and c: "(96 + push_bit 12 1 :: u32) = of_nat (96 + 4096)" by simp_all
  obtain n q where q: "run_prefix (unat b mod 128) 96 112 4096 (drop (p + 1) tab) = Some (n, q)"
    using assms(1) unfolding d by (auto split: option.splits)
  obtain m p' where m: "(if (of_nat (unat b mod 128) :: u32) < 96 then Some (of_nat (unat b mod 128), p + 1)
      else if (of_nat (unat b mod 128) :: u32) < 112 then
        do { p0 \<leftarrow> rd tab (p + 1); Some ((push_bit 8 ((of_nat (unat b mod 128) :: u32) - 96) OR ucast p0) + 96, p + 2) }
      else
        do { p0 \<leftarrow> rd tab (p + 1); p1 \<leftarrow> rd tab (p + 2);
             Some ((push_bit 16 ((of_nat (unat b mod 128) :: u32) - 112) OR push_bit 8 (ucast p0) OR ucast p1)
               + (96 + push_bit 12 1), p + 3) })
      = Some (of_nat m, p')" "n = m + 1" "q = drop p' tab" "p < p'"
    using run_prefix_step [of "of_nat (unat b mod 128)" 96 112 4096 p tab n q, unfolded u, OF q s,
        unfolded of_nat_numeral c [symmetric]] by blast
  show ?thesis
  proof (cases "unat b < 128")
    case True
    then have "script_step tab p = Some (of_nat m, of_nat 0, p')"
      by (simp only: script_step_def rb f t m(1) Let_def Option.bind.bind_lunit prod.case if_True) simp
    moreover obtain ss where "rs = (n, 0) # ss" "script_runs q = Some ss"
      using assms(1) q True unfolding d by auto
    ultimately show ?thesis using m(2-4) by (intro exI [of _ m] exI [of _ "0 :: nat"] exI [of _ p']) auto
  next
    case False
    obtain v t ss where v: "q = v # t" "rs = (n, unat v) # ss" "script_runs t = Some ss"
      using assms(1) q False unfolding d by (auto split: list.splits)
    have vt: "rd tab p' = Some v" "t = drop (p' + 1) tab" using rd_drop_Cons [of p' tab v t] v(1) m(3) by simp_all
    then have "script_step tab p = Some (of_nat m, ucast v, p' + 1)"
      using False by (simp only: script_step_def rb f t m(1) Let_def Option.bind.bind_lunit prod.case if_False)
    then show ?thesis
      using m(2-4) v vt unat_bounds(1) [of v]
      by (intro exI [of _ m] exI [of _ "unat v"] exI [of _ "p' + 1"] exI [of _ ss]) simp
  qed
qed

lemma script_loop_runs:
  fixes cr :: "'h CharRange"
  assumes "idx < 256"
  shows "script_runs (drop p tab) = Some rs \<Longrightarrow>
   script_loop cr tab (of_nat idx) p (of_nat c) = add_all cr (runs_ivs (one_seg (\<lambda>v. v = idx)) rs c)"
proof (induction "length tab - p" arbitrary: p c rs cr rule: less_induct)
  case less
  show ?case
  proof (cases "p < length tab")
    case False
    then show ?thesis using less.prems by (subst script_loop.simps) simp
  next
    case True
    obtain n v p' ss where g: "script_step tab p = Some (of_nat n, of_nat v, p')" "v < 256" "p < p'"
        "rs = (n + 1, v) # ss" "script_runs (drop p' tab) = Some ss"
      using script_step_runs [OF less.prems(1) True] by blast
    have IH: "script_loop cr tab (of_nat idx) p' (of_nat (c + (n + 1))) =
        add_all cr (runs_ivs (one_seg (\<lambda>v. v = idx)) ss (c + (n + 1)))"
      for cr :: "'h CharRange"
      using g True by (intro less.hyps) auto
    have v: "(of_nat v :: u32) = of_nat idx \<longleftrightarrow> v = idx"
      using g(2) assms by (auto simp: u32_eq_iff unsigned_of_nat take_bit_nat_eq_self)
    have one: "(of_nat n :: u32) + 1 = of_nat (n + 1)" and pos: "0 < n + 1" by simp_all
    show ?thesis
      by (subst script_loop.simps)
        (simp only: True g(1,4) if_True Let_def option.case prod.case one of_nat_add [symmetric] v IH
          runs_ivs.simps add_all_seg [OF pos])
  qed
qed

lemma ext_find_set:
  "idx < 256 \<Longrightarrow> p + k \<le> length tab \<Longrightarrow> ext_find tab p k (of_nat idx) = Some (idx \<in> unat ` set (take k (drop p tab)))"
proof (induction k arbitrary: p)
  case (Suc k)
  have d: "drop p tab = tab ! p # drop (Suc p) tab" using Suc.prems by (simp add: Cons_nth_drop_Suc)
  have "(ucast (tab ! p) :: u32) = of_nat idx \<longleftrightarrow> unat (tab ! p) = idx"
    using Suc.prems(1) by (auto simp: u32_eq_iff unat_widen unsigned_of_nat take_bit_nat_eq_self)
  then show ?case using Suc by (auto simp: d)
qed simp

lemma ext_step_runs:
  assumes "ext_runs (drop p tab) = Some rs" and "p < length tab"
  shows "\<exists>n l p' ss. ext_step tab p = Some (of_nat n, l, p') \<and> p < p' \<and> p' + l \<le> length tab \<and>
    rs = (n + 1, map unat (take l (drop p' tab))) # ss \<and> ext_runs (drop (p' + l) tab) = Some ss"
proof -
  define b where "b = tab ! p"
  have d: "drop p tab = b # drop (p + 1) tab" using assms(2) by (simp add: b_def Cons_nth_drop_Suc)
  have rb: "rd tab p = Some b" using assms(2) by (simp add: b_def)
  have s: "unat b < 256" "128 \<le> (192 :: nat)" "192 < (256 :: nat)" "16384 < (65536 :: nat)"
    and c: "(128 + push_bit 14 1 :: u32) = of_nat (128 + 16384)" "(192 :: u32) = 128 + 64"
      "(ucast b :: u32) - (128 + 64) = ucast b - 128 - 64"
    using unat_bounds(1) [of b] by simp_all
  obtain n q where q: "run_prefix (unat b) 128 192 16384 (drop (p + 1) tab) = Some (n, q)"
    using assms(1) unfolding d by (auto split: option.splits)
  obtain m p' where m: "(if (ucast b :: u32) < 128 then Some (ucast b, p + 1)
      else if (ucast b :: u32) < 128 + 64 then
        do { p0 \<leftarrow> rd tab (p + 1); Some ((push_bit 8 ((ucast b :: u32) - 128) OR ucast p0) + 128, p + 2) }
      else
        do { p0 \<leftarrow> rd tab (p + 1); p1 \<leftarrow> rd tab (p + 2);
             Some ((push_bit 16 ((ucast b :: u32) - 128 - 64) OR push_bit 8 (ucast p0) OR ucast p1)
               + (128 + push_bit 14 1), p + 3) })
      = Some (of_nat m, p')" "n = m + 1" "q = drop p' tab" "p < p'"
    using run_prefix_step [of "ucast b" 128 192 16384 p tab n q, unfolded unat_widen, OF q s,
        unfolded of_nat_numeral c(1) [symmetric] c(2), unfolded c(3)] by blast
  obtain l t ss where l: "q = l # t" "unat l \<le> length t" "rs = (n, map unat (take (unat l) t)) # ss"
      "ext_runs (drop (unat l) t) = Some ss"
    using assms(1) q unfolding d by (auto split: list.splits if_splits)
  have "p' < length tab" "rd tab p' = Some l" "t = drop (p' + 1) tab"
    using rd_drop_Cons [of p' tab l t] l(1) m(3) by (auto simp: mem_simps)
  then have "ext_step tab p = Some (of_nat m, unat l, p' + 1)"
    by (simp only: ext_step_def rb m(1) Let_def Option.bind.bind_lunit prod.case)
  then show ?thesis
    using m(2-4) l \<open>p' < length tab\<close> \<open>t = drop (p' + 1) tab\<close>
    by (intro exI [of _ m] exI [of _ "unat l"] exI [of _ "p' + 1"] exI [of _ ss]) (auto simp: add.commute)
qed

definition ext_sel :: "bool \<Rightarrow> nat \<Rightarrow> nat list \<Rightarrow> bool" where
  "ext_sel is_common idx vs = (if is_common then vs \<noteq> [] else idx \<in> set vs)"

lemma ext_loop_runs:
  fixes cr :: "'h CharRange"
  assumes "idx < 256"
  shows "ext_runs (drop p tab) = Some rs \<Longrightarrow>
   ext_loop cr tab (of_nat idx) com p (of_nat c) = add_all cr (runs_ivs (one_seg (ext_sel com idx)) rs c)"
proof (induction "length tab - p" arbitrary: p c rs cr rule: less_induct)
  case less
  show ?case
  proof (cases "p < length tab")
    case False
    then show ?thesis using less.prems by (subst ext_loop.simps) simp
  next
    case True
    obtain n l p' ss where g: "ext_step tab p = Some (of_nat n, l, p')" "p < p'" "p' + l \<le> length tab"
        "rs = (n + 1, map unat (take l (drop p' tab))) # ss" "ext_runs (drop (p' + l) tab) = Some ss"
      using ext_step_runs [OF less.prems(1) True] by blast
    have IH: "ext_loop cr tab (of_nat idx) com (p' + l) (of_nat (c + (n + 1))) =
        add_all cr (runs_ivs (one_seg (ext_sel com idx)) ss (c + (n + 1)))"
      for cr :: "'h CharRange"
      using g True by (intro less.hyps) auto
    have hit: "(if com then Some (l \<noteq> 0) else ext_find tab p' l (of_nat idx)) =
        Some (ext_sel com idx (map unat (take l (drop p' tab))))"
      using ext_find_set [OF assms g(3)] g(3) by (auto simp: ext_sel_def)
    have one: "(of_nat n :: u32) + 1 = of_nat (n + 1)" and pos: "0 < n + 1" by simp_all
    show ?thesis
      by (subst ext_loop.simps)
        (simp only: True g(1,4) if_True Let_def option.case prod.case one of_nat_add [symmetric] hit IH
          Option.bind.bind_lunit runs_ivs.simps add_all_seg [OF pos])
  qed
qed

end
