(* ===== verification/Unicode_Tables.thy ===== *)
theory Unicode_Tables
  imports Unicode_Index
begin

text \<open>
  The indexed property tables of \<open>libunicode-table.h\<close>, byte for byte, cut at the blocks their
  indexes name. Each table is checked against its index by evaluation, which makes it an
  instance of the locale \<open>indexed_table\<close>: the lookup of \<open>lre_is_in_table\<close> is then right on it
  for all code points.
\<close>

subsection \<open>\<open>unicode_prop_Cased1_table\<close>\<close>

definition Cased1_b0 :: "u8 list" where
  "Cased1_b0 = [0x40, 0xa9, 0x80, 0x8e, 0x80, 0xfc, 0x80, 0xd3, 0x80, 0x8c, 0x80, 0x8d, 0x81, 0x8d, 0x02, 0x80, 0xe1, 0x80,
     0x91, 0x85, 0x9a, 0x01, 0x00, 0x01, 0x11, 0x00, 0x01, 0x04, 0x08, 0x01, 0x08, 0x30, 0x08, 0x01, 0x15, 0x20,
     0x00, 0x39, 0x99]"

definition Cased1_b1 :: "u8 list" where
  "Cased1_b1 = [0x31, 0x9d, 0x84, 0x40, 0x94, 0x80, 0xd6, 0x82, 0xa6, 0x80, 0x41, 0x62, 0x80, 0xa6, 0x80, 0x57, 0x76, 0xf8,
     0x02, 0x80, 0x8f, 0x80, 0xb0, 0x40, 0xdb, 0x08, 0x80]"

definition Cased1_b2 :: "u8 list" where
  "Cased1_b2 = [0x41, 0xd0, 0x80, 0x8c, 0x80, 0x8f, 0x8c, 0xe4, 0x03, 0x01, 0x89, 0x00, 0x14, 0x28, 0x10, 0x11, 0x02, 0x01,
     0x18, 0x0b, 0x24, 0x4b, 0x26, 0x01, 0x01, 0x86, 0xe5, 0x80, 0x60, 0x79, 0xb6, 0x81]"

definition Cased1_b3 :: "u8 list" where
  "Cased1_b3 = [0x40, 0x91, 0x81, 0xbd, 0x88, 0x94, 0x05, 0x80, 0x98, 0x80, 0xc7, 0x82, 0x43, 0x34, 0xa2, 0x06, 0x80, 0x8c,
     0x61, 0x28, 0x96, 0xd4, 0x80, 0xc6, 0x01, 0x08, 0x09, 0x0b, 0x80, 0x8b]"

definition Cased1_b4 :: "u8 list" where
  "Cased1_b4 = [0x00, 0x06, 0x80, 0xc0, 0x03, 0x0f, 0x06, 0x80, 0x9b, 0x03, 0x04, 0x00, 0x16, 0x80, 0x41, 0x53, 0x81, 0x98,
     0x80, 0x98, 0x80, 0x9e, 0x80, 0x98, 0x80, 0x9e, 0x80, 0x98, 0x80, 0x9e, 0x80, 0x98]"

definition Cased1_b5 :: "u8 list" where
  "Cased1_b5 = [0x80, 0x9e, 0x80, 0x98, 0x07, 0x59, 0x63, 0x99, 0x85, 0x99, 0x85, 0x99]"

definition Cased1_blocks :: "u8 list list" where
  "Cased1_blocks =
     [Cased1_b0, Cased1_b1, Cased1_b2, Cased1_b3, Cased1_b4, Cased1_b5]"

definition unicode_prop_Cased1_table :: "u8 list" where
  "unicode_prop_Cased1_table = concat Cased1_blocks"

definition unicode_prop_Cased1_index :: "u8 list" where
  "unicode_prop_Cased1_index =
     [0xb9, 0x02, 0xe0, 0xa0, 0x1e, 0x40, 0x9e, 0xa6, 0x40, 0xba, 0xd4, 0x01, 0x89, 0xd7, 0x01,
      0x8a, 0xf1, 0x01]"

lemma Cased1_info:
    "block_info Cased1_b0 = Some (39, 697)"
    "block_info Cased1_b1 = Some (27, 7143)"
    "block_info Cased1_b2 = Some (32, 34814)"
    "block_info Cased1_b3 = Some (30, 77340)"
    "block_info Cased1_b4 = Some (32, 719)"
    "block_info Cased1_b5 = Some (12, 6657)"
  by (simp_all add: block_info_def Cased1_b0_def Cased1_b1_def Cased1_b2_def Cased1_b3_def Cased1_b4_def
      Cased1_b5_def)

lemma Cased1_index_check: "index_check Cased1_blocks unicode_prop_Cased1_index 0 0 0"
  by (simp add: Cased1_blocks_def unicode_prop_Cased1_index_def Cased1_info)

interpretation cased1: indexed_table unicode_prop_Cased1_table unicode_prop_Cased1_index 6 Cased1_blocks
  by unfold_locales (simp_all add: unicode_prop_Cased1_table_def Cased1_blocks_def Cased1_index_check [unfolded Cased1_blocks_def])

subsection \<open>\<open>unicode_prop_Case_Ignorable_table\<close>\<close>

definition Case_Ignorable_b0 :: "u8 list" where
  "Case_Ignorable_b0 = [0xa6, 0x05, 0x80, 0x8a, 0x80, 0xa2, 0x00, 0x80, 0xc6, 0x03, 0x00, 0x03, 0x01, 0x81, 0x41, 0xf6, 0x40, 0xbf,
     0x19, 0x18, 0x88, 0x08, 0x80, 0x40, 0xfa, 0x86, 0x40, 0xce, 0x04, 0x80, 0xb0, 0xac]"

definition Case_Ignorable_b1 :: "u8 list" where
  "Case_Ignorable_b1 = [0x00, 0x01, 0x01, 0x00, 0xab, 0x80, 0x8a, 0x85, 0x89, 0x8a, 0x00, 0xa2, 0x80, 0x89, 0x94, 0x8f, 0x80, 0xe4,
     0x38, 0x89, 0x03, 0xa0, 0x00, 0x80, 0x9d, 0x9a, 0xda, 0x8a, 0xb9, 0x8a, 0x18, 0x08]"

definition Case_Ignorable_b2 :: "u8 list" where
  "Case_Ignorable_b2 = [0x97, 0x97, 0xaa, 0x82, 0xf6, 0xaf, 0xb6, 0x00, 0x03, 0x3b, 0x02, 0x86, 0x89, 0x81, 0x8c, 0x80, 0x8e, 0x80,
     0xb9, 0x03, 0x1f, 0x80, 0x93, 0x81, 0x99, 0x01, 0x81, 0xb8, 0x03, 0x0b, 0x09, 0x12, 0x80]"

definition Case_Ignorable_b3 :: "u8 list" where
  "Case_Ignorable_b3 = [0x9d, 0x0a, 0x80, 0x8a, 0x81, 0xb8, 0x03, 0x20, 0x0b, 0x80, 0x93, 0x81, 0x95, 0x28, 0x80, 0xb9, 0x01, 0x00,
     0x1f, 0x06, 0x81, 0x8a, 0x81, 0x9d, 0x80, 0xbc, 0x80, 0x8b, 0x80, 0xb1, 0x02, 0x80]"

definition Case_Ignorable_b4 :: "u8 list" where
  "Case_Ignorable_b4 = [0xb8, 0x14, 0x10, 0x1e, 0x81, 0x8a, 0x81, 0x9c, 0x80, 0xb9, 0x01, 0x05, 0x04, 0x81, 0x93, 0x81, 0x9b, 0x81,
     0xb8, 0x0b, 0x1f, 0x80, 0x93, 0x81, 0x9c, 0x80, 0xc7, 0x06, 0x10, 0x80, 0xd9, 0x01, 0x86]"

definition Case_Ignorable_b5 :: "u8 list" where
  "Case_Ignorable_b5 = [0x8a, 0x88, 0xe1, 0x01, 0x88, 0x88, 0x00, 0x85, 0xc9, 0x81, 0x9a, 0x00, 0x00, 0x80, 0xb6, 0x8d, 0x04, 0x01,
     0x84, 0x8a, 0x80, 0xa3, 0x88, 0x80, 0xe5, 0x18, 0x28, 0x09, 0x81, 0x98, 0x0b, 0x82]"

definition Case_Ignorable_b6 :: "u8 list" where
  "Case_Ignorable_b6 = [0x8f, 0x83, 0x8c, 0x01, 0x0d, 0x80, 0x8e, 0x80, 0xdd, 0x80, 0x42, 0x5f, 0x82, 0x43, 0xb1, 0x82, 0x9c, 0x82,
     0x9c, 0x81, 0x9d, 0x81, 0xbf, 0x08, 0x37, 0x01, 0x8a, 0x10, 0x20, 0xac, 0x83]"

definition Case_Ignorable_b7 :: "u8 list" where
  "Case_Ignorable_b7 = [0xb3, 0x80, 0xc0, 0x81, 0xa1, 0x80, 0xf5, 0x13, 0x81, 0x88, 0x05, 0x82, 0x40, 0xda, 0x09, 0x80, 0xb9, 0x00,
     0x30, 0x00, 0x01, 0x3d, 0x89, 0x08, 0xa6, 0x07, 0x90, 0xbe, 0x83, 0xaf, 0x00, 0x20, 0x04, 0x80]"

definition Case_Ignorable_b8 :: "u8 list" where
  "Case_Ignorable_b8 = [0xa7, 0x88, 0x8b, 0x81, 0x9f, 0x19, 0x08, 0x82, 0xb7, 0x00, 0x0a, 0x00, 0x82, 0xb9, 0x39, 0x81, 0xbf, 0x85,
     0xd1, 0x10, 0x8c, 0x06, 0x18, 0x28, 0x11, 0xb1, 0xbe, 0x8c, 0x80]"

definition Case_Ignorable_b9 :: "u8 list" where
  "Case_Ignorable_b9 = [0xa1, 0xde, 0x04, 0x41, 0xbc, 0x00, 0x82, 0x8a, 0x82, 0x8c, 0x82, 0x8c, 0x82, 0x8c, 0x81, 0x8b, 0x27, 0x81,
     0x89, 0x01, 0x01, 0x84, 0xb0, 0x20, 0x89, 0x00, 0x8c, 0x80, 0x8f, 0x8c, 0xb2, 0xa0]"

definition Case_Ignorable_b10 :: "u8 list" where
  "Case_Ignorable_b10 = [0x4b, 0x8a, 0x81, 0xf0, 0x82, 0xfc, 0x80, 0x8e, 0x80, 0xdf, 0x9f, 0xae, 0x80, 0x41, 0xd4, 0x80, 0xa3, 0x1a,
     0x24, 0x80, 0xdc, 0x85, 0xdc, 0x82, 0x60, 0x6f, 0x15, 0x80, 0x44, 0xe1, 0x85, 0x41, 0x0d, 0x80]"

definition Case_Ignorable_b11 :: "u8 list" where
  "Case_Ignorable_b11 = [0xe1, 0x18, 0x89, 0x00, 0x9b, 0x83, 0xcf, 0x81, 0x8d, 0xa1, 0xcd, 0x80, 0x96, 0x82, 0xec, 0x0f, 0x02, 0x03,
     0x80, 0x98, 0x0c, 0x80, 0x40, 0x96, 0x81, 0x99, 0x91, 0x8c, 0x80, 0xa5, 0x87]"

definition Case_Ignorable_b12 :: "u8 list" where
  "Case_Ignorable_b12 = [0x98, 0x8a, 0xad, 0x82, 0xaf, 0x01, 0x19, 0x81, 0x90, 0x80, 0x94, 0x81, 0xc1, 0x29, 0x09, 0x81, 0x8b, 0x07,
     0x80, 0xa2, 0x80, 0x8a, 0x80, 0xb2, 0x00, 0x11, 0x0c, 0x08, 0x80, 0x9a, 0x80]"

definition Case_Ignorable_b13 :: "u8 list" where
  "Case_Ignorable_b13 = [0x8d, 0x0c, 0x08, 0x80, 0xe3, 0x84, 0x88, 0x82, 0xf8, 0x01, 0x03, 0x80, 0x60, 0x4f, 0x2f, 0x80, 0x40, 0x92,
     0x8f, 0x42, 0x3d, 0x8f, 0x10, 0x8b, 0x8f, 0xa1, 0x01, 0x80, 0x40, 0xa8, 0x06, 0x05, 0x80]"

definition Case_Ignorable_b14 :: "u8 list" where
  "Case_Ignorable_b14 = [0x8a, 0x80, 0xa2, 0x00, 0x80, 0xae, 0x80, 0xac, 0x81, 0xc2, 0x80, 0x94, 0x82, 0x42, 0x00, 0x80, 0x40, 0xe1,
     0x80, 0x40, 0x94, 0x84, 0x46, 0x85, 0x10, 0x0c, 0x83, 0xa7, 0x13, 0x80, 0x40, 0xa4, 0x81]"

definition Case_Ignorable_b15 :: "u8 list" where
  "Case_Ignorable_b15 = [0x42, 0x3c, 0x83, 0x41, 0x82, 0x81, 0x40, 0x98, 0x8a, 0x40, 0xaf, 0x80, 0xb5, 0x8e, 0xb7, 0x82, 0xb0, 0x19,
     0x09, 0x80, 0x8e, 0x80, 0xb1, 0x82, 0xa3, 0x20, 0x87, 0xbd, 0x80, 0x8b, 0x81]"

definition Case_Ignorable_b16 :: "u8 list" where
  "Case_Ignorable_b16 = [0xb3, 0x88, 0x89, 0x19, 0x80, 0xde, 0x11, 0x00, 0x0d, 0x80, 0x40, 0x9f, 0x02, 0x87, 0x94, 0x81, 0xb8, 0x0a,
     0x80, 0xa4, 0x32, 0x84, 0x40, 0xc2, 0x39, 0x10, 0x80, 0x96, 0x80, 0xd3, 0x28, 0x03, 0x08, 0x81]"

definition Case_Ignorable_b17 :: "u8 list" where
  "Case_Ignorable_b17 = [0x40, 0xed, 0x1d, 0x08, 0x81, 0x9a, 0x81, 0xd4, 0x39, 0x00, 0x81, 0xe9, 0x00, 0x01, 0x28, 0x80, 0xe4, 0x11,
     0x18, 0x84, 0x41, 0x02, 0x88, 0x01, 0x40, 0xff, 0x08, 0x03, 0x80]"

definition Case_Ignorable_b18 :: "u8 list" where
  "Case_Ignorable_b18 = [0x40, 0x8f, 0x19, 0x0b, 0x80, 0x9f, 0x89, 0xa7, 0x29, 0x1f, 0x80, 0x88, 0x29, 0x82, 0xad, 0x8c, 0x01, 0x41,
     0x95, 0x30, 0x28, 0x80, 0xd1, 0x95, 0x0e, 0x01, 0x01, 0xf9, 0x2a, 0x00, 0x08, 0x30, 0x80]"

definition Case_Ignorable_b19 :: "u8 list" where
  "Case_Ignorable_b19 = [0xc7, 0x0a, 0x00, 0x80, 0x41, 0x5a, 0x81, 0x55, 0x3a, 0x88, 0x60, 0x36, 0xb6, 0x84, 0xba, 0x86, 0x88, 0x83,
     0x44, 0x0a, 0x80, 0xbe, 0x90, 0xbf, 0x08, 0x81, 0x60, 0x4c, 0xb7, 0x08, 0x83]"

definition Case_Ignorable_b20 :: "u8 list" where
  "Case_Ignorable_b20 = [0x54, 0xc2, 0x82, 0x88, 0x8f, 0x0e, 0x9d, 0x83, 0x40, 0x93, 0x82, 0x47, 0xba, 0xb6, 0x83, 0xb1, 0x38, 0x8d,
     0x80, 0x95, 0x20, 0x8e, 0x45, 0x4f, 0x30, 0x90, 0x0e, 0x01, 0x04, 0x41, 0x04, 0x8d]"

definition Case_Ignorable_b21 :: "u8 list" where
  "Case_Ignorable_b21 = [0x41, 0xad, 0x83, 0x45, 0xdf, 0x86, 0xec, 0x87, 0x4a, 0xae, 0x84, 0x6c, 0x0c, 0x00, 0x80, 0x9d, 0xdf, 0xff,
     0x40, 0xef]"

definition Case_Ignorable_blocks :: "u8 list list" where
  "Case_Ignorable_blocks =
     [Case_Ignorable_b0, Case_Ignorable_b1, Case_Ignorable_b2, Case_Ignorable_b3,
      Case_Ignorable_b4, Case_Ignorable_b5, Case_Ignorable_b6, Case_Ignorable_b7,
      Case_Ignorable_b8, Case_Ignorable_b9, Case_Ignorable_b10, Case_Ignorable_b11,
      Case_Ignorable_b12, Case_Ignorable_b13, Case_Ignorable_b14, Case_Ignorable_b15,
      Case_Ignorable_b16, Case_Ignorable_b17, Case_Ignorable_b18, Case_Ignorable_b19,
      Case_Ignorable_b20, Case_Ignorable_b21]"

definition unicode_prop_Case_Ignorable_table :: "u8 list" where
  "unicode_prop_Case_Ignorable_table = concat Case_Ignorable_blocks"

definition unicode_prop_Case_Ignorable_index :: "u8 list" where
  "unicode_prop_Case_Ignorable_index =
     [0xbe, 0x05, 0x00, 0xfe, 0x07, 0x00, 0x52, 0x0a, 0x20, 0x05, 0x0c, 0x20, 0x3b, 0x0e, 0x40,
      0x61, 0x10, 0x40, 0x0f, 0x18, 0x20, 0x43, 0x1b, 0x60, 0x79, 0x1d, 0x00, 0xf1, 0x20, 0x00,
      0x0d, 0xa6, 0x40, 0x2e, 0xa9, 0x20, 0xde, 0xaa, 0x00, 0x0f, 0xff, 0x20, 0xe7, 0x0a, 0x41,
      0x82, 0x11, 0x21, 0xc4, 0x14, 0x61, 0x44, 0x19, 0x01, 0x48, 0x1d, 0x21, 0xa4, 0xbc, 0x01,
      0x3e, 0xe1, 0x01, 0xf0, 0x01, 0x0e]"

lemma Case_Ignorable_info:
    "block_info Case_Ignorable_b0 = Some (32, 1470)"
    "block_info Case_Ignorable_b1 = Some (32, 576)"
    "block_info Case_Ignorable_b2 = Some (33, 596)"
    "block_info Case_Ignorable_b3 = Some (32, 435)"
    "block_info Case_Ignorable_b4 = Some (33, 566)"
    "block_info Case_Ignorable_b5 = Some (32, 550)"
    "block_info Case_Ignorable_b6 = Some (31, 1966)"
    "block_info Case_Ignorable_b7 = Some (34, 820)"
    "block_info Case_Ignorable_b8 = Some (29, 566)"
    "block_info Case_Ignorable_b9 = Some (32, 888)"
    "block_info Case_Ignorable_b10 = Some (34, 34076)"
    "block_info Case_Ignorable_b11 = Some (31, 801)"
    "block_info Case_Ignorable_b12 = Some (31, 432)"
    "block_info Case_Ignorable_b13 = Some (33, 21553)"
    "block_info Case_Ignorable_b14 = Some (33, 3032)"
    "block_info Case_Ignorable_b15 = Some (31, 1691)"
    "block_info Case_Ignorable_b16 = Some (34, 834)"
    "block_info Case_Ignorable_b17 = Some (29, 1152)"
    "block_info Case_Ignorable_b18 = Some (33, 1028)"
    "block_info Case_Ignorable_b19 = Some (31, 40796)"
    "block_info Case_Ignorable_b20 = Some (32, 9370)"
    "block_info Case_Ignorable_b21 = Some (20, 794802)"
  by (simp_all add: block_info_def Case_Ignorable_b0_def Case_Ignorable_b1_def Case_Ignorable_b2_def
      Case_Ignorable_b3_def Case_Ignorable_b4_def Case_Ignorable_b5_def
      Case_Ignorable_b6_def Case_Ignorable_b7_def Case_Ignorable_b8_def
      Case_Ignorable_b9_def Case_Ignorable_b10_def Case_Ignorable_b11_def
      Case_Ignorable_b12_def Case_Ignorable_b13_def Case_Ignorable_b14_def
      Case_Ignorable_b15_def Case_Ignorable_b16_def Case_Ignorable_b17_def
      Case_Ignorable_b18_def Case_Ignorable_b19_def Case_Ignorable_b20_def
      Case_Ignorable_b21_def)

lemma Case_Ignorable_index_check: "index_check Case_Ignorable_blocks unicode_prop_Case_Ignorable_index 0 0 0"
  by (simp add: Case_Ignorable_blocks_def unicode_prop_Case_Ignorable_index_def Case_Ignorable_info)

interpretation case_ignorable: indexed_table unicode_prop_Case_Ignorable_table unicode_prop_Case_Ignorable_index 22 Case_Ignorable_blocks
  by unfold_locales (simp_all add: unicode_prop_Case_Ignorable_table_def Case_Ignorable_blocks_def Case_Ignorable_index_check [unfolded Case_Ignorable_blocks_def])

subsection \<open>\<open>unicode_prop_ID_Start_table\<close>\<close>

definition ID_Start_b0 :: "u8 list" where
  "ID_Start_b0 = [0xc0, 0x99, 0x85, 0x99, 0xae, 0x80, 0x89, 0x03, 0x04, 0x96, 0x80, 0x9e, 0x80, 0x41, 0xc9, 0x83, 0x8b, 0x8d,
     0x26, 0x00, 0x80, 0x40, 0x80, 0x20, 0x09, 0x18, 0x05, 0x00, 0x10, 0x00, 0x93, 0x80, 0xd2]"

definition ID_Start_b1 :: "u8 list" where
  "ID_Start_b1 = [0x80, 0x40, 0x8a, 0x87, 0x40, 0xa5, 0x80, 0xa5, 0x08, 0x85, 0xa8, 0xc6, 0x9a, 0x1b, 0xac, 0xaa, 0xa2, 0x08,
     0xe2, 0x00, 0x8e, 0x0e, 0x81, 0x89, 0x11, 0x80, 0x8f, 0x00, 0x9d, 0x9c, 0xd8]"

definition ID_Start_b2 :: "u8 list" where
  "ID_Start_b2 = [0x8a, 0x80, 0x97, 0xa0, 0x88, 0x0b, 0x04, 0x95, 0x18, 0x88, 0x02, 0x80, 0x96, 0x98, 0x86, 0x8a, 0xb4, 0x94,
     0x80, 0x91, 0xbb, 0xb5, 0x10, 0x91, 0x06, 0x89, 0x8e, 0x8f, 0x1f, 0x09, 0x81, 0x95]"

definition ID_Start_b3 :: "u8 list" where
  "ID_Start_b3 = [0x06, 0x00, 0x13, 0x10, 0x8f, 0x80, 0x8c, 0x08, 0x82, 0x8d, 0x81, 0x89, 0x07, 0x2b, 0x09, 0x95, 0x06, 0x01,
     0x01, 0x01, 0x9e, 0x18, 0x80, 0x92, 0x82, 0x8f, 0x88, 0x02, 0x80, 0x95, 0x06, 0x01]"

definition ID_Start_b4 :: "u8 list" where
  "ID_Start_b4 = [0x04, 0x10, 0x91, 0x80, 0x8e, 0x81, 0x96, 0x80, 0x8a, 0x39, 0x09, 0x95, 0x06, 0x01, 0x04, 0x10, 0x9d, 0x08,
     0x82, 0x8e, 0x80, 0x90, 0x00, 0x2a, 0x10, 0x1a, 0x08, 0x00, 0x0a, 0x0a, 0x12, 0x8b]"

definition ID_Start_b5 :: "u8 list" where
  "ID_Start_b5 = [0x95, 0x80, 0xb3, 0x38, 0x10, 0x96, 0x80, 0x8f, 0x10, 0x99, 0x14, 0x81, 0x9d, 0x03, 0x38, 0x10, 0x96, 0x80,
     0x89, 0x04, 0x10, 0x9f, 0x00, 0x81, 0x8e, 0x81, 0x90, 0x88, 0x02, 0x80, 0xa8, 0x08]"

definition ID_Start_b6 :: "u8 list" where
  "ID_Start_b6 = [0x8f, 0x04, 0x17, 0x82, 0x97, 0x2c, 0x91, 0x82, 0x97, 0x80, 0x88, 0x00, 0x0e, 0xb9, 0xaf, 0x01, 0x8b, 0x86,
     0xb9, 0x08, 0x00, 0x20, 0x97, 0x00, 0x80, 0x89, 0x01, 0x88, 0x01, 0x20, 0x80, 0x94, 0x83]"

definition ID_Start_b7 :: "u8 list" where
  "ID_Start_b7 = [0x9f, 0x80, 0xbe, 0x38, 0xa3, 0x9a, 0x84, 0xf2, 0xaa, 0x93, 0x80, 0x8f, 0x2b, 0x1a, 0x02, 0x0e, 0x13, 0x8c,
     0x8b, 0x80, 0x90, 0xa5, 0x00, 0x20, 0x81, 0xaa, 0x80, 0x41, 0x4c, 0x03, 0x0e]"

definition ID_Start_b8 :: "u8 list" where
  "ID_Start_b8 = [0x00, 0x03, 0x81, 0xa8, 0x03, 0x81, 0xa0, 0x03, 0x0e, 0x00, 0x03, 0x81, 0x8e, 0x80, 0xb8, 0x03, 0x81, 0xc2,
     0xa4, 0x8f, 0x8f, 0xd5, 0x0d, 0x82, 0x42, 0x6b, 0x81, 0x90, 0x80, 0x99, 0x84, 0xca]"

definition ID_Start_b9 :: "u8 list" where
  "ID_Start_b9 = [0x82, 0x8a, 0x86, 0x8c, 0x03, 0x8d, 0x91, 0x8d, 0x91, 0x8d, 0x8c, 0x02, 0x8e, 0xb3, 0xa2, 0x03, 0x80, 0xc2,
     0xd8, 0x86, 0xa8, 0x00, 0x84, 0xc5, 0x89, 0x9e, 0xb0, 0x9d, 0x0c, 0x8a, 0xab, 0x83, 0x99]"

definition ID_Start_b10 :: "u8 list" where
  "ID_Start_b10 = [0xb5, 0x96, 0x88, 0xb4, 0xd1, 0x80, 0xdc, 0xae, 0x90, 0x86, 0xb6, 0x9d, 0x8c, 0x81, 0x89, 0xab, 0x99, 0xa3,
     0xa8, 0x82, 0x89, 0xa3, 0x81, 0x88, 0x86, 0xaa, 0x0a, 0xa8, 0x18, 0x28, 0x0a, 0x04, 0x40, 0xbf]"

definition ID_Start_b11 :: "u8 list" where
  "ID_Start_b11 = [0xbf, 0x41, 0x15, 0x0d, 0x81, 0xa5, 0x0d, 0x0f, 0x00, 0x00, 0x00, 0x80, 0x9e, 0x81, 0xb4, 0x06, 0x00, 0x12,
     0x06, 0x13, 0x0d, 0x83, 0x8c, 0x22, 0x06, 0xf3, 0x80, 0x8c, 0x80]"

definition ID_Start_b12 :: "u8 list" where
  "ID_Start_b12 = [0x8f, 0x8c, 0xe4, 0x03, 0x01, 0x89, 0x00, 0x0d, 0x28, 0x00, 0x00, 0x80, 0x8f, 0x0b, 0x24, 0x18, 0x90, 0xa8,
     0x4a, 0x76, 0xae, 0x80, 0xae, 0x80, 0x40, 0x84, 0x2b, 0x11, 0x8b, 0xa5, 0x00, 0x20]"

definition ID_Start_b13 :: "u8 list" where
  "ID_Start_b13 = [0x81, 0xb7, 0x30, 0x8f, 0x96, 0x88, 0x30, 0x30, 0x30, 0x30, 0x30, 0x30, 0x30, 0x86, 0x42, 0x25, 0x82, 0x98,
     0x88, 0x34, 0x0c, 0x83, 0xd5, 0x1c, 0x80, 0xd9, 0x03, 0x84, 0xaa, 0x80, 0xdd, 0x90, 0x9f]"

definition ID_Start_b14 :: "u8 list" where
  "ID_Start_b14 = [0xaf, 0x8f, 0x41, 0xff, 0x59, 0xbf, 0xbf, 0x60, 0x51, 0xfc, 0x82, 0x44, 0x8c, 0xc2, 0xad, 0x81, 0x41, 0x0c,
     0x82, 0x8f, 0x89, 0x81, 0x93, 0xae, 0x8f, 0x9e, 0x81, 0xcf, 0xa6, 0x88, 0x81, 0xe6]"

definition ID_Start_b15 :: "u8 list" where
  "ID_Start_b15 = [0x81, 0xb4, 0x81, 0x88, 0xa9, 0x8c, 0x02, 0x03, 0x80, 0x96, 0x9c, 0xb3, 0x8d, 0xb1, 0xbd, 0x2a, 0x00, 0x81,
     0x8a, 0x9b, 0x89, 0x96, 0x98, 0x9c, 0x86, 0xae, 0x9b, 0x80, 0x8f, 0x20, 0x89]"

definition ID_Start_b16 :: "u8 list" where
  "ID_Start_b16 = [0x89, 0x20, 0xa8, 0x96, 0x10, 0x87, 0x93, 0x96, 0x10, 0x82, 0xb1, 0x00, 0x11, 0x0c, 0x08, 0x00, 0x97, 0x11,
     0x8a, 0x32, 0x8b, 0x29, 0x29, 0x85, 0x88, 0x30, 0x30, 0xaa, 0x80, 0x8d, 0x85, 0xf2]"

definition ID_Start_b17 :: "u8 list" where
  "ID_Start_b17 = [0x9c, 0x60, 0x2b, 0xa3, 0x8b, 0x96, 0x83, 0xb0, 0x60, 0x21, 0x03, 0x41, 0x6d, 0x81, 0xe9, 0xa5, 0x86, 0x8b,
     0x24, 0x00, 0x89, 0x80, 0x8c, 0x04, 0x00, 0x01, 0x01, 0x80, 0xeb, 0xa0, 0x41, 0x6a]"

definition ID_Start_b18 :: "u8 list" where
  "ID_Start_b18 = [0x91, 0xbf, 0x81, 0xb5, 0xa7, 0x8b, 0xf3, 0x20, 0x40, 0x86, 0xa3, 0x99, 0x85, 0x99, 0x8a, 0xd8, 0x15, 0x0d,
     0x0d, 0x0a, 0xa2, 0x8b, 0x80, 0x99, 0x80, 0x92, 0x01, 0x80, 0x8e, 0x81, 0x8d, 0xa1, 0xfa]"

definition ID_Start_b19 :: "u8 list" where
  "ID_Start_b19 = [0xc4, 0xb4, 0x41, 0x0a, 0x9c, 0x82, 0xb0, 0xae, 0x9f, 0x8c, 0x9d, 0x84, 0xa5, 0x89, 0x9d, 0x81, 0xa3, 0x1f,
     0x04, 0xa9, 0x40, 0x9d, 0x91, 0xa3, 0x83, 0xa3, 0x83, 0xa7, 0x87, 0xb3, 0x40, 0x9b, 0x41, 0x36]"

definition ID_Start_b20 :: "u8 list" where
  "ID_Start_b20 = [0x88, 0x95, 0x89, 0x87, 0x40, 0x97, 0x29, 0x00, 0xab, 0x01, 0x10, 0x81, 0x96, 0x89, 0x96, 0x88, 0x9e, 0xc0,
     0x92, 0x01, 0x89, 0x95, 0x89, 0x99, 0xc5, 0xb7, 0x29, 0xbf, 0x80]"

definition ID_Start_b21 :: "u8 list" where
  "ID_Start_b21 = [0x8e, 0x18, 0x10, 0x9c, 0xa9, 0x9c, 0x82, 0x9c, 0xa2, 0x38, 0x9b, 0x9a, 0xb5, 0x89, 0x95, 0x89, 0x92, 0x8c,
     0x91, 0xed, 0xc8, 0xb6, 0xb2, 0x8c, 0xb2, 0x8c, 0xa3, 0x41, 0x5b, 0xa9, 0x29, 0xcd, 0x9c]"

definition ID_Start_b22 :: "u8 list" where
  "ID_Start_b22 = [0x89, 0x07, 0x95, 0xe9, 0x94, 0x9a, 0x96, 0x8b, 0xb4, 0xca, 0xac, 0x9f, 0x98, 0x99, 0xa3, 0x9c, 0x01, 0x07,
     0xa2, 0x10, 0x8b, 0xaf, 0x8d, 0x83, 0x94, 0x00, 0x80, 0xa2, 0x91, 0x80, 0x98]"

definition ID_Start_b23 :: "u8 list" where
  "ID_Start_b23 = [0xd3, 0x30, 0x00, 0x18, 0x8e, 0x80, 0x89, 0x86, 0xae, 0xa5, 0x39, 0x09, 0x95, 0x06, 0x01, 0x04, 0x10, 0x91,
     0x80, 0x8b, 0x84, 0x40, 0x9d, 0xb4, 0x91, 0x83, 0x93, 0x82, 0x9d, 0xaf, 0x93, 0x08, 0x80]"

definition ID_Start_b24 :: "u8 list" where
  "ID_Start_b24 = [0x40, 0xb7, 0xae, 0xa8, 0x83, 0xa3, 0xaf, 0x93, 0x80, 0xba, 0xaa, 0x8c, 0x80, 0xc6, 0x9a, 0x40, 0xe4, 0xab,
     0xf3, 0xbf, 0x9e, 0x39, 0x01, 0x38, 0x08, 0x97, 0x8e, 0x00, 0x80, 0xdd, 0x39, 0xa6]"

definition ID_Start_b25 :: "u8 list" where
  "ID_Start_b25 = [0x8f, 0x00, 0x80, 0x9b, 0x80, 0x89, 0xa7, 0x30, 0x94, 0x80, 0x8a, 0xad, 0x92, 0x80, 0xa1, 0xb8, 0x41, 0x06,
     0x88, 0x80, 0xa4, 0x90, 0x80, 0xb0, 0x9d, 0xef, 0x30, 0x08, 0xa5, 0x94, 0x80]"

definition ID_Start_b26 :: "u8 list" where
  "ID_Start_b26 = [0x98, 0x28, 0x08, 0x9f, 0x8d, 0x80, 0x41, 0x46, 0x92, 0x40, 0xbc, 0x80, 0xce, 0x43, 0x99, 0xe5, 0xee, 0x90,
     0x40, 0xc3, 0x4a, 0xbb, 0x44, 0x2e, 0x4f, 0xd0, 0x42, 0x46, 0x60, 0x21, 0xb8, 0x42, 0x38]"

definition ID_Start_b27 :: "u8 list" where
  "ID_Start_b27 = [0x86, 0x9e, 0xf0, 0x9d, 0x91, 0xaf, 0x8f, 0x83, 0x9e, 0x94, 0x84, 0x92, 0x42, 0xaf, 0xbf, 0xff, 0xca, 0x20,
     0xc1, 0x8c, 0xbf, 0x08, 0x80, 0x9b, 0x57, 0xf7, 0x87, 0x44, 0xd5, 0xa9, 0x88]"

definition ID_Start_b28 :: "u8 list" where
  "ID_Start_b28 = [0x60, 0x22, 0xf6, 0x41, 0x1e, 0xb0, 0x82, 0x90, 0x1f, 0x41, 0x8b, 0x49, 0x03, 0xea, 0x84, 0x8c, 0x82, 0x88,
     0x86, 0x89, 0x57, 0x65, 0xd4, 0x80, 0xc6, 0x01, 0x08, 0x09, 0x0b, 0x80, 0x8b, 0x00]"

definition ID_Start_b29 :: "u8 list" where
  "ID_Start_b29 = [0x06, 0x80, 0xc0, 0x03, 0x0f, 0x06, 0x80, 0x9b, 0x03, 0x04, 0x00, 0x16, 0x80, 0x41, 0x53, 0x81, 0x98, 0x80,
     0x98, 0x80, 0x9e, 0x80, 0x98, 0x80, 0x9e, 0x80, 0x98, 0x80, 0x9e, 0x80, 0x98, 0x80, 0x9e]"

definition ID_Start_b30 :: "u8 list" where
  "ID_Start_b30 = [0x80, 0x98, 0x07, 0x49, 0x33, 0xac, 0x89, 0x86, 0x8f, 0x80, 0x41, 0x70, 0xab, 0x45, 0x13, 0x40, 0xc4, 0xba,
     0xc3, 0x30, 0x44, 0xb3, 0x18, 0x9a, 0x01, 0x00, 0x08, 0x80, 0x89, 0x03, 0x00]"

definition ID_Start_b31 :: "u8 list" where
  "ID_Start_b31 = [0x00, 0x28, 0x18, 0x00, 0x00, 0x02, 0x01, 0x00, 0x08, 0x00, 0x00, 0x00, 0x00, 0x01, 0x00, 0x0b, 0x06, 0x03,
     0x03, 0x00, 0x80, 0x89, 0x80, 0x90, 0x22, 0x04, 0x80, 0x90, 0x51, 0x43, 0x60, 0xa6, 0xdd]"

definition ID_Start_b32 :: "u8 list" where
  "ID_Start_b32 = [0xa1, 0x50, 0x34, 0x8a, 0x40, 0xdd, 0x81, 0x56, 0x81, 0x8d, 0x5d, 0x30, 0x4c, 0x1e, 0x42, 0x1d, 0x45, 0xe1,
     0x53, 0x4a]"

definition ID_Start_blocks :: "u8 list list" where
  "ID_Start_blocks =
     [ID_Start_b0, ID_Start_b1, ID_Start_b2, ID_Start_b3, ID_Start_b4, ID_Start_b5,
      ID_Start_b6, ID_Start_b7, ID_Start_b8, ID_Start_b9, ID_Start_b10, ID_Start_b11,
      ID_Start_b12, ID_Start_b13, ID_Start_b14, ID_Start_b15, ID_Start_b16, ID_Start_b17,
      ID_Start_b18, ID_Start_b19, ID_Start_b20, ID_Start_b21, ID_Start_b22, ID_Start_b23,
      ID_Start_b24, ID_Start_b25, ID_Start_b26, ID_Start_b27, ID_Start_b28, ID_Start_b29,
      ID_Start_b30, ID_Start_b31, ID_Start_b32]"

definition unicode_prop_ID_Start_table :: "u8 list" where
  "unicode_prop_ID_Start_table = concat ID_Start_blocks"

definition unicode_prop_ID_Start_index :: "u8 list" where
  "unicode_prop_ID_Start_index =
     [0xf6, 0x03, 0x20, 0xa6, 0x07, 0x00, 0xa9, 0x09, 0x00, 0xb4, 0x0a, 0x00, 0xba, 0x0b, 0x00,
      0x3e, 0x0d, 0x00, 0xe0, 0x0e, 0x20, 0x57, 0x12, 0x00, 0xeb, 0x16, 0x00, 0xca, 0x19, 0x20,
      0xc0, 0x1d, 0x60, 0x80, 0x20, 0x00, 0x2e, 0x2d, 0x00, 0xc0, 0x31, 0x20, 0x89, 0xa7, 0x20,
      0xf0, 0xa9, 0x00, 0xe3, 0xab, 0x00, 0x3e, 0xfd, 0x00, 0xfb, 0x00, 0x21, 0x37, 0x07, 0x61,
      0x01, 0x0a, 0x01, 0x1d, 0x0f, 0x21, 0x2c, 0x12, 0x01, 0xc8, 0x14, 0x21, 0xd1, 0x19, 0x21,
      0x47, 0x1d, 0x01, 0x39, 0x6a, 0x21, 0x09, 0x8d, 0x01, 0xbc, 0xd4, 0x01, 0xa9, 0xd7, 0x21,
      0x3a, 0xee, 0x01, 0xde, 0xa6, 0x22, 0x4b, 0x13, 0x03]"

lemma ID_Start_info:
    "block_info ID_Start_b0 = Some (33, 1014)"
    "block_info ID_Start_b1 = Some (31, 944)"
    "block_info ID_Start_b2 = Some (32, 515)"
    "block_info ID_Start_b3 = Some (32, 267)"
    "block_info ID_Start_b4 = Some (32, 262)"
    "block_info ID_Start_b5 = Some (32, 388)"
    "block_info ID_Start_b6 = Some (33, 418)"
    "block_info ID_Start_b7 = Some (31, 887)"
    "block_info ID_Start_b8 = Some (32, 1172)"
    "block_info ID_Start_b9 = Some (33, 735)"
    "block_info ID_Start_b10 = Some (34, 1014)"
    "block_info ID_Start_b11 = Some (29, 704)"
    "block_info ID_Start_b12 = Some (32, 3246)"
    "block_info ID_Start_b13 = Some (33, 1170)"
    "block_info ID_Start_b14 = Some (32, 30153)"
    "block_info ID_Start_b15 = Some (31, 615)"
    "block_info ID_Start_b16 = Some (32, 499)"
    "block_info ID_Start_b17 = Some (32, 20827)"
    "block_info ID_Start_b18 = Some (33, 957)"
    "block_info ID_Start_b19 = Some (34, 1596)"
    "block_info ID_Start_b20 = Some (29, 714)"
    "block_info ID_Start_b21 = Some (33, 1308)"
    "block_info ID_Start_b22 = Some (31, 783)"
    "block_info ID_Start_b23 = Some (33, 668)"
    "block_info ID_Start_b24 = Some (32, 1289)"
    "block_info ID_Start_b25 = Some (31, 886)"
    "block_info ID_Start_b26 = Some (33, 19698)"
    "block_info ID_Start_b27 = Some (31, 8912)"
    "block_info ID_Start_b28 = Some (32, 18355)"
    "block_info ID_Start_b29 = Some (33, 749)"
    "block_info ID_Start_b30 = Some (31, 5777)"
    "block_info ID_Start_b31 = Some (33, 47268)"
    "block_info ID_Start_b32 = Some (20, 27757)"
  by (simp_all add: block_info_def ID_Start_b0_def ID_Start_b1_def ID_Start_b2_def ID_Start_b3_def ID_Start_b4_def
      ID_Start_b5_def ID_Start_b6_def ID_Start_b7_def ID_Start_b8_def ID_Start_b9_def
      ID_Start_b10_def ID_Start_b11_def ID_Start_b12_def ID_Start_b13_def
      ID_Start_b14_def ID_Start_b15_def ID_Start_b16_def ID_Start_b17_def
      ID_Start_b18_def ID_Start_b19_def ID_Start_b20_def ID_Start_b21_def
      ID_Start_b22_def ID_Start_b23_def ID_Start_b24_def ID_Start_b25_def
      ID_Start_b26_def ID_Start_b27_def ID_Start_b28_def ID_Start_b29_def
      ID_Start_b30_def ID_Start_b31_def ID_Start_b32_def)

lemma ID_Start_index_check: "index_check ID_Start_blocks unicode_prop_ID_Start_index 0 0 0"
  by (simp add: ID_Start_blocks_def unicode_prop_ID_Start_index_def ID_Start_info)

interpretation id_start: indexed_table unicode_prop_ID_Start_table unicode_prop_ID_Start_index 33 ID_Start_blocks
  by unfold_locales (simp_all add: unicode_prop_ID_Start_table_def ID_Start_blocks_def ID_Start_index_check [unfolded ID_Start_blocks_def])

subsection \<open>\<open>unicode_prop_ID_Continue1_table\<close>\<close>

definition ID_Continue1_b0 :: "u8 list" where
  "ID_Continue1_b0 = [0xaf, 0x89, 0xa4, 0x80, 0xd6, 0x80, 0x42, 0x47, 0xef, 0x96, 0x80, 0x40, 0xfa, 0x84, 0x41, 0x08, 0xac, 0x00,
     0x01, 0x01, 0x00, 0xc7, 0x8a, 0xaf, 0x9e, 0x28, 0xe4, 0x31, 0x29, 0x08, 0x19, 0x89]"

definition ID_Continue1_b1 :: "u8 list" where
  "ID_Continue1_b1 = [0x96, 0x80, 0x9d, 0x9a, 0xda, 0x8a, 0x8e, 0x89, 0xa0, 0x88, 0x88, 0x80, 0x97, 0x18, 0x88, 0x02, 0x04, 0xaa,
     0x82, 0xf6, 0x8e, 0x80, 0xa0, 0xb5, 0x10, 0x91, 0x06, 0x89, 0x09, 0x89, 0x90, 0x82]"

definition ID_Continue1_b2 :: "u8 list" where
  "ID_Continue1_b2 = [0xb7, 0x00, 0x31, 0x09, 0x82, 0x88, 0x80, 0x89, 0x09, 0x89, 0x8d, 0x01, 0x82, 0xb7, 0x00, 0x23, 0x09, 0x12,
     0x80, 0x93, 0x8b, 0x10, 0x8a, 0x82, 0xb7, 0x00, 0x38, 0x10, 0x82, 0x93, 0x09, 0x89]"

definition ID_Continue1_b3 :: "u8 list" where
  "ID_Continue1_b3 = [0x89, 0x28, 0x82, 0xb7, 0x00, 0x31, 0x09, 0x16, 0x82, 0x89, 0x09, 0x89, 0x91, 0x80, 0xba, 0x22, 0x10, 0x83,
     0x88, 0x80, 0x8d, 0x89, 0x8f, 0x84, 0xb8, 0x30, 0x10, 0x1e, 0x81, 0x8a, 0x09, 0x89]"

definition ID_Continue1_b4 :: "u8 list" where
  "ID_Continue1_b4 = [0x90, 0x82, 0xb7, 0x00, 0x30, 0x10, 0x1e, 0x81, 0x8a, 0x09, 0x89, 0x8f, 0x83, 0xb6, 0x08, 0x30, 0x10, 0x83,
     0x88, 0x80, 0x89, 0x09, 0x89, 0x90, 0x82, 0xc5, 0x03, 0x28, 0x00, 0x3d, 0x89, 0x09]"

definition ID_Continue1_b5 :: "u8 list" where
  "ID_Continue1_b5 = [0xbc, 0x01, 0x86, 0x8b, 0x38, 0x89, 0xd6, 0x01, 0x88, 0x8a, 0x29, 0x89, 0xbd, 0x0d, 0x89, 0x8a, 0x00, 0x00,
     0x03, 0x81, 0xb0, 0x93, 0x01, 0x84, 0x8a, 0x80, 0xa3, 0x88, 0x80, 0xe3, 0x93, 0x80, 0x89]"

definition ID_Continue1_b6 :: "u8 list" where
  "ID_Continue1_b6 = [0x8b, 0x1b, 0x10, 0x11, 0x32, 0x83, 0x8c, 0x8b, 0x80, 0x8e, 0x42, 0xbe, 0x82, 0x88, 0x88, 0x43, 0x9f, 0x82,
     0x9c, 0x82, 0x9c, 0x81, 0x9d, 0x81, 0xbf, 0x9f, 0x88, 0x01, 0x89, 0xa0, 0x11, 0x89]"

definition ID_Continue1_b7 :: "u8 list" where
  "ID_Continue1_b7 = [0x40, 0x8e, 0x80, 0xf5, 0x8b, 0x83, 0x8b, 0x89, 0x89, 0xff, 0x8a, 0xbb, 0x84, 0xb8, 0x89, 0x80, 0x9c, 0x81,
     0x8a, 0x85, 0x89, 0x95, 0x8d, 0x01, 0xbe, 0x84, 0xae, 0x90, 0x8a, 0x89, 0x90, 0x88]"

definition ID_Continue1_b8 :: "u8 list" where
  "ID_Continue1_b8 = [0x8b, 0x82, 0x9d, 0x8c, 0x81, 0x89, 0xab, 0x8d, 0xaf, 0x93, 0x87, 0x89, 0x85, 0x89, 0xf5, 0x10, 0x94, 0x18,
     0x28, 0x0a, 0x40, 0xc5, 0xb9, 0x04, 0x42, 0x3e, 0x81, 0x92, 0x80, 0xfa, 0x8c]"

definition ID_Continue1_b9 :: "u8 list" where
  "ID_Continue1_b9 = [0x18, 0x82, 0x8b, 0x4b, 0xfd, 0x82, 0x40, 0x8c, 0x80, 0xdf, 0x9f, 0x42, 0x29, 0x85, 0xe8, 0x81, 0x60, 0x75,
     0x84, 0x89, 0xc4, 0x03, 0x89, 0x9f, 0x81, 0xcf, 0x81, 0x41, 0x0f, 0x02, 0x03, 0x80]"

definition ID_Continue1_b10 :: "u8 list" where
  "ID_Continue1_b10 = [0x96, 0x23, 0x80, 0xd2, 0x81, 0xb1, 0x91, 0x89, 0x89, 0x85, 0x91, 0x8c, 0x8a, 0x9b, 0x87, 0x98, 0x8c, 0xab,
     0x83, 0xae, 0x8d, 0x8e, 0x89, 0x8a, 0x80, 0x89, 0x89, 0xae, 0x8d, 0x8b, 0x07, 0x09, 0x89]"

definition ID_Continue1_b11 :: "u8 list" where
  "ID_Continue1_b11 = [0xa0, 0x82, 0xb1, 0x00, 0x11, 0x0c, 0x08, 0x80, 0xa8, 0x24, 0x81, 0x40, 0xeb, 0x38, 0x09, 0x89, 0x60, 0x4f,
     0x23, 0x80, 0x42, 0xe0, 0x8f, 0x8f, 0x8f, 0x11, 0x97, 0x82, 0x40, 0xbf, 0x89]"

definition ID_Continue1_b12 :: "u8 list" where
  "ID_Continue1_b12 = [0xa4, 0x80, 0x42, 0xbc, 0x80, 0x40, 0xe1, 0x80, 0x40, 0x94, 0x84, 0x41, 0x24, 0x89, 0x45, 0x56, 0x10, 0x0c,
     0x83, 0xa7, 0x13, 0x80, 0x40, 0xa4, 0x81, 0x42, 0x3c, 0x1f, 0x89, 0x41, 0x70, 0x81]"

definition ID_Continue1_b13 :: "u8 list" where
  "ID_Continue1_b13 = [0x40, 0x98, 0x8a, 0x40, 0xae, 0x82, 0xb4, 0x8e, 0x9e, 0x89, 0x8e, 0x83, 0xac, 0x8a, 0xb4, 0x89, 0x2a, 0xa3,
     0x8d, 0x80, 0x89, 0x21, 0xab, 0x80, 0x8b, 0x82, 0xaf, 0x8d, 0x3b, 0x80, 0x8b, 0xd1, 0x8b]"

definition ID_Continue1_b14 :: "u8 list" where
  "ID_Continue1_b14 = [0x28, 0x40, 0x9f, 0x8b, 0x84, 0x89, 0x2b, 0xb6, 0x08, 0x31, 0x09, 0x82, 0x88, 0x80, 0x89, 0x09, 0x32, 0x84,
     0x40, 0xbf, 0x91, 0x88, 0x89, 0x18, 0xd0, 0x93, 0x8b, 0x89, 0x40, 0xd4, 0x31, 0x88]"

definition ID_Continue1_b15 :: "u8 list" where
  "ID_Continue1_b15 = [0x9a, 0x81, 0xd1, 0x90, 0x8e, 0x89, 0xd0, 0x8c, 0x87, 0x89, 0xd2, 0x8e, 0x83, 0x89, 0x40, 0xf1, 0x8e, 0x40,
     0xa4, 0x89, 0xc5, 0x28, 0x09, 0x18, 0x00, 0x81, 0x8b, 0x89, 0xf6, 0x31, 0x32, 0x80]"

definition ID_Continue1_b16 :: "u8 list" where
  "ID_Continue1_b16 = [0x9b, 0x89, 0xa7, 0x30, 0x1f, 0x80, 0x88, 0x8a, 0xad, 0x8f, 0x41, 0x94, 0x38, 0x87, 0x8f, 0x89, 0xb7, 0x95,
     0x80, 0x8d, 0xf9, 0x2a, 0x00, 0x08, 0x30, 0x07, 0x89, 0xaf, 0x20, 0x08, 0x27, 0x89]"

definition ID_Continue1_b17 :: "u8 list" where
  "ID_Continue1_b17 = [0x41, 0x48, 0x83, 0x60, 0x4b, 0x68, 0x89, 0x40, 0x85, 0x84, 0xba, 0x86, 0x98, 0x89, 0x43, 0xf4, 0x00, 0xb6,
     0x33, 0xd0, 0x80, 0x8a, 0x81, 0x60, 0x4c, 0xaa, 0x81, 0x54, 0xc5, 0x22, 0x2f, 0x39, 0x86]"

definition ID_Continue1_b18 :: "u8 list" where
  "ID_Continue1_b18 = [0x9d, 0x83, 0x40, 0x93, 0x82, 0x45, 0x88, 0xb1, 0x41, 0xff, 0xb6, 0x83, 0xb1, 0x38, 0x8d, 0x80, 0x95, 0x20,
     0x8e, 0x45, 0x4f, 0x30, 0x90, 0x0e, 0x01, 0x04, 0x41, 0x04, 0x86, 0x88, 0x89]"

definition ID_Continue1_b19 :: "u8 list" where
  "ID_Continue1_b19 = [0x41, 0xa1, 0x8d, 0x45, 0xd5, 0x86, 0xec, 0x34, 0x89, 0x52, 0x95, 0x89, 0x6c, 0x05, 0x05, 0x40, 0xef]"

definition ID_Continue1_blocks :: "u8 list list" where
  "ID_Continue1_blocks =
     [ID_Continue1_b0, ID_Continue1_b1, ID_Continue1_b2, ID_Continue1_b3, ID_Continue1_b4,
      ID_Continue1_b5, ID_Continue1_b6, ID_Continue1_b7, ID_Continue1_b8, ID_Continue1_b9,
      ID_Continue1_b10, ID_Continue1_b11, ID_Continue1_b12, ID_Continue1_b13,
      ID_Continue1_b14, ID_Continue1_b15, ID_Continue1_b16, ID_Continue1_b17,
      ID_Continue1_b18, ID_Continue1_b19]"

definition unicode_prop_ID_Continue1_table :: "u8 list" where
  "unicode_prop_ID_Continue1_table = concat ID_Continue1_blocks"

definition unicode_prop_ID_Continue1_index :: "u8 list" where
  "unicode_prop_ID_Continue1_index =
     [0xfa, 0x06, 0x00, 0x84, 0x09, 0x00, 0xf0, 0x0a, 0x00, 0x70, 0x0c, 0x00, 0xf4, 0x0d, 0x00,
      0x4a, 0x10, 0x20, 0x1a, 0x18, 0x20, 0x74, 0x1b, 0x20, 0xdd, 0x20, 0x00, 0x0c, 0xa8, 0x00,
      0x5a, 0xaa, 0x20, 0x1a, 0xff, 0x00, 0xad, 0x0e, 0x01, 0x38, 0x12, 0x21, 0xc1, 0x15, 0x21,
      0xe5, 0x19, 0x21, 0xaa, 0x1d, 0x21, 0x8c, 0xd1, 0x41, 0x4a, 0xe1, 0x21, 0xf0, 0x01, 0x0e]"

lemma ID_Continue1_info:
    "block_info ID_Continue1_b0 = Some (32, 1786)"
    "block_info ID_Continue1_b1 = Some (32, 650)"
    "block_info ID_Continue1_b2 = Some (32, 364)"
    "block_info ID_Continue1_b3 = Some (32, 384)"
    "block_info ID_Continue1_b4 = Some (32, 388)"
    "block_info ID_Continue1_b5 = Some (33, 598)"
    "block_info ID_Continue1_b6 = Some (32, 2000)"
    "block_info ID_Continue1_b7 = Some (32, 858)"
    "block_info ID_Continue1_b8 = Some (31, 1385)"
    "block_info ID_Continue1_b9 = Some (32, 34607)"
    "block_info ID_Continue1_b10 = Some (33, 590)"
    "block_info ID_Continue1_b11 = Some (31, 21696)"
    "block_info ID_Continue1_b12 = Some (32, 3987)"
    "block_info ID_Continue1_b13 = Some (33, 907)"
    "block_info ID_Continue1_b14 = Some (32, 905)"
    "block_info ID_Continue1_b15 = Some (32, 1060)"
    "block_info ID_Continue1_b16 = Some (32, 965)"
    "block_info ID_Continue1_b17 = Some (33, 46050)"
    "block_info ID_Continue1_b18 = Some (31, 4030)"
    "block_info ID_Continue1_b19 = Some (17, 794790)"
  by (simp_all add: block_info_def ID_Continue1_b0_def ID_Continue1_b1_def ID_Continue1_b2_def ID_Continue1_b3_def
      ID_Continue1_b4_def ID_Continue1_b5_def ID_Continue1_b6_def ID_Continue1_b7_def
      ID_Continue1_b8_def ID_Continue1_b9_def ID_Continue1_b10_def
      ID_Continue1_b11_def ID_Continue1_b12_def ID_Continue1_b13_def
      ID_Continue1_b14_def ID_Continue1_b15_def ID_Continue1_b16_def
      ID_Continue1_b17_def ID_Continue1_b18_def ID_Continue1_b19_def)

lemma ID_Continue1_index_check: "index_check ID_Continue1_blocks unicode_prop_ID_Continue1_index 0 0 0"
  by (simp add: ID_Continue1_blocks_def unicode_prop_ID_Continue1_index_def ID_Continue1_info)

interpretation id_continue1: indexed_table unicode_prop_ID_Continue1_table unicode_prop_ID_Continue1_index 20 ID_Continue1_blocks
  by unfold_locales (simp_all add: unicode_prop_ID_Continue1_table_def ID_Continue1_blocks_def ID_Continue1_index_check [unfolded ID_Continue1_blocks_def])

end
