(* ===== verification/Unicode_Names.thy ===== *)
theory Unicode_Names
  imports Unicode_Prop_Tables
begin

text \<open>
  \<open>unicode_find_name\<close> of \<open>libunicode.c\<close>: the search for a name in a table of zero-terminated
  entries, each a comma-separated list of aliases. It is shown to return the position of the
  first entry with that alias, and every name table of the library is shown to have the shape
  this needs.
\<close>

subsection \<open>Definitions\<close>

definition c_strchr :: "u8 list \<Rightarrow> u8 \<Rightarrow> nat option option" where
  "c_strchr p ch =
     (if ch \<in> set (cstr p) then Some (Some (length (takeWhile (\<lambda>x. x \<noteq> ch) p)))
      else if 0 \<in> set p then Some None else None)"

text \<open>The inner loop over the aliases of one entry: found, or the pointer to the next entry.\<close>

function find_aliases :: "u8 list \<Rightarrow> u8 list \<Rightarrow> nat \<Rightarrow> u8 list option option" where
  "find_aliases p name name_len =
     do {
       r \<leftarrow> c_strchr p 0x2c;
       len \<leftarrow> (case r of None \<Rightarrow> c_strlen p | Some k \<Rightarrow> Some k);
       eq \<leftarrow> (if len = name_len then
                do { a \<leftarrow> rdn p 0 name_len; b \<leftarrow> rdn name 0 name_len; Some (a = b) }
              else Some False);
       if eq then Some None
       else if len + 1 \<le> length p then
         (if r = None then Some (Some (drop (len + 1) p))
          else find_aliases (drop (len + 1) p) name name_len)
       else None
     }"
  by pat_completeness auto
termination
  by (relation "measure (\<lambda>(p, name, name_len). length p)") auto

declare find_aliases.simps [simp del]

lemma find_aliases_next:
  "find_aliases p name n = Some (Some p') \<Longrightarrow>
   \<exists>len. len + 1 \<le> length p \<and> (p' = drop (len + 1) p \<or> find_aliases (drop (len + 1) p) name n = Some (Some p'))"
  by (subst (asm) find_aliases.simps) (auto split: Option.bind_splits if_splits)

lemma find_aliases_shorter: "find_aliases p name n = Some (Some p') \<Longrightarrow> length p' < length p"
proof (induction "length p" arbitrary: p rule: less_induct)
  case less
  obtain len where "len + 1 \<le> length p"
      "p' = drop (len + 1) p \<or> find_aliases (drop (len + 1) p) name n = Some (Some p')"
    using find_aliases_next [OF less.prems] by blast
  moreover have "length (drop (len + 1) p) < length p" using calculation(1) by simp
  ultimately show ?case using less.hyps [of "drop (len + 1) p"] by auto
qed

function find_name_loop :: "u8 list \<Rightarrow> u8 list \<Rightarrow> nat \<Rightarrow> int \<Rightarrow> int option" where
  "find_name_loop p name name_len pos =
     do {
       c \<leftarrow> rd p 0;
       if c \<noteq> 0 then
         (case find_aliases p name name_len of
            None \<Rightarrow> None
          | Some None \<Rightarrow> Some pos
          | Some (Some p') \<Rightarrow> find_name_loop p' name name_len (pos + 1))
       else Some (-1)
     }"
  by pat_completeness auto
termination
  by (relation "measure (\<lambda>(p, name, name_len, pos). length p)") (auto dest: find_aliases_shorter)

declare find_name_loop.simps [simp del]

definition unicode_find_name :: "u8 list \<Rightarrow> u8 list \<Rightarrow> int option" where
  "unicode_find_name name_table name =
     do { name_len \<leftarrow> c_strlen name; find_name_loop name_table name name_len 0 }"

subsection \<open>What the search computes\<close>

fun split_comma :: "u8 list \<Rightarrow> u8 list list" where
  "split_comma [] = [[]]"
| "split_comma (c # cs) =
     (if c = 0x2c then [] # split_comma cs
      else (case split_comma cs of x # xs \<Rightarrow> (c # x) # xs | [] \<Rightarrow> [[c]]))"

definition c_bytes :: "string \<Rightarrow> u8 list" where
  "c_bytes s = map of_char s"

definition has_alias :: "u8 list \<Rightarrow> string \<Rightarrow> bool" where
  "has_alias nm s \<longleftrightarrow> nm \<in> set (split_comma (c_bytes s))"

definition entry_ok :: "string \<Rightarrow> bool" where
  "entry_ok s \<longleftrightarrow> s \<noteq> [] \<and> CHR 0x00 \<notin> set s"

lemma of_char_zero: "(of_char c :: u8) = 0 \<longleftrightarrow> c = CHR 0x00"
proof -
  have "(of_char c :: u8) = of_nat (of_char c)" by (rule of_nat_of_char [symmetric])
  then have "(of_char c :: u8) = 0 \<longleftrightarrow> (of_char c :: nat) = of_char (CHR 0x00)"
    using nat_of_char_less_256 [of c] by (simp add: word_of_nat_eq_0_iff dvd_eq_mod_eq_0)
  then show ?thesis by (simp only: of_char_eq_iff)
qed

lemma entry_ok_bytes: "entry_ok s \<Longrightarrow> 0 \<notin> set (c_bytes s) \<and> c_bytes s \<noteq> []"
  by (auto simp: entry_ok_def c_bytes_def of_char_zero)

text \<open>The position of the first entry with the alias, \<open>-1\<close> without one.\<close>

fun name_index :: "string list \<Rightarrow> u8 list \<Rightarrow> int \<Rightarrow> int" where
  "name_index [] nm pos = -1"
| "name_index (s # ss) nm pos = (if has_alias nm s then pos else name_index ss nm (pos + 1))"

lemma split_comma_none: "0x2c \<notin> set s \<Longrightarrow> split_comma s = [s]"
  by (induction s) auto

lemma split_comma_first: "0x2c \<notin> set a \<Longrightarrow> split_comma (a @ 0x2c # b) = a # split_comma b"
  by (induction a) auto

lemma c_strlen_append: "0 \<notin> set s \<Longrightarrow> c_strlen (s @ 0 # r) = Some (length s)"
  by (induction s) auto

lemma find_aliases_split:
  assumes "0 \<notin> set s" and "0 \<notin> set nm"
  shows "find_aliases (s @ 0 # r) (nm @ 0 # t) (length nm) = Some (if nm \<in> set (split_comma s) then None else Some r)"
  using assms(1)
proof (induction "length s" arbitrary: s rule: less_induct)
  case less
  show ?case
  proof (cases "0x2c \<in> set s")
    case False
    then have "c_strchr (s @ 0 # r) 0x2c = Some None"
      using less.prems by (simp add: c_strchr_def cstr_append_zero)
    then show ?thesis
      using less.prems False by (subst find_aliases.simps) (auto simp: c_strlen_append split_comma_none)
  next
    case True
    then obtain a b where s: "s = a @ 0x2c # b" and a: "0x2c \<notin> set a" by (meson split_list_first)
    have "takeWhile (\<lambda>x. x \<noteq> 0x2c) (a @ 0x2c # b @ 0 # r) = a" using a by (induction a) auto
    then have c: "c_strchr (s @ 0 # r) 0x2c = Some (Some (length a))"
      using cstr_append_zero [OF less.prems, of r] by (simp add: c_strchr_def s)
    have IH: "find_aliases (b @ 0 # r) (nm @ 0 # t) (length nm) = Some (if nm \<in> set (split_comma b) then None else Some r)"
      using less.prems by (intro less.hyps) (auto simp: s)
    show ?thesis
      by (subst find_aliases.simps) (use c in \<open>auto simp: IH s split_comma_first [OF a]\<close>)
  qed
qed

lemma find_name_loop_index:
  assumes "\<forall>s\<in>set ss. entry_ok s" and "0 \<notin> set nm"
  shows "find_name_loop (c_string_table ss) (nm @ 0 # t) (length nm) pos = Some (name_index ss nm pos)"
  using assms(1)
proof (induction ss arbitrary: pos)
  case Nil
  then show ?case by (subst find_name_loop.simps) (simp add: c_string_table_def)
next
  case (Cons s ss)
  have tab: "c_string_table (s # ss) = c_bytes s @ 0 # c_string_table ss"
    by (simp add: c_string_table_def c_bytes_def)
  obtain c cs where c: "c_bytes s = c # cs" "c \<noteq> 0" using Cons.prems entry_ok_bytes [of s] by (cases "c_bytes s") auto
  have "find_aliases (c_bytes s @ 0 # c_string_table ss) (nm @ 0 # t) (length nm) =
      Some (if has_alias nm s then None else Some (c_string_table ss))"
    using Cons.prems assms(2) entry_ok_bytes [of s] by (subst find_aliases_split) (auto simp: has_alias_def)
  then show ?case
    using Cons c by (subst find_name_loop.simps) (auto simp: tab)
qed

text \<open>
  Claim C35. The lookup of a name in one of the name tables stays inside the table and returns the
  position of the first entry that has the name among its comma-separated aliases, or \<open>-1\<close>.
\<close>

theorem unicode_find_name_index:
  assumes "\<forall>s\<in>set entries. entry_ok s" and "0 \<notin> set nm"
  shows "unicode_find_name (c_string_table entries) (nm @ 0 # t) = Some (name_index entries nm 0)"
  using find_name_loop_index [OF assms] assms(2) by (simp add: unicode_find_name_def c_strlen_append)

lemma gc_entries_ok: "\<forall>s\<in>set unicode_gc_name_table_entries. entry_ok s"
  by code_simp

lemma prop_entries_ok: "\<forall>s\<in>set unicode_prop_name_table_entries. entry_ok s"
  by code_simp

lemma script_entries_ok: "\<forall>s\<in>set unicode_script_name_table_entries. entry_ok s"
  by code_simp

theorem unicode_find_name_index_witness:
  "unicode_find_name unicode_gc_name_table (c_bytes ''Math_Symbol'' @ [0]) = Some 12"
proof -
  have "name_index unicode_gc_name_table_entries (c_bytes ''Math_Symbol'') 0 = 12" by code_simp
  moreover have "0 \<notin> set (c_bytes ''Math_Symbol'')" by code_simp
  ultimately show ?thesis
    using unicode_find_name_index [OF gc_entries_ok, of "c_bytes ''Math_Symbol''" "[]"]
    by (simp add: unicode_gc_name_table_def)
qed

end
