(* ===== verification/Unicode_Case.thy ===== *)
theory Unicode_Case
  imports Unicode_Tables
begin

text \<open>
  Case conversion of \<open>libunicode.c\<close>: the run tables \<open>case_conv_table1\<close>, \<open>case_conv_table2\<close> and
  \<open>case_conv_ext\<close>, \<open>lre_case_conv\<close>, and the predicates \<open>lre_is_cased\<close>, \<open>lre_is_case_ignorable\<close>,
  \<open>lre_is_id_start\<close> and \<open>lre_is_id_continue\<close>. The theorems say that no conversion reads outside
  a table, what its result can be, and which characters the predicates accept.
\<close>

subsection \<open>\<open>case_conv_table1\<close>\<close>

definition case_conv_table1_0 :: "u32 list" where
  "case_conv_table1_0 =
     [0x00209a30, 0x00309a00, 0x005a8173, 0x00601730, 0x006c0730, 0x006f81b3, 0x00701700, 0x007c0700,
      0x007f8100, 0x00803040, 0x009801c3, 0x00988190, 0x00990640, 0x009c9040, 0x00a481b4, 0x00a52e40,
      0x00bc0130, 0x00bc8640, 0x00bf8170, 0x00c00100, 0x00c08130, 0x00c10440, 0x00c30130, 0x00c38240,
      0x00c48230, 0x00c58240, 0x00c70130, 0x00c78130, 0x00c80130, 0x00c88240, 0x00c98130, 0x00ca0130,
      0x00ca8100, 0x00cb0130, 0x00cb8130, 0x00cc0240, 0x00cd0100, 0x00ce0130, 0x00ce8130, 0x00cf0100,
      0x00cf8130, 0x00d00640, 0x00d30130, 0x00d38240, 0x00d48130, 0x00d60240, 0x00d70130, 0x00d78240,
      0x00d88230, 0x00d98440, 0x00db8130, 0x00dc0240]"

definition case_conv_table1_1 :: "u32 list" where
  "case_conv_table1_1 =
     [0x00de0240, 0x00df8100, 0x00e20350, 0x00e38350, 0x00e50350, 0x00e69040, 0x00ee8100, 0x00ef1240,
      0x00f801b4, 0x00f88350, 0x00fa0240, 0x00fb0130, 0x00fb8130, 0x00fc2840, 0x01100130, 0x01111240,
      0x011d0131, 0x011d8240, 0x011e8130, 0x011f0131, 0x011f8201, 0x01208240, 0x01218130, 0x01220130,
      0x01228130, 0x01230a40, 0x01280101, 0x01288101, 0x01290101, 0x01298100, 0x012a0100, 0x012b0200,
      0x012c8100, 0x012d8100, 0x012e0101, 0x01300100, 0x01308101, 0x01318100, 0x01328101, 0x01330101,
      0x01340100, 0x01348100, 0x01350101, 0x01358101, 0x01360101, 0x01378100, 0x01388101, 0x01390100,
      0x013a8100, 0x013e8101, 0x01400100, 0x01410101]"

definition case_conv_table1_2 :: "u32 list" where
  "case_conv_table1_2 =
     [0x01418100, 0x01438101, 0x01440100, 0x01448100, 0x01450200, 0x01460100, 0x01490100, 0x014e8101,
      0x014f0101, 0x01a28173, 0x01b80440, 0x01bb0240, 0x01bd8300, 0x01bf8130, 0x01c30130, 0x01c40330,
      0x01c60130, 0x01c70230, 0x01c801d0, 0x01c89130, 0x01d18930, 0x01d60100, 0x01d68300, 0x01d801d3,
      0x01d89100, 0x01e10173, 0x01e18900, 0x01e60100, 0x01e68200, 0x01e78130, 0x01e80173, 0x01e88173,
      0x01ea8173, 0x01eb0173, 0x01eb8100, 0x01ec1840, 0x01f80173, 0x01f88173, 0x01f90100, 0x01f98100,
      0x01fa01a0, 0x01fa8173, 0x01fb8240, 0x01fc8130, 0x01fd0240, 0x01fe8330, 0x02001030, 0x02082030,
      0x02182000, 0x02281000, 0x02302240, 0x02453640]"

definition case_conv_table1_3 :: "u32 list" where
  "case_conv_table1_3 =
     [0x02600130, 0x02608e40, 0x02678100, 0x02686040, 0x0298a630, 0x02b0a600, 0x02c381b5, 0x08502631,
      0x08638131, 0x08668131, 0x08682b00, 0x087e8300, 0x09d05011, 0x09f80610, 0x09fc0620, 0x0e400174,
      0x0e408174, 0x0e410174, 0x0e418174, 0x0e420174, 0x0e428174, 0x0e430174, 0x0e438180, 0x0e440180,
      0x0e482b30, 0x0e5e8330, 0x0ebc8101, 0x0ebe8101, 0x0ec70101, 0x0f007e40, 0x0f3f1840, 0x0f4b01b5,
      0x0f4b81b6, 0x0f4c01b6, 0x0f4c81b6, 0x0f4d01b7, 0x0f4d8180, 0x0f4f0130, 0x0f506040, 0x0f800800,
      0x0f840830, 0x0f880600, 0x0f8c0630, 0x0f900800, 0x0f940830, 0x0f980800, 0x0f9c0830, 0x0fa00600,
      0x0fa40630, 0x0fa801b0, 0x0fa88100, 0x0fa901d3]"

definition case_conv_table1_4 :: "u32 list" where
  "case_conv_table1_4 =
     [0x0fa98100, 0x0faa01d3, 0x0faa8100, 0x0fab01d3, 0x0fab8100, 0x0fac8130, 0x0fad8130, 0x0fae8130,
      0x0faf8130, 0x0fb00800, 0x0fb40830, 0x0fb80200, 0x0fb90400, 0x0fbb0200, 0x0fbc0201, 0x0fbd0201,
      0x0fbe0201, 0x0fc008b7, 0x0fc40867, 0x0fc808b8, 0x0fcc0868, 0x0fd008b8, 0x0fd40868, 0x0fd80200,
      0x0fd901b9, 0x0fd981b1, 0x0fda01b9, 0x0fdb01b1, 0x0fdb81d7, 0x0fdc0230, 0x0fdd0230, 0x0fde0161,
      0x0fdf0173, 0x0fe101b9, 0x0fe181b2, 0x0fe201ba, 0x0fe301b2, 0x0fe381d8, 0x0fe40430, 0x0fe60162,
      0x0fe80200, 0x0fe901d0, 0x0fe981d0, 0x0feb01b0, 0x0feb81d0, 0x0fec0230, 0x0fed0230, 0x0ff00201,
      0x0ff101d3, 0x0ff181d3, 0x0ff201ba, 0x0ff28101]"

definition case_conv_table1_5 :: "u32 list" where
  "case_conv_table1_5 =
     [0x0ff301b0, 0x0ff381d3, 0x0ff40230, 0x0ff50230, 0x0ff60131, 0x0ff901ba, 0x0ff981b2, 0x0ffa01bb,
      0x0ffb01b2, 0x0ffb81d9, 0x0ffc0230, 0x0ffd0230, 0x0ffe0162, 0x109301a0, 0x109501a0, 0x109581a0,
      0x10990131, 0x10a70101, 0x10b01031, 0x10b81001, 0x10c18240, 0x125b1a31, 0x12681a01, 0x16002f31,
      0x16182f01, 0x16300240, 0x16310130, 0x16318130, 0x16320130, 0x16328100, 0x16330100, 0x16338640,
      0x16368130, 0x16370130, 0x16378130, 0x16380130, 0x16390240, 0x163a8240, 0x163f0230, 0x16406440,
      0x16758440, 0x16790240, 0x16802600, 0x16938100, 0x16968100, 0x53202e40, 0x53401c40, 0x53910e40,
      0x53993e40, 0x53bc8440, 0x53be8130, 0x53bf0a40]"

definition case_conv_table1_6 :: "u32 list" where
  "case_conv_table1_6 =
     [0x53c58240, 0x53c68130, 0x53c80440, 0x53ca0101, 0x53cb1440, 0x53d50130, 0x53d58130, 0x53d60130,
      0x53d68130, 0x53d70130, 0x53d80130, 0x53d88130, 0x53d90130, 0x53d98131, 0x53da0c40, 0x53e10240,
      0x53e20131, 0x53e28130, 0x53e30130, 0x53e38440, 0x53fa8240, 0x55a98101, 0x55b85020, 0x7d8001b2,
      0x7d8081b2, 0x7d8101b2, 0x7d8181da, 0x7d8201da, 0x7d8281b3, 0x7d8301b3, 0x7d8981bb, 0x7d8a01bb,
      0x7d8a81bb, 0x7d8b01bc, 0x7d8b81bb, 0x7f909a31, 0x7fa09a01, 0x82002831, 0x82142801, 0x82582431,
      0x826c2401, 0x86403331, 0x86603301, 0x8c502031, 0x8c602001, 0xb7202031, 0xb7302001, 0xf4802231,
      0xf4912201]"

definition case_conv_table1 :: "u32 list" where
  "case_conv_table1 = case_conv_table1_0 @ case_conv_table1_1 @ case_conv_table1_2 @ case_conv_table1_3 @ case_conv_table1_4 @ case_conv_table1_5 @ case_conv_table1_6"

subsection \<open>\<open>case_conv_table2\<close>\<close>

definition case_conv_table2_0 :: "u8 list" where
  "case_conv_table2_0 =
     [0x01, 0x00, 0x9c, 0x06, 0x07, 0x4d, 0x03, 0x04, 0x10, 0x00, 0x8f, 0x0b, 0x00, 0x00, 0x11, 0x00, 0x08, 0x00,
      0x53, 0x4a, 0x51, 0x00, 0x52, 0x00, 0x53, 0x00, 0x3a, 0x54, 0x55, 0x00, 0x57, 0x59, 0x3f, 0x5d, 0x5c, 0x00,
      0x46, 0x61, 0x63, 0x42, 0x64, 0x00, 0x66, 0x00, 0x68, 0x00, 0x6a, 0x00, 0x6c, 0x00, 0x6e, 0x00]"

definition case_conv_table2_1 :: "u8 list" where
  "case_conv_table2_1 =
     [0x00, 0x40, 0x00, 0x00, 0x00, 0x00, 0x1a, 0x00, 0x93, 0x00, 0x00, 0x20, 0x35, 0x00, 0x27, 0x00, 0x21, 0x00,
      0x24, 0x22, 0x2a, 0x00, 0x13, 0x6b, 0x6d, 0x00, 0x26, 0x24, 0x27, 0x14, 0x16, 0x18, 0x1b, 0x1c, 0x3e, 0x1e,
      0x3f, 0x1f, 0x39, 0x3d, 0x22, 0x21, 0x41, 0x1e, 0x40, 0x25, 0x25, 0x26, 0x28, 0x20, 0x2a, 0x49]"

definition case_conv_table2_2 :: "u8 list" where
  "case_conv_table2_2 =
     [0x2c, 0x43, 0x2e, 0x4b, 0x30, 0x4c, 0x32, 0x44, 0x42, 0x99, 0x00, 0x00, 0x95, 0x8f, 0x7d, 0x7e, 0x83, 0x84,
      0x12, 0x80, 0x82, 0x76, 0x77, 0x12, 0x7b, 0xa3, 0x7c, 0x78, 0x79, 0x8a, 0x92, 0x98, 0xa6, 0xa0, 0x85, 0x00,
      0x9a, 0xa1, 0x93, 0x75, 0x33, 0x95, 0x00, 0x8e, 0x00, 0x74, 0x99, 0x98, 0x97, 0x96, 0x00, 0x00]"

definition case_conv_table2_3 :: "u8 list" where
  "case_conv_table2_3 =
     [0x9e, 0x00, 0x9c, 0x00, 0xa1, 0xa0, 0x15, 0x2e, 0x2f, 0x30, 0xb4, 0xb5, 0x4e, 0xaa, 0xa9, 0x12, 0x14, 0x1e,
      0x21, 0x22, 0x22, 0x2a, 0x34, 0x35, 0xa6, 0xa7, 0x36, 0x1f, 0x4a, 0x00, 0x00, 0x97, 0x01, 0x5a, 0xda, 0x1d,
      0x36, 0x05, 0x00, 0xc4, 0xc3, 0xc6, 0xc5, 0xc8, 0xc7, 0xca, 0xc9, 0xcc, 0xcb, 0xc4, 0xd5, 0x45]"

definition case_conv_table2_4 :: "u8 list" where
  "case_conv_table2_4 =
     [0xd6, 0x42, 0xd7, 0x46, 0xd8, 0xce, 0xd0, 0xd2, 0xd4, 0xda, 0xd9, 0xee, 0xf6, 0xfe, 0x0e, 0x07, 0x0f, 0x80,
      0x9f, 0x00, 0x21, 0x80, 0xa3, 0xed, 0x00, 0xc0, 0x40, 0xc6, 0x60, 0xe7, 0xdb, 0xe6, 0x99, 0xc0, 0x00, 0x00,
      0x06, 0x60, 0xdc, 0x29, 0xfd, 0x15, 0x12, 0x06, 0x16, 0xf8, 0xdd, 0x06, 0x15, 0x12, 0x84, 0x08]"

definition case_conv_table2_5 :: "u8 list" where
  "case_conv_table2_5 =
     [0xc6, 0x16, 0xff, 0xdf, 0x03, 0xc0, 0x40, 0x00, 0x46, 0x60, 0xde, 0xe0, 0x6d, 0x37, 0x38, 0x39, 0x15, 0x14,
      0x17, 0x16, 0x00, 0x1a, 0x19, 0x1c, 0x1b, 0x00, 0x5f, 0xb7, 0x65, 0x44, 0x47, 0x00, 0x4f, 0x62, 0x4e, 0x50,
      0x00, 0x00, 0x48, 0x00, 0x00, 0x00, 0xa3, 0xa4, 0xa5, 0x00, 0x00, 0x00, 0x00, 0x00, 0xb6, 0x00]"

definition case_conv_table2_6 :: "u8 list" where
  "case_conv_table2_6 =
     [0x00, 0x5a, 0x00, 0x48, 0x00, 0x5b, 0x56, 0x58, 0x60, 0x5e, 0x70, 0x69, 0x6f, 0x4d, 0x00, 0x00, 0x3b, 0x67,
      0xb8, 0x00, 0x00, 0x45, 0xa8, 0x8a, 0x8b, 0x8c, 0xab, 0xac, 0x58, 0x58, 0xaf, 0x94, 0xb0, 0x6f, 0xb2, 0x5c,
      0x5b, 0x5e, 0x5d, 0x60, 0x5f, 0x62, 0x61, 0x64, 0x63, 0x66, 0x65, 0x68, 0x67]"

definition case_conv_table2 :: "u8 list" where
  "case_conv_table2 = case_conv_table2_0 @ case_conv_table2_1 @ case_conv_table2_2 @ case_conv_table2_3 @ case_conv_table2_4 @ case_conv_table2_5 @ case_conv_table2_6"

subsection \<open>\<open>case_conv_ext\<close>\<close>

definition case_conv_ext :: "u16 list" where
  "case_conv_ext =
     [0x0399, 0x0308, 0x0301, 0x03a5, 0x0313, 0x0300, 0x0342, 0x0391, 0x0397, 0x03a9, 0x0046, 0x0049,
      0x004c, 0x0053, 0x0069, 0x0307, 0x02bc, 0x004e, 0x004a, 0x030c, 0x0535, 0x0552, 0x0048, 0x0331,
      0x0054, 0x0057, 0x030a, 0x0059, 0x0041, 0x02be, 0x1f08, 0x1f80, 0x1f28, 0x1f90, 0x1f68, 0x1fa0,
      0x1fba, 0x0386, 0x1fb3, 0x1fca, 0x0389, 0x1fc3, 0x03a1, 0x1ffa, 0x038f, 0x1ff3, 0x0544, 0x0546,
      0x053b, 0x054e, 0x053d, 0x03b8, 0x0462, 0xa64a, 0x1e60, 0x03c9, 0x006b, 0x00e5]"

subsection \<open>Definitions\<close>

text \<open>An entry packs a code (17 bits), a length (7), a type (4) and the high part of its data (4).\<close>

definition run_code :: "u32 \<Rightarrow> u32" where
  "run_code v = drop_bit 15 v"

definition run_len :: "u32 \<Rightarrow> u32" where
  "run_len v = drop_bit 8 v AND 0x7f"

definition run_type :: "u32 \<Rightarrow> u32" where
  "run_type v = drop_bit 4 v AND 0xf"

definition run_data :: "u32 \<Rightarrow> u8 \<Rightarrow> u32" where
  "run_data v d = push_bit 8 (v AND 0xf) OR ucast d"

function case_conv_search :: "u32 list \<Rightarrow> u32 \<Rightarrow> int \<Rightarrow> int \<Rightarrow> (nat \<times> u32) option option" where
  "case_conv_search tab c idx_min idx_max =
     (if idx_min \<le> idx_max then
        (let idx = (idx_max + idx_min) div 2 in
         do {
           v \<leftarrow> rdi tab idx;
           let code = run_code v;
           let len = run_len v;
           if c < code then case_conv_search tab c idx_min (idx - 1)
           else if c \<ge> code + len then case_conv_search tab c (idx + 1) idx_max
           else Some (Some (nat idx, v))
         })
      else Some None)"
  by pat_completeness auto
termination
  by (relation "measure (\<lambda>(tab, c, idx_min, idx_max). nat (idx_max - idx_min + 1))") (auto split: if_splits)

declare case_conv_search.simps [simp del]

definition ext_at :: "u32 \<Rightarrow> u32 option" where
  "ext_at i = map_option ucast (rd case_conv_ext (unat i))"

text \<open>The \<open>switch\<close> on the run type, which ends in the code points written to \<open>res\<close>.\<close>

definition case_conv_run :: "u32 \<Rightarrow> u32 \<Rightarrow> u32 \<Rightarrow> u32 \<Rightarrow> u32 list option" where
  "case_conv_run v data c conv_type =
     (let code = run_code v;
          type = run_type v;
          is_lower = (if conv_type \<noteq> 0 then 1 else 0) in
      if type \<le> 3 then
        (if conv_type = type AND 1 \<or> type \<ge> 2 \<and> conv_type = 2 then
           do { w \<leftarrow> rd case_conv_table1 (unat data); Some [c - code + run_code w] }
         else Some [c])
      else if type = 4 then
        (let a = c - code in
         if a AND 1 \<noteq> 1 - is_lower then Some [c] else Some [(a XOR 1) + code])
      else if type = 5 then
        (let a = c - code in
         if a = 1 then Some [c + (2 * is_lower - 1)]
         else if a = (1 - is_lower) * 2 then Some [c + (2 * is_lower - 1) * 2]
         else Some [c])
      else if type = 6 then
        (if is_lower = 0 then do { x \<leftarrow> ext_at (drop_bit 6 data); Some [c - code + x, 0x399] }
         else do { x \<leftarrow> ext_at (data AND 0x3f); Some [c - code + x] })
      else if type = 7 then
        (if conv_type = 1 then Some [c] else Some [data + (if conv_type = 2 then 0x20 else 0)])
      else if type = 8 then
        (if conv_type = 1 then Some [c]
         else do { x \<leftarrow> ext_at data; Some [x + (if conv_type = 2 then 1 else 0)] })
      else if type = 9 \<or> type = 10 then
        (if is_lower \<noteq> type - 9 then Some [c] else do { x \<leftarrow> ext_at data; Some [x] })
      else if type = 11 \<or> type = 12 then
        (if conv_type \<noteq> type - 11 then Some [c]
         else do { x \<leftarrow> ext_at (drop_bit 6 data); y \<leftarrow> ext_at (data AND 0x3f); Some [c - code + x, y] })
      else
        (if conv_type \<noteq> 0 then Some [c]
         else do { x \<leftarrow> ext_at (drop_bit 8 data); y \<leftarrow> ext_at (drop_bit 4 data AND 0xf);
                   z \<leftarrow> ext_at (data AND 0xf); Some [x, y, z] }))"

text \<open>\<open>lre_case_conv\<close>: the returned count is the length of the list of code points.\<close>

definition lre_case_conv :: "u32 \<Rightarrow> u32 \<Rightarrow> u32 list option" where
  "lre_case_conv c conv_type =
     (if c < 128 then
        (if conv_type \<noteq> 0 then
           Some [if c \<ge> 0x41 \<and> c \<le> 0x5a then c - 0x41 + 0x61 else c]
         else Some [if c \<ge> 0x61 \<and> c \<le> 0x7a then c - 0x61 + 0x41 else c])
      else
        do {
          r \<leftarrow> case_conv_search case_conv_table1 c 0 (int (length case_conv_table1) - 1);
          case r of
            None \<Rightarrow> Some [c]
          | Some (idx, v) \<Rightarrow>
              do { d \<leftarrow> rd case_conv_table2 idx; case_conv_run v (run_data v d) c conv_type }
        })"

definition lre_is_cased :: "u32 \<Rightarrow> bool option" where
  "lre_is_cased c =
     do {
       r \<leftarrow> case_conv_search case_conv_table1 c 0 (int (length case_conv_table1) - 1);
       case r of
         Some _ \<Rightarrow> Some True
       | None \<Rightarrow> lre_is_in_table c unicode_prop_Cased1_table unicode_prop_Cased1_index
                   (length unicode_prop_Cased1_index div 3)
     }"

definition lre_is_case_ignorable :: "u32 \<Rightarrow> bool option" where
  "lre_is_case_ignorable c =
     lre_is_in_table c unicode_prop_Case_Ignorable_table unicode_prop_Case_Ignorable_index
       (length unicode_prop_Case_Ignorable_index div 3)"

definition lre_is_id_start :: "u32 \<Rightarrow> bool option" where
  "lre_is_id_start c =
     lre_is_in_table c unicode_prop_ID_Start_table unicode_prop_ID_Start_index
       (length unicode_prop_ID_Start_index div 3)"

definition lre_is_id_continue :: "u32 \<Rightarrow> bool option" where
  "lre_is_id_continue c =
     do {
       s \<leftarrow> lre_is_id_start c;
       if s then Some True
       else lre_is_in_table c unicode_prop_ID_Continue1_table unicode_prop_ID_Continue1_index
              (length unicode_prop_ID_Continue1_index div 3)
     }"

subsection \<open>The tables are well formed\<close>

text \<open>
  The entries in increasing disjoint runs, each with its data inside the table it points into.
  The check works on the numbers the entries stand for and is composed chunk by chunk.
\<close>

fun runs_check :: "nat \<Rightarrow> u32 list \<Rightarrow> nat option" where
  "runs_check p [] = Some p"
| "runs_check p (v # vs) =
     (let n = unat v; code = n div 32768 in
      if p \<le> code then runs_check (code + n div 256 mod 128) vs else None)"

definition data_ok :: "u32 \<Rightarrow> u8 \<Rightarrow> bool" where
  "data_ok v d =
     (let n = unat v; type = n div 16 mod 16; data = n mod 16 * 256 + unat d in
      if type \<le> 3 then data < 361
      else if type = 6 \<or> type = 11 \<or> type = 12 then data div 64 < 58 \<and> data mod 64 < 58
      else if type = 8 \<or> type = 9 \<or> type = 10 then data < 58
      else True)"

lemma runs_check_append: "runs_check p (a @ b) = Option.bind (runs_check p a) (\<lambda>q. runs_check q b)"
  by (induction a arbitrary: p) (auto simp: Let_def)

lemma case_conv_runs_chunks:
    "runs_check 0 case_conv_table1_0 = Some 442"
    "runs_check 442 case_conv_table1_1 = Some 643"
    "runs_check 643 case_conv_table1_2 = Some 1216"
    "runs_check 1216 case_conv_table1_3 = Some 8019"
    "runs_check 8019 case_conv_table1_4 = Some 8166"
    "runs_check 8166 case_conv_table1_5 = Some 42888"
    "runs_check 42888 case_conv_table1_6 = Some 125252"
  by (simp_all add: Let_def case_conv_table1_0_def case_conv_table1_1_def case_conv_table1_2_def case_conv_table1_3_def case_conv_table1_4_def case_conv_table1_5_def case_conv_table1_6_def)

lemma case_conv_data_chunks:
    "list_all2 data_ok case_conv_table1_0 case_conv_table2_0"
    "list_all2 data_ok case_conv_table1_1 case_conv_table2_1"
    "list_all2 data_ok case_conv_table1_2 case_conv_table2_2"
    "list_all2 data_ok case_conv_table1_3 case_conv_table2_3"
    "list_all2 data_ok case_conv_table1_4 case_conv_table2_4"
    "list_all2 data_ok case_conv_table1_5 case_conv_table2_5"
    "list_all2 data_ok case_conv_table1_6 case_conv_table2_6"
  by (simp_all add: data_ok_def Let_def
      case_conv_table1_0_def case_conv_table1_1_def case_conv_table1_2_def case_conv_table1_3_def case_conv_table1_4_def case_conv_table1_5_def case_conv_table1_6_def
      case_conv_table2_0_def case_conv_table2_1_def case_conv_table2_2_def case_conv_table2_3_def case_conv_table2_4_def case_conv_table2_5_def case_conv_table2_6_def)

lemma case_conv_runs: "\<exists>q. runs_check 0 case_conv_table1 = Some q"
  unfolding case_conv_table1_def by (simp add: runs_check_append case_conv_runs_chunks)

lemma case_conv_data: "list_all2 data_ok case_conv_table1 case_conv_table2"
  unfolding case_conv_table1_def case_conv_table2_def
  by (intro list_all2_appendI case_conv_data_chunks)

lemma case_conv_lengths:
  "length case_conv_table1 = 361" "length case_conv_table2 = 361" "length case_conv_ext = 58"
  by (simp_all add: case_conv_table1_def case_conv_table2_def case_conv_ext_def
      case_conv_table1_0_def case_conv_table1_1_def case_conv_table1_2_def case_conv_table1_3_def case_conv_table1_4_def case_conv_table1_5_def case_conv_table1_6_def
      case_conv_table2_0_def case_conv_table2_1_def case_conv_table2_2_def case_conv_table2_3_def case_conv_table2_4_def case_conv_table2_5_def case_conv_table2_6_def)

subsection \<open>The fields of an entry\<close>

lemma unat_run_code: "unat (run_code v) = unat v div 32768"
  unfolding run_code_def by (subst unat_drop_bit_eq) (simp add: drop_bit_eq_div)

lemma unat_run_len: "unat (run_len v) = unat v div 256 mod 128"
  using unat_field [of 8 v 7] by (simp add: run_len_def mask_eq_exp_minus_1)

lemma unat_run_type: "unat (run_type v) = unat v div 16 mod 16"
  using unat_field [of 4 v 4] by (simp add: run_type_def mask_eq_exp_minus_1)

lemma unat_run_data: "unat (run_data v d) = unat v mod 16 * 256 + unat d"
proof -
  have "unat (v AND 0xf) = unat v mod 16"
    using unat_field [of 0 v 4] by (simp add: mask_eq_exp_minus_1)
  moreover have "unat d < 256" using unsigned_less [of d] by simp
  ultimately show ?thesis
    using or_shift_add [of "ucast d" 8 "v AND 0xf"] unsigned_less [of d]
    by (simp add: run_data_def unat_widen)
qed

lemma unat_run_end: "unat (run_code v + run_len v) = unat (run_code v) + unat (run_len v)"
proof -
  show ?thesis using unat_bounds(3) [of v] by (subst unat_add_lem [THEN iffD1]) (auto simp: unat_run_code unat_run_len)
qed

definition in_run :: "u32 \<Rightarrow> u32 \<Rightarrow> bool" where
  "in_run v c \<longleftrightarrow> run_code v \<le> c \<and> c < run_code v + run_len v"

lemma in_run_nat: "in_run v c \<longleftrightarrow> unat (run_code v) \<le> unat c \<and> unat c < unat (run_code v) + unat (run_len v)"
  by (simp add: in_run_def word_le_nat_alt word_less_nat_alt unat_run_end)

subsection \<open>The binary search\<close>

lemma runs_check_ge:
  "runs_check p vs = Some q \<Longrightarrow> i < length vs \<Longrightarrow> p \<le> unat (run_code (vs ! i))"
proof (induction vs arbitrary: p i)
  case (Cons v vs)
  have p: "p \<le> unat (run_code v)"
      and r: "runs_check (unat (run_code v) + unat (run_len v)) vs = Some q"
    using Cons.prems(1) by (auto simp: Let_def unat_run_code unat_run_len split: if_splits)
  have "p \<le> unat (run_code (vs ! k))" if "k < length vs" for k using p Cons.IH [OF r that] by simp
  then show ?case using p Cons.prems(2) by (cases i) auto
qed simp

lemma runs_check_sorted:
  "runs_check p vs = Some q \<Longrightarrow> i < j \<Longrightarrow> j < length vs \<Longrightarrow>
   unat (run_code (vs ! i)) + unat (run_len (vs ! i)) \<le> unat (run_code (vs ! j))"
proof (induction vs arbitrary: p i j)
  case (Cons v vs)
  have r: "runs_check (unat (run_code v) + unat (run_len v)) vs = Some q"
    using Cons.prems(1) by (auto simp: Let_def unat_run_code unat_run_len split: if_splits)
  obtain k where j: "j = Suc k" using Cons.prems(2) by (cases j) auto
  show ?case using Cons.IH [OF r] Cons.prems runs_check_ge [OF r] unfolding j by (cases i) auto
qed simp

lemma case_conv_search_correct:
  assumes ok: "runs_check p tab = Some q"
    and "0 \<le> lo" "hi < int (length tab)" "lo \<le> hi + 1"
    and "\<And>i. i < nat lo \<Longrightarrow> \<not> in_run (tab ! i) c"
    and "\<And>i. int i > hi \<Longrightarrow> i < length tab \<Longrightarrow> \<not> in_run (tab ! i) c"
  shows "\<exists>r. case_conv_search tab c lo hi = Some r \<and>
    (case r of None \<Rightarrow> \<forall>v\<in>set tab. \<not> in_run v c
     | Some (i, v) \<Rightarrow> i < length tab \<and> v = tab ! i \<and> in_run v c)"
  using assms(2-)
proof (induction "nat (hi - lo + 1)" arbitrary: lo hi rule: less_induct)
  case less
  show ?case
  proof (cases "lo \<le> hi")
    case False
    have "\<not> in_run (tab ! i) c" if "i < length tab" for i
      using less.prems(4,5) False less.prems(3) that by (cases "int i > hi") auto
    then show ?thesis using False by (subst case_conv_search.simps) (auto simp: in_set_conv_nth)
  next
    case True
    let ?m = "(hi + lo) div 2"
    have m: "lo \<le> ?m" "?m \<le> hi" "0 \<le> ?m" "?m < int (length tab)" using True less.prems(1,2) by auto
    have nm: "nat ?m < length tab" using m(3,4) by linarith
    define v where "v = tab ! nat ?m"
    have sorted: "i < j \<Longrightarrow> j < length tab \<Longrightarrow>
        unat (run_code (tab ! i)) + unat (run_len (tab ! i)) \<le> unat (run_code (tab ! j))" for i j
      using runs_check_sorted [OF ok] .
    have u: "case_conv_search tab c lo hi =
        (if c < run_code v then case_conv_search tab c lo (?m - 1)
         else if c \<ge> run_code v + run_len v then case_conv_search tab c (?m + 1) hi
         else Some (Some (nat ?m, v)))"
      using True m by (subst case_conv_search.simps) (simp add: rdi_def v_def Let_def)
    consider "c < run_code v" | "\<not> c < run_code v" "run_code v + run_len v \<le> c" | "in_run v c"
      by (metis in_run_def linorder_not_less)
    then show ?thesis
    proof cases
      case 1
      have "\<not> in_run (tab ! i) c" if "int i > ?m - 1" "i < length tab" for i
      proof (cases "i = nat ?m")
        case True then show ?thesis using 1 by (simp add: in_run_def v_def not_le)
      next
        case False
        then have "nat ?m < i" using that m(3) by linarith
        then show ?thesis using sorted [of "nat ?m" i] that 1 by (simp add: in_run_nat v_def word_less_nat_alt)
      qed
      then show ?thesis
        unfolding u using 1 less.hyps [of "?m - 1" lo] less.prems m by auto
    next
      case 2
      have "\<not> in_run (tab ! i) c" if "i < nat (?m + 1)" for i
      proof (cases "i = nat ?m")
        case True then show ?thesis using 2 by (simp add: in_run_def v_def not_less)
      next
        case False
        then have "i < nat ?m" using that m(3) by linarith
        then show ?thesis
          using sorted [of i "nat ?m"] nm 2(2) unat_run_end [of v]
          by (auto simp: in_run_nat v_def word_le_nat_alt)
      qed
      then show ?thesis
        unfolding u using 2 less.hyps [of hi "?m + 1"] less.prems m by auto
    next
      case 3
      then show ?thesis unfolding u using m by (auto simp: in_run_def v_def not_less not_le)
    qed
  qed
qed

lemma case_conv_search_table:
  "\<exists>r. case_conv_search case_conv_table1 c 0 (int (length case_conv_table1) - 1) = Some r \<and>
    (case r of None \<Rightarrow> \<forall>v\<in>set case_conv_table1. \<not> in_run v c
     | Some (i, v) \<Rightarrow> i < length case_conv_table1 \<and> v = case_conv_table1 ! i \<and> in_run v c)"
proof -
  obtain q where "runs_check 0 case_conv_table1 = Some q" using case_conv_runs by blast
  then show ?thesis by (rule case_conv_search_correct) auto
qed

subsection \<open>Conversion\<close>

lemma ext_at_ok:
  assumes "unat i < 58"
  shows "\<exists>x. ext_at i = Some x \<and> unat x < 65536"
proof -
  let ?e = "case_conv_ext ! unat i"
  have "ext_at i = Some (ucast ?e)" using assms by (simp add: ext_at_def rd_def case_conv_lengths)
  moreover have "unat (ucast ?e :: u32) < 65536"
    using unat_bounds(2) [of ?e] by (simp add: unsigned_ucast_eq take_bit_nat_eq_self)
  ultimately show ?thesis by blast
qed

definition code_points_ok :: "u32 \<Rightarrow> u32 list \<Rightarrow> bool" where
  "code_points_ok c rs \<longleftrightarrow> 1 \<le> length rs \<and> length rs \<le> 3 \<and> (c < 0x110000 \<longrightarrow> (\<forall>x\<in>set rs. x < 0x110000))"

lemma run_offset:
  assumes "in_run v c"
  shows "unat (c - run_code v) < 128" "unat (c - run_code v) = unat c - unat (run_code v)"
proof -
  show e: "unat (c - run_code v) = unat c - unat (run_code v)"
    using assms by (intro unat_sub) (simp add: in_run_def)
  have "unat (run_len v) < 128" by (simp add: unat_run_len)
  then show "unat (c - run_code v) < 128" using assms unfolding e by (auto simp: in_run_nat)
qed

lemma unat_small_add:
  fixes a b :: u32
  shows "unat a < m \<Longrightarrow> unat b < n \<Longrightarrow> m + n \<le> 0x110000 \<Longrightarrow> a + b < 0x110000"
  by (auto simp: word_less_nat_alt unat_word_ariths(1))

lemma run_code_less: "unat (run_code v) < 131072"
  using unat_bounds(3) [of v] by (simp add: unat_run_code)

lemma ok_same: "code_points_ok c [c]"
  by (simp add: code_points_ok_def)

lemma ok_small: "x < 0x110000 \<Longrightarrow> code_points_ok c [x]"
  by (simp add: code_points_ok_def)

lemma ok_small2: "x < 0x110000 \<Longrightarrow> y < 0x110000 \<Longrightarrow> code_points_ok c [x, y]"
  by (simp add: code_points_ok_def)

lemma small16: "unat (x :: u32) < 65536 \<Longrightarrow> x < 0x110000"
  by (simp add: word_less_nat_alt)

lemmas ok_intros = ok_same ok_small ok_small2

lemma run_swap:
  assumes "in_run v c"
  shows "((c - run_code v) XOR 1) + run_code v < 0x110000"
proof -
  have "unat (c - run_code v) < 128" using assms by (rule run_offset)
  then have "take_bit 7 (c - run_code v) = c - run_code v"
    by (simp add: u32_eq_iff unsigned_take_bit_eq take_bit_nat_eq_self)
  then have "take_bit 7 ((c - run_code v) XOR 1) = (c - run_code v) XOR 1" by (simp add: take_bit_xor)
  moreover have "unat (take_bit 7 ((c - run_code v) XOR 1)) < 128"
    by (subst unsigned_take_bit_eq) (simp add: take_bit_eq_mod)
  ultimately have "unat ((c - run_code v) XOR 1) < 128" by simp
  then show ?thesis using run_code_less [of v] by (rule unat_small_add) simp
qed

lemma run_neighbour:
  assumes "in_run v c" "k = 1 \<or> k = 2 \<or> k = -1 \<or> k = -2" "k = -1 \<or> k = -2 \<Longrightarrow> unat c \<ge> 2"
  shows "c + k < 0x110000"
proof -
  have c: "unat c < 131072 + 128"
    using assms(1) run_code_less [of v] unat_run_len [of v] by (auto simp: in_run_nat)
  have "unat (c - 1) < 131200" "unat (c - 2) < 131200" if "unat c \<ge> 2"
    using that c by (subst unat_sub; simp add: word_le_nat_alt)+
  moreover have "c + 1 < 0x110000" "c + 2 < 0x110000"
    using unat_small_add [OF c, of _ 3] by simp_all
  ultimately show ?thesis using assms(2,3) by (auto simp: word_less_nat_alt)
qed

lemma case_conv_run_ok:
  assumes r: "in_run v c" and d: "data_ok v d" and "128 \<le> c"
  shows "\<exists>rs. case_conv_run v (run_data v d) c conv_type = Some rs \<and> code_points_ok c rs"
proof -
  let ?t = "unat (run_type v)" and ?x = "run_data v d"
  define x where "x = ?x"
  have dl: "unat x < 4096" using unat_bounds(1) [of d] by (simp add: x_def unat_run_data)
  have parts: "unat (drop_bit 6 x) = unat x div 64" "unat (x AND 0x3f) = unat x mod 64"
      "unat (drop_bit 8 x) < 16" "unat (drop_bit 4 x AND 0xf) < 16" "unat (x AND 0xf) < 16"
    using unat_field [of 0 x 6] unat_field [of 4 x 4] unat_field [of 0 x 4] unat_shr [of 6 x] unat_shr [of 8 x] dl
    by (auto simp: mask_eq_exp_minus_1)
  have dok: "if ?t \<le> 3 then unat x < 361
      else if ?t = 6 \<or> ?t = 11 \<or> ?t = 12 then unat x div 64 < 58 \<and> unat x mod 64 < 58
      else if ?t = 8 \<or> ?t = 9 \<or> ?t = 10 then unat x < 58 else True"
    using d by (simp add: data_ok_def Let_def unat_run_type x_def unat_run_data)
  have ty: "run_type v \<le> 3 \<longleftrightarrow> ?t \<le> 3" "run_type v = numeral k \<longleftrightarrow> ?t = unat (numeral k :: u32)" for k
    by (simp_all add: word_le_nat_alt u32_eq_iff)
  have off: "c - run_code v + y < 0x110000" if "unat y < 131072" for y
    using run_offset(1) [OF r] that by (rule unat_small_add) simp
  consider "?t \<le> 3" | "?t = 4" | "?t = 5" | "?t = 6" | "?t = 7" | "?t = 8" | "?t = 9 \<or> ?t = 10"
    | "?t = 11 \<or> ?t = 12" | "?t > 12" by linarith
  then have "\<exists>rs. case_conv_run v x c conv_type = Some rs \<and> code_points_ok c rs"
  proof cases
    case 1
    then have "unat x < length case_conv_table1" using dok by (simp add: case_conv_lengths)
    then show ?thesis
      using 1 by (auto simp: case_conv_run_def Let_def ty mem_simps intro!: ok_intros off run_code_less)
  next
    case 2
    then show ?thesis using run_swap [OF r] by (auto simp: case_conv_run_def Let_def ty small16 intro!: ok_intros)
  next
    case 3
    have "unat c \<ge> 2" using assms(3) by (simp add: word_le_nat_alt)
    then have "c + 1 < 0x110000" "c + 2 < 0x110000" "c - 1 < 0x110000" "c - 2 < 0x110000"
      using run_neighbour [OF r, of 1] run_neighbour [OF r, of 2] run_neighbour [OF r, of "-1"]
        run_neighbour [OF r, of "-2"] by simp_all
    then show ?thesis using 3 by (auto simp: case_conv_run_def Let_def ty small16 intro!: ok_intros)
  next
    case 4
    then obtain a b where "ext_at (drop_bit 6 x) = Some a" "unat a < 65536" "ext_at (x AND 0x3f) = Some b" "unat b < 65536"
      using dok parts ext_at_ok [of "drop_bit 6 x"] ext_at_ok [of "x AND 0x3f"] by auto
    moreover have "c - run_code v + a < 0x110000" "c - run_code v + b < 0x110000" using off calculation by simp_all
    ultimately show ?thesis using 4 by (auto simp: case_conv_run_def Let_def ty small16 intro!: ok_intros)
  next
    case 5
    have "x < 0x110000" "x + 0x20 < 0x110000" using dl unat_small_add [OF dl, of "0x20" 64] by (simp_all add: word_less_nat_alt)
    then show ?thesis using 5 by (auto simp: case_conv_run_def Let_def ty small16 intro!: ok_intros)
  next
    case 6
    then obtain a where a: "ext_at x = Some a" "unat a < 65536" using dok ext_at_ok [of x] by auto
    then have "a + 1 < 0x110000" using unat_small_add [OF a(2), of 1 2] by simp
    then show ?thesis using 6 a by (auto simp: case_conv_run_def Let_def ty small16 intro!: ok_intros)
  next
    case 7
    then obtain a where "ext_at x = Some a" "unat a < 65536" using dok ext_at_ok [of x] by auto
    then show ?thesis using 7 by (auto simp: case_conv_run_def Let_def ty small16 intro!: ok_intros)
  next
    case 8
    then obtain a b where "ext_at (drop_bit 6 x) = Some a" "unat a < 65536" "ext_at (x AND 0x3f) = Some b" "unat b < 65536"
      using dok parts ext_at_ok [of "drop_bit 6 x"] ext_at_ok [of "x AND 0x3f"] by auto
    moreover have "c - run_code v + a < 0x110000" using off calculation by simp
    ultimately have "code_points_ok c [c - run_code v + a, b]" by (simp add: ok_small2 small16)
    moreover have "run_type v = 11 \<or> run_type v = 12" using 8 ty by simp
    ultimately show ?thesis
      using \<open>ext_at (drop_bit 6 x) = Some a\<close> \<open>ext_at (x AND 0x3f) = Some b\<close>
      by (cases "conv_type = run_type v - 11") (auto simp: case_conv_run_def Let_def ok_same)
  next
    case 9
    obtain a b e where "ext_at (drop_bit 8 x) = Some a" "unat a < 65536" "ext_at (drop_bit 4 x AND 0xf) = Some b"
        "unat b < 65536" "ext_at (x AND 0xf) = Some e" "unat e < 65536"
      using parts ext_at_ok [of "drop_bit 8 x"] ext_at_ok [of "drop_bit 4 x AND 0xf"] ext_at_ok [of "x AND 0xf"] by auto
    then show ?thesis using 9 by (auto simp: case_conv_run_def Let_def ty code_points_ok_def small16 ok_same)
  qed
  then show ?thesis unfolding x_def .
qed

text \<open>
  Claim C33. Case conversion is total on all 32-bit inputs and all three conversions: the binary
  search and the table indirections stay inside the tables, between one and three code points
  come out, and a code point of Unicode is converted to code points of Unicode.
\<close>

theorem lre_case_conv_bounds:
  "\<exists>rs. lre_case_conv c conv_type = Some rs \<and> 1 \<le> length rs \<and> length rs \<le> 3 \<and>
     (c < 0x110000 \<longrightarrow> (\<forall>x\<in>set rs. x < 0x110000))"
proof (cases "c < 128")
  case True
  then have c: "unat c < 128" by (simp add: word_less_nat_alt)
  have "unat (c - 0x41) < 128" if "c \<ge> 0x41" using that c by (subst unat_sub) auto
  then have "c - 0x41 + 0x61 < 0x110000" if "c \<ge> 0x41" using that unat_small_add [of "c - 0x41" 128 "0x61" 128] by simp
  moreover have "unat (c - 0x61) < 128" if "c \<ge> 0x61" using that c by (subst unat_sub) auto
  then have "c - 0x61 + 0x41 < 0x110000" if "c \<ge> 0x61" using that unat_small_add [of "c - 0x61" 128 "0x41" 128] by simp
  ultimately show ?thesis using True by (auto simp: lre_case_conv_def)
next
  case False
  obtain r where r: "case_conv_search case_conv_table1 c 0 (int (length case_conv_table1) - 1) = Some r"
      "case r of None \<Rightarrow> \<forall>v\<in>set case_conv_table1. \<not> in_run v c
       | Some (i, v) \<Rightarrow> i < length case_conv_table1 \<and> v = case_conv_table1 ! i \<and> in_run v c"
    using case_conv_search_table by blast
  show ?thesis
  proof (cases r)
    case None
    then show ?thesis using False r(1) by (simp add: lre_case_conv_def)
  next
    case (Some iv)
    then obtain i v where iv: "r = Some (i, v)" "i < 361" "v = case_conv_table1 ! i" "in_run v c"
      using r(2) by (cases iv) (auto simp: case_conv_lengths)
    then have "data_ok v (case_conv_table2 ! i)"
      using list_all2_nthD [OF case_conv_data, of i] by (simp add: case_conv_lengths)
    then show ?thesis
      using case_conv_run_ok [OF iv(4), of "case_conv_table2 ! i" conv_type] iv r(1) False
      by (auto simp: lre_case_conv_def rd_def case_conv_lengths code_points_ok_def)
  qed
qed


theorem lre_case_conv_bounds_witness:
  "\<exists>rs. lre_case_conv 0xdf 0 = Some rs \<and> 1 \<le> length rs \<and> length rs \<le> 3 \<and> (\<forall>x\<in>set rs. x < 0x110000)"
  using lre_case_conv_bounds [of "0xdf" 0] by simp

subsection \<open>Predicates\<close>

lemma property_index_lengths:
  "length unicode_prop_Cased1_index div 3 = 6" "length unicode_prop_Case_Ignorable_index div 3 = 22"
  "length unicode_prop_ID_Start_index div 3 = 33" "length unicode_prop_ID_Continue1_index div 3 = 20"
  by (simp_all add: unicode_prop_Cased1_index_def unicode_prop_Case_Ignorable_index_def
      unicode_prop_ID_Start_index_def unicode_prop_ID_Continue1_index_def)

text \<open>
  Claim C34. The four character predicates are decided for every 32-bit value, with every read
  inside the tables: the binary searches through the indexes and through the case table give the
  same answer as decoding the run-length tables from their start, and \<open>lre_is_cased\<close> is the
  union of the runs of the case table with its extra table.
\<close>

theorem unicode_predicates_decide:
  "lre_is_cased c = Some ((\<exists>v\<in>set case_conv_table1. in_run v c) \<or> table_mem unicode_prop_Cased1_table c) \<and>
   lre_is_case_ignorable c = Some (table_mem unicode_prop_Case_Ignorable_table c) \<and>
   lre_is_id_start c = Some (table_mem unicode_prop_ID_Start_table c) \<and>
   lre_is_id_continue c =
     Some (table_mem unicode_prop_ID_Start_table c \<or> table_mem unicode_prop_ID_Continue1_table c)"
proof (intro conjI)
  obtain r where r: "case_conv_search case_conv_table1 c 0 (int (length case_conv_table1) - 1) = Some r"
      "case r of None \<Rightarrow> \<forall>v\<in>set case_conv_table1. \<not> in_run v c
       | Some (i, v) \<Rightarrow> i < length case_conv_table1 \<and> v = case_conv_table1 ! i \<and> in_run v c"
    using case_conv_search_table by blast
  show "lre_is_cased c = Some ((\<exists>v\<in>set case_conv_table1. in_run v c) \<or> table_mem unicode_prop_Cased1_table c)"
    using r by (auto simp: lre_is_cased_def property_index_lengths cased1.lookup split: option.splits)
  show "lre_is_case_ignorable c = Some (table_mem unicode_prop_Case_Ignorable_table c)"
    by (simp add: lre_is_case_ignorable_def property_index_lengths case_ignorable.lookup)
  show s: "lre_is_id_start c = Some (table_mem unicode_prop_ID_Start_table c)"
    by (simp add: lre_is_id_start_def property_index_lengths id_start.lookup)
  show "lre_is_id_continue c =
      Some (table_mem unicode_prop_ID_Start_table c \<or> table_mem unicode_prop_ID_Continue1_table c)"
    by (simp add: lre_is_id_continue_def s property_index_lengths id_continue1.lookup)
qed

end
