(* ===== verification/Unicode_Case_Set.thy ===== *)
theory Unicode_Case_Set
  imports Unicode_Decode Unicode_Case
begin

text \<open>
  \<open>unicode_case1\<close> of \<open>libunicode.c\<close>: the set of characters that a case conversion changes, read off
  the run types of the conversion table. The comment above the function promises exactly the
  characters modified by upper-casing, lower-casing or case folding; the theorem at the end
  proves that against \<open>lre_case_conv\<close>, for all masks and all code points.
\<close>

subsection \<open>Definitions\<close>

definition tab_run_mask :: "u32 list" where
  "tab_run_mask =
     [push_bit 0 1 OR push_bit 2 1 OR push_bit 4 1 OR push_bit 5 1 OR push_bit 6 1 OR push_bit 7 1 OR
      push_bit 8 1 OR push_bit 9 1 OR push_bit 11 1 OR push_bit 13 1,
      push_bit 1 1 OR push_bit 3 1 OR push_bit 4 1 OR push_bit 5 1 OR push_bit 6 1 OR push_bit 10 1 OR push_bit 12 1,
      push_bit 2 1 OR push_bit 3 1 OR push_bit 4 1 OR push_bit 5 1 OR push_bit 6 1 OR push_bit 10 1 OR
      push_bit 7 1 OR push_bit 8 1 OR push_bit 10 1]"

definition CASE_U :: u32 where "CASE_U = push_bit 0 1"
definition CASE_L :: u32 where "CASE_L = push_bit 1 1"
definition CASE_F :: u32 where "CASE_F = push_bit 2 1"

definition case1_mask :: "u32 \<Rightarrow> u32" where
  "case1_mask case_mask =
     foldl (\<lambda>mask i. if drop_bit i case_mask AND 1 \<noteq> 0 then mask OR tab_run_mask ! i else mask) 0 [0, 1, 2]"

text \<open>Every other character of a run of upper-case and lower-case pairs.\<close>

partial_function (option) case1_pairs :: "'h CharRange \<Rightarrow> u32 \<Rightarrow> u32 \<Rightarrow> u32 \<Rightarrow> (int \<times> 'h CharRange) option" where
  "case1_pairs cr code len i =
     (if i < len then
        do { (r, cr) \<leftarrow> cr_add_interval cr (code + i) (code + i + 1);
             if r \<noteq> 0 then Some (-1, cr) else case1_pairs cr code len (i + 2) }
      else Some (0, cr))"

definition case1_entry :: "'h CharRange \<Rightarrow> u32 \<Rightarrow> u32 \<Rightarrow> (int \<times> 'h CharRange) option" where
  "case1_entry cr case_mask v =
     (let type = run_type v; code = run_code v; len = run_len v;
          both = (case_mask AND CASE_U \<noteq> 0 \<and> case_mask AND (CASE_L OR CASE_F) \<noteq> 0) in
      if type = 4 \<and> \<not> both then
        case1_pairs cr (code + (if case_mask AND CASE_U \<noteq> 0 then 1 else 0)) len 0
      else if type = 5 \<and> \<not> both then
        do {
          (r, cr) \<leftarrow> (if \<not> case_mask AND CASE_U \<noteq> 0 then cr_add_interval cr code (code + 1) else Some (0, cr));
          if r \<noteq> 0 then Some (-1, cr)
          else do {
            (r, cr) \<leftarrow> cr_add_interval cr (code + 1) (code + 2);
            if r \<noteq> 0 then Some (-1, cr)
            else if case_mask AND CASE_U \<noteq> 0 then cr_add_interval cr (code + 2) (code + 3)
            else Some (0, cr)
          }
        }
      else cr_add_interval cr code (code + len))"

fun case1_loop :: "'h CharRange \<Rightarrow> u32 \<Rightarrow> u32 \<Rightarrow> u32 list \<Rightarrow> (int \<times> 'h CharRange) option" where
  "case1_loop cr case_mask run_mask [] = Some (0, cr)"
| "case1_loop cr case_mask run_mask (v # tab) =
     do {
       (r, cr) \<leftarrow>
         (if drop_bit (unat (run_type v)) run_mask AND 1 \<noteq> 0 then case1_entry cr case_mask v else Some (0, cr));
       if r \<noteq> 0 then Some (-1, cr) else case1_loop cr case_mask run_mask tab
     }"

definition unicode_case1 :: "'h CharRange \<Rightarrow> u32 \<Rightarrow> (int \<times> 'h CharRange) option" where
  "unicode_case1 cr case_mask =
     (if case_mask = 0 then Some (0, cr) else case1_loop cr case_mask (case1_mask case_mask) case_conv_table1)"

subsection \<open>The table changes what it says it changes\<close>

text \<open>
  A run of a one-to-one type never maps to itself, since its data is the index of another run;
  runs of pairs have even length, runs of three characters length three, and the exceptional
  types cover one character that is different from its image.
\<close>

definition mod_ok :: "nat \<Rightarrow> u32 \<Rightarrow> u8 \<Rightarrow> bool" where
  "mod_ok i v d =
     (let n = unat v; code = n div 32768; len = n div 256 mod 128; type = n div 16 mod 16;
          data = n mod 16 * 256 + unat d in
      if len = 0 then False
      else if type \<le> 3 then data \<noteq> i
      else if type = 4 then even len
      else if type = 5 then len = 3
      else if type = 6 then unat (case_conv_ext ! (data mod 64)) \<noteq> code
      else if type = 7 then len = 1 \<and> data \<noteq> code \<and> data + 32 \<noteq> code
      else if type = 8 then len = 1 \<and> unat (case_conv_ext ! data) \<noteq> code \<and> unat (case_conv_ext ! data) + 1 \<noteq> code
      else if type = 9 \<or> type = 10 then len = 1 \<and> unat (case_conv_ext ! data) \<noteq> code
      else type \<le> 13)"

fun mod_check :: "nat \<Rightarrow> u32 list \<Rightarrow> u8 list \<Rightarrow> bool" where
  "mod_check i [] [] = True"
| "mod_check i (v # vs) (d # ds) = (mod_ok i v d \<and> mod_check (i + 1) vs ds)"
| "mod_check i _ _ = False"

lemma mod_check_append:
  "length vs = length ds \<Longrightarrow>
   mod_check i (vs @ vs') (ds @ ds') \<longleftrightarrow> mod_check i vs ds \<and> mod_check (i + length vs) vs' ds'"
  by (induction i vs ds rule: mod_check.induct) auto

lemma mod_check_nth: "mod_check i vs ds \<Longrightarrow> j < length vs \<Longrightarrow> mod_ok (i + j) (vs ! j) (ds ! j)"
proof (induction i vs ds arbitrary: j rule: mod_check.induct)
  case (2 i v vs d ds)
  show ?case using "2.prems" "2.IH" [of "j - 1"] by (cases j) auto
qed auto

lemma case_conv_mod_chunks:
    "mod_check 0 case_conv_table1_0 case_conv_table2_0"
    "mod_check 52 case_conv_table1_1 case_conv_table2_1"
    "mod_check 104 case_conv_table1_2 case_conv_table2_2"
    "mod_check 156 case_conv_table1_3 case_conv_table2_3"
    "mod_check 208 case_conv_table1_4 case_conv_table2_4"
    "mod_check 260 case_conv_table1_5 case_conv_table2_5"
    "mod_check 312 case_conv_table1_6 case_conv_table2_6"
  by (simp_all add: mod_ok_def Let_def case_conv_ext_def
      case_conv_table1_0_def case_conv_table1_1_def case_conv_table1_2_def case_conv_table1_3_def case_conv_table1_4_def case_conv_table1_5_def case_conv_table1_6_def
      case_conv_table2_0_def case_conv_table2_1_def case_conv_table2_2_def case_conv_table2_3_def case_conv_table2_4_def case_conv_table2_5_def case_conv_table2_6_def)


lemma case_conv_mod: "mod_check 0 case_conv_table1 case_conv_table2"
proof -
  have "length case_conv_table1_0 = 52" "length case_conv_table1_1 = 52" "length case_conv_table1_2 = 52"
    "length case_conv_table1_3 = 52" "length case_conv_table1_4 = 52" "length case_conv_table1_5 = 52"
    "length case_conv_table2_0 = 52" "length case_conv_table2_1 = 52" "length case_conv_table2_2 = 52"
    "length case_conv_table2_3 = 52" "length case_conv_table2_4 = 52" "length case_conv_table2_5 = 52"
    by (simp_all add: case_conv_table1_0_def case_conv_table1_1_def case_conv_table1_2_def case_conv_table1_3_def
        case_conv_table1_4_def case_conv_table1_5_def case_conv_table2_0_def case_conv_table2_1_def
        case_conv_table2_2_def case_conv_table2_3_def case_conv_table2_4_def case_conv_table2_5_def)
  then show ?thesis
    using case_conv_mod_chunks unfolding case_conv_table1_def case_conv_table2_def by (simp add: mod_check_append)
qed

subsection \<open>The intervals of the loop\<close>

definition case_sel :: "u32 \<Rightarrow> nat \<Rightarrow> bool" where
  "case_sel cm t \<longleftrightarrow> (\<exists>k<3. bit cm k \<and> bit (tab_run_mask ! k) t)"

definition entry_ivs :: "u32 \<Rightarrow> u32 \<Rightarrow> (nat \<times> nat) list" where
  "entry_ivs cm v =
     (let type = unat (run_type v); code = unat (run_code v); len = unat (run_len v);
          u = bit cm 0; both = (u \<and> (bit cm 1 \<or> bit cm 2)) in
      if \<not> case_sel cm type then []
      else if type = 4 \<and> \<not> both then alt_ivs (code + of_bool u) (code + of_bool u + len)
      else if type = 5 \<and> \<not> both then
        (if u then [] else [(code, code + 1)]) @ [(code + 1, code + 2)] @ (if u then [(code + 2, code + 3)] else [])
      else [(code, code + len)])"

lemma CASE_tests:
  fixes m :: u32
  shows "m AND CASE_U \<noteq> 0 \<longleftrightarrow> bit m 0" "m AND (CASE_L OR CASE_F) \<noteq> 0 \<longleftrightarrow> bit m 1 \<or> bit m 2"
proof -
  have L: "bit CASE_U n \<longleftrightarrow> n = 0" "bit CASE_L n \<longleftrightarrow> n = 1" "bit CASE_F n \<longleftrightarrow> n = 2" for n
    unfolding CASE_U_def CASE_L_def CASE_F_def bit_push_bit_iff bit_1_iff by auto
  show "m AND CASE_U \<noteq> 0 \<longleftrightarrow> bit m 0" by (auto simp: bit_eq_iff [where 'a = u32] bit_and_iff L)
  show "m AND (CASE_L OR CASE_F) \<noteq> 0 \<longleftrightarrow> bit m 1 \<or> bit m 2"
    by (auto simp: bit_eq_iff [where 'a = u32] bit_and_iff bit_or_iff L intro: exI [of _ "Suc 0"] exI [of _ 2])
qed

lemma bit_case1_mask: "bit (case1_mask cm) t \<longleftrightarrow> case_sel cm t"
proof -
  have "(\<exists>k<3. P k) \<longleftrightarrow> P 0 \<or> P 1 \<or> P (2 :: nat)" for P
    by (auto simp: numeral_3_eq_3 less_Suc_eq numeral_2_eq_2)
  then show ?thesis
    by (auto simp: case1_mask_def case_sel_def bit_tests(4) bit_or_iff simp del: One_nat_def)
qed

lemma case1_pairs_ivs:
  fixes cr :: "'h CharRange"
  shows "code + len < 2 ^ 31 \<Longrightarrow> i \<le> len + 1 \<Longrightarrow>
   case1_pairs cr (of_nat code) (of_nat len) (of_nat i) = add_all cr (alt_ivs (code + i) (code + len))"
proof (induction "len + 1 - i" arbitrary: i cr rule: less_induct)
  case less
  have lt: "(of_nat i :: u32) < of_nat len \<longleftrightarrow> i < len"
    using less.prems by (simp add: word_less_nat_alt unsigned_of_nat take_bit_nat_eq_self)
  show ?case
  proof (cases "i < len")
    case False
    then show ?thesis by (subst case1_pairs.simps, subst alt_ivs.simps) (simp add: lt)
  next
    case True
    have IH: "case1_pairs cr (of_nat code) (of_nat len) (of_nat (i + 2)) = add_all cr (alt_ivs (code + i + 2) (code + len))"
      for cr :: "'h CharRange"
      using less.hyps [of "i + 2" cr] less.prems True by (simp add: add.assoc)
    have two: "case1_pairs cr (of_nat code) (of_nat len) (of_nat i + 2) = add_all cr (alt_ivs (code + i + 2) (code + len))"
      for cr :: "'h CharRange"
      using IH [of cr] by (simp add: add.commute)
    have e: "alt_ivs (code + i) (code + len) = (code + i, code + i + 1) # alt_ivs (code + i + 2) (code + len)"
      using True by (subst alt_ivs.simps) simp
    show ?thesis
      unfolding e by (subst case1_pairs.simps) (simp only: lt True two add_all.simps of_nat_add of_nat_1 if_True cong: if_cong)
  qed
qed

lemma add_interval_id:
  "cr_add_interval cr a b \<bind> (\<lambda>(r, cr). if r \<noteq> 0 then Some (-1, cr) else Some (0, cr)) = cr_add_interval cr a b"
  by (auto split: Option.bind_split dest: cr_add_interval_ret)

lemma case1_entry_ivs:
  assumes "case_sel cm (unat (run_type v))"
  shows "case1_entry cr cm v = add_all cr (entry_ivs cm v)"
proof -
  let ?c = "unat (run_code v)" and ?l = "unat (run_len v)"
  let ?both = "bit cm 0 \<and> (bit cm 1 \<or> bit cm 2)"
  have ty: "run_type v = 4 \<longleftrightarrow> unat (run_type v) = 4" "run_type v = 5 \<longleftrightarrow> unat (run_type v) = 5"
    by (simp_all add: u32_eq_iff)
  have b: "?c + 1 + ?l < 2 ^ 31" using run_code_less [of v] unat_run_len [of v] by simp
  have pairs: "case1_pairs cr (run_code v + (if u then 1 else 0)) (run_len v) 0 =
      add_all cr (alt_ivs (?c + of_bool u) (?c + of_bool u + ?l))" for u
    using case1_pairs_ivs [of "?c + of_bool u" ?l 0 cr] b by (cases u) (simp_all add: add.commute)
  consider "unat (run_type v) = 4" "\<not> ?both" | "unat (run_type v) = 5" "\<not> ?both" "bit cm 0"
    | "unat (run_type v) = 5" "\<not> ?both" "\<not> bit cm 0"
    | "\<not> (unat (run_type v) = 4 \<and> \<not> ?both)" "\<not> (unat (run_type v) = 5 \<and> \<not> ?both)" by blast
  then show ?thesis
  proof cases
    case 1
    then show ?thesis
      unfolding case1_entry_def entry_ivs_def Let_def CASE_tests ty pairs using assms by simp
  next
    case 2
    then show ?thesis
      unfolding case1_entry_def entry_ivs_def Let_def CASE_tests ty using assms
      by (simp add: add_interval_id add.commute cong: if_cong)
  next
    case 3
    then show ?thesis
      unfolding case1_entry_def entry_ivs_def Let_def CASE_tests ty using assms
      by (simp add: add_interval_id add.commute cong: if_cong)
  next
    case 4
    then show ?thesis
      unfolding case1_entry_def entry_ivs_def Let_def CASE_tests ty if_not_P [OF 4(1)] if_not_P [OF 4(2)]
      using assms by (simp add: add_interval_id cong: if_cong)
  qed
qed

lemma case1_loop_ivs: "case1_loop cr cm (case1_mask cm) tab = add_all cr (concat (map (entry_ivs cm) tab))"
proof (induction tab arbitrary: cr)
  case (Cons v tab)
  have "entry_ivs cm v = []" if "\<not> case_sel cm (unat (run_type v))" using that by (simp add: entry_ivs_def Let_def)
  then show ?case
    by (auto simp: bit_tests(4) bit_case1_mask case1_entry_ivs add_all_append Cons.IH cong: if_cong)
qed simp

subsection \<open>What a run changes\<close>

text \<open>
  The conversions (0 to upper, 1 to lower, 2 folding) that change the character at distance \<open>k\<close>
  from the start of a run, by the type of the run.
\<close>

definition changes :: "nat \<Rightarrow> nat \<Rightarrow> nat \<Rightarrow> bool" where
  "changes type k ct =
     (if type = 0 then ct = 0
      else if type = 1 then ct = 1
      else if type = 2 \<or> type = 7 \<or> type = 8 then ct \<noteq> 1
      else if type = 3 \<or> type = 10 then ct \<noteq> 0
      else if type = 4 then (if ct = 0 then odd k else even k)
      else if type = 5 then (if ct = 0 then k = 1 \<or> k = 2 else k = 0 \<or> k = 1)
      else if type = 6 then True
      else if type = 12 then ct = 1
      else ct = 0)"

lemma less3: "(\<exists>k<3. P k) \<longleftrightarrow> P 0 \<or> P 1 \<or> P (2 :: nat)"
  by (auto simp: numeral_3_eq_3 less_Suc_eq numeral_2_eq_2)

lemma tab_run_mask_bits:
  "bit (tab_run_mask ! 0) t \<longleftrightarrow> t \<in> {0, 2, 4, 5, 6, 7, 8, 9, 11, 13}"
  "bit (tab_run_mask ! 1) t \<longleftrightarrow> t \<in> {1, 3, 4, 5, 6, 10, 12}"
  "bit (tab_run_mask ! 2) t \<longleftrightarrow> t \<in> {2, 3, 4, 5, 6, 7, 8, 10}"
proof -
  have p: "bit (push_bit n 1 :: u32) t \<longleftrightarrow> t = n" if "n < 32" for n
    using that unfolding bit_push_bit_iff bit_1_iff by auto
  show "bit (tab_run_mask ! 0) t \<longleftrightarrow> t \<in> {0, 2, 4, 5, 6, 7, 8, 9, 11, 13}"
    unfolding tab_run_mask_def nth_Cons_0 bit_or_iff by (simp only: p) auto
  show "bit (tab_run_mask ! 1) t \<longleftrightarrow> t \<in> {1, 3, 4, 5, 6, 10, 12}"
    unfolding tab_run_mask_def One_nat_def nth_Cons_Suc nth_Cons_0 bit_or_iff by (simp only: p) auto
  show "bit (tab_run_mask ! 2) t \<longleftrightarrow> t \<in> {2, 3, 4, 5, 6, 7, 8, 10}"
    unfolding tab_run_mask_def numeral_2_eq_2 nth_Cons_Suc nth_Cons_0 bit_or_iff by (simp only: p) auto
qed

lemma alt_ivs_trim: "even n \<Longrightarrow> alt_ivs a (a + n) = alt_ivs a (a + n - 1)"
proof (elim evenE)
  fix j assume "n = 2 * j"
  moreover have "alt_ivs a (a + 2 * j) = alt_ivs a (a + 2 * j - 1)"
  proof (induction j arbitrary: a)
    case 0
    then show ?case by (subst (1 2) alt_ivs.simps) simp
  next
    case (Suc j)
    have "alt_ivs (a + 2) (a + 2 * Suc j) = alt_ivs (a + 2) (a + 2 * Suc j - 1)"
      using Suc [of "a + 2"] by (simp add: add.commute)
    then show ?case by (subst (1 2) alt_ivs.simps) simp
  qed
  ultimately show ?thesis by simp
qed

lemma mod_okD:
  assumes "mod_ok i v d"
  shows "unat (run_type v) \<le> 13" "0 < unat (run_len v)"
    "unat (run_type v) \<le> 3 \<Longrightarrow> unat (run_data v d) \<noteq> i"
    "unat (run_type v) = 4 \<Longrightarrow> even (unat (run_len v))"
    "unat (run_type v) = 5 \<Longrightarrow> unat (run_len v) = 3"
    "unat (run_type v) = 6 \<Longrightarrow> unat (case_conv_ext ! (unat (run_data v d) mod 64)) \<noteq> unat (run_code v)"
    "unat (run_type v) = 7 \<Longrightarrow> unat (run_len v) = 1 \<and> unat (run_data v d) \<noteq> unat (run_code v) \<and>
       unat (run_data v d) + 32 \<noteq> unat (run_code v)"
    "unat (run_type v) = 8 \<Longrightarrow> unat (run_len v) = 1 \<and> unat (case_conv_ext ! unat (run_data v d)) \<noteq> unat (run_code v) \<and>
       unat (case_conv_ext ! unat (run_data v d)) + 1 \<noteq> unat (run_code v)"
    "unat (run_type v) = 9 \<or> unat (run_type v) = 10 \<Longrightarrow>
       unat (run_len v) = 1 \<and> unat (case_conv_ext ! unat (run_data v d)) \<noteq> unat (run_code v)"
  using assms unfolding mod_ok_def Let_def unat_run_code unat_run_len unat_run_type unat_run_data
  by (auto split: if_splits)

lemma entry_ivs_points:
  assumes ok: "mod_ok i v d" and p: "p \<in> set (iv_points (entry_ivs cm v))"
  shows "unat (run_code v) \<le> p \<and> p \<le> unat (run_code v) + unat (run_len v)"
proof -
  let ?c = "unat (run_code v)" and ?l = "unat (run_len v)"
  have "alt_ivs (?c + 1) (?c + 1 + ?l) = alt_ivs (?c + 1) (?c + ?l)" if "unat (run_type v) = 4"
    using alt_ivs_trim [OF mod_okD(4) [OF ok that], of "?c + 1"] by simp
  then show ?thesis
    using p mod_okD(2,5) [OF ok]
    by (auto simp: entry_ivs_def Let_def of_bool_def dest!: alt_ivs_points split: if_splits)
qed

lemma entry_ivs_sorted: "sorted (iv_points (entry_ivs cm v))"
  by (auto simp: entry_ivs_def Let_def alt_ivs_sorted)

lemma entry_ivs_mem:
  assumes ok: "mod_ok i v d" and k: "k < unat (run_len v)"
  shows "iv_mem (entry_ivs cm v) (unat (run_code v) + k) \<longleftrightarrow>
     (\<exists>ct<3. bit cm ct \<and> changes (unat (run_type v)) k ct)"
proof -
  define t where "t = unat (run_type v)"
  have "t \<le> 13" using mod_okD(1) [OF ok] by (simp add: t_def)
  then have "t = 0 \<or> t = 1 \<or> t = 2 \<or> t = 3 \<or> t = 4 \<or> t = 5 \<or> t = 6 \<or> t = 7 \<or> t = 8 \<or> t = 9 \<or> t = 10
      \<or> t = 11 \<or> t = 12 \<or> t = 13" by presburger
  then consider "t = 4" | "t = 5" | "t \<noteq> 4" "t \<noteq> 5" "t = 0 \<or> t = 1 \<or> t = 2 \<or> t = 3 \<or> t = 6 \<or> t = 7 \<or> t = 8
      \<or> t = 9 \<or> t = 10 \<or> t = 11 \<or> t = 12 \<or> t = 13" by blast
  then show ?thesis
  proof cases
    case 1
    then show ?thesis
      using k by (auto simp: entry_ivs_def Let_def t_def [symmetric] case_sel_def less3 tab_run_mask_bits
          tab_run_mask_bits(2) [unfolded One_nat_def] changes_def alt_ivs_mem Suc_le_eq odd_pos)
  next
    case 2
    then have "k = 0 \<or> k = 1 \<or> k = 2" using k mod_okD(5) [OF ok] by (auto simp: t_def)
    then show ?thesis
      using 2 k by (auto simp: entry_ivs_def Let_def t_def [symmetric] case_sel_def less3 tab_run_mask_bits
          tab_run_mask_bits(2) [unfolded One_nat_def] changes_def)
  next
    case 3
    then have "iv_mem (entry_ivs cm v) (unat (run_code v) + k) \<longleftrightarrow> case_sel cm t"
      using k by (simp add: entry_ivs_def Let_def t_def [symmetric])
    then show ?thesis
      using 3(3) unfolding t_def [symmetric] case_sel_def less3 tab_run_mask_bits
      by (elim disjE) (simp_all add: changes_def)
  qed
qed

lemma ext_at_eq: "unat i < 58 \<Longrightarrow> ext_at i = Some (ucast (case_conv_ext ! unat i))"
  by (simp add: ext_at_def case_conv_lengths)

lemma runs_distinct:
  assumes "i < length case_conv_table1" "j < length case_conv_table1" "i \<noteq> j"
  shows "run_code (case_conv_table1 ! i) \<noteq> run_code (case_conv_table1 ! j)"
proof -
  obtain q where q: "runs_check 0 case_conv_table1 = Some q" using case_conv_runs by blast
  have pos: "0 < unat (run_len (case_conv_table1 ! k))" if "k < length case_conv_table1" for k
    using mod_okD(2) mod_check_nth [OF case_conv_mod that] by blast
  have "unat (run_code (case_conv_table1 ! i)) \<noteq> unat (run_code (case_conv_table1 ! j))"
    using assms runs_check_sorted [OF q, of i j] runs_check_sorted [OF q, of j i] pos [of i] pos [of j]
    by (cases "i < j") auto
  then show ?thesis by auto
qed

lemma conv_changes:
  assumes r: "in_run v c" and i: "v = case_conv_table1 ! i" "i < length case_conv_table1"
    and ok: "mod_ok i v d" and d: "data_ok v d"
    and ct: "ct = 0 \<or> ct = 1 \<or> ct = 2"
  shows "case_conv_run v (run_data v d) c (of_nat ct) \<noteq> Some [c] \<longleftrightarrow>
     changes (unat (run_type v)) (unat c - unat (run_code v)) ct"
proof -
  define t where "t = unat (run_type v)"
  define x where "x = run_data v d"
  define k where "k = c - run_code v"
  have c: "c = run_code v + k" by (simp add: k_def)
  have k: "unat k = unat c - unat (run_code v)" "unat k < unat (run_len v)"
    using run_offset(2) [OF r] r unfolding k_def by (auto simp: in_run_nat)
  have dl: "unat x < 4096" using unat_bounds(1) [of d] by (simp add: x_def unat_run_data)
  have parts: "unat (drop_bit 6 x) = unat x div 64" "unat (x AND 0x3f) = unat x mod 64"
      "unat (drop_bit 8 x) < 16" "unat (drop_bit 4 x AND 0xf) < 16" "unat (x AND 0xf) < 16"
    using unat_field [of 0 x 6] unat_field [of 4 x 4] unat_field [of 0 x 4] unat_shr [of 6 x] unat_shr [of 8 x] dl
    by (auto simp: mask_eq_exp_minus_1)
  have dok: "if t \<le> 3 then unat x < 361
      else if t = 6 \<or> t = 11 \<or> t = 12 then unat x div 64 < 58 \<and> unat x mod 64 < 58
      else if t = 8 \<or> t = 9 \<or> t = 10 then unat x < 58 else True"
    using d by (simp add: data_ok_def Let_def unat_run_type x_def t_def unat_run_data)
  have "t \<le> 13" using mod_okD(1) [OF ok] by (simp add: t_def)
  then have tt: "t = 0 \<or> t = 1 \<or> t = 2 \<or> t = 3 \<or> t = 4 \<or> t = 5 \<or> t = 6 \<or> t = 7 \<or> t = 8 \<or> t = 9 \<or> t = 10
      \<or> t = 11 \<or> t = 12 \<or> t = 13" by presburger
  have ty: "run_type v = of_nat t" by (simp add: t_def)
  have ext: "unat (ucast e :: u32) = unat e" for e :: u16
    using unat_bounds(2) [of e] by (simp add: unsigned_ucast_eq take_bit_nat_eq_self)
  consider "t \<le> 3" | "t = 4" | "t = 5" | "t = 6" | "t = 7" | "t = 8" | "t = 9 \<or> t = 10" | "t = 11 \<or> t = 12" | "t = 13"
    using tt by linarith
  then have "case_conv_run v x c (of_nat ct) \<noteq> Some [c] \<longleftrightarrow> changes t (unat k) ct"
  proof cases
    case 1
    have "run_code (case_conv_table1 ! unat x) \<noteq> run_code v"
      using 1 dok mod_okD(3) [OF ok] i runs_distinct [of "unat x" i] by (simp add: t_def x_def case_conv_lengths)
    then have "Some [k + run_code (case_conv_table1 ! unat x)] \<noteq> Some [c]" by (auto simp: c)
    moreover have "rd case_conv_table1 (unat x) = Some (case_conv_table1 ! unat x)" using 1 dok by (simp add: case_conv_lengths)
    moreover have "t = 0 \<or> t = 1 \<or> t = 2 \<or> t = 3" using 1 tt by linarith
    ultimately show ?thesis
      using ct by (elim disjE) (simp_all add: case_conv_run_def Let_def ty changes_def k_def [symmetric] word_le_nat_alt)
  next
    case 2
    have "odd (unat k) \<longleftrightarrow> bit k 0" by (simp add: bit_unsigned_iff flip: bit_0)
    then have "k AND 1 = (if odd (unat k) then 1 else 0)"
      by (auto simp: bit_eq_iff [where 'a = u32] bit_and_iff bit_1_iff intro!: gr0I)
    moreover have "bit (k XOR 1) 0 \<noteq> bit k 0" by (simp add: bit_xor_iff)
    then have "(k XOR 1) + run_code v \<noteq> c" by (auto simp: c)
    ultimately show ?thesis
      using ct 2 by (elim disjE) (simp_all add: case_conv_run_def Let_def ty changes_def k_def [symmetric])
  next
    case 3
    have "c + 1 \<noteq> c" "c + 2 \<noteq> c" "c - 1 \<noteq> c" "c - 2 \<noteq> c" by simp_all
    moreover have "k = 0 \<longleftrightarrow> unat k = 0" "k = 1 \<longleftrightarrow> unat k = 1" "k = 2 \<longleftrightarrow> unat k = 2" by (simp_all add: u32_eq_iff)
    ultimately show ?thesis
      using ct 3 by (elim disjE) (simp_all add: case_conv_run_def Let_def ty changes_def k_def [symmetric])
  next
    case 4
    have "ext_at (drop_bit 6 x) = Some (ucast (case_conv_ext ! (unat x div 64)))"
        "ext_at (x AND 0x3f) = Some (ucast (case_conv_ext ! (unat x mod 64)))"
      using 4 dok parts by (simp_all add: ext_at_eq)
    moreover have "ucast (case_conv_ext ! (unat x mod 64)) \<noteq> run_code v"
      using mod_okD(6) [OF ok] 4 by (simp add: t_def x_def u32_eq_iff ext)
    then have "k + ucast (case_conv_ext ! (unat x mod 64)) \<noteq> c" by (auto simp: c)
    ultimately show ?thesis
      using ct 4 by (elim disjE) (simp_all add: case_conv_run_def Let_def ty changes_def k_def [symmetric])
  next
    case 5
    then have "k = 0" using k mod_okD(7) [OF ok] by (simp add: t_def u32_eq_iff)
    then have "c = run_code v" by (simp add: c)
    moreover have "unat (x + 0x20) = unat x + 32" using dl by (simp add: unat_word_ariths)
    ultimately have "x \<noteq> c" "x + 0x20 \<noteq> c"
      using mod_okD(7) [OF ok] 5 by (auto simp: t_def x_def u32_eq_iff)
    then show ?thesis
      using ct 5 by (elim disjE) (simp_all add: case_conv_run_def Let_def ty changes_def)
  next
    case 6
    let ?e = "ucast (case_conv_ext ! unat x) :: u32"
    have "k = 0" using 6 k mod_okD(8) [OF ok] by (simp add: t_def u32_eq_iff)
    then have "c = run_code v" by (simp add: c)
    moreover have "unat (?e + 1) = unat ?e + 1"
      using unat_bounds(2) [of "case_conv_ext ! unat x"] by (simp add: unat_word_ariths ext)
    ultimately have "?e \<noteq> c" "?e + 1 \<noteq> c"
      using mod_okD(8) [OF ok] 6 by (auto simp: t_def x_def u32_eq_iff ext)
    moreover have "ext_at x = Some ?e" using 6 dok by (simp add: ext_at_eq)
    ultimately show ?thesis
      using ct 6 by (elim disjE) (simp_all add: case_conv_run_def Let_def ty changes_def)
  next
    case 7
    let ?e = "ucast (case_conv_ext ! unat x) :: u32"
    have "k = 0" using 7 k mod_okD(9) [OF ok] by (auto simp: t_def u32_eq_iff)
    then have "c = run_code v" by (simp add: c)
    then have "?e \<noteq> c" using mod_okD(9) [OF ok] 7 by (auto simp: t_def x_def u32_eq_iff ext)
    moreover have "ext_at x = Some ?e" using 7 dok by (auto simp: ext_at_eq)
    ultimately show ?thesis
      using ct 7 by (elim disjE) (simp_all add: case_conv_run_def Let_def ty changes_def)
  next
    case 8
    have "ext_at (drop_bit 6 x) = Some (ucast (case_conv_ext ! (unat x div 64)))"
        "ext_at (x AND 0x3f) = Some (ucast (case_conv_ext ! (unat x mod 64)))"
      using 8 dok parts by (auto simp: ext_at_eq)
    then show ?thesis
      using ct 8 by (elim disjE) (simp_all add: case_conv_run_def Let_def ty changes_def)
  next
    case 9
    obtain a b e where "ext_at (drop_bit 8 x) = Some a" "ext_at (drop_bit 4 x AND 0xf) = Some b" "ext_at (x AND 0xf) = Some e"
      using parts ext_at_ok [of "drop_bit 8 x"] ext_at_ok [of "drop_bit 4 x AND 0xf"] ext_at_ok [of "x AND 0xf"] by auto
    then show ?thesis
      using ct 9 by (elim disjE) (simp_all add: case_conv_run_def Let_def ty changes_def word_le_nat_alt)
  qed
  then show ?thesis unfolding t_def x_def k(1) .
qed

subsection \<open>The whole table\<close>

lemma table_ivs_sorted:
  "runs_check p vs = Some q \<Longrightarrow> mod_check i vs ds \<Longrightarrow>
   sorted (iv_points (concat (map (entry_ivs cm) vs))) \<and>
   (\<forall>x\<in>set (iv_points (concat (map (entry_ivs cm) vs))). p \<le> x \<and> x \<le> 131072 + 128)"
proof (induction i vs ds arbitrary: p rule: mod_check.induct)
  case (2 i v vs d ds)
  have p: "p \<le> unat (run_code v)"
      and r: "runs_check (unat (run_code v) + unat (run_len v)) vs = Some q"
    using "2.prems"(1) by (auto simp: Let_def unat_run_code unat_run_len split: if_splits)
  have ok: "mod_ok i v d" and IH: "sorted (iv_points (concat (map (entry_ivs cm) vs)))"
      "\<forall>x\<in>set (iv_points (concat (map (entry_ivs cm) vs))). unat (run_code v) + unat (run_len v) \<le> x \<and> x \<le> 131072 + 128"
    using "2.IH" [OF r] "2.prems"(2) by auto
  have "unat (run_len v) < 128" by (simp add: unat_run_len)
  then show ?case
    using IH p run_code_less [of v] entry_ivs_points [OF ok, of _ cm]
    by (fastforce simp: sorted_append entry_ivs_sorted)
qed auto

lemma entry_ivs_length: "length (entry_ivs cm v) \<le> 127"
proof -
  have "unat (run_len v) \<le> 127" by (simp add: unat_run_len less_Suc_eq_le [symmetric])
  then show ?thesis
    using alt_ivs_length [of "unat (run_code v)" "unat (run_code v) + unat (run_len v)"]
      alt_ivs_length [of "Suc (unat (run_code v))" "Suc (unat (run_code v) + unat (run_len v))"]
    by (auto simp: entry_ivs_def Let_def of_bool_def)
qed

lemma table_ivs_length: "length (concat (map (entry_ivs cm) vs)) \<le> 127 * length vs"
proof (induction vs)
  case (Cons v vs)
  then show ?case using entry_ivs_length [of cm v] by simp
qed simp

lemma iv_mem_points: "iv_mem ivs x \<Longrightarrow> \<exists>a b. a \<in> set (iv_points ivs) \<and> b \<in> set (iv_points ivs) \<and> a \<le> x \<and> x < b"
proof -
  assume "iv_mem ivs x"
  then obtain a b where ab: "(a, b) \<in> set ivs" "a \<le> x" "x < b" by (auto simp: iv_mem_def)
  then have "a \<in> set (iv_points ivs)" "b \<in> set (iv_points ivs)" by (auto simp: iv_points_def intro: bexI [of _ "(a, b)"])
  then show ?thesis using ab by blast
qed

lemma iv_mem_concat: "iv_mem (concat (map f vs)) x \<longleftrightarrow> (\<exists>i<length vs. iv_mem (f (vs ! i)) x)"
proof -
  have "iv_mem (concat (map f vs)) x \<longleftrightarrow> (\<exists>v\<in>set vs. iv_mem (f v) x)" by (induction vs) auto
  then show ?thesis by (metis in_set_conv_nth)
qed

lemma table_ivs_mem:
  "iv_mem (concat (map (entry_ivs cm) case_conv_table1)) (unat c) \<longleftrightarrow>
   (\<exists>i<length case_conv_table1. in_run (case_conv_table1 ! i) c \<and>
      (\<exists>ct<3. bit cm ct \<and> changes (unat (run_type (case_conv_table1 ! i))) (unat c - unat (run_code (case_conv_table1 ! i))) ct))"
proof -
  have "iv_mem (entry_ivs cm v) (unat c) \<longleftrightarrow> in_run v c \<and>
      (\<exists>ct<3. bit cm ct \<and> changes (unat (run_type v)) (unat c - unat (run_code v)) ct)"
    if "mod_ok i v d" for i v d
  proof (cases "in_run v c")
    case True
    then show ?thesis
      using entry_ivs_mem [OF that, of "unat c - unat (run_code v)" cm] by (auto simp: in_run_nat)
  next
    case False
    then show ?thesis
      using iv_mem_points [of "entry_ivs cm v" "unat c"] entry_ivs_points [OF that, of _ cm]
      by (fastforce simp: in_run_nat)
  qed
  then show ?thesis using mod_check_nth [OF case_conv_mod] by (fastforce simp: iv_mem_concat)
qed

lemma in_run_unique:
  assumes "i < length case_conv_table1" "j < length case_conv_table1"
    "in_run (case_conv_table1 ! i) c" "in_run (case_conv_table1 ! j) c"
  shows "i = j"
proof (rule ccontr)
  assume "i \<noteq> j"
  obtain q where q: "runs_check 0 case_conv_table1 = Some q" using case_conv_runs by blast
  show False
    using assms \<open>i \<noteq> j\<close> runs_check_sorted [OF q, of i j] runs_check_sorted [OF q, of j i]
    by (cases "i < j") (auto simp: in_run_nat)
qed

lemma ascii_runs:
  assumes "i < length case_conv_table1" "in_run (case_conv_table1 ! i) c" "c < 128"
  shows "i = 0 \<or> i = 1"
proof (rule ccontr)
  assume "\<not> (i = 0 \<or> i = 1)"
  then have i: "2 \<le> i" by simp
  obtain q where q: "runs_check 0 case_conv_table1 = Some q" using case_conv_runs by blast
  have "case_conv_table1 ! 2 = 0x005a8173" by (simp add: case_conv_table1_def case_conv_table1_0_def)
  then have "unat (run_code (case_conv_table1 ! 2)) = 0xb5" by (simp add: unat_run_code)
  then have "0xb5 \<le> unat (run_code (case_conv_table1 ! i))"
    using i assms(1) runs_check_sorted [OF q, of 2 i] by (cases "i = 2") auto
  then show False using assms(2,3) by (simp add: in_run_nat word_less_nat_alt)
qed

lemma ascii_entries:
  "run_code (case_conv_table1 ! 0) = 0x41" "run_len (case_conv_table1 ! 0) = 26" "run_type (case_conv_table1 ! 0) = 3"
  "run_code (case_conv_table1 ! 1) = 0x61" "run_len (case_conv_table1 ! 1) = 26" "run_type (case_conv_table1 ! 1) = 0"
  by (simp_all add: u32_eq_iff unat_run_code unat_run_len unat_run_type case_conv_table1_def case_conv_table1_0_def)

lemma conv_changes_iff:
  assumes "ct = 0 \<or> ct = 1 \<or> ct = 2"
  shows "lre_case_conv c (of_nat ct) \<noteq> Some [c] \<longleftrightarrow>
    (\<exists>i<length case_conv_table1. in_run (case_conv_table1 ! i) c \<and>
       changes (unat (run_type (case_conv_table1 ! i))) (unat c - unat (run_code (case_conv_table1 ! i))) ct)"
proof (cases "c < 128")
  case True
  have "(\<exists>i<length case_conv_table1. in_run (case_conv_table1 ! i) c \<and>
       changes (unat (run_type (case_conv_table1 ! i))) (unat c - unat (run_code (case_conv_table1 ! i))) ct) \<longleftrightarrow>
     in_run (case_conv_table1 ! 0) c \<and> changes 3 (unat c - 0x41) ct \<or>
     in_run (case_conv_table1 ! 1) c \<and> changes 0 (unat c - 0x61) ct"
    (is "?L \<longleftrightarrow> ?R")
  proof
    assume ?L
    then show ?R using ascii_runs [OF _ _ True] ascii_entries by fastforce
  next
    assume ?R
    moreover have "0 < length case_conv_table1" "1 < length case_conv_table1" by (simp_all add: case_conv_lengths)
    ultimately show ?L using ascii_entries by fastforce
  qed
  moreover have "in_run (case_conv_table1 ! 0) c \<longleftrightarrow> 0x41 \<le> c \<and> c \<le> 0x5a"
      "in_run (case_conv_table1 ! 1) c \<longleftrightarrow> 0x61 \<le> c \<and> c \<le> 0x7a"
    by (auto simp: in_run_nat ascii_entries [unfolded One_nat_def] ascii_entries word_le_nat_alt)
  ultimately show ?thesis
    using True assms by (auto simp: lre_case_conv_def changes_def)
next
  case False
  obtain r where r: "case_conv_search case_conv_table1 c 0 (int (length case_conv_table1) - 1) = Some r"
      "case r of None \<Rightarrow> \<forall>v\<in>set case_conv_table1. \<not> in_run v c
       | Some (i, v) \<Rightarrow> i < length case_conv_table1 \<and> v = case_conv_table1 ! i \<and> in_run v c"
    using case_conv_search_table by blast
  show ?thesis
  proof (cases r)
    case None
    then show ?thesis using False r by (auto simp: lre_case_conv_def)
  next
    case (Some iv)
    then obtain i v where iv: "r = Some (i, v)" "i < length case_conv_table1" "v = case_conv_table1 ! i" "in_run v c"
      using r(2) by (cases iv) auto
    let ?d = "case_conv_table2 ! i"
    have "data_ok v ?d" using list_all2_nthD [OF case_conv_data iv(2)] iv(3) by simp
    moreover have "mod_ok i v ?d" using mod_check_nth [OF case_conv_mod iv(2)] iv(3) by simp
    ultimately have "case_conv_run v (run_data v ?d) c (of_nat ct) \<noteq> Some [c] \<longleftrightarrow>
        changes (unat (run_type v)) (unat c - unat (run_code v)) ct"
      using conv_changes [OF iv(4,3,2)] assms by blast
    moreover have "lre_case_conv c (of_nat ct) = case_conv_run v (run_data v ?d) c (of_nat ct)"
      using False r(1) iv(1,2) by (simp add: lre_case_conv_def rd_def case_conv_lengths)
    ultimately show ?thesis using iv in_run_unique [OF _ iv(2)] by auto
  qed
qed

lemma case1_range:
  assumes "cr_reallocator f" and "cr_wf N f cr" and "cr_len cr = 0" and "2 ^ 17 \<le> N"
  shows "\<exists>d. cr_gives N f d (unicode_case1 cr case_mask) \<and> cr_sorted d \<and> length d \<le> 2 ^ 17 \<and>
     (\<forall>c. cr_mem d c \<longleftrightarrow> (\<exists>ct<3. bit case_mask ct \<and> lre_case_conv c (of_nat ct) \<noteq> Some [c]))"
proof (cases "case_mask = 0")
  case True
  then show ?thesis
    using assms by (intro exI [of _ "[]"]) (auto simp: unicode_case1_def cr_data_def cr_sorted_def intro!: cr_gives_0)
next
  case False
  let ?ivs = "concat (map (entry_ivs case_mask) case_conv_table1)"
  have e: "cr_data cr = []" using assms(3) by (simp add: cr_data_def)
  have l: "2 * length ?ivs \<le> 2 ^ 17" using table_ivs_length [of case_mask case_conv_table1] by (simp add: case_conv_lengths)
  then have g: "cr_gives N f (iv_flat ?ivs) (unicode_case1 cr case_mask)"
    using cr_reallocator.add_all_gives [OF assms(1,2), of ?ivs] assms(3,4) False e
    by (simp add: unicode_case1_def case1_loop_ivs)
  obtain q where q: "runs_check 0 case_conv_table1 = Some q" using case_conv_runs by blast
  have s: "sorted (iv_points ?ivs)" "\<forall>x\<in>set (iv_points ?ivs). x < 2 ^ 32"
    using table_ivs_sorted [OF q case_conv_mod, of case_mask] by fastforce+
  have "cr_mem (iv_flat ?ivs) c \<longleftrightarrow> (\<exists>ct<3. bit case_mask ct \<and> lre_case_conv c (of_nat ct) \<noteq> Some [c])" for c
  proof -
    have "lre_case_conv c (of_nat ct) \<noteq> Some [c] \<longleftrightarrow>
      (\<exists>i<length case_conv_table1. in_run (case_conv_table1 ! i) c \<and>
         changes (unat (run_type (case_conv_table1 ! i))) (unat c - unat (run_code (case_conv_table1 ! i))) ct)"
      if "ct < 3" for ct
      using that by (intro conv_changes_iff) auto
    then show ?thesis unfolding iv_flat_mem [OF s(2)] table_ivs_mem by blast
  qed
  moreover have "length (iv_flat ?ivs) \<le> 2 ^ 17" using l by (simp add: iv_flat_def length_iv_points)
  ultimately show ?thesis using g iv_flat_sorted [OF s] by blast
qed

text \<open>
  Claim C32. \<open>unicode_case1\<close> builds exactly the set its comment promises: for every mask, a code
  point is in the range if and only if one of the conversions named by the mask changes it, as
  \<open>lre_case_conv\<close> computes it. This ties the two readings of the packed table together: the
  intervals read off the run types, and the conversion of single characters. For any allocator
  with \<open>realloc\<close>'s contract the function either gives this set or reports failure.
\<close>

theorem unicode_case1_modified:
  assumes "cr_reallocator f" and "cr_wf N f cr" and "cr_len cr = 0" and "2 ^ 17 \<le> N"
  shows "\<exists>r cr'. unicode_case1 cr case_mask = Some (r, cr') \<and> cr_wf N f cr' \<and>
     (r = -1 \<or> r = 0 \<and> cr_sorted (cr_data cr') \<and>
        (\<forall>c. cr_mem (cr_data cr') c \<longleftrightarrow> (\<exists>ct<3. bit case_mask ct \<and> lre_case_conv c (of_nat ct) \<noteq> Some [c])))"
  using case1_range [OF assms, of case_mask] by (auto simp: cr_gives_def)

theorem unicode_case1_modified_witness:
  "\<exists>r cr'. unicode_case1 (cr_init 5000 cr_default_realloc) CASE_U = Some (r, cr') \<and>
     cr_wf (2 ^ 17) cr_default_realloc cr'"
  using unicode_case1_modified [OF crd.cr_reallocator_axioms, of "2 ^ 17" "cr_init 5000 cr_default_realloc" CASE_U]
  by (auto simp: cr_wf_def cr_init_def)

end
