(* ===== verification/Unicode_Prop.thy ===== *)
theory Unicode_Prop
  imports Unicode_Names Unicode_Case_Set
begin

text \<open>
  The Unicode property queries of \<open>libunicode.c\<close> that regular expressions use for
  \<open>\p{...}\<close>: \<open>unicode_general_category\<close>, \<open>unicode_script\<close>, the little stack machine
  \<open>unicode_prop_ops\<close> that combines ranges, and \<open>unicode_prop\<close>. The allocator state is threaded
  from range to range in the order of the calls.
\<close>

subsection \<open>Enumerations\<close>

text \<open>The three C enumerations as lists of their names; a constant is the position of its name.\<close>

definition UnicodeGCEnum :: "string list" where
  "UnicodeGCEnum =
     [''Cn'', ''Lu'', ''Ll'', ''Lt'', ''Lm'', ''Lo'', ''Mn'', ''Mc'', ''Me'', ''Nd'', ''Nl'',
      ''No'', ''Sm'', ''Sc'', ''Sk'', ''So'', ''Pc'', ''Pd'', ''Ps'', ''Pe'', ''Pi'', ''Pf'',
      ''Po'', ''Zs'', ''Zl'', ''Zp'', ''Cc'', ''Cf'', ''Cs'', ''Co'', ''LC'', ''L'', ''M'',
      ''N'', ''S'', ''P'', ''Z'', ''C'', ''COUNT'']"

definition UnicodeScriptEnum :: "string list" where
  "UnicodeScriptEnum =
     [''Unknown'', ''Adlam'', ''Ahom'', ''Anatolian_Hieroglyphs'', ''Arabic'', ''Armenian'',
      ''Avestan'', ''Balinese'', ''Bamum'', ''Bassa_Vah'', ''Batak'', ''Bengali'', ''Bhaiksuki'',
      ''Bopomofo'', ''Brahmi'', ''Braille'', ''Buginese'', ''Buhid'', ''Canadian_Aboriginal'',
      ''Carian'', ''Caucasian_Albanian'', ''Chakma'', ''Cham'', ''Cherokee'', ''Chorasmian'',
      ''Common'', ''Coptic'', ''Cuneiform'', ''Cypriot'', ''Cyrillic'', ''Deseret'',
      ''Devanagari'', ''Dives_Akuru'', ''Dogra'', ''Duployan'', ''Egyptian_Hieroglyphs'',
      ''Elbasan'', ''Elymaic'', ''Ethiopic'', ''Georgian'', ''Glagolitic'', ''Gothic'',
      ''Grantha'', ''Greek'', ''Gujarati'', ''Gunjala_Gondi'', ''Gurmukhi'', ''Han'', ''Hangul'',
      ''Hanifi_Rohingya'', ''Hanunoo'', ''Hatran'', ''Hebrew'', ''Hiragana'',
      ''Imperial_Aramaic'', ''Inherited'', ''Inscriptional_Pahlavi'', ''Inscriptional_Parthian'',
      ''Javanese'', ''Kaithi'', ''Kannada'', ''Katakana'', ''Kayah_Li'', ''Kharoshthi'',
      ''Khmer'', ''Khojki'', ''Khitan_Small_Script'', ''Khudawadi'', ''Lao'', ''Latin'',
      ''Lepcha'', ''Limbu'', ''Linear_A'', ''Linear_B'', ''Lisu'', ''Lycian'', ''Lydian'',
      ''Makasar'', ''Mahajani'', ''Malayalam'', ''Mandaic'', ''Manichaean'', ''Marchen'',
      ''Masaram_Gondi'', ''Medefaidrin'', ''Meetei_Mayek'', ''Mende_Kikakui'',
      ''Meroitic_Cursive'', ''Meroitic_Hieroglyphs'', ''Miao'', ''Modi'', ''Mongolian'', ''Mro'',
      ''Multani'', ''Myanmar'', ''Nabataean'', ''Nandinagari'', ''New_Tai_Lue'', ''Newa'',
      ''Nko'', ''Nushu'', ''Nyiakeng_Puachue_Hmong'', ''Ogham'', ''Ol_Chiki'', ''Old_Hungarian'',
      ''Old_Italic'', ''Old_North_Arabian'', ''Old_Permic'', ''Old_Persian'', ''Old_Sogdian'',
      ''Old_South_Arabian'', ''Old_Turkic'', ''Oriya'', ''Osage'', ''Osmanya'', ''Pahawh_Hmong'',
      ''Palmyrene'', ''Pau_Cin_Hau'', ''Phags_Pa'', ''Phoenician'', ''Psalter_Pahlavi'',
      ''Rejang'', ''Runic'', ''Samaritan'', ''Saurashtra'', ''Sharada'', ''Shavian'',
      ''Siddham'', ''SignWriting'', ''Sinhala'', ''Sogdian'', ''Sora_Sompeng'', ''Soyombo'',
      ''Sundanese'', ''Syloti_Nagri'', ''Syriac'', ''Tagalog'', ''Tagbanwa'', ''Tai_Le'',
      ''Tai_Tham'', ''Tai_Viet'', ''Takri'', ''Tamil'', ''Tangut'', ''Telugu'', ''Thaana'',
      ''Thai'', ''Tibetan'', ''Tifinagh'', ''Tirhuta'', ''Ugaritic'', ''Vai'', ''Wancho'',
      ''Warang_Citi'', ''Yezidi'', ''Yi'', ''Zanabazar_Square'', ''COUNT'']"

definition UnicodePropertyEnum :: "string list" where
  "UnicodePropertyEnum =
     [''Hyphen'', ''Other_Math'', ''Other_Alphabetic'', ''Other_Lowercase'', ''Other_Uppercase'',
      ''Other_Grapheme_Extend'', ''Other_Default_Ignorable_Code_Point'', ''Other_ID_Start'',
      ''Other_ID_Continue'', ''Prepended_Concatenation_Mark'', ''ID_Continue1'', ''XID_Start1'',
      ''XID_Continue1'', ''Changes_When_Titlecased1'', ''Changes_When_Casefolded1'',
      ''Changes_When_NFKC_Casefolded1'', ''ASCII_Hex_Digit'', ''Bidi_Control'', ''Dash'',
      ''Deprecated'', ''Diacritic'', ''Extender'', ''Hex_Digit'', ''IDS_Binary_Operator'',
      ''IDS_Trinary_Operator'', ''Ideographic'', ''Join_Control'', ''Logical_Order_Exception'',
      ''Noncharacter_Code_Point'', ''Pattern_Syntax'', ''Pattern_White_Space'',
      ''Quotation_Mark'', ''Radical'', ''Regional_Indicator'', ''Sentence_Terminal'',
      ''Soft_Dotted'', ''Terminal_Punctuation'', ''Unified_Ideograph'', ''Variation_Selector'',
      ''White_Space'', ''Bidi_Mirrored'', ''Emoji'', ''Emoji_Component'', ''Emoji_Modifier'',
      ''Emoji_Modifier_Base'', ''Emoji_Presentation'', ''Extended_Pictographic'',
      ''Default_Ignorable_Code_Point'', ''ID_Start'', ''Case_Ignorable'', ''ASCII'',
      ''Alphabetic'', ''Any'', ''Assigned'', ''Cased'', ''Changes_When_Casefolded'',
      ''Changes_When_Casemapped'', ''Changes_When_Lowercased'', ''Changes_When_NFKC_Casefolded'',
      ''Changes_When_Titlecased'', ''Changes_When_Uppercased'', ''Grapheme_Base'',
      ''Grapheme_Extend'', ''ID_Continue'', ''Lowercase'', ''Math'', ''Uppercase'',
      ''XID_Continue'', ''XID_Start'', ''Cased1'', ''COUNT'']"

definition enum_pos :: "string list \<Rightarrow> string \<Rightarrow> nat" where
  "enum_pos names n = length (takeWhile (\<lambda>x. x \<noteq> n) names)"

definition M :: "string \<Rightarrow> u32" where
  "M gc = push_bit (enum_pos UnicodeGCEnum gc) 1"

definition UPROP :: "string \<Rightarrow> nat" where
  "UPROP n = enum_pos UnicodePropertyEnum n"

definition gc_mask_of :: "string list \<Rightarrow> u32" where
  "gc_mask_of gcs = foldr (\<lambda>gc m. M gc OR m) gcs 0"

subsection \<open>General categories\<close>

definition unicode_general_category1 :: "'h CharRange \<Rightarrow> u32 \<Rightarrow> (int \<times> 'h CharRange) option" where
  "unicode_general_category1 cr gc_mask = gc1_loop cr unicode_gc_table gc_mask 0 0"

definition unicode_gc_mask_table :: "u32 list" where
  "unicode_gc_mask_table =
     [gc_mask_of [''Lu'', ''Ll'', ''Lt''],
      gc_mask_of [''Lu'', ''Ll'', ''Lt'', ''Lm'', ''Lo''],
      gc_mask_of [''Mn'', ''Mc'', ''Me''],
      gc_mask_of [''Nd'', ''Nl'', ''No''],
      gc_mask_of [''Sm'', ''Sc'', ''Sk'', ''So''],
      gc_mask_of [''Pc'', ''Pd'', ''Ps'', ''Pe'', ''Pi'', ''Pf'', ''Po''],
      gc_mask_of [''Zs'', ''Zl'', ''Zp''],
      gc_mask_of [''Cc'', ''Cf'', ''Cs'', ''Co'', ''Cn'']]"

definition unicode_general_category :: "'h CharRange \<Rightarrow> u8 list \<Rightarrow> (int \<times> 'h CharRange) option" where
  "unicode_general_category cr gc_name =
     do {
       gc_idx \<leftarrow> unicode_find_name unicode_gc_name_table gc_name;
       if gc_idx < 0 then Some (-2, cr)
       else do {
         gc_mask \<leftarrow> (if gc_idx \<le> int (enum_pos UnicodeGCEnum ''Co'') then Some (push_bit (nat gc_idx) 1)
                     else rdi unicode_gc_mask_table (gc_idx - int (enum_pos UnicodeGCEnum ''LC'')));
         unicode_general_category1 cr gc_mask
       }
     }"

subsection \<open>Combining ranges\<close>

definition unicode_prop1 :: "'h CharRange \<Rightarrow> nat \<Rightarrow> (int \<times> 'h CharRange) option" where
  "unicode_prop1 cr prop_idx = do { p \<leftarrow> rd unicode_prop_table prop_idx; prop1_loop cr p 0 0 False }"

datatype PropOP =
  POP_GC u32 | POP_PROP nat | POP_CASE u32 | POP_UNION | POP_INTER | POP_XOR | POP_INVERT | POP_END

definition POP_STACK_LEN_MAX :: nat where "POP_STACK_LEN_MAX = 4"

text \<open>
  The loop of \<open>unicode_prop_ops\<close>, with the top of the stack first. The result has the code, the
  state of the allocator and the stack; a failing assertion has no result.
\<close>

type_synonym 'h pop_state = "int \<times> 'h \<times> 'h CharRange list"

definition pop_push :: "('h, u32) realloc_fn \<Rightarrow> 'h \<Rightarrow> 'h CharRange list \<Rightarrow>
    ('h CharRange \<Rightarrow> (int \<times> 'h CharRange) option) \<Rightarrow> 'h pop_state option" where
  "pop_push f h stack build =
     (if length stack < POP_STACK_LEN_MAX then
        do { (r, cr) \<leftarrow> build (cr_init h f); Some (r, cr_mem_opaque cr, cr # stack) }
      else None)"

definition pop_combine :: "('h, u32) realloc_fn \<Rightarrow> 'h \<Rightarrow> 'h CharRange list \<Rightarrow> CharRangeOp \<Rightarrow> 'h pop_state option" where
  "pop_combine f h stack op =
     (case stack of
        cr2 # cr1 # below \<Rightarrow>
          if length stack < POP_STACK_LEN_MAX then
            do {
              (r, cr3) \<leftarrow> cr_op (cr_init h f) (cr_points cr1) (cr_len cr1) (cr_points cr2) (cr_len cr2) op;
              let h = cr_mem_opaque cr3;
              if r \<noteq> 0 then Some (r, h, cr3 # stack)
              else
                (let h = cr_free (cr1\<lparr>cr_mem_opaque := h\<rparr>);
                     h = cr_free (cr2\<lparr>cr_mem_opaque := h\<rparr>) in
                 Some (0, h, cr3 # below))
            }
          else None
      | _ \<Rightarrow> None)"

definition pop_invert :: "'h \<Rightarrow> 'h CharRange list \<Rightarrow> 'h pop_state option" where
  "pop_invert h stack =
     (case stack of
        cr # below \<Rightarrow>
          do { (r, cr) \<leftarrow> cr_invert (cr\<lparr>cr_mem_opaque := h\<rparr>); Some (r, cr_mem_opaque cr, cr # below) }
      | [] \<Rightarrow> None)"

fun pop_step :: "('h, u32) realloc_fn \<Rightarrow> 'h \<Rightarrow> 'h CharRange list \<Rightarrow> PropOP \<Rightarrow> 'h pop_state option" where
  "pop_step f h stack (POP_GC a) = pop_push f h stack (\<lambda>cr. unicode_general_category1 cr a)"
| "pop_step f h stack (POP_PROP a) = pop_push f h stack (\<lambda>cr. unicode_prop1 cr a)"
| "pop_step f h stack (POP_CASE a) = pop_push f h stack (\<lambda>cr. unicode_case1 cr a)"
| "pop_step f h stack POP_UNION = pop_combine f h stack CR_OP_UNION"
| "pop_step f h stack POP_INTER = pop_combine f h stack CR_OP_INTER"
| "pop_step f h stack POP_XOR = pop_combine f h stack CR_OP_XOR"
| "pop_step f h stack POP_INVERT = pop_invert h stack"
| "pop_step f h stack POP_END = Some (0, h, stack)"

fun prop_ops_loop :: "('h, u32) realloc_fn \<Rightarrow> 'h \<Rightarrow> 'h CharRange list \<Rightarrow> PropOP list \<Rightarrow> 'h pop_state option" where
  "prop_ops_loop f h stack [] = None"
| "prop_ops_loop f h stack (op # ap) =
     (if op = POP_END then Some (0, h, stack)
      else do {
        (r, h, stack) \<leftarrow> pop_step f h stack op;
        if r \<noteq> 0 then Some (-1, h, stack) else prop_ops_loop f h stack ap
      })"

definition free_all :: "'h \<Rightarrow> 'h CharRange list \<Rightarrow> 'h" where
  "free_all h stack = foldl (\<lambda>h cr. cr_free (cr\<lparr>cr_mem_opaque := h\<rparr>)) h (rev stack)"

definition unicode_prop_ops :: "'h CharRange \<Rightarrow> PropOP list \<Rightarrow> (int \<times> 'h CharRange) option" where
  "unicode_prop_ops cr ap =
     do {
       (r, h, stack) \<leftarrow> prop_ops_loop (cr_realloc_func cr) (cr_mem_opaque cr) [] ap;
       if r \<noteq> 0 then Some (-1, cr\<lparr>cr_mem_opaque := free_all h stack\<rparr>)
       else
         (case stack of
            [s] \<Rightarrow>
              do {
                (ret, cr) \<leftarrow> cr_copy (cr\<lparr>cr_mem_opaque := h\<rparr>) s;
                Some (ret, cr\<lparr>cr_mem_opaque := cr_free (s\<lparr>cr_mem_opaque := cr_mem_opaque cr\<rparr>)\<rparr>)
              }
          | _ \<Rightarrow> None)
     }"

text \<open>The programs of the \<open>switch\<close> in \<open>unicode_prop\<close>, by the name of the property.\<close>

definition prop_programs :: "(string \<times> PropOP list) list" where
  "prop_programs =
     [(''Assigned'', [POP_GC (M ''Cn''), POP_INVERT, POP_END]),
      (''Math'', [POP_GC (M ''Sm''), POP_PROP (UPROP ''Other_Math''), POP_UNION, POP_END]),
      (''Lowercase'', [POP_GC (M ''Ll''), POP_PROP (UPROP ''Other_Lowercase''), POP_UNION, POP_END]),
      (''Uppercase'', [POP_GC (M ''Lu''), POP_PROP (UPROP ''Other_Uppercase''), POP_UNION, POP_END]),
      (''Cased'',
       [POP_GC (gc_mask_of [''Lu'', ''Ll'', ''Lt'']), POP_PROP (UPROP ''Other_Uppercase''), POP_UNION,
        POP_PROP (UPROP ''Other_Lowercase''), POP_UNION, POP_END]),
      (''Alphabetic'',
       [POP_GC (gc_mask_of [''Lu'', ''Ll'', ''Lt'', ''Lm'', ''Lo'', ''Nl'']), POP_PROP (UPROP ''Other_Uppercase''), POP_UNION,
        POP_PROP (UPROP ''Other_Lowercase''), POP_UNION, POP_PROP (UPROP ''Other_Alphabetic''), POP_UNION, POP_END]),
      (''Grapheme_Base'',
       [POP_GC (gc_mask_of [''Cc'', ''Cf'', ''Cs'', ''Co'', ''Cn'', ''Zl'', ''Zp'', ''Me'', ''Mn'']),
        POP_PROP (UPROP ''Other_Grapheme_Extend''), POP_UNION, POP_INVERT, POP_END]),
      (''Grapheme_Extend'',
       [POP_GC (gc_mask_of [''Me'', ''Mn'']), POP_PROP (UPROP ''Other_Grapheme_Extend''), POP_UNION, POP_END]),
      (''XID_Start'',
       [POP_GC (gc_mask_of [''Lu'', ''Ll'', ''Lt'', ''Lm'', ''Lo'', ''Nl'']), POP_PROP (UPROP ''Other_ID_Start''), POP_UNION,
        POP_PROP (UPROP ''Pattern_Syntax''), POP_PROP (UPROP ''Pattern_White_Space''), POP_UNION,
        POP_PROP (UPROP ''XID_Start1''), POP_UNION, POP_INVERT, POP_INTER, POP_END]),
      (''XID_Continue'',
       [POP_GC (gc_mask_of [''Lu'', ''Ll'', ''Lt'', ''Lm'', ''Lo'', ''Nl'', ''Mn'', ''Mc'', ''Nd'', ''Pc'']),
        POP_PROP (UPROP ''Other_ID_Start''), POP_UNION, POP_PROP (UPROP ''Other_ID_Continue''), POP_UNION,
        POP_PROP (UPROP ''Pattern_Syntax''), POP_PROP (UPROP ''Pattern_White_Space''), POP_UNION,
        POP_PROP (UPROP ''XID_Continue1''), POP_UNION, POP_INVERT, POP_INTER, POP_END]),
      (''Changes_When_Titlecased'',
       [POP_CASE CASE_U, POP_PROP (UPROP ''Changes_When_Titlecased1''), POP_XOR, POP_END]),
      (''Changes_When_Casefolded'',
       [POP_CASE CASE_F, POP_PROP (UPROP ''Changes_When_Casefolded1''), POP_XOR, POP_END]),
      (''Changes_When_NFKC_Casefolded'',
       [POP_CASE CASE_F, POP_PROP (UPROP ''Changes_When_NFKC_Casefolded1''), POP_XOR, POP_END]),
      (''ID_Continue'', [POP_PROP (UPROP ''ID_Start''), POP_PROP (UPROP ''ID_Continue1''), POP_XOR, POP_END])]"

definition unicode_prop :: "'h CharRange \<Rightarrow> u8 list \<Rightarrow> (int \<times> 'h CharRange) option" where
  "unicode_prop cr prop_name =
     do {
       prop_idx \<leftarrow> unicode_find_name unicode_prop_name_table prop_name;
       if prop_idx < 0 then Some (-2, cr)
       else
         (let prop_idx = nat prop_idx + UPROP ''ASCII_Hex_Digit'' in
          if prop_idx = UPROP ''ASCII'' then cr_add_interval cr 0x00 (0x7f + 1)
          else if prop_idx = UPROP ''Any'' then cr_add_interval cr 0x00000 (0x10ffff + 1)
          else if prop_idx = UPROP ''Changes_When_Uppercased'' then unicode_case1 cr CASE_U
          else if prop_idx = UPROP ''Changes_When_Lowercased'' then unicode_case1 cr CASE_L
          else if prop_idx = UPROP ''Changes_When_Casemapped'' then unicode_case1 cr (CASE_U OR CASE_L OR CASE_F)
          else
            (case map_of (map (\<lambda>(n, p). (UPROP n, p)) prop_programs) prop_idx of
               Some ap \<Rightarrow> unicode_prop_ops cr ap
             | None \<Rightarrow>
                 if prop_idx \<ge> length unicode_prop_table then Some (-2, cr)
                 else unicode_prop1 cr prop_idx))
     }"

subsection \<open>The sets of the queries\<close>

text \<open>The general category of a code point, with the letters of an alternating run told apart.\<close>

definition gc_of :: "u32 \<Rightarrow> nat option" where
  "gc_of c =
     (case gc_runs unicode_gc_table of
        None \<Rightarrow> None
      | Some rs \<Rightarrow> map_option (\<lambda>(v, k). if v = 31 then if even k then 1 else 2 else v) (run_at rs (unat c)))"

definition gc_member :: "u32 \<Rightarrow> u32 \<Rightarrow> bool" where
  "gc_member m c = (case gc_of c of None \<Rightarrow> False | Some g \<Rightarrow> bit m g)"

definition case_member :: "u32 \<Rightarrow> u32 \<Rightarrow> bool" where
  "case_member m c \<longleftrightarrow> (\<exists>ct<3. bit m ct \<and> lre_case_conv c (of_nat ct) \<noteq> Some [c])"

text \<open>What a query promises: a sorted range of bounded length with the members of a set, or failure.\<close>

definition cr_is :: "nat \<Rightarrow> ('h, u32) realloc_fn \<Rightarrow> 'h CharRange \<Rightarrow> (u32 \<Rightarrow> bool) \<Rightarrow> bool" where
  "cr_is N f cr S \<longleftrightarrow> cr_wf N f cr \<and> cr_sorted (cr_data cr) \<and> (\<forall>c. cr_mem (cr_data cr) c \<longleftrightarrow> S c)"

definition builds :: "nat \<Rightarrow> ('h, u32) realloc_fn \<Rightarrow> nat \<Rightarrow> (u32 \<Rightarrow> bool) \<Rightarrow> (int \<times> 'h CharRange) option \<Rightarrow> bool" where
  "builds N f B S res \<longleftrightarrow>
     (\<exists>cr. res = Some (0, cr) \<and> cr_is N f cr S \<and> cr_len cr \<le> B \<or> res = Some (-1, cr) \<and> cr_wf N f cr)"

lemma buildsE:
  assumes "builds N f B S res"
  obtains (ok) cr where "res = Some (0, cr)" "cr_is N f cr S" "cr_len cr \<le> B"
  | (fail) cr where "res = Some (-1, cr)" "cr_wf N f cr"
  using assms unfolding builds_def by blast

lemma buildsI:
  "cr_gives N f d res \<Longrightarrow> cr_sorted d \<Longrightarrow> length d \<le> B \<Longrightarrow> (\<And>c. cr_mem d c \<longleftrightarrow> S c) \<Longrightarrow> builds N f B S res"
  unfolding builds_def cr_gives_def cr_is_def by (metis cr_wf_len)

lemma prop_tables_ok:
  assumes "i < length unicode_prop_table"
  shows "\<exists>rs. table_runs (unicode_prop_table ! i) = Some rs \<and> sum_list rs \<le> 2 ^ 21"
proof -
  have "runs_sum unicode_prop_ID_Start_table = Some (sum_list (block_runs ID_Start_blocks))"
    "runs_sum unicode_prop_ID_Continue1_table = Some (sum_list (block_runs ID_Continue1_blocks))"
    "runs_sum unicode_prop_Case_Ignorable_table = Some (sum_list (block_runs Case_Ignorable_blocks))"
    using index_check_runs [OF ID_Start_index_check, of 0] index_check_runs [OF ID_Continue1_index_check, of 0]
      index_check_runs [OF Case_Ignorable_index_check, of 0]
    by (simp_all add: runs_sum_def unicode_prop_ID_Start_table_def unicode_prop_ID_Continue1_table_def
        unicode_prop_Case_Ignorable_table_def)
  note idx = this id_start.table_total id_continue1.table_total case_ignorable.table_total
  have "\<forall>t\<in>set unicode_prop_table. \<exists>n. runs_sum t = Some n \<and> n \<le> 2 ^ 21"
    unfolding unicode_prop_table_def using idx(4-6)
    by (simp add: idx(1-3) less_imp_le
        unicode_prop_Hyphen_table_runs_sum
        unicode_prop_Other_Math_table_runs_sum
        unicode_prop_Other_Alphabetic_table_runs_sum
        unicode_prop_Other_Lowercase_table_runs_sum
        unicode_prop_Other_Uppercase_table_runs_sum
        unicode_prop_Other_Grapheme_Extend_table_runs_sum
        unicode_prop_Other_Default_Ignorable_Code_Point_table_runs_sum
        unicode_prop_Other_ID_Start_table_runs_sum
        unicode_prop_Other_ID_Continue_table_runs_sum
        unicode_prop_Prepended_Concatenation_Mark_table_runs_sum
        unicode_prop_XID_Start1_table_runs_sum
        unicode_prop_XID_Continue1_table_runs_sum
        unicode_prop_Changes_When_Titlecased1_table_runs_sum
        unicode_prop_Changes_When_Casefolded1_table_runs_sum
        unicode_prop_Changes_When_NFKC_Casefolded1_table_runs_sum
        unicode_prop_ASCII_Hex_Digit_table_runs_sum
        unicode_prop_Bidi_Control_table_runs_sum
        unicode_prop_Dash_table_runs_sum
        unicode_prop_Deprecated_table_runs_sum
        unicode_prop_Diacritic_table_runs_sum
        unicode_prop_Extender_table_runs_sum
        unicode_prop_Hex_Digit_table_runs_sum
        unicode_prop_IDS_Binary_Operator_table_runs_sum
        unicode_prop_IDS_Trinary_Operator_table_runs_sum
        unicode_prop_Ideographic_table_runs_sum
        unicode_prop_Join_Control_table_runs_sum
        unicode_prop_Logical_Order_Exception_table_runs_sum
        unicode_prop_Noncharacter_Code_Point_table_runs_sum
        unicode_prop_Pattern_Syntax_table_runs_sum
        unicode_prop_Pattern_White_Space_table_runs_sum
        unicode_prop_Quotation_Mark_table_runs_sum
        unicode_prop_Radical_table_runs_sum
        unicode_prop_Regional_Indicator_table_runs_sum
        unicode_prop_Sentence_Terminal_table_runs_sum
        unicode_prop_Soft_Dotted_table_runs_sum
        unicode_prop_Terminal_Punctuation_table_runs_sum
        unicode_prop_Unified_Ideograph_table_runs_sum
        unicode_prop_Variation_Selector_table_runs_sum
        unicode_prop_White_Space_table_runs_sum
        unicode_prop_Bidi_Mirrored_table_runs_sum
        unicode_prop_Emoji_table_runs_sum
        unicode_prop_Emoji_Component_table_runs_sum
        unicode_prop_Emoji_Modifier_table_runs_sum
        unicode_prop_Emoji_Modifier_Base_table_runs_sum
        unicode_prop_Emoji_Presentation_table_runs_sum
        unicode_prop_Extended_Pictographic_table_runs_sum
        unicode_prop_Default_Ignorable_Code_Point_table_runs_sum)
  then have "\<exists>n. runs_sum (unicode_prop_table ! i) = Some n \<and> n \<le> 2 ^ 21" using assms by simp
  then show ?thesis by (auto simp: runs_sum_def)
qed

lemma gc_table_runs: "\<exists>rs. gc_runs unicode_gc_table = Some rs \<and> runs_total rs = 0x110000"
  using unicode_gc_table_gc_total by (auto simp: gc_total_def)

context cr_reallocator
begin

lemma gc1_builds:
  assumes "cr_wf N rf cr" and "cr_len cr = 0" and "2 ^ 22 \<le> N"
  shows "builds N rf (2 ^ 22) (gc_member m) (unicode_general_category1 cr m)"
proof -
  obtain rs where rs: "gc_runs unicode_gc_table = Some rs" "runs_total rs = 0x110000" using gc_table_runs by blast
  let ?ivs = "runs_ivs (gc_seg m) rs 0"
  have e: "unicode_general_category1 cr m = add_all cr ?ivs"
    using gc1_loop_runs [of 0 unicode_gc_table rs 0 cr m] rs by (simp add: unicode_general_category1_def)
  have l: "length ?ivs \<le> 0x110000" using gc_sets.ivs_length [of m rs 0] rs(2) by simp
  have "cr_data cr = []" using assms(2) by (simp add: cr_data_def)
  then have "cr_gives N rf (iv_flat ?ivs) (unicode_general_category1 cr m)"
    using add_all_gives [of N cr ?ivs] assms l e by simp
  then show ?thesis
    using gc_sets.runs_range [of rs m] rs l
    by (intro buildsI [of N rf "iv_flat ?ivs"])
       (auto simp: gc_member_def gc_of_def gc_sel_def iv_flat_def length_iv_points split: option.splits)
qed

lemma prop1_builds:
  assumes "cr_wf N rf cr" and "cr_len cr = 0" and "2 ^ 22 \<le> N" and i: "i < length unicode_prop_table"
  shows "builds N rf (2 ^ 22) (table_mem (unicode_prop_table ! i)) (unicode_prop1 cr i)"
proof -
  let ?t = "unicode_prop_table ! i"
  obtain rs where rs: "table_runs ?t = Some rs" "sum_list rs \<le> 2 ^ 21" using prop_tables_ok [OF i] by blast
  let ?ivs = "runs_ivs prop_seg (bit_runs rs False) 0"
  have e: "unicode_prop1 cr i = add_all cr ?ivs"
    using prop1_loop_runs [of 0 ?t rs cr 0 False] rs i by (simp add: unicode_prop1_def)
  have l: "length ?ivs \<le> 2 ^ 21" using one_sets.ivs_length [of "\<lambda>bt. bt" "bit_runs rs False" 0] rs(2) by simp
  have "cr_data cr = []" using assms(2) by (simp add: cr_data_def)
  then have "cr_gives N rf (iv_flat ?ivs) (unicode_prop1 cr i)"
    using add_all_gives [of N cr ?ivs] assms l e by simp
  then show ?thesis
    using one_sets.runs_range [of "bit_runs rs False" "\<lambda>bt. bt"] rs l
    by (intro buildsI [of N rf "iv_flat ?ivs"])
       (auto simp: table_mem_run_at [OF rs(1)] iv_flat_def length_iv_points)
qed

lemma case1_builds:
  assumes "cr_wf N rf cr" and "cr_len cr = 0" and "2 ^ 22 \<le> N"
  shows "builds N rf (2 ^ 22) (case_member m) (unicode_case1 cr m)"
proof -
  obtain d where "cr_gives N rf d (unicode_case1 cr m)" "cr_sorted d" "length d \<le> 2 ^ 17"
      "\<forall>c. cr_mem d c \<longleftrightarrow> case_member m c"
    using case1_range [OF cr_reallocator_axioms assms(1,2), of m] assms(3) by (auto simp: case_member_def)
  then show ?thesis by (intro buildsI [of N rf d]) auto
qed

end

subsection \<open>The stack machine on sets\<close>

fun pop_sem_step :: "(u32 \<Rightarrow> bool) list \<Rightarrow> PropOP \<Rightarrow> (u32 \<Rightarrow> bool) list option" where
  "pop_sem_step ss (POP_GC m) = (if length ss < POP_STACK_LEN_MAX then Some (gc_member m # ss) else None)"
| "pop_sem_step ss (POP_PROP i) =
     (if length ss < POP_STACK_LEN_MAX \<and> i < length unicode_prop_table
      then Some (table_mem (unicode_prop_table ! i) # ss) else None)"
| "pop_sem_step ss (POP_CASE m) = (if length ss < POP_STACK_LEN_MAX then Some (case_member m # ss) else None)"
| "pop_sem_step (b # a # ss) POP_UNION =
     (if length ss + 2 < POP_STACK_LEN_MAX then Some ((\<lambda>c. a c \<or> b c) # ss) else None)"
| "pop_sem_step (b # a # ss) POP_INTER =
     (if length ss + 2 < POP_STACK_LEN_MAX then Some ((\<lambda>c. a c \<and> b c) # ss) else None)"
| "pop_sem_step (b # a # ss) POP_XOR =
     (if length ss + 2 < POP_STACK_LEN_MAX then Some ((\<lambda>c. a c \<noteq> b c) # ss) else None)"
| "pop_sem_step (a # ss) POP_INVERT = Some ((\<lambda>c. c < - 1 \<and> \<not> a c) # ss)"
| "pop_sem_step _ _ = None"

fun pop_sem :: "(u32 \<Rightarrow> bool) list \<Rightarrow> PropOP list \<Rightarrow> (u32 \<Rightarrow> bool) list option" where
  "pop_sem ss [] = None"
| "pop_sem ss (op # ap) =
     (if op = POP_END then Some ss
      else case pop_sem_step ss op of None \<Rightarrow> None | Some ss' \<Rightarrow> pop_sem ss' ap)"

lemma cr_mem_max [simp]: "\<not> cr_mem d (- 1)"
  by (induction d "- 1 :: u32" rule: cr_mem.induct) (auto simp: word_order.not_eq_extremum)

lemma cr_opaque_simps [simp]:
  "cr_wf N f (cr\<lparr>cr_mem_opaque := h\<rparr>) = cr_wf N f cr"
  "cr_data (cr\<lparr>cr_mem_opaque := h\<rparr>) = cr_data cr"
  "cr_is N f (cr\<lparr>cr_mem_opaque := h\<rparr>) S = cr_is N f cr S"
  by (simp_all add: cr_wf_def cr_data_def cr_is_def)

lemma cr_init_simps [simp]: "N \<le> 2 ^ 28 \<Longrightarrow> cr_wf N f (cr_init h f)" "cr_len (cr_init h f) = 0"
  by (simp_all add: cr_wf_def cr_init_def)

lemma cr_is_even: "cr_is N f cr S \<Longrightarrow> even (cr_len cr)"
  by (metis cr_is_def cr_sorted_def cr_wf_len)

text \<open>The stack of the machine against the stack of sets, with a bound on the points it holds.\<close>

definition stack_is :: "nat \<Rightarrow> ('h, u32) realloc_fn \<Rightarrow> nat \<Rightarrow> 'h CharRange list \<Rightarrow> (u32 \<Rightarrow> bool) list \<Rightarrow> bool" where
  "stack_is N f L stack ss \<longleftrightarrow> list_all2 (cr_is N f) stack ss \<and> sum_list (map cr_len stack) \<le> L"

definition pop_gives :: "nat \<Rightarrow> ('h, u32) realloc_fn \<Rightarrow> nat \<Rightarrow> (u32 \<Rightarrow> bool) list \<Rightarrow> 'h pop_state option \<Rightarrow> bool" where
  "pop_gives N f L ss res \<longleftrightarrow>
     (\<exists>r h stack. res = Some (r, h, stack) \<and> (r = 0 \<and> stack_is N f L stack ss \<or> r = -1))"

context cr_reallocator
begin

lemma pop_push_gives:
  assumes st: "stack_is N rf L stack ss" and len: "length ss < POP_STACK_LEN_MAX" and N: "N \<le> 2 ^ 28"
    and b: "builds N rf B S (build (cr_init h rf))"
  shows "pop_gives N rf (L + B) (S # ss) (pop_push rf h stack build)"
proof -
  have "length stack = length ss" using st by (auto simp: stack_is_def dest: list_all2_lengthD)
  from b show ?thesis
  proof (cases rule: buildsE)
    case (ok cr)
    then show ?thesis using st len \<open>length stack = length ss\<close> by (auto simp: pop_push_def pop_gives_def stack_is_def)
  next
    case (fail cr)
    then show ?thesis using len \<open>length stack = length ss\<close> by (auto simp: pop_push_def pop_gives_def)
  qed
qed

lemma cr_op_is:
  assumes 1: "cr_is N rf cr1 A" and 2: "cr_is N rf cr2 B" and cr: "cr_wf N rf cr" "cr_len cr = 0" and N: "cr_len cr1 + cr_len cr2 \<le> N"
  shows "builds N rf (cr_len cr1 + cr_len cr2) (\<lambda>c. cr_is_in op (A c) (B c))
           (cr_op cr (cr_points cr1) (cr_len cr1) (cr_points cr2) (cr_len cr2) op)"
proof (rule buildsI)
  let ?d = "cr_comp (cr_merge op False False (cr_data cr1) (cr_data cr2))"
  have l: "cr_len cr1 \<le> length (cr_points cr1)" "cr_len cr2 \<le> length (cr_points cr2)"
    using 1 2 by (simp_all add: cr_is_def cr_wf_def)
  show "cr_gives N rf ?d (cr_op cr (cr_points cr1) (cr_len cr1) (cr_points cr2) (cr_len cr2) op)"
    using cr_op_gives [of N cr "cr_len cr1" "cr_len cr2"] l cr N cr_is_even [OF 1] cr_is_even [OF 2]
    by (simp add: cr_data_def)
  have s: "cr_sorted (cr_data cr1)" "cr_sorted (cr_data cr2)" using 1 2 by (simp_all add: cr_is_def)
  note m = comp_merge_set [OF s, of op]
  show "cr_sorted ?d" using m cr_canonical_sorted by blast
  show "length ?d \<le> cr_len cr1 + cr_len cr2"
    using cr_comp_shorter [of "cr_merge op False False (cr_data cr1) (cr_data cr2)"]
      cr_merge_shorter [of op False False "cr_data cr1" "cr_data cr2"] 1 2
    by (simp add: cr_is_def cr_wf_len [of N rf])
  show "cr_mem ?d c \<longleftrightarrow> cr_is_in op (A c) (B c)" for c using m 1 2 by (simp add: cr_is_def)
qed

lemma pop_combine_gives:
  assumes st: "stack_is N rf L stack (b # a # ss)" and len: "length ss + 2 < POP_STACK_LEN_MAX"
    and N: "N \<le> 2 ^ 28" "L \<le> N"
  shows "pop_gives N rf L ((\<lambda>c. cr_is_in op (a c) (b c)) # ss) (pop_combine rf h stack op)"
proof -
  obtain cr2 cr1 below where s: "stack = cr2 # cr1 # below" "cr_is N rf cr2 b" "cr_is N rf cr1 a"
      "list_all2 (cr_is N rf) below ss" "cr_len cr2 + cr_len cr1 + sum_list (map cr_len below) \<le> L"
    using st by (auto simp: stack_is_def list_all2_Cons2)
  have l: "length below = length ss" using s(4) by (rule list_all2_lengthD)
  have "cr_len cr1 + cr_len cr2 \<le> N" using s(5) N by simp
  from cr_op_is [OF s(3,2) cr_init_simps(1) [OF N(1)] cr_init_simps(2) this, of op h] show ?thesis
  proof (cases rule: buildsE)
    case (ok cr)
    then show ?thesis using s l len
      by (auto simp: pop_combine_def pop_gives_def stack_is_def Let_def)
  next
    case (fail cr)
    then show ?thesis using s(1) l len by (auto simp: pop_combine_def pop_gives_def Let_def)
  qed
qed

lemma cr_invert_is:
  assumes cr: "cr_is N rf cr A" and n: "cr_len cr + 2 \<le> N"
  shows "builds N rf (cr_len cr + 2) (\<lambda>c. c < - 1 \<and> \<not> A c) (cr_invert cr)"
proof (rule buildsI)
  let ?d = "cr_comp (0 # cr_data cr @ [- 1])"
  have w: "cr_wf N rf cr" and s: "cr_sorted (cr_data cr)" using cr by (simp_all add: cr_is_def)
  show "cr_gives N rf ?d (cr_invert cr)" using w n cr_is_even [OF cr] by (rule cr_invert_gives)
  have "cr_sorted (0 # cr_data cr @ [- 1])" using s by (auto simp: cr_sorted_def sorted_append)
  then show "cr_sorted ?d" using comp_props by (blast intro: cr_canonical_sorted)
  show "length ?d \<le> cr_len cr + 2" using cr_comp_shorter [of "0 # cr_data cr @ [- 1]"] cr_wf_len [OF w] by simp
  show "cr_mem ?d c \<longleftrightarrow> c < - 1 \<and> \<not> A c" for c
    using comp_invert_set [OF s, of c] cr by (cases "c = - 1") (auto simp: cr_is_def word_order.not_eq_extremum)
qed

lemma pop_invert_gives:
  assumes st: "stack_is N rf L stack (a # ss)" and N: "L + 2 \<le> N"
  shows "pop_gives N rf (L + 2) ((\<lambda>c. c < - 1 \<and> \<not> a c) # ss) (pop_invert h stack)"
proof -
  obtain cr below where s: "stack = cr # below" "cr_is N rf cr a"
      "list_all2 (cr_is N rf) below ss" "cr_len cr + sum_list (map cr_len below) \<le> L"
    using st by (auto simp: stack_is_def list_all2_Cons2)
  have "cr_len (cr\<lparr>cr_mem_opaque := h\<rparr>) + 2 \<le> N" using s(4) N by simp
  from cr_invert_is [OF _ this, of a] s(2) have "builds N rf (cr_len cr + 2) (\<lambda>c. c < - 1 \<and> \<not> a c) (cr_invert (cr\<lparr>cr_mem_opaque := h\<rparr>))"
    by simp
  then show ?thesis
  proof (cases rule: buildsE)
    case (ok cr')
    then show ?thesis using s by (auto simp: pop_invert_def pop_gives_def stack_is_def)
  next
    case (fail cr')
    then show ?thesis using s(1) by (auto simp: pop_invert_def pop_gives_def)
  qed
qed

lemma pop_gives_mono: "pop_gives N f L ss res \<Longrightarrow> L \<le> L' \<Longrightarrow> pop_gives N f L' ss res"
  by (fastforce simp: pop_gives_def stack_is_def)

lemma pop_step_gives:
  assumes st: "stack_is N rf L stack ss" and sem: "pop_sem_step ss op = Some ss'"
    and N: "N \<le> 2 ^ 28" "L + 2 ^ 22 \<le> N"
  shows "pop_gives N rf (L + 2 ^ 22) ss' (pop_step rf h stack op)"
proof -
  have N2: "2 ^ 22 \<le> N" "L \<le> N" "L + 2 \<le> N" using N(2) by simp_all
  have i: "cr_wf N rf (cr_init h rf)" "cr_len (cr_init h rf) = 0" using N(1) by simp_all
  note push = pop_push_gives [OF st _ N(1)] gc1_builds [OF i N2(1)] prop1_builds [OF i N2(1)] case1_builds [OF i N2(1)]
  have combine: "pop_gives N rf (L + 2 ^ 22) ((\<lambda>c. cr_is_in k (a c) (b c)) # ss1) (pop_combine rf h stack k)"
    if "ss = b # a # ss1" "length ss1 + 2 < POP_STACK_LEN_MAX" for a b ss1 k
    using pop_combine_gives [of N L stack b a ss1 k h] that st N N2 by (auto intro: pop_gives_mono)
  from sem show ?thesis
  proof (cases rule: pop_sem_step.elims)
    case 4
    then show ?thesis using combine [of _ _ _ CR_OP_UNION] by (auto split: if_splits)
  next
    case 5
    then show ?thesis using combine [of _ _ _ CR_OP_INTER] by (auto split: if_splits)
  next
    case 6
    then show ?thesis using combine [of _ _ _ CR_OP_XOR] by (auto split: if_splits)
  next
    case (7 a ss1)
    then have "pop_gives N rf (L + 2) ss' (pop_step rf h stack op)" using pop_invert_gives [of N L stack a ss1 h] st N2 by auto
    then show ?thesis by (rule pop_gives_mono) simp
  qed (use push in \<open>auto split: if_splits\<close>)
qed

lemma prop_ops_loop_gives:
  assumes "stack_is N rf L stack ss" and "pop_sem ss ap = Some ss'" and "N \<le> 2 ^ 28" and "L + 2 ^ 22 * length ap \<le> N"
  shows "pop_gives N rf N ss' (prop_ops_loop rf h stack ap)"
  using assms
proof (induction ap arbitrary: L h stack ss)
  case (Cons op ap)
  show ?case
  proof (cases "op = POP_END")
    case True
    then show ?thesis using Cons.prems by (auto simp: pop_gives_def stack_is_def)
  next
    case False
    then obtain ss1 where ss1: "pop_sem_step ss op = Some ss1" "pop_sem ss1 ap = Some ss'"
      using Cons.prems(2) by (auto split: option.splits)
    have "L + 2 ^ 22 \<le> N" using Cons.prems(4) by simp
    from pop_step_gives [OF Cons.prems(1) ss1(1) Cons.prems(3) this, of h]
    obtain r h1 st1 where 1: "pop_step rf h stack op = Some (r, h1, st1)"
        "r = 0 \<and> stack_is N rf (L + 2 ^ 22) st1 ss1 \<or> r = -1"
      by (auto simp: pop_gives_def)
    have "L + 2 ^ 22 + 2 ^ 22 * length ap \<le> N" using Cons.prems(4) by simp
    with 1 False Cons.IH [OF _ ss1(2) Cons.prems(3), of "L + 2 ^ 22" st1 h1] show ?thesis
      by (auto simp: pop_gives_def)
  qed
qed simp

lemma prop_ops_builds:
  assumes cr: "cr_wf N rf cr" and sem: "pop_sem [] ap = Some [S]" and N: "2 ^ 22 * length ap \<le> N"
  shows "builds N rf N S (unicode_prop_ops cr ap)"
proof -
  have N28: "N \<le> 2 ^ 28" and f: "cr_realloc_func cr = rf" using cr by (simp_all add: cr_wf_def)
  have "pop_gives N rf N [S] (prop_ops_loop rf (cr_mem_opaque cr) [] ap)"
    using prop_ops_loop_gives [of N 0 "[]" "[]" ap "[S]"] sem N N28 by (simp add: stack_is_def)
  then obtain r h stack where l: "prop_ops_loop rf (cr_mem_opaque cr) [] ap = Some (r, h, stack)"
      "r = 0 \<and> stack_is N rf N stack [S] \<or> r = -1"
    by (auto simp: pop_gives_def)
  show ?thesis
  proof (cases "r = 0")
    case True
    then obtain s where s: "stack = [s]" "cr_is N rf s S" "cr_len s \<le> N"
      using l(2) by (auto simp: stack_is_def list_all2_Cons2)
    have "cr_gives N rf (cr_data s) (cr_copy (cr\<lparr>cr_mem_opaque := h\<rparr>) s)"
      using cr_copy_gives [of N "cr\<lparr>cr_mem_opaque := h\<rparr>" s] cr s by (simp add: cr_is_def)
    then obtain ret c where "cr_copy (cr\<lparr>cr_mem_opaque := h\<rparr>) s = Some (ret, c)" "cr_wf N rf c"
        "ret = 0 \<and> cr_data c = cr_data s \<or> ret = -1"
      by (auto simp: cr_gives_def)
    then have "cr_gives N rf (cr_data s) (unicode_prop_ops cr ap)"
      using l True f s(1) by (auto simp: unicode_prop_ops_def cr_gives_def)
    then show ?thesis using s(2,3) by (intro buildsI) (auto simp: cr_is_def cr_wf_len)
  next
    case False
    then show ?thesis using l f cr by (auto simp: builds_def unicode_prop_ops_def)
  qed
qed

end

subsection \<open>The sets by name\<close>

text \<open>
  The sets in the words of the Unicode standard: a code point has one of some general categories,
  it is in the table of a property, or a case conversion changes it; the derived properties are
  combinations of these. The tables with a name ending in \<open>1\<close> hold corrections that the table
  generator computes.
\<close>

definition in_gc :: "string list \<Rightarrow> u32 \<Rightarrow> bool" where
  "in_gc gcs c \<longleftrightarrow> (\<exists>g\<in>set gcs. gc_of c = Some (enum_pos UnicodeGCEnum g))"

definition in_prop :: "string \<Rightarrow> u32 \<Rightarrow> bool" where
  "in_prop n c \<longleftrightarrow> table_mem (unicode_prop_table ! UPROP n) c"

definition changed_by :: "nat list \<Rightarrow> u32 \<Rightarrow> bool" where
  "changed_by cts c \<longleftrightarrow> (\<exists>ct\<in>set cts. lre_case_conv c (of_nat ct) \<noteq> Some [c])"

definition letters :: "string list" where
  "letters = [''Lu'', ''Ll'', ''Lt'', ''Lm'', ''Lo'', ''Nl'']"

definition basic_sets :: "(string \<times> (u32 \<Rightarrow> bool)) list" where
  "basic_sets =
     [(''ASCII'', \<lambda>c. c \<le> 0x7f),
      (''Any'', \<lambda>c. c \<le> 0x10ffff),
      (''Changes_When_Uppercased'', changed_by [0]),
      (''Changes_When_Lowercased'', changed_by [1]),
      (''Changes_When_Casemapped'', changed_by [0, 1, 2])]"

definition derived_sets :: "(string \<times> (u32 \<Rightarrow> bool)) list" where
  "derived_sets =
     [(''Assigned'', \<lambda>c. c < - 1 \<and> \<not> in_gc [''Cn''] c),
      (''Math'', \<lambda>c. in_gc [''Sm''] c \<or> in_prop ''Other_Math'' c),
      (''Lowercase'', \<lambda>c. in_gc [''Ll''] c \<or> in_prop ''Other_Lowercase'' c),
      (''Uppercase'', \<lambda>c. in_gc [''Lu''] c \<or> in_prop ''Other_Uppercase'' c),
      (''Cased'', \<lambda>c. (in_gc [''Lu'', ''Ll'', ''Lt''] c \<or> in_prop ''Other_Uppercase'' c) \<or> in_prop ''Other_Lowercase'' c),
      (''Alphabetic'',
       \<lambda>c. ((in_gc letters c \<or> in_prop ''Other_Uppercase'' c) \<or> in_prop ''Other_Lowercase'' c) \<or> in_prop ''Other_Alphabetic'' c),
      (''Grapheme_Base'',
       \<lambda>c. c < - 1 \<and> \<not> (in_gc [''Cc'', ''Cf'', ''Cs'', ''Co'', ''Cn'', ''Zl'', ''Zp'', ''Me'', ''Mn''] c
             \<or> in_prop ''Other_Grapheme_Extend'' c)),
      (''Grapheme_Extend'', \<lambda>c. in_gc [''Me'', ''Mn''] c \<or> in_prop ''Other_Grapheme_Extend'' c),
      (''XID_Start'',
       \<lambda>c. (in_gc letters c \<or> in_prop ''Other_ID_Start'' c) \<and> c < - 1 \<and>
         \<not> ((in_prop ''Pattern_Syntax'' c \<or> in_prop ''Pattern_White_Space'' c) \<or> in_prop ''XID_Start1'' c)),
      (''XID_Continue'',
       \<lambda>c. ((in_gc (letters @ [''Mn'', ''Mc'', ''Nd'', ''Pc'']) c \<or> in_prop ''Other_ID_Start'' c)
             \<or> in_prop ''Other_ID_Continue'' c) \<and> c < - 1 \<and>
         \<not> ((in_prop ''Pattern_Syntax'' c \<or> in_prop ''Pattern_White_Space'' c) \<or> in_prop ''XID_Continue1'' c)),
      (''Changes_When_Titlecased'', \<lambda>c. changed_by [0] c \<noteq> in_prop ''Changes_When_Titlecased1'' c),
      (''Changes_When_Casefolded'', \<lambda>c. changed_by [2] c \<noteq> in_prop ''Changes_When_Casefolded1'' c),
      (''Changes_When_NFKC_Casefolded'', \<lambda>c. changed_by [2] c \<noteq> in_prop ''Changes_When_NFKC_Casefolded1'' c),
      (''ID_Continue'', \<lambda>c. in_prop ''ID_Start'' c \<noteq> in_prop ''ID_Continue1'' c)]"

definition prop_member :: "string \<Rightarrow> u32 \<Rightarrow> bool" where
  "prop_member n = (case map_of (basic_sets @ derived_sets) n of Some S \<Rightarrow> S | None \<Rightarrow> in_prop n)"

lemma enum_pos_nth: "distinct xs \<Longrightarrow> i < length xs \<Longrightarrow> enum_pos xs (xs ! i) = i"
  by (induction xs arbitrary: i) (auto simp: enum_pos_def nth_Cons split: nat.splits)

lemma enum_pos_inj: "x \<in> set xs \<Longrightarrow> enum_pos xs x = enum_pos xs y \<longleftrightarrow> x = y"
  by (induction xs) (auto simp: enum_pos_def split: if_splits)

lemma gc_member_mask:
  assumes "\<forall>g\<in>set gcs. enum_pos UnicodeGCEnum g < 32"
  shows "gc_member (gc_mask_of gcs) = in_gc gcs"
proof -
  have "bit (gc_mask_of gcs) n \<longleftrightarrow> (\<exists>g\<in>set gcs. enum_pos UnicodeGCEnum g = n)" for n
    using assms
  proof (induction gcs)
    case (Cons g gcs)
    then show ?case by (auto simp: gc_mask_of_def M_def bit_or_iff bit_exp_iff)
  qed (simp add: gc_mask_of_def)
  then show ?thesis by (auto simp: gc_member_def in_gc_def fun_eq_iff split: option.splits)
qed

lemma gc_member_M: "enum_pos UnicodeGCEnum g < 32 \<Longrightarrow> gc_member (M g) = in_gc [g]"
  using gc_member_mask [of "[g]"] by (simp add: gc_mask_of_def)

lemma case_member_changed:
  "case_member CASE_U = changed_by [0]" "case_member CASE_L = changed_by [1]" "case_member CASE_F = changed_by [2]"
  "case_member (CASE_U OR CASE_L OR CASE_F) = changed_by [0, 1, 2]"
proof -
  have three: "(\<exists>ct<3. P ct) \<longleftrightarrow> P 0 \<or> P 1 \<or> P (2 :: nat)" for P by (auto simp: less_Suc_eq numeral_eq_Suc)
  have "bit CASE_U 0" "\<not> bit CASE_U 1" "\<not> bit CASE_U 2" "\<not> bit CASE_L 0" "bit CASE_L 1" "\<not> bit CASE_L 2"
    "\<not> bit CASE_F 0" "\<not> bit CASE_F 1" "bit CASE_F 2"
    by code_simp+
  then show "case_member CASE_U = changed_by [0]" "case_member CASE_L = changed_by [1]" "case_member CASE_F = changed_by [2]"
    "case_member (CASE_U OR CASE_L OR CASE_F) = changed_by [0, 1, 2]"
    by (simp_all add: case_member_def changed_by_def three bit_or_iff fun_eq_iff)
qed

lemma prop_table_length: "length unicode_prop_table = 50"
  by (simp add: unicode_prop_table_def)

definition program_of :: "string \<times> PropOP list \<Rightarrow> string \<times> (u32 \<Rightarrow> bool) \<Rightarrow> bool" where
  "program_of p d \<longleftrightarrow> fst p = fst d \<and> pop_sem [] (snd p) = Some [snd d] \<and> length (snd p) \<le> 16"

lemma prop_programs_sets: "list_all2 program_of prop_programs derived_sets"
proof -
  have g: "enum_pos UnicodeGCEnum ''Cn'' < 32" "enum_pos UnicodeGCEnum ''Sm'' < 32" "enum_pos UnicodeGCEnum ''Ll'' < 32"
    "enum_pos UnicodeGCEnum ''Lu'' < 32" "enum_pos UnicodeGCEnum ''Lt'' < 32" "enum_pos UnicodeGCEnum ''Lm'' < 32"
    "enum_pos UnicodeGCEnum ''Lo'' < 32" "enum_pos UnicodeGCEnum ''Nl'' < 32" "enum_pos UnicodeGCEnum ''Cc'' < 32"
    "enum_pos UnicodeGCEnum ''Cf'' < 32" "enum_pos UnicodeGCEnum ''Cs'' < 32" "enum_pos UnicodeGCEnum ''Co'' < 32"
    "enum_pos UnicodeGCEnum ''Zl'' < 32" "enum_pos UnicodeGCEnum ''Zp'' < 32" "enum_pos UnicodeGCEnum ''Me'' < 32"
    "enum_pos UnicodeGCEnum ''Mn'' < 32" "enum_pos UnicodeGCEnum ''Mc'' < 32" "enum_pos UnicodeGCEnum ''Nd'' < 32"
    "enum_pos UnicodeGCEnum ''Pc'' < 32"
    by code_simp+
  have p: "UPROP ''Other_Math'' < 50" "UPROP ''Other_Lowercase'' < 50" "UPROP ''Other_Uppercase'' < 50"
    "UPROP ''Other_Alphabetic'' < 50" "UPROP ''Other_Grapheme_Extend'' < 50" "UPROP ''Other_ID_Start'' < 50"
    "UPROP ''Pattern_Syntax'' < 50" "UPROP ''Pattern_White_Space'' < 50" "UPROP ''XID_Start1'' < 50"
    "UPROP ''Other_ID_Continue'' < 50" "UPROP ''XID_Continue1'' < 50" "UPROP ''Changes_When_Titlecased1'' < 50"
    "UPROP ''Changes_When_Casefolded1'' < 50" "UPROP ''Changes_When_NFKC_Casefolded1'' < 50"
    "UPROP ''ID_Start'' < 50" "UPROP ''ID_Continue1'' < 50"
    by code_simp+
  show ?thesis
    by (simp add: program_of_def prop_programs_def derived_sets_def POP_STACK_LEN_MAX_def prop_table_length g p
        gc_member_mask gc_member_M case_member_changed in_prop_def [abs_def] letters_def)
qed

lemma program_of_map_of:
  "list_all2 program_of ps ds \<Longrightarrow>
   (case map_of ps n of
      None \<Rightarrow> map_of ds n = None
    | Some ap \<Rightarrow> \<exists>S. map_of ds n = Some S \<and> pop_sem [] ap = Some [S] \<and> length ap \<le> 16)"
  by (induction rule: list_all2_induct) (auto simp: program_of_def split: option.splits)

lemma map_of_enum_pos:
  assumes "\<forall>(n, p)\<in>set l. n \<in> set xs" and "k \<in> set xs"
  shows "map_of (map (\<lambda>(n, p). (enum_pos xs n, p)) l) (enum_pos xs k) = map_of l k"
  using assms(1)
proof (induction l)
  case (Cons e l)
  then show ?case using enum_pos_inj [OF assms(2), of "fst e"] by (cases e) auto
qed simp

lemma name_index_bounds: "pos \<ge> 0 \<Longrightarrow> name_index ss nm pos = -1 \<or> pos \<le> name_index ss nm pos \<and> name_index ss nm pos < pos + int (length ss)"
proof (induction ss arbitrary: pos)
  case (Cons s ss)
  then have "name_index ss nm (pos + 1) = -1 \<or>
      pos + 1 \<le> name_index ss nm (pos + 1) \<and> name_index ss nm (pos + 1) < pos + 1 + int (length ss)"
    by simp
  then show ?case by auto
qed simp

lemma find_name_eq:
  assumes "\<forall>s\<in>set entries. entry_ok s" and "0 \<notin> set nm"
  shows "unicode_find_name (c_string_table entries) (nm @ 0 # t) = Some (name_index entries nm 0)"
  using find_name_loop_index [OF assms] assms(2) by (simp add: unicode_find_name_def c_strlen_append)

definition program_names :: "string list" where
  "program_names =
     [''Assigned'', ''Math'', ''Lowercase'', ''Uppercase'', ''Cased'', ''Alphabetic'', ''Grapheme_Base'',
      ''Grapheme_Extend'', ''XID_Start'', ''XID_Continue'', ''Changes_When_Titlecased'', ''Changes_When_Casefolded'',
      ''Changes_When_NFKC_Casefolded'', ''ID_Continue'']"

definition basic_names :: "string list" where
  "basic_names = [''ASCII'', ''Any'', ''Changes_When_Uppercased'', ''Changes_When_Lowercased'', ''Changes_When_Casemapped'']"

lemma name_lists: "map fst prop_programs = program_names" "map fst basic_sets = basic_names"
  by (simp_all add: prop_programs_def program_names_def basic_sets_def basic_names_def)

lemma prop_enum_facts:
  "distinct UnicodePropertyEnum" "length UnicodePropertyEnum = 71" "length unicode_prop_name_table_entries = 53"
  "UPROP ''ASCII_Hex_Digit'' = 16" "\<forall>n\<in>set program_names. n \<in> set UnicodePropertyEnum"
  "\<forall>n\<in>set (take 19 (drop 50 UnicodePropertyEnum)). n \<in> set basic_names \<or> n \<in> set program_names"
  "\<forall>n\<in>set program_names. n \<notin> set basic_names"
  by code_simp+

lemma map_of_names: "map_of prop_programs n = None \<longleftrightarrow> n \<notin> set program_names" "map_of basic_sets n = None \<longleftrightarrow> n \<notin> set basic_names"
  by (simp_all add: map_of_eq_None_iff flip: name_lists)

text \<open>The queries with names replaced by positions resolved: what \<open>unicode_prop\<close> does for a property.\<close>

definition prop_query :: "'h CharRange \<Rightarrow> string \<Rightarrow> (int \<times> 'h CharRange) option" where
  "prop_query cr n =
     (if n = ''ASCII'' then cr_add_interval cr 0x00 (0x7f + 1)
      else if n = ''Any'' then cr_add_interval cr 0x00000 (0x10ffff + 1)
      else if n = ''Changes_When_Uppercased'' then unicode_case1 cr CASE_U
      else if n = ''Changes_When_Lowercased'' then unicode_case1 cr CASE_L
      else if n = ''Changes_When_Casemapped'' then unicode_case1 cr (CASE_U OR CASE_L OR CASE_F)
      else (case map_of prop_programs n of Some ap \<Rightarrow> unicode_prop_ops cr ap | None \<Rightarrow> unicode_prop1 cr (UPROP n)))"

lemma uprop_nth: "i < 69 \<Longrightarrow> UPROP (UnicodePropertyEnum ! i) = i"
  using enum_pos_nth [of UnicodePropertyEnum i] by (simp add: UPROP_def prop_enum_facts)

lemma uprop_small:
  assumes "i < 69" and "UnicodePropertyEnum ! i \<notin> set basic_names" and "UnicodePropertyEnum ! i \<notin> set program_names"
  shows "UPROP (UnicodePropertyEnum ! i) < length unicode_prop_table"
proof (rule ccontr)
  assume "\<not> ?thesis"
  then have "50 \<le> i" using assms(1) by (simp add: uprop_nth prop_table_length)
  then have "UnicodePropertyEnum ! i = take 19 (drop 50 UnicodePropertyEnum) ! (i - 50)" "i - 50 < 19"
    using assms(1) by (auto simp: prop_enum_facts add.commute)
  moreover have "length (take 19 (drop 50 UnicodePropertyEnum)) = 19" by (simp add: prop_enum_facts)
  ultimately have "UnicodePropertyEnum ! i \<in> set (take 19 (drop 50 UnicodePropertyEnum))" by (metis nth_mem)
  then show False using prop_enum_facts(6) assms(2,3) by blast
qed

lemma query_chain:
  assumes "\<not> a \<Longrightarrow> \<not> b \<Longrightarrow> \<not> c \<Longrightarrow> \<not> d \<Longrightarrow> \<not> e \<Longrightarrow> m = None \<Longrightarrow> x < y"
  shows "(if a then A else if b then B else if c then C else if d then D else if e then E
          else case m of Some ap \<Rightarrow> F ap | None \<Rightarrow> if y \<le> (x :: nat) then X else Y) =
         (if a then A else if b then B else if c then C else if d then D else if e then E
          else case m of Some ap \<Rightarrow> F ap | None \<Rightarrow> Y)"
  using assms by (auto split: option.splits)

lemma unicode_prop_query:
  assumes nm: "0 \<notin> set nm"
  defines "i \<equiv> name_index unicode_prop_name_table_entries nm 0"
  shows "unicode_prop cr (nm @ 0 # t) =
    (if i < 0 then Some (-2, cr) else prop_query cr (UnicodePropertyEnum ! (nat i + 16)))"
proof (cases "i < 0")
  case True
  then show ?thesis using find_name_eq [OF prop_entries_ok nm, of t]
    by (simp add: unicode_prop_def i_def unicode_prop_name_table_def)
next
  case False
  define n where "n = UnicodePropertyEnum ! (nat i + 16)"
  have i: "nat i + 16 < 69"
    using False name_index_bounds [of 0 unicode_prop_name_table_entries nm] by (simp add: i_def prop_enum_facts)
  have n: "n \<in> set UnicodePropertyEnum" "UPROP n = nat i + 16"
    using i enum_pos_nth [of UnicodePropertyEnum "nat i + 16"] by (simp_all add: n_def UPROP_def prop_enum_facts)
  have eq: "UPROP n = UPROP m \<longleftrightarrow> n = m" for m using enum_pos_inj [OF n(1)] by (simp add: UPROP_def)
  have mo: "map_of (map (\<lambda>(n, p). (UPROP n, p)) prop_programs) (UPROP n) = map_of prop_programs n"
    using map_of_enum_pos [OF _ n(1), of prop_programs] prop_enum_facts(5) by (force simp: UPROP_def simp flip: name_lists)
  have small: "UPROP n < length unicode_prop_table" if "n \<notin> set basic_names" "map_of prop_programs n = None"
    using uprop_small [OF i] that by (simp add: n_def map_of_names)
  have "unicode_prop cr (nm @ 0 # t) = prop_query cr n"
    unfolding unicode_prop_def prop_query_def unicode_prop_name_table_def find_name_eq [OF prop_entries_ok nm]
    unfolding i_def [symmetric] Option.bind.bind_lunit Let_def if_not_P [OF False] prop_enum_facts(4) n(2) [symmetric] eq mo
    using small by (intro query_chain) (auto simp: basic_names_def)
  then show ?thesis using False by (simp add: n_def)
qed

text \<open>What the property queries return for a name, errors included.\<close>

definition answers :: "nat \<Rightarrow> ('h, u32) realloc_fn \<Rightarrow> 'h CharRange \<Rightarrow> (u32 \<Rightarrow> bool) option \<Rightarrow> (int \<times> 'h CharRange) option \<Rightarrow> bool" where
  "answers N f cr S res =
     (case S of
        None \<Rightarrow> res = Some (-2, cr)
      | Some S \<Rightarrow> \<exists>r cr'. res = Some (r, cr') \<and> cr_wf N f cr' \<and>
          (r = -1 \<or> r = 0 \<and> cr_sorted (cr_data cr') \<and> (\<forall>c. cr_mem (cr_data cr') c \<longleftrightarrow> S c)))"

lemma builds_answers: "builds N f B S res \<Longrightarrow> answers N f cr (Some S) res"
  by (auto simp: builds_def answers_def cr_is_def)

context cr_reallocator
begin

lemma interval_builds:
  assumes "cr_wf N rf cr" and "cr_len cr = 0" and "2 \<le> N" and "c1 \<le> c2"
  shows "builds N rf 2 (\<lambda>c. c1 \<le> c \<and> c < c2) (cr_add_interval cr c1 c2)"
proof -
  have "cr_gives N rf [c1, c2] (cr_add_interval cr c1 c2)"
    using cr_add_interval_gives [OF assms(1), of c1 c2] assms(2,3) by (simp add: cr_data_def)
  then show ?thesis using assms(4) by (intro buildsI) (auto simp: cr_sorted_def)
qed

lemma prop_query_builds:
  assumes cr: "cr_wf N rf cr" "cr_len cr = 0" and N: "2 ^ 26 \<le> N"
    and i: "n \<notin> set program_names \<Longrightarrow> n \<notin> set basic_names \<Longrightarrow> UPROP n < length unicode_prop_table"
  shows "\<exists>B. builds N rf B (prop_member n) (prop_query cr n)"
proof -
  have N2: "2 ^ 22 \<le> N" "2 \<le> N" using N by simp_all
  note case1 = case1_builds [OF cr N2(1)]
  have 7: "(c :: u32) < 0x80 \<longleftrightarrow> c \<le> 0x7f" "(c :: u32) < 0x110000 \<longleftrightarrow> c \<le> 0x10ffff" for c
    using u32_less_inc [of "0x7f" c] u32_less_inc [of "0x10ffff" c] by simp_all
  note sets = program_of_map_of [OF prop_programs_sets, of n]
  consider (basic) "n \<in> set basic_names" | (prog) "n \<in> set program_names" "n \<notin> set basic_names"
    | (table) "n \<notin> set program_names" "n \<notin> set basic_names"
    by blast
  then show ?thesis
  proof cases
    case prog
    then obtain ap where ap: "map_of prop_programs n = Some ap" using map_of_names(1) [of n] by auto
    then obtain S where S: "map_of derived_sets n = Some S" "pop_sem [] ap = Some [S]" "length ap \<le> 16"
      using sets by auto
    have "prop_query cr n = unicode_prop_ops cr ap" "prop_member n = S"
      using ap S(1) prog(2) map_of_names(2) [of n]
      by (simp_all add: prop_query_def prop_member_def basic_names_def map_add_def)
    then show ?thesis using prop_ops_builds [OF cr(1) S(2)] S(3) N by auto
  next
    case table
    then have "map_of prop_programs n = None" "map_of basic_sets n = None" by (simp_all add: map_of_names)
    moreover from this have "map_of derived_sets n = None" using sets by simp
    ultimately have "prop_query cr n = unicode_prop1 cr (UPROP n)" "prop_member n = in_prop n"
      using table(2) by (simp_all add: prop_query_def prop_member_def basic_names_def map_add_def)
    then show ?thesis using prop1_builds [OF cr N2(1) i [OF table]] by (auto simp: in_prop_def [abs_def])
  next
    case basic
    have m: "prop_member ''ASCII'' = (\<lambda>c. c \<le> 0x7f)" "prop_member ''Any'' = (\<lambda>c. c \<le> 0x10ffff)"
      "prop_member ''Changes_When_Uppercased'' = changed_by [0]" "prop_member ''Changes_When_Lowercased'' = changed_by [1]"
      "prop_member ''Changes_When_Casemapped'' = changed_by [0, 1, 2]"
      by (simp_all add: prop_member_def basic_sets_def)
    have q: "prop_query cr ''ASCII'' = cr_add_interval cr 0 0x80" "prop_query cr ''Any'' = cr_add_interval cr 0 0x110000"
      "prop_query cr ''Changes_When_Uppercased'' = unicode_case1 cr CASE_U"
      "prop_query cr ''Changes_When_Lowercased'' = unicode_case1 cr CASE_L"
      "prop_query cr ''Changes_When_Casemapped'' = unicode_case1 cr (CASE_U OR CASE_L OR CASE_F)"
      by (simp_all add: prop_query_def)
    have iv: "builds N rf 2 (\<lambda>c. c < c2) (cr_add_interval cr 0 c2)" for c2
      using interval_builds [OF cr N2(2), of 0 c2] by simp
    consider "n = ''ASCII''" | "n = ''Any''" | "n = ''Changes_When_Uppercased''" | "n = ''Changes_When_Lowercased''"
      | "n = ''Changes_When_Casemapped''"
      using basic by (simp only: basic_names_def list.set insert_iff empty_iff) blast
    then show ?thesis
    proof cases
      case 1
      show ?thesis unfolding 1 m q 7 [symmetric] by (rule exI, rule iv)
    next
      case 2
      show ?thesis unfolding 2 m q 7 [symmetric] by (rule exI, rule iv)
    qed (simp_all only: m q, unfold case_member_changed [symmetric], (rule exI, rule case1)+)
  qed
qed

end

subsection \<open>The queries return the sets\<close>

text \<open>The names of \<open>\p{...}\<close> without a value: the property a name stands for, if any.\<close>

definition named_prop :: "u8 list \<Rightarrow> string option" where
  "named_prop nm =
     (let i = name_index unicode_prop_name_table_entries nm 0 in
      if i < 0 then None else Some (UnicodePropertyEnum ! (nat i + 16)))"



text \<open>The general categories by name: a category alone or one of the groups.\<close>

definition gc_groups :: "string list list" where
  "gc_groups =
     [[''Lu'', ''Ll'', ''Lt''], [''Lu'', ''Ll'', ''Lt'', ''Lm'', ''Lo''], [''Mn'', ''Mc'', ''Me''], [''Nd'', ''Nl'', ''No''],
      [''Sm'', ''Sc'', ''Sk'', ''So''], [''Pc'', ''Pd'', ''Ps'', ''Pe'', ''Pi'', ''Pf'', ''Po''], [''Zs'', ''Zl'', ''Zp''],
      [''Cc'', ''Cf'', ''Cs'', ''Co'', ''Cn'']]"

definition named_gcs :: "u8 list \<Rightarrow> string list option" where
  "named_gcs nm =
     (let i = nat (name_index unicode_gc_name_table_entries nm 0) in
      if name_index unicode_gc_name_table_entries nm 0 < 0 then None
      else Some (if i < 30 then [UnicodeGCEnum ! i] else gc_groups ! (i - 30)))"

lemma gc_enum_facts:
  "distinct UnicodeGCEnum" "length UnicodeGCEnum = 39" "length unicode_gc_name_table_entries = 38" "length gc_groups = 8"
  "enum_pos UnicodeGCEnum ''Co'' = 29" "enum_pos UnicodeGCEnum ''LC'' = 30"
  "\<forall>gs\<in>set gc_groups. \<forall>g\<in>set gs. enum_pos UnicodeGCEnum g < 32"
  by code_simp+

lemma gc_mask_groups: "unicode_gc_mask_table = map gc_mask_of gc_groups"
  by (simp add: unicode_gc_mask_table_def gc_groups_def)

lemma general_category_mask:
  assumes nm: "0 \<notin> set nm"
  shows "unicode_general_category cr (nm @ 0 # t) =
     (case named_gcs nm of None \<Rightarrow> Some (-2, cr) | Some gs \<Rightarrow> unicode_general_category1 cr (gc_mask_of gs))"
proof -
  define i where "i = name_index unicode_gc_name_table_entries nm 0"
  have b: "i = -1 \<or> 0 \<le> i \<and> i < 38"
    using name_index_bounds [of 0 unicode_gc_name_table_entries nm] by (simp add: i_def gc_enum_facts)
  have m: "gc_mask_of [UnicodeGCEnum ! nat i] = push_bit (nat i) 1" if "0 \<le> i" "i < 30"
    using that enum_pos_nth [of UnicodeGCEnum "nat i"] by (simp add: gc_enum_facts gc_mask_of_def M_def)
  have "rdi unicode_gc_mask_table (i - 30) = Some (gc_mask_of (gc_groups ! nat (i - 30)))" if "30 \<le> i"
    using that b by (simp add: rdi_def rd_def gc_mask_groups gc_enum_facts)
  then show ?thesis
    using b m find_name_eq [OF gc_entries_ok nm, of t]
    by (auto simp: unicode_general_category_def named_gcs_def unicode_gc_name_table_def Let_def gc_enum_facts nat_diff_distrib
        simp flip: i_def)
qed

lemma named_gcs_pos: "named_gcs nm = Some gs \<Longrightarrow> g \<in> set gs \<Longrightarrow> enum_pos UnicodeGCEnum g < 32"
proof -
  assume a: "named_gcs nm = Some gs" "g \<in> set gs"
  define i where "i = name_index unicode_gc_name_table_entries nm 0"
  have "i = -1 \<or> 0 \<le> i \<and> i < 38"
    using name_index_bounds [of 0 unicode_gc_name_table_entries nm] by (simp add: i_def gc_enum_facts)
  moreover have "gc_groups ! k \<in> set gc_groups" if "k < 8" for k using that by (simp add: gc_enum_facts)
  ultimately show ?thesis
    using a gc_enum_facts(7) enum_pos_nth [of UnicodeGCEnum "nat i"]
    by (fastforce simp: named_gcs_def Let_def gc_enum_facts simp flip: i_def split: if_splits)
qed

text \<open>
  Claim C30. \<open>unicode_general_category\<close> returns \<open>-2\<close> for an unknown name, and otherwise the sorted
  range of the code points whose category is the named one or one of the named group, or \<open>-1\<close>
  when the allocator fails; the packed table is read to its end and no further.
\<close>

theorem unicode_general_category_set:
  assumes "cr_reallocator f" and "cr_wf N f cr" and "cr_len cr = 0" and "2 ^ 22 \<le> N" and "0 \<notin> set nm"
  shows "answers N f cr (map_option in_gc (named_gcs nm)) (unicode_general_category cr (nm @ 0 # t))"
proof (cases "named_gcs nm")
  case None
  then show ?thesis using general_category_mask [OF assms(5), of cr t] by (simp add: answers_def)
next
  case (Some gs)
  have "gc_member (gc_mask_of gs) = in_gc gs" using named_gcs_pos [OF Some] by (intro gc_member_mask) blast
  then show ?thesis
    using general_category_mask [OF assms(5), of cr t] Some cr_reallocator.gc1_builds [OF assms(1-4), of "gc_mask_of gs"]
    by (auto intro: builds_answers)
qed

theorem unicode_general_category_set_witness:
  "answers (2 ^ 22) cr_default_realloc (cr_init 5000 cr_default_realloc) (Some (in_gc [''Nd'', ''Nl'', ''No'']))
     (unicode_general_category (cr_init 5000 cr_default_realloc) (c_bytes ''Number'' @ [0]))"
proof -
  have "0 \<notin> set (c_bytes ''Number'')" "named_gcs (c_bytes ''Number'') = Some [''Nd'', ''Nl'', ''No'']" by code_simp+
  then show ?thesis
    using unicode_general_category_set [OF crd.cr_reallocator_axioms, of "2 ^ 22" "cr_init 5000 cr_default_realloc" "c_bytes ''Number''" "[]"]
    by simp
qed

end
