(* ===== verification/Unicode_Script.thy ===== *)
theory Unicode_Script
  imports Unicode_Prop
begin

text \<open>
  The script query of \<open>libunicode.c\<close>: \<open>unicode_script\<close> with and without script extensions. The
  range of the scripts and the one of the extensions are built in turn from the same allocator
  and combined into the result.
\<close>

subsection \<open>The query\<close>

text \<open>
  The function up to its label \<open>fail\<close>: a result of \<open>-1\<close> means that the label was reached.
\<close>

definition script_ranges :: "'h CharRange \<Rightarrow> int \<Rightarrow> bool \<Rightarrow> (int \<times> 'h CharRange) option" where
  "script_ranges cr script_idx is_ext =
     (let is_common = (script_idx = int (enum_pos UnicodeScriptEnum ''Common'') \<or>
                       script_idx = int (enum_pos UnicodeScriptEnum ''Inherited''));
          f = cr_realloc_func cr in
      if is_ext then
        do {
          (r, cr1) \<leftarrow> script_loop (cr_init (cr_mem_opaque cr) f) unicode_script_table (of_int script_idx) 0 0;
          if r \<noteq> 0 then Some (-1, cr\<lparr>cr_mem_opaque := cr_mem_opaque cr1\<rparr>)
          else do {
            (r, cr2) \<leftarrow> ext_loop (cr_init (cr_mem_opaque cr1) f) unicode_script_ext_table (of_int script_idx) is_common 0 0;
            if r \<noteq> 0 then Some (-1, cr\<lparr>cr_mem_opaque := cr_mem_opaque cr2\<rparr>)
            else do {
              (r, cr2) \<leftarrow> (if is_common then cr_invert cr2 else Some (0, cr2));
              if r \<noteq> 0 then Some (-1, cr\<lparr>cr_mem_opaque := cr_mem_opaque cr2\<rparr>)
              else do {
                (r, cr) \<leftarrow> cr_op (cr\<lparr>cr_mem_opaque := cr_mem_opaque cr2\<rparr>)
                   (cr_points cr1) (cr_len cr1) (cr_points cr2) (cr_len cr2)
                   (if is_common then CR_OP_INTER else CR_OP_UNION);
                if r \<noteq> 0 then Some (-1, cr)
                else
                  (let h = cr_free (cr1\<lparr>cr_mem_opaque := cr_mem_opaque cr\<rparr>);
                       h = cr_free (cr2\<lparr>cr_mem_opaque := h\<rparr>) in
                   Some (0, cr\<lparr>cr_mem_opaque := h\<rparr>))
              }
            }
          }
        }
      else script_loop cr unicode_script_table (of_int script_idx) 0 0)"

text \<open>
  The code after the label frees the two ranges and jumps back to the label, so it never returns:
  no result.
\<close>

definition unicode_script :: "'h CharRange \<Rightarrow> u8 list \<Rightarrow> bool \<Rightarrow> (int \<times> 'h CharRange) option" where
  "unicode_script cr script_name is_ext =
     do {
       script_idx \<leftarrow> unicode_find_name unicode_script_name_table script_name;
       if script_idx < 0 then Some (-2, cr)
       else do {
         let script_idx = script_idx + int (enum_pos UnicodeScriptEnum ''Unknown'') + 1;
         (r, cr) \<leftarrow> script_ranges cr script_idx is_ext;
         if r \<noteq> 0 then None else Some (0, cr)
       }
     }"

subsection \<open>The sets\<close>

definition script_of :: "u32 \<Rightarrow> nat option" where
  "script_of c = (case script_runs unicode_script_table of None \<Rightarrow> None | Some rs \<Rightarrow> map_option fst (run_at rs (unat c)))"

definition exts_of :: "u32 \<Rightarrow> nat list" where
  "exts_of c =
     (case ext_runs unicode_script_ext_table of
        None \<Rightarrow> []
      | Some rs \<Rightarrow> (case run_at rs (unat c) of None \<Rightarrow> [] | Some (vs, k) \<Rightarrow> vs))"

definition common_script :: "nat \<Rightarrow> bool" where
  "common_script i \<longleftrightarrow> i = enum_pos UnicodeScriptEnum ''Common'' \<or> i = enum_pos UnicodeScriptEnum ''Inherited''"

definition script_member :: "nat \<Rightarrow> bool \<Rightarrow> u32 \<Rightarrow> bool" where
  "script_member i is_ext c \<longleftrightarrow>
     (if \<not> is_ext then script_of c = Some i
      else if common_script i then script_of c = Some i \<and> exts_of c = []
      else script_of c = Some i \<or> i \<in> set (exts_of c))"

text \<open>The number of the script a name stands for; the name table leaves out \<open>Unknown\<close>.\<close>

definition named_script :: "u8 list \<Rightarrow> nat option" where
  "named_script nm =
     (let i = name_index unicode_script_name_table_entries nm 0 in
      if i < 0 then None else Some (nat i + 1))"

lemma script_table_runs: "\<exists>rs. script_runs unicode_script_table = Some rs \<and> runs_total rs = 918000"
  using unicode_script_table_script_total by (auto simp: script_total_def)

lemma ext_table_runs: "\<exists>rs. ext_runs unicode_script_ext_table = Some rs \<and> runs_total rs = 0x110000"
  using unicode_script_ext_table_ext_total by (auto simp: ext_total_def)

lemma script_of_max: "script_of (- 1) \<noteq> Some i"
proof -
  have "run_at rs n = None" if "runs_total rs \<le> n" for rs :: "(nat \<times> nat) list" and n
    using that by (induction rs arbitrary: n) (auto simp: runs_total_def)
  moreover have "unat (- 1 :: u32) = 2 ^ 32 - 1" by (simp add: unsigned_minus_1_eq_mask mask_eq_exp_minus_1)
  moreover obtain rs where "script_runs unicode_script_table = Some rs" "runs_total rs = 918000"
    using script_table_runs by blast
  ultimately show ?thesis by (simp add: script_of_def)
qed

context cr_reallocator
begin

lemma one_seg_builds:
  assumes cr: "cr_wf N rf cr" "cr_len cr = 0" and N: "2 ^ 22 \<le> N" and t: "runs_total rs \<le> 0x110000"
  shows "builds N rf (2 ^ 22) (\<lambda>c. case run_at rs (unat c) of None \<Rightarrow> False | Some (v, k) \<Rightarrow> P v)
     (add_all cr (runs_ivs (one_seg P) rs 0))"
proof -
  let ?ivs = "runs_ivs (one_seg P) rs 0"
  have l: "length ?ivs \<le> 0x110000" using one_sets.ivs_length [of P rs 0] t by simp
  have "cr_gives N rf (iv_flat ?ivs) (add_all cr ?ivs)"
    using add_all_gives [of N cr ?ivs] cr N l by (simp add: cr_data_def)
  then show ?thesis
    using one_sets.runs_range [of rs P] t l
    by (intro buildsI [of N rf "iv_flat ?ivs"]) (auto simp: iv_flat_def length_iv_points)
qed

lemma script_loop_builds:
  assumes cr: "cr_wf N rf cr" "cr_len cr = 0" and N: "2 ^ 22 \<le> N" and i: "i < 256"
  shows "builds N rf (2 ^ 22) (\<lambda>c. script_of c = Some i) (script_loop cr unicode_script_table (of_nat i) 0 0)"
proof -
  obtain rs where rs: "script_runs unicode_script_table = Some rs" "runs_total rs = 918000" using script_table_runs by blast
  have "script_loop cr unicode_script_table (of_nat i) 0 0 = add_all cr (runs_ivs (one_seg (\<lambda>v. v = i)) rs 0)"
    using script_loop_runs [OF i, of 0 unicode_script_table rs cr 0] rs by simp
  moreover have "(case run_at rs (unat c) of None \<Rightarrow> False | Some (v, k) \<Rightarrow> v = i) \<longleftrightarrow> script_of c = Some i" for c
    using rs(1) by (auto simp: script_of_def split: option.splits)
  ultimately show ?thesis
    using one_seg_builds [OF cr N, of rs "\<lambda>v. v = i"] rs by simp
qed

lemma ext_loop_builds:
  assumes cr: "cr_wf N rf cr" "cr_len cr = 0" and N: "2 ^ 22 \<le> N" and i: "i < 256"
  shows "builds N rf (2 ^ 22) (\<lambda>c. ext_sel com i (exts_of c)) (ext_loop cr unicode_script_ext_table (of_nat i) com 0 0)"
proof -
  obtain rs where rs: "ext_runs unicode_script_ext_table = Some rs" "runs_total rs = 0x110000" using ext_table_runs by blast
  have "ext_loop cr unicode_script_ext_table (of_nat i) com 0 0 = add_all cr (runs_ivs (one_seg (ext_sel com i)) rs 0)"
    using ext_loop_runs [OF i, of 0 unicode_script_ext_table rs cr com 0] rs by simp
  moreover have "(case run_at rs (unat c) of None \<Rightarrow> False | Some (v, k) \<Rightarrow> ext_sel com i v) = ext_sel com i (exts_of c)" for c
    using rs(1) by (auto simp: exts_of_def ext_sel_def split: option.splits)
  ultimately show ?thesis
    using one_seg_builds [OF cr N, of rs "ext_sel com i"] rs by simp
qed

lemma script_ranges_builds:
  assumes cr: "cr_wf N rf cr" "cr_len cr = 0" and N: "2 ^ 24 \<le> N" and i: "i < 256"
  shows "builds N rf (2 ^ 24) (script_member i is_ext) (script_ranges cr (int i) is_ext)"
proof -
  have N2: "2 ^ 22 \<le> N" "N \<le> 2 ^ 28" and f: "cr_realloc_func cr = rf" using N cr by (simp_all add: cr_wf_def)
  define com where "com \<longleftrightarrow> common_script i"
  have com: "com \<longleftrightarrow> int i = int (enum_pos UnicodeScriptEnum ''Common'') \<or> int i = int (enum_pos UnicodeScriptEnum ''Inherited'')"
    by (simp only: com_def common_script_def of_nat_eq_iff)
  show ?thesis
  proof (cases is_ext)
    case False
    have "builds N rf (2 ^ 22) (script_member i is_ext) (script_ranges cr (int i) is_ext)"
      using script_loop_builds [OF cr N2(1) i] False by (simp add: script_ranges_def script_member_def [abs_def] Let_def)
    then show ?thesis by (auto simp: builds_def)
  next
    case True
    have mem: "script_member i is_ext = (\<lambda>c. cr_is_in (if com then CR_OP_INTER else CR_OP_UNION) (script_of c = Some i)
        (if com then c < - 1 \<and> \<not> ext_sel com i (exts_of c) else ext_sel com i (exts_of c)))"
      using True script_of_max [of i] word_order.not_eq_extremum
      by (auto simp: script_member_def Let_def ext_sel_def com_def fun_eq_iff)
    have h: "builds N rf (2 ^ 24) (script_member i is_ext) (script_ranges cr (int i) is_ext)"
      if cr1: "script_loop (cr_init (cr_mem_opaque cr) rf) unicode_script_table (of_nat i) 0 0 = Some (0, cr1)"
        "cr_is N rf cr1 (\<lambda>c. script_of c = Some i)" "cr_len cr1 \<le> 2 ^ 22" for cr1
      using ext_loop_builds [OF cr_init_simps(1) [OF N2(2)] cr_init_simps(2) N2(1) i, of com "cr_mem_opaque cr1"]
    proof (cases rule: buildsE)
      case (fail cr2)
      then show ?thesis using True f cr cr1(1) com by (auto simp: script_ranges_def Let_def builds_def simp flip: com)
    next
      case (ok cr2)
      have e: "script_ranges cr (int i) is_ext = do {
          (r, cr2) \<leftarrow> (if com then cr_invert cr2 else Some (0, cr2));
          if r \<noteq> 0 then Some (-1, cr\<lparr>cr_mem_opaque := cr_mem_opaque cr2\<rparr>)
          else do {
            (r, cr) \<leftarrow> cr_op (cr\<lparr>cr_mem_opaque := cr_mem_opaque cr2\<rparr>)
               (cr_points cr1) (cr_len cr1) (cr_points cr2) (cr_len cr2) (if com then CR_OP_INTER else CR_OP_UNION);
            if r \<noteq> 0 then Some (-1, cr)
            else Some (0, cr\<lparr>cr_mem_opaque := cr_free (cr2\<lparr>cr_mem_opaque :=
                   cr_free (cr1\<lparr>cr_mem_opaque := cr_mem_opaque cr\<rparr>)\<rparr>)\<rparr>)
          } }"
        unfolding script_ranges_def Let_def com [symmetric] f of_int_of_nat_eq using True ok(1) cr1(1) by simp
      have "builds N rf (2 ^ 22 + 2) (\<lambda>c. if com then c < - 1 \<and> \<not> ext_sel com i (exts_of c) else ext_sel com i (exts_of c))
          (if com then cr_invert cr2 else Some (0, cr2))"
        using cr_invert_is [OF ok(2)] ok N by (auto simp: builds_def)
      then show ?thesis
      proof (cases rule: buildsE)
        case (fail cr2)
        then show ?thesis using cr by (auto simp: e builds_def)
      next
        case ok2: (ok cr2')
        have "cr_len cr1 + cr_len cr2' \<le> N" "cr_wf N rf (cr\<lparr>cr_mem_opaque := cr_mem_opaque cr2'\<rparr>)"
            "cr_len (cr\<lparr>cr_mem_opaque := cr_mem_opaque cr2'\<rparr>) = 0"
          using cr1(3) ok2(3) N cr by simp_all
        from cr_op_is [OF cr1(2) ok2(2) this(2,3,1), of "if com then CR_OP_INTER else CR_OP_UNION"] show ?thesis
          using cr1(3) ok2(1,3) by (auto simp: e builds_def mem cong: if_cong)
      qed
    qed
    from script_loop_builds [OF cr_init_simps(1) [OF N2(2)] cr_init_simps(2) N2(1) i, of "cr_mem_opaque cr"] show ?thesis
    proof (cases rule: buildsE)
      case (fail cr1)
      then show ?thesis using True f cr by (auto simp: script_ranges_def Let_def builds_def)
    qed (rule h)
  qed
qed

end

lemma script_enum_facts:
  "length unicode_script_name_table_entries = 156"
  "enum_pos UnicodeScriptEnum ''Unknown'' = 0"
  by code_simp+



end
