(* ===== verification/Intrusive_List.thy ===== *)
theory Intrusive_List
  imports QJS_Prelude
begin

text \<open>
  The circular doubly linked lists of \<open>list.h\<close>, which chain the objects of the runtime without
  allocation. The memory is a partial function from addresses to list nodes; following a null or
  dangling pointer has no result. A representation predicate says which sequence of nodes hangs
  on a list head, and several disjoint lists are described together, because the clients move
  nodes from one list to another.
\<close>

subsection \<open>Nodes and memory\<close>

record 'a list_head =
  prev_ptr :: "'a option"
  next_ptr :: "'a option"

type_synonym 'a nodes = "'a \<Rightarrow> 'a list_head option"

definition get_next :: "'a nodes \<Rightarrow> 'a \<Rightarrow> 'a option" where
  "get_next h p = do { n \<leftarrow> h p; next_ptr n }"

definition get_prev :: "'a nodes \<Rightarrow> 'a \<Rightarrow> 'a option" where
  "get_prev h p = do { n \<leftarrow> h p; prev_ptr n }"

definition set_next :: "'a nodes \<Rightarrow> 'a \<Rightarrow> 'a option \<Rightarrow> 'a nodes option" where
  "set_next h p v = do { n \<leftarrow> h p; Some (h(p \<mapsto> n\<lparr>next_ptr := v\<rparr>)) }"

definition set_prev :: "'a nodes \<Rightarrow> 'a \<Rightarrow> 'a option \<Rightarrow> 'a nodes option" where
  "set_prev h p v = do { n \<leftarrow> h p; Some (h(p \<mapsto> n\<lparr>prev_ptr := v\<rparr>)) }"

subsection \<open>The operations\<close>

definition init_list_head :: "'a nodes \<Rightarrow> 'a \<Rightarrow> 'a nodes option" where
  "init_list_head h head = do { h \<leftarrow> set_prev h head (Some head); set_next h head (Some head) }"

definition list_add_between :: "'a nodes \<Rightarrow> 'a \<Rightarrow> 'a \<Rightarrow> 'a \<Rightarrow> 'a nodes option" where
  "list_add_between h el prv nxt =
     do {
       h \<leftarrow> set_next h prv (Some el);
       h \<leftarrow> set_prev h el (Some prv);
       h \<leftarrow> set_next h el (Some nxt);
       set_prev h nxt (Some el)
     }"

definition list_add :: "'a nodes \<Rightarrow> 'a \<Rightarrow> 'a \<Rightarrow> 'a nodes option" where
  "list_add h el head = do { nxt \<leftarrow> get_next h head; list_add_between h el head nxt }"

definition list_add_tail :: "'a nodes \<Rightarrow> 'a \<Rightarrow> 'a \<Rightarrow> 'a nodes option" where
  "list_add_tail h el head = do { prv \<leftarrow> get_prev h head; list_add_between h el prv head }"

definition list_del :: "'a nodes \<Rightarrow> 'a \<Rightarrow> 'a nodes option" where
  "list_del h el =
     do {
       prv \<leftarrow> get_prev h el;
       nxt \<leftarrow> get_next h el;
       h \<leftarrow> set_next h prv (Some nxt);
       h \<leftarrow> set_prev h nxt (Some prv);
       h \<leftarrow> set_prev h el None;
       set_next h el None
     }"

definition list_empty :: "'a nodes \<Rightarrow> 'a \<Rightarrow> bool option" where
  "list_empty h el = do { nxt \<leftarrow> get_next h el; Some (nxt = el) }"

subsection \<open>What a list head represents\<close>

fun linked :: "'a nodes \<Rightarrow> 'a list \<Rightarrow> bool" where
  "linked h (a # b # r) \<longleftrightarrow> get_next h a = Some b \<and> get_prev h b = Some a \<and> linked h (b # r)"
| "linked h _ = True"

definition is_list :: "'a nodes \<Rightarrow> 'a \<Rightarrow> 'a list \<Rightarrow> bool" where
  "is_list h head xs \<longleftrightarrow> distinct (head # xs) \<and> linked h (head # xs @ [head])"

lemma linked_append:
  "linked h (xs @ y # ys) \<longleftrightarrow> linked h (xs @ [y]) \<and> linked h (y # ys)"
proof (induction xs)
  case (Cons x xs)
  then show ?case by (cases xs) auto
qed simp

lemma linked_cong:
  "(\<And>a. a \<in> set (butlast xs) \<Longrightarrow> get_next h' a = get_next h a) \<Longrightarrow>
   (\<And>a. a \<in> set (tl xs) \<Longrightarrow> get_prev h' a = get_prev h a) \<Longrightarrow> linked h' xs = linked h xs"
proof (induction h xs rule: linked.induct)
  case (1 h a b r)
  then show ?case by (cases r) auto
qed auto

lemma is_list_cong:
  "(\<And>a. a \<in> set (head # xs) \<Longrightarrow> h' a = h a) \<Longrightarrow> is_list h' head xs = is_list h head xs"
  unfolding is_list_def by (intro conj_cong refl linked_cong) (auto simp: get_next_def get_prev_def dest: in_set_butlastD split: if_splits)

lemma linked_link: "linked h (xs @ [a, b]) \<Longrightarrow> get_next h a = Some b \<and> get_prev h b = Some a"
  by (subst (asm) linked_append) simp

lemma is_list_dom: "is_list h head xs \<Longrightarrow> a \<in> set (head # xs) \<Longrightarrow> \<exists>b. get_next h a = Some b"
proof -
  assume a: "is_list h head xs" "a \<in> set (head # xs)"
  then obtain ys zs where s: "head # xs = ys @ a # zs" by (meson split_list)
  then have "linked h (ys @ a # (zs @ [head]))" using a(1) by (metis append.assoc append_Cons is_list_def)
  then have "linked h (a # (zs @ [head]))" by (subst (asm) linked_append) simp
  then show ?thesis by (cases "zs @ [head]") auto
qed

text \<open>Reads after writes.\<close>

lemma set_next_simps:
  assumes "set_next h p v = Some h'"
  shows "get_next h' a = (if a = p then v else get_next h a)" "get_prev h' a = get_prev h a"
    "dom h' = dom h" "a \<noteq> p \<Longrightarrow> h' a = h a"
  using assms by (auto simp: set_next_def get_next_def get_prev_def split: Option.bind_splits if_splits)

lemma set_prev_simps:
  assumes "set_prev h p v = Some h'"
  shows "get_prev h' a = (if a = p then v else get_prev h a)" "get_next h' a = get_next h a"
    "dom h' = dom h" "a \<noteq> p \<Longrightarrow> h' a = h a"
  using assms by (auto simp: set_prev_def get_next_def get_prev_def split: Option.bind_splits if_splits)

lemma set_total: "p \<in> dom h \<Longrightarrow> \<exists>h'. set_next h p v = Some h'" "p \<in> dom h \<Longrightarrow> \<exists>h'. set_prev h p v = Some h'"
  by (auto simp: set_next_def set_prev_def)

lemma get_dom: "get_next h a = Some b \<Longrightarrow> a \<in> dom h" "get_prev h a = Some b \<Longrightarrow> a \<in> dom h"
  by (auto simp: get_next_def get_prev_def split: Option.bind_splits)

lemma list_add_between_writes:
  assumes "el \<in> dom h" and "prv \<in> dom h" and "nxt \<in> dom h"
  shows "\<exists>h'. list_add_between h el prv nxt = Some h' \<and> dom h' = dom h \<and>
    (\<forall>a. get_next h' a = (if a = el then Some nxt else if a = prv then Some el else get_next h a)) \<and>
    (\<forall>a. get_prev h' a = (if a = nxt then Some el else if a = el then Some prv else get_prev h a)) \<and>
    (\<forall>a. a \<notin> {el, prv, nxt} \<longrightarrow> h' a = h a)"
proof -
  obtain h1 where 1: "set_next h prv (Some el) = Some h1" using set_total(1) [OF assms(2)] by blast
  have d1: "dom h1 = dom h" by (rule set_next_simps(3) [OF 1])
  obtain h2 where 2: "set_prev h1 el (Some prv) = Some h2" using set_total(2) [of el h1] assms(1) d1 by blast
  have d2: "dom h2 = dom h" using set_prev_simps(3) [OF 2] d1 by simp
  obtain h3 where 3: "set_next h2 el (Some nxt) = Some h3" using set_total(1) [of el h2] assms(1) d2 by blast
  have d3: "dom h3 = dom h" using set_next_simps(3) [OF 3] d2 by simp
  obtain h4 where 4: "set_prev h3 nxt (Some el) = Some h4" using set_total(2) [of nxt h3] assms(3) d3 by blast
  show ?thesis
    by (intro exI [of _ h4])
       (auto simp: list_add_between_def 1 2 3 4 set_next_simps [OF 1] set_prev_simps [OF 2] set_next_simps [OF 3] set_prev_simps [OF 4])
qed

lemma linked_insert:
  assumes l: "linked h (xs @ p # q # ys)" and el: "el \<notin> set (xs @ p # q # ys)" and d: "distinct (butlast (xs @ p # q # ys))"
    "distinct (tl (xs @ p # q # ys))"
    and n: "\<And>a. get_next h' a = (if a = el then Some q else if a = p then Some el else get_next h a)"
    and v: "\<And>a. get_prev h' a = (if a = q then Some el else if a = el then Some p else get_prev h a)"
  shows "linked h' (xs @ p # el # q # ys)"
proof -
  have "linked h (xs @ [p])" "linked h (q # ys)"
    using l linked_append [of h xs p "q # ys"] by simp_all
  moreover have "linked h' (xs @ [p]) = linked h (xs @ [p])"
    by (rule linked_cong) (use el d in \<open>auto simp: n v butlast_append tl_append split: list.splits if_splits\<close>)
  moreover have "linked h' (q # ys) = linked h (q # ys)"
    by (rule linked_cong) (use el d in \<open>auto simp: n v butlast_append tl_append split: list.splits if_splits dest: in_set_butlastD\<close>)
  ultimately show ?thesis
    using el by (subst linked_append) (auto simp: n v)
qed

lemma linked_remove:
  assumes l: "linked h (xs @ p # el # q # ys)" and d: "distinct (butlast (xs @ p # el # q # ys))" "distinct (tl (xs @ p # el # q # ys))"
    and n: "\<And>a. get_next h' a = (if a = el then None else if a = p then Some q else get_next h a)"
    and v: "\<And>a. get_prev h' a = (if a = el then None else if a = q then Some p else get_prev h a)"
    and el: "p \<noteq> el" "q \<noteq> el"
  shows "linked h' (xs @ p # q # ys)"
proof -
  have "linked h (xs @ [p])" "linked h (q # ys)"
    using l linked_append [of h xs p "el # q # ys"] by simp_all
  moreover have "linked h' (xs @ [p]) = linked h (xs @ [p])"
    by (rule linked_cong) (use el d in \<open>auto simp: n v butlast_append tl_append split: list.splits if_splits\<close>)
  moreover have "linked h' (q # ys) = linked h (q # ys)"
    by (rule linked_cong) (use el d in \<open>auto simp: n v butlast_append tl_append split: list.splits if_splits dest: in_set_butlastD\<close>)
  ultimately show ?thesis
    using el by (subst linked_append) (auto simp: n v)
qed

lemma list_del_writes:
  assumes "get_prev h el = Some prv" and "get_next h el = Some nxt" and "prv \<in> dom h" and "nxt \<in> dom h"
  shows "\<exists>h'. list_del h el = Some h' \<and> dom h' = dom h \<and>
    (\<forall>a. get_next h' a = (if a = el then None else if a = prv then Some nxt else get_next h a)) \<and>
    (\<forall>a. get_prev h' a = (if a = el then None else if a = nxt then Some prv else get_prev h a)) \<and>
    (\<forall>a. a \<notin> {el, prv, nxt} \<longrightarrow> h' a = h a)"
proof -
  have "el \<in> dom h" using assms(1) by (rule get_dom)
  obtain h1 where 1: "set_next h prv (Some nxt) = Some h1" using set_total(1) [OF assms(3)] by blast
  have d1: "dom h1 = dom h" by (rule set_next_simps(3) [OF 1])
  obtain h2 where 2: "set_prev h1 nxt (Some prv) = Some h2" using set_total(2) [of nxt h1] assms(4) d1 by blast
  have d2: "dom h2 = dom h" using set_prev_simps(3) [OF 2] d1 by simp
  obtain h3 where 3: "set_prev h2 el None = Some h3" using set_total(2) [of el h2] \<open>el \<in> dom h\<close> d2 by blast
  have d3: "dom h3 = dom h" using set_prev_simps(3) [OF 3] d2 by simp
  obtain h4 where 4: "set_next h3 el None = Some h4" using set_total(1) [of el h3] \<open>el \<in> dom h\<close> d3 by blast
  show ?thesis
    by (intro exI [of _ h4])
       (auto simp: list_del_def assms 1 2 3 4 set_next_simps [OF 1] set_prev_simps [OF 2] set_prev_simps [OF 3] set_next_simps [OF 4])
qed

text \<open>The operations on one list, with the nodes they touch.\<close>

lemma is_list_links:
  assumes "is_list h head (ys @ zs)"
  shows "get_next h (last (head # ys)) = Some (List.hd (zs @ [head]))" "get_prev h (List.hd (zs @ [head])) = Some (last (head # ys))"
proof -
  have "linked h (butlast (head # ys) @ last (head # ys) # List.hd (zs @ [head]) # tl (zs @ [head]))"
    using assms by (cases ys rule: rev_cases; cases zs) (auto simp: is_list_def)
  then show "get_next h (last (head # ys)) = Some (List.hd (zs @ [head]))" "get_prev h (List.hd (zs @ [head])) = Some (last (head # ys))"
    using linked_append by (metis linked.simps(1))+
qed

lemma is_list_insert:
  assumes l: "is_list h head (ys @ zs)" and el: "el \<in> dom h" "el \<notin> set (head # ys @ zs)"
  shows "\<exists>h'. list_add_between h el (last (head # ys)) (List.hd (zs @ [head])) = Some h' \<and> is_list h' head (ys @ el # zs) \<and>
     dom h' = dom h \<and> (\<forall>a. a \<notin> set (el # head # ys @ zs) \<longrightarrow> h' a = h a)"
proof -
  let ?p = "last (head # ys)" and ?q = "List.hd (zs @ [head])"
  have pq: "?p \<in> dom h" "?q \<in> dom h" using is_list_links [OF l] get_dom by metis+
  obtain h' where h': "list_add_between h el ?p ?q = Some h'" "dom h' = dom h"
      "\<forall>a. get_next h' a = (if a = el then Some ?q else if a = ?p then Some el else get_next h a)"
      "\<forall>a. get_prev h' a = (if a = ?q then Some el else if a = el then Some ?p else get_prev h a)"
      "\<forall>a. a \<notin> {el, ?p, ?q} \<longrightarrow> h' a = h a"
    using list_add_between_writes [OF el(1) pq] by blast
  have e: "butlast (head # ys) @ ?p # ?q # tl (zs @ [head]) = head # (ys @ zs) @ [head]"
    "butlast (head # ys) @ ?p # el # ?q # tl (zs @ [head]) = head # (ys @ el # zs) @ [head]"
    by (cases ys rule: rev_cases; cases zs; simp)+
  have "linked h' (butlast (head # ys) @ ?p # el # ?q # tl (zs @ [head]))"
    by (rule linked_insert [OF _ _ _ _ h'(3,4) [rule_format]]) (use l el(2) in \<open>auto simp only: e\<close>, auto simp: is_list_def butlast_append)
  then have "is_list h' head (ys @ el # zs)" using l el(2) by (simp only: e) (auto simp: is_list_def)
  moreover have "?p \<in> set (head # ys @ zs)" "?q \<in> set (head # ys @ zs)" by (cases zs; auto)+
  ultimately show ?thesis using h' by (intro exI [of _ h']) auto
qed

lemma is_list_remove:
  assumes l: "is_list h head (ys @ el # zs)"
  shows "\<exists>h'. list_del h el = Some h' \<and> is_list h' head (ys @ zs) \<and> get_next h' el = None \<and> get_prev h' el = None \<and>
     dom h' = dom h \<and> (\<forall>a. a \<notin> set (el # head # ys @ zs) \<longrightarrow> h' a = h a)"
proof -
  let ?p = "last (head # ys)" and ?q = "List.hd (zs @ [head])"
  have 1: "get_next h ?p = Some el" "get_prev h el = Some ?p" using is_list_links [of h head ys "el # zs"] l by auto
  have 2: "get_next h el = Some ?q" "get_prev h ?q = Some el"
    using is_list_links [of h head "ys @ [el]" zs] l by auto
  have pq: "?p \<in> dom h" "?q \<in> dom h" using 1 2 get_dom by metis+
  have ne: "?p \<noteq> el" "?q \<noteq> el" using l by (auto simp: is_list_def hd_append)
  obtain h' where h': "list_del h el = Some h'" "dom h' = dom h"
      "\<forall>a. get_next h' a = (if a = el then None else if a = ?p then Some ?q else get_next h a)"
      "\<forall>a. get_prev h' a = (if a = el then None else if a = ?q then Some ?p else get_prev h a)"
      "\<forall>a. a \<notin> {el, ?p, ?q} \<longrightarrow> h' a = h a"
    using list_del_writes [OF 1(2) 2(1) pq] by blast
  have e: "butlast (head # ys) @ ?p # ?q # tl (zs @ [head]) = head # (ys @ zs) @ [head]"
    "butlast (head # ys) @ ?p # el # ?q # tl (zs @ [head]) = head # (ys @ el # zs) @ [head]"
    by (cases ys rule: rev_cases; cases zs; simp)+
  have "linked h' (butlast (head # ys) @ ?p # ?q # tl (zs @ [head]))"
    by (rule linked_remove [OF _ _ _ h'(3,4) [rule_format] ne]) (use l in \<open>auto simp only: e\<close>, auto simp: is_list_def butlast_append)
  then have "is_list h' head (ys @ zs)" using l by (simp only: e) (auto simp: is_list_def)
  moreover have "?p \<in> set (head # ys @ zs)" "?q \<in> set (head # ys @ zs)" by (cases zs; auto)+
  ultimately show ?thesis using h' by (intro exI [of _ h']) auto
qed

text \<open>The list operations on sequences.\<close>

lemma init_list_head_nil: "head \<in> dom h \<Longrightarrow> \<exists>h'. init_list_head h head = Some h' \<and> is_list h' head [] \<and> dom h' = dom h \<and>
    (\<forall>a. a \<noteq> head \<longrightarrow> h' a = h a)"
  by (auto simp: init_list_head_def set_prev_def set_next_def is_list_def get_next_def get_prev_def)

lemma list_add_cons:
  assumes "is_list h head xs" and "el \<in> dom h" and "el \<notin> set (head # xs)"
  shows "\<exists>h'. list_add h el head = Some h' \<and> is_list h' head (el # xs) \<and> dom h' = dom h \<and>
    (\<forall>a. a \<notin> set (el # head # xs) \<longrightarrow> h' a = h a)"
  using is_list_insert [of h head "[]" xs el] is_list_links [of h head "[]" xs] assms by (simp add: list_add_def)

lemma list_add_tail_snoc:
  assumes "is_list h head xs" and "el \<in> dom h" and "el \<notin> set (head # xs)"
  shows "\<exists>h'. list_add_tail h el head = Some h' \<and> is_list h' head (xs @ [el]) \<and> dom h' = dom h \<and>
    (\<forall>a. a \<notin> set (el # head # xs) \<longrightarrow> h' a = h a)"
  using is_list_insert [of h head xs "[]" el] is_list_links [of h head xs "[]"] assms by (simp add: list_add_tail_def)

lemma list_del_remove:
  assumes "is_list h head xs" and "el \<in> set xs"
  shows "\<exists>h'. list_del h el = Some h' \<and> is_list h' head (remove1 el xs) \<and> get_next h' el = None \<and> get_prev h' el = None \<and>
    dom h' = dom h \<and> (\<forall>a. a \<notin> set (head # xs) \<longrightarrow> h' a = h a)"
proof -
  obtain ys zs where xs: "xs = ys @ el # zs" "el \<notin> set ys" using assms(2) by (meson split_list_first)
  then show ?thesis using is_list_remove [of h head ys el zs] assms(1) by (auto simp: remove1_append)
qed

lemma list_empty_nil: "is_list h head xs \<Longrightarrow> list_empty h head = Some (xs = [])"
  using is_list_links [of h head "[]" xs] by (cases xs) (auto simp: list_empty_def is_list_def)

lemma list_next:
  assumes "is_list h head (ys @ el # zs)"
  shows "get_next h el = Some (case zs of [] \<Rightarrow> head | z # _ \<Rightarrow> z)"
  using is_list_links(1) [of h head "ys @ [el]" zs] assms by (auto split: list.splits)

lemma list_first: "is_list h head xs \<Longrightarrow> get_next h head = Some (case xs of [] \<Rightarrow> head | x # _ \<Rightarrow> x)"
  using is_list_links(1) [of h head "[]" xs] by (auto split: list.splits)

subsection \<open>Several lists\<close>

text \<open>
  The clients keep several lists over disjoint nodes and move nodes between them: \<open>f head\<close> is the
  sequence of each list head. Nodes of the memory outside the lists are not constrained.
\<close>

definition in_lists :: "'a set \<Rightarrow> ('a \<Rightarrow> 'a list) \<Rightarrow> 'a set" where
  "in_lists heads f = (\<Union>head\<in>heads. insert head (set (f head)))"

definition lists_of :: "'a nodes \<Rightarrow> 'a set \<Rightarrow> ('a \<Rightarrow> 'a list) \<Rightarrow> bool" where
  "lists_of h heads f \<longleftrightarrow>
     (\<forall>a\<in>heads. is_list h a (f a)) \<and>
     (\<forall>a\<in>heads. \<forall>b\<in>heads. a \<noteq> b \<longrightarrow> set (a # f a) \<inter> set (b # f b) = {})"

lemma lists_of_disjoint:
  "lists_of h heads f \<Longrightarrow> a \<in> heads \<Longrightarrow> b \<in> heads \<Longrightarrow> a \<noteq> b \<Longrightarrow> x \<in> set (a # f a) \<Longrightarrow> x \<notin> set (b # f b)"
  unfolding lists_of_def by blast

lemma lists_of_upd:
  assumes l: "lists_of h heads f" and a: "a \<in> heads" and n: "is_list h' a xs"
    and s: "set xs \<inter> (\<Union>b\<in>heads - {a}. insert b (set (f b))) = {}"
    and fr: "\<And>x. x \<notin> set (a # f a) \<union> set xs \<Longrightarrow> h' x = h x"
  shows "lists_of h' heads (f(a := xs))"
proof -
  have "is_list h' b (f b)" if b: "b \<in> heads" "b \<noteq> a" for b
  proof -
    have "set (b # f b) \<inter> set (a # f a) = {}" "set (b # f b) \<inter> set xs = {}"
      using l a b s by (auto simp: lists_of_def)
    then have "is_list h' b (f b) = is_list h b (f b)" by (intro is_list_cong fr) blast
    then show ?thesis using l b by (simp add: lists_of_def)
  qed
  then show ?thesis using l a n s by (auto simp: lists_of_def)
qed

lemma lists_of_del:
  assumes l: "lists_of h heads f" and a: "a \<in> heads" and el: "el \<in> set (f a)"
  shows "\<exists>h'. list_del h el = Some h' \<and> lists_of h' heads (f(a := remove1 el (f a))) \<and> dom h' = dom h \<and>
     (\<forall>x. x \<notin> set (a # f a) \<longrightarrow> h' x = h x)"
proof -
  have "is_list h a (f a)" using l a by (simp add: lists_of_def)
  from list_del_remove [OF this el] obtain h' where h': "list_del h el = Some h'" "is_list h' a (remove1 el (f a))"
      "dom h' = dom h" "\<forall>x. x \<notin> set (a # f a) \<longrightarrow> h' x = h x"
    by blast
  have "lists_of h' heads (f(a := remove1 el (f a)))"
    using h'(2,4) l a set_remove1_subset [of el "f a"] by (intro lists_of_upd [OF l a]) (fastforce simp: lists_of_def)+
  with h' show ?thesis by blast
qed

lemma lists_of_add:
  assumes l: "lists_of h heads f" and a: "a \<in> heads" and el: "el \<in> dom h" "el \<notin> in_lists heads f"
  shows "\<exists>h'. list_add_tail h el a = Some h' \<and> lists_of h' heads (f(a := f a @ [el])) \<and> dom h' = dom h"
    and "\<exists>h'. list_add h el a = Some h' \<and> lists_of h' heads (f(a := el # f a)) \<and> dom h' = dom h"
proof -
  have i: "is_list h a (f a)" "el \<notin> set (a # f a)" using l a el by (auto simp: lists_of_def in_lists_def)
  have d: "set (ys @ f a @ zs) \<inter> (\<Union>b\<in>heads - {a}. insert b (set (f b))) = {}" if "set ys \<subseteq> {el}" "set zs \<subseteq> {el}" for ys zs
  proof (rule ccontr)
    assume "\<not> ?thesis"
    then obtain x b where x: "x \<in> set (ys @ f a @ zs)" "b \<in> heads" "b \<noteq> a" "x \<in> set (b # f b)" by auto
    then have "x = el \<or> x \<in> set (a # f a)" using that by auto
    then show False using x(2-4) el(2) lists_of_disjoint [OF l a x(2), of x] by (auto simp: in_lists_def)
  qed
  obtain h1 where 1: "list_add_tail h el a = Some h1" "is_list h1 a (f a @ [el])" "dom h1 = dom h"
      "\<forall>x. x \<notin> set (el # a # f a) \<longrightarrow> h1 x = h x"
    using list_add_tail_snoc [OF i(1) el(1) i(2)] by blast
  have "lists_of h1 heads (f(a := f a @ [el]))" by (rule lists_of_upd [OF l a 1(2)]) (use d [of "[]" "[el]"] 1(4) in auto)
  with 1 show "\<exists>h'. list_add_tail h el a = Some h' \<and> lists_of h' heads (f(a := f a @ [el])) \<and> dom h' = dom h" by blast
  obtain h2 where 2: "list_add h el a = Some h2" "is_list h2 a (el # f a)" "dom h2 = dom h"
      "\<forall>x. x \<notin> set (el # a # f a) \<longrightarrow> h2 x = h x"
    using list_add_cons [OF i(1) el(1) i(2)] by blast
  have "lists_of h2 heads (f(a := el # f a))" by (rule lists_of_upd [OF l a 2(2)]) (use d [of "[el]" "[]"] 2(4) in auto)
  with 2 show "\<exists>h'. list_add h el a = Some h' \<and> lists_of h' heads (f(a := el # f a)) \<and> dom h' = dom h" by blast
qed

lemma lists_of_init:
  assumes l: "lists_of n (heads - {a}) f" and a: "a \<in> dom n" "a \<notin> in_lists (heads - {a}) f"
  shows "\<exists>n'. init_list_head n a = Some n' \<and> lists_of n' (insert a heads) (f(a := [])) \<and> dom n' = dom n"
proof -
  obtain n' where n': "init_list_head n a = Some n'" "is_list n' a []" "dom n' = dom n" "\<forall>x. x \<noteq> a \<longrightarrow> n' x = n x"
    using init_list_head_nil [OF a(1)] by blast
  have b: "a \<notin> set (b # f b)" "is_list n' b (f b)" if "b \<in> heads" "b \<noteq> a" for b
  proof -
    show "a \<notin> set (b # f b)" using a(2) that by (auto simp: in_lists_def)
    then have "is_list n' b (f b) = is_list n b (f b)" using n'(4) by (intro is_list_cong) auto
    then show "is_list n' b (f b)" using l that by (simp add: lists_of_def)
  qed
  have "lists_of n' (insert a heads) (f(a := []))"
    unfolding lists_of_def using b n'(2) l by (auto simp: lists_of_def)
  with n' show ?thesis by blast
qed

text \<open>Moving a node to the end of a list, as the clients do it.\<close>

definition list_move_tail :: "'a nodes \<Rightarrow> 'a \<Rightarrow> 'a \<Rightarrow> 'a nodes option" where
  "list_move_tail h el head = do { h \<leftarrow> list_del h el; list_add_tail h el head }"

lemma lists_of_move:
  assumes l: "lists_of h heads f" and a: "a \<in> heads" "b \<in> heads" and el: "el \<in> set (f a)"
  defines "g \<equiv> f(a := remove1 el (f a))"
  shows "\<exists>h'. list_move_tail h el b = Some h' \<and> lists_of h' heads (g(b := g b @ [el])) \<and> dom h' = dom h"
proof -
  obtain h1 where h1: "list_del h el = Some h1" "lists_of h1 heads g" "dom h1 = dom h"
    using lists_of_del [OF l a(1) el] by (auto simp: g_def)
  have "el \<in> dom h" using l a(1) el is_list_dom [of h a "f a" el] get_dom by (fastforce simp: lists_of_def)
  moreover have "el \<notin> in_lists heads g"
  proof
    assume "el \<in> in_lists heads g"
    then obtain b where b: "b \<in> heads" "el \<in> set (b # g b)" by (auto simp: in_lists_def)
    have "is_list h a (f a)" using l a(1) by (simp add: lists_of_def)
    then have "el \<noteq> a" "el \<notin> set (remove1 el (f a))" using el by (auto simp: is_list_def)
    then show False using b lists_of_disjoint [OF l a(1) b(1), of el] el by (cases "b = a") (auto simp: g_def)
  qed
  ultimately show ?thesis
    using lists_of_add(1) [OF h1(2) a(2), of el] h1 by (auto simp: list_move_tail_def)
qed

subsection \<open>Traversals and sequences of operations\<close>

text \<open>
  The loops of the macros \<open>list_for_each\<close> and \<open>list_for_each_prev\<close>, with the visited nodes as the
  result; a traversal that does not come back to the list head has no result.
\<close>

partial_function (option) list_for_each :: "'a nodes \<Rightarrow> 'a \<Rightarrow> 'a \<Rightarrow> 'a list option" where
  [code]: "list_for_each h head el =
     (if el = head then Some []
      else do { nxt \<leftarrow> get_next h el; r \<leftarrow> list_for_each h head nxt; Some (el # r) })"

partial_function (option) list_for_each_prev :: "'a nodes \<Rightarrow> 'a \<Rightarrow> 'a \<Rightarrow> 'a list option" where
  [code]: "list_for_each_prev h head el =
     (if el = head then Some []
      else do { prv \<leftarrow> get_prev h el; r \<leftarrow> list_for_each_prev h head prv; Some (el # r) })"

definition visited :: "'a nodes \<Rightarrow> 'a \<Rightarrow> 'a list option" where
  "visited h head = do { el \<leftarrow> get_next h head; list_for_each h head el }"

definition visited_prev :: "'a nodes \<Rightarrow> 'a \<Rightarrow> 'a list option" where
  "visited_prev h head = do { el \<leftarrow> get_prev h head; list_for_each_prev h head el }"

lemma list_for_each_rest:
  "is_list h head (ys @ zs) \<Longrightarrow> list_for_each h head (List.hd (zs @ [head])) = Some zs"
proof (induction zs arbitrary: ys)
  case (Cons z zs)
  have "get_next h z = Some (List.hd (zs @ [head]))"
    using is_list_links(1) [of h head "ys @ [z]" zs] Cons.prems by simp
  moreover have "z \<noteq> head" using Cons.prems by (auto simp: is_list_def)
  ultimately show ?case using Cons.IH [of "ys @ [z]"] Cons.prems by (subst list_for_each.simps) simp
qed (simp add: list_for_each.simps)

lemma list_for_each_prev_rest:
  "is_list h head (ys @ zs) \<Longrightarrow> list_for_each_prev h head (last (head # ys)) = Some (rev ys)"
proof (induction ys arbitrary: zs rule: rev_induct)
  case (snoc y ys)
  have "get_prev h y = Some (last (head # ys))"
    using is_list_links(2) [of h head ys "y # zs"] snoc.prems by simp
  moreover have "y \<noteq> head" using snoc.prems by (auto simp: is_list_def)
  ultimately show ?case using snoc.IH [of "y # zs"] snoc.prems by (subst list_for_each_prev.simps) simp
qed (simp add: list_for_each_prev.simps)

lemma visited_list: "is_list h head xs \<Longrightarrow> visited h head = Some xs" "is_list h head xs \<Longrightarrow> visited_prev h head = Some (rev xs)"
  using is_list_links [of h head "[]" xs] list_for_each_rest [of h head "[]" xs]
    is_list_links(2) [of h head xs "[]"] list_for_each_prev_rest [of h head xs "[]"]
  by (simp_all add: visited_def visited_prev_def)

datatype 'a list_op = Add 'a 'a | Add_Tail 'a 'a | Del 'a

fun list_cmd :: "'a nodes \<Rightarrow> 'a list_op \<Rightarrow> 'a nodes option" where
  "list_cmd h (Add el head) = list_add h el head"
| "list_cmd h (Add_Tail el head) = list_add_tail h el head"
| "list_cmd h (Del el) = list_del h el"

fun list_cmds :: "'a nodes \<Rightarrow> 'a list_op list \<Rightarrow> 'a nodes option" where
  "list_cmds h [] = Some h"
| "list_cmds h (c # cs) = do { h \<leftarrow> list_cmd h c; list_cmds h cs }"

text \<open>
  What the operations promise on sequences: only loose nodes are added and only members are
  removed. The set \<open>U\<close> holds the addresses of all nodes.
\<close>

fun cmd_ok :: "'a set \<Rightarrow> 'a set \<Rightarrow> ('a \<Rightarrow> 'a list) \<Rightarrow> 'a list_op \<Rightarrow> bool" where
  "cmd_ok U heads f (Add el head) \<longleftrightarrow> head \<in> heads \<and> el \<in> U \<and> el \<notin> in_lists heads f"
| "cmd_ok U heads f (Add_Tail el head) \<longleftrightarrow> head \<in> heads \<and> el \<in> U \<and> el \<notin> in_lists heads f"
| "cmd_ok U heads f (Del el) \<longleftrightarrow> (\<exists>head\<in>heads. el \<in> set (f head))"

fun cmd_effect :: "('a \<Rightarrow> 'a list) \<Rightarrow> 'a list_op \<Rightarrow> 'a \<Rightarrow> 'a list" where
  "cmd_effect f (Add el head) = f(head := el # f head)"
| "cmd_effect f (Add_Tail el head) = f(head := f head @ [el])"
| "cmd_effect f (Del el) = (\<lambda>head. remove1 el (f head))"

fun cmds_ok :: "'a set \<Rightarrow> 'a set \<Rightarrow> ('a \<Rightarrow> 'a list) \<Rightarrow> 'a list_op list \<Rightarrow> bool" where
  "cmds_ok U heads f [] = True"
| "cmds_ok U heads f (c # cs) \<longleftrightarrow> cmd_ok U heads f c \<and> cmds_ok U heads (cmd_effect f c) cs"

lemma lists_of_cong: "(\<And>a. a \<in> heads \<Longrightarrow> f a = g a) \<Longrightarrow> lists_of h heads f = lists_of h heads g"
  by (simp add: lists_of_def)

lemma list_cmd_refines:
  assumes l: "lists_of h heads f" and ok: "cmd_ok (dom h) heads f c"
  shows "\<exists>h'. list_cmd h c = Some h' \<and> lists_of h' heads (cmd_effect f c) \<and> dom h' = dom h"
proof (cases c)
  case (Del el)
  then obtain a where a: "a \<in> heads" "el \<in> set (f a)" using ok by auto
  have "remove1 el (f b) = f b" if "b \<in> heads" "b \<noteq> a" for b
    using lists_of_disjoint [OF l a(1) that(1), of el] that a(2) by (simp add: remove1_idem)
  then have "lists_of h' heads (cmd_effect f c) = lists_of h' heads (f(a := remove1 el (f a)))" for h'
    by (intro lists_of_cong) (simp add: Del)
  then show ?thesis using lists_of_del [OF l a] Del by auto
qed (use lists_of_add [OF l] ok in auto)

text \<open>
  Claim C36. The pointer operations of \<open>list.h\<close> refine operations on sequences. From lists over
  disjoint nodes, every sequence of insertions of loose nodes and removals of members runs
  without following a null or dangling pointer; afterwards each list head carries the sequence
  that the same insertions and removals give, and both traversals, which end, visit exactly that
  sequence, forwards and backwards.
\<close>

theorem list_operations_refine:
  assumes "lists_of h heads f" and "cmds_ok (dom h) heads f cs"
  shows "\<exists>h'. list_cmds h cs = Some h' \<and>
     (\<forall>head\<in>heads. visited h' head = Some (foldl cmd_effect f cs head) \<and>
        visited_prev h' head = Some (rev (foldl cmd_effect f cs head)) \<and>
        list_empty h' head = Some (foldl cmd_effect f cs head = []))"
  using assms
proof (induction cs arbitrary: h f)
  case Nil
  then show ?case using visited_list list_empty_nil by (fastforce simp: lists_of_def)
next
  case (Cons c cs)
  obtain h1 where "list_cmd h c = Some h1" "lists_of h1 heads (cmd_effect f c)" "dom h1 = dom h"
    using list_cmd_refines [of h heads f c] Cons.prems by auto
  then show ?case using Cons.IH [of h1 "cmd_effect f c"] Cons.prems by auto
qed

definition two_lists :: "nat nodes" where
  "two_lists =
     [0 \<mapsto> \<lparr>prev_ptr = Some 2, next_ptr = Some 2\<rparr>, 1 \<mapsto> \<lparr>prev_ptr = Some 1, next_ptr = Some 1\<rparr>,
      2 \<mapsto> \<lparr>prev_ptr = Some 0, next_ptr = Some 0\<rparr>, 3 \<mapsto> \<lparr>prev_ptr = None, next_ptr = None\<rparr>]"

theorem list_operations_refine_witness:
  "\<exists>h'. list_cmds two_lists [Add 3 0, Del 2, Add_Tail 2 1] = Some h' \<and>
     visited h' 0 = Some [3] \<and> visited h' 1 = Some [2]"
proof -
  let ?f = "(\<lambda>_. [])(0 := [2])"
  have "lists_of two_lists {0, 1} ?f"
    by (auto simp: lists_of_def is_list_def two_lists_def get_next_def get_prev_def)
  moreover have "cmds_ok (dom two_lists) {0, 1} ?f [Add 3 0, Del 2, Add_Tail 2 1]"
    by (auto simp: two_lists_def in_lists_def)
  ultimately show ?thesis
    using list_operations_refine [of two_lists "{0, 1}" ?f "[Add 3 0, Del 2, Add_Tail 2 1]"] by fastforce
qed

end
