(* ===== verification/Gc_Mark.thy ===== *)
theory Gc_Mark
  imports Intrusive_List
begin

text \<open>
  The cycle collector of \<open>quickjs.c\<close>, first part: the references that the collector sees
  (\<open>mark_children\<close>), the trial deletion \<open>gc_decref\<close> and the rescue pass \<open>gc_scan\<close>. The objects of
  the runtime are chained on intrusive lists while the passes run over them and move them, so
  the model follows the pointers of the lists as the code does.
\<close>

subsection \<open>The objects the collector sees\<close>

datatype gc_ptr = GC_OBJ_LIST | TMP_OBJ_LIST | GC_ZERO_REF_COUNT_LIST | Link nat

text \<open>
  A value: a reference to an object or a function bytecode, or anything else (a number, a
  string, a symbol), which the collector does not look at.
\<close>

datatype JSValue = Val_Plain | Val_Ref nat

datatype JSProperty =
    Prop_Deleted
  | Prop_Value JSValue
  | Prop_GetSet "nat option" "nat option"
  | Prop_VarRef nat bool
  | Prop_AutoInit nat

text \<open>
  The fields with references of each type of object: for a JavaScript object its shape, its
  properties and what the \<open>gc_mark\<close> function of its class marks; for a suspended function the
  current function, \<open>this\<close> and the values on its stack, absent while it is running.
\<close>

datatype gc_fields =
    JS_OBJECT nat "JSProperty list" "nat list"
  | FUNCTION_BYTECODE "JSValue list" "nat option"
  | SHAPE "nat option"
  | VAR_REF bool JSValue
  | ASYNC_FUNCTION bool JSValue JSValue "JSValue list option" JSValue JSValue
  | JS_CONTEXT "nat list" "JSValue list" "nat option"

record JSGCObjectHeader =
  ref_count :: int
  gc_mark :: nat
  gc_data :: gc_fields

datatype JSGCPhaseEnum = JS_GC_PHASE_NONE | JS_GC_PHASE_DECREF | JS_GC_PHASE_REMOVE_CYCLES

record JSRuntime =
  gc_phase :: JSGCPhaseEnum
  nodes :: "gc_ptr nodes"
  gc_heap :: "nat \<Rightarrow> JSGCObjectHeader option"

fun JS_MarkValue :: "JSValue \<Rightarrow> nat list" where
  "JS_MarkValue (Val_Ref p) = [p]"
| "JS_MarkValue Val_Plain = []"

fun mark_property :: "JSProperty \<Rightarrow> nat list" where
  "mark_property Prop_Deleted = []"
| "mark_property (Prop_Value v) = JS_MarkValue v"
| "mark_property (Prop_GetSet getter setter) = (case getter of Some g \<Rightarrow> [g] | None \<Rightarrow> []) @ (case setter of Some s \<Rightarrow> [s] | None \<Rightarrow> [])"
| "mark_property (Prop_VarRef r is_detached) = (if is_detached then [r] else [])"
| "mark_property (Prop_AutoInit realm) = [realm]"

definition async_func_mark :: "JSValue \<Rightarrow> JSValue \<Rightarrow> JSValue list option \<Rightarrow> nat list" where
  "async_func_mark cur_func this_val stack =
     JS_MarkValue cur_func @ JS_MarkValue this_val @
     (case stack of Some vs \<Rightarrow> concat (map JS_MarkValue vs) | None \<Rightarrow> [])"

text \<open>The objects \<open>mark_func\<close> is called on, in order; a failing assertion has no result.\<close>

fun mark_children :: "gc_fields \<Rightarrow> nat list option" where
  "mark_children (JS_OBJECT sh props class_refs) = Some (sh # concat (map mark_property props) @ class_refs)"
| "mark_children (FUNCTION_BYTECODE cpool realm) =
     Some (concat (map JS_MarkValue cpool) @ (case realm of Some r \<Rightarrow> [r] | None \<Rightarrow> []))"
| "mark_children (VAR_REF is_detached v) = (if is_detached then Some (JS_MarkValue v) else None)"
| "mark_children (ASYNC_FUNCTION is_active cur_func this_val stack f0 f1) =
     Some ((if is_active then async_func_mark cur_func this_val stack else []) @ JS_MarkValue f0 @ JS_MarkValue f1)"
| "mark_children (SHAPE proto) = Some (case proto of Some p \<Rightarrow> [p] | None \<Rightarrow> [])"
| "mark_children (JS_CONTEXT modules vals array_shape) =
     Some (modules @ concat (map JS_MarkValue vals) @ (case array_shape of Some s \<Rightarrow> [s] | None \<Rightarrow> []))"

fun mark_all :: "(JSRuntime \<Rightarrow> nat \<Rightarrow> JSRuntime option) \<Rightarrow> JSRuntime \<Rightarrow> nat list \<Rightarrow> JSRuntime option" where
  "mark_all mark_func rt [] = Some rt"
| "mark_all mark_func rt (c # cs) = do { rt \<leftarrow> mark_func rt c; mark_all mark_func rt cs }"

subsection \<open>Trial deletion\<close>

definition set_header :: "JSRuntime \<Rightarrow> nat \<Rightarrow> JSGCObjectHeader \<Rightarrow> JSRuntime" where
  "set_header rt p ob = rt\<lparr>gc_heap := (gc_heap rt)(p \<mapsto> ob)\<rparr>"

definition move_object :: "JSRuntime \<Rightarrow> nat \<Rightarrow> gc_ptr \<Rightarrow> JSRuntime option" where
  "move_object rt p head = do { n \<leftarrow> list_del (nodes rt) (Link p); n \<leftarrow> list_add_tail n (Link p) head; Some (rt\<lparr>nodes := n\<rparr>) }"

definition gc_decref_child :: "JSRuntime \<Rightarrow> nat \<Rightarrow> JSRuntime option" where
  "gc_decref_child rt p =
     do {
       ob \<leftarrow> gc_heap rt p;
       if ref_count ob > 0 then
         (let ob = ob\<lparr>ref_count := ref_count ob - 1\<rparr>; rt = set_header rt p ob in
          if ref_count ob = 0 \<and> gc_mark ob = 1 then move_object rt p TMP_OBJ_LIST else Some rt)
       else None
     }"

partial_function (option) gc_decref_loop :: "JSRuntime \<Rightarrow> gc_ptr \<Rightarrow> gc_ptr \<Rightarrow> JSRuntime option" where
  [code]: "gc_decref_loop rt el el1 =
     (case el of
        Link p \<Rightarrow>
          do {
            ob \<leftarrow> gc_heap rt p;
            if gc_mark ob = 0 then do {
              cs \<leftarrow> mark_children (gc_data ob);
              rt \<leftarrow> mark_all gc_decref_child rt cs;
              ob \<leftarrow> gc_heap rt p;
              let rt = set_header rt p (ob\<lparr>gc_mark := 1\<rparr>);
              rt \<leftarrow> (if ref_count ob = 0 then move_object rt p TMP_OBJ_LIST else Some rt);
              nxt \<leftarrow> get_next (nodes rt) el1;
              gc_decref_loop rt el1 nxt
            }
            else None
          }
      | GC_OBJ_LIST \<Rightarrow> Some rt
      | _ \<Rightarrow> None)"

definition gc_decref :: "JSRuntime \<Rightarrow> JSRuntime option" where
  "gc_decref rt =
     do {
       n \<leftarrow> init_list_head (nodes rt) TMP_OBJ_LIST;
       el \<leftarrow> get_next n GC_OBJ_LIST;
       el1 \<leftarrow> get_next n el;
       gc_decref_loop (rt\<lparr>nodes := n\<rparr>) el el1
     }"

subsection \<open>Rescue\<close>

definition gc_scan_incref_child :: "JSRuntime \<Rightarrow> nat \<Rightarrow> JSRuntime option" where
  "gc_scan_incref_child rt p =
     do {
       ob \<leftarrow> gc_heap rt p;
       rc \<leftarrow> cint (ref_count ob + 1);
       let ob = ob\<lparr>ref_count := rc\<rparr>;
       if rc = 1 then do {
         rt \<leftarrow> move_object (set_header rt p ob) p GC_OBJ_LIST;
         Some (set_header rt p (ob\<lparr>gc_mark := 0\<rparr>))
       }
       else Some (set_header rt p ob)
     }"

definition gc_scan_incref_child2 :: "JSRuntime \<Rightarrow> nat \<Rightarrow> JSRuntime option" where
  "gc_scan_incref_child2 rt p =
     do { ob \<leftarrow> gc_heap rt p; rc \<leftarrow> cint (ref_count ob + 1); Some (set_header rt p (ob\<lparr>ref_count := rc\<rparr>)) }"

partial_function (option) gc_scan_loop :: "JSRuntime \<Rightarrow> gc_ptr \<Rightarrow> JSRuntime option" where
  [code]: "gc_scan_loop rt el =
     (case el of
        Link p \<Rightarrow>
          do {
            ob \<leftarrow> gc_heap rt p;
            if ref_count ob > 0 then do {
              cs \<leftarrow> mark_children (gc_data ob);
              rt \<leftarrow> mark_all gc_scan_incref_child (set_header rt p (ob\<lparr>gc_mark := 0\<rparr>)) cs;
              nxt \<leftarrow> get_next (nodes rt) el;
              gc_scan_loop rt nxt
            }
            else None
          }
      | GC_OBJ_LIST \<Rightarrow> Some rt
      | _ \<Rightarrow> None)"

partial_function (option) gc_scan_loop2 :: "JSRuntime \<Rightarrow> gc_ptr \<Rightarrow> JSRuntime option" where
  [code]: "gc_scan_loop2 rt el =
     (case el of
        Link p \<Rightarrow>
          do {
            ob \<leftarrow> gc_heap rt p;
            cs \<leftarrow> mark_children (gc_data ob);
            rt \<leftarrow> mark_all gc_scan_incref_child2 rt cs;
            nxt \<leftarrow> get_next (nodes rt) el;
            gc_scan_loop2 rt nxt
          }
      | TMP_OBJ_LIST \<Rightarrow> Some rt
      | _ \<Rightarrow> None)"

definition gc_scan :: "JSRuntime \<Rightarrow> JSRuntime option" where
  "gc_scan rt =
     do {
       el \<leftarrow> get_next (nodes rt) GC_OBJ_LIST;
       rt \<leftarrow> gc_scan_loop rt el;
       el \<leftarrow> get_next (nodes rt) TMP_OBJ_LIST;
       gc_scan_loop2 rt el
     }"

subsection \<open>The lists of the collector\<close>

definition gc_heads :: "gc_ptr set" where
  "gc_heads = {GC_OBJ_LIST, TMP_OBJ_LIST, GC_ZERO_REF_COUNT_LIST}"

definition gc_seqs :: "nat list \<Rightarrow> nat list \<Rightarrow> nat list \<Rightarrow> gc_ptr \<Rightarrow> gc_ptr list" where
  "gc_seqs gs ts zs head =
     (case head of
        GC_OBJ_LIST \<Rightarrow> map Link gs
      | TMP_OBJ_LIST \<Rightarrow> map Link ts
      | GC_ZERO_REF_COUNT_LIST \<Rightarrow> map Link zs
      | Link p \<Rightarrow> [])"

definition gc_lists :: "JSRuntime \<Rightarrow> nat list \<Rightarrow> nat list \<Rightarrow> nat list \<Rightarrow> bool" where
  "gc_lists rt gs ts zs \<longleftrightarrow> lists_of (nodes rt) gc_heads (gc_seqs gs ts zs)"

lemma gc_seqs_simps [simp]:
  "gc_seqs gs ts zs GC_OBJ_LIST = map Link gs" "gc_seqs gs ts zs TMP_OBJ_LIST = map Link ts"
  "gc_seqs gs ts zs GC_ZERO_REF_COUNT_LIST = map Link zs"
  by (simp_all add: gc_seqs_def)

lemma gc_lists_cong [simp]: "gc_lists (set_header rt p ob) gs ts zs = gc_lists rt gs ts zs"
  by (simp add: gc_lists_def set_header_def)

lemma gc_listsD:
  assumes "gc_lists rt gs ts zs"
  shows "is_list (nodes rt) GC_OBJ_LIST (map Link gs)" "is_list (nodes rt) TMP_OBJ_LIST (map Link ts)"
    "is_list (nodes rt) GC_ZERO_REF_COUNT_LIST (map Link zs)"
  using assms by (auto simp: gc_lists_def lists_of_def gc_heads_def)

lemma remove1_map_Link: "remove1 (Link p) (map Link gs) = map Link (remove1 p gs)"
  by (induction gs) auto

lemma seqs_cong: "(\<And>a. a \<in> gc_heads \<Longrightarrow> f a = g a) \<Longrightarrow> lists_of n gc_heads f = lists_of n gc_heads g"
  by (rule lists_of_cong)

lemma move_to_tmp:
  assumes l: "gc_lists rt gs ts zs" and p: "p \<in> set gs"
  shows "\<exists>n. move_object rt p TMP_OBJ_LIST = Some (rt\<lparr>nodes := n\<rparr>) \<and> gc_lists (rt\<lparr>nodes := n\<rparr>) (remove1 p gs) (ts @ [p]) zs"
proof -
  let ?f = "gc_seqs gs ts zs"
  have "\<exists>n. list_move_tail (nodes rt) (Link p) TMP_OBJ_LIST = Some n \<and>
      lists_of n gc_heads ((?f(GC_OBJ_LIST := remove1 (Link p) (?f GC_OBJ_LIST)))
        (TMP_OBJ_LIST := (?f(GC_OBJ_LIST := remove1 (Link p) (?f GC_OBJ_LIST))) TMP_OBJ_LIST @ [Link p]))"
    using lists_of_move [of "nodes rt" gc_heads ?f GC_OBJ_LIST TMP_OBJ_LIST "Link p"] l p
    by (auto simp: gc_lists_def gc_heads_def)
  then obtain n where n: "list_move_tail (nodes rt) (Link p) TMP_OBJ_LIST = Some n"
      "lists_of n gc_heads (gc_seqs (remove1 p gs) (ts @ [p]) zs)"
    by (subst (asm) seqs_cong [of _ "gc_seqs (remove1 p gs) (ts @ [p]) zs"])
       (auto simp: gc_heads_def remove1_map_Link)
  then show ?thesis
    by (intro exI [of _ n]) (auto simp: move_object_def list_move_tail_def gc_lists_def split: Option.bind_splits)
qed

lemma move_to_gc:
  assumes l: "gc_lists rt gs ts zs" and p: "p \<in> set ts"
  shows "\<exists>n. move_object rt p GC_OBJ_LIST = Some (rt\<lparr>nodes := n\<rparr>) \<and> gc_lists (rt\<lparr>nodes := n\<rparr>) (gs @ [p]) (remove1 p ts) zs"
proof -
  let ?f = "gc_seqs gs ts zs"
  have "\<exists>n. list_move_tail (nodes rt) (Link p) GC_OBJ_LIST = Some n \<and>
      lists_of n gc_heads ((?f(TMP_OBJ_LIST := remove1 (Link p) (?f TMP_OBJ_LIST)))
        (GC_OBJ_LIST := (?f(TMP_OBJ_LIST := remove1 (Link p) (?f TMP_OBJ_LIST))) GC_OBJ_LIST @ [Link p]))"
    using lists_of_move [of "nodes rt" gc_heads ?f TMP_OBJ_LIST GC_OBJ_LIST "Link p"] l p
    by (auto simp: gc_lists_def gc_heads_def)
  then obtain n where n: "list_move_tail (nodes rt) (Link p) GC_OBJ_LIST = Some n"
      "lists_of n gc_heads (gc_seqs (gs @ [p]) (remove1 p ts) zs)"
    by (subst (asm) seqs_cong [of _ "gc_seqs (gs @ [p]) (remove1 p ts) zs"])
       (auto simp: gc_heads_def remove1_map_Link)
  then show ?thesis
    by (intro exI [of _ n]) (auto simp: move_object_def list_move_tail_def gc_lists_def split: Option.bind_splits)
qed

lemma list_next_Link:
  "is_list n head (map Link (xs @ p # ys)) \<Longrightarrow> get_next n (Link p) = Some (List.hd (map Link ys @ [head]))"
  using is_list_links(1) [of n head "map Link (xs @ [p])" "map Link ys"] by simp

lemma list_first_Link: "is_list n head (map Link ys) \<Longrightarrow> get_next n head = Some (List.hd (map Link ys @ [head]))"
  using is_list_links(1) [of n head "[]" "map Link ys"] by simp

lemma gc_lists_distinct: "gc_lists rt gs ts zs \<Longrightarrow> distinct gs \<and> distinct ts \<and> set gs \<inter> set ts = {}"
proof -
  assume l: "gc_lists rt gs ts zs"
  have "Link ` set gs \<inter> Link ` set ts = {}" using l by (force simp: gc_lists_def lists_of_def gc_heads_def)
  then show ?thesis
    using gc_listsD [OF l] by (auto simp: is_list_def distinct_map)
qed

subsection \<open>Counts and marks\<close>

text \<open>The heap with other counts and marks on the objects of the collector.\<close>

definition with_counts :: "nat set \<Rightarrow> (nat \<Rightarrow> JSGCObjectHeader option) \<Rightarrow> (nat \<Rightarrow> int) \<Rightarrow> (nat \<Rightarrow> nat) \<Rightarrow> nat \<Rightarrow> JSGCObjectHeader option" where
  "with_counts X H C M = (\<lambda>q. if q \<in> X then map_option (\<lambda>ob. ob\<lparr>ref_count := C q, gc_mark := M q\<rparr>) (H q) else H q)"

lemma header_upd_commute [simp]: "ob\<lparr>gc_mark := m, ref_count := k\<rparr> = ob\<lparr>ref_count := k, gc_mark := m\<rparr>"
  for ob :: JSGCObjectHeader by (cases ob) simp

lemma with_counts_Some [simp]: "q \<in> X \<Longrightarrow> H q = Some ob \<Longrightarrow> with_counts X H C M q = Some (ob\<lparr>ref_count := C q, gc_mark := M q\<rparr>)"
  by (simp add: with_counts_def)

lemma with_counts_upd:
  "q \<in> X \<Longrightarrow> H q = Some ob \<Longrightarrow>
   (with_counts X H C M)(q \<mapsto> ob\<lparr>ref_count := c, gc_mark := m\<rparr>) = with_counts X H (C(q := c)) (M(q := m))"
  by (auto simp: with_counts_def)

text \<open>The objects an object refers to, and the number of references to an object from some others.\<close>

definition kids :: "(nat \<Rightarrow> JSGCObjectHeader option) \<Rightarrow> nat \<Rightarrow> nat list" where
  "kids H p = (case H p of None \<Rightarrow> [] | Some ob \<Rightarrow> (case mark_children (gc_data ob) of None \<Rightarrow> [] | Some cs \<Rightarrow> cs))"

definition refs :: "(nat \<Rightarrow> JSGCObjectHeader option) \<Rightarrow> nat list \<Rightarrow> nat \<Rightarrow> int" where
  "refs H ps q = (\<Sum>p\<leftarrow>ps. int (count_list (kids H p) q))"

lemma refs_simps [simp]: "refs H [] q = 0" "refs H (p # ps) q = int (count_list (kids H p) q) + refs H ps q"
  "refs H (ps @ qs) q = refs H ps q + refs H qs q"
  by (simp_all add: refs_def)

lemma refs_nonneg [simp]: "0 \<le> refs H ps q"
  by (induction ps) auto

lemma refs_pos: "p \<in> set ps \<Longrightarrow> c \<in> set (kids H p) \<Longrightarrow> 0 < refs H ps c"
proof (induction ps)
  case (Cons a ps)
  have "a = p \<Longrightarrow> count_list (kids H a) c \<noteq> 0" using Cons.prems(2) by (metis count_list_0_iff)
  then show ?case using Cons refs_nonneg [of H ps c] by (auto simp: add_pos_nonneg add_nonneg_pos)
qed simp

text \<open>
  A consistent heap: every object on the list has an unmarked header, refers only to objects on
  the list, and its count is the number of references from these objects plus \<open>ext\<close>, the number
  of references from elsewhere (the stack of the interpreter, the C code, the runtime).
\<close>

definition gc_consistent :: "(nat \<Rightarrow> JSGCObjectHeader option) \<Rightarrow> nat list \<Rightarrow> (nat \<Rightarrow> int) \<Rightarrow> bool" where
  "gc_consistent H xs ext \<longleftrightarrow>
     (\<forall>p\<in>set xs. \<exists>ob cs. H p = Some ob \<and> gc_mark ob = 0 \<and> mark_children (gc_data ob) = Some cs \<and> set cs \<subseteq> set xs \<and>
        0 \<le> ext p \<and> ref_count ob = ext p + refs H xs p \<and> ref_count ob < 2 ^ 31)"

lemma consistent_kids:
  assumes "gc_consistent H xs ext" and "p \<in> set xs"
  obtains ob where "H p = Some ob" "mark_children (gc_data ob) = Some (kids H p)" "set (kids H p) \<subseteq> set xs"
  using assms by (force simp: gc_consistent_def kids_def)

subsection \<open>Trial deletion is exact\<close>

definition zeros :: "nat list \<Rightarrow> (nat \<Rightarrow> int) \<Rightarrow> (nat \<Rightarrow> nat) \<Rightarrow> nat set" where
  "zeros xs C M = {q \<in> set xs. M q = 1 \<and> C q = 0}"

definition decref_inv :: "(nat \<Rightarrow> JSGCObjectHeader option) \<Rightarrow> nat list \<Rightarrow> nat list \<Rightarrow> (nat \<Rightarrow> int) \<Rightarrow> (nat \<Rightarrow> nat) \<Rightarrow> JSRuntime \<Rightarrow> bool" where
  "decref_inv H xs zs C M rt \<longleftrightarrow>
     gc_heap rt = with_counts (set xs) H C M \<and>
     (\<exists>ts. gc_lists rt (filter (\<lambda>q. q \<notin> zeros xs C M) xs) ts zs \<and> set ts = zeros xs C M)"

lemma decref_inv_count:
  assumes inv: "decref_inv H xs zs C M rt" and k: "C c \<noteq> 0 \<or> M c \<noteq> 1" and z: "\<not> (m' = 1 \<and> k' = 0)"
    and rt1: "gc_heap rt1 = with_counts (set xs) H (C(c := k')) (M(c := m'))" "nodes rt1 = nodes rt"
  shows "decref_inv H xs zs (C(c := k')) (M(c := m')) rt1"
proof -
  have "zeros xs (C(c := k')) (M(c := m')) = zeros xs C M" using k z by (auto simp: zeros_def)
  with inv rt1 show ?thesis by (simp add: decref_inv_def gc_lists_def)
qed

lemma decref_inv_zero:
  assumes inv: "decref_inv H xs zs C M rt" and c: "c \<in> set xs" and d: "distinct xs" and k: "C c \<noteq> 0 \<or> M c \<noteq> 1"
    and rt1: "gc_heap rt1 = with_counts (set xs) H (C(c := 0)) (M(c := 1))" "nodes rt1 = nodes rt"
  shows "\<exists>rt2. move_object rt1 c TMP_OBJ_LIST = Some rt2 \<and> decref_inv H xs zs (C(c := 0)) (M(c := 1)) rt2"
proof -
  obtain ts where ts: "gc_lists rt (filter (\<lambda>q. q \<notin> zeros xs C M) xs) ts zs" "set ts = zeros xs C M"
    using inv by (auto simp: decref_inv_def)
  have z: "zeros xs (C(c := 0)) (M(c := 1)) = insert c (zeros xs C M)" "c \<notin> zeros xs C M"
    using c k by (auto simp: zeros_def)
  have "gc_lists rt1 (filter (\<lambda>q. q \<notin> zeros xs C M) xs) ts zs" "c \<in> set (filter (\<lambda>q. q \<notin> zeros xs C M) xs)"
    using ts(1) rt1(2) c z(2) by (simp_all add: gc_lists_def)
  from move_to_tmp [OF this] obtain n where n: "move_object rt1 c TMP_OBJ_LIST = Some (rt1\<lparr>nodes := n\<rparr>)"
      "gc_lists (rt1\<lparr>nodes := n\<rparr>) (remove1 c (filter (\<lambda>q. q \<notin> zeros xs C M) xs)) (ts @ [c]) zs"
    by blast
  have "remove1 c (filter (\<lambda>q. q \<notin> zeros xs C M) xs) = filter (\<lambda>q. q \<notin> insert c (zeros xs C M)) xs"
    using d by (simp add: distinct_remove1_removeAll removeAll_filter_not_eq filter_filter)
       (rule filter_cong, auto)
  with n ts(2) rt1(1) z(1) show ?thesis by (auto simp: decref_inv_def intro!: exI [of _ "ts @ [c]"])
qed

lemma gc_decref_child_inv:
  assumes inv: "decref_inv H xs zs C M rt" and c: "c \<in> set xs" "H c = Some ob" and d: "distinct xs" and k: "0 < C c"
  shows "\<exists>rt'. gc_decref_child rt c = Some rt' \<and> decref_inv H xs zs (C(c := C c - 1)) M rt'"
proof -
  let ?rt = "set_header rt c (ob\<lparr>ref_count := C c - 1, gc_mark := M c\<rparr>)"
  have h: "gc_heap rt c = Some (ob\<lparr>ref_count := C c, gc_mark := M c\<rparr>)" using inv c by (simp add: decref_inv_def)
  have rt1: "gc_heap ?rt = with_counts (set xs) H (C(c := C c - 1)) (M(c := M c))" "nodes ?rt = nodes rt"
    using inv c with_counts_upd [of c "set xs" H ob C M "M c" "C c - 1"] by (simp_all add: set_header_def decref_inv_def)
  have e: "gc_decref_child rt c = (if C c - 1 = 0 \<and> M c = 1 then move_object ?rt c TMP_OBJ_LIST else Some ?rt)"
    using h k by (simp add: gc_decref_child_def Let_def)
  show ?thesis
  proof (cases "C c - 1 = 0 \<and> M c = 1")
    case True
    then show ?thesis using decref_inv_zero [OF inv c(1) d, of ?rt] rt1 k e by (auto simp: fun_upd_idem)
  next
    case False
    then show ?thesis using decref_inv_count [OF inv _ _ rt1] k e by auto
  qed
qed

lemma gc_decref_children:
  assumes "decref_inv H xs zs C M rt" and "distinct xs" and "\<And>q. q \<in> set cs \<Longrightarrow> q \<in> set xs \<and> H q \<noteq> None"
    and "\<And>q. q \<in> set cs \<Longrightarrow> int (count_list cs q) \<le> C q"
  shows "\<exists>rt'. mark_all gc_decref_child rt cs = Some rt' \<and> decref_inv H xs zs (\<lambda>q. C q - int (count_list cs q)) M rt'"
  using assms
proof (induction cs arbitrary: rt C)
  case (Cons c cs)
  have "0 < C c" using Cons.prems(4) [of c] by simp
  then obtain rt1 where 1: "gc_decref_child rt c = Some rt1" "decref_inv H xs zs (C(c := C c - 1)) M rt1"
    using gc_decref_child_inv [OF Cons.prems(1)] Cons.prems(2) Cons.prems(3) [of c] by fastforce
  have "int (count_list cs q) \<le> (C(c := C c - 1)) q" if "q \<in> set cs" for q
    using Cons.prems(4) [of q] that by auto
  then obtain rt2 where "mark_all gc_decref_child rt1 cs = Some rt2"
      "decref_inv H xs zs (\<lambda>q. (C(c := C c - 1)) q - int (count_list cs q)) M rt2"
    using Cons.IH [OF 1(2)] Cons.prems(2,3) by auto
  moreover have "(\<lambda>q. (C(c := C c - 1)) q - int (count_list cs q)) = (\<lambda>q. C q - int (count_list (c # cs) q))" by auto
  ultimately show ?case using 1(1) by auto
qed simp

text \<open>One object done: its children lose its references, then it is marked and moved if its count is zero.\<close>

lemma gc_decref_step:
  assumes inv: "decref_inv H xs zs C M rt" and p: "p \<in> set xs" "H p = Some ob" and d: "distinct xs" and m: "M p = 0"
  shows "\<exists>rt'. (if C p = 0 then move_object (set_header rt p (ob\<lparr>ref_count := C p, gc_mark := 1\<rparr>)) p TMP_OBJ_LIST
       else Some (set_header rt p (ob\<lparr>ref_count := C p, gc_mark := 1\<rparr>))) = Some rt' \<and> decref_inv H xs zs C (M(p := 1)) rt'"
proof -
  let ?rt = "set_header rt p (ob\<lparr>ref_count := C p, gc_mark := 1\<rparr>)"
  have rt1: "gc_heap ?rt = with_counts (set xs) H (C(p := C p)) (M(p := 1))" "nodes ?rt = nodes rt"
    using inv p with_counts_upd [of p "set xs" H ob C M 1 "C p"] by (simp_all add: set_header_def decref_inv_def)
  show ?thesis
  proof (cases "C p = 0")
    case True
    then show ?thesis using decref_inv_zero [OF inv p(1) d, of ?rt] rt1 m by (simp add: fun_upd_idem)
  next
    case False
    then show ?thesis using decref_inv_count [OF inv _ _ rt1] m by auto
  qed
qed

definition marks_of :: "nat list \<Rightarrow> nat \<Rightarrow> nat" where
  "marks_of ps q = (if q \<in> set ps then 1 else 0)"

lemma gc_decref_loop_exact:
  assumes con: "gc_consistent H xs ext" and d: "distinct xs"
  shows "xs = ps @ rs \<Longrightarrow> decref_inv H xs zs (\<lambda>q. ext q + refs H rs q) (marks_of ps) rt \<Longrightarrow>
    el1 = List.hd (map Link (tl rs) @ [GC_OBJ_LIST]) \<or> rs = [] \<Longrightarrow>
    \<exists>rt'. gc_decref_loop rt (List.hd (map Link rs @ [GC_OBJ_LIST])) el1 = Some rt' \<and> decref_inv H xs zs ext (marks_of xs) rt'"
proof (induction rs arbitrary: ps rt el1)
  case Nil
  then show ?case by (subst gc_decref_loop.simps) simp
next
  case (Cons p rs)
  let ?C = "\<lambda>q. ext q + refs H (p # rs) q" and ?C' = "\<lambda>q. ext q + refs H rs q" and ?M = "marks_of ps"
  have p: "p \<in> set xs" "p \<notin> set ps" "?M p = 0" using Cons.prems(1) d by (auto simp: marks_of_def)
  obtain ob where ob: "H p = Some ob" "mark_children (gc_data ob) = Some (kids H p)" "set (kids H p) \<subseteq> set xs"
    using consistent_kids [OF con p(1)] by blast
  have ext: "0 \<le> ext q" "H q \<noteq> None" if "q \<in> set xs" for q using con that by (force simp: gc_consistent_def)+
  obtain rt1 where 1: "mark_all gc_decref_child rt (kids H p) = Some rt1"
      "decref_inv H xs zs (\<lambda>q. ?C q - int (count_list (kids H p) q)) ?M rt1"
    using gc_decref_children [OF Cons.prems(2) d, of "kids H p"] ob(3) ext by (auto simp: subset_iff)
  have "(\<lambda>q. ?C q - int (count_list (kids H p) q)) = ?C'" by auto
  with 1 have inv1: "decref_inv H xs zs ?C' ?M rt1" by simp
  obtain rt2 where 2: "(if ?C' p = 0 then move_object (set_header rt1 p (ob\<lparr>ref_count := ?C' p, gc_mark := 1\<rparr>)) p TMP_OBJ_LIST
       else Some (set_header rt1 p (ob\<lparr>ref_count := ?C' p, gc_mark := 1\<rparr>))) = Some rt2" "decref_inv H xs zs ?C' (?M(p := 1)) rt2"
    using gc_decref_step [OF inv1 p(1) ob(1) d p(3)] by blast
  have M': "?M(p := 1) = marks_of (ps @ [p])" by (auto simp: marks_of_def)
  have el1: "el1 = List.hd (map Link rs @ [GC_OBJ_LIST])" using Cons.prems(3) by simp
  obtain ts where ts: "gc_lists rt2 (filter (\<lambda>q. q \<notin> zeros xs ?C' (marks_of (ps @ [p]))) xs) ts zs"
    using 2(2) M' by (auto simp: decref_inv_def)
  let ?P = "\<lambda>q. q \<notin> zeros xs ?C' (marks_of (ps @ [p]))"
  have fr: "filter ?P rs = rs"
    using Cons.prems(1) d by (intro filter_True) (auto simp: zeros_def marks_of_def)
  have app: "xs = (ps @ [p]) @ rs" using Cons.prems(1) by simp
  have "filter ?P xs = filter ?P (ps @ [p]) @ rs" by (subst (2) app) (simp only: filter_append fr)
  then obtain gs where gs: "is_list (nodes rt2) GC_OBJ_LIST (map Link (gs @ rs))"
    using gc_listsD(1) [OF ts] by metis
  obtain nxt where nxt: "get_next (nodes rt2) el1 = Some nxt" "nxt = List.hd (map Link (tl rs) @ [GC_OBJ_LIST]) \<or> rs = []"
  proof (cases rs)
    case Nil
    then show ?thesis using that list_first_Link [OF gs] el1 by auto
  next
    case (Cons r rs')
    then show ?thesis using that list_next_Link [of "nodes rt2" GC_OBJ_LIST gs r rs'] gs el1 by auto
  qed
  have h: "gc_heap rt p = Some (ob\<lparr>ref_count := ?C p, gc_mark := ?M p\<rparr>)" "gc_heap rt1 p = Some (ob\<lparr>ref_count := ?C' p, gc_mark := ?M p\<rparr>)"
    using Cons.prems(2) inv1 p(1) ob(1) by (simp_all add: decref_inv_def)
  have "gc_decref_loop rt (Link p) el1 = gc_decref_loop rt2 el1 nxt"
    by (subst gc_decref_loop.simps) (use h p(3) ob(2) 1(1) 2(1) nxt(1) in \<open>auto simp: Let_def split: if_splits\<close>)
  moreover have "\<exists>rt'. gc_decref_loop rt2 (List.hd (map Link rs @ [GC_OBJ_LIST])) nxt = Some rt' \<and> decref_inv H xs zs ext (marks_of xs) rt'"
    using Cons.IH [of "ps @ [p]" rt2 nxt] Cons.prems(1) 2(2) M' nxt(2) by simp
  ultimately show ?case using el1 by simp
qed

text \<open>
  The runtime before a collection: the list of the objects and the list of the objects to be
  freed. The head of the temporary list is initialised by the collector.
\<close>

definition gc_ready :: "JSRuntime \<Rightarrow> nat list \<Rightarrow> nat list \<Rightarrow> bool" where
  "gc_ready rt xs zs \<longleftrightarrow>
     lists_of (nodes rt) {GC_OBJ_LIST, GC_ZERO_REF_COUNT_LIST} (gc_seqs xs [] zs) \<and> TMP_OBJ_LIST \<in> dom (nodes rt)"

lemma gc_decref_exact:
  assumes rdy: "gc_ready rt xs zs" and con: "gc_consistent (gc_heap rt) xs ext"
  shows "\<exists>rt'. gc_decref rt = Some rt' \<and> decref_inv (gc_heap rt) xs zs ext (marks_of xs) rt' \<and> distinct xs"
proof -
  let ?H = "gc_heap rt" and ?f = "gc_seqs xs [] zs"
  have "gc_heads - {TMP_OBJ_LIST} = {GC_OBJ_LIST, GC_ZERO_REF_COUNT_LIST}" "insert TMP_OBJ_LIST gc_heads = gc_heads"
    by (auto simp: gc_heads_def)
  moreover have "TMP_OBJ_LIST \<notin> in_lists {GC_OBJ_LIST, GC_ZERO_REF_COUNT_LIST} ?f" by (auto simp: in_lists_def)
  moreover have "?f(TMP_OBJ_LIST := []) = ?f" by (auto simp: gc_seqs_def)
  ultimately obtain n where n: "init_list_head (nodes rt) TMP_OBJ_LIST = Some n" "lists_of n gc_heads ?f"
    using lists_of_init [of "nodes rt" gc_heads TMP_OBJ_LIST ?f] rdy by (auto simp: gc_ready_def)
  let ?rt = "rt\<lparr>nodes := n\<rparr>"
  have l: "gc_lists ?rt xs [] zs" using n(2) by (simp add: gc_lists_def)
  have d: "distinct xs" using gc_lists_distinct [OF l] by simp
  have "with_counts (set xs) ?H (\<lambda>q. ext q + refs ?H xs q) (marks_of []) q = ?H q" for q
  proof (cases "q \<in> set xs")
    case True
    then obtain ob where "?H q = Some ob" "gc_mark ob = 0" "ref_count ob = ext q + refs ?H xs q"
      using con by (auto simp: gc_consistent_def)
    then show ?thesis using True by (simp add: marks_of_def with_counts_def)
  qed (simp add: with_counts_def)
  then have "decref_inv ?H xs zs (\<lambda>q. ext q + refs ?H xs q) (marks_of []) ?rt"
    using l by (auto simp: decref_inv_def zeros_def marks_of_def)
  moreover obtain el1 where el1: "get_next n (List.hd (map Link xs @ [GC_OBJ_LIST])) = Some el1"
      "el1 = List.hd (map Link (tl xs) @ [GC_OBJ_LIST]) \<or> xs = []"
    using list_first_Link [of n GC_OBJ_LIST xs] list_next_Link [of n GC_OBJ_LIST "[]" "hd xs" "tl xs"] gc_listsD(1) [OF l]
    by (cases xs) auto
  ultimately obtain rt' where "gc_decref_loop ?rt (List.hd (map Link xs @ [GC_OBJ_LIST])) el1 = Some rt'"
      "decref_inv ?H xs zs ext (marks_of xs) rt'"
    using gc_decref_loop_exact [OF con d, of "[]" xs zs ?rt el1] by auto
  then show ?thesis
    using n(1) el1(1) list_first_Link [of n GC_OBJ_LIST xs] gc_listsD(1) [OF l] d by (auto simp: gc_decref_def)
qed

subsection \<open>Rescue restores the counts and keeps what is reachable\<close>

definition gc_edges :: "(nat \<Rightarrow> JSGCObjectHeader option) \<Rightarrow> nat list \<Rightarrow> (nat \<times> nat) set" where
  "gc_edges H xs = {(p, q). p \<in> set xs \<and> q \<in> set (kids H p)}"

text \<open>The objects that can be reached from an object with a reference from elsewhere.\<close>

definition gc_reach :: "(nat \<Rightarrow> JSGCObjectHeader option) \<Rightarrow> nat list \<Rightarrow> (nat \<Rightarrow> int) \<Rightarrow> nat set" where
  "gc_reach H xs ext = (gc_edges H xs)\<^sup>* `` {p \<in> set xs. 0 < ext p}"

lemma reach_step: "p \<in> gc_reach H xs ext \<Longrightarrow> p \<in> set xs \<Longrightarrow> q \<in> set (kids H p) \<Longrightarrow> q \<in> gc_reach H xs ext"
  by (auto simp: gc_reach_def gc_edges_def intro: rtrancl_into_rtrancl)

lemma reach_least:
  assumes "\<And>p. p \<in> set xs \<Longrightarrow> 0 < ext p \<Longrightarrow> p \<in> A" and "\<And>p q. p \<in> A \<Longrightarrow> q \<in> set (kids H p) \<Longrightarrow> q \<in> A"
  shows "gc_reach H xs ext \<subseteq> A"
proof
  fix q assume "q \<in> gc_reach H xs ext"
  then obtain p where "p \<in> set xs" "0 < ext p" "(p, q) \<in> (gc_edges H xs)\<^sup>*" by (auto simp: gc_reach_def)
  from this(3) show "q \<in> A" by (induction rule: rtrancl_induct) (use assms \<open>p \<in> set xs\<close> \<open>0 < ext p\<close> in \<open>auto simp: gc_edges_def\<close>)
qed

lemma refs_sum: "distinct ps \<Longrightarrow> refs H ps q = (\<Sum>p\<in>set ps. int (count_list (kids H p) q))"
  by (simp add: refs_def sum_list_distinct_conv_sum_set)

lemma refs_mono: "distinct ps \<Longrightarrow> distinct xs \<Longrightarrow> set ps \<subseteq> set xs \<Longrightarrow> refs H ps q \<le> refs H xs q"
  by (simp add: refs_sum sum_mono2)

definition scan_inv :: "(nat \<Rightarrow> JSGCObjectHeader option) \<Rightarrow> nat list \<Rightarrow> nat list \<Rightarrow> (nat \<Rightarrow> int) \<Rightarrow> (nat \<Rightarrow> nat) \<Rightarrow> nat list \<Rightarrow> nat list \<Rightarrow> JSRuntime \<Rightarrow> bool" where
  "scan_inv H xs zs C M gs ts rt \<longleftrightarrow>
     gc_heap rt = with_counts (set xs) H C M \<and> gc_lists rt gs ts zs \<and> set gs \<union> set ts = set xs \<and>
     (\<forall>q\<in>set gs. 0 < C q) \<and> (\<forall>q\<in>set ts. C q = 0 \<and> M q = 1)"

lemma scan_child_inv:
  assumes inv: "scan_inv H xs zs C M gs ts rt" and c: "c \<in> set xs" "H c = Some ob" and b: "C c + 1 < 2 ^ 31"
  shows "\<exists>rt' ns ts' M'. gc_scan_incref_child rt c = Some rt' \<and> scan_inv H xs zs (C(c := C c + 1)) M' (gs @ ns) ts' rt' \<and>
     set ns \<subseteq> {c} \<and> (\<forall>q. M' q = M q \<or> M' q = 0)"
proof -
  let ?ob = "ob\<lparr>ref_count := C c + 1, gc_mark := M c\<rparr>"
  have h: "gc_heap rt c = Some (ob\<lparr>ref_count := C c, gc_mark := M c\<rparr>)" using inv c by (simp add: scan_inv_def)
  have pos: "0 \<le> C c" using inv c(1) by (force simp: scan_inv_def)
  then have ci: "cint (C c + 1) = Some (C c + 1)" using b by simp
  have hp: "(gc_heap rt)(c \<mapsto> ob\<lparr>ref_count := C c + 1, gc_mark := m\<rparr>) = with_counts (set xs) H (C(c := C c + 1)) (M(c := m))" for m
    using inv c with_counts_upd [of c "set xs" H ob C M m "C c + 1"] by (simp add: scan_inv_def)
  show ?thesis
  proof (cases "C c = 0")
    case True
    have "c \<in> set ts" using inv c(1) True by (force simp: scan_inv_def)
    moreover have l: "gc_lists (set_header rt c ?ob) gs ts zs" using inv by (simp add: scan_inv_def)
    ultimately obtain n where n: "move_object (set_header rt c ?ob) c GC_OBJ_LIST = Some ((set_header rt c ?ob)\<lparr>nodes := n\<rparr>)"
        "gc_lists ((set_header rt c ?ob)\<lparr>nodes := n\<rparr>) (gs @ [c]) (remove1 c ts) zs"
      using move_to_gc [OF l] by blast
    let ?rt = "set_header ((set_header rt c ?ob)\<lparr>nodes := n\<rparr>) c (ob\<lparr>ref_count := C c + 1, gc_mark := 0\<rparr>)"
    have e: "gc_scan_incref_child rt c = Some ?rt"
      using h ci True n(1) by (simp add: gc_scan_incref_child_def Let_def)
    have "gc_heap ?rt = with_counts (set xs) H (C(c := C c + 1)) (M(c := 0))"
      using hp [of 0] by (simp add: set_header_def)
    moreover have "distinct ts" using gc_lists_distinct [OF l] by simp
    ultimately have "scan_inv H xs zs (C(c := C c + 1)) (M(c := 0)) (gs @ [c]) (remove1 c ts) ?rt"
      using inv n(2) True \<open>c \<in> set ts\<close> by (auto simp: scan_inv_def)
    with e show ?thesis by (intro exI [of _ ?rt] exI [of _ "[c]"] exI [of _ "remove1 c ts"] exI [of _ "M(c := 0)"]) auto
  next
    case False
    then have "scan_inv H xs zs (C(c := C c + 1)) M gs ts (set_header rt c ?ob)"
      using inv hp [of "M c"] by (auto simp: scan_inv_def set_header_def gc_lists_def)
    moreover have "gc_scan_incref_child rt c = Some (set_header rt c ?ob)"
      using h ci False pos by (simp add: gc_scan_incref_child_def Let_def)
    ultimately show ?thesis by (intro exI [of _ "set_header rt c ?ob"] exI [of _ "[]"] exI [of _ ts] exI [of _ M]) auto
  qed
qed

lemma scan_children_inv:
  assumes "scan_inv H xs zs C M gs ts rt" and "\<And>q. q \<in> set cs \<Longrightarrow> q \<in> set xs \<and> H q \<noteq> None"
    and "\<And>q. q \<in> set cs \<Longrightarrow> C q + int (count_list cs q) < 2 ^ 31"
  shows "\<exists>rt' ns ts' M'. mark_all gc_scan_incref_child rt cs = Some rt' \<and>
     scan_inv H xs zs (\<lambda>q. C q + int (count_list cs q)) M' (gs @ ns) ts' rt' \<and>
     set ns \<subseteq> set cs \<and> (\<forall>q. M' q = M q \<or> M' q = 0)"
  using assms
proof (induction cs arbitrary: rt C M gs ts)
  case Nil
  then show ?case by (intro exI [of _ rt] exI [of _ "[]"] exI [of _ ts] exI [of _ M]) simp
next
  case (Cons c cs)
  obtain ob where ob: "c \<in> set xs" "H c = Some ob" using Cons.prems(2) [of c] by auto
  have "C c + 1 < 2 ^ 31" using Cons.prems(3) [of c] by simp
  then obtain rt1 ns1 ts1 M1 where 1: "gc_scan_incref_child rt c = Some rt1"
      "scan_inv H xs zs (C(c := C c + 1)) M1 (gs @ ns1) ts1 rt1" "set ns1 \<subseteq> {c}" "\<forall>q. M1 q = M q \<or> M1 q = 0"
    using scan_child_inv [OF Cons.prems(1) ob] by blast
  have p2: "q \<in> set xs \<and> H q \<noteq> None" if "q \<in> set cs" for q using Cons.prems(2) that by simp
  have p3: "(C(c := C c + 1)) q + int (count_list cs q) < 2 ^ 31" if "q \<in> set cs" for q
    using Cons.prems(3) [of q] that by auto
  obtain rt2 ns2 ts2 M2 where 2: "mark_all gc_scan_incref_child rt1 cs = Some rt2"
      "scan_inv H xs zs (\<lambda>q. (C(c := C c + 1)) q + int (count_list cs q)) M2 ((gs @ ns1) @ ns2) ts2 rt2"
      "set ns2 \<subseteq> set cs" "\<forall>q. M2 q = M1 q \<or> M2 q = 0"
    using Cons.IH [OF 1(2) p2 p3] by blast
  have "(\<lambda>q. (C(c := C c + 1)) q + int (count_list cs q)) = (\<lambda>q. C q + int (count_list (c # cs) q))" by auto
  moreover have "\<forall>q. M2 q = M q \<or> M2 q = 0" using 1(4) 2(4) by metis
  ultimately show ?case using 1(1,3) 2(1-3)
    by - (rule exI [of _ rt2], rule exI [of _ "ns1 @ ns2"], rule exI [of _ ts2], rule exI [of _ M2], auto)
qed

lemma consistent_bound:
  assumes "gc_consistent H xs ext" and "q \<in> set xs" and "distinct ps" and "distinct xs" and "set ps \<subseteq> set xs"
  shows "ext q + refs H ps q < 2 ^ 31" "0 \<le> ext q"
proof -
  have "ext q + refs H xs q < 2 ^ 31" "0 \<le> ext q" using assms(1,2) by (force simp: gc_consistent_def)+
  then show "ext q + refs H ps q < 2 ^ 31" "0 \<le> ext q" using refs_mono [OF assms(3-5), of H q] by simp_all
qed

lemma gc_scan_loop_reach:
  assumes con: "gc_consistent H xs ext" and d: "distinct xs"
  shows "scan_inv H xs zs (\<lambda>q. ext q + refs H ds q) M (ds @ todo) ts rt \<Longrightarrow> \<forall>q\<in>set ds. M q = 0 \<Longrightarrow>
    set (ds @ todo) \<subseteq> gc_reach H xs ext \<Longrightarrow>
    \<exists>rt' gs ts' M'. gc_scan_loop rt (List.hd (map Link todo @ [GC_OBJ_LIST])) = Some rt' \<and>
      scan_inv H xs zs (\<lambda>q. ext q + refs H gs q) M' gs ts' rt' \<and> (\<forall>q\<in>set gs. M' q = 0) \<and> set gs \<subseteq> gc_reach H xs ext"
proof (induction "length xs - length ds" arbitrary: ds todo ts M rt rule: less_induct)
  case less
  show ?case
  proof (cases todo)
    case Nil
    then show ?thesis using less.prems by (subst gc_scan_loop.simps) auto
  next
    case (Cons p todo')
    let ?C = "\<lambda>q. ext q + refs H ds q"
    note inv = less.prems(1) [unfolded Cons]
    have dgs: "distinct (ds @ p # todo')" "set (ds @ p # todo') \<subseteq> set xs" "p \<in> set xs"
      using inv gc_lists_distinct [of rt "ds @ p # todo'" ts zs] by (auto simp: scan_inv_def)
    have "length (ds @ p # todo') \<le> length xs" using dgs by (metis card_mono d distinct_card finite_set)
    then have len: "length xs - length (ds @ [p]) < length xs - length ds" by simp
    obtain ob where ob: "H p = Some ob" "mark_children (gc_data ob) = Some (kids H p)" "set (kids H p) \<subseteq> set xs"
      using consistent_kids [OF con dgs(3)] by blast
    let ?rt = "set_header rt p (ob\<lparr>ref_count := ?C p, gc_mark := 0\<rparr>)"
    have h: "gc_heap rt p = Some (ob\<lparr>ref_count := ?C p, gc_mark := M p\<rparr>)" "0 < ?C p" using inv dgs(3) ob(1) by (auto simp: scan_inv_def)
    have "p \<notin> set ts" using inv h(2) by (auto simp: scan_inv_def)
    then have inv1: "scan_inv H xs zs ?C (M(p := 0)) (ds @ p # todo') ts ?rt"
      using inv dgs(3) ob(1) with_counts_upd [of p "set xs" H ob ?C M 0 "?C p"]
      by (auto simp: scan_inv_def set_header_def gc_lists_def fun_upd_idem)
    have eq: "(\<lambda>q. ?C q + int (count_list (kids H p) q)) = (\<lambda>q. ext q + refs H (ds @ [p]) q)" by auto
    have bnd: "?C q + int (count_list (kids H p) q) < 2 ^ 31" if "q \<in> set (kids H p)" for q
      using consistent_bound(1) [OF con, of q "ds @ [p]"] that ob(3) dgs d by auto
    have ex: "q \<in> set xs \<and> H q \<noteq> None" if "q \<in> set (kids H p)" for q
      using that ob(3) con by (force simp: gc_consistent_def)
    obtain rt1 ns ts1 M1 where 1: "mark_all gc_scan_incref_child ?rt (kids H p) = Some rt1"
        "scan_inv H xs zs (\<lambda>q. ext q + refs H (ds @ [p]) q) M1 ((ds @ p # todo') @ ns) ts1 rt1"
        "set ns \<subseteq> set (kids H p)" "\<forall>q. M1 q = (M(p := 0)) q \<or> M1 q = 0"
      using scan_children_inv [OF inv1 ex bnd] unfolding eq by blast
    have "gc_lists rt1 (ds @ p # todo' @ ns) ts1 zs" using 1(2) by (simp add: scan_inv_def)
    then have nxt: "get_next (nodes rt1) (Link p) = Some (List.hd (map Link (todo' @ ns) @ [GC_OBJ_LIST]))"
      by (intro list_next_Link [of _ _ ds] gc_listsD(1))
    have "gc_scan_loop rt (Link p) = gc_scan_loop rt1 (List.hd (map Link (todo' @ ns) @ [GC_OBJ_LIST]))"
      by (subst gc_scan_loop.simps) (use h ob(2) 1(1) nxt in simp)
    moreover have "\<exists>rt' gs ts' M'. gc_scan_loop rt1 (List.hd (map Link (todo' @ ns) @ [GC_OBJ_LIST])) = Some rt' \<and>
        scan_inv H xs zs (\<lambda>q. ext q + refs H gs q) M' gs ts' rt' \<and> (\<forall>q\<in>set gs. M' q = 0) \<and> set gs \<subseteq> gc_reach H xs ext"
    proof (rule less.hyps [OF len])
      show "scan_inv H xs zs (\<lambda>q. ext q + refs H (ds @ [p]) q) M1 ((ds @ [p]) @ todo' @ ns) ts1 rt1" using 1(2) by simp
      show "\<forall>q\<in>set (ds @ [p]). M1 q = 0" using 1(4) less.prems(2) by (auto split: if_splits)
      have "p \<in> gc_reach H xs ext" using less.prems(3) Cons by simp
      then show "set ((ds @ [p]) @ todo' @ ns) \<subseteq> gc_reach H xs ext"
        using less.prems(3) Cons 1(3) reach_step [OF _ dgs(3), of H ext] by auto
    qed
    ultimately show ?thesis using Cons by simp
  qed
qed

lemma scan2_children:
  assumes "gc_heap rt = with_counts X H C M" and "\<And>q. q \<in> set cs \<Longrightarrow> q \<in> X \<and> H q \<noteq> None"
    and "\<And>q. q \<in> set cs \<Longrightarrow> 0 \<le> C q \<and> C q + int (count_list cs q) < 2 ^ 31"
  shows "\<exists>rt'. mark_all gc_scan_incref_child2 rt cs = Some rt' \<and> nodes rt' = nodes rt \<and>
     gc_heap rt' = with_counts X H (\<lambda>q. C q + int (count_list cs q)) M"
  using assms
proof (induction cs arbitrary: rt C)
  case (Cons c cs)
  obtain ob where ob: "c \<in> X" "H c = Some ob" using Cons.prems(2) [of c] by auto
  let ?rt = "set_header rt c (ob\<lparr>ref_count := C c + 1, gc_mark := M c\<rparr>)"
  have "cint (C c + 1) = Some (C c + 1)" using Cons.prems(3) [of c] by simp
  then have e: "gc_scan_incref_child2 rt c = Some ?rt" using Cons.prems(1) ob by (simp add: gc_scan_incref_child2_def)
  have "gc_heap ?rt = with_counts X H (C(c := C c + 1)) M"
    using Cons.prems(1) with_counts_upd [of c X H ob C M "M c" "C c + 1"] ob by (simp add: set_header_def)
  moreover have "0 \<le> (C(c := C c + 1)) q \<and> (C(c := C c + 1)) q + int (count_list cs q) < 2 ^ 31" if "q \<in> set cs" for q
    using Cons.prems(3) [of q] that by auto
  ultimately obtain rt' where "mark_all gc_scan_incref_child2 ?rt cs = Some rt'" "nodes rt' = nodes ?rt"
      "gc_heap rt' = with_counts X H (\<lambda>q. (C(c := C c + 1)) q + int (count_list cs q)) M"
    using Cons.IH [of ?rt "C(c := C c + 1)"] Cons.prems(2) by (meson list.set_intros(2))
  moreover have "(\<lambda>q. (C(c := C c + 1)) q + int (count_list cs q)) = (\<lambda>q. C q + int (count_list (c # cs) q))" by auto
  ultimately show ?case using e by (auto simp: set_header_def)
qed simp

lemma gc_scan_loop2_counts:
  assumes con: "gc_consistent H xs ext" and d: "distinct xs" and t: "distinct (gs @ ts)" "set (gs @ ts) \<subseteq> set xs"
    and l: "is_list (nodes rt) TMP_OBJ_LIST (map Link ts)"
  shows "ts = ds @ rs \<Longrightarrow> gc_heap rt1 = with_counts (set xs) H (\<lambda>q. ext q + refs H (gs @ ds) q) M \<Longrightarrow> nodes rt1 = nodes rt \<Longrightarrow>
    \<exists>rt'. gc_scan_loop2 rt1 (List.hd (map Link rs @ [TMP_OBJ_LIST])) = Some rt' \<and> nodes rt' = nodes rt \<and>
      gc_heap rt' = with_counts (set xs) H (\<lambda>q. ext q + refs H (gs @ ts) q) M"
proof (induction rs arbitrary: ds rt1)
  case Nil
  then show ?case by (subst gc_scan_loop2.simps) simp
next
  case (Cons p rs)
  let ?C = "\<lambda>q. ext q + refs H (gs @ ds) q"
  have p: "p \<in> set xs" "distinct (gs @ ds @ [p])" "set (gs @ ds @ [p]) \<subseteq> set xs" using Cons.prems(1) t by auto
  obtain ob where ob: "H p = Some ob" "mark_children (gc_data ob) = Some (kids H p)" "set (kids H p) \<subseteq> set xs"
    using consistent_kids [OF con p(1)] by blast
  have eq: "(\<lambda>q. ?C q + int (count_list (kids H p) q)) = (\<lambda>q. ext q + refs H (gs @ ds @ [p]) q)" by auto
  have c: "q \<in> set xs \<and> H q \<noteq> None" "0 \<le> ?C q \<and> ?C q + int (count_list (kids H p) q) < 2 ^ 31" if "q \<in> set (kids H p)" for q
    using that ob(3) con consistent_bound [OF con, of q "gs @ ds @ [p]"] p d by (force simp: gc_consistent_def)+
  obtain rt2 where 2: "mark_all gc_scan_incref_child2 rt1 (kids H p) = Some rt2" "nodes rt2 = nodes rt1"
      "gc_heap rt2 = with_counts (set xs) H (\<lambda>q. ext q + refs H (gs @ ds @ [p]) q) M"
    using scan2_children [OF Cons.prems(2) c] unfolding eq by blast
  have "get_next (nodes rt2) (Link p) = Some (List.hd (map Link rs @ [TMP_OBJ_LIST]))"
    using list_next_Link [of "nodes rt" TMP_OBJ_LIST ds p rs] l Cons.prems(1,3) 2(2) by simp
  then have "gc_scan_loop2 rt1 (Link p) = gc_scan_loop2 rt2 (List.hd (map Link rs @ [TMP_OBJ_LIST]))"
    by (subst gc_scan_loop2.simps) (use Cons.prems(2) p(1) ob 2(1) in simp)
  then show ?case using Cons.IH [of "ds @ [p]" rt2] Cons.prems(1,3) 2(2,3) by simp
qed

text \<open>The two passes together.\<close>

definition gc_marked :: "JSRuntime \<Rightarrow> nat list \<Rightarrow> nat list \<Rightarrow> nat list \<Rightarrow> JSRuntime \<Rightarrow> bool" where
  "gc_marked rt0 gs ts zs rt \<longleftrightarrow>
     gc_lists rt gs ts zs \<and>
     gc_heap rt = (\<lambda>q. if q \<in> set ts then map_option (\<lambda>ob. ob\<lparr>gc_mark := 1\<rparr>) (gc_heap rt0 q) else gc_heap rt0 q)"

lemma gc_mark_phases:
  assumes rdy: "gc_ready rt xs zs" and con: "gc_consistent (gc_heap rt) xs ext"
  shows "\<exists>rt1 rt2 gs ts. gc_decref rt = Some rt1 \<and> gc_scan rt1 = Some rt2 \<and> gc_marked rt gs ts zs rt2 \<and>
     set gs = gc_reach (gc_heap rt) xs ext \<and> set ts = set xs - gc_reach (gc_heap rt) xs ext \<and> distinct (gs @ ts)"
proof -
  let ?H = "gc_heap rt" and ?R = "gc_reach (gc_heap rt) xs ext"
  obtain rt1 where 1: "gc_decref rt = Some rt1" "decref_inv ?H xs zs ext (marks_of xs) rt1" and d: "distinct xs"
    using gc_decref_exact [OF rdy con] by blast
  have z: "zeros xs ext (marks_of xs) = {q \<in> set xs. ext q = 0}" by (auto simp: zeros_def marks_of_def)
  have ext: "0 \<le> ext q" if "q \<in> set xs" for q using con that by (force simp: gc_consistent_def)
  let ?gs = "filter (\<lambda>q. ext q \<noteq> 0) xs"
  have "filter (\<lambda>q. q \<notin> zeros xs ext (marks_of xs)) xs = ?gs" unfolding z by (intro filter_cong) auto
  then obtain ts where ts: "gc_lists rt1 ?gs ts zs" "set ts = {q \<in> set xs. ext q = 0}" and h1: "gc_heap rt1 = with_counts (set xs) ?H ext (marks_of xs)"
    using 1(2) z by (auto simp: decref_inv_def)
  have "\<forall>q\<in>set ?gs. 0 < ext q" using ext by force
  then have si: "scan_inv ?H xs zs (\<lambda>q. ext q + refs ?H [] q) (marks_of xs) ([] @ ?gs) ts rt1"
    using ts h1 by (auto simp: scan_inv_def marks_of_def)
  have "set ?gs \<subseteq> ?R" using ext by (force simp: gc_reach_def)
  then obtain rt2 gs ts2 M2 where 2: "gc_scan_loop rt1 (List.hd (map Link ?gs @ [GC_OBJ_LIST])) = Some rt2"
      "scan_inv ?H xs zs (\<lambda>q. ext q + refs ?H gs q) M2 gs ts2 rt2" "\<forall>q\<in>set gs. M2 q = 0" "set gs \<subseteq> ?R"
    using gc_scan_loop_reach [OF con d si] by auto
  have l2: "gc_lists rt2 gs ts2 zs" and h2: "gc_heap rt2 = with_counts (set xs) ?H (\<lambda>q. ext q + refs ?H gs q) M2"
    and u: "set gs \<union> set ts2 = set xs" and m2: "\<forall>q\<in>set ts2. ext q + refs ?H gs q = 0 \<and> M2 q = 1"
    using 2(2) by (simp_all add: scan_inv_def)
  have dd: "distinct (gs @ ts2)" using gc_lists_distinct [OF l2] by simp
  have "?R \<subseteq> set gs"
  proof (rule reach_least)
    show "p \<in> set gs" if "p \<in> set xs" "0 < ext p" for p
      using that u m2 refs_nonneg [of ?H gs p] by fastforce
    show "q \<in> set gs" if "p \<in> set gs" "q \<in> set (kids ?H p)" for p q
    proof -
      have "p \<in> set xs" using that(1) u by blast
      then have q: "q \<in> set xs" using consistent_kids [OF con, of p] that(2) by blast
      show ?thesis using refs_pos [OF that, of] q u m2 ext [OF q] by fastforce
    qed
  qed
  with 2(4) have R: "set gs = ?R" by blast
  obtain rt3 where 3: "gc_scan_loop2 rt2 (List.hd (map Link ts2 @ [TMP_OBJ_LIST])) = Some rt3" "nodes rt3 = nodes rt2"
      "gc_heap rt3 = with_counts (set xs) ?H (\<lambda>q. ext q + refs ?H (gs @ ts2) q) M2"
    using gc_scan_loop2_counts [OF con d dd _ gc_listsD(2) [OF l2], of "[]" ts2 rt2 M2] u h2 by auto
  have scan: "gc_scan rt1 = Some rt3"
    using 2(1) 3(1) list_first_Link [OF gc_listsD(1) [OF ts(1)]] list_first_Link [OF gc_listsD(2) [OF l2]] by (simp add: gc_scan_def)
  have "set (gs @ ts2) = set xs" using u by simp
  then have rc: "refs ?H (gs @ ts2) q = refs ?H xs q" for q by (simp only: refs_sum [OF dd] refs_sum [OF d])
  have "gc_heap rt3 q = (if q \<in> set ts2 then map_option (\<lambda>ob. ob\<lparr>gc_mark := 1\<rparr>) (?H q) else ?H q)" for q
  proof (cases "q \<in> set xs")
    case True
    then obtain ob where ob: "?H q = Some ob" "gc_mark ob = 0" "ref_count ob = ext q + refs ?H xs q"
      using con by (auto simp: gc_consistent_def)
    have "M2 q = (if q \<in> set ts2 then 1 else 0)" using True u m2 2(3) by auto
    then show ?thesis using True ob rc [of q] by (simp add: 3(3))
  qed (use u 3(3) in \<open>auto simp: with_counts_def\<close>)
  then have "gc_marked rt gs ts2 zs rt3" using l2 3(2) by (auto simp: gc_marked_def gc_lists_def)
  moreover have "set ts2 = set xs - ?R" using u R dd by auto
  ultimately show ?thesis using 1(1) scan R dd by blast
qed

end
