(* ===== verification/Gc_Free.thy ===== *)
theory Gc_Free
  imports Gc_Mark
begin

text \<open>
  The cycle collector of \<open>quickjs.c\<close>, second part: releasing references, freeing the objects of
  each type, the pass \<open>gc_free_cycles\<close> and the whole collection \<open>JS_RunGC\<close>. Freed memory
  disappears from the model, so that a use after free or a double free has no result. Weak
  references, atoms and the memory an object owns besides its header are left out.
\<close>

subsection \<open>Releasing references\<close>

definition js_free_rt :: "JSRuntime \<Rightarrow> nat \<Rightarrow> JSRuntime option" where
  "js_free_rt rt p =
     do { ob \<leftarrow> gc_heap rt p; Some (rt\<lparr>gc_heap := (gc_heap rt)(p := None), nodes := (nodes rt)(Link p := None)\<rparr>) }"

definition remove_gc_object :: "JSRuntime \<Rightarrow> nat \<Rightarrow> JSRuntime option" where
  "remove_gc_object rt p = do { n \<leftarrow> list_del (nodes rt) (Link p); Some (rt\<lparr>nodes := n\<rparr>) }"

definition dec_ref :: "JSRuntime \<Rightarrow> nat \<Rightarrow> (int \<times> JSRuntime) option" where
  "dec_ref rt p =
     do {
       ob \<leftarrow> gc_heap rt p;
       rc \<leftarrow> cint (ref_count ob - 1);
       Some (rc, set_header rt p (ob\<lparr>ref_count := rc\<rparr>))
     }"

text \<open>
  \<open>JS_FreeValueRT\<close> on an object while a pass is running: nothing is freed during the removal of
  cycles, and otherwise the object waits on the list of the objects with count zero. The case
  where no pass is running starts one and is given below.
\<close>

fun free_value :: "JSRuntime \<Rightarrow> JSValue \<Rightarrow> JSRuntime option" where
  "free_value rt Val_Plain = Some rt"
| "free_value rt (Val_Ref p) =
     do {
       (rc, rt) \<leftarrow> dec_ref rt p;
       if rc \<le> 0 \<and> gc_phase rt \<noteq> JS_GC_PHASE_REMOVE_CYCLES then do {
         n \<leftarrow> list_del (nodes rt) (Link p);
         n \<leftarrow> list_add n (Link p) GC_ZERO_REF_COUNT_LIST;
         Some (rt\<lparr>nodes := n\<rparr>)
       }
       else Some rt
     }"

fun free_values :: "JSRuntime \<Rightarrow> JSValue list \<Rightarrow> JSRuntime option" where
  "free_values rt [] = Some rt"
| "free_values rt (v # vs) = do { rt \<leftarrow> free_value rt v; free_values rt vs }"

definition js_free_shape0 :: "JSRuntime \<Rightarrow> nat \<Rightarrow> JSRuntime option" where
  "js_free_shape0 rt sh =
     do {
       ob \<leftarrow> gc_heap rt sh;
       if ref_count ob = 0 then
         (case gc_data ob of
            SHAPE proto \<Rightarrow> do {
              rt \<leftarrow> (case proto of Some p \<Rightarrow> free_value rt (Val_Ref p) | None \<Rightarrow> Some rt);
              rt \<leftarrow> remove_gc_object rt sh;
              js_free_rt rt sh
            }
          | _ \<Rightarrow> None)
       else None
     }"

definition js_free_shape :: "JSRuntime \<Rightarrow> nat \<Rightarrow> JSRuntime option" where
  "js_free_shape rt sh = do { (rc, rt) \<leftarrow> dec_ref rt sh; if rc \<le> 0 then js_free_shape0 rt sh else Some rt }"

definition free_var_ref :: "JSRuntime \<Rightarrow> nat \<Rightarrow> JSRuntime option" where
  "free_var_ref rt r =
     do {
       ob \<leftarrow> gc_heap rt r;
       if ref_count ob > 0 then do {
         (rc, rt) \<leftarrow> dec_ref rt r;
         if rc = 0 then
           (case gc_data ob of
              VAR_REF is_detached v \<Rightarrow> do {
                rt \<leftarrow> (if is_detached then do { rt \<leftarrow> free_value rt v; remove_gc_object rt r } else remove_gc_object rt r);
                js_free_rt rt r
              }
            | _ \<Rightarrow> None)
         else Some rt
       }
       else None
     }"

definition js_async_function_free :: "JSRuntime \<Rightarrow> nat \<Rightarrow> JSRuntime option" where
  "js_async_function_free rt s =
     do {
       (rc, rt) \<leftarrow> dec_ref rt s;
       if rc = 0 then do {
         ob \<leftarrow> gc_heap rt s;
         case gc_data ob of
           ASYNC_FUNCTION is_active cur_func this_val stack f0 f1 \<Rightarrow> do {
             rt \<leftarrow> (if is_active then
                      (case stack of
                         Some vs \<Rightarrow> free_values rt (vs @ [cur_func, this_val])
                       | None \<Rightarrow> None)
                    else Some rt);
             rt \<leftarrow> free_values rt [f0, f1];
             rt \<leftarrow> remove_gc_object rt s;
             js_free_rt rt s
           }
         | _ \<Rightarrow> None
       }
       else Some rt
     }"

text \<open>A reference held by a module is a value or a variable.\<close>

definition free_module_ref :: "JSRuntime \<Rightarrow> nat \<Rightarrow> JSRuntime option" where
  "free_module_ref rt p =
     do { ob \<leftarrow> gc_heap rt p; case gc_data ob of VAR_REF _ _ \<Rightarrow> free_var_ref rt p | _ \<Rightarrow> free_value rt (Val_Ref p) }"

definition JS_FreeContext :: "JSRuntime \<Rightarrow> nat \<Rightarrow> JSRuntime option" where
  "JS_FreeContext rt ctx =
     do {
       (rc, rt) \<leftarrow> dec_ref rt ctx;
       if rc > 0 then Some rt
       else if rc = 0 then do {
         ob \<leftarrow> gc_heap rt ctx;
         case gc_data ob of
           JS_CONTEXT modules vals array_shape \<Rightarrow> do {
             rt \<leftarrow> mark_all free_module_ref rt modules;
             rt \<leftarrow> free_values rt vals;
             rt \<leftarrow> (case array_shape of Some sh \<Rightarrow> js_free_shape rt sh | None \<Rightarrow> Some rt);
             rt \<leftarrow> remove_gc_object rt ctx;
             js_free_rt rt ctx
           }
         | _ \<Rightarrow> None
       }
       else None
     }"

fun free_property :: "JSRuntime \<Rightarrow> JSProperty \<Rightarrow> JSRuntime option" where
  "free_property rt Prop_Deleted = Some rt"
| "free_property rt (Prop_Value v) = free_value rt v"
| "free_property rt (Prop_GetSet getter setter) =
     do {
       rt \<leftarrow> (case getter of Some g \<Rightarrow> free_value rt (Val_Ref g) | None \<Rightarrow> Some rt);
       (case setter of Some s \<Rightarrow> free_value rt (Val_Ref s) | None \<Rightarrow> Some rt)
     }"
| "free_property rt (Prop_VarRef r is_detached) = free_var_ref rt r"
| "free_property rt (Prop_AutoInit realm) = JS_FreeContext rt realm"

fun free_properties :: "JSRuntime \<Rightarrow> JSProperty list \<Rightarrow> JSRuntime option" where
  "free_properties rt [] = Some rt"
| "free_properties rt (pr # prs) = do { rt \<leftarrow> free_property rt pr; free_properties rt prs }"

text \<open>A reference held by the class of an object, released by its finalizer according to its type.\<close>

definition finalize_ref :: "JSRuntime \<Rightarrow> nat \<Rightarrow> JSRuntime option" where
  "finalize_ref rt p =
     do {
       ob \<leftarrow> gc_heap rt p;
       case gc_data ob of
         VAR_REF _ _ \<Rightarrow> free_var_ref rt p
       | ASYNC_FUNCTION _ _ _ _ _ _ \<Rightarrow> js_async_function_free rt p
       | JS_CONTEXT _ _ _ \<Rightarrow> JS_FreeContext rt p
       | SHAPE _ \<Rightarrow> js_free_shape rt p
       | _ \<Rightarrow> free_value rt (Val_Ref p)
     }"

definition end_free :: "JSRuntime \<Rightarrow> nat \<Rightarrow> JSRuntime option" where
  "end_free rt p =
     do {
       rt \<leftarrow> remove_gc_object rt p;
       ob \<leftarrow> gc_heap rt p;
       if gc_phase rt = JS_GC_PHASE_REMOVE_CYCLES \<and> ref_count ob \<noteq> 0 then do {
         n \<leftarrow> list_add_tail (nodes rt) (Link p) GC_ZERO_REF_COUNT_LIST;
         Some (rt\<lparr>nodes := n\<rparr>)
       }
       else js_free_rt rt p
     }"

definition free_object :: "JSRuntime \<Rightarrow> nat \<Rightarrow> nat \<Rightarrow> JSProperty list \<Rightarrow> nat list \<Rightarrow> JSRuntime option" where
  "free_object rt p sh props class_refs =
     do {
       rt \<leftarrow> free_properties rt props;
       rt \<leftarrow> js_free_shape rt sh;
       rt \<leftarrow> mark_all finalize_ref rt class_refs;
       end_free rt p
     }"

definition free_function_bytecode :: "JSRuntime \<Rightarrow> nat \<Rightarrow> JSValue list \<Rightarrow> nat option \<Rightarrow> JSRuntime option" where
  "free_function_bytecode rt b cpool realm =
     do {
       rt \<leftarrow> free_values rt cpool;
       rt \<leftarrow> (case realm of Some r \<Rightarrow> JS_FreeContext rt r | None \<Rightarrow> Some rt);
       end_free rt b
     }"

definition free_gc_object :: "JSRuntime \<Rightarrow> nat \<Rightarrow> JSRuntime option" where
  "free_gc_object rt p =
     do {
       ob \<leftarrow> gc_heap rt p;
       case gc_data ob of
         JS_OBJECT sh props class_refs \<Rightarrow> free_object rt p sh props class_refs
       | FUNCTION_BYTECODE cpool realm \<Rightarrow> free_function_bytecode rt p cpool realm
       | _ \<Rightarrow> None
     }"

subsection \<open>Freeing the objects with count zero\<close>

partial_function (option) free_zero_loop :: "JSRuntime \<Rightarrow> JSRuntime option" where
  [code]: "free_zero_loop rt =
     do {
       el \<leftarrow> get_next (nodes rt) GC_ZERO_REF_COUNT_LIST;
       case el of
         GC_ZERO_REF_COUNT_LIST \<Rightarrow> Some rt
       | Link p \<Rightarrow>
           do {
             ob \<leftarrow> gc_heap rt p;
             if ref_count ob = 0 then do { rt \<leftarrow> free_gc_object rt p; free_zero_loop rt } else None
           }
       | _ \<Rightarrow> None
     }"

definition free_zero_refcount :: "JSRuntime \<Rightarrow> JSRuntime option" where
  "free_zero_refcount rt =
     do { rt \<leftarrow> free_zero_loop (rt\<lparr>gc_phase := JS_GC_PHASE_DECREF\<rparr>); Some (rt\<lparr>gc_phase := JS_GC_PHASE_NONE\<rparr>) }"

definition JS_FreeValueRT :: "JSRuntime \<Rightarrow> JSValue \<Rightarrow> JSRuntime option" where
  "JS_FreeValueRT rt v =
     (if gc_phase rt = JS_GC_PHASE_NONE then
        (case v of
           Val_Plain \<Rightarrow> Some rt
         | Val_Ref p \<Rightarrow>
             do {
               (rc, rt) \<leftarrow> dec_ref rt p;
               if rc \<le> 0 then do {
                 n \<leftarrow> list_del (nodes rt) (Link p);
                 n \<leftarrow> list_add n (Link p) GC_ZERO_REF_COUNT_LIST;
                 free_zero_refcount (rt\<lparr>nodes := n\<rparr>)
               }
               else Some rt
             })
      else free_value rt v)"

subsection \<open>Freeing the cycles\<close>

definition is_js :: "gc_fields \<Rightarrow> bool" where
  "is_js d \<longleftrightarrow> (case d of JS_OBJECT _ _ _ \<Rightarrow> True | FUNCTION_BYTECODE _ _ \<Rightarrow> True | _ \<Rightarrow> False)"

partial_function (option) gc_free_loop :: "JSRuntime \<Rightarrow> JSRuntime option" where
  [code]: "gc_free_loop rt =
     do {
       el \<leftarrow> get_next (nodes rt) TMP_OBJ_LIST;
       case el of
         TMP_OBJ_LIST \<Rightarrow> Some rt
       | Link p \<Rightarrow>
           do {
             ob \<leftarrow> gc_heap rt p;
             rt \<leftarrow> (if is_js (gc_data ob) then free_gc_object rt p else move_object rt p GC_ZERO_REF_COUNT_LIST);
             gc_free_loop rt
           }
       | _ \<Rightarrow> None
     }"

partial_function (option) gc_free_zombies :: "JSRuntime \<Rightarrow> gc_ptr \<Rightarrow> gc_ptr \<Rightarrow> JSRuntime option" where
  [code]: "gc_free_zombies rt el el1 =
     (case el of
        Link p \<Rightarrow>
          do {
            ob \<leftarrow> gc_heap rt p;
            if is_js (gc_data ob) then do {
              rt \<leftarrow> js_free_rt rt p;
              nxt \<leftarrow> get_next (nodes rt) el1;
              gc_free_zombies rt el1 nxt
            }
            else None
          }
      | GC_ZERO_REF_COUNT_LIST \<Rightarrow> Some rt
      | _ \<Rightarrow> None)"

definition gc_free_cycles :: "JSRuntime \<Rightarrow> JSRuntime option" where
  "gc_free_cycles rt =
     do {
       rt \<leftarrow> gc_free_loop (rt\<lparr>gc_phase := JS_GC_PHASE_REMOVE_CYCLES\<rparr>);
       let rt = rt\<lparr>gc_phase := JS_GC_PHASE_NONE\<rparr>;
       el \<leftarrow> get_next (nodes rt) GC_ZERO_REF_COUNT_LIST;
       el1 \<leftarrow> get_next (nodes rt) el;
       rt \<leftarrow> gc_free_zombies rt el el1;
       n \<leftarrow> init_list_head (nodes rt) GC_ZERO_REF_COUNT_LIST;
       Some (rt\<lparr>nodes := n\<rparr>)
     }"

definition JS_RunGC :: "JSRuntime \<Rightarrow> JSRuntime option" where
  "JS_RunGC rt = do { rt \<leftarrow> gc_decref rt; rt \<leftarrow> gc_scan rt; gc_free_cycles rt }"

subsection \<open>Well-typed references\<close>

definition js_ref :: "(nat \<Rightarrow> JSGCObjectHeader option) \<Rightarrow> nat \<Rightarrow> bool" where
  "js_ref H p \<longleftrightarrow> (\<exists>ob. H p = Some ob \<and> is_js (gc_data ob))"

definition shape_ref :: "(nat \<Rightarrow> JSGCObjectHeader option) \<Rightarrow> nat \<Rightarrow> bool" where
  "shape_ref H p \<longleftrightarrow> (\<exists>ob proto. H p = Some ob \<and> gc_data ob = SHAPE proto)"

definition var_ref :: "(nat \<Rightarrow> JSGCObjectHeader option) \<Rightarrow> nat \<Rightarrow> bool" where
  "var_ref H p \<longleftrightarrow> (\<exists>ob d v. H p = Some ob \<and> gc_data ob = VAR_REF d v)"

definition context_ref :: "(nat \<Rightarrow> JSGCObjectHeader option) \<Rightarrow> nat \<Rightarrow> bool" where
  "context_ref H p \<longleftrightarrow> (\<exists>ob ms vs sh. H p = Some ob \<and> gc_data ob = JS_CONTEXT ms vs sh)"

fun value_ok :: "(nat \<Rightarrow> JSGCObjectHeader option) \<Rightarrow> JSValue \<Rightarrow> bool" where
  "value_ok H Val_Plain = True"
| "value_ok H (Val_Ref p) = js_ref H p"

fun property_ok :: "(nat \<Rightarrow> JSGCObjectHeader option) \<Rightarrow> JSProperty \<Rightarrow> bool" where
  "property_ok H Prop_Deleted = True"
| "property_ok H (Prop_Value v) = value_ok H v"
| "property_ok H (Prop_GetSet g s) \<longleftrightarrow> (\<forall>x. g = Some x \<or> s = Some x \<longrightarrow> js_ref H x)"
| "property_ok H (Prop_VarRef r is_detached) \<longleftrightarrow> is_detached \<and> var_ref H r"
| "property_ok H (Prop_AutoInit realm) = context_ref H realm"

text \<open>
  The references of an object have the types of the fields that hold them, every variable is
  detached from its stack frame, and a function whose stack is unknown because it is running is
  referenced from elsewhere (by the interpreter).
\<close>

fun fields_ok :: "(nat \<Rightarrow> JSGCObjectHeader option) \<Rightarrow> int \<Rightarrow> gc_fields \<Rightarrow> bool" where
  "fields_ok H e (JS_OBJECT sh props class_refs) \<longleftrightarrow> shape_ref H sh \<and> (\<forall>pr\<in>set props. property_ok H pr)"
| "fields_ok H e (FUNCTION_BYTECODE cpool realm) \<longleftrightarrow> (\<forall>v\<in>set cpool. value_ok H v) \<and> (\<forall>r. realm = Some r \<longrightarrow> context_ref H r)"
| "fields_ok H e (SHAPE proto) \<longleftrightarrow> (\<forall>p. proto = Some p \<longrightarrow> js_ref H p)"
| "fields_ok H e (VAR_REF is_detached v) \<longleftrightarrow> is_detached \<and> value_ok H v"
| "fields_ok H e (ASYNC_FUNCTION is_active cf tv stack f0 f1) \<longleftrightarrow>
     (\<forall>v\<in>set ([f0, f1] @ (if is_active then [cf, tv] @ (case stack of Some vs \<Rightarrow> vs | None \<Rightarrow> []) else [])). value_ok H v) \<and> (is_active \<and> stack = None \<longrightarrow> 0 < e)"
| "fields_ok H e (JS_CONTEXT modules vals array_shape) \<longleftrightarrow>
     (\<forall>p\<in>set modules. js_ref H p \<or> var_ref H p) \<and> (\<forall>v\<in>set vals. value_ok H v) \<and> (\<forall>s. array_shape = Some s \<longrightarrow> shape_ref H s)"

text \<open>What the mark phases leave behind: the objects \<open>xs\<close>, those to keep \<open>gs\<close>.\<close>

definition gc_split :: "(nat \<Rightarrow> JSGCObjectHeader option) \<Rightarrow> nat list \<Rightarrow> nat list \<Rightarrow> (nat \<Rightarrow> int) \<Rightarrow> bool" where
  "gc_split H xs gs ext \<longleftrightarrow>
     distinct gs \<and> set gs \<subseteq> set xs \<and> (\<forall>q\<in>set gs. 0 < ext q + refs H gs q) \<and> (\<forall>p\<in>set gs. set (kids H p) \<subseteq> set gs) \<and>
     (\<forall>p\<in>set xs. \<exists>ob. H p = Some ob \<and> mark_children (gc_data ob) = Some (kids H p) \<and> fields_ok H (ext p) (gc_data ob) \<and>
        set (kids H p) \<subseteq> set xs \<and> 0 \<le> ext p) \<and>
     (\<forall>p\<in>set xs - set gs. ext p = 0)"

text \<open>
  While objects are freed: \<open>U\<close> are the objects to free that still hold their references, \<open>Z\<close> those
  that have released them but must keep their header, \<open>A\<close> those that are releasing them, and \<open>W\<close>
  are the references that these still have to release.
\<close>

definition pending :: "(nat \<Rightarrow> JSGCObjectHeader option) \<Rightarrow> nat list \<Rightarrow> (nat \<Rightarrow> int) \<Rightarrow> nat set \<Rightarrow> nat multiset \<Rightarrow> nat \<Rightarrow> int" where
  "pending H gs ext U W q = ext q + refs H gs q + (\<Sum>p\<in>U. int (count_list (kids H p) q)) + int (count W q)"

definition heap_of :: "(nat \<Rightarrow> JSGCObjectHeader option) \<Rightarrow> nat list \<Rightarrow> nat list \<Rightarrow> nat set \<Rightarrow> (nat \<Rightarrow> int) \<Rightarrow> nat \<Rightarrow> JSGCObjectHeader option" where
  "heap_of H xs gs L C = (\<lambda>q. if q \<in> set gs \<union> L then map_option (\<lambda>ob. ob\<lparr>ref_count := C q, gc_mark := (if q \<in> set gs then 0 else 1)\<rparr>) (H q)
     else if q \<in> set xs then None else H q)"

definition free_lists :: "(nat \<Rightarrow> JSGCObjectHeader option) \<Rightarrow> nat list \<Rightarrow> nat set \<Rightarrow> nat set \<Rightarrow> nat set \<Rightarrow> JSRuntime \<Rightarrow> bool" where
  "free_lists H gs U Z A rt \<longleftrightarrow>
     (\<exists>ts zs. gc_lists rt gs ts zs \<and> set ts \<union> set zs = U \<union> Z \<union> A \<and> {q \<in> U \<union> A. js_ref H q} \<subseteq> set ts \<and> Z \<subseteq> set zs)"

definition free_inv :: "(nat \<Rightarrow> JSGCObjectHeader option) \<Rightarrow> nat list \<Rightarrow> nat list \<Rightarrow> (nat \<Rightarrow> int) \<Rightarrow>
    nat set \<Rightarrow> nat set \<Rightarrow> nat set \<Rightarrow> nat multiset \<Rightarrow> JSRuntime \<Rightarrow> bool" where
  "free_inv H xs gs ext U Z A W rt \<longleftrightarrow>
     gc_phase rt = JS_GC_PHASE_REMOVE_CYCLES \<and>
     gc_heap rt = heap_of H xs gs (U \<union> Z \<union> A) (pending H gs ext U W) \<and>
     free_lists H gs U Z A rt \<and>
     U \<union> Z \<union> A \<subseteq> set xs - set gs \<and> U \<inter> Z = {} \<and> U \<inter> A = {} \<and> Z \<inter> A = {} \<and>
     (\<forall>q\<in>Z. js_ref H q) \<and>
     (\<forall>q\<in>A. \<not> js_ref H q \<longrightarrow> pending H gs ext U W q = 0) \<and>
     set_mset W \<subseteq> set gs \<union> U \<union> Z \<union> A \<and> (\<forall>p\<in>U. set (kids H p) \<subseteq> set gs \<union> U \<union> Z \<union> A) \<and>
     (\<forall>q\<in>set gs \<union> U \<union> Z \<union> A. pending H gs ext U W q < 2 ^ 31)"

text \<open>An object that is freed as soon as its count is zero still has references.\<close>

definition held :: "(nat \<Rightarrow> JSGCObjectHeader option) \<Rightarrow> nat list \<Rightarrow> (nat \<Rightarrow> int) \<Rightarrow> nat set \<Rightarrow> nat multiset \<Rightarrow> bool" where
  "held H gs ext U W \<longleftrightarrow> (\<forall>q\<in>U. \<not> js_ref H q \<longrightarrow> 0 < pending H gs ext U W q)"

definition releases :: "(nat \<Rightarrow> JSGCObjectHeader option) \<Rightarrow> nat list \<Rightarrow> nat list \<Rightarrow> (nat \<Rightarrow> int) \<Rightarrow>
    (JSRuntime \<Rightarrow> JSRuntime option) \<Rightarrow> nat multiset \<Rightarrow> bool" where
  "releases H xs gs ext g V \<longleftrightarrow>
     (\<forall>U Z A W rt. free_inv H xs gs ext U Z A (V + W) rt \<and> held H gs ext U (V + W) \<longrightarrow>
        (\<exists>rt' U'. g rt = Some rt' \<and> free_inv H xs gs ext U' Z A W rt' \<and> held H gs ext U' W \<and> U' \<subseteq> U))"

lemma releasesD:
  "releases H xs gs ext g V \<Longrightarrow> free_inv H xs gs ext U Z A (V + W) rt \<Longrightarrow> held H gs ext U (V + W) \<Longrightarrow>
   \<exists>rt' U'. g rt = Some rt' \<and> free_inv H xs gs ext U' Z A W rt' \<and> held H gs ext U' W \<and> U' \<subseteq> U"
  by (simp add: releases_def)

lemma releasesI:
  assumes "\<And>U Z A W rt. free_inv H xs gs ext U Z A (V + W) rt \<Longrightarrow> held H gs ext U (V + W) \<Longrightarrow>
     \<exists>rt' U'. g rt = Some rt' \<and> free_inv H xs gs ext U' Z A W rt' \<and> held H gs ext U' W \<and> U' \<subseteq> U"
  shows "releases H xs gs ext g V"
  using assms by (simp add: releases_def)

lemma releases_none: "releases H xs gs ext Some {#}"
  by (auto simp: releases_def)

lemma releases_seq:
  assumes "releases H xs gs ext g V" and "releases H xs gs ext k V'"
  shows "releases H xs gs ext (\<lambda>rt. do { rt \<leftarrow> g rt; k rt }) (V + V')"
proof (rule releasesI)
  fix U Z A W rt
  assume "free_inv H xs gs ext U Z A (V + V' + W) rt" "held H gs ext U (V + V' + W)"
  then obtain rt1 U1 where 1: "g rt = Some rt1" "free_inv H xs gs ext U1 Z A (V' + W) rt1" "held H gs ext U1 (V' + W)" "U1 \<subseteq> U"
    using releasesD [OF assms(1), of U Z A "V' + W" rt] by (auto simp: add.assoc)
  obtain rt2 U2 where "k rt1 = Some rt2" "free_inv H xs gs ext U2 Z A W rt2" "held H gs ext U2 W" "U2 \<subseteq> U1"
    using releasesD [OF assms(2) 1(2,3)] by blast
  then show "\<exists>rt' U'. do { rt \<leftarrow> g rt; k rt } = Some rt' \<and> free_inv H xs gs ext U' Z A W rt' \<and> held H gs ext U' W \<and> U' \<subseteq> U"
    using 1 by auto
qed

lemma pending_nonneg: "gc_split H xs gs ext \<Longrightarrow> q \<in> set xs \<Longrightarrow> 0 \<le> pending H gs ext U W q"
proof -
  assume "gc_split H xs gs ext" "q \<in> set xs"
  then have "0 \<le> ext q" by (auto simp: gc_split_def)
  then show ?thesis by (simp add: pending_def sum_nonneg)
qed

lemma pending_add: "pending H gs ext U (add_mset c W) q = pending H gs ext U W q + (if q = c then 1 else 0)"
  by (simp add: pending_def)

lemma heap_of_upd:
  "q \<in> set gs \<union> L \<Longrightarrow> H q = Some ob \<Longrightarrow>
   (heap_of H xs gs L C)(q \<mapsto> ob\<lparr>ref_count := k, gc_mark := (if q \<in> set gs then 0 else 1)\<rparr>) = heap_of H xs gs L (C(q := k))"
  by (auto simp: heap_of_def)

lemma heap_of_Some:
  "q \<in> set gs \<union> L \<Longrightarrow> H q = Some ob \<Longrightarrow> heap_of H xs gs L C q = Some (ob\<lparr>ref_count := C q, gc_mark := (if q \<in> set gs then 0 else 1)\<rparr>)"
  by (simp add: heap_of_def)

text \<open>Taking one reference back.\<close>

lemma dec_ref_pending:
  assumes sp: "gc_split H xs gs ext" and inv: "free_inv H xs gs ext U Z A (add_mset c W) rt"
  shows "\<exists>rt1 ob. H c = Some ob \<and> c \<in> set gs \<union> U \<union> Z \<union> A \<and> c \<in> set xs \<and>
     gc_heap rt c = Some (ob\<lparr>ref_count := pending H gs ext U W c + 1, gc_mark := (if c \<in> set gs then 0 else 1)\<rparr>) \<and>
     gc_heap rt1 c = Some (ob\<lparr>ref_count := pending H gs ext U W c, gc_mark := (if c \<in> set gs then 0 else 1)\<rparr>) \<and>
     dec_ref rt c = Some (pending H gs ext U W c, rt1) \<and> free_inv H xs gs ext U Z A W rt1"
proof -
  let ?P = "pending H gs ext U W" and ?m = "if c \<in> set gs then 0 else 1 :: nat" and ?L = "U \<union> Z \<union> A"
  have c: "c \<in> set gs \<union> ?L" "c \<in> set xs" using inv sp by (auto simp: free_inv_def gc_split_def)
  then obtain ob where ob: "H c = Some ob" using sp by (auto simp: gc_split_def)
  have P: "pending H gs ext U (add_mset c W) = ?P(c := ?P c + 1)" by (auto simp: pending_add)
  have h: "gc_heap rt = heap_of H xs gs ?L (?P(c := ?P c + 1))" using inv P by (simp add: free_inv_def)
  have hc: "gc_heap rt c = Some (ob\<lparr>ref_count := ?P c + 1, gc_mark := ?m\<rparr>)" using h c(1) ob by (simp add: heap_of_Some)
  have bnd: "0 \<le> ?P c" "?P c + 1 < 2 ^ 31"
  proof -
    have "pending H gs ext U (add_mset c W) c < 2 ^ 31" using inv c(1) unfolding free_inv_def by blast
    then show "?P c + 1 < 2 ^ 31" by (simp add: pending_add)
  qed (rule pending_nonneg [OF sp c(2)])
  let ?rt = "set_header rt c (ob\<lparr>ref_count := ?P c, gc_mark := ?m\<rparr>)"
  have "cint (?P c) = Some (?P c)" using bnd by simp
  then have d: "dec_ref rt c = Some (?P c, ?rt)" using hc by (simp add: dec_ref_def)
  have h1: "gc_heap ?rt = heap_of H xs gs ?L ?P"
    using heap_of_upd [of c gs ?L H ob xs "?P(c := ?P c + 1)" "?P c"] c(1) ob by (simp add: set_header_def h)
  have le: "?P q \<le> pending H gs ext U (add_mset c W) q" for q by (simp add: pending_add)
  have "free_inv H xs gs ext U Z A W ?rt"
    unfolding free_inv_def
  proof (intro conjI ballI impI)
    show "free_lists H gs U Z A ?rt" using inv by (auto simp: free_inv_def free_lists_def)
    show "pending H gs ext U W q = 0" if "q \<in> A" "\<not> js_ref H q" for q
    proof -
      have "q \<in> set xs" "pending H gs ext U (add_mset c W) q = 0" using inv that by (auto simp: free_inv_def)
      then show ?thesis using le [of q] pending_nonneg [OF sp, of q U W] by simp
    qed
    show "pending H gs ext U W q < 2 ^ 31" if "q \<in> set gs \<union> U \<union> Z \<union> A" for q
    proof -
      have "pending H gs ext U (add_mset c W) q < 2 ^ 31" using inv that unfolding free_inv_def by blast
      then show ?thesis using le [of q] by linarith
    qed
  qed (use inv h1 in \<open>simp_all add: free_inv_def set_header_def\<close>)
  moreover have "gc_heap ?rt c = Some (ob\<lparr>ref_count := ?P c, gc_mark := ?m\<rparr>)" by (simp add: set_header_def)
  ultimately show ?thesis using d ob c hc by blast
qed

lemma split_kids: "gc_split H xs gs ext \<Longrightarrow> p \<in> set xs \<Longrightarrow> set (kids H p) \<subseteq> set xs"
  by (auto simp: gc_split_def)

lemma live_pending: "gc_split H xs gs ext \<Longrightarrow> q \<in> set gs \<Longrightarrow> 0 < pending H gs ext U W q"
proof -
  assume "gc_split H xs gs ext" "q \<in> set gs"
  then have "0 < ext q + refs H gs q" by (simp add: gc_split_def)
  moreover have "0 \<le> (\<Sum>p\<in>U. int (count_list (kids H p) q))" by (simp add: sum_nonneg)
  ultimately show ?thesis by (simp add: pending_def)
qed

lemma pending_activate:
  assumes "finite U" and "c \<in> U"
  shows "pending H gs ext (U - {c}) (mset (kids H c) + W) q = pending H gs ext U W q"
  using assms by (simp add: pending_def sum.remove [OF assms] count_mset)

lemma gc_lists_distinct3: "gc_lists rt gs ts zs \<Longrightarrow> distinct gs \<and> distinct ts \<and> distinct zs \<and>
    set gs \<inter> set ts = {} \<and> set gs \<inter> set zs = {} \<and> set ts \<inter> set zs = {}"
proof -
  assume l: "gc_lists rt gs ts zs"
  have "Link ` set gs \<inter> Link ` set ts = {}" "Link ` set gs \<inter> Link ` set zs = {}" "Link ` set ts \<inter> Link ` set zs = {}"
    using l by (force simp: gc_lists_def lists_of_def gc_heads_def)+
  then show ?thesis
    using gc_listsD [OF l] by (auto simp: is_list_def distinct_map)
qed

lemma lists_of_loose: "a \<notin> in_lists heads f \<Longrightarrow> lists_of (n(a := v)) heads f = lists_of n heads f"
proof -
  assume "a \<notin> in_lists heads f"
  then have "is_list (n(a := v)) b (f b) = is_list n b (f b)" if "b \<in> heads" for b
    using that by (intro is_list_cong) (auto simp: in_lists_def)
  then show ?thesis by (simp add: lists_of_def)
qed

lemma del_object:
  assumes l: "gc_lists rt gs ts zs" and c: "c \<in> set ts \<union> set zs"
  shows "\<exists>n. list_del (nodes rt) (Link c) = Some n \<and> gc_lists (rt\<lparr>nodes := n\<rparr>) gs (remove1 c ts) (remove1 c zs) \<and> dom n = dom (nodes rt)"
proof -
  note d = gc_lists_distinct3 [OF l]
  have "\<exists>n. list_cmd (nodes rt) (Del (Link c)) = Some n \<and> lists_of n gc_heads (cmd_effect (gc_seqs gs ts zs) (Del (Link c))) \<and> dom n = dom (nodes rt)"
    using list_cmd_refines [of "nodes rt" gc_heads "gc_seqs gs ts zs" "Del (Link c)"] l c by (auto simp: gc_lists_def gc_heads_def)
  then obtain n where n: "list_del (nodes rt) (Link c) = Some n" "lists_of n gc_heads (\<lambda>head. remove1 (Link c) (gc_seqs gs ts zs head))"
      "dom n = dom (nodes rt)"
    by auto
  have "lists_of n gc_heads (gc_seqs gs (remove1 c ts) (remove1 c zs))"
    using n(2) by (subst (asm) seqs_cong [of _ "gc_seqs gs (remove1 c ts) (remove1 c zs)"])
      (use c d in \<open>auto simp: gc_heads_def remove1_map_Link intro!: arg_cong [of _ _ "map Link"] remove1_idem\<close>)
  with n(1,3) show ?thesis by (auto simp: gc_lists_def)
qed

lemma pending_zeroD:
  assumes sp: "gc_split H xs gs ext" and c: "c \<in> set xs" and fin: "finite U" and z: "pending H gs ext U W c = 0"
  shows "c \<notin># W" "p \<in> U \<Longrightarrow> c \<notin> set (kids H p)"
proof -
  have e: "0 \<le> ext c" using sp c by (auto simp: gc_split_def)
  let ?S = "\<Sum>p\<in>U. int (count_list (kids H p) c)"
  have "0 \<le> ?S" by (simp add: sum_nonneg)
  then have s: "?S = 0" "count W c = 0" using z e refs_nonneg [of H gs c] unfolding pending_def by linarith+
  then show "c \<notin># W" by (simp add: not_in_iff)
  show "c \<notin> set (kids H p)" if "p \<in> U"
  proof -
    have "int (count_list (kids H p) c) = 0" by (rule sum_nonneg_0 [OF fin _ s(1) that]) simp
    then show ?thesis by (simp add: count_list_0_iff)
  qed
qed

text \<open>
  An object starts to release its references: they move from the object to the pending ones.
\<close>

lemma free_inv_activate:
  assumes inv: "free_inv H xs gs ext U Z A W rt" and c: "c \<in> U" and z: "js_ref H c \<or> pending H gs ext U W c = 0"
  shows "free_inv H xs gs ext (U - {c}) Z (insert c A) (mset (kids H c) + W) rt"
proof -
  have fin: "finite U" using inv by (auto simp: free_inv_def intro: finite_subset)
  have L: "(U - {c}) \<union> Z \<union> insert c A = U \<union> Z \<union> A" "U - {c} \<union> insert c A = U \<union> A" using c by auto
  have p: "pending H gs ext (U - {c}) (mset (kids H c) + W) = pending H gs ext U W"
    using pending_activate [OF fin c] by (simp add: fun_eq_iff)
  have "free_lists H gs (U - {c}) Z (insert c A) rt" using inv L by (simp add: free_inv_def free_lists_def)
  moreover have "set_mset (mset (kids H c) + W) \<subseteq> set gs \<union> U \<union> Z \<union> A" "\<forall>p\<in>U - {c}. set (kids H p) \<subseteq> set gs \<union> U \<union> Z \<union> A"
    using inv c by (auto simp only: free_inv_def set_mset_union set_mset_mset)
  moreover have "\<forall>q\<in>insert c A. \<not> js_ref H q \<longrightarrow> pending H gs ext U W q = 0" using inv z unfolding free_inv_def by blast
  moreover have "(U - {c}) \<inter> Z = {}" "(U - {c}) \<inter> insert c A = {}" "Z \<inter> insert c A = {}" using inv c unfolding free_inv_def by blast+
  moreover have L3: "set gs \<union> (U - {c}) \<union> Z \<union> insert c A = set gs \<union> U \<union> Z \<union> A" using c by blast
  ultimately show ?thesis using inv unfolding free_inv_def p L(1) L3 by simp
qed

text \<open>
  An object that has released its references and has none left disappears.
\<close>

lemma free_inv_disappear:
  assumes sp: "gc_split H xs gs ext" and inv: "free_inv H xs gs ext U Z (insert c A) W rt" and c: "c \<notin> A" "pending H gs ext U W c = 0"
  shows "\<exists>rt1 rt2. remove_gc_object rt c = Some rt1 \<and> js_free_rt rt1 c = Some rt2 \<and> free_inv H xs gs ext U Z A W rt2 \<and>
      gc_phase rt1 = JS_GC_PHASE_REMOVE_CYCLES \<and> gc_heap rt1 = gc_heap rt"
proof -
  have cx: "c \<in> set xs" "c \<notin> set gs" "c \<notin> U" "c \<notin> Z" using inv by (auto simp: free_inv_def)
  then obtain ob where ob: "H c = Some ob" using sp by (auto simp: gc_split_def)
  obtain ts zs where l: "gc_lists rt gs ts zs" "set ts \<union> set zs = U \<union> Z \<union> insert c A"
      "{q \<in> U \<union> insert c A. js_ref H q} \<subseteq> set ts" "Z \<subseteq> set zs"
    using inv by (auto simp: free_inv_def free_lists_def)
  have "c \<in> set ts \<union> set zs" using l(2) by simp
  obtain n where n: "list_del (nodes rt) (Link c) = Some n" "gc_lists (rt\<lparr>nodes := n\<rparr>) gs (remove1 c ts) (remove1 c zs)"
    using del_object [OF l(1) \<open>c \<in> set ts \<union> set zs\<close>] by blast
  let ?rt1 = "rt\<lparr>nodes := n\<rparr>" and ?rt2 = "rt\<lparr>nodes := n(Link c := None), gc_heap := (gc_heap rt)(c := None)\<rparr>"
  have hc: "gc_heap rt c \<noteq> None" using inv ob by (auto simp: free_inv_def heap_of_def)
  have dz: "distinct ts" "distinct zs" "set ts \<inter> set zs = {}" using gc_lists_distinct3 [OF l(1)] by auto
  have gone: "Link c \<notin> in_lists gc_heads (gc_seqs gs (remove1 c ts) (remove1 c zs))"
    using cx(2) dz by (auto simp: in_lists_def gc_heads_def)
  have "gc_lists ?rt2 gs (remove1 c ts) (remove1 c zs)" using n(2) gone by (simp add: gc_lists_def lists_of_loose)
  moreover have "set (remove1 c ts) \<union> set (remove1 c zs) = U \<union> Z \<union> A" using l(2) dz c(1) cx by auto
  moreover have "{q \<in> U \<union> A. js_ref H q} \<subseteq> set (remove1 c ts)" "Z \<subseteq> set (remove1 c zs)" using l(3,4) c(1) cx dz by auto
  ultimately have fl: "free_lists H gs U Z A ?rt2" unfolding free_lists_def by blast
  have h: "gc_heap ?rt2 = heap_of H xs gs (U \<union> Z \<union> A) (pending H gs ext U W)"
    using inv cx c(1) by (auto simp: free_inv_def heap_of_def)
  have "c \<notin># W" "\<And>p. p \<in> U \<Longrightarrow> c \<notin> set (kids H p)" using pending_zeroD [OF sp cx(1) _ c(2)] inv by (auto simp: free_inv_def intro: finite_subset)
  then have "set_mset W \<subseteq> set gs \<union> U \<union> Z \<union> A" "\<forall>p\<in>U. set (kids H p) \<subseteq> set gs \<union> U \<union> Z \<union> A"
    using inv by (fastforce simp: free_inv_def)+
  then have "free_inv H xs gs ext U Z A W ?rt2"
    using inv fl h c(1) by (simp add: free_inv_def)
  moreover have "gc_phase rt = JS_GC_PHASE_REMOVE_CYCLES" using inv by (simp add: free_inv_def)
  ultimately show ?thesis using n(1) hc by (intro exI [of _ ?rt1] exI [of _ ?rt2]) (auto simp: remove_gc_object_def js_free_rt_def)
qed

text \<open>Releasing a reference to an object of a type that is freed at once.\<close>

lemma release_now:
  assumes sp: "gc_split H xs gs ext" and inv: "free_inv H xs gs ext U Z A (add_mset c W) rt"
    and hl: "held H gs ext U (add_mset c W)" and c: "\<not> js_ref H c"
    and body: "releases H xs gs ext body (mset (kids H c))"
  obtains (keep) ob rt1 k where "gc_heap rt c = Some ob" "gc_data ob = gc_data (the (H c))" "ref_count ob > 0"
      "dec_ref rt c = Some (k, rt1)" "k > 0" "free_inv H xs gs ext U Z A W rt1" "held H gs ext U W"
  | (free) ob ob1 rt1 rt2 rt3 rt4 U' where "gc_heap rt c = Some ob" "gc_data ob = gc_data (the (H c))" "ref_count ob > 0"
      "dec_ref rt c = Some (0, rt1)" "gc_heap rt1 c = Some ob1" "gc_data ob1 = gc_data (the (H c)) \<and> ref_count ob1 = 0"
      "body rt1 = Some rt2" "remove_gc_object rt2 c = Some rt3" "js_free_rt rt3 c = Some rt4"
      "free_inv H xs gs ext U' Z A W rt4" "held H gs ext U' W" "U' \<subseteq> U" "c \<in> U"
proof -
  let ?P = "pending H gs ext U W c"
  obtain rt1 ob where 1: "H c = Some ob" "c \<in> set gs \<union> U \<union> Z \<union> A" "c \<in> set xs"
      "gc_heap rt c = Some (ob\<lparr>ref_count := ?P + 1, gc_mark := (if c \<in> set gs then 0 else 1)\<rparr>)"
      "gc_heap rt1 c = Some (ob\<lparr>ref_count := ?P, gc_mark := (if c \<in> set gs then 0 else 1)\<rparr>)"
      "dec_ref rt c = Some (?P, rt1)" "free_inv H xs gs ext U Z A W rt1"
    using dec_ref_pending [OF sp inv] by blast
  have nn: "0 \<le> ?P" using pending_nonneg [OF sp 1(3)] .
  show ?thesis
  proof (cases "?P = 0")
    case False
    have "held H gs ext U W" unfolding held_def
    proof (intro ballI impI)
      show "0 < pending H gs ext U W q" if "q \<in> U" "\<not> js_ref H q" for q
        using hl that False nn by (cases "q = c") (auto simp: held_def pending_add)
    qed
    then show ?thesis using keep [OF 1(4), of ?P rt1] 1 nn False by simp
  next
    case True
    have "c \<notin> set gs" using live_pending [OF sp, of c U W] True by auto
    moreover have "c \<notin> Z" using inv c unfolding free_inv_def by blast
    moreover have "c \<notin> A"
    proof
      assume "c \<in> A"
      then have "pending H gs ext U (add_mset c W) c = 0" using inv c unfolding free_inv_def by blast
      then show False using nn by (simp add: pending_add)
    qed
    ultimately have cU: "c \<in> U" using 1(2) by blast
    have "free_inv H xs gs ext (U - {c}) Z (insert c A) (mset (kids H c) + W) rt1"
      using free_inv_activate [OF 1(7) cU] True by blast
    moreover have "held H gs ext (U - {c}) (mset (kids H c) + W)"
    proof -
      have fin: "finite U" using inv by (auto simp: free_inv_def intro: finite_subset)
      show ?thesis using hl by (auto simp: held_def pending_activate [OF fin cU] pending_add split: if_splits)
    qed
    ultimately obtain rt2 U2 where 2: "body rt1 = Some rt2" "free_inv H xs gs ext U2 Z (insert c A) W rt2" "U2 \<subseteq> U - {c}"
        "held H gs ext U2 W"
      using releasesD [OF body] by blast
    have "pending H gs ext U2 W c = 0" using 2(2) c unfolding free_inv_def by blast
    from free_inv_disappear [OF sp 2(2) \<open>c \<notin> A\<close> this] obtain rt3 rt4 where
      "remove_gc_object rt2 c = Some rt3" "js_free_rt rt3 c = Some rt4" "free_inv H xs gs ext U2 Z A W rt4"
      by blast
    moreover have "U2 \<subseteq> U" using 2(3) by blast
    ultimately show ?thesis using free [OF 1(4), of rt1 _ rt2 rt3 rt4 U2] 1 2(1,4) True cU by simp
  qed
qed

lemma free_value_releases:
  assumes sp: "gc_split H xs gs ext" and v: "value_ok H v"
  shows "releases H xs gs ext (\<lambda>rt. free_value rt v) (mset (JS_MarkValue v))"
proof (cases v)
  case Val_Plain
  then show ?thesis using releases_none [of H xs gs ext] by (simp add: releases_def)
next
  case (Val_Ref p)
  show ?thesis
  proof (rule releasesI)
    fix U Z A W rt
    assume "free_inv H xs gs ext U Z A (mset (JS_MarkValue v) + W) rt" and hl: "held H gs ext U (mset (JS_MarkValue v) + W)"
    then have inv: "free_inv H xs gs ext U Z A (add_mset p W) rt" by (simp add: Val_Ref)
    have "held H gs ext U W" using hl v by (auto simp: held_def Val_Ref pending_add split: if_splits)
    moreover obtain rt1 where "dec_ref rt p = Some (pending H gs ext U W p, rt1)" "free_inv H xs gs ext U Z A W rt1"
      using dec_ref_pending [OF sp inv] by blast
    ultimately show "\<exists>rt' U'. free_value rt v = Some rt' \<and> free_inv H xs gs ext U' Z A W rt' \<and> held H gs ext U' W \<and> U' \<subseteq> U"
      by (auto simp: Val_Ref free_inv_def)
  qed
qed

lemma free_ref_releases:
  "gc_split H xs gs ext \<Longrightarrow> js_ref H p \<Longrightarrow> releases H xs gs ext (\<lambda>rt. free_value rt (Val_Ref p)) {#p#}"
  using free_value_releases [of H xs gs ext "Val_Ref p"] by simp

lemma free_values_releases:
  assumes sp: "gc_split H xs gs ext"
  shows "\<forall>v\<in>set vs. value_ok H v \<Longrightarrow> releases H xs gs ext (\<lambda>rt. free_values rt vs) (mset (concat (map JS_MarkValue vs)))"
proof (induction vs)
  case (Cons v vs)
  then show ?case using releases_seq [OF free_value_releases [OF sp, of v] Cons.IH] by simp
qed (simp add: releases_none)

lemma mark_all_releases:
  assumes "\<And>p. p \<in> set ps \<Longrightarrow> releases H xs gs ext (\<lambda>rt. g rt p) {#p#}"
  shows "releases H xs gs ext (\<lambda>rt. mark_all g rt ps) (mset ps)"
  using assms
proof (induction ps)
  case (Cons p ps)
  have "releases H xs gs ext (\<lambda>rt. do { rt \<leftarrow> g rt p; mark_all g rt ps }) ({#p#} + mset ps)"
    using Cons by (intro releases_seq) auto
  then show ?case by simp
qed (simp add: releases_none)

lemma opt_releases:
  assumes "\<And>p. o1 = Some p \<Longrightarrow> releases H xs gs ext (\<lambda>rt. g rt p) {#p#}"
  shows "releases H xs gs ext (\<lambda>rt. case o1 of Some p \<Rightarrow> g rt p | None \<Rightarrow> Some rt) (mset (case o1 of Some p \<Rightarrow> [p] | None \<Rightarrow> []))"
  using assms by (cases o1) (simp_all add: releases_none)

lemma releases_cong: "(\<And>rt. g rt = k rt) \<Longrightarrow> releases H xs gs ext g V = releases H xs gs ext k V"
  by (simp add: releases_def)

text \<open>The data of a header does not change while objects are freed.\<close>

lemma free_inv_data:
  assumes "gc_split H xs gs ext" and "free_inv H xs gs ext U Z A (add_mset c W) rt"
  shows "\<exists>ob ob0. gc_heap rt c = Some ob \<and> H c = Some ob0 \<and> gc_data ob = gc_data ob0"
  using dec_ref_pending [OF assms] by fastforce

lemma split_fields:
  assumes "gc_split H xs gs ext" and "c \<in> set xs"
  obtains ob where "H c = Some ob" "fields_ok H (ext c) (gc_data ob)" "mark_children (gc_data ob) = Some (kids H c)"
  using assms unfolding gc_split_def by blast

lemma pending_in_xs: "gc_split H xs gs ext \<Longrightarrow> free_inv H xs gs ext U Z A (add_mset c W) rt \<Longrightarrow> c \<in> set xs"
  using dec_ref_pending by fastforce

lemma js_free_shape_releases:
  assumes sp: "gc_split H xs gs ext" and c: "shape_ref H c"
  shows "releases H xs gs ext (\<lambda>rt. js_free_shape rt c) {#c#}"
proof (rule releasesI)
  fix U Z A W rt
  assume "free_inv H xs gs ext U Z A ({#c#} + W) rt" "held H gs ext U ({#c#} + W)"
  then have inv: "free_inv H xs gs ext U Z A (add_mset c W) rt" and hl: "held H gs ext U (add_mset c W)" by simp_all
  obtain ob proto where ob: "H c = Some ob" "gc_data ob = SHAPE proto" using c by (auto simp: shape_ref_def)
  have fo: "fields_ok H (ext c) (gc_data ob)" using split_fields [OF sp pending_in_xs [OF sp inv]] ob(1) by (metis option.inject)
  have nj: "\<not> js_ref H c" using ob by (simp add: js_ref_def is_js_def)
  have k: "kids H c = (case proto of Some p \<Rightarrow> [p] | None \<Rightarrow> [])" using ob by (simp add: kids_def)
  let ?body = "\<lambda>rt. case proto of Some p \<Rightarrow> free_value rt (Val_Ref p) | None \<Rightarrow> Some rt"
  have "releases H xs gs ext ?body (mset (kids H c))"
    unfolding k using fo ob(2) by (intro opt_releases free_ref_releases [OF sp]) simp
  from sp inv hl nj this show "\<exists>rt' U'. js_free_shape rt c = Some rt' \<and> free_inv H xs gs ext U' Z A W rt' \<and> held H gs ext U' W \<and> U' \<subseteq> U"
  proof (cases rule: release_now)
    case (keep ob' rt1 k)
    then show ?thesis by (auto simp: js_free_shape_def)
  next
    case (free ob' ob1 rt1 rt2 rt3 rt4 U')
    then have "js_free_shape rt c = Some rt4" using ob by (simp add: js_free_shape_def js_free_shape0_def)
    then show ?thesis using free by blast
  qed
qed

lemma free_var_ref_releases:
  assumes sp: "gc_split H xs gs ext" and c: "var_ref H c"
  shows "releases H xs gs ext (\<lambda>rt. free_var_ref rt c) {#c#}"
proof (rule releasesI)
  fix U Z A W rt
  assume "free_inv H xs gs ext U Z A ({#c#} + W) rt" "held H gs ext U ({#c#} + W)"
  then have inv: "free_inv H xs gs ext U Z A (add_mset c W) rt" and hl: "held H gs ext U (add_mset c W)" by simp_all
  obtain ob d v where ob: "H c = Some ob" "gc_data ob = VAR_REF d v" using c by (auto simp: var_ref_def)
  have "fields_ok H (ext c) (gc_data ob)" using split_fields [OF sp pending_in_xs [OF sp inv]] ob(1) by (metis option.inject)
  then have d: "d" "value_ok H v" using ob by simp_all
  have nj: "\<not> js_ref H c" using ob by (simp add: js_ref_def is_js_def)
  have k: "kids H c = JS_MarkValue v" using ob d by (simp add: kids_def)
  have "releases H xs gs ext (\<lambda>rt. free_value rt v) (mset (kids H c))" unfolding k by (rule free_value_releases [OF sp d(2)])
  from sp inv hl nj this show "\<exists>rt' U'. free_var_ref rt c = Some rt' \<and> free_inv H xs gs ext U' Z A W rt' \<and> held H gs ext U' W \<and> U' \<subseteq> U"
  proof (cases rule: release_now)
    case (keep ob' rt1 k)
    then show ?thesis by (auto simp: free_var_ref_def)
  next
    case (free ob' ob1 rt1 rt2 rt3 rt4 U')
    then have "free_var_ref rt c = Some rt4" using ob d by (simp add: free_var_ref_def)
    then show ?thesis using free by blast
  qed
qed

lemma mset_mark_values: "mset (concat (map JS_MarkValue vs)) = (\<Sum>v\<leftarrow>vs. mset (JS_MarkValue v))"
  by (induction vs) auto

lemma js_async_function_free_releases:
  assumes sp: "gc_split H xs gs ext" and c: "H c = Some ob" "gc_data ob = ASYNC_FUNCTION is_active cf tv stack f0 f1"
  shows "releases H xs gs ext (\<lambda>rt. js_async_function_free rt c) {#c#}"
proof (rule releasesI)
  fix U Z A W rt
  assume "free_inv H xs gs ext U Z A ({#c#} + W) rt" "held H gs ext U ({#c#} + W)"
  then have inv: "free_inv H xs gs ext U Z A (add_mset c W) rt" and hl: "held H gs ext U (add_mset c W)" by simp_all
  have nj: "\<not> js_ref H c" using c by (simp add: js_ref_def is_js_def)
  have cx: "c \<in> set xs" by (rule pending_in_xs [OF sp inv])
  have fo: "fields_ok H (ext c) (gc_data ob)" using split_fields [OF sp cx] c(1) by (metis option.inject)
  show "\<exists>rt' U'. js_async_function_free rt c = Some rt' \<and> free_inv H xs gs ext U' Z A W rt' \<and> held H gs ext U' W \<and> U' \<subseteq> U"
  proof (cases "is_active \<and> stack = None")
    case True
    then have "ext c \<noteq> 0" using fo c(2) by simp
    then have "c \<in> set gs" using sp cx unfolding gc_split_def by blast
    then have "0 < pending H gs ext U W c" by (rule live_pending [OF sp])
    moreover from this have "held H gs ext U W" using hl by (auto simp: held_def pending_add split: if_splits)
    ultimately show ?thesis using dec_ref_pending [OF sp inv] by (auto simp: js_async_function_free_def)
  next
    case False
    let ?body = "\<lambda>rt. do {
        rt \<leftarrow> (if is_active then (case stack of Some vs \<Rightarrow> free_values rt (vs @ [cf, tv]) | None \<Rightarrow> None) else Some rt);
        free_values rt [f0, f1] }"
    let ?frame = "if is_active then mset (concat (map JS_MarkValue ((case stack of Some vs \<Rightarrow> vs | None \<Rightarrow> []) @ [cf, tv]))) else {#}"
    have "releases H xs gs ext (\<lambda>rt. if is_active then (case stack of Some vs \<Rightarrow> free_values rt (vs @ [cf, tv]) | None \<Rightarrow> None) else Some rt) ?frame"
    proof (cases stack)
      case (Some vs)
      then show ?thesis using fo c(2) free_values_releases [OF sp, of "vs @ [cf, tv]"] by (auto simp: releases_none)
    qed (use False in \<open>simp add: releases_none\<close>)
    then have "releases H xs gs ext ?body (?frame + mset (concat (map JS_MarkValue [f0, f1])))"
      using fo c(2) by (intro releases_seq free_values_releases [OF sp]) auto
    moreover have "?frame + mset (concat (map JS_MarkValue [f0, f1])) = mset (kids H c)"
      using c False by (auto simp: kids_def async_func_mark_def split: option.splits)
    ultimately have body: "releases H xs gs ext ?body (mset (kids H c))" by simp
    from sp inv hl nj body show ?thesis
    proof (cases rule: release_now)
      case (keep ob' rt1 k)
      then show ?thesis by (auto simp: js_async_function_free_def)
    next
      case (free ob' ob1 rt1 rt2 rt3 rt4 U')
      have "js_async_function_free rt c = do { rt \<leftarrow> ?body rt1; rt \<leftarrow> remove_gc_object rt c; js_free_rt rt c }"
        using c free(4-6) by (simp add: js_async_function_free_def Option.bind_assoc del: free_values.simps)
      then have "js_async_function_free rt c = Some rt4" using free(7-9) by (simp only: bind.bind_lunit)
      then show ?thesis using free by blast
    qed
  qed
qed

lemma free_module_ref_releases:
  assumes sp: "gc_split H xs gs ext" and c: "js_ref H c \<or> var_ref H c"
  shows "releases H xs gs ext (\<lambda>rt. free_module_ref rt c) {#c#}"
proof (rule releasesI)
  fix U Z A W rt
  assume inv: "free_inv H xs gs ext U Z A ({#c#} + W) rt" and hl: "held H gs ext U ({#c#} + W)"
  obtain ob ob0 where ob: "gc_heap rt c = Some ob" "H c = Some ob0" "gc_data ob = gc_data ob0"
    using free_inv_data [OF sp, of U Z A c W rt] inv by auto
  have "\<exists>g. free_module_ref rt c = g rt \<and> releases H xs gs ext g {#c#}"
  proof (cases "var_ref H c")
    case True
    then have "free_module_ref rt c = free_var_ref rt c" using ob by (auto simp: free_module_ref_def var_ref_def)
    then show ?thesis using free_var_ref_releases [OF sp True] by (intro exI [of _ "\<lambda>rt. free_var_ref rt c"]) simp
  next
    case False
    then have "js_ref H c" using c by blast
    moreover from this have "free_module_ref rt c = free_value rt (Val_Ref c)"
      using ob by (cases "gc_data ob0") (simp_all add: free_module_ref_def js_ref_def is_js_def)
    ultimately show ?thesis using free_ref_releases [OF sp] by (intro exI [of _ "\<lambda>rt. free_value rt (Val_Ref c)"]) simp
  qed
  then show "\<exists>rt' U'. free_module_ref rt c = Some rt' \<and> free_inv H xs gs ext U' Z A W rt' \<and> held H gs ext U' W \<and> U' \<subseteq> U"
    using releasesD [OF _ inv hl] by metis
qed

lemma JS_FreeContext_releases:
  assumes sp: "gc_split H xs gs ext" and c: "context_ref H c"
  shows "releases H xs gs ext (\<lambda>rt. JS_FreeContext rt c) {#c#}"
proof (rule releasesI)
  fix U Z A W rt
  assume "free_inv H xs gs ext U Z A ({#c#} + W) rt" "held H gs ext U ({#c#} + W)"
  then have inv: "free_inv H xs gs ext U Z A (add_mset c W) rt" and hl: "held H gs ext U (add_mset c W)" by simp_all
  obtain ob ms vs sh where ob: "H c = Some ob" "gc_data ob = JS_CONTEXT ms vs sh" using c by (auto simp: context_ref_def)
  have nj: "\<not> js_ref H c" using ob by (simp add: js_ref_def is_js_def)
  have fo: "fields_ok H (ext c) (gc_data ob)" using split_fields [OF sp pending_in_xs [OF sp inv]] ob(1) by (metis option.inject)
  let ?body = "\<lambda>rt. do { rt \<leftarrow> mark_all free_module_ref rt ms; rt \<leftarrow> free_values rt vs;
      (case sh of Some s \<Rightarrow> js_free_shape rt s | None \<Rightarrow> Some rt) }"
  have "releases H xs gs ext ?body (mset ms + (mset (concat (map JS_MarkValue vs)) + mset (case sh of Some s \<Rightarrow> [s] | None \<Rightarrow> [])))"
    using fo ob(2) by (intro releases_seq mark_all_releases free_module_ref_releases [OF sp] free_values_releases [OF sp]
        opt_releases js_free_shape_releases [OF sp]) auto
  moreover have "mset ms + (mset (concat (map JS_MarkValue vs)) + mset (case sh of Some s \<Rightarrow> [s] | None \<Rightarrow> [])) = mset (kids H c)"
    using ob by (simp add: kids_def)
  ultimately have body: "releases H xs gs ext ?body (mset (kids H c))" by simp
  from sp inv hl nj body show "\<exists>rt' U'. JS_FreeContext rt c = Some rt' \<and> free_inv H xs gs ext U' Z A W rt' \<and> held H gs ext U' W \<and> U' \<subseteq> U"
  proof (cases rule: release_now)
    case (keep ob' rt1 k)
    then show ?thesis by (auto simp: JS_FreeContext_def)
  next
    case (free ob' ob1 rt1 rt2 rt3 rt4 U')
    then have "JS_FreeContext rt c = Some rt4" using ob by (auto simp: JS_FreeContext_def split: Option.bind_splits)
    then show ?thesis using free by blast
  qed
qed

lemma free_property_releases:
  assumes sp: "gc_split H xs gs ext" and pr: "property_ok H pr"
  shows "releases H xs gs ext (\<lambda>rt. free_property rt pr) (mset (mark_property pr))"
proof (cases pr)
  case (Prop_GetSet g s)
  show ?thesis unfolding Prop_GetSet free_property.simps mark_property.simps mset_append
    using pr by (intro releases_seq opt_releases free_ref_releases [OF sp]) (auto simp: Prop_GetSet)
qed (use assms in \<open>simp_all add: releases_none free_value_releases free_var_ref_releases JS_FreeContext_releases\<close>)

lemma free_properties_releases:
  assumes sp: "gc_split H xs gs ext" and "\<forall>pr\<in>set prs. property_ok H pr"
  shows "releases H xs gs ext (\<lambda>rt. free_properties rt prs) (mset (concat (map mark_property prs)))"
  using assms(2)
proof (induction prs)
  case (Cons pr prs)
  then show ?case using releases_seq [OF free_property_releases [OF sp, of pr] Cons.IH] by simp
qed (simp add: releases_none)

lemma finalize_ref_releases:
  assumes sp: "gc_split H xs gs ext"
  shows "releases H xs gs ext (\<lambda>rt. finalize_ref rt c) {#c#}"
proof (rule releasesI)
  fix U Z A W rt
  assume inv: "free_inv H xs gs ext U Z A ({#c#} + W) rt" and hl: "held H gs ext U ({#c#} + W)"
  obtain ob ob0 where ob: "gc_heap rt c = Some ob" "H c = Some ob0" "gc_data ob = gc_data ob0"
    using free_inv_data [OF sp, of U Z A c W rt] inv by auto
  have "\<exists>g. finalize_ref rt c = g rt \<and> releases H xs gs ext g {#c#}"
  proof (cases "gc_data ob0")
    case (SHAPE p)
    then have "shape_ref H c" using ob by (simp add: shape_ref_def)
    then show ?thesis using js_free_shape_releases [OF sp] ob SHAPE by (auto simp: finalize_ref_def)
  next
    case (VAR_REF d v)
    then have "var_ref H c" using ob by (simp add: var_ref_def)
    then show ?thesis using free_var_ref_releases [OF sp] ob VAR_REF by (auto simp: finalize_ref_def)
  next
    case (JS_CONTEXT ms vs sh)
    then have "context_ref H c" using ob by (simp add: context_ref_def)
    then show ?thesis using JS_FreeContext_releases [OF sp] ob JS_CONTEXT by (auto simp: finalize_ref_def)
  next
    case (ASYNC_FUNCTION a b d e f g)
    then show ?thesis using js_async_function_free_releases [OF sp ob(2) ASYNC_FUNCTION] ob by (auto simp: finalize_ref_def)
  next
    case (JS_OBJECT sh prs crs)
    then have "js_ref H c" using ob by (simp add: js_ref_def is_js_def)
    then show ?thesis using free_ref_releases [OF sp] ob JS_OBJECT by (auto simp: finalize_ref_def)
  next
    case (FUNCTION_BYTECODE cp r)
    then have "js_ref H c" using ob by (simp add: js_ref_def is_js_def)
    then show ?thesis using free_ref_releases [OF sp] ob FUNCTION_BYTECODE by (auto simp: finalize_ref_def)
  qed
  then show "\<exists>rt' U'. finalize_ref rt c = Some rt' \<and> free_inv H xs gs ext U' Z A W rt' \<and> held H gs ext U' W \<and> U' \<subseteq> U"
    using releasesD [OF _ inv hl] by metis
qed

subsection \<open>Freeing one object\<close>

lemma move_to_zero:
  assumes l: "gc_lists rt gs ts zs" and c: "c \<in> set ts \<union> set zs"
  shows "\<exists>n1 n2. list_del (nodes rt) (Link c) = Some n1 \<and> list_add_tail n1 (Link c) GC_ZERO_REF_COUNT_LIST = Some n2 \<and>
     gc_lists (rt\<lparr>nodes := n2\<rparr>) gs (remove1 c ts) (remove1 c zs @ [c])"
proof -
  note d = gc_lists_distinct3 [OF l]
  obtain n1 where n1: "list_del (nodes rt) (Link c) = Some n1" "gc_lists (rt\<lparr>nodes := n1\<rparr>) gs (remove1 c ts) (remove1 c zs)"
      "dom n1 = dom (nodes rt)"
    using del_object [OF l c] by blast
  have "Link c \<in> dom (nodes rt)"
    using c is_list_dom [OF gc_listsD(2) [OF l], of "Link c"] is_list_dom [OF gc_listsD(3) [OF l], of "Link c"] get_dom by fastforce
  moreover have "Link c \<notin> in_lists gc_heads (gc_seqs gs (remove1 c ts) (remove1 c zs))"
    using c d by (auto simp: in_lists_def gc_heads_def)
  ultimately obtain n2 where n2: "list_add_tail n1 (Link c) GC_ZERO_REF_COUNT_LIST = Some n2"
      "lists_of n2 gc_heads ((gc_seqs gs (remove1 c ts) (remove1 c zs))(GC_ZERO_REF_COUNT_LIST := map Link (remove1 c zs) @ [Link c]))"
    using lists_of_add(1) [of n1 gc_heads "gc_seqs gs (remove1 c ts) (remove1 c zs)" GC_ZERO_REF_COUNT_LIST "Link c"] n1(2,3)
    by (auto simp: gc_lists_def gc_heads_def)
  have "lists_of n2 gc_heads (gc_seqs gs (remove1 c ts) (remove1 c zs @ [c]))"
    using n2(2) by (subst (asm) seqs_cong [of _ "gc_seqs gs (remove1 c ts) (remove1 c zs @ [c])"]) (auto simp: gc_heads_def)
  then show ?thesis using n1(1) n2(1) by (auto simp: gc_lists_def)
qed

text \<open>An object that has released its references but has some left waits for the end of the pass.\<close>

lemma free_inv_zombie:
  assumes inv: "free_inv H xs gs ext U Z (insert c A) W rt" and c: "c \<notin> A" "js_ref H c"
  shows "\<exists>n1 n2. list_del (nodes rt) (Link c) = Some n1 \<and> list_add_tail n1 (Link c) GC_ZERO_REF_COUNT_LIST = Some n2 \<and>
     free_inv H xs gs ext U (insert c Z) A W (rt\<lparr>nodes := n2\<rparr>)"
proof -
  have cU: "c \<notin> U" "c \<notin> Z" using inv unfolding free_inv_def by blast+
  obtain ts zs where l: "gc_lists rt gs ts zs" "set ts \<union> set zs = U \<union> Z \<union> insert c A"
      "{q \<in> U \<union> insert c A. js_ref H q} \<subseteq> set ts" "Z \<subseteq> set zs"
    using inv by (auto simp: free_inv_def free_lists_def)
  have d: "distinct ts" "distinct zs" using gc_lists_distinct3 [OF l(1)] by simp_all
  have "c \<in> set ts \<union> set zs" using l(2) by simp
  from move_to_zero [OF l(1) this] obtain n1 n2 where n: "list_del (nodes rt) (Link c) = Some n1"
      "list_add_tail n1 (Link c) GC_ZERO_REF_COUNT_LIST = Some n2" "gc_lists (rt\<lparr>nodes := n2\<rparr>) gs (remove1 c ts) (remove1 c zs @ [c])"
    by blast
  have L: "U \<union> insert c Z \<union> A = U \<union> Z \<union> insert c A" "set gs \<union> U \<union> insert c Z \<union> A = set gs \<union> U \<union> Z \<union> insert c A" by blast+
  have "set (remove1 c ts) \<union> set (remove1 c zs @ [c]) = U \<union> insert c Z \<union> A" using l(2) d by auto
  moreover have "{q \<in> U \<union> A. js_ref H q} \<subseteq> set (remove1 c ts)" "insert c Z \<subseteq> set (remove1 c zs @ [c])"
    using l(3,4) c(1) cU d by auto
  ultimately have fl: "free_lists H gs U (insert c Z) A (rt\<lparr>nodes := n2\<rparr>)" using n(3) unfolding free_lists_def by blast
  have s: "U \<inter> insert c Z = {}" "U \<inter> A = {}" "insert c Z \<inter> A = {}" "\<forall>q\<in>A. \<not> js_ref H q \<longrightarrow> pending H gs ext U W q = 0"
    using inv c cU unfolding free_inv_def by blast+
  have "free_inv H xs gs ext U (insert c Z) A W (rt\<lparr>nodes := n2\<rparr>)"
    using inv fl s c(2) unfolding free_inv_def L by simp
  then show ?thesis using n by blast
qed

lemma end_free_inv:
  assumes sp: "gc_split H xs gs ext" and inv: "free_inv H xs gs ext U Z {c} {#} rt" and c: "js_ref H c"
  shows "\<exists>rt' Z'. end_free rt c = Some rt' \<and> free_inv H xs gs ext U Z' {} {#} rt'"
proof -
  have cx: "c \<in> set xs" and ph: "gc_phase rt = JS_GC_PHASE_REMOVE_CYCLES" using inv by (auto simp: free_inv_def)
  obtain ob where ob: "H c = Some ob" using c by (auto simp: js_ref_def)
  have h: "\<exists>ob'. gc_heap rt c = Some ob' \<and> ref_count ob' = pending H gs ext U {#} c" using inv ob by (auto simp: free_inv_def heap_of_def)
  show ?thesis
  proof (cases "pending H gs ext U {#} c = 0")
    case True
    then show ?thesis using free_inv_disappear [OF sp inv _ True] h by (fastforce simp: end_free_def)
  next
    case False
    then show ?thesis using free_inv_zombie [OF inv _ c] h ph by (fastforce simp: end_free_def remove_gc_object_def)
  qed
qed

lemma free_gc_object_inv:
  assumes sp: "gc_split H xs gs ext" and inv: "free_inv H xs gs ext U Z {} {#} rt" and hl: "held H gs ext U {#}"
    and p: "p \<in> U" "js_ref H p"
  shows "\<exists>rt' U' Z'. free_gc_object rt p = Some rt' \<and> free_inv H xs gs ext U' Z' {} {#} rt' \<and> held H gs ext U' {#} \<and> U' \<subseteq> U - {p}"
proof -
  have px: "p \<in> set xs" and fin: "finite U" using inv p(1) by (auto simp: free_inv_def intro: finite_subset)
  obtain ob where ob: "H p = Some ob" "fields_ok H (ext p) (gc_data ob)" using split_fields [OF sp px] by metis
  obtain ob' where ob': "gc_heap rt p = Some ob'" "gc_data ob' = gc_data ob" using inv p(1) ob(1) by (auto simp: free_inv_def heap_of_def)
  have inv1: "free_inv H xs gs ext (U - {p}) Z {p} (mset (kids H p) + {#}) rt" using free_inv_activate [OF inv p(1)] p(2) by blast
  have hl1: "held H gs ext (U - {p}) (mset (kids H p) + {#})"
    unfolding held_def pending_activate [OF fin p(1)] using hl by (simp add: held_def)
  have "\<exists>body. free_gc_object rt p = do { rt \<leftarrow> body rt; end_free rt p } \<and> releases H xs gs ext body (mset (kids H p))"
  proof (cases "gc_data ob")
    case (JS_OBJECT sh props crs)
    let ?body = "\<lambda>rt. do { rt \<leftarrow> free_properties rt props; rt \<leftarrow> js_free_shape rt sh; mark_all finalize_ref rt crs }"
    have "releases H xs gs ext ?body (mset (concat (map mark_property props)) + ({#sh#} + mset crs))"
      using ob(2) JS_OBJECT by (intro releases_seq free_properties_releases [OF sp] js_free_shape_releases [OF sp]
          mark_all_releases finalize_ref_releases [OF sp]) simp_all
    then show ?thesis
      using ob' JS_OBJECT ob(1) by (intro exI [of _ ?body]) (simp add: free_gc_object_def free_object_def kids_def add_ac)
  next
    case (FUNCTION_BYTECODE cpool realm)
    let ?body = "\<lambda>rt. do { rt \<leftarrow> free_values rt cpool; (case realm of Some r \<Rightarrow> JS_FreeContext rt r | None \<Rightarrow> Some rt) }"
    have "releases H xs gs ext ?body (mset (concat (map JS_MarkValue cpool)) + mset (case realm of Some r \<Rightarrow> [r] | None \<Rightarrow> []))"
      using ob(2) FUNCTION_BYTECODE by (intro releases_seq free_values_releases [OF sp] opt_releases JS_FreeContext_releases [OF sp]) simp_all
    then show ?thesis
      using ob' FUNCTION_BYTECODE ob(1) by (intro exI [of _ ?body]) (simp add: free_gc_object_def free_function_bytecode_def kids_def)
  qed (use p(2) ob(1) in \<open>simp_all add: js_ref_def is_js_def\<close>)
  then obtain body where b: "free_gc_object rt p = do { rt \<leftarrow> body rt; end_free rt p }" "releases H xs gs ext body (mset (kids H p))" by blast
  obtain rt2 U2 where 2: "body rt = Some rt2" "free_inv H xs gs ext U2 Z {p} {#} rt2" "held H gs ext U2 {#}" "U2 \<subseteq> U - {p}"
    using releasesD [OF b(2) inv1 hl1] by blast
  then show ?thesis using end_free_inv [OF sp 2(2) p(2)] b(1) by auto
qed

end
