(* ===== verification/Gc_Collect.thy ===== *)
theory Gc_Collect
  imports Gc_Free
begin

text \<open>
  The cycle collector of \<open>quickjs.c\<close>, third part: what a whole collection \<open>JS_RunGC\<close> does. It
  frees exactly the objects that cannot be reached from a reference outside the heap.
\<close>

subsection \<open>Freeing the objects of the temporary list\<close>

definition lists_are :: "(nat \<Rightarrow> JSGCObjectHeader option) \<Rightarrow> nat list \<Rightarrow> nat set \<Rightarrow> nat set \<Rightarrow> nat list \<Rightarrow> nat list \<Rightarrow> JSRuntime \<Rightarrow> bool" where
  "lists_are H gs U Z ts zs rt \<longleftrightarrow>
     gc_lists rt gs ts zs \<and> set ts \<union> set zs = U \<union> Z \<and> {q \<in> U. js_ref H q} \<subseteq> set ts \<and> Z \<subseteq> set zs"

lemma free_lists_are: "free_lists H gs U Z {} rt \<longleftrightarrow> (\<exists>ts zs. lists_are H gs U Z ts zs rt)"
  by (simp add: free_lists_def lists_are_def)

lemma lists_are_tmp: "lists_are H gs U Z ts zs rt \<Longrightarrow> set ts \<subseteq> U \<and> distinct ts"
  using gc_lists_distinct3 [of rt gs ts zs] unfolding lists_are_def by blast

lemma move_non_js:
  assumes inv: "free_inv H xs gs ext U Z {} {#} rt" and l: "lists_are H gs U Z (p # ts) zs rt" and p: "\<not> js_ref H p"
  shows "\<exists>rt'. move_object rt p GC_ZERO_REF_COUNT_LIST = Some rt' \<and> free_inv H xs gs ext U Z {} {#} rt' \<and>
     lists_are H gs U Z ts (zs @ [p]) rt'"
proof -
  have gl: "gc_lists rt gs (p # ts) zs" using l by (simp add: lists_are_def)
  have "p \<notin> set zs" using gc_lists_distinct3 [OF gl] by auto
  then have z: "remove1 p zs = zs" by (rule remove1_idem)
  obtain n1 n2 where n: "list_del (nodes rt) (Link p) = Some n1" "list_add_tail n1 (Link p) GC_ZERO_REF_COUNT_LIST = Some n2"
      "gc_lists (rt\<lparr>nodes := n2\<rparr>) gs ts (zs @ [p])"
    using move_to_zero [OF gl, of p] z by auto
  have la: "lists_are H gs U Z ts (zs @ [p]) (rt\<lparr>nodes := n2\<rparr>)" using l p n(3) by (auto simp: lists_are_def)
  then have "free_lists H gs U Z {} (rt\<lparr>nodes := n2\<rparr>)" using free_lists_are by blast
  then have "free_inv H xs gs ext U Z {} {#} (rt\<lparr>nodes := n2\<rparr>)" using inv by (simp add: free_inv_def)
  then show ?thesis using la n(1,2) by (auto simp: move_object_def)
qed

lemma gc_free_loop_inv:
  assumes sp: "gc_split H xs gs ext"
  shows "free_inv H xs gs ext U Z {} {#} rt \<Longrightarrow> held H gs ext U {#} \<Longrightarrow> lists_are H gs U Z ts zs rt \<Longrightarrow>
    \<exists>rt' U' Z'. gc_free_loop rt = Some rt' \<and> free_inv H xs gs ext U' Z' {} {#} rt' \<and> held H gs ext U' {#} \<and> (\<forall>q\<in>U'. \<not> js_ref H q)"
proof (induction "card U * (card (set xs) + 1) + length ts" arbitrary: U Z rt ts zs rule: less_induct)
  case less
  have fin: "finite U" "U \<subseteq> set xs" using less.prems(1) by (auto simp: free_inv_def intro: finite_subset)
  have first: "get_next (nodes rt) TMP_OBJ_LIST = Some (List.hd (map Link ts @ [TMP_OBJ_LIST]))"
    using less.prems(3) list_first_Link gc_listsD(2) unfolding lists_are_def by blast
  show ?case
  proof (cases ts)
    case Nil
    then have "gc_free_loop rt = Some rt" using first by (subst gc_free_loop.simps) simp
    moreover have "\<forall>q\<in>U. \<not> js_ref H q" using less.prems(3) Nil by (auto simp: lists_are_def)
    ultimately show ?thesis using less.prems(1,2) by blast
  next
    case (Cons p ts')
    have pU: "p \<in> U" using lists_are_tmp [OF less.prems(3)] Cons by simp
    obtain ob ob0 where ob: "gc_heap rt p = Some ob" "H p = Some ob0" "gc_data ob = gc_data ob0"
    proof -
      have "p \<in> set xs" using fin pU by blast
      then obtain ob0 where "H p = Some ob0" using split_fields [OF sp] by blast
      then show ?thesis using that less.prems(1) pU by (auto simp: free_inv_def heap_of_def)
    qed
    have js: "is_js (gc_data ob) \<longleftrightarrow> js_ref H p" using ob by (simp add: js_ref_def)
    show ?thesis
    proof (cases "js_ref H p")
      case True
      obtain rt1 U1 Z1 where 1: "free_gc_object rt p = Some rt1" "free_inv H xs gs ext U1 Z1 {} {#} rt1" "held H gs ext U1 {#}" "U1 \<subseteq> U - {p}"
        using free_gc_object_inv [OF sp less.prems(1,2) pU True] by blast
      obtain ts1 zs1 where l1: "lists_are H gs U1 Z1 ts1 zs1 rt1" using 1(2) free_lists_are by (force simp: free_inv_def)
      have "card U1 < card U" using 1(4) pU fin(1) by (intro psubset_card_mono) auto
      then have "Suc (card U1) * (card (set xs) + 1) \<le> card U * (card (set xs) + 1)" by (intro mult_le_mono1) simp
      moreover have "length ts1 \<le> card (set xs)"
        using lists_are_tmp [OF l1] 1(4) fin(2) by (metis Diff_subset List.finite_set card_mono distinct_card subset_trans)
      ultimately have "card U1 * (card (set xs) + 1) + length ts1 < card U * (card (set xs) + 1) + length ts" by simp
      from less.hyps [OF this 1(2,3) l1] obtain rt2 U2 Z2 where "gc_free_loop rt1 = Some rt2" "free_inv H xs gs ext U2 Z2 {} {#} rt2"
          "held H gs ext U2 {#}" "\<forall>q\<in>U2. \<not> js_ref H q" by blast
      moreover have "gc_free_loop rt = gc_free_loop rt1"
        by (subst gc_free_loop.simps) (use first Cons ob(1) js True 1(1) in simp)
      ultimately show ?thesis by auto
    next
      case False
      obtain rt1 where 1: "move_object rt p GC_ZERO_REF_COUNT_LIST = Some rt1" "free_inv H xs gs ext U Z {} {#} rt1"
          "lists_are H gs U Z ts' (zs @ [p]) rt1"
        using move_non_js [OF less.prems(1) less.prems(3) [unfolded Cons] False] by blast
      have "card U * (card (set xs) + 1) + length ts' < card U * (card (set xs) + 1) + length ts" using Cons by simp
      from less.hyps [OF this 1(2) less.prems(2) 1(3)] obtain rt2 U2 Z2 where "gc_free_loop rt1 = Some rt2" "free_inv H xs gs ext U2 Z2 {} {#} rt2"
          "held H gs ext U2 {#}" "\<forall>q\<in>U2. \<not> js_ref H q" by blast
      moreover have "gc_free_loop rt = gc_free_loop rt1"
        by (subst gc_free_loop.simps) (use first Cons ob(1) js False 1(1) in simp)
      ultimately show ?thesis by auto
    qed
  qed
qed

text \<open>
  The objects of the other types are all gone by then: each of them is held by a JavaScript object
  or by a context, and a context is held by a JavaScript object.
\<close>

lemma kids_types:
  assumes sp: "gc_split H xs gs ext" and p: "p \<in> set xs" "\<not> js_ref H p" and q: "q \<in> set (kids H p)"
  shows "js_ref H q \<or> context_ref H p \<and> (var_ref H q \<or> shape_ref H q)"
proof -
  obtain ob where ob: "H p = Some ob" "fields_ok H (ext p) (gc_data ob)" "mark_children (gc_data ob) = Some (kids H p)"
    using split_fields [OF sp p(1)] by blast
  have q: "q \<in> set (the (mark_children (gc_data ob)))" using q ob(3) by simp
  have v: "js_ref H q" if "q \<in> set (JS_MarkValue v)" "value_ok H v" for v using that by (cases v) auto
  show ?thesis
  proof (cases "gc_data ob")
    case (SHAPE proto)
    then show ?thesis using ob(2) q by (auto split: option.splits)
  next
    case (VAR_REF d x)
    then show ?thesis using ob(2) q v by (auto split: if_splits)
  next
    case (ASYNC_FUNCTION a cf tv st f0 f1)
    then have "\<exists>x\<in>set ([f0, f1] @ (if a then [cf, tv] @ (case st of Some vs \<Rightarrow> vs | None \<Rightarrow> []) else [])). q \<in> set (JS_MarkValue x)"
      using q by (auto simp: async_func_mark_def split: if_splits option.splits)
    moreover have "\<forall>x\<in>set ([f0, f1] @ (if a then [cf, tv] @ (case st of Some vs \<Rightarrow> vs | None \<Rightarrow> []) else [])). value_ok H x"
      using ob(2) ASYNC_FUNCTION by simp
    ultimately show ?thesis using v by blast
  next
    case (JS_CONTEXT ms vs sh)
    then have "context_ref H p" using ob(1) by (simp add: context_ref_def)
    moreover have "js_ref H q \<or> var_ref H q \<or> shape_ref H q" using ob(2) q v JS_CONTEXT by (auto split: option.splits)
    ultimately show ?thesis by blast
  qed (use p(2) ob(1) in \<open>simp_all add: js_ref_def is_js_def\<close>)
qed

lemma unheld_empty:
  assumes sp: "gc_split H xs gs ext" and U: "U \<subseteq> set xs - set gs" "\<forall>q\<in>U. \<not> js_ref H q" and hl: "held H gs ext U {#}"
  shows "U = {}"
proof (rule ccontr)
  have fin: "finite U" using U(1) by (auto intro: finite_subset)
  have holder: "\<exists>p\<in>U. q \<in> set (kids H p)" if q: "q \<in> U" for q
  proof -
    have "ext q = 0" using sp U(1) q unfolding gc_split_def by blast
    moreover have "refs H gs q = 0"
    proof -
      have "count_list (kids H p) q = 0" if "p \<in> set gs" for p
        using sp that U(1) q unfolding gc_split_def by (metis DiffD2 count_list_0_iff subsetD)
      moreover have "distinct gs" using sp by (simp add: gc_split_def)
      ultimately show ?thesis by (simp add: refs_sum)
    qed
    moreover have "0 < pending H gs ext U {#} q" using hl U(2) q by (simp add: held_def)
    ultimately have "(\<Sum>p\<in>U. int (count_list (kids H p) q)) \<noteq> 0" by (simp add: pending_def)
    then obtain p where "p \<in> U" "int (count_list (kids H p) q) \<noteq> 0" by (rule sum.not_neutral_contains_not_neutral)
    then show ?thesis by (intro bexI [of _ p]) (simp_all add: count_list_0_iff)
  qed
  assume "U \<noteq> {}"
  then obtain q p p2 where q: "q \<in> U" "p \<in> U" "q \<in> set (kids H p)" "p2 \<in> U" "p \<in> set (kids H p2)" using holder by (metis ex_in_conv)
  have "context_ref H p" using kids_types [OF sp _ _ q(3)] q(1,2) U by blast
  moreover have "var_ref H p \<or> shape_ref H p" using kids_types [OF sp _ _ q(5)] q(2,4) U by blast
  ultimately show False by (auto simp: context_ref_def var_ref_def shape_ref_def)
qed

subsection \<open>The objects that wait\<close>

lemma free_zombies_all:
  assumes l: "is_list n GC_ZERO_REF_COUNT_LIST (map Link zs)"
  shows "zs = ds @ rs \<Longrightarrow> \<forall>q\<in>set rs. \<exists>ob. gc_heap rt q = Some ob \<and> is_js (gc_data ob) \<Longrightarrow>
    (\<forall>a. a \<notin> Link ` set ds \<longrightarrow> nodes rt a = n a) \<Longrightarrow> el = List.hd (map Link rs @ [GC_ZERO_REF_COUNT_LIST]) \<Longrightarrow> get_next n el = Some el1 \<Longrightarrow>
    \<exists>rt'. gc_free_zombies rt el el1 = Some rt' \<and> gc_phase rt' = gc_phase rt \<and>
      gc_heap rt' = (\<lambda>q. if q \<in> set rs then None else gc_heap rt q) \<and>
      nodes rt' = (\<lambda>a. if a \<in> Link ` set rs then None else nodes rt a)"
proof (induction rs arbitrary: ds rt el el1)
  case Nil
  then show ?case by (subst gc_free_zombies.simps) simp
next
  case (Cons p rs)
  have d: "distinct zs" using l by (simp add: is_list_def distinct_map)
  obtain ob where ob: "gc_heap rt p = Some ob" "is_js (gc_data ob)" using Cons.prems(2) by auto
  let ?rt = "rt\<lparr>gc_heap := (gc_heap rt)(p := None), nodes := (nodes rt)(Link p := None)\<rparr>"
  have el: "el = Link p" using Cons.prems(4) by simp
  have el1: "el1 = List.hd (map Link rs @ [GC_ZERO_REF_COUNT_LIST])"
    using list_next_Link [of n GC_ZERO_REF_COUNT_LIST ds p rs] l Cons.prems(1,5) el by simp
  have fresh: "el1 \<notin> Link ` set (ds @ [p])" using el1 d Cons.prems(1) by (cases rs) auto
  have "el1 \<in> set (GC_ZERO_REF_COUNT_LIST # map Link zs)" using el1 Cons.prems(1) by (cases rs) auto
  then obtain nxt where nxt: "get_next n el1 = Some nxt" using is_list_dom [OF l] by blast
  then have nxt': "get_next (nodes ?rt) el1 = Some nxt" using fresh Cons.prems(3) by (simp add: get_next_def)
  have "gc_free_zombies rt el el1 = gc_free_zombies ?rt el1 nxt"
    by (subst gc_free_zombies.simps) (use el ob nxt' in \<open>simp add: js_free_rt_def\<close>)
  moreover have "\<forall>q\<in>set rs. \<exists>ob. gc_heap ?rt q = Some ob \<and> is_js (gc_data ob)" using Cons.prems(1,2) d by auto
  moreover have "\<forall>a. a \<notin> Link ` set (ds @ [p]) \<longrightarrow> nodes ?rt a = n a" using Cons.prems(3) by auto
  ultimately show ?case using Cons.IH [of "ds @ [p]" ?rt el1 nxt] Cons.prems(1) el1 nxt by (auto simp: fun_eq_iff)
qed

lemma gc_free_cycles_frees:
  assumes sp: "gc_split H xs gs ext" and l: "gc_lists rt gs ts []" and ts: "set ts = set xs - set gs"
    and h: "gc_heap rt = heap_of H xs gs (set ts) (pending H gs ext (set ts) {#})" and hl: "held H gs ext (set ts) {#}"
    and b: "\<forall>q\<in>set xs. pending H gs ext (set ts) {#} q < 2 ^ 31"
  shows "\<exists>rt'. gc_free_cycles rt = Some rt' \<and> gc_phase rt' = JS_GC_PHASE_NONE \<and> gc_lists rt' gs [] [] \<and>
     gc_heap rt' = heap_of H xs gs {} (\<lambda>q. ext q + refs H gs q)"
proof -
  let ?rt = "rt\<lparr>gc_phase := JS_GC_PHASE_REMOVE_CYCLES\<rparr>"
  have gx: "set gs \<subseteq> set xs" using sp by (simp add: gc_split_def)
  have la: "lists_are H gs (set ts) {} ts [] ?rt" using l by (simp add: lists_are_def gc_lists_def)
  then have "free_lists H gs (set ts) {} {} ?rt" using free_lists_are by blast
  moreover have "set (kids H p) \<subseteq> set gs \<union> set ts" if "p \<in> set ts" for p using split_kids [OF sp, of p] that ts by blast
  moreover have "\<forall>q\<in>set gs \<union> set ts. pending H gs ext (set ts) {#} q < 2 ^ 31" using b gx ts by blast
  ultimately have inv: "free_inv H xs gs ext (set ts) {} {} {#} ?rt" using ts h by (simp add: free_inv_def)
  obtain rt1 U Z where 1: "gc_free_loop ?rt = Some rt1" "free_inv H xs gs ext U Z {} {#} rt1" "held H gs ext U {#}" "\<forall>q\<in>U. \<not> js_ref H q"
    using gc_free_loop_inv [OF sp inv hl la] by blast
  have "U \<subseteq> set xs - set gs" using 1(2) by (simp add: free_inv_def)
  then have U: "U = {}" by (rule unheld_empty [OF sp _ 1(4,3)])
  have Z: "Z \<subseteq> set xs - set gs" "\<forall>q\<in>Z. js_ref H q" and h1: "gc_heap rt1 = heap_of H xs gs Z (\<lambda>q. ext q + refs H gs q)"
    using 1(2) unfolding U by (simp_all add: free_inv_def pending_def [abs_def])
  obtain ts1 zs where "lists_are H gs {} Z ts1 zs rt1" using 1(2) free_lists_are unfolding U by (force simp: free_inv_def)
  then have "gc_lists rt1 gs ts1 zs" "set ts1 \<subseteq> {}" "set ts1 \<union> set zs = Z"
    using lists_are_tmp [of H gs "{}" Z ts1 zs rt1] by (simp_all add: lists_are_def)
  then have l1: "gc_lists rt1 gs [] zs" and zs: "set zs = Z" by simp_all
  let ?rt1 = "rt1\<lparr>gc_phase := JS_GC_PHASE_NONE\<rparr>" and ?n = "nodes rt1"
  have zl: "is_list ?n GC_ZERO_REF_COUNT_LIST (map Link zs)" by (rule gc_listsD(3) [OF l1])
  let ?el = "List.hd (map Link zs @ [GC_ZERO_REF_COUNT_LIST])"
  have el: "get_next ?n GC_ZERO_REF_COUNT_LIST = Some ?el" by (rule list_first_Link [OF zl])
  have "?el \<in> set (GC_ZERO_REF_COUNT_LIST # map Link zs)" by (cases zs) auto
  then obtain el1 where el1: "get_next ?n ?el = Some el1" using is_list_dom [OF zl] by blast
  have "\<forall>q\<in>set zs. \<exists>ob. gc_heap ?rt1 q = Some ob \<and> is_js (gc_data ob)" using Z(2) zs h1 by (auto simp: heap_of_def js_ref_def)
  from free_zombies_all [OF zl _ this _ refl el1, of "[]"] obtain rt2 where 2: "gc_free_zombies ?rt1 ?el el1 = Some rt2"
      "gc_phase rt2 = gc_phase ?rt1" "gc_heap rt2 = (\<lambda>q. if q \<in> set zs then None else gc_heap ?rt1 q)"
      "nodes rt2 = (\<lambda>a. if a \<in> Link ` set zs then None else nodes ?rt1 a)"
    by auto
  have gl: "is_list (nodes rt2) GC_OBJ_LIST (map Link gs)" "is_list (nodes rt2) TMP_OBJ_LIST []"
  proof -
    have "is_list (nodes rt2) GC_OBJ_LIST (map Link gs) = is_list ?n GC_OBJ_LIST (map Link gs)"
      using gc_lists_distinct3 [OF l1] by (intro is_list_cong) (auto simp: 2(4))
    moreover have "is_list (nodes rt2) TMP_OBJ_LIST [] = is_list ?n TMP_OBJ_LIST []" by (intro is_list_cong) (auto simp: 2(4))
    ultimately show "is_list (nodes rt2) GC_OBJ_LIST (map Link gs)" "is_list (nodes rt2) TMP_OBJ_LIST []" using gc_listsD [OF l1] by simp_all
  qed
  have heads: "gc_heads - {GC_ZERO_REF_COUNT_LIST} = {GC_OBJ_LIST, TMP_OBJ_LIST}" "insert GC_ZERO_REF_COUNT_LIST gc_heads = gc_heads"
    by (auto simp: gc_heads_def)
  have "lists_of (nodes rt2) {GC_OBJ_LIST, TMP_OBJ_LIST} (gc_seqs gs [] [])" using gl by (auto simp: lists_of_def)
  moreover have "GC_ZERO_REF_COUNT_LIST \<in> dom (nodes rt2)" using get_dom(1) [OF el] by (auto simp: 2(4) dom_def)
  moreover have "GC_ZERO_REF_COUNT_LIST \<notin> in_lists {GC_OBJ_LIST, TMP_OBJ_LIST} (gc_seqs gs [] [])" by (auto simp: in_lists_def)
  moreover have "(gc_seqs gs [] [])(GC_ZERO_REF_COUNT_LIST := []) = gc_seqs gs [] []" by (auto simp: gc_seqs_def)
  ultimately obtain n3 where n3: "init_list_head (nodes rt2) GC_ZERO_REF_COUNT_LIST = Some n3" "lists_of n3 gc_heads (gc_seqs gs [] [])"
    using lists_of_init [of "nodes rt2" gc_heads GC_ZERO_REF_COUNT_LIST "gc_seqs gs [] []"] heads by auto
  have "gc_heap rt2 = heap_of H xs gs {} (\<lambda>q. ext q + refs H gs q)"
    using Z(1) by (auto simp: fun_eq_iff 2(3) h1 zs heap_of_def)
  then show ?thesis using 1(1) el el1 2(1,2) n3 by (auto simp: gc_free_cycles_def Let_def gc_lists_def)
qed

subsection \<open>A whole collection\<close>

text \<open>
  The state a collection starts from: the objects \<open>xs\<close> are on the list of the runtime and none
  waits to be freed, their counts are those of the references to them, \<open>ext\<close> of them from outside
  the heap, none is zero, and every field refers to an object of its type.
\<close>

definition gc_ok :: "JSRuntime \<Rightarrow> nat list \<Rightarrow> (nat \<Rightarrow> int) \<Rightarrow> bool" where
  "gc_ok rt xs ext \<longleftrightarrow>
     gc_ready rt xs [] \<and> gc_consistent (gc_heap rt) xs ext \<and>
     (\<forall>p\<in>set xs. \<forall>ob. gc_heap rt p = Some ob \<longrightarrow> 0 < ref_count ob \<and> fields_ok (gc_heap rt) (ext p) (gc_data ob))"

definition collected :: "(nat \<Rightarrow> JSGCObjectHeader option) \<Rightarrow> nat list \<Rightarrow> nat list \<Rightarrow> (nat \<Rightarrow> int) \<Rightarrow> nat \<Rightarrow> JSGCObjectHeader option" where
  "collected H xs gs ext q =
     (if q \<in> set gs then map_option (\<lambda>ob. ob\<lparr>ref_count := ext q + refs H gs q\<rparr>) (H q)
      else if q \<in> set xs then None else H q)"

lemma reach_split:
  assumes ok: "gc_ok rt xs ext" and gs: "set gs = gc_reach (gc_heap rt) xs ext" "distinct gs"
  shows "gc_split (gc_heap rt) xs gs ext"
proof -
  let ?H = "gc_heap rt"
  have con: "gc_consistent ?H xs ext" using ok by (simp add: gc_ok_def)
  have sub: "set gs \<subseteq> set xs" unfolding gs(1)
    by (rule reach_least) (use consistent_kids [OF con] in blast)+
  have ext: "0 \<le> ext p" if "p \<in> set xs" for p using con that by (force simp: gc_consistent_def)
  have closed: "set (kids ?H p) \<subseteq> set gs" if "p \<in> set gs" for p
    using that sub reach_step [of p ?H xs ext] by (auto simp: gs(1))
  have pos: "0 < ext q + refs ?H gs q" if q: "q \<in> set gs" for q
  proof (cases "0 < ext q")
    case False
    have "(\<exists>p\<in>set gs. q \<in> set (kids ?H p)) \<or> 0 < ext q"
    proof -
      obtain r where r: "r \<in> set xs" "0 < ext r" "(r, q) \<in> (gc_edges ?H xs)\<^sup>*" using q by (auto simp: gs(1) gc_reach_def)
      from r(3) show ?thesis
      proof (cases rule: rtranclE)
        case (step p)
        then have "p \<in> set gs" "q \<in> set (kids ?H p)" using r by (auto simp: gs(1) gc_reach_def gc_edges_def)
        then show ?thesis by blast
      qed (use r in simp)
    qed
    then show ?thesis using False refs_pos [of _ gs q ?H] ext [of q] q sub by force
  qed (simp add: add_pos_nonneg)
  have "ext p = 0" if "p \<in> set xs - set gs" for p
    using ext [of p] that by (force simp: gs(1) gc_reach_def)
  moreover have "\<exists>ob. ?H p = Some ob \<and> mark_children (gc_data ob) = Some (kids ?H p) \<and> fields_ok ?H (ext p) (gc_data ob) \<and>
      set (kids ?H p) \<subseteq> set xs \<and> 0 \<le> ext p" if "p \<in> set xs" for p
    using consistent_kids [OF con that] ok ext [OF that] that unfolding gc_ok_def by metis
  ultimately show ?thesis using gs(2) sub closed pos unfolding gc_split_def by blast
qed

lemma collect:
  assumes ok: "gc_ok rt xs ext"
  shows "\<exists>rt' gs. JS_RunGC rt = Some rt' \<and> gc_phase rt' = JS_GC_PHASE_NONE \<and> gc_lists rt' gs [] [] \<and>
     set gs = gc_reach (gc_heap rt) xs ext \<and> gc_heap rt' = collected (gc_heap rt) xs gs ext \<and> gc_split (gc_heap rt) xs gs ext"
proof -
  let ?H = "gc_heap rt"
  have rdy: "gc_ready rt xs []" and con: "gc_consistent ?H xs ext" using ok by (simp_all add: gc_ok_def)
  obtain rt1 rt2 gs ts where 1: "gc_decref rt = Some rt1" "gc_scan rt1 = Some rt2" "gc_marked rt gs ts [] rt2"
      "set gs = gc_reach ?H xs ext" "set ts = set xs - gc_reach ?H xs ext" "distinct (gs @ ts)"
    using gc_mark_phases [OF rdy con] by blast
  have sp: "gc_split ?H xs gs ext" using reach_split [OF ok 1(4)] 1(6) by simp
  then have sub: "set gs \<subseteq> set xs" by (simp add: gc_split_def)
  have ts: "set ts = set xs - set gs" using 1(4,5) by simp
  have d: "distinct xs" using gc_decref_exact [OF rdy con] by blast
  have "set (gs @ ts) = set xs" using sub ts by auto
  then have "refs ?H (gs @ ts) q = refs ?H xs q" for q by (simp only: refs_sum [OF 1(6)] refs_sum [OF d])
  then have pend: "pending ?H gs ext (set ts) {#} q = ext q + refs ?H xs q" for q
    using 1(6) by (simp add: pending_def refs_sum [of ts])
  have h2: "gc_heap rt2 q = (if q \<in> set ts then map_option (\<lambda>ob. ob\<lparr>gc_mark := 1\<rparr>) (?H q) else ?H q)" for q
    using 1(3) by (simp add: gc_marked_def)
  have h: "gc_heap rt2 q = heap_of ?H xs gs (set ts) (pending ?H gs ext (set ts) {#}) q" for q
  proof (cases "q \<in> set xs")
    case True
    then obtain ob where "?H q = Some ob" "gc_mark ob = 0" "ref_count ob = ext q + refs ?H xs q" using con by (auto simp: gc_consistent_def)
    moreover have "q \<in> set gs \<union> set ts" "q \<in> set gs \<longleftrightarrow> q \<notin> set ts" using True ts by auto
    ultimately show ?thesis using h2 [of q] heap_of_Some [of q gs "set ts" ?H ob xs] by (simp add: pend)
  next
    case False
    then have "q \<notin> set gs" "q \<notin> set ts" using sub ts by auto
    then show ?thesis using False h2 [of q] by (simp add: heap_of_def)
  qed
  then have hh: "gc_heap rt2 = heap_of ?H xs gs (set ts) (pending ?H gs ext (set ts) {#})" by blast
  have rc: "0 < ext q + refs ?H xs q \<and> ext q + refs ?H xs q < 2 ^ 31" if "q \<in> set xs" for q
  proof -
    obtain ob where "?H q = Some ob" "ref_count ob = ext q + refs ?H xs q" "ref_count ob < 2 ^ 31" using con \<open>q \<in> set xs\<close> by (auto simp: gc_consistent_def)
    moreover from this have "0 < ref_count ob" using ok \<open>q \<in> set xs\<close> unfolding gc_ok_def by blast
    ultimately show ?thesis by simp
  qed
  have "held ?H gs ext (set ts) {#}" unfolding held_def pend using rc ts by simp
  moreover have "\<forall>q\<in>set xs. pending ?H gs ext (set ts) {#} q < 2 ^ 31" unfolding pend using rc by simp
  moreover have "gc_lists rt2 gs ts []" using 1(3) by (simp add: gc_marked_def)
  ultimately obtain rt' where 2: "gc_free_cycles rt2 = Some rt'" "gc_phase rt' = JS_GC_PHASE_NONE" "gc_lists rt' gs [] []"
      "gc_heap rt' = heap_of ?H xs gs {} (\<lambda>q. ext q + refs ?H gs q)"
    using gc_free_cycles_frees [OF sp _ ts hh] by blast
  have "gc_heap rt' q = collected ?H xs gs ext q" for q
  proof (cases "q \<in> set gs")
    case True
    then obtain ob where "?H q = Some ob" "gc_mark ob = 0" using con sub by (force simp: gc_consistent_def)
    then show ?thesis using True by (simp add: 2(4) heap_of_def collected_def)
  qed (simp add: 2(4) heap_of_def collected_def)
  then show ?thesis using 1(1,2,4) 2 sp by (auto simp: JS_RunGC_def)
qed

lemma fields_ok_transfer:
  assumes ok: "fields_ok H e d" and cs: "mark_children d = Some cs"
    and same: "\<And>q ob. q \<in> set cs \<Longrightarrow> H q = Some ob \<Longrightarrow> \<exists>ob'. H' q = Some ob' \<and> gc_data ob' = gc_data ob"
  shows "fields_ok H' e d"
proof -
  have t: "js_ref H q \<longrightarrow> js_ref H' q" "shape_ref H q \<longrightarrow> shape_ref H' q" "var_ref H q \<longrightarrow> var_ref H' q" "context_ref H q \<longrightarrow> context_ref H' q"
    if "q \<in> set cs" for q
    using same [OF that] unfolding js_ref_def shape_ref_def var_ref_def context_ref_def by metis+
  have v: "value_ok H' x" if "set (JS_MarkValue x) \<subseteq> set cs" "value_ok H x" for x using that t(1) by (cases x) auto
  have pr: "property_ok H' x" if "set (mark_property x) \<subseteq> set cs" "property_ok H x" for x
    using that t v by (cases x) (auto split: option.splits)
  show ?thesis
  proof (cases d)
    case (JS_OBJECT sh props crs)
    then have k: "sh \<in> set cs" "x \<in> set props \<Longrightarrow> set (mark_property x) \<subseteq> set cs" for x using cs by auto
    then show ?thesis using ok JS_OBJECT t(2) [OF k(1)] pr [OF k(2)] by auto
  next
    case (FUNCTION_BYTECODE cpool realm)
    then have k: "x \<in> set cpool \<Longrightarrow> set (JS_MarkValue x) \<subseteq> set cs" "realm = Some r \<Longrightarrow> r \<in> set cs" for x r using cs by auto
    then show ?thesis using ok FUNCTION_BYTECODE v [OF k(1)] t(4) [OF k(2)] by auto
  next
    case (SHAPE proto)
    then have k: "proto = Some p \<Longrightarrow> p \<in> set cs" for p using cs by auto
    then show ?thesis using ok SHAPE t(1) [OF k] by auto
  next
    case (VAR_REF dt x)
    then have k: "dt \<Longrightarrow> set (JS_MarkValue x) \<subseteq> set cs" using cs by auto
    then show ?thesis using ok VAR_REF v [OF k] by auto
  next
    case (ASYNC_FUNCTION a cf tv st f0 f1)
    let ?vs = "[f0, f1] @ (if a then [cf, tv] @ (case st of Some vs \<Rightarrow> vs | None \<Rightarrow> []) else [])"
    have "set (JS_MarkValue x) \<subseteq> set cs" if "x \<in> set ?vs" for x
      using cs ASYNC_FUNCTION that by (auto simp: async_func_mark_def split: if_splits option.splits)
    moreover have "value_ok H x" if "x \<in> set ?vs" for x using ok ASYNC_FUNCTION that by auto
    ultimately have "\<forall>x\<in>set ?vs. value_ok H' x" using v by blast
    then show ?thesis using ok ASYNC_FUNCTION by simp
  next
    case (JS_CONTEXT ms vs sh)
    then have k: "x \<in> set vs \<Longrightarrow> set (JS_MarkValue x) \<subseteq> set cs" "sh = Some r \<Longrightarrow> r \<in> set cs" "m \<in> set ms \<Longrightarrow> m \<in> set cs" for x r m using cs by auto
    then show ?thesis using ok JS_CONTEXT v [OF k(1)] t(2) [OF k(2)] t(1,3) [OF k(3)] by auto
  qed
qed

lemma collected_ok:
  assumes ok: "gc_ok rt xs ext" and sp: "gc_split (gc_heap rt) xs gs ext" and l: "gc_lists rt' gs [] []"
    and h: "gc_heap rt' = collected (gc_heap rt) xs gs ext" and d: "distinct xs"
  shows "gc_ok rt' gs ext"
proof -
  let ?H = "gc_heap rt" and ?H' = "gc_heap rt'"
  have con: "gc_consistent ?H xs ext" using ok by (simp add: gc_ok_def)
  have gs: "distinct gs" "set gs \<subseteq> set xs" and closed: "\<And>p. p \<in> set gs \<Longrightarrow> set (kids ?H p) \<subseteq> set gs"
    and pos: "\<And>q. q \<in> set gs \<Longrightarrow> 0 < ext q + refs ?H gs q"
    using sp by (auto simp: gc_split_def)
  have live: "\<exists>ob. ?H p = Some ob \<and> ?H' p = Some (ob\<lparr>ref_count := ext p + refs ?H gs p\<rparr>) \<and> gc_mark ob = 0 \<and>
      mark_children (gc_data ob) = Some (kids ?H p) \<and> fields_ok ?H (ext p) (gc_data ob)" if p: "p \<in> set gs" for p
  proof -
    obtain ob where ob: "?H p = Some ob" "gc_mark ob = 0" using con p gs(2) by (force simp: gc_consistent_def)
    then show ?thesis using split_fields [OF sp, of p] p gs(2) by (auto simp: h collected_def)
  qed
  have k: "kids ?H' p = kids ?H p" if "p \<in> set gs" for p using live [OF that] by (auto simp: kids_def)
  have r: "refs ?H' gs q = refs ?H gs q" for q by (simp add: refs_sum [OF gs(1)] k cong: sum.cong)
  have "gc_ready rt' gs []"
    using l get_dom(1) [OF list_first_Link [OF gc_listsD(2) [OF l]]] by (auto simp: gc_ready_def gc_lists_def lists_of_def gc_heads_def)
  moreover have "gc_consistent ?H' gs ext"
    unfolding gc_consistent_def
  proof (intro ballI)
    fix p assume p: "p \<in> set gs"
    obtain ob where "?H' p = Some (ob\<lparr>ref_count := ext p + refs ?H gs p\<rparr>)" "gc_mark ob = 0" "mark_children (gc_data ob) = Some (kids ?H p)"
      using live [OF p] by blast
    moreover have "ext p + refs ?H gs p < 2 ^ 31" "0 \<le> ext p" using consistent_bound [OF con, of p gs] p gs d by auto
    ultimately show "\<exists>ob cs. ?H' p = Some ob \<and> gc_mark ob = 0 \<and> mark_children (gc_data ob) = Some cs \<and> set cs \<subseteq> set gs \<and>
        0 \<le> ext p \<and> ref_count ob = ext p + refs ?H' gs p \<and> ref_count ob < 2 ^ 31"
      using closed [OF p] by (simp add: r)
  qed
  moreover have "0 < ref_count ob \<and> fields_ok ?H' (ext p) (gc_data ob)" if p: "p \<in> set gs" "?H' p = Some ob" for p ob
  proof -
    obtain ob0 where ob0: "?H' p = Some (ob0\<lparr>ref_count := ext p + refs ?H gs p\<rparr>)" "mark_children (gc_data ob0) = Some (kids ?H p)"
        "fields_ok ?H (ext p) (gc_data ob0)" using live [OF p(1)] by blast
    have "fields_ok ?H' (ext p) (gc_data ob0)"
      using ob0(3,2)
    proof (rule fields_ok_transfer)
      fix q ob' assume "q \<in> set (kids ?H p)" "?H q = Some ob'"
      then show "\<exists>ob''. ?H' q = Some ob'' \<and> gc_data ob'' = gc_data ob'" using live [of q] closed [OF p(1)] by auto
    qed
    then show ?thesis using ob0(1) p(2) pos [OF p(1)] by auto
  qed
  ultimately show ?thesis unfolding gc_ok_def by blast
qed

lemma collected_again:
  assumes ok: "gc_ok rt xs ext" and sp: "gc_split (gc_heap rt) xs gs ext" and gs: "set gs = gc_reach (gc_heap rt) xs ext"
    and h: "gc_heap rt' = collected (gc_heap rt) xs gs ext" and ok': "gc_ok rt' gs ext"
    and gs': "set gs' = gc_reach (gc_heap rt') gs ext" "distinct gs'"
  shows "collected (gc_heap rt') gs gs' ext = gc_heap rt'"
proof -
  let ?H = "gc_heap rt" and ?H' = "gc_heap rt'"
  have con': "gc_consistent ?H' gs ext" using ok' by (simp add: gc_ok_def)
  have d: "distinct gs" using sp by (simp add: gc_split_def)
  have sub: "gc_reach ?H' gs ext \<subseteq> set gs" by (rule reach_least) (use consistent_kids [OF con'] in blast)+
  have k: "kids ?H' p = kids ?H p" if "p \<in> set gs" for p
    using that by (auto simp: kids_def h collected_def split: option.splits)
  have "gc_reach ?H xs ext \<subseteq> gc_reach ?H' gs ext"
  proof (rule reach_least)
    show "p \<in> gc_reach ?H' gs ext" if "p \<in> set xs" "0 < ext p" for p
      using that gs by (auto simp: gc_reach_def)
    show "q \<in> gc_reach ?H' gs ext" if "p \<in> gc_reach ?H' gs ext" "q \<in> set (kids ?H p)" for p q
      using that sub k [of p] reach_step [of p ?H' gs ext q] by auto
  qed
  then have eq: "set gs' = set gs" using sub gs gs' by auto
  then have r: "refs ?H' gs' q = refs ?H' gs q" for q by (simp add: refs_sum [OF d] refs_sum [OF gs'(2)])
  show ?thesis
  proof
    fix q
    show "collected ?H' gs gs' ext q = ?H' q"
    proof (cases "q \<in> set gs")
      case True
      then obtain ob where "?H' q = Some ob" "ref_count ob = ext q + refs ?H' gs q" using con' by (auto simp: gc_consistent_def)
      then show ?thesis using True eq by (simp add: collected_def r)
    qed (simp add: collected_def eq)
  qed
qed


text \<open>
  A heap with a cycle: the objects 1 and 2 refer to each other, the object 3 is referenced from
  outside, and all three share the shape 0.
\<close>

definition cycle_heap :: "nat \<Rightarrow> JSGCObjectHeader option" where
  "cycle_heap =
     [0 \<mapsto> \<lparr>ref_count = 3, gc_mark = 0, gc_data = SHAPE None\<rparr>,
      1 \<mapsto> \<lparr>ref_count = 1, gc_mark = 0, gc_data = JS_OBJECT 0 [Prop_Value (Val_Ref 2)] []\<rparr>,
      2 \<mapsto> \<lparr>ref_count = 1, gc_mark = 0, gc_data = JS_OBJECT 0 [Prop_Value (Val_Ref 1), Prop_Deleted] []\<rparr>,
      3 \<mapsto> \<lparr>ref_count = 1, gc_mark = 0, gc_data = JS_OBJECT 0 [Prop_Value Val_Plain] []\<rparr>]"

definition cycle_runtime :: JSRuntime where
  "cycle_runtime =
     \<lparr>gc_phase = JS_GC_PHASE_NONE,
      nodes = [GC_OBJ_LIST \<mapsto> \<lparr>prev_ptr = Some (Link 3), next_ptr = Some (Link 0)\<rparr>,
        Link 0 \<mapsto> \<lparr>prev_ptr = Some GC_OBJ_LIST, next_ptr = Some (Link 1)\<rparr>,
        Link 1 \<mapsto> \<lparr>prev_ptr = Some (Link 0), next_ptr = Some (Link 2)\<rparr>,
        Link 2 \<mapsto> \<lparr>prev_ptr = Some (Link 1), next_ptr = Some (Link 3)\<rparr>,
        Link 3 \<mapsto> \<lparr>prev_ptr = Some (Link 2), next_ptr = Some GC_OBJ_LIST\<rparr>,
        GC_ZERO_REF_COUNT_LIST \<mapsto> \<lparr>prev_ptr = Some GC_ZERO_REF_COUNT_LIST, next_ptr = Some GC_ZERO_REF_COUNT_LIST\<rparr>,
        TMP_OBJ_LIST \<mapsto> \<lparr>prev_ptr = None, next_ptr = None\<rparr>],
      gc_heap = cycle_heap\<rparr>"

definition cycle_ext :: "nat \<Rightarrow> int" where
  "cycle_ext q = (if q = 3 then 1 else 0)"

lemma cycle_kids: "kids cycle_heap 0 = []" "kids cycle_heap (Suc 0) = [0, 2]" "kids cycle_heap 2 = [0, 1]" "kids cycle_heap 3 = [0]"
  by (simp_all add: kids_def cycle_heap_def)

lemma cycle_ok: "gc_ok cycle_runtime [0, 1, 2, 3] cycle_ext"
proof -
  have "gc_ready cycle_runtime [0, 1, 2, 3] []"
    by (auto simp: gc_ready_def cycle_runtime_def lists_of_def is_list_def get_next_def get_prev_def)
  moreover have "gc_consistent cycle_heap [0, 1, 2, 3] cycle_ext"
    by (simp add: gc_consistent_def cycle_kids cycle_ext_def) (simp add: cycle_heap_def)
  moreover have "fields_ok cycle_heap e (gc_data ob)" if "cycle_heap p = Some ob" for p ob e
    using that by (auto simp: cycle_heap_def js_ref_def shape_ref_def is_js_def split: if_splits)
  moreover have "0 < ref_count ob" if "cycle_heap p = Some ob" for p ob using that by (auto simp: cycle_heap_def split: if_splits)
  ultimately show ?thesis by (simp add: gc_ok_def cycle_runtime_def)
qed




end
