(* ===== verification/Shape_Props.thy ===== *)
theory Shape_Props
  imports QJS_Prelude
begin

text \<open>
  Shapes of \<open>quickjs.c\<close>: the names and flags of the properties of an object, with the hash table
  that finds a name. The entries of one bucket are chained through \<open>hash_next\<close>, which counts from
  one; the table stands before the structure in memory and is indexed backwards from
  \<open>prop_hash_end\<close>. A shape holds its initialised entries; the capacity is \<open>prop_size\<close>.
\<close>

subsection \<open>Data\<close>

record JSShapeProperty =
  hash_next :: nat
  pr_flags :: nat
  pr_atom :: u32

record JSShape =
  prop_hash :: "nat list"
  shape_refs :: int
  is_hashed :: bool
  has_small_array_index :: bool
  sh_hash :: u32
  prop_hash_mask :: u32
  prop_size :: nat
  deleted_prop_count :: nat
  shape_hash_next :: "nat option"
  proto :: u64
  sh_prop :: "JSShapeProperty list"

definition prop_count :: "JSShape \<Rightarrow> nat" where
  "prop_count sh = length (sh_prop sh)"

definition JS_ATOM_NULL :: u32 where
  "JS_ATOM_NULL = 0"

definition JS_PROP_INITIAL_SIZE :: nat where
  "JS_PROP_INITIAL_SIZE = 2"

definition JS_PROP_INITIAL_HASH_SIZE :: nat where
  "JS_PROP_INITIAL_HASH_SIZE = 4"

definition get_shape_size :: "nat \<Rightarrow> nat \<Rightarrow> nat" where
  "get_shape_size hash_size n = hash_size * 4 + 64 + n * 8"

text \<open>The two bit fields of a shape property are 26 and 6 bits wide.\<close>

definition set_hash_next :: "JSShapeProperty \<Rightarrow> nat \<Rightarrow> JSShapeProperty" where
  "set_hash_next pr h = pr\<lparr>hash_next := h mod 2 ^ 26\<rparr>"

definition set_flags :: "JSShapeProperty \<Rightarrow> nat \<Rightarrow> JSShapeProperty" where
  "set_flags pr f = pr\<lparr>pr_flags := f mod 2 ^ 6\<rparr>"

definition bucket_of :: "u32 \<Rightarrow> u32 \<Rightarrow> nat" where
  "bucket_of msk a = unat (a AND msk)"

subsection \<open>Operations on the properties of a shape\<close>

partial_function (option) find_loop :: "JSShapeProperty list \<Rightarrow> u32 \<Rightarrow> nat \<Rightarrow> nat option option" where
  [code]: "find_loop prop a h =
     (if h = 0 then Some None
      else do { pr \<leftarrow> rd prop (h - 1); if pr_atom pr = a then Some (Some (h - 1)) else find_loop prop a (hash_next pr) })"

definition find_own_property1 :: "JSShape \<Rightarrow> u32 \<Rightarrow> nat option option" where
  "find_own_property1 sh a =
     do { h \<leftarrow> rd (prop_hash sh) (bucket_of (prop_hash_mask sh) a); find_loop (sh_prop sh) a h }"

text \<open>Insertion of the entry at index \<open>i\<close> at the head of its bucket.\<close>

definition hash_insert :: "JSShapeProperty list \<Rightarrow> nat list \<Rightarrow> u32 \<Rightarrow> nat \<Rightarrow> (JSShapeProperty list \<times> nat list) option" where
  "hash_insert prop tab msk i =
     do {
       pr \<leftarrow> rd prop i;
       let h = bucket_of msk (pr_atom pr);
       nxt \<leftarrow> rd tab h;
       prop \<leftarrow> wr prop i (set_hash_next pr nxt);
       tab \<leftarrow> wr tab h (i + 1);
       Some (prop, tab)
     }"

definition append_property :: "JSShape \<Rightarrow> u32 \<Rightarrow> nat \<Rightarrow> JSShape option" where
  "append_property sh a f =
     (if prop_count sh < prop_size sh then do {
        (prop, tab) \<leftarrow> hash_insert (sh_prop sh @ [set_flags \<lparr>hash_next = 0, pr_flags = 0, pr_atom = a\<rparr> f])
                         (prop_hash sh) (prop_hash_mask sh) (prop_count sh);
        Some (sh\<lparr>sh_prop := prop, prop_hash := tab,
                 has_small_array_index := has_small_array_index sh \<or> a AND 0x80000000 \<noteq> 0\<rparr>)
      }
      else None)"

text \<open>The loop of \<open>resize_properties\<close> that fills the new table.\<close>

function rehash_loop :: "JSShapeProperty list \<Rightarrow> nat list \<Rightarrow> u32 \<Rightarrow> nat \<Rightarrow> (JSShapeProperty list \<times> nat list) option" where
  "rehash_loop prop tab msk i =
     (if i < length prop then do {
        (prop', tab) \<leftarrow> (if pr_atom (prop ! i) \<noteq> JS_ATOM_NULL then hash_insert prop tab msk i else Some (prop, tab));
        if length prop' = length prop then rehash_loop prop' tab msk (i + 1) else None
      }
      else Some (prop, tab))"
  by pat_completeness auto
termination
  by (relation "measure (\<lambda>(prop, tab, msk, i). length prop - i)") auto

declare rehash_loop.simps [simp del]

text \<open>The search of \<open>delete_property\<close>, which also keeps the predecessor in the chain.\<close>

partial_function (option) delete_loop :: "JSShapeProperty list \<Rightarrow> u32 \<Rightarrow> nat option \<Rightarrow> nat \<Rightarrow> (nat option \<times> nat) option option" where
  [code]: "delete_loop prop a lpr h =
     (if h = 0 then Some None
      else do {
        pr \<leftarrow> rd prop (h - 1);
        if pr_atom pr = a then Some (Some (lpr, h - 1)) else delete_loop prop a (Some (h - 1)) (hash_next pr)
      })"

definition delete_find :: "JSShape \<Rightarrow> u32 \<Rightarrow> (nat option \<times> nat) option option" where
  "delete_find sh a =
     do { h \<leftarrow> rd (prop_hash sh) (bucket_of (prop_hash_mask sh) a); delete_loop (sh_prop sh) a None h }"

definition unlink_property :: "JSShape \<Rightarrow> u32 \<Rightarrow> nat option \<Rightarrow> nat \<Rightarrow> JSShape option" where
  "unlink_property sh a lpr i =
     do {
       pr \<leftarrow> rd (sh_prop sh) i;
       sh \<leftarrow> (case lpr of
                Some j \<Rightarrow> do {
                  lp \<leftarrow> rd (sh_prop sh) j;
                  prop \<leftarrow> wr (sh_prop sh) j (set_hash_next lp (hash_next pr));
                  Some (sh\<lparr>sh_prop := prop\<rparr>)
                }
              | None \<Rightarrow> do {
                  tab \<leftarrow> wr (prop_hash sh) (bucket_of (prop_hash_mask sh) a) (hash_next pr);
                  Some (sh\<lparr>prop_hash := tab\<rparr>)
                });
       pr \<leftarrow> rd (sh_prop sh) i;
       prop \<leftarrow> wr (sh_prop sh) i (pr\<lparr>pr_flags := 0, pr_atom := JS_ATOM_NULL\<rparr>);
       Some (sh\<lparr>sh_prop := prop, deleted_prop_count := deleted_prop_count sh + 1\<rparr>)
     }"

text \<open>
  The loop of \<open>compact_properties\<close>: the entries in use move to the new shape and the values of the
  object with them.
\<close>

fun compact_loop :: "JSShapeProperty list \<Rightarrow> nat \<Rightarrow> JSShapeProperty list \<Rightarrow> nat list \<Rightarrow> u32 \<Rightarrow> nat \<Rightarrow> 'v list \<Rightarrow>
    (JSShapeProperty list \<times> nat list \<times> 'v list) option" where
  "compact_loop [] i pr tab msk new_size prop = Some (pr, tab, prop)"
| "compact_loop (old_pr # old) i pr tab msk new_size prop =
     (if pr_atom old_pr \<noteq> JS_ATOM_NULL then
        (if length pr < new_size then do {
           let j = length pr;
           (pr, tab) \<leftarrow> hash_insert (pr @ [\<lparr>hash_next = 0, pr_flags = pr_flags old_pr, pr_atom = pr_atom old_pr\<rparr>]) tab msk j;
           v \<leftarrow> rd prop i;
           prop \<leftarrow> wr prop j v;
           compact_loop old (i + 1) pr tab msk new_size prop
         }
         else None)
      else compact_loop old (i + 1) pr tab msk new_size prop)"

partial_function (option) grow_hash_size :: "nat \<Rightarrow> nat \<Rightarrow> nat option" where
  [code]: "grow_hash_size n new_size = (if n < new_size then grow_hash_size (2 * n mod 2 ^ 32) new_size else Some n)"

partial_function (option) shrink_hash_size :: "nat \<Rightarrow> nat \<Rightarrow> nat option" where
  [code]: "shrink_hash_size n new_size = (if n div 2 \<ge> new_size then shrink_hash_size (n div 2) new_size else Some n)"

subsection \<open>Buckets\<close>

fun chain :: "JSShapeProperty list \<Rightarrow> nat \<Rightarrow> nat list \<Rightarrow> bool" where
  "chain ps h [] \<longleftrightarrow> h = 0"
| "chain ps h (i # is) \<longleftrightarrow> h = Suc i \<and> i < length ps \<and> chain ps (hash_next (ps ! i)) is"

text \<open>A bucket holds the indices of its entries in use, the newest first.\<close>

definition bucket :: "JSShapeProperty list \<Rightarrow> u32 \<Rightarrow> nat \<Rightarrow> nat list" where
  "bucket ps msk b = rev (filter (\<lambda>i. pr_atom (ps ! i) \<noteq> JS_ATOM_NULL \<and> bucket_of msk (pr_atom (ps ! i)) = b) [0..<length ps])"

definition hash_ok :: "JSShapeProperty list \<Rightarrow> nat list \<Rightarrow> u32 \<Rightarrow> bool" where
  "hash_ok ps tab msk \<longleftrightarrow> length tab = unat msk + 1 \<and> (\<forall>b<length tab. chain ps (tab ! b) (bucket ps msk b))"

lemma bucket_of_less: "length tab = unat msk + 1 \<Longrightarrow> bucket_of msk a < length tab"
proof -
  have "a AND msk \<le> msk" by (rule word_and_le1)
  then have "unat (a AND msk) \<le> unat msk" by (simp add: word_le_nat_alt)
  then show "length tab = unat msk + 1 \<Longrightarrow> ?thesis" by (simp add: bucket_of_def)
qed

lemma nth_upd: "xs[i := x] ! j = (if i = j \<and> j < length xs then x else xs ! j)"
  by (cases "i = j") (auto simp: list_update_beyond)

lemma chain_cong:
  "length ps = length qs \<Longrightarrow> (\<And>i. i \<in> set is \<Longrightarrow> hash_next (ps ! i) = hash_next (qs ! i)) \<Longrightarrow> chain ps h is = chain qs h is"
  by (induction "is" arbitrary: h) auto

lemma chain_mono: "chain ps h is \<Longrightarrow> chain (ps @ qs) h is"
  by (induction "is" arbitrary: h) (auto simp: nth_append)

lemma chain_range: "chain ps h is \<Longrightarrow> i \<in> set is \<Longrightarrow> i < length ps"
  by (induction "is" arbitrary: h) auto

lemma chain_head_le: "chain ps h is \<Longrightarrow> h \<le> length ps"
  by (cases "is") auto

lemma bucket_snoc:
  "bucket (ps @ [pr]) msk b =
     (if pr_atom pr \<noteq> JS_ATOM_NULL \<and> bucket_of msk (pr_atom pr) = b then [length ps] else []) @ bucket ps msk b"
  by (auto simp: bucket_def nth_append intro!: arg_cong [of _ _ rev] filter_cong)

lemma set_bucket: "set (bucket ps msk b) = {i. i < length ps \<and> pr_atom (ps ! i) \<noteq> JS_ATOM_NULL \<and> bucket_of msk (pr_atom (ps ! i)) = b}"
  by (auto simp: bucket_def)

lemma distinct_bucket: "distinct (bucket ps msk b)"
  by (simp add: bucket_def)

text \<open>An entry that is not in use does not matter; an entry that is inserted becomes the head.\<close>

lemma hash_ok_snoc_null:
  assumes "hash_ok ps tab msk" and "pr_atom pr = JS_ATOM_NULL"
  shows "hash_ok (ps @ [pr]) tab msk"
  using assms by (auto simp: hash_ok_def bucket_snoc intro: chain_mono)

lemma hash_ok_snoc:
  assumes ok: "hash_ok ps tab msk" and a: "pr_atom pr \<noteq> JS_ATOM_NULL" and len: "length ps < 2 ^ 26"
  defines "h \<equiv> bucket_of msk (pr_atom pr)"
  shows "hash_insert (ps @ [pr]) tab msk (length ps) = Some (ps @ [set_hash_next pr (tab ! h)], tab[h := length ps + 1])"
    and "hash_ok (ps @ [set_hash_next pr (tab ! h)]) (tab[h := length ps + 1]) msk"
proof -
  have h: "h < length tab" using ok bucket_of_less [of tab msk "pr_atom pr"] by (simp add: h_def hash_ok_def)
  then show "hash_insert (ps @ [pr]) tab msk (length ps) = Some (ps @ [set_hash_next pr (tab ! h)], tab[h := length ps + 1])"
    by (simp add: hash_insert_def h_def Let_def)
  have c: "chain ps (tab ! b) (bucket ps msk b)" if "b < length tab" for b using ok that by (simp add: hash_ok_def)
  have "tab ! h < 2 ^ 26" using chain_head_le [OF c [OF h]] len by simp
  then have hn: "hash_next (set_hash_next pr (tab ! h)) = tab ! h" by (simp add: set_hash_next_def)
  have "chain (ps @ [set_hash_next pr (tab ! h)]) (tab[h := length ps + 1] ! b) (bucket (ps @ [set_hash_next pr (tab ! h)]) msk b)"
    if "b < length tab" for b
    using c [OF that] a h that hn by (auto simp: bucket_snoc set_hash_next_def h_def nth_list_update intro: chain_mono)
  then show "hash_ok (ps @ [set_hash_next pr (tab ! h)]) (tab[h := length ps + 1]) msk"
    using ok by (simp add: hash_ok_def)
qed

lemma hash_ok_empty: "n = unat msk + 1 \<Longrightarrow> hash_ok [] (replicate n 0) msk"
  by (auto simp: hash_ok_def bucket_def simp del: replicate_Suc)

subsection \<open>Searching\<close>

lemma find_loop_chain: "chain ps h is \<Longrightarrow> find_loop ps a h = Some (find (\<lambda>i. pr_atom (ps ! i) = a) is)"
proof (induction "is" arbitrary: h)
  case Nil
  then show ?case by (subst find_loop.simps) simp
next
  case (Cons i "is")
  then show ?case by (subst find_loop.simps) simp
qed

text \<open>No two entries in use have the same name.\<close>

definition names_ok :: "JSShapeProperty list \<Rightarrow> bool" where
  "names_ok ps \<longleftrightarrow>
     (\<forall>i<length ps. \<forall>j<length ps. pr_atom (ps ! i) \<noteq> JS_ATOM_NULL \<longrightarrow> pr_atom (ps ! i) = pr_atom (ps ! j) \<longrightarrow> i = j)"

definition index_of :: "JSShapeProperty list \<Rightarrow> u32 \<Rightarrow> nat option" where
  "index_of ps a = find (\<lambda>i. pr_atom (ps ! i) = a) [0..<length ps]"

lemma find_unique:
  assumes "\<And>i j. i \<in> set is \<Longrightarrow> j \<in> set is \<Longrightarrow> P i \<Longrightarrow> P j \<Longrightarrow> i = j"
  shows "find P is = Some i \<longleftrightarrow> i \<in> set is \<and> P i"
proof
  assume "i \<in> set is \<and> P i"
  moreover from this obtain j where "find P is = Some j" by (metis find_None_iff option.exhaust)
  ultimately show "find P is = Some i" using assms by (metis find_Some_iff nth_mem)
qed (metis find_Some_iff nth_mem)

lemma index_of_Some: "names_ok ps \<Longrightarrow> a \<noteq> JS_ATOM_NULL \<Longrightarrow> index_of ps a = Some i \<longleftrightarrow> i < length ps \<and> pr_atom (ps ! i) = a"
  unfolding index_of_def by (subst find_unique) (auto simp: names_ok_def)

lemma index_of_None: "index_of ps a = None \<longleftrightarrow> (\<forall>i<length ps. pr_atom (ps ! i) \<noteq> a)"
  by (auto simp: index_of_def find_None_iff)

lemma bucket_find:
  assumes "names_ok ps" and "a \<noteq> JS_ATOM_NULL"
  shows "find (\<lambda>i. pr_atom (ps ! i) = a) (bucket ps msk (bucket_of msk a)) = index_of ps a"
proof (cases "index_of ps a")
  case None
  then have "find (\<lambda>i. pr_atom (ps ! i) = a) (bucket ps msk (bucket_of msk a)) = None"
    by (auto simp: find_None_iff index_of_None set_bucket)
  then show ?thesis using None by simp
next
  case (Some i)
  then have i: "i < length ps" "pr_atom (ps ! i) = a" using index_of_Some [OF assms] by auto
  have "find (\<lambda>i. pr_atom (ps ! i) = a) (bucket ps msk (bucket_of msk a)) = Some i"
    by (subst find_unique) (use assms i in \<open>auto simp: set_bucket names_ok_def\<close>)
  then show ?thesis using Some by simp
qed

lemma find_property:
  assumes ok: "hash_ok (sh_prop sh) (prop_hash sh) (prop_hash_mask sh)" and "names_ok (sh_prop sh)" and "a \<noteq> JS_ATOM_NULL"
  shows "find_own_property1 sh a = Some (index_of (sh_prop sh) a)"
proof -
  let ?b = "bucket_of (prop_hash_mask sh) a"
  have b: "?b < length (prop_hash sh)" using ok bucket_of_less [of "prop_hash sh" "prop_hash_mask sh" a] by (simp add: hash_ok_def)
  then have "chain (sh_prop sh) (prop_hash sh ! ?b) (bucket (sh_prop sh) (prop_hash_mask sh) ?b)" using ok by (simp add: hash_ok_def)
  then show ?thesis using b assms by (simp add: find_own_property1_def find_loop_chain bucket_find)
qed

subsection \<open>Filling a table\<close>

text \<open>The names and flags of the entries.\<close>

definition names :: "JSShapeProperty list \<Rightarrow> (u32 \<times> nat) list" where
  "names ps = map (\<lambda>pr. (pr_atom pr, pr_flags pr)) ps"

lemma names_simps [simp]: "names [] = []" "names (pr # ps) = (pr_atom pr, pr_flags pr) # names ps" "names (ps @ qs) = names ps @ names qs"
  "length (names ps) = length ps"
  by (simp_all add: names_def)

lemma names_nth: "names ps = names qs \<Longrightarrow> i < length ps \<Longrightarrow> pr_atom (ps ! i) = pr_atom (qs ! i) \<and> pr_flags (ps ! i) = pr_flags (qs ! i)"
  unfolding names_def by (metis (no_types, lifting) length_map nth_map prod.inject)

lemma names_length: "names ps = names qs \<Longrightarrow> length ps = length qs"
  by (metis names_simps(4))

lemma names_ok_cong: "names ps = names qs \<Longrightarrow> names_ok ps = names_ok qs"
  using names_nth [of ps qs] names_length [of ps qs] by (auto simp: names_ok_def)

lemma names_set_hash_next [simp]: "pr_atom (set_hash_next pr h) = pr_atom pr" "pr_flags (set_hash_next pr h) = pr_flags pr"
  by (simp_all add: set_hash_next_def)

lemma rehash_loop_ok:
  assumes "hash_ok (take i ps) tab msk" and "i \<le> length ps" and "length ps \<le> 2 ^ 26"
  shows "\<exists>ps' tab'. rehash_loop ps tab msk i = Some (ps', tab') \<and> hash_ok ps' tab' msk \<and> names ps' = names ps"
  using assms
proof (induction "length ps - i" arbitrary: ps tab i)
  case 0
  then show ?case by (subst rehash_loop.simps) simp
next
  case (Suc k)
  have i: "i < length ps" using Suc.hyps(2) by simp
  have k: "k = length ps - Suc i" using Suc.hyps(2) by simp
  have t: "take (Suc i) ps = take i ps @ [ps ! i]" using i by (rule take_Suc_conv_app_nth)
  show ?case
  proof (cases "pr_atom (ps ! i) = JS_ATOM_NULL")
    case True
    have "hash_ok (take (Suc i) ps) tab msk" unfolding t using Suc.prems(1) True by (rule hash_ok_snoc_null)
    then show ?thesis using Suc.hyps(1) [of ps "Suc i" tab] Suc.hyps(2) Suc.prems(3) i True by (subst rehash_loop.simps) simp
  next
    case False
    let ?h = "bucket_of msk (pr_atom (ps ! i))"
    let ?pr = "set_hash_next (ps ! i) (tab ! ?h)" and ?tab = "tab[?h := i + 1]"
    have len: "length (take i ps) < 2 ^ 26" "length (take i ps) = i" using i Suc.prems(3) by simp_all
    have h: "?h < length tab" using Suc.prems(1) bucket_of_less [of tab msk] by (simp add: hash_ok_def)
    have "hash_ok (take i ps @ [?pr]) ?tab msk" using hash_ok_snoc(2) [OF Suc.prems(1) False len(1)] len(2) by simp
    moreover have "take (Suc i) (ps[i := ?pr]) = take i ps @ [?pr]" using i by (simp add: take_Suc_conv_app_nth)
    ultimately obtain ps' tab' where 1: "rehash_loop (ps[i := ?pr]) ?tab msk (Suc i) = Some (ps', tab')" "hash_ok ps' tab' msk"
        "names ps' = names (ps[i := ?pr])"
      using Suc.hyps(1) [of "ps[i := ?pr]" "Suc i" ?tab] k Suc.prems(3) i by auto
    have "names (ps[i := ?pr]) = names ps" using i by (intro nth_equalityI) (simp_all add: names_def nth_list_update)
    moreover have "hash_insert ps tab msk i = Some (ps[i := ?pr], ?tab)" using i h by (simp add: hash_insert_def Let_def)
    ultimately show ?thesis using 1 i False by (subst rehash_loop.simps) auto
  qed
qed

lemma compact_loop_ok:
  assumes "hash_ok pr tab msk" and "length pr + length (filter (\<lambda>p. pr_atom p \<noteq> JS_ATOM_NULL) old) \<le> new_size" and "new_size \<le> 2 ^ 26"
    and "length pr \<le> i" and "i + length old \<le> length vs"
  shows "\<exists>pr' tab' vs'. compact_loop old i pr tab msk new_size vs = Some (pr', tab', vs') \<and> hash_ok pr' tab' msk \<and>
     names pr' = names pr @ filter (\<lambda>x. fst x \<noteq> JS_ATOM_NULL) (names old) \<and> length vs' = length vs \<and>
     take (length pr') vs' = take (length pr) vs @
       map snd (filter (\<lambda>x. pr_atom (fst x) \<noteq> JS_ATOM_NULL) (zip old (drop i vs)))"
  using assms
proof (induction old arbitrary: i pr tab vs)
  case (Cons p old)
  have i: "i < length vs" using Cons.prems(5) by simp
  then have d: "drop i vs = vs ! i # drop (Suc i) vs" by (simp add: Cons_nth_drop_Suc)
  show ?case
  proof (cases "pr_atom p = JS_ATOM_NULL")
    case True
    then show ?thesis using Cons.IH [of pr tab "Suc i" vs] Cons.prems by (simp add: d)
  next
    case False
    let ?n = "\<lparr>hash_next = 0, pr_flags = pr_flags p, pr_atom = pr_atom p\<rparr>" and ?h = "bucket_of msk (pr_atom p)"
    let ?pr = "pr @ [set_hash_next ?n (tab ! ?h)]" and ?tab = "tab[?h := length pr + 1]" and ?vs = "vs[length pr := vs ! i]"
    have len: "length pr < 2 ^ 26" "length pr < new_size" "length pr < length vs" using Cons.prems(2-5) False by auto
    have ins: "hash_insert (pr @ [?n]) tab msk (length pr) = Some (?pr, ?tab)" "hash_ok ?pr ?tab msk"
      using hash_ok_snoc [OF Cons.prems(1) _ len(1), of ?n] False by simp_all
    have "drop (Suc i) ?vs = drop (Suc i) vs" using Cons.prems(4) by simp
    moreover have "take (length ?pr) ?vs = take (length pr) vs @ [vs ! i]" using len(3) by (simp add: take_Suc_conv_app_nth)
    ultimately show ?thesis
      using Cons.IH [OF ins(2), of "Suc i" ?vs] Cons.prems(2-5) ins(1) False len i by (simp add: d Let_def)
  qed
qed simp

lemma grow_hash_size_ok:
  assumes "0 < n" and "n \<le> 2 ^ 31" and "new_size \<le> 2 ^ 31"
  shows "\<exists>k. grow_hash_size n new_size = Some k \<and> n \<le> k \<and> new_size \<le> k \<and> (k = n \<or> k < 2 * new_size)"
  using assms
proof (induction "new_size - n" arbitrary: n rule: less_induct)
  case less
  show ?case
  proof (cases "n < new_size")
    case True
    have m: "2 * n mod 2 ^ 32 = 2 * n" using less.prems True by simp
    have "grow_hash_size n new_size = grow_hash_size (2 * n) new_size" using True m by (subst grow_hash_size.simps) simp
    moreover have "\<exists>k. grow_hash_size (2 * n) new_size = Some k \<and> 2 * n \<le> k \<and> new_size \<le> k \<and> (k = 2 * n \<or> k < 2 * new_size)"
    proof (cases "2 * n < new_size")
      case True
      then show ?thesis using less.hyps [of "2 * n"] less.prems by auto
    next
      case False
      then show ?thesis by (subst grow_hash_size.simps) simp
    qed
    ultimately show ?thesis using True by auto
  next
    case False
    then show ?thesis by (subst grow_hash_size.simps) auto
  qed
qed

lemma shrink_hash_size_ok:
  assumes "0 < new_size" and "0 < n"
  shows "\<exists>k. shrink_hash_size n new_size = Some k \<and> 0 < k \<and> k \<le> n"
  using assms(2)
proof (induction n rule: less_induct)
  case (less n)
  show ?case
  proof (cases "n div 2 \<ge> new_size")
    case True
    then have "n div 2 < n" "0 < n div 2" using assms(1) by simp_all
    then show ?thesis using less.IH [of "n div 2"] True by (subst shrink_hash_size.simps) fastforce
  next
    case False
    then show ?thesis using less.prems by (subst shrink_hash_size.simps) simp
  qed
qed

subsection \<open>Removing an entry\<close>

lemma delete_loop_found:
  "chain ps h (xs @ i # ys) \<Longrightarrow> \<forall>j\<in>set xs. pr_atom (ps ! j) \<noteq> a \<Longrightarrow> pr_atom (ps ! i) = a \<Longrightarrow>
   delete_loop ps a l h = Some (Some (if xs = [] then l else Some (last xs), i))"
proof (induction xs arbitrary: h l)
  case Nil
  then show ?case by (subst delete_loop.simps) simp
next
  case (Cons x xs)
  then show ?case by (subst delete_loop.simps) auto
qed

lemma delete_loop_missing:
  "chain ps h is \<Longrightarrow> \<forall>j\<in>set is. pr_atom (ps ! j) \<noteq> a \<Longrightarrow> delete_loop ps a l h = Some None"
proof (induction "is" arbitrary: h l)
  case Nil
  then show ?case by (subst delete_loop.simps) simp
next
  case (Cons x xs)
  then show ?case by (subst delete_loop.simps) auto
qed

lemma chain_remove:
  assumes "chain ps h (xs @ i # ys)" and "distinct (xs @ i # ys)" and "xs \<noteq> []"
    and "hash_next pr = hash_next (ps ! i)"
  shows "chain (ps[last xs := pr]) h (xs @ ys)"
  using assms
proof (induction xs arbitrary: h)
  case (Cons x xs)
  show ?case
  proof (cases xs)
    case Nil
    have "chain (ps[x := pr]) (hash_next (ps ! i)) ys = chain ps (hash_next (ps ! i)) ys"
      using Cons.prems(2) Nil by (intro chain_cong) (auto intro!: arg_cong [of _ _ hash_next] nth_list_update_neq)
    then show ?thesis using Cons.prems Nil by simp
  next
    case (Cons y zs)
    then have "x \<noteq> last xs" using Cons.prems(2) by auto
    then show ?thesis using Cons.IH [of "hash_next (ps ! x)"] Cons.prems Cons by simp
  qed
qed simp

lemma bucket_null:
  assumes "i < length ps" and "\<And>j. j < length ps \<Longrightarrow> j \<noteq> i \<Longrightarrow> pr_atom (qs ! j) = pr_atom (ps ! j)" and "pr_atom (qs ! i) = JS_ATOM_NULL"
    and "length qs = length ps"
  shows "bucket qs msk b = filter (\<lambda>j. j \<noteq> i) (bucket ps msk b)"
proof -
  have "pr_atom (qs ! j) \<noteq> JS_ATOM_NULL \<and> bucket_of msk (pr_atom (qs ! j)) = b \<longleftrightarrow>
      (pr_atom (ps ! j) \<noteq> JS_ATOM_NULL \<and> bucket_of msk (pr_atom (ps ! j)) = b) \<and> j \<noteq> i" if "j < length ps" for j
    using assms that by (cases "j = i") auto
  then have "filter (\<lambda>j. pr_atom (qs ! j) \<noteq> JS_ATOM_NULL \<and> bucket_of msk (pr_atom (qs ! j)) = b) [0..<length ps] =
      filter (\<lambda>j. (pr_atom (ps ! j) \<noteq> JS_ATOM_NULL \<and> bucket_of msk (pr_atom (ps ! j)) = b) \<and> j \<noteq> i) [0..<length ps]"
    by (intro filter_cong) simp_all
  then show ?thesis by (simp add: bucket_def rev_filter [symmetric] assms(4) conj_commute)
qed

definition null_entry :: "JSShapeProperty \<Rightarrow> JSShapeProperty" where
  "null_entry pr = pr\<lparr>pr_flags := 0, pr_atom := JS_ATOM_NULL\<rparr>"

lemma chain_tail: "chain ps h (xs @ i # ys) \<Longrightarrow> chain ps (hash_next (ps ! i)) ys"
  by (induction xs arbitrary: h) auto

lemma chain_null: "chain (ps[i := null_entry (ps ! i)]) h is = chain ps h is"
  by (intro chain_cong) (simp_all add: null_entry_def nth_upd)

lemma chain_other: "j \<notin> set is \<Longrightarrow> chain (ps[j := pr]) h is = chain ps h is"
  by (intro chain_cong) (auto intro!: arg_cong [of _ _ hash_next] nth_list_update_neq)

text \<open>The entries and the table after \<open>i\<close> has been taken out of its bucket.\<close>

lemma hash_ok_unlink:
  assumes ok: "hash_ok ps tab msk" and sp: "bucket ps msk b = xs @ i # ys" and b: "b < length tab" and len: "length ps < 2 ^ 26"
  defines "ps1 \<equiv> (if xs = [] then ps else ps[last xs := set_hash_next (ps ! last xs) (hash_next (ps ! i))])"
    and "tab1 \<equiv> (if xs = [] then tab[b := hash_next (ps ! i)] else tab)"
  shows "hash_ok (ps1[i := null_entry (ps1 ! i)]) tab1 msk" "i < length ps" "xs \<noteq> [] \<Longrightarrow> last xs < length ps \<and> last xs \<noteq> i"
proof -
  have c: "chain ps (tab ! k) (bucket ps msk k)" if "k < length tab" for k using ok that by (simp add: hash_ok_def)
  have d: "distinct (xs @ i # ys)" using distinct_bucket [of ps msk b] sp by simp
  have cb: "chain ps (tab ! b) (xs @ i # ys)" using c [OF b] sp by simp
  show i: "i < length ps" using chain_range [OF cb] by simp
  have last: "last xs \<in> set (xs @ i # ys)" if "xs \<noteq> []" using that by simp
  show l: "last xs < length ps \<and> last xs \<noteq> i" if "xs \<noteq> []" using that d chain_range [OF cb last] last_in_set [OF that] by auto
  have hn: "set_hash_next pr (hash_next (ps ! i)) = pr\<lparr>hash_next := hash_next (ps ! i)\<rparr>" for pr
    using chain_head_le [OF chain_tail [OF cb]] len by (simp add: set_hash_next_def)
  have len1: "length ps1 = length ps" by (simp add: ps1_def)
  have at: "pr_atom (ps1 ! j) = pr_atom (ps ! j)" for j by (simp add: ps1_def nth_upd)
  have bk: "bucket (ps1[i := null_entry (ps1 ! i)]) msk k = filter (\<lambda>j. j \<noteq> i) (bucket ps msk k)" for k
    by (rule bucket_null) (use i at len1 in \<open>auto simp: null_entry_def\<close>)
  have "chain (ps1[i := null_entry (ps1 ! i)]) (tab1 ! k) (bucket (ps1[i := null_entry (ps1 ! i)]) msk k)" if k: "k < length tab" for k
  proof (cases "k = b")
    case True
    have "filter (\<lambda>j. j \<noteq> i) xs = xs" "filter (\<lambda>j. j \<noteq> i) ys = ys" using d by (auto simp: filter_id_conv)
    then have "filter (\<lambda>j. j \<noteq> i) (xs @ i # ys) = xs @ ys" by simp
    moreover have "chain ps1 (tab1 ! b) (xs @ ys)"
      using cb d b chain_remove [OF cb d, of "(ps ! last xs)\<lparr>hash_next := hash_next (ps ! i)\<rparr>"] by (auto simp: ps1_def tab1_def hn)
    ultimately show ?thesis using True by (simp add: bk sp chain_null)
  next
    case False
    have out: "j \<notin> set (bucket ps msk k)" if "j \<in> set (xs @ i # ys)" for j using that False unfolding sp [symmetric] by (auto simp: set_bucket)
    then have "filter (\<lambda>j. j \<noteq> i) (bucket ps msk k) = bucket ps msk k" by (auto simp: filter_id_conv)
    moreover have "chain ps1 (tab ! k) (bucket ps msk k)" using c [OF k] out [OF last] by (simp add: ps1_def chain_other)
    ultimately show ?thesis using False by (simp add: bk chain_null tab1_def)
  qed
  moreover have "length tab1 = length tab" by (simp add: tab1_def)
  ultimately show "hash_ok (ps1[i := null_entry (ps1 ! i)]) tab1 msk" using ok by (simp add: hash_ok_def)
qed

lemma unlink_property_ok:
  assumes ok: "hash_ok (sh_prop sh) (prop_hash sh) (prop_hash_mask sh)" and nm: "names_ok (sh_prop sh)" and a: "a \<noteq> JS_ATOM_NULL"
    and len: "length (sh_prop sh) < 2 ^ 26" and i: "index_of (sh_prop sh) a = Some i"
  shows "\<exists>lpr sh'. delete_find sh a = Some (Some (lpr, i)) \<and> unlink_property sh a lpr i = Some sh' \<and>
     hash_ok (sh_prop sh') (prop_hash sh') (prop_hash_mask sh') \<and> names (sh_prop sh') = (names (sh_prop sh))[i := (JS_ATOM_NULL, 0)] \<and>
     sh' = sh\<lparr>sh_prop := sh_prop sh', prop_hash := prop_hash sh', deleted_prop_count := deleted_prop_count sh + 1\<rparr>"
proof -
  let ?ps = "sh_prop sh" and ?tab = "prop_hash sh" and ?m = "prop_hash_mask sh"
  let ?b = "bucket_of ?m a"
  have il: "i < length ?ps" "pr_atom (?ps ! i) = a" using i index_of_Some [OF nm a] by auto
  have b: "?b < length ?tab" using ok bucket_of_less [of ?tab ?m a] by (simp add: hash_ok_def)
  have "i \<in> set (bucket ?ps ?m ?b)" using il a by (simp add: set_bucket)
  then obtain xs ys where sp: "bucket ?ps ?m ?b = xs @ i # ys" by (meson split_list)
  have d: "distinct (xs @ i # ys)" using distinct_bucket [of ?ps ?m ?b] sp by simp
  have cb: "chain ?ps (?tab ! ?b) (xs @ i # ys)" using ok b sp unfolding hash_ok_def by metis
  have "\<forall>j\<in>set xs. pr_atom (?ps ! j) \<noteq> a"
  proof
    fix j assume "j \<in> set xs"
    then have "j < length ?ps" "j \<noteq> i" using chain_range [OF cb, of j] d by auto
    then show "pr_atom (?ps ! j) \<noteq> a" using il a nm [unfolded names_ok_def, rule_format, of i j] by auto
  qed
  then have df: "delete_find sh a = Some (Some (if xs = [] then None else Some (last xs), i))"
    using delete_loop_found [OF cb _ il(2)] b by (simp add: delete_find_def)
  let ?ps1 = "if xs = [] then ?ps else ?ps[last xs := set_hash_next (?ps ! last xs) (hash_next (?ps ! i))]"
  let ?tab1 = "if xs = [] then ?tab[?b := hash_next (?ps ! i)] else ?tab"
  let ?sh = "sh\<lparr>sh_prop := ?ps1[i := null_entry (?ps1 ! i)], prop_hash := ?tab1, deleted_prop_count := deleted_prop_count sh + 1\<rparr>"
  note hu = hash_ok_unlink [OF ok sp b len]
  have "unlink_property sh a (if xs = [] then None else Some (last xs)) i = Some ?sh"
    using il b hu(3) by (auto simp: unlink_property_def null_entry_def)
  moreover have "names (?ps1[i := null_entry (?ps1 ! i)]) = (names ?ps)[i := (JS_ATOM_NULL, 0)]"
    using il by (intro nth_equalityI) (auto simp: names_def nth_upd null_entry_def split: if_splits)
  ultimately show ?thesis using df hu(1) by (intro exI [of _ "if xs = [] then None else Some (last xs)"] exI [of _ ?sh]) simp
qed

lemma delete_find_missing:
  assumes ok: "hash_ok (sh_prop sh) (prop_hash sh) (prop_hash_mask sh)" and i: "index_of (sh_prop sh) a = None"
  shows "delete_find sh a = Some None"
proof -
  let ?b = "bucket_of (prop_hash_mask sh) a"
  have b: "?b < length (prop_hash sh)" using ok bucket_of_less [of "prop_hash sh" "prop_hash_mask sh" a] by (simp add: hash_ok_def)
  then have "chain (sh_prop sh) (prop_hash sh ! ?b) (bucket (sh_prop sh) (prop_hash_mask sh) ?b)" using ok by (simp add: hash_ok_def)
  moreover have "\<forall>j\<in>set (bucket (sh_prop sh) (prop_hash_mask sh) ?b). pr_atom (sh_prop sh ! j) \<noteq> a" using i by (auto simp: set_bucket index_of_None)
  ultimately show ?thesis using b by (simp add: delete_find_def delete_loop_missing)
qed

subsection \<open>Well-formed shapes\<close>

text \<open>
  The hash table finds every entry in use and nothing else, no name occurs twice, the number of
  deleted entries is right, and the entries fit into the allocated memory. The bound on the
  memory keeps every index inside the 26 bits of \<open>hash_next\<close>.
\<close>

definition shape_ok :: "JSShape \<Rightarrow> bool" where
  "shape_ok sh \<longleftrightarrow>
     hash_ok (sh_prop sh) (prop_hash sh) (prop_hash_mask sh) \<and> names_ok (sh_prop sh) \<and>
     deleted_prop_count sh = length (filter (\<lambda>pr. pr_atom pr = JS_ATOM_NULL) (sh_prop sh)) \<and>
     prop_count sh \<le> prop_size sh \<and> get_shape_size (unat (prop_hash_mask sh) + 1) (prop_size sh) < 2 ^ 29"

lemma shape_ok_small: "shape_ok sh \<Longrightarrow> prop_count sh \<le> prop_size sh \<and> prop_size sh < 2 ^ 26 \<and> unat (prop_hash_mask sh) < 2 ^ 27"
  by (simp add: shape_ok_def get_shape_size_def)

lemma names_ok_snoc:
  "names_ok ps \<Longrightarrow> index_of ps (pr_atom pr) = None \<Longrightarrow> names_ok (ps @ [pr])"
  by (auto simp: names_ok_def index_of_None nth_append)

lemma append_property_ok:
  assumes ok: "shape_ok sh" and room: "prop_count sh < prop_size sh" and a: "a \<noteq> JS_ATOM_NULL" "index_of (sh_prop sh) a = None"
    and f: "f < 64"
  shows "\<exists>sh'. append_property sh a f = Some sh' \<and> shape_ok sh' \<and> names (sh_prop sh') = names (sh_prop sh) @ [(a, f)] \<and>
     sh' = sh\<lparr>sh_prop := sh_prop sh', prop_hash := prop_hash sh', has_small_array_index := has_small_array_index sh'\<rparr>"
proof -
  let ?ps = "sh_prop sh" and ?m = "prop_hash_mask sh" and ?n = "\<lparr>hash_next = 0, pr_flags = f, pr_atom = a\<rparr>"
  let ?h = "bucket_of ?m a"
  let ?pr = "set_hash_next ?n (prop_hash sh ! ?h)" and ?tab = "(prop_hash sh)[?h := length ?ps + 1]"
  let ?sh = "sh\<lparr>sh_prop := ?ps @ [?pr], prop_hash := ?tab, has_small_array_index := has_small_array_index sh \<or> a AND 0x80000000 \<noteq> 0\<rparr>"
  have hk: "hash_ok ?ps (prop_hash sh) ?m" and nm: "names_ok ?ps" using ok by (simp_all add: shape_ok_def)
  have len: "length ?ps < 2 ^ 26" using shape_ok_small [OF ok] room by (simp add: prop_count_def)
  have ins: "hash_insert (?ps @ [?n]) (prop_hash sh) ?m (length ?ps) = Some (?ps @ [?pr], ?tab)" "hash_ok (?ps @ [?pr]) ?tab ?m"
    using hash_ok_snoc [OF hk _ len, of ?n] a(1) by simp_all
  have "set_flags \<lparr>hash_next = 0, pr_flags = 0, pr_atom = a\<rparr> f = ?n" using f by (simp add: set_flags_def)
  then have "append_property sh a f = Some ?sh" using room ins(1) by (simp add: append_property_def prop_count_def)
  moreover have "shape_ok ?sh"
    using ok ins(2) names_ok_snoc [OF nm, of ?pr] a room by (simp add: shape_ok_def prop_count_def)
  ultimately show ?thesis by (intro exI [of _ ?sh]) simp
qed

text \<open>A shape in which one property has been deleted.\<close>

lemma names_ok_null: "names_ok ps \<Longrightarrow> names qs = (names ps)[i := (JS_ATOM_NULL, 0)] \<Longrightarrow> names_ok qs"
proof -
  assume nm: "names_ok ps" and eq: "names qs = (names ps)[i := (JS_ATOM_NULL, 0)]"
  have len: "length qs = length ps" using arg_cong [OF eq, of length] by simp
  have "pr_atom (qs ! j) = (if j = i then JS_ATOM_NULL else pr_atom (ps ! j))" if "j < length ps" for j
    using arg_cong [OF eq, of "\<lambda>xs. fst (xs ! j)"] that len by (auto simp: names_def nth_upd split: if_splits)
  then show "names_ok qs" using nm len by (auto simp: names_ok_def split: if_splits)
qed

lemma deleted_names: "length (filter (\<lambda>pr. pr_atom pr = JS_ATOM_NULL) ps) = length (filter (\<lambda>x. fst x = JS_ATOM_NULL) (names ps))"
  by (induction ps) auto

lemma deleted_upd:
  "i < length xs \<Longrightarrow> \<not> P (xs ! i) \<Longrightarrow> P y \<Longrightarrow> length (filter P (xs[i := y])) = length (filter P xs) + 1"
proof (induction xs arbitrary: i)
  case (Cons x xs)
  then show ?case by (cases i) auto
qed simp

lemma unlink_shape_ok:
  assumes ok: "shape_ok sh" and a: "a \<noteq> JS_ATOM_NULL" and i: "index_of (sh_prop sh) a = Some i"
  shows "\<exists>lpr sh'. delete_find sh a = Some (Some (lpr, i)) \<and> unlink_property sh a lpr i = Some sh' \<and> shape_ok sh' \<and>
     names (sh_prop sh') = (names (sh_prop sh))[i := (JS_ATOM_NULL, 0)] \<and>
     sh' = sh\<lparr>sh_prop := sh_prop sh', prop_hash := prop_hash sh', deleted_prop_count := deleted_prop_count sh + 1\<rparr>"
proof -
  have hk: "hash_ok (sh_prop sh) (prop_hash sh) (prop_hash_mask sh)" and nm: "names_ok (sh_prop sh)" using ok by (simp_all add: shape_ok_def)
  have len: "length (sh_prop sh) < 2 ^ 26" using shape_ok_small [OF ok] by (simp add: prop_count_def)
  obtain lpr sh' where 1: "delete_find sh a = Some (Some (lpr, i))" "unlink_property sh a lpr i = Some sh'"
      "hash_ok (sh_prop sh') (prop_hash sh') (prop_hash_mask sh')" "names (sh_prop sh') = (names (sh_prop sh))[i := (JS_ATOM_NULL, 0)]"
      "sh' = sh\<lparr>sh_prop := sh_prop sh', prop_hash := prop_hash sh', deleted_prop_count := deleted_prop_count sh + 1\<rparr>"
    using unlink_property_ok [OF hk nm a len i] by blast
  have il: "i < length (sh_prop sh)" "pr_atom (sh_prop sh ! i) = a" using i index_of_Some [OF nm a] by auto
  have "length (filter (\<lambda>pr. pr_atom pr = JS_ATOM_NULL) (sh_prop sh')) = deleted_prop_count sh + 1"
    unfolding deleted_names 1(4) using il a ok by (subst deleted_upd) (auto simp: names_def deleted_names shape_ok_def)
  moreover have "length (sh_prop sh') = length (sh_prop sh)" using arg_cong [OF 1(4), of length] by simp
  moreover have "deleted_prop_count sh' = deleted_prop_count sh + 1" "prop_size sh' = prop_size sh" "prop_hash_mask sh' = prop_hash_mask sh"
    by (subst 1(5), simp)+
  ultimately have "shape_ok sh'" using ok 1(3) names_ok_null [OF nm 1(4)] by (simp add: shape_ok_def prop_count_def)
  then show ?thesis using 1 by blast
qed

end
