(* ===== verification/Shape_Table.thy ===== *)
theory Shape_Table
  imports Shape_Props
begin

text \<open>
  The table of the shapes of a runtime: objects that got the same properties in the same order
  share a shape, and the table finds the shape for the next property. The shapes of one bucket
  are chained through \<open>shape_hash_next\<close>. Here also the life of a shape: creation, copy, and
  release when its last user goes. The objects are in theory \<open>Object_Props\<close>.
\<close>

subsection \<open>The runtime\<close>

record 'v JSObject =
  obj_shape :: nat
  obj_prop :: "'v option list"

record ('m, 'v) shape_runtime =
  rt_mem :: 'm
  shape_hash_bits :: nat
  shape_hash_count :: int
  shape_hash_tab :: "nat option list"
  shapes :: "nat \<Rightarrow> JSShape option"
  objects :: "nat \<Rightarrow> 'v JSObject option"

text \<open>
  An allocator: its state, which addresses are free, and the size; the answer is an address or
  none. It never hands out an address that is in use nor a block of 512 megabytes or more.
\<close>

type_synonym 'm alloc_fn = "'m \<Rightarrow> (nat \<Rightarrow> bool) \<Rightarrow> nat \<Rightarrow> nat option \<times> 'm"

definition alloc_ok :: "'m alloc_fn \<Rightarrow> bool" where
  "alloc_ok alloc \<longleftrightarrow> (\<forall>m free n a m'. alloc m free n = (Some a, m') \<longrightarrow> free a \<and> n < 2 ^ 29)"

definition js_malloc_shape :: "'m alloc_fn \<Rightarrow> ('m, 'v) shape_runtime \<Rightarrow> nat \<Rightarrow> nat option \<times> ('m, 'v) shape_runtime" where
  "js_malloc_shape alloc rt n = (let (r, m) = alloc (rt_mem rt) (\<lambda>a. shapes rt a = None) n in (r, rt\<lparr>rt_mem := m\<rparr>))"

text \<open>A block whose address does not matter: the hash table or the values of an object.\<close>

definition js_malloc_block :: "'m alloc_fn \<Rightarrow> ('m, 'v) shape_runtime \<Rightarrow> nat \<Rightarrow> bool \<times> ('m, 'v) shape_runtime" where
  "js_malloc_block alloc rt n = (let (r, m) = alloc (rt_mem rt) (\<lambda>a. True) n in (r \<noteq> None, rt\<lparr>rt_mem := m\<rparr>))"

definition set_shape :: "('m, 'v) shape_runtime \<Rightarrow> nat \<Rightarrow> JSShape \<Rightarrow> ('m, 'v) shape_runtime" where
  "set_shape rt a sh = rt\<lparr>shapes := (shapes rt)(a \<mapsto> sh)\<rparr>"

subsection \<open>Hashing\<close>

definition shape_hash :: "u32 \<Rightarrow> u32 \<Rightarrow> u32" where
  "shape_hash h val = (h + val) * 0x9e370001"

definition get_shape_hash :: "u32 \<Rightarrow> nat \<Rightarrow> nat" where
  "get_shape_hash h hash_bits = unat (drop_bit (32 - hash_bits) h)"

definition shape_initial_hash :: "u64 \<Rightarrow> u32" where
  "shape_initial_hash pr = shape_hash (shape_hash 1 (ucast pr)) (ucast (drop_bit 32 pr))"

definition init_shape_hash :: "'m alloc_fn \<Rightarrow> ('m, 'v) shape_runtime \<Rightarrow> int \<times> ('m, 'v) shape_runtime" where
  "init_shape_hash alloc rt =
     (let rt = rt\<lparr>shape_hash_bits := 4, shape_hash_count := 0\<rparr>; (r, rt) = js_malloc_block alloc rt (8 * 2 ^ 4) in
      if r then (0, rt\<lparr>shape_hash_tab := replicate (2 ^ 4) None\<rparr>) else (-1, rt))"

definition js_shape_hash_link :: "('m, 'v) shape_runtime \<Rightarrow> nat \<Rightarrow> ('m, 'v) shape_runtime option" where
  "js_shape_hash_link rt a =
     do {
       sh \<leftarrow> shapes rt a;
       let h = get_shape_hash (sh_hash sh) (shape_hash_bits rt);
       first \<leftarrow> rd (shape_hash_tab rt) h;
       tab \<leftarrow> wr (shape_hash_tab rt) h (Some a);
       Some ((set_shape rt a (sh\<lparr>shape_hash_next := first\<rparr>))\<lparr>shape_hash_tab := tab, shape_hash_count := shape_hash_count rt + 1\<rparr>)
     }"

text \<open>The search for the pointer to a shape: the shape before it in the chain, or the table.\<close>

partial_function (option) unlink_loop :: "(nat \<Rightarrow> JSShape option) \<Rightarrow> nat \<Rightarrow> nat option \<Rightarrow> nat option \<Rightarrow> nat option option" where
  [code]: "unlink_loop S a prv cur =
     (if cur = Some a then Some prv
      else case cur of
          None \<Rightarrow> None
        | Some c \<Rightarrow> do { sh \<leftarrow> S c; unlink_loop S a (Some c) (shape_hash_next sh) })"

definition js_shape_hash_unlink :: "('m, 'v) shape_runtime \<Rightarrow> nat \<Rightarrow> ('m, 'v) shape_runtime option" where
  "js_shape_hash_unlink rt a =
     do {
       sh \<leftarrow> shapes rt a;
       let h = get_shape_hash (sh_hash sh) (shape_hash_bits rt);
       first \<leftarrow> rd (shape_hash_tab rt) h;
       prv \<leftarrow> unlink_loop (shapes rt) a None first;
       rt \<leftarrow> (case prv of
                Some b \<Rightarrow> do { shb \<leftarrow> shapes rt b; Some (set_shape rt b (shb\<lparr>shape_hash_next := shape_hash_next sh\<rparr>)) }
              | None \<Rightarrow> do { tab \<leftarrow> wr (shape_hash_tab rt) h (shape_hash_next sh); Some (rt\<lparr>shape_hash_tab := tab\<rparr>) });
       Some (rt\<lparr>shape_hash_count := shape_hash_count rt - 1\<rparr>)
     }"

text \<open>The shapes of an old bucket move to the new table one by one.\<close>

definition move_shape :: "nat \<Rightarrow> ('m, 'v) shape_runtime \<Rightarrow> nat option list \<Rightarrow> nat \<Rightarrow>
    (nat option \<times> ('m, 'v) shape_runtime \<times> nat option list) option" where
  "move_shape new_bits rt new_tab c =
     do {
       sh \<leftarrow> shapes rt c;
       let h = get_shape_hash (sh_hash sh) new_bits;
       first \<leftarrow> rd new_tab h;
       new_tab \<leftarrow> wr new_tab h (Some c);
       Some (shape_hash_next sh, set_shape rt c (sh\<lparr>shape_hash_next := first\<rparr>), new_tab)
     }"

partial_function (option) move_chain :: "nat \<Rightarrow> ('m, 'v) shape_runtime \<Rightarrow> nat option list \<Rightarrow> nat option \<Rightarrow>
    (('m, 'v) shape_runtime \<times> nat option list) option" where
  [code]: "move_chain new_bits rt new_tab cur =
     (case cur of
        None \<Rightarrow> Some (rt, new_tab)
      | Some c \<Rightarrow> do { (sh_next, rt, new_tab) \<leftarrow> move_shape new_bits rt new_tab c; move_chain new_bits rt new_tab sh_next })"

fun move_chains :: "nat \<Rightarrow> ('m, 'v) shape_runtime \<Rightarrow> nat option list \<Rightarrow> nat option list \<Rightarrow>
    (('m, 'v) shape_runtime \<times> nat option list) option" where
  "move_chains new_bits rt new_tab [] = Some (rt, new_tab)"
| "move_chains new_bits rt new_tab (cur # curs) =
     do { (rt, new_tab) \<leftarrow> move_chain new_bits rt new_tab cur; move_chains new_bits rt new_tab curs }"

definition resize_shape_hash :: "'m alloc_fn \<Rightarrow> ('m, 'v) shape_runtime \<Rightarrow> nat \<Rightarrow> (int \<times> ('m, 'v) shape_runtime) option" where
  "resize_shape_hash alloc rt new_bits =
     (if new_bits < 31 then
        (let (r, rt) = js_malloc_block alloc rt (8 * 2 ^ new_bits) in
         if r then do {
           (rt, tab) \<leftarrow> move_chains new_bits rt (replicate (2 ^ new_bits) None) (shape_hash_tab rt);
           Some (0, rt\<lparr>shape_hash_bits := new_bits, shape_hash_tab := tab\<rparr>)
         }
         else Some (-1, rt))
      else None)"

subsection \<open>The life of a shape\<close>

definition js_new_shape2 :: "'m alloc_fn \<Rightarrow> ('m, 'v) shape_runtime \<Rightarrow> u64 \<Rightarrow> nat \<Rightarrow> nat \<Rightarrow>
    (nat option \<times> ('m, 'v) shape_runtime) option" where
  "js_new_shape2 alloc rt pr hash_size psize =
     do {
       (_, rt) \<leftarrow> (if 2 * (shape_hash_count rt + 1) > 2 ^ shape_hash_bits rt
                   then resize_shape_hash alloc rt (shape_hash_bits rt + 1) else Some (0, rt));
       let (r, rt) = js_malloc_shape alloc rt (get_shape_size hash_size psize);
       (case r of
          None \<Rightarrow> Some (None, rt)
        | Some a \<Rightarrow> do {
            let sh = \<lparr>prop_hash = replicate hash_size 0, shape_refs = 1, is_hashed = True, has_small_array_index = False,
                      sh_hash = shape_initial_hash pr, prop_hash_mask = of_nat (hash_size - 1), prop_size = psize,
                      deleted_prop_count = 0, shape_hash_next = None, proto = pr, sh_prop = []\<rparr>;
            rt \<leftarrow> js_shape_hash_link (set_shape rt a sh) a;
            Some (Some a, rt)
          })
     }"

definition js_new_shape :: "'m alloc_fn \<Rightarrow> ('m, 'v) shape_runtime \<Rightarrow> u64 \<Rightarrow> (nat option \<times> ('m, 'v) shape_runtime) option" where
  "js_new_shape alloc rt pr = js_new_shape2 alloc rt pr JS_PROP_INITIAL_HASH_SIZE JS_PROP_INITIAL_SIZE"

definition js_clone_shape :: "'m alloc_fn \<Rightarrow> ('m, 'v) shape_runtime \<Rightarrow> nat \<Rightarrow> (nat option \<times> ('m, 'v) shape_runtime) option" where
  "js_clone_shape alloc rt a1 =
     do {
       sh1 \<leftarrow> shapes rt a1;
       let (r, rt) = js_malloc_shape alloc rt (get_shape_size (unat (prop_hash_mask sh1) + 1) (prop_size sh1));
       (case r of
          None \<Rightarrow> Some (None, rt)
        | Some a \<Rightarrow> Some (Some a, set_shape rt a (sh1\<lparr>shape_refs := 1, is_hashed := False\<rparr>)))
     }"

definition js_dup_shape :: "('m, 'v) shape_runtime \<Rightarrow> nat \<Rightarrow> ('m, 'v) shape_runtime option" where
  "js_dup_shape rt a =
     do { sh \<leftarrow> shapes rt a; rc \<leftarrow> cint (shape_refs sh + 1); Some (set_shape rt a (sh\<lparr>shape_refs := rc\<rparr>)) }"

definition shape_free0 :: "('m, 'v) shape_runtime \<Rightarrow> nat \<Rightarrow> ('m, 'v) shape_runtime option" where
  "shape_free0 rt a =
     do {
       sh \<leftarrow> shapes rt a;
       if shape_refs sh = 0 then do {
         rt \<leftarrow> (if is_hashed sh then js_shape_hash_unlink rt a else Some rt);
         Some (rt\<lparr>shapes := (shapes rt)(a := None)\<rparr>)
       }
       else None
     }"

definition shape_free :: "('m, 'v) shape_runtime \<Rightarrow> nat \<Rightarrow> ('m, 'v) shape_runtime option" where
  "shape_free rt a =
     do {
       sh \<leftarrow> shapes rt a;
       rc \<leftarrow> cint (shape_refs sh - 1);
       let rt = set_shape rt a (sh\<lparr>shape_refs := rc\<rparr>);
       if rc \<le> 0 then shape_free0 rt a else Some rt
     }"

subsection \<open>Searching the table\<close>

partial_function (option) find_hashed_loop :: "(nat \<Rightarrow> JSShape option) \<Rightarrow> (JSShape \<Rightarrow> bool) \<Rightarrow> nat option \<Rightarrow> nat option option" where
  [code]: "find_hashed_loop S matches cur =
     (case cur of
        None \<Rightarrow> Some None
      | Some c \<Rightarrow> do { sh \<leftarrow> S c; if matches sh then Some (Some c) else find_hashed_loop S matches (shape_hash_next sh) })"

definition find_hashed_shape_proto :: "('m, 'v) shape_runtime \<Rightarrow> u64 \<Rightarrow> nat option option" where
  "find_hashed_shape_proto rt pr =
     (let h = shape_initial_hash pr in
      do {
        cur \<leftarrow> rd (shape_hash_tab rt) (get_shape_hash h (shape_hash_bits rt));
        find_hashed_loop (shapes rt) (\<lambda>sh1. sh_hash sh1 = h \<and> proto sh1 = pr \<and> prop_count sh1 = 0) cur
      })"

definition same_prop :: "JSShapeProperty list \<Rightarrow> nat \<Rightarrow> u32 \<Rightarrow> nat \<Rightarrow> bool" where
  "same_prop ps i a f \<longleftrightarrow> pr_atom (ps ! i) = a \<and> pr_flags (ps ! i) = f"

definition shape_extends :: "u32 \<Rightarrow> JSShape \<Rightarrow> u32 \<Rightarrow> nat \<Rightarrow> JSShape \<Rightarrow> bool" where
  "shape_extends h sh a f sh1 \<longleftrightarrow>
     sh_hash sh1 = h \<and> proto sh1 = proto sh \<and> prop_count sh1 = prop_count sh + 1 \<and>
     list_all (\<lambda>i. same_prop (sh_prop sh1) i (pr_atom (sh_prop sh ! i)) (pr_flags (sh_prop sh ! i))) [0..<prop_count sh] \<and>
     same_prop (sh_prop sh1) (prop_count sh) a f"

definition find_hashed_shape_prop :: "('m, 'v) shape_runtime \<Rightarrow> JSShape \<Rightarrow> u32 \<Rightarrow> nat \<Rightarrow> nat option option" where
  "find_hashed_shape_prop rt sh a f =
     (let h = shape_hash (shape_hash (sh_hash sh) a) (of_nat f) in
      do {
        cur \<leftarrow> rd (shape_hash_tab rt) (get_shape_hash h (shape_hash_bits rt));
        find_hashed_loop (shapes rt) (shape_extends h sh a f) cur
      })"

subsection \<open>Chains of shapes\<close>

fun schain :: "(nat \<Rightarrow> JSShape option) \<Rightarrow> nat option \<Rightarrow> nat list \<Rightarrow> bool" where
  "schain S cur [] \<longleftrightarrow> cur = None"
| "schain S cur (a # as) \<longleftrightarrow> cur = Some a \<and> (\<exists>sh. S a = Some sh \<and> schain S (shape_hash_next sh) as)"

text \<open>Exactly the shapes \<open>D\<close> are in the table, each in the bucket of its hash.\<close>

definition table_part :: "(nat \<Rightarrow> JSShape option) \<Rightarrow> nat set \<Rightarrow> nat option list \<Rightarrow> nat \<Rightarrow> bool" where
  "table_part S D tab bits \<longleftrightarrow>
     bits < 30 \<and> length tab = 2 ^ bits \<and> D \<subseteq> dom S \<and>
     (\<exists>bk. \<forall>b<2 ^ bits. schain S (tab ! b) (bk b) \<and> distinct (bk b) \<and>
        set (bk b) = {a \<in> D. get_shape_hash (sh_hash (the (S a))) bits = b})"

lemma get_shape_hash_less: "bits \<le> 32 \<Longrightarrow> get_shape_hash h bits < 2 ^ bits"
proof -
  assume b: "bits \<le> 32"
  have "unat h < 2 ^ 32" using unsigned_less [where ?'a = nat, of h] by simp
  then have "unat h < 2 ^ bits * 2 ^ (32 - bits)" using b by (simp add: power_add [symmetric])
  then have "unat h div 2 ^ (32 - bits) < 2 ^ bits" by (simp add: less_mult_imp_div_less)
  then show ?thesis unfolding get_shape_hash_def unat_drop_bit_eq by (simp add: drop_bit_eq_div)
qed

lemma schain_upd: "a \<notin> set as \<Longrightarrow> schain (S(a := v)) cur as = schain S cur as"
  by (induction as arbitrary: cur) auto

lemma schain_cong:
  "(\<And>a. a \<in> set as \<Longrightarrow> map_option shape_hash_next (S a) = map_option shape_hash_next (S' a)) \<Longrightarrow> schain S cur as = schain S' cur as"
proof (induction as arbitrary: cur)
  case (Cons a as)
  have "map_option shape_hash_next (S a) = map_option shape_hash_next (S' a)" using Cons.prems by simp
  then show ?case using Cons.IH Cons.prems by (cases "S a"; cases "S' a") auto
qed simp

lemma table_part_cong:
  assumes t: "table_part S D tab bits"
    and eq: "\<And>a. a \<in> D \<Longrightarrow> \<exists>sh sh'. S a = Some sh \<and> S' a = Some sh' \<and> sh_hash sh' = sh_hash sh \<and> shape_hash_next sh' = shape_hash_next sh"
  shows "table_part S' D tab bits"
proof -
  obtain bk where bk: "schain S (tab ! b) (bk b) \<and> distinct (bk b) \<and> set (bk b) = {a \<in> D. get_shape_hash (sh_hash (the (S a))) bits = b}"
      if "b < 2 ^ bits" for b using t by (auto simp: table_part_def)
  have "schain S' (tab ! b) (bk b) \<and> distinct (bk b) \<and> set (bk b) = {a \<in> D. get_shape_hash (sh_hash (the (S' a))) bits = b}"
    if b: "b < 2 ^ bits" for b
  proof -
    have "schain S' (tab ! b) (bk b) = schain S (tab ! b) (bk b)"
      using bk [OF b] eq by (intro schain_cong) fastforce
    moreover have "{a \<in> D. get_shape_hash (sh_hash (the (S' a))) bits = b} = {a \<in> D. get_shape_hash (sh_hash (the (S a))) bits = b}"
      using eq by fastforce
    ultimately show ?thesis using bk [OF b] by simp
  qed
  moreover have "D \<subseteq> dom S'" using eq by fastforce
  ultimately show ?thesis using t by (auto simp: table_part_def)
qed

lemma table_part_upd:
  assumes t: "table_part S D tab bits" and "S a = Some sh" and "sh_hash sh' = sh_hash sh" and "shape_hash_next sh' = shape_hash_next sh"
  shows "table_part (S(a \<mapsto> sh')) D tab bits"
proof (rule table_part_cong [OF t])
  fix x assume "x \<in> D"
  then obtain s where "S x = Some s" using t by (auto simp: table_part_def)
  then show "\<exists>s s'. S x = Some s \<and> (S(a \<mapsto> sh')) x = Some s' \<and> sh_hash s' = sh_hash s \<and> shape_hash_next s' = shape_hash_next s"
    using assms(2-4) by (cases "x = a") auto
qed

lemma table_part_other: "table_part S D tab bits \<Longrightarrow> a \<notin> D \<Longrightarrow> table_part (S(a := v)) D tab bits"
proof (rule table_part_cong)
  fix x assume "table_part S D tab bits" "a \<notin> D" "x \<in> D"
  moreover from this obtain s where "S x = Some s" by (auto simp: table_part_def)
  ultimately show "\<exists>s s'. S x = Some s \<and> (S(a := v)) x = Some s' \<and> sh_hash s' = sh_hash s \<and> shape_hash_next s' = shape_hash_next s"
    by (cases "x = a") auto
qed

lemma table_part_empty: "bits < 30 \<Longrightarrow> table_part S {} (replicate (2 ^ bits) None) bits"
  by (auto simp: table_part_def intro!: exI [of _ "\<lambda>_. []"])

text \<open>A shape at the head of its bucket.\<close>

lemma table_part_insert:
  assumes t: "table_part S D tab bits" and a: "a \<notin> D" "S a = Some sh"
  defines "h \<equiv> get_shape_hash (sh_hash sh) bits"
  shows "h < length tab" "table_part (S(a \<mapsto> sh\<lparr>shape_hash_next := tab ! h\<rparr>)) (insert a D) (tab[h := Some a]) bits"
proof -
  obtain bk where bk: "schain S (tab ! b) (bk b) \<and> distinct (bk b) \<and> set (bk b) = {a \<in> D. get_shape_hash (sh_hash (the (S a))) bits = b}"
      if "b < 2 ^ bits" for b using t by (auto simp: table_part_def)
  have tb: "bits < 30" "length tab = 2 ^ bits" "D \<subseteq> dom S" using t by (simp_all add: table_part_def)
  then show h: "h < length tab" using get_shape_hash_less [of bits] by (simp add: h_def)
  let ?S = "S(a \<mapsto> sh\<lparr>shape_hash_next := tab ! h\<rparr>)" and ?bk = "bk(h := a # bk h)"
  have "schain ?S (tab[h := Some a] ! b) (?bk b) \<and> distinct (?bk b) \<and>
      set (?bk b) = {x \<in> insert a D. get_shape_hash (sh_hash (the (?S x))) bits = b}" if b: "b < 2 ^ bits" for b
  proof -
    have na: "a \<notin> set (bk b)" using bk [OF b] a(1) by auto
    then have "schain ?S (tab ! b) (bk b)" using bk [OF b] by (simp add: schain_upd del: fun_upd_apply)
    then have "schain ?S (tab[h := Some a] ! b) (?bk b)" using h tb(2) b by (cases "b = h") (auto simp: nth_list_update)
    moreover have "set (?bk b) = {x \<in> insert a D. get_shape_hash (sh_hash (the (?S x))) bits = b}"
      using bk [OF b] a by (cases "b = h") (auto simp: h_def)
    ultimately show ?thesis using na bk [OF b] by (cases "b = h") simp_all
  qed
  moreover have "insert a D \<subseteq> dom ?S" using tb(3) by auto
  ultimately show "table_part ?S (insert a D) (tab[h := Some a]) bits" using tb unfolding table_part_def by (auto simp del: fun_upd_apply intro!: exI [of _ ?bk])
qed

lemma schain_split:
  assumes "schain S cur (xs @ a # ys)" and "S a = Some sh"
  shows "schain S (shape_hash_next sh) ys" "xs = [] \<Longrightarrow> cur = Some a"
    "distinct (xs @ a # ys) \<Longrightarrow> unlink_loop S a prv cur = Some (if xs = [] then prv else Some (last xs))"
  using assms
proof (induction xs arbitrary: cur prv)
  case (Cons x xs)
  { case 1 then show ?case using Cons.IH(1) by auto }
  { case 2 then show ?case by simp }
  { case 3
    then obtain shx where x: "cur = Some x" "S x = Some shx" "schain S (shape_hash_next shx) (xs @ a # ys)" "x \<noteq> a" by auto
    have "unlink_loop S a (Some x) (shape_hash_next shx) = Some (if xs = [] then Some x else Some (last xs))"
      using Cons.IH(3) [of "shape_hash_next shx" "Some x"] x(3) 3 by simp
    then show ?case using x by (subst unlink_loop.simps) simp }
qed (auto simp: unlink_loop.simps)

lemma schain_remove:
  assumes "schain S cur (xs @ a # ys)" and "S a = Some sh" and "distinct (xs @ a # ys)" and "xs \<noteq> []" and "S (last xs) = Some shl"
  shows "schain (S(last xs \<mapsto> shl\<lparr>shape_hash_next := shape_hash_next sh\<rparr>)) cur (xs @ ys)"
  using assms
proof (induction xs arbitrary: cur)
  case (Cons x xs)
  show ?case
  proof (cases xs)
    case Nil
    then show ?thesis using Cons.prems schain_split(1) [of S _ "[]" a ys sh] by (auto simp: schain_upd simp del: fun_upd_apply) (auto)
  next
    case (Cons y zs)
    then have "x \<noteq> last xs" using Cons.prems(3) by auto
    then show ?thesis using Cons.IH Cons.prems Cons by auto
  qed
qed simp

subsection \<open>The operations of the table\<close>

text \<open>Two runtimes whose shapes agree but for the chains.\<close>

definition unchained :: "JSShape \<Rightarrow> JSShape" where
  "unchained sh = sh\<lparr>shape_hash_next := None\<rparr>"

definition same_shapes :: "(nat \<Rightarrow> JSShape option) \<Rightarrow> (nat \<Rightarrow> JSShape option) \<Rightarrow> bool" where
  "same_shapes S S' \<longleftrightarrow> (\<forall>a. map_option unchained (S' a) = map_option unchained (S a))"

lemma same_shapes_refl [simp]: "same_shapes S S"
  by (simp add: same_shapes_def)

lemma same_shapes_trans: "same_shapes S S' \<Longrightarrow> same_shapes S' S'' \<Longrightarrow> same_shapes S S''"
  by (simp add: same_shapes_def)

lemma same_shapes_upd: "S a = Some sh \<Longrightarrow> same_shapes S (S(a \<mapsto> sh\<lparr>shape_hash_next := v\<rparr>))"
  by (simp add: same_shapes_def unchained_def)

lemma same_shapesD:
  assumes "same_shapes S S'" and "S a = Some sh"
  obtains v where "S' a = Some (sh\<lparr>shape_hash_next := v\<rparr>)"
proof -
  have "map_option unchained (S' a) = Some (unchained sh)" using assms by (simp add: same_shapes_def)
  then obtain sh' where s: "S' a = Some sh'" "unchained sh' = unchained sh" by auto
  have "sh' = sh\<lparr>shape_hash_next := shape_hash_next sh'\<rparr>" using s(2) by (cases sh; cases sh') (simp add: unchained_def)
  then show ?thesis using that [of "shape_hash_next sh'"] s(1) by simp
qed

lemma same_shapes_None: "same_shapes S S' \<Longrightarrow> S' a = None \<longleftrightarrow> S a = None"
  by (metis map_option_is_None same_shapes_def)

lemma hash_link_ok:
  assumes t: "table_part (shapes rt) D (shape_hash_tab rt) (shape_hash_bits rt)" and a: "a \<notin> D" "shapes rt a = Some sh"
  shows "\<exists>v tab. js_shape_hash_link rt a =
       Some (rt\<lparr>shapes := (shapes rt)(a \<mapsto> sh\<lparr>shape_hash_next := v\<rparr>), shape_hash_tab := tab, shape_hash_count := shape_hash_count rt + 1\<rparr>) \<and>
     table_part ((shapes rt)(a \<mapsto> sh\<lparr>shape_hash_next := v\<rparr>)) (insert a D) tab (shape_hash_bits rt)"
  using table_part_insert [OF t a] a(2) by (auto simp: js_shape_hash_link_def Let_def set_shape_def)

lemma table_part_remove:
  assumes t: "table_part S D tab bits" and a: "a \<in> D" "S a = Some sh"
  defines "h \<equiv> get_shape_hash (sh_hash sh) bits"
  shows "\<exists>S' tab' prv. h < length tab \<and> unlink_loop S a None (tab ! h) = Some prv \<and>
     (case prv of None \<Rightarrow> S' = S \<and> tab' = tab[h := shape_hash_next sh]
      | Some b \<Rightarrow> tab' = tab \<and> b \<noteq> a \<and> (\<exists>shb. S b = Some shb \<and> S' = S(b \<mapsto> shb\<lparr>shape_hash_next := shape_hash_next sh\<rparr>))) \<and>
     table_part S' (D - {a}) tab' bits \<and> same_shapes S S' \<and> S' a = Some sh"
proof -
  obtain bk where bk: "schain S (tab ! b) (bk b) \<and> distinct (bk b) \<and> set (bk b) = {a \<in> D. get_shape_hash (sh_hash (the (S a))) bits = b}"
      if "b < 2 ^ bits" for b using t by (auto simp: table_part_def)
  have tb: "bits < 30" "length tab = 2 ^ bits" "D \<subseteq> dom S" using t by (simp_all add: table_part_def)
  then have h: "h < length tab" "h < 2 ^ bits" using get_shape_hash_less [of bits] by (simp_all add: h_def)
  have "a \<in> set (bk h)" using bk [OF h(2)] a by (simp add: h_def)
  then obtain xs ys where sp: "bk h = xs @ a # ys" by (meson split_list)
  have c: "schain S (tab ! h) (xs @ a # ys)" "distinct (xs @ a # ys)" using bk [OF h(2)] sp by simp_all
  let ?prv = "if xs = [] then None else Some (last xs)"
  have ul: "unlink_loop S a None (tab ! h) = Some ?prv" by (rule schain_split(3) [OF c(1) a(2) c(2)])
  define S' where "S' = (if xs = [] then S else S(last xs \<mapsto> (the (S (last xs)))\<lparr>shape_hash_next := shape_hash_next sh\<rparr>))"
  define tab' where "tab' = (if xs = [] then tab[h := shape_hash_next sh] else tab)"
  have l: "last xs \<in> D" "S (last xs) = Some (the (S (last xs)))" "last xs \<noteq> a" if "xs \<noteq> []"
  proof -
    have "last xs \<in> set (bk h)" "last xs \<in> set xs" using that sp by simp_all
    then show "last xs \<in> D" "last xs \<noteq> a" using bk [OF h(2)] c(2) by auto
    then show "S (last xs) = Some (the (S (last xs)))" using tb(3) by (auto simp: domIff)
  qed
  have ss: "same_shapes S S'" using l(2) by (auto simp: S'_def intro: same_shapes_upd)
  have Sa: "S' a = Some sh" using l(3) a(2) by (auto simp: S'_def)
  have hash: "sh_hash (the (S' x)) = sh_hash (the (S x))" for x by (auto simp: S'_def)
  have "schain S' (tab' ! b) ((bk(h := xs @ ys)) b) \<and> distinct ((bk(h := xs @ ys)) b) \<and>
      set ((bk(h := xs @ ys)) b) = {x \<in> D - {a}. get_shape_hash (sh_hash (the (S' x))) bits = b}" if b: "b < 2 ^ bits" for b
  proof (cases "b = h")
    case True
    have "schain S' (tab' ! h) (xs @ ys)"
    proof (cases "xs = []")
      case True
      then show ?thesis using schain_split(1) [OF c(1) a(2)] h(1) by (simp add: S'_def tab'_def)
    next
      case False
      then show ?thesis using schain_remove [OF c(1) a(2) c(2) False l(2) [OF False]] by (simp add: S'_def tab'_def)
    qed
    moreover have "set (xs @ ys) = {x \<in> D - {a}. get_shape_hash (sh_hash (the (S' x))) bits = h}"
      using bk [OF h(2)] c(2) sp by (auto simp: hash)
    ultimately show ?thesis using c(2) True by simp
  next
    case False
    have "last xs \<notin> set (bk b)" if "xs \<noteq> []"
      using bk [OF b] bk [OF h(2)] sp that False by (metis (mono_tags, lifting) Un_iff last_in_set mem_Collect_eq set_append)
    then have "schain S' (tab ! b) (bk b)" using bk [OF b] by (simp add: S'_def schain_upd del: fun_upd_apply)
    moreover have "set (bk b) = {x \<in> D - {a}. get_shape_hash (sh_hash (the (S' x))) bits = b}"
      using bk [OF b] False a(2) by (auto simp: hash h_def)
    ultimately show ?thesis using bk [OF b] False by (simp add: tab'_def)
  qed
  moreover have "D - {a} \<subseteq> dom S'" using tb(3) by (auto simp: S'_def)
  moreover have "length tab' = 2 ^ bits" using tb(2) by (simp add: tab'_def)
  ultimately have tp: "table_part S' (D - {a}) tab' bits" using tb(1) unfolding table_part_def by blast
  show ?thesis
    by (rule exI [of _ S'], rule exI [of _ tab'], rule exI [of _ ?prv])
       (use h(1) ul tp ss Sa l in \<open>auto simp: S'_def tab'_def\<close>)
qed

lemma hash_unlink_ok:
  assumes t: "table_part (shapes rt) D (shape_hash_tab rt) (shape_hash_bits rt)" and a: "a \<in> D" "shapes rt a = Some sh"
  shows "\<exists>S' tab. js_shape_hash_unlink rt a = Some (rt\<lparr>shapes := S', shape_hash_tab := tab, shape_hash_count := shape_hash_count rt - 1\<rparr>) \<and>
     table_part S' (D - {a}) tab (shape_hash_bits rt) \<and> same_shapes (shapes rt) S' \<and> S' a = Some sh"
proof -
  let ?h = "get_shape_hash (sh_hash sh) (shape_hash_bits rt)" and ?tab = "shape_hash_tab rt"
  obtain S' tab' prv where 1: "?h < length ?tab" "unlink_loop (shapes rt) a None (?tab ! ?h) = Some prv"
      "case prv of None \<Rightarrow> S' = shapes rt \<and> tab' = ?tab[?h := shape_hash_next sh]
       | Some b \<Rightarrow> tab' = ?tab \<and> b \<noteq> a \<and> (\<exists>shb. shapes rt b = Some shb \<and> S' = (shapes rt)(b \<mapsto> shb\<lparr>shape_hash_next := shape_hash_next sh\<rparr>))"
      "table_part S' (D - {a}) tab' (shape_hash_bits rt)" "same_shapes (shapes rt) S'" "S' a = Some sh"
    using table_part_remove [OF t a] by blast
  have "js_shape_hash_unlink rt a = Some (rt\<lparr>shapes := S', shape_hash_tab := tab', shape_hash_count := shape_hash_count rt - 1\<rparr>)"
    using 1(1-3) a(2) by (cases prv) (auto simp: js_shape_hash_unlink_def Let_def set_shape_def)
  then show ?thesis using 1(4-6) by blast
qed

text \<open>Resizing moves every shape to the bucket of its hash in the new table.\<close>

lemma move_shape_ok:
  assumes t: "table_part (shapes rt) D tab bits" and c: "c \<notin> D" "shapes rt c = Some sh"
  shows "\<exists>v tab'. move_shape bits rt tab c = Some (shape_hash_next sh, rt\<lparr>shapes := (shapes rt)(c \<mapsto> sh\<lparr>shape_hash_next := v\<rparr>)\<rparr>, tab') \<and>
     table_part ((shapes rt)(c \<mapsto> sh\<lparr>shape_hash_next := v\<rparr>)) (insert c D) tab' bits"
  using table_part_insert [OF t c] c(2) by (auto simp: move_shape_def Let_def set_shape_def)

lemma move_chain_ok:
  assumes "table_part (shapes rt) D tab bits" and "schain (shapes rt) cur as" and "distinct as" and "set as \<inter> D = {}"
  shows "\<exists>S tab'. move_chain bits rt tab cur = Some (rt\<lparr>shapes := S\<rparr>, tab') \<and> table_part S (D \<union> set as) tab' bits \<and>
     same_shapes (shapes rt) S \<and> (\<forall>a. a \<notin> set as \<longrightarrow> S a = shapes rt a)"
  using assms
proof (induction as arbitrary: rt D tab cur)
  case Nil
  then show ?case by (subst move_chain.simps) (auto intro!: exI [of _ "shapes rt"])
next
  case (Cons c cs)
  then obtain sh where sh: "shapes rt c = Some sh" "cur = Some c" "schain (shapes rt) (shape_hash_next sh) cs" by auto
  obtain v tab1 where 1: "move_shape bits rt tab c = Some (shape_hash_next sh, rt\<lparr>shapes := (shapes rt)(c \<mapsto> sh\<lparr>shape_hash_next := v\<rparr>)\<rparr>, tab1)"
      "table_part ((shapes rt)(c \<mapsto> sh\<lparr>shape_hash_next := v\<rparr>)) (insert c D) tab1 bits"
    using move_shape_ok [OF Cons.prems(1) _ sh(1)] Cons.prems(4) by auto
  let ?rt = "rt\<lparr>shapes := (shapes rt)(c \<mapsto> sh\<lparr>shape_hash_next := v\<rparr>)\<rparr>"
  have p: "table_part (shapes ?rt) (insert c D) tab1 bits" "schain (shapes ?rt) (shape_hash_next sh) cs" "distinct cs" "set cs \<inter> insert c D = {}"
    using 1(2) sh(3) Cons.prems(3,4) by (auto simp add: schain_upd simp del: fun_upd_apply)
  obtain S tab2 where 2: "move_chain bits ?rt tab1 (shape_hash_next sh) = Some (?rt\<lparr>shapes := S\<rparr>, tab2)" "table_part S (insert c D \<union> set cs) tab2 bits"
      "same_shapes (shapes ?rt) S" "\<forall>a. a \<notin> set cs \<longrightarrow> S a = shapes ?rt a"
    using Cons.IH [OF p] by blast
  have "move_chain bits rt tab cur = Some (rt\<lparr>shapes := S\<rparr>, tab2)" using sh(2) 1(1) 2(1) by (subst move_chain.simps) simp
  moreover have "same_shapes (shapes rt) S" using same_shapes_trans [OF same_shapes_upd [of "shapes rt" c sh v] ] sh(1) 2(3) by simp
  ultimately show ?case using 2(2,4) by (intro exI [of _ S] exI [of _ tab2]) auto
qed

lemma move_chains_ok:
  assumes "table_part (shapes rt) D tab bits" and "list_all2 (schain (shapes rt)) curs ass" and "distinct (concat ass)" and "set (concat ass) \<inter> D = {}"
  shows "\<exists>S tab'. move_chains bits rt tab curs = Some (rt\<lparr>shapes := S\<rparr>, tab') \<and> table_part S (D \<union> set (concat ass)) tab' bits \<and>
     same_shapes (shapes rt) S"
  using assms
proof (induction curs arbitrary: rt D tab ass)
  case Nil
  then show ?case by (auto intro!: exI [of _ "shapes rt"])
next
  case (Cons cur curs)
  then obtain as ass' where as: "ass = as # ass'" "schain (shapes rt) cur as" "list_all2 (schain (shapes rt)) curs ass'"
    by (auto simp: list_all2_Cons1)
  have d: "distinct as" "set as \<inter> D = {}" "distinct (concat ass')" "set (concat ass') \<inter> (D \<union> set as) = {}"
    using Cons.prems(3,4) as(1) by auto
  obtain S tab1 where 1: "move_chain bits rt tab cur = Some (rt\<lparr>shapes := S\<rparr>, tab1)" "table_part S (D \<union> set as) tab1 bits"
      "same_shapes (shapes rt) S" "\<forall>a. a \<notin> set as \<longrightarrow> S a = shapes rt a"
    using move_chain_ok [OF Cons.prems(1) as(2) d(1,2)] by blast
  have "schain S c bs" if "schain (shapes rt) c bs" "bs \<in> set ass'" for c bs
  proof -
    have "set bs \<inter> set as = {}" using that(2) d(4) by auto
    then have "schain S c bs = schain (shapes rt) c bs" using 1(4) by (intro schain_cong) auto
    then show ?thesis using that(1) by simp
  qed
  then have "list_all2 (schain S) curs ass'" using as(3) by (auto simp: list_all2_conv_all_nth)
  then have p: "table_part (shapes (rt\<lparr>shapes := S\<rparr>)) (D \<union> set as) tab1 bits" "list_all2 (schain (shapes (rt\<lparr>shapes := S\<rparr>))) curs ass'" using 1(2) by simp_all
  obtain S' tab2 where 2: "move_chains bits (rt\<lparr>shapes := S\<rparr>) tab1 curs = Some (rt\<lparr>shapes := S'\<rparr>, tab2)"
      "table_part S' (D \<union> set as \<union> set (concat ass')) tab2 bits" "same_shapes S S'"
    using Cons.IH [OF p d(3,4)] by auto
  have "move_chains bits rt tab (cur # curs) = Some (rt\<lparr>shapes := S'\<rparr>, tab2)" using 1(1) 2(1) by simp
  moreover have "D \<union> set (concat ass) = D \<union> set as \<union> set (concat ass')" using as(1) by auto
  ultimately show ?case using 2(2) same_shapes_trans [OF 1(3) 2(3)] by metis
qed

lemma table_buckets:
  assumes "table_part S D tab bits"
  obtains ass where "list_all2 (schain S) tab ass" "distinct (concat ass)" "set (concat ass) = D"
proof -
  obtain bk where bk: "schain S (tab ! b) (bk b) \<and> distinct (bk b) \<and> set (bk b) = {a \<in> D. get_shape_hash (sh_hash (the (S a))) bits = b}"
      if "b < 2 ^ bits" for b using assms by (auto simp: table_part_def)
  have tb: "bits < 30" "length tab = 2 ^ bits" using assms by (simp_all add: table_part_def)
  let ?ass = "map bk [0..<2 ^ bits]"
  have "list_all2 (schain S) tab ?ass" using bk tb by (simp add: list_all2_conv_all_nth)
  moreover have "distinct (concat ?ass)"
  proof -
    have "distinct (concat (map bk [0..<n]))" if "n \<le> 2 ^ bits" for n
      using that
    proof (induction n)
      case (Suc n)
      have "set (bk n) \<inter> set (bk i) = {}" if "i < n" for i using bk [of n] bk [of i] that Suc.prems by auto
      then have "set (concat (map bk [0..<n])) \<inter> set (bk n) = {}" by (auto simp: disjoint_iff)
      then show ?case using Suc bk [of n] by simp
    qed simp
    then show ?thesis by simp
  qed
  moreover have "set (concat ?ass) = D"
  proof -
    have "\<exists>b<2 ^ bits. a \<in> set (bk b)" if "a \<in> D" for a
      using bk get_shape_hash_less [of bits "sh_hash (the (S a))"] that tb(1) by (intro exI [of _ "get_shape_hash (sh_hash (the (S a))) bits"]) auto
    then show ?thesis using bk by fastforce
  qed
  ultimately show ?thesis using that by blast
qed

lemma resize_shape_hash_ok:
  assumes t: "table_part (shapes rt) D (shape_hash_tab rt) (shape_hash_bits rt)" and al: "alloc_ok alloc"
    and b: "new_bits < 31"
  shows "\<exists>r m S tab bits. resize_shape_hash alloc rt new_bits =
       Some (r, rt\<lparr>rt_mem := m, shapes := S, shape_hash_tab := tab, shape_hash_bits := bits\<rparr>) \<and>
     table_part S D tab bits \<and> same_shapes (shapes rt) S"
proof -
  obtain r m where rm: "alloc (rt_mem rt) (\<lambda>a. True) (8 * 2 ^ new_bits) = (r, m)" by fastforce
  show ?thesis
  proof (cases r)
    case None
    then have "resize_shape_hash alloc rt new_bits = Some (-1, rt\<lparr>rt_mem := m\<rparr>)" using b rm by (simp add: resize_shape_hash_def js_malloc_block_def)
    moreover have "rt\<lparr>rt_mem := m\<rparr> = rt\<lparr>rt_mem := m, shapes := shapes rt, shape_hash_tab := shape_hash_tab rt, shape_hash_bits := shape_hash_bits rt\<rparr>" by simp
    ultimately show ?thesis using t same_shapes_refl by metis
  next
    case (Some x)
    then have "8 * 2 ^ new_bits < (2 ^ 29 :: nat)" using al rm unfolding alloc_ok_def by blast
    then have "(2 ^ (3 + new_bits) :: nat) < 2 ^ 29" by (simp add: power_add)
    then have nb: "new_bits < 26" by (subst (asm) power_strict_increasing_iff) simp_all
    obtain ass where ass: "list_all2 (schain (shapes rt)) (shape_hash_tab rt) ass" "distinct (concat ass)" "set (concat ass) = D"
      using table_buckets [OF t] by blast
    let ?rt = "rt\<lparr>rt_mem := m\<rparr>"
    have "table_part (shapes ?rt) {} (replicate (2 ^ new_bits) None) new_bits" using nb by (intro table_part_empty) simp
    from move_chains_ok [OF this, of "shape_hash_tab rt" ass] obtain S tab where
      "move_chains new_bits ?rt (replicate (2 ^ new_bits) None) (shape_hash_tab rt) = Some (?rt\<lparr>shapes := S\<rparr>, tab)"
      "table_part S D tab new_bits" "same_shapes (shapes rt) S"
      using ass by auto
    then show ?thesis using b rm Some
      by (intro exI [of _ 0] exI [of _ m] exI [of _ S] exI [of _ tab] exI [of _ new_bits]) (simp add: resize_shape_hash_def js_malloc_block_def)
  qed
qed

subsection \<open>Finding a shape\<close>

lemma find_hashed_loop_ok:
  assumes "schain S cur as"
  shows "\<exists>r. find_hashed_loop S P cur = Some r \<and> (\<forall>c. r = Some c \<longrightarrow> c \<in> set as \<and> (\<exists>sh. S c = Some sh \<and> P sh))"
  using assms
proof (induction as arbitrary: cur)
  case Nil
  then show ?case by (subst find_hashed_loop.simps) simp
next
  case (Cons a as)
  then obtain sh where "cur = Some a" "S a = Some sh" "schain S (shape_hash_next sh) as" by auto
  then show ?case using Cons.IH [of "shape_hash_next sh"] by (subst find_hashed_loop.simps) auto
qed

lemma find_in_table:
  assumes t: "table_part S D tab bits"
  shows "\<exists>cur r. rd tab (get_shape_hash h bits) = Some cur \<and> find_hashed_loop S P cur = Some r \<and>
     (\<forall>c. r = Some c \<longrightarrow> c \<in> D \<and> (\<exists>sh. S c = Some sh \<and> P sh))"
proof -
  obtain bk where bk: "schain S (tab ! b) (bk b) \<and> distinct (bk b) \<and> set (bk b) = {a \<in> D. get_shape_hash (sh_hash (the (S a))) bits = b}"
      if "b < 2 ^ bits" for b using t by (auto simp: table_part_def)
  have b: "get_shape_hash h bits < 2 ^ bits" "get_shape_hash h bits < length tab"
    using t get_shape_hash_less [of bits h] by (simp_all add: table_part_def)
  show ?thesis using find_hashed_loop_ok [of S "tab ! get_shape_hash h bits" _ P] bk [OF b(1)] b(2) by fastforce
qed

lemma find_proto_ok:
  assumes "table_part (shapes rt) D (shape_hash_tab rt) (shape_hash_bits rt)"
  shows "\<exists>r. find_hashed_shape_proto rt pr = Some r \<and>
     (\<forall>c. r = Some c \<longrightarrow> c \<in> D \<and> (\<exists>sh. shapes rt c = Some sh \<and> proto sh = pr \<and> sh_prop sh = []))"
  using find_in_table [OF assms, of "shape_initial_hash pr" "\<lambda>sh1. sh_hash sh1 = shape_initial_hash pr \<and> proto sh1 = pr \<and> prop_count sh1 = 0"]
  by (auto simp: find_hashed_shape_proto_def Let_def prop_count_def)

lemma shape_extends_names:
  assumes "shape_extends h sh a f sh1"
  shows "names (sh_prop sh1) = names (sh_prop sh) @ [(a, f)]" "proto sh1 = proto sh"
proof -
  let ?n = "length (sh_prop sh)"
  have len: "length (sh_prop sh1) = Suc ?n" and eq: "\<And>i. i < ?n \<Longrightarrow> same_prop (sh_prop sh1) i (pr_atom (sh_prop sh ! i)) (pr_flags (sh_prop sh ! i))"
    and l: "same_prop (sh_prop sh1) ?n a f"
    using assms by (auto simp: shape_extends_def prop_count_def list_all_iff)
  show "names (sh_prop sh1) = names (sh_prop sh) @ [(a, f)]"
  proof (rule nth_equalityI)
    fix i assume "i < length (names (sh_prop sh1))"
    then show "names (sh_prop sh1) ! i = (names (sh_prop sh) @ [(a, f)]) ! i"
      using len eq [of i] l by (cases "i = ?n") (auto simp: names_def nth_append same_prop_def)
  qed (simp add: len)
  show "proto sh1 = proto sh" using assms by (simp add: shape_extends_def)
qed

lemma find_prop_ok:
  assumes "table_part (shapes rt) D (shape_hash_tab rt) (shape_hash_bits rt)"
  shows "\<exists>r. find_hashed_shape_prop rt sh a f = Some r \<and>
     (\<forall>c. r = Some c \<longrightarrow> c \<in> D \<and> (\<exists>sh1. shapes rt c = Some sh1 \<and> proto sh1 = proto sh \<and> names (sh_prop sh1) = names (sh_prop sh) @ [(a, f)]))"
  using find_in_table [OF assms, of "shape_hash (shape_hash (sh_hash sh) a) (of_nat f)" "shape_extends (shape_hash (shape_hash (sh_hash sh) a) (of_nat f)) sh a f"]
  by (fastforce simp: find_hashed_shape_prop_def Let_def dest: shape_extends_names)

end
