(* ===== verification/Object_Model.thy ===== *)
theory Object_Model
  imports Shape_Table
begin

text \<open>
  The properties of ordinary objects: adding, deleting, changing the flags, and the creation and
  release of objects, with the shapes shared between objects through the table. Reference counts
  other than those of the shapes, atoms and the memory limits of the runtime are left out.
\<close>

subsection \<open>Adding a property\<close>

definition resize_values :: "nat \<Rightarrow> 'v option list \<Rightarrow> 'v option list" where
  "resize_values n vs = take n vs @ replicate (n - length vs) None"

definition set_object :: "('m, 'v) shape_runtime \<Rightarrow> nat \<Rightarrow> 'v JSObject \<Rightarrow> ('m, 'v) shape_runtime" where
  "set_object rt p ob = rt\<lparr>objects := (objects rt)(p \<mapsto> ob)\<rparr>"

text \<open>The shape moves to another address, possibly the same.\<close>

definition move_shape_to :: "('m, 'v) shape_runtime \<Rightarrow> nat \<Rightarrow> nat \<Rightarrow> JSShape \<Rightarrow> ('m, 'v) shape_runtime" where
  "move_shape_to rt a b sh = rt\<lparr>shapes := (shapes rt)(a := None, b \<mapsto> sh)\<rparr>"

definition js_realloc_values :: "'m alloc_fn \<Rightarrow> ('m, 'v) shape_runtime \<Rightarrow> nat \<Rightarrow> nat \<Rightarrow> (bool \<times> ('m, 'v) shape_runtime) option" where
  "js_realloc_values alloc rt p n =
     do {
       ob \<leftarrow> objects rt p;
       let (ok, rt) = js_malloc_block alloc rt (16 * n);
       Some (ok, if ok then set_object rt p (ob\<lparr>obj_prop := resize_values n (obj_prop ob)\<rparr>) else rt)
     }"

definition js_realloc_shape :: "'m alloc_fn \<Rightarrow> ('m, 'v) shape_runtime \<Rightarrow> nat \<Rightarrow> nat \<Rightarrow> nat option \<times> ('m, 'v) shape_runtime" where
  "js_realloc_shape alloc rt a n =
     (let (r, m) = alloc (rt_mem rt) (\<lambda>b. b = a \<or> shapes rt b = None) n in (r, rt\<lparr>rt_mem := m\<rparr>))"

definition resize_properties :: "'m alloc_fn \<Rightarrow> ('m, 'v) shape_runtime \<Rightarrow> nat \<Rightarrow> nat \<Rightarrow> (bool \<times> ('m, 'v) shape_runtime) option" where
  "resize_properties alloc rt p n =
     do {
       ob \<leftarrow> objects rt p;
       sh \<leftarrow> shapes rt (obj_shape ob);
       n3 \<leftarrow> cint (int (prop_size sh) * 3);
       let new_size = max n (nat (n3 div 2));
       (ok, rt) \<leftarrow> js_realloc_values alloc rt p new_size;
       if \<not> ok then Some (False, rt)
       else do {
         ob \<leftarrow> objects rt p;
         new_hash_size \<leftarrow> grow_hash_size (unat (prop_hash_mask sh) + 1) new_size;
         if new_hash_size \<noteq> unat (prop_hash_mask sh) + 1 then
           (let (r, rt) = js_malloc_shape alloc rt (get_shape_size new_hash_size new_size);
                new_hash_mask = of_nat (new_hash_size - 1)
            in case r of
                 None \<Rightarrow> Some (False, rt)
               | Some b \<Rightarrow> do {
                   (pr, tab) \<leftarrow> rehash_loop (sh_prop sh) (replicate new_hash_size 0) new_hash_mask 0;
                   Some (True, set_object
                     (move_shape_to rt (obj_shape ob) b (sh\<lparr>prop_hash := tab, prop_hash_mask := new_hash_mask, prop_size := new_size, sh_prop := pr\<rparr>))
                     p (ob\<lparr>obj_shape := b\<rparr>))
                 })
         else
           (let (r, rt) = js_realloc_shape alloc rt (obj_shape ob) (get_shape_size new_hash_size new_size)
            in case r of
                 None \<Rightarrow> Some (False, rt)
               | Some b \<Rightarrow> Some (True, set_object (move_shape_to rt (obj_shape ob) b (sh\<lparr>prop_size := new_size\<rparr>)) p (ob\<lparr>obj_shape := b\<rparr>)))
       }
     }"

definition add_shape_property :: "'m alloc_fn \<Rightarrow> ('m, 'v) shape_runtime \<Rightarrow> nat \<Rightarrow> u32 \<Rightarrow> nat \<Rightarrow> (bool \<times> ('m, 'v) shape_runtime) option" where
  "add_shape_property alloc rt p a f =
     do {
       ob \<leftarrow> objects rt p;
       sh \<leftarrow> shapes rt (obj_shape ob);
       let new_shape_hash = shape_hash (shape_hash (sh_hash sh) a) (of_nat f);
       rt \<leftarrow> (if is_hashed sh then js_shape_hash_unlink rt (obj_shape ob) else Some rt);
       (ok, rt) \<leftarrow> (if prop_count sh \<ge> prop_size sh then resize_properties alloc rt p (prop_count sh + 1) else Some (True, rt));
       if \<not> ok then do {
         rt \<leftarrow> (if is_hashed sh then js_shape_hash_link rt (obj_shape ob) else Some rt);
         Some (False, rt)
       }
       else do {
         ob \<leftarrow> objects rt p;
         sh \<leftarrow> shapes rt (obj_shape ob);
         rt \<leftarrow> (if is_hashed sh
                then js_shape_hash_link (set_shape rt (obj_shape ob) (sh\<lparr>sh_hash := new_shape_hash\<rparr>)) (obj_shape ob)
                else Some rt);
         sh \<leftarrow> shapes rt (obj_shape ob);
         sh \<leftarrow> append_property sh a f;
         Some (True, set_shape rt (obj_shape ob) sh)
       }
     }"

text \<open>The end of \<open>add_property\<close>: the object is the only user of its shape. The result is the index of the new property.\<close>

definition add_to_own_shape :: "'m alloc_fn \<Rightarrow> ('m, 'v) shape_runtime \<Rightarrow> nat \<Rightarrow> u32 \<Rightarrow> nat \<Rightarrow> (nat option \<times> ('m, 'v) shape_runtime) option" where
  "add_to_own_shape alloc rt p a f =
     do {
       ob \<leftarrow> objects rt p;
       sh \<leftarrow> shapes rt (obj_shape ob);
       if shape_refs sh = 1 then do {
         (ok, rt) \<leftarrow> add_shape_property alloc rt p a f;
         if ok then do {
           ob \<leftarrow> objects rt p;
           sh \<leftarrow> shapes rt (obj_shape ob);
           Some (Some (prop_count sh - 1), rt)
         }
         else Some (None, rt)
       }
       else None
     }"

definition use_found_shape :: "'m alloc_fn \<Rightarrow> ('m, 'v) shape_runtime \<Rightarrow> nat \<Rightarrow> JSShape \<Rightarrow> nat \<Rightarrow> (nat option \<times> ('m, 'v) shape_runtime) option" where
  "use_found_shape alloc rt p sh b =
     do {
       new_sh \<leftarrow> shapes rt b;
       (ok, rt) \<leftarrow> (if prop_size new_sh \<noteq> prop_size sh then js_realloc_values alloc rt p (prop_size new_sh) else Some (True, rt));
       if ok then do {
         ob \<leftarrow> objects rt p;
         rt \<leftarrow> js_dup_shape rt b;
         rt \<leftarrow> shape_free (set_object rt p (ob\<lparr>obj_shape := b\<rparr>)) (obj_shape ob);
         Some (Some (prop_count new_sh - 1), rt)
       }
       else Some (None, rt)
     }"

definition add_property :: "'m alloc_fn \<Rightarrow> ('m, 'v) shape_runtime \<Rightarrow> nat \<Rightarrow> u32 \<Rightarrow> nat \<Rightarrow> (nat option \<times> ('m, 'v) shape_runtime) option" where
  "add_property alloc rt p a f =
     do {
       ob \<leftarrow> objects rt p;
       sh \<leftarrow> shapes rt (obj_shape ob);
       if is_hashed sh then do {
         r \<leftarrow> find_hashed_shape_prop rt sh a f;
         (case r of
            Some b \<Rightarrow> use_found_shape alloc rt p sh b
          | None \<Rightarrow>
              if shape_refs sh \<noteq> 1 then do {
                (c, rt) \<leftarrow> js_clone_shape alloc rt (obj_shape ob);
                (case c of
                   None \<Rightarrow> Some (None, rt)
                 | Some b \<Rightarrow> do {
                     new_sh \<leftarrow> shapes rt b;
                     rt \<leftarrow> js_shape_hash_link (set_shape rt b (new_sh\<lparr>is_hashed := True\<rparr>)) b;
                     rt \<leftarrow> shape_free rt (obj_shape ob);
                     add_to_own_shape alloc (set_object rt p (ob\<lparr>obj_shape := b\<rparr>)) p a f
                   })
              }
              else add_to_own_shape alloc rt p a f)
       }
       else add_to_own_shape alloc rt p a f
     }"

subsection \<open>Changing and deleting a property\<close>

definition js_shape_prepare_update :: "'m alloc_fn \<Rightarrow> ('m, 'v) shape_runtime \<Rightarrow> nat \<Rightarrow> (bool \<times> ('m, 'v) shape_runtime) option" where
  "js_shape_prepare_update alloc rt p =
     do {
       ob \<leftarrow> objects rt p;
       sh \<leftarrow> shapes rt (obj_shape ob);
       if is_hashed sh then
         (if shape_refs sh \<noteq> 1 then do {
            (c, rt) \<leftarrow> js_clone_shape alloc rt (obj_shape ob);
            (case c of
               None \<Rightarrow> Some (False, rt)
             | Some b \<Rightarrow> do { rt \<leftarrow> shape_free rt (obj_shape ob); Some (True, set_object rt p (ob\<lparr>obj_shape := b\<rparr>)) })
          }
          else do {
            rt \<leftarrow> js_shape_hash_unlink rt (obj_shape ob);
            sh \<leftarrow> shapes rt (obj_shape ob);
            Some (True, set_shape rt (obj_shape ob) (sh\<lparr>is_hashed := False\<rparr>))
          })
       else Some (True, rt)
     }"

definition js_update_property_flags :: "'m alloc_fn \<Rightarrow> ('m, 'v) shape_runtime \<Rightarrow> nat \<Rightarrow> nat \<Rightarrow> nat \<Rightarrow> (int \<times> ('m, 'v) shape_runtime) option" where
  "js_update_property_flags alloc rt p i f =
     do {
       ob \<leftarrow> objects rt p;
       sh \<leftarrow> shapes rt (obj_shape ob);
       pr \<leftarrow> rd (sh_prop sh) i;
       if f \<noteq> pr_flags pr then do {
         (ok, rt) \<leftarrow> js_shape_prepare_update alloc rt p;
         if ok then do {
           ob \<leftarrow> objects rt p;
           sh \<leftarrow> shapes rt (obj_shape ob);
           pr \<leftarrow> rd (sh_prop sh) i;
           ps \<leftarrow> wr (sh_prop sh) i (set_flags pr f);
           Some (0, set_shape rt (obj_shape ob) (sh\<lparr>sh_prop := ps\<rparr>))
         }
         else Some (-1, rt)
       }
       else Some (0, rt)
     }"

definition compact_properties :: "'m alloc_fn \<Rightarrow> ('m, 'v) shape_runtime \<Rightarrow> nat \<Rightarrow> (int \<times> ('m, 'v) shape_runtime) option" where
  "compact_properties alloc rt p =
     do {
       ob \<leftarrow> objects rt p;
       sh \<leftarrow> shapes rt (obj_shape ob);
       let new_size = max JS_PROP_INITIAL_SIZE (prop_count sh - deleted_prop_count sh);
       if is_hashed sh \<or> prop_size sh < new_size then None
       else do {
         new_hash_size \<leftarrow> shrink_hash_size (unat (prop_hash_mask sh) + 1) new_size;
         let new_hash_mask = of_nat (new_hash_size - 1);
         let (r, rt) = js_malloc_shape alloc rt (get_shape_size new_hash_size new_size);
         (case r of
            None \<Rightarrow> Some (-1, rt)
          | Some b \<Rightarrow> do {
              (pr, tab, vs) \<leftarrow> compact_loop (sh_prop sh) 0 [] (replicate new_hash_size 0) new_hash_mask new_size (obj_prop ob);
              if length pr = prop_count sh - deleted_prop_count sh then do {
                let rt = set_object
                  (move_shape_to rt (obj_shape ob) b
                     (sh\<lparr>prop_hash := tab, prop_hash_mask := new_hash_mask, prop_size := new_size, deleted_prop_count := 0, sh_prop := pr\<rparr>))
                  p (ob\<lparr>obj_shape := b, obj_prop := vs\<rparr>);
                (_, rt) \<leftarrow> js_realloc_values alloc rt p new_size;
                Some (0, rt)
              }
              else None
            })
       }
     }"

text \<open>\<open>undef\<close> is the value \<open>JS_UNDEFINED\<close>; freeing a value that was never set is undefined.
  The objects are not exotic.\<close>

definition delete_property :: "'m alloc_fn \<Rightarrow> 'v \<Rightarrow> ('m, 'v) shape_runtime \<Rightarrow> nat \<Rightarrow> u32 \<Rightarrow> (int \<times> ('m, 'v) shape_runtime) option" where
  "delete_property alloc undef rt p a =
     do {
       ob \<leftarrow> objects rt p;
       sh \<leftarrow> shapes rt (obj_shape ob);
       d \<leftarrow> delete_find sh a;
       (case d of
          None \<Rightarrow> Some (1, rt)
        | Some (lpr, i) \<Rightarrow> do {
            pr \<leftarrow> rd (sh_prop sh) i;
            if even (pr_flags pr) then Some (0, rt)
            else do {
              (ok, rt) \<leftarrow> js_shape_prepare_update alloc rt p;
              if \<not> ok then Some (-1, rt)
              else do {
                ob \<leftarrow> objects rt p;
                sh \<leftarrow> shapes rt (obj_shape ob);
                sh \<leftarrow> unlink_property sh a lpr i;
                old \<leftarrow> rd (obj_prop ob) i;
                _ \<leftarrow> old;
                vs \<leftarrow> wr (obj_prop ob) i (Some undef);
                let rt = set_object (set_shape rt (obj_shape ob) sh) p (ob\<lparr>obj_prop := vs\<rparr>);
                if deleted_prop_count sh \<ge> 8 \<and> deleted_prop_count sh \<ge> prop_count sh div 2
                then do { (_, rt) \<leftarrow> compact_properties alloc rt p; Some (1, rt) }
                else Some (1, rt)
              }
            }
          })
     }"

subsection \<open>Objects\<close>

definition JS_NewObjectFromShape :: "'m alloc_fn \<Rightarrow> ('m, 'v) shape_runtime \<Rightarrow> nat \<Rightarrow> (nat option \<times> ('m, 'v) shape_runtime) option" where
  "JS_NewObjectFromShape alloc rt a =
     do {
       sh \<leftarrow> shapes rt a;
       let (r, m) = alloc (rt_mem rt) (\<lambda>p. objects rt p = None) 72;
       let rt = rt\<lparr>rt_mem := m\<rparr>;
       (case r of
          None \<Rightarrow> do { rt \<leftarrow> shape_free rt a; Some (None, rt) }
        | Some p \<Rightarrow>
            (let (ok, rt) = js_malloc_block alloc rt (16 * prop_size sh) in
             if ok then Some (Some p, set_object rt p \<lparr>obj_shape = a, obj_prop = replicate (prop_size sh) None\<rparr>)
             else do { rt \<leftarrow> shape_free rt a; Some (None, rt) }))
     }"

definition JS_NewObjectProtoClass :: "'m alloc_fn \<Rightarrow> ('m, 'v) shape_runtime \<Rightarrow> u64 \<Rightarrow> (nat option \<times> ('m, 'v) shape_runtime) option" where
  "JS_NewObjectProtoClass alloc rt pr =
     do {
       r \<leftarrow> find_hashed_shape_proto rt pr;
       (case r of
          Some a \<Rightarrow> do { rt \<leftarrow> js_dup_shape rt a; JS_NewObjectFromShape alloc rt a }
        | None \<Rightarrow> do {
            (r, rt) \<leftarrow> js_new_shape alloc rt pr;
            (case r of None \<Rightarrow> Some (None, rt) | Some a \<Rightarrow> JS_NewObjectFromShape alloc rt a)
          })
     }"

text \<open>
  The definition of a field that must not exist yet, with its value. The flags \<open>f\<close> are
  \<open>JS_PROP_C_W_E\<close> there; other callers of \<open>add_property\<close> pass other flags.
\<close>

definition JS_DefinePrivateField :: "'m alloc_fn \<Rightarrow> nat \<Rightarrow> ('m, 'v) shape_runtime \<Rightarrow> nat \<Rightarrow> u32 \<Rightarrow> 'v \<Rightarrow> (int \<times> ('m, 'v) shape_runtime) option" where
  "JS_DefinePrivateField alloc f rt p a v =
     do {
       ob \<leftarrow> objects rt p;
       sh \<leftarrow> shapes rt (obj_shape ob);
       prs \<leftarrow> find_own_property1 sh a;
       (case prs of
          Some _ \<Rightarrow> Some (-1, rt)
        | None \<Rightarrow> do {
            (pr, rt) \<leftarrow> add_property alloc rt p a f;
            (case pr of
               None \<Rightarrow> Some (-1, rt)
             | Some i \<Rightarrow> do {
                 ob \<leftarrow> objects rt p;
                 vs \<leftarrow> wr (obj_prop ob) i (Some v);
                 Some (0, set_object rt p (ob\<lparr>obj_prop := vs\<rparr>))
               })
          })
     }"

text \<open>The end of an object: its properties and its reference to the shape go.\<close>

definition object_release :: "('m, 'v) shape_runtime \<Rightarrow> nat \<Rightarrow> ('m, 'v) shape_runtime option" where
  "object_release rt p =
     do { ob \<leftarrow> objects rt p; rt \<leftarrow> shape_free rt (obj_shape ob); Some (rt\<lparr>objects := (objects rt)(p := None)\<rparr>) }"

end
