(* ===== verification/Object_Inv.thy ===== *)
theory Object_Inv
  imports Object_Model
begin

text \<open>
  The invariant of a runtime with shapes and objects: the counts of the shapes, the table and the
  sizes of the objects, and what each step on shapes does to it. What a program can see of an
  object is its prototype and its list of properties, the \<open>view\<close>.
\<close>

subsection \<open>What the program sees of an object\<close>

text \<open>The prototype and the properties in use, in the order in which they were added.\<close>

definition entries :: "(u32 \<times> nat) list \<Rightarrow> 'v option list \<Rightarrow> (u32 \<times> nat \<times> 'v option) list" where
  "entries ns vs = map (\<lambda>((a, f), v). (a, f, v)) (filter (\<lambda>((a, f), v). a \<noteq> JS_ATOM_NULL) (zip ns vs))"

definition view :: "('m, 'v) shape_runtime \<Rightarrow> nat \<Rightarrow> (u64 \<times> (u32 \<times> nat \<times> 'v option) list) option" where
  "view rt p =
     (case objects rt p of
        None \<Rightarrow> None
      | Some ob \<Rightarrow> map_option (\<lambda>sh. (proto sh, entries (names (sh_prop sh)) (obj_prop ob))) (shapes rt (obj_shape ob)))"

definition sig_of :: "JSShape \<Rightarrow> u64 \<times> (u32 \<times> nat) list" where
  "sig_of sh = (proto sh, names (sh_prop sh))"

lemma view_sig:
  "view rt p = (case objects rt p of None \<Rightarrow> None
     | Some ob \<Rightarrow> map_option (\<lambda>s. (fst s, entries (snd s) (obj_prop ob))) (map_option sig_of (shapes rt (obj_shape ob))))"
  by (simp add: view_def sig_of_def option.map_comp comp_def split: option.splits)

lemma view_cong:
  assumes "objects rt' q = objects rt q" and "\<And>ob. objects rt q = Some ob \<Longrightarrow> map_option sig_of (shapes rt' (obj_shape ob)) = map_option sig_of (shapes rt (obj_shape ob))"
  shows "view rt' q = view rt q"
  using assms by (simp add: view_sig split: option.splits)

lemma sig_same_shapes: "same_shapes S S' \<Longrightarrow> map_option sig_of (S' a) = map_option sig_of (S a)"
proof -
  assume "same_shapes S S'"
  then have "map_option unchained (S' a) = map_option unchained (S a)" by (simp add: same_shapes_def)
  then have "map_option sig_of (map_option unchained (S' a)) = map_option sig_of (map_option unchained (S a))" by (rule arg_cong)
  moreover have "sig_of \<circ> unchained = sig_of" by (auto simp: sig_of_def unchained_def)
  ultimately show ?thesis by (simp add: option.map_comp)
qed

lemma shape_ok_upd [simp]:
  "shape_ok (sh\<lparr>shape_hash_next := v\<rparr>) = shape_ok sh" "shape_ok (sh\<lparr>shape_refs := r\<rparr>) = shape_ok sh"
  "shape_ok (sh\<lparr>is_hashed := b\<rparr>) = shape_ok sh" "shape_ok (sh\<lparr>sh_hash := h\<rparr>) = shape_ok sh"
  by (simp_all add: shape_ok_def prop_count_def)

subsection \<open>The invariant\<close>

definition users :: "('m, 'v) shape_runtime \<Rightarrow> nat \<Rightarrow> nat set" where
  "users rt a = {p. \<exists>ob. objects rt p = Some ob \<and> obj_shape ob = a}"

definition hashed :: "(nat \<Rightarrow> JSShape option) \<Rightarrow> nat set" where
  "hashed S = {a. \<exists>sh. S a = Some sh \<and> is_hashed sh}"

text \<open>
  The shapes \<open>D\<close> are in the table, and the count of a shape is the number of the objects that use
  it plus \<open>E\<close>, the references that the running operation holds. A shape that is not hashed has one
  user. There are fewer than \<open>2 ^ 31 - 1\<close> objects, so the counts do not overflow.
\<close>

definition sh_inv :: "int \<Rightarrow> JSShape \<Rightarrow> bool" where
  "sh_inv n sh \<longleftrightarrow> shape_ok sh \<and> shape_refs sh = n \<and> 0 < shape_refs sh \<and> (is_hashed sh \<or> shape_refs sh = 1)"

definition inv :: "('m, 'v) shape_runtime \<Rightarrow> nat set \<Rightarrow> (nat \<Rightarrow> int) \<Rightarrow> bool" where
  "inv rt D E \<longleftrightarrow>
     table_part (shapes rt) D (shape_hash_tab rt) (shape_hash_bits rt) \<and>
     finite (dom (objects rt)) \<and> card (dom (objects rt)) < 2 ^ 31 - 1 \<and>
     (\<forall>a sh. shapes rt a = Some sh \<longrightarrow> sh_inv (int (card (users rt a)) + E a) sh) \<and>
     (\<forall>a. 0 \<le> E a \<and> E a \<le> 1 \<and> (shapes rt a = None \<longrightarrow> E a = 0)) \<and>
     (\<forall>p ob. objects rt p = Some ob \<longrightarrow> (\<exists>sh. shapes rt (obj_shape ob) = Some sh \<and> prop_size sh \<le> length (obj_prop ob)))"

lemma invD:
  assumes "inv rt D E"
  shows "table_part (shapes rt) D (shape_hash_tab rt) (shape_hash_bits rt)" "finite (dom (objects rt))" "card (dom (objects rt)) < 2 ^ 31 - 1"
    "shapes rt a = Some sh \<Longrightarrow> shape_ok sh \<and> shape_refs sh = int (card (users rt a)) + E a \<and> 0 < shape_refs sh \<and> (is_hashed sh \<or> shape_refs sh = 1)"
    "0 \<le> E a \<and> E a \<le> 1" "shapes rt a = None \<Longrightarrow> E a = 0"
    "objects rt p = Some ob \<Longrightarrow> \<exists>sh. shapes rt (obj_shape ob) = Some sh \<and> prop_size sh \<le> length (obj_prop ob)"
  using assms unfolding inv_def sh_inv_def by blast+

lemma inv_sh: "inv rt D E \<Longrightarrow> shapes rt a = Some sh \<Longrightarrow> sh_inv (int (card (users rt a)) + E a) sh"
  unfolding inv_def by blast

lemma invI:
  assumes "table_part (shapes rt) D (shape_hash_tab rt) (shape_hash_bits rt)" and "finite (dom (objects rt))" and "card (dom (objects rt)) < 2 ^ 31 - 1"
    and "\<And>a sh. shapes rt a = Some sh \<Longrightarrow> sh_inv (int (card (users rt a)) + E a) sh"
    and "\<And>a. 0 \<le> E a \<and> E a \<le> 1" and "\<And>a. shapes rt a = None \<Longrightarrow> E a = 0"
    and "\<And>p ob. objects rt p = Some ob \<Longrightarrow> \<exists>sh. shapes rt (obj_shape ob) = Some sh \<and> prop_size sh \<le> length (obj_prop ob)"
  shows "inv rt D E"
  using assms unfolding inv_def by blast

lemma finite_users: "inv rt D E \<Longrightarrow> finite (users rt a)"
  by (rule finite_subset [OF _ invD(2) [of rt D E]]) (auto simp: users_def)

lemma refs_bound: "inv rt D E \<Longrightarrow> shapes rt a = Some sh \<Longrightarrow> shape_refs sh < 2 ^ 31 - 1 + E a"
proof -
  assume i: "inv rt D E" and a: "shapes rt a = Some sh"
  have "card (users rt a) \<le> card (dom (objects rt))" using invD(2) [OF i] by (intro card_mono) (auto simp: users_def)
  then have "int (card (users rt a)) < 2 ^ 31 - 1" using invD(3) [OF i] by simp
  then show ?thesis using invD(4) [OF i a] by simp
qed

text \<open>Only the chains change.\<close>

lemma inv_chains:
  assumes i: "inv rt D E" and s: "same_shapes (shapes rt) S" and t: "table_part S D' tab bits"
  shows "inv (rt\<lparr>rt_mem := m, shapes := S, shape_hash_tab := tab, shape_hash_bits := bits, shape_hash_count := c\<rparr>) D' E"
    (is "inv ?rt D' E")
proof -
  have u: "users ?rt a = users rt a" for a by (simp add: users_def)
  have "sh_inv (int (card (users rt a)) + E a) sh" if a: "S a = Some sh" for a sh
  proof -
    obtain sh0 where sh0: "shapes rt a = Some sh0" using same_shapes_None [OF s] a by (metis not_None_eq)
    obtain v where "sh = sh0\<lparr>shape_hash_next := v\<rparr>" using same_shapesD [OF s sh0] a by auto
    then show ?thesis using invD(4) [OF i sh0] by (auto simp: sh_inv_def)
  qed
  moreover have "E a = 0" if "S a = None" for a using invD(6) [OF i] same_shapes_None [OF s] that by blast
  moreover have "\<exists>sh. S (obj_shape ob) = Some sh \<and> prop_size sh \<le> length (obj_prop ob)" if p: "objects rt p = Some ob" for p ob
  proof -
    obtain sh where sh: "shapes rt (obj_shape ob) = Some sh" "prop_size sh \<le> length (obj_prop ob)" using invD(7) [OF i p] by blast
    then obtain v where "S (obj_shape ob) = Some (sh\<lparr>shape_hash_next := v\<rparr>)" using same_shapesD [OF s sh(1)] by blast
    then show ?thesis using sh(2) by simp
  qed
  ultimately show ?thesis using invD(2,3,5) [OF i] t by (intro invI) (simp_all add: u)
qed

lemma inv_mem: "inv rt D E \<Longrightarrow> inv (rt\<lparr>rt_mem := m\<rparr>) D E"
proof -
  assume i: "inv rt D E"
  show "inv (rt\<lparr>rt_mem := m\<rparr>) D E"
    using inv_chains [OF i same_shapes_refl invD(1) [OF i], where m = m and c = "shape_hash_count rt"] by simp
qed

lemma view_mem [simp]: "view (rt\<lparr>rt_mem := m\<rparr>) = view rt"
  by (auto simp: view_def split: option.splits)

lemma link_inv:
  assumes i: "inv rt D E" and a: "a \<notin> D" "shapes rt a = Some sh"
  shows "\<exists>rt' v. js_shape_hash_link rt a = Some rt' \<and> inv rt' (insert a D) E \<and> objects rt' = objects rt \<and>
     shapes rt' = (shapes rt)(a \<mapsto> sh\<lparr>shape_hash_next := v\<rparr>)"
proof -
  obtain v tab where 1: "js_shape_hash_link rt a = Some (rt\<lparr>shapes := (shapes rt)(a \<mapsto> sh\<lparr>shape_hash_next := v\<rparr>), shape_hash_tab := tab, shape_hash_count := shape_hash_count rt + 1\<rparr>)"
      "table_part ((shapes rt)(a \<mapsto> sh\<lparr>shape_hash_next := v\<rparr>)) (insert a D) tab (shape_hash_bits rt)"
    using hash_link_ok [OF invD(1) [OF i] a] by blast
  have "inv (rt\<lparr>rt_mem := rt_mem rt, shapes := (shapes rt)(a \<mapsto> sh\<lparr>shape_hash_next := v\<rparr>), shape_hash_tab := tab, shape_hash_bits := shape_hash_bits rt,
      shape_hash_count := shape_hash_count rt + 1\<rparr>) (insert a D) E"
    by (rule inv_chains [OF i same_shapes_upd [of "shapes rt" a sh v] 1(2)]) (rule a(2))
  then show ?thesis using 1(1) by auto
qed

lemma unlink_inv:
  assumes i: "inv rt D E" and a: "a \<in> D" "shapes rt a = Some sh"
  shows "\<exists>rt'. js_shape_hash_unlink rt a = Some rt' \<and> inv rt' (D - {a}) E \<and> objects rt' = objects rt \<and>
     same_shapes (shapes rt) (shapes rt') \<and> shapes rt' a = Some sh"
proof -
  obtain S tab where 1: "js_shape_hash_unlink rt a = Some (rt\<lparr>shapes := S, shape_hash_tab := tab, shape_hash_count := shape_hash_count rt - 1\<rparr>)"
      "table_part S (D - {a}) tab (shape_hash_bits rt)" "same_shapes (shapes rt) S" "S a = Some sh"
    using hash_unlink_ok [OF invD(1) [OF i] a] by blast
  have "inv (rt\<lparr>rt_mem := rt_mem rt, shapes := S, shape_hash_tab := tab, shape_hash_bits := shape_hash_bits rt,
      shape_hash_count := shape_hash_count rt - 1\<rparr>) (D - {a}) E"
    by (rule inv_chains [OF i 1(3,2)])
  then show ?thesis using 1(1,3,4) by auto
qed

text \<open>Taking and giving references to a shape.\<close>

lemma users_set_object:
  "users (set_object rt p ob) a = (if obj_shape ob = a then insert p (users rt a) else users rt a - {p})"
  by (auto simp: users_def set_object_def)

lemma users_shapes [simp]: "users (rt\<lparr>shapes := S\<rparr>) = users rt" "users (set_shape rt a sh) = users rt" "users (move_shape_to rt a b sh) = users rt"
  by (auto simp: users_def set_shape_def move_shape_to_def)

lemma dup_inv:
  assumes i: "inv rt D E" and b: "shapes rt b = Some sh" "E b = 0" "is_hashed sh"
  shows "\<exists>rt'. js_dup_shape rt b = Some rt' \<and> inv rt' D (E(b := 1)) \<and> objects rt' = objects rt \<and>
     shapes rt' = (shapes rt)(b \<mapsto> sh\<lparr>shape_refs := shape_refs sh + 1\<rparr>)"
proof -
  let ?sh = "sh\<lparr>shape_refs := shape_refs sh + 1\<rparr>" and ?rt = "set_shape rt b (sh\<lparr>shape_refs := shape_refs sh + 1\<rparr>)"
  have "shape_refs sh + 1 < 2 ^ 31" "0 < shape_refs sh" using refs_bound [OF i b(1)] invD(4) [OF i b(1)] b(2) by simp_all
  then have d: "js_dup_shape rt b = Some ?rt" using b(1) by (simp add: js_dup_shape_def)
  have "inv ?rt D (E(b := 1))"
  proof (rule invI)
    show "table_part (shapes ?rt) D (shape_hash_tab ?rt) (shape_hash_bits ?rt)"
      using table_part_upd [OF invD(1) [OF i] b(1), of ?sh] by (simp add: set_shape_def del: fun_upd_apply)
    show "sh_inv (int (card (users ?rt a)) + (E(b := 1)) a) x" if "shapes ?rt a = Some x" for a x
    proof (cases "a = b")
      case True
      then show ?thesis using that invD(4) [OF i b(1)] b by (auto simp: set_shape_def sh_inv_def)
    next
      case False
      then show ?thesis using that inv_sh [OF i, of a x] by (simp add: set_shape_def)
    qed
    show "0 \<le> (E(b := 1)) a \<and> (E(b := 1)) a \<le> 1" for a using invD(5) [OF i] by simp
    show "(E(b := 1)) a = 0" if "shapes ?rt a = None" for a using that invD(6) [OF i] by (auto simp: set_shape_def split: if_splits)
    show "\<exists>x. shapes ?rt (obj_shape ob) = Some x \<and> prop_size x \<le> length (obj_prop ob)" if "objects ?rt p = Some ob" for p ob
      using that invD(7) [OF i, of p ob] b(1) by (auto simp: set_shape_def)
  qed (use invD(2,3) [OF i] in \<open>simp_all add: set_shape_def\<close>)
  then show ?thesis using d by (auto simp: set_shape_def)
qed

lemma point_inv:
  assumes i: "inv rt D E" and p: "objects rt p = Some ob" "obj_shape ob = a" and ab: "a \<noteq> b" "E a = 0" "E b = 1"
    and ob': "obj_shape ob' = b" "shapes rt b = Some sh" "prop_size sh \<le> length (obj_prop ob')"
  shows "inv (set_object rt p ob') D (E(b := 0, a := 1))"
proof (rule invI)
  let ?rt = "set_object rt p ob'"
  have fu: "finite (users rt x)" for x by (rule finite_users [OF i])
  have pu: "p \<in> users rt a" "p \<notin> users rt b" "\<And>x. x \<noteq> a \<Longrightarrow> p \<notin> users rt x" using p ab by (auto simp: users_def)
  have d: "dom (objects ?rt) = dom (objects rt)" using p(1) by (auto simp: set_object_def)
  have c: "int (card (users ?rt x)) + (E(b := 0, a := 1)) x = int (card (users rt x)) + E x" for x
  proof -
    have "int (card (users rt a - {p})) + 1 = int (card (users rt a))" using card_Suc_Diff1 [OF fu pu(1)] by linarith
    moreover have "users ?rt a = users rt a - {p}" "users ?rt b = insert p (users rt b)" using ob'(1) ab(1) by (simp_all add: users_set_object)
    moreover have "card (insert p (users rt b)) = Suc (card (users rt b))" using pu(2) fu by simp
    moreover have "users ?rt x = users rt x" if "x \<noteq> a" "x \<noteq> b"
      using pu(3) [OF that(1)] that ob'(1) by (simp add: users_set_object)
    ultimately show ?thesis using ab by (cases "x = a"; cases "x = b") (simp_all only: fun_upd_apply if_True if_False, simp_all)
  qed
  show "sh_inv (int (card (users ?rt x)) + (E(b := 0, a := 1)) x) s" if "shapes ?rt x = Some s" for x s
    unfolding c using that inv_sh [OF i, of x s] by (simp add: set_object_def)
  show "finite (dom (objects ?rt))" "card (dom (objects ?rt)) < 2 ^ 31 - 1" using invD(2,3) [OF i] d by simp_all
  show "(E(b := 0, a := 1)) x = 0" if "shapes ?rt x = None" for x
    using that invD(6) [OF i, of x] invD(7) [OF i p(1)] p(2) by (auto simp: set_object_def)
  show "\<exists>s. shapes ?rt (obj_shape o2) = Some s \<and> prop_size s \<le> length (obj_prop o2)" if "objects ?rt q = Some o2" for q o2
    using that invD(7) [OF i, of q o2] ob' by (auto simp: set_object_def split: if_splits)
qed (use invD(1,5) [OF i] in \<open>simp_all add: set_object_def\<close>)

text \<open>Giving up the reference held by the operation; the last one frees the shape.\<close>

lemma free_keep_inv:
  assumes i: "inv rt D E" and a: "shapes rt a = Some sh" "E a = 1" "shape_refs sh \<noteq> 1"
  shows "inv (set_shape rt a (sh\<lparr>shape_refs := shape_refs sh - 1\<rparr>)) D (E(a := 0))" (is "inv ?rt D _")
proof (rule invI)
  let ?sh = "sh\<lparr>shape_refs := shape_refs sh - 1\<rparr>"
  note r = invD(4) [OF i a(1)]
  show "table_part (shapes ?rt) D (shape_hash_tab ?rt) (shape_hash_bits ?rt)"
    using table_part_upd [OF invD(1) [OF i] a(1), of ?sh] by (simp add: set_shape_def del: fun_upd_apply)
  show "sh_inv (int (card (users ?rt x)) + (E(a := 0)) x) s" if "shapes ?rt x = Some s" for x s
  proof (cases "x = a")
    case True
    then show ?thesis using that r a by (auto simp: set_shape_def sh_inv_def)
  next
    case False
    then show ?thesis using that inv_sh [OF i, of x s] by (simp add: set_shape_def)
  qed
  show "0 \<le> (E(a := 0)) x \<and> (E(a := 0)) x \<le> 1" for x using invD(5) [OF i, of x] by simp
  show "(E(a := 0)) x = 0" if "shapes ?rt x = None" for x using that invD(6) [OF i, of x] by (auto simp: set_shape_def split: if_splits)
  show "\<exists>s. shapes ?rt (obj_shape o2) = Some s \<and> prop_size s \<le> length (obj_prop o2)" if "objects ?rt q = Some o2" for q o2
    using that invD(7) [OF i, of q o2] a(1) by (auto simp: set_shape_def)
qed (use invD(2,3) [OF i] in \<open>simp_all add: set_shape_def\<close>)

lemma drop_shape_inv:
  assumes i: "inv rt D E" and a: "users rt a = {}" and ob: "objects rt' = objects rt"
    and t: "table_part (shapes rt') D' (shape_hash_tab rt') (shape_hash_bits rt')" "a \<notin> D'"
    and S: "same_shapes (shapes rt) S" "(shapes rt')(a := None) = S(a := None)"
  shows "inv (rt'\<lparr>shapes := (shapes rt')(a := None)\<rparr>) D' (E(a := 0))" (is "inv ?rt _ _")
proof (rule invI)
  have u: "users ?rt x = users rt x" for x using ob by (simp add: users_def)
  have same: "\<exists>s0 v. shapes rt x = Some s0 \<and> s = s0\<lparr>shape_hash_next := v\<rparr> \<and> x \<noteq> a" if "shapes ?rt x = Some s" for x s
  proof -
    have x: "S x = Some s" "x \<noteq> a" using that by (auto simp: S(2) split: if_splits)
    then obtain s0 where "shapes rt x = Some s0" using same_shapes_None [OF S(1), of x] by (metis not_None_eq)
    then show ?thesis using same_shapesD [OF S(1)] x by (metis option.inject)
  qed
  show "table_part (shapes ?rt) D' (shape_hash_tab ?rt) (shape_hash_bits ?rt)"
    using table_part_other [OF t, of None] by (simp del: fun_upd_apply)
  show "sh_inv (int (card (users ?rt x)) + (E(a := 0)) x) s" if "shapes ?rt x = Some s" for x s
    using same [OF that] inv_sh [OF i, of x] unfolding u by (auto simp: sh_inv_def)
  show "0 \<le> (E(a := 0)) x \<and> (E(a := 0)) x \<le> 1" for x using invD(5) [OF i, of x] by simp
  show "(E(a := 0)) x = 0" if "shapes ?rt x = None" for x
    using that invD(6) [OF i, of x] same_shapes_None [OF S(1), of x] by (auto simp: S(2) split: if_splits)
  show "\<exists>s. shapes ?rt (obj_shape o2) = Some s \<and> prop_size s \<le> length (obj_prop o2)" if q: "objects ?rt q = Some o2" for q o2
  proof -
    have q': "objects rt q = Some o2" using q ob by simp
    then obtain s where s: "shapes rt (obj_shape o2) = Some s" "prop_size s \<le> length (obj_prop o2)" using invD(7) [OF i] by blast
    have "obj_shape o2 \<noteq> a" using a q' by (auto simp: users_def)
    moreover obtain v where "S (obj_shape o2) = Some (s\<lparr>shape_hash_next := v\<rparr>)" using same_shapesD [OF S(1) s(1)] by blast
    ultimately show ?thesis using s(2) by (simp add: S(2))
  qed
qed (use invD(2,3) [OF i] ob in simp_all)

text \<open>The unlinking of a shape whose count has reached zero.\<close>

lemma free_unlink:
  assumes i: "inv rt D E" and a: "shapes rt a = Some sh" and h: "is_hashed sh \<longleftrightarrow> a \<in> D"
  defines "rt0 \<equiv> set_shape rt a (sh\<lparr>shape_refs := 0\<rparr>)"
  shows "\<exists>rt1. (if is_hashed sh then js_shape_hash_unlink rt0 a else Some rt0) = Some rt1 \<and> objects rt1 = objects rt \<and>
     same_shapes (shapes rt0) (shapes rt1) \<and> table_part (shapes rt1) (D - {a}) (shape_hash_tab rt1) (shape_hash_bits rt1)"
proof -
  have t0: "table_part (shapes rt0) D (shape_hash_tab rt0) (shape_hash_bits rt0)"
    using table_part_upd [OF invD(1) [OF i] a, of "sh\<lparr>shape_refs := 0\<rparr>"] by (simp add: rt0_def set_shape_def del: fun_upd_apply)
  have Sa: "shapes rt0 a = Some (sh\<lparr>shape_refs := 0\<rparr>)" and ob: "objects rt0 = objects rt" by (simp_all add: rt0_def set_shape_def)
  show ?thesis
  proof (cases "is_hashed sh")
    case True
    then have "a \<in> D" using h by simp
    from hash_unlink_ok [OF t0 this Sa] show ?thesis using True ob by auto
  next
    case False
    then show ?thesis using h t0 ob by simp
  qed
qed

lemma free_inv:
  assumes i: "inv rt D E" and a: "shapes rt a = Some sh" "E a = 1" and h: "is_hashed sh \<longleftrightarrow> a \<in> D"
  shows "\<exists>rt' S. shape_free rt a = Some rt' \<and> objects rt' = objects rt \<and> same_shapes (shapes rt) S \<and>
     (if shape_refs sh = 1 then inv rt' (D - {a}) (E(a := 0)) \<and> shapes rt' = S(a := None)
      else inv rt' D (E(a := 0)) \<and> S = shapes rt \<and> shapes rt' = S(a \<mapsto> sh\<lparr>shape_refs := shape_refs sh - 1\<rparr>))"
proof -
  have r: "0 < shape_refs sh" "shape_refs sh < 2 ^ 31" "shape_refs sh = int (card (users rt a)) + 1"
    using refs_bound [OF i a(1)] invD(4) [OF i a(1)] a(2) by simp_all
  have c: "cint (shape_refs sh - 1) = Some (shape_refs sh - 1)" using r by simp
  show ?thesis
  proof (cases "shape_refs sh = 1")
    case False
    let ?rt = "set_shape rt a (sh\<lparr>shape_refs := shape_refs sh - 1\<rparr>)"
    have "shape_free rt a = Some ?rt" using a(1) c r(1) False by (simp add: shape_free_def Let_def)
    then show ?thesis using False free_keep_inv [OF i a False] by (intro exI [of _ ?rt] exI [of _ "shapes rt"]) (simp add: set_shape_def)
  next
    case True
    let ?rt = "set_shape rt a (sh\<lparr>shape_refs := 0\<rparr>)"
    have nu: "users rt a = {}" using r(3) True finite_users [OF i, of a] by simp
    obtain rt1 where 1: "(if is_hashed sh then js_shape_hash_unlink ?rt a else Some ?rt) = Some rt1" "objects rt1 = objects rt"
        "same_shapes (shapes ?rt) (shapes rt1)" "table_part (shapes rt1) (D - {a}) (shape_hash_tab rt1) (shape_hash_bits rt1)"
      using free_unlink [OF i a(1) h] by blast
    let ?rt2 = "rt1\<lparr>shapes := (shapes rt1)(a := None)\<rparr>" and ?S = "(shapes rt1)(a \<mapsto> sh)"
    have ss: "same_shapes (shapes rt) ?S" using 1(3) a(1) by (auto simp: same_shapes_def set_shape_def)
    have "inv ?rt2 (D - {a}) (E(a := 0))" by (rule drop_shape_inv [OF i nu 1(2,4) _ ss]) simp_all
    moreover have "shape_free rt a = Some ?rt2" using a(1) c True 1(1)
      by (cases "is_hashed sh") (auto simp: shape_free_def shape_free0_def set_shape_def Let_def)
    ultimately show ?thesis using True ss 1(2) by (intro exI [of _ ?rt2] exI [of _ ?S]) simp
  qed
qed

text \<open>A new shape, referenced by the operation only.\<close>

lemma fresh_inv:
  assumes i: "inv rt D E" and b: "shapes rt b = None" and sh: "shape_ok sh" "shape_refs sh = 1"
  shows "inv (set_shape rt b sh) D (E(b := 1))"
proof (rule invI)
  let ?rt = "set_shape rt b sh"
  have nb: "b \<notin> D" using invD(1) [OF i] b by (auto simp: table_part_def)
  have nu: "users rt b = {}" using invD(7) [OF i] b by (fastforce simp: users_def)
  show "table_part (shapes ?rt) D (shape_hash_tab ?rt) (shape_hash_bits ?rt)"
    using table_part_other [OF invD(1) [OF i] nb, of "Some sh"] by (simp add: set_shape_def del: fun_upd_apply)
  show "sh_inv (int (card (users ?rt x)) + (E(b := 1)) x) s" if "shapes ?rt x = Some s" for x s
  proof (cases "x = b")
    case True
    then show ?thesis using that sh nu by (simp add: set_shape_def sh_inv_def)
  next
    case False
    then show ?thesis using that inv_sh [OF i, of x s] by (simp add: set_shape_def)
  qed
  show "0 \<le> (E(b := 1)) x \<and> (E(b := 1)) x \<le> 1" for x using invD(5) [OF i, of x] by simp
  show "(E(b := 1)) x = 0" if "shapes ?rt x = None" for x using that invD(6) [OF i, of x] by (auto simp: set_shape_def split: if_splits)
  show "\<exists>s. shapes ?rt (obj_shape o2) = Some s \<and> prop_size s \<le> length (obj_prop o2)" if "objects ?rt q = Some o2" for q o2
    using that invD(7) [OF i, of q o2] b by (auto simp: set_shape_def)
qed (use invD(2,3) [OF i] in \<open>simp_all add: set_shape_def\<close>)

lemma malloc_shape_inv:
  assumes al: "alloc_ok alloc" and i: "inv rt D E"
  obtains r m where "js_malloc_shape alloc rt n = (r, rt\<lparr>rt_mem := m\<rparr>)" "inv (rt\<lparr>rt_mem := m\<rparr>) D E"
    "\<And>b. r = Some b \<Longrightarrow> shapes rt b = None \<and> n < 2 ^ 29"
proof -
  obtain r m where rm: "alloc (rt_mem rt) (\<lambda>a. shapes rt a = None) n = (r, m)" by fastforce
  have "shapes rt b = None \<and> n < 2 ^ 29" if "r = Some b" for b using al rm that unfolding alloc_ok_def by blast
  moreover have "js_malloc_shape alloc rt n = (r, rt\<lparr>rt_mem := m\<rparr>)" using rm by (simp add: js_malloc_shape_def)
  ultimately show ?thesis using that inv_mem [OF i] by blast
qed

lemma clone_inv:
  assumes al: "alloc_ok alloc" and i: "inv rt D E" and a: "shapes rt a = Some sh"
  shows "\<exists>r rt'. js_clone_shape alloc rt a = Some (r, rt') \<and> objects rt' = objects rt \<and>
     (case r of None \<Rightarrow> inv rt' D E \<and> shapes rt' = shapes rt
      | Some b \<Rightarrow> inv rt' D (E(b := 1)) \<and> shapes rt b = None \<and> shapes rt' = (shapes rt)(b \<mapsto> sh\<lparr>shape_refs := 1, is_hashed := False\<rparr>))"
proof -
  let ?n = "get_shape_size (unat (prop_hash_mask sh) + 1) (prop_size sh)"
  obtain r m where 1: "js_malloc_shape alloc rt ?n = (r, rt\<lparr>rt_mem := m\<rparr>)" "inv (rt\<lparr>rt_mem := m\<rparr>) D E"
      "\<And>b. r = Some b \<Longrightarrow> shapes rt b = None \<and> ?n < 2 ^ 29"
    using malloc_shape_inv [OF al i] by blast
  show ?thesis
  proof (cases r)
    case None
    then show ?thesis using 1 a by (simp add: js_clone_shape_def)
  next
    case (Some b)
    let ?sh = "sh\<lparr>shape_refs := 1, is_hashed := False\<rparr>"
    have "inv (set_shape (rt\<lparr>rt_mem := m\<rparr>) b ?sh) D (E(b := 1))"
      using fresh_inv [OF 1(2), of b ?sh] 1(3) [OF Some] invD(4) [OF i a] by simp
    then show ?thesis using 1 a Some by (simp add: js_clone_shape_def set_shape_def)
  qed
qed

text \<open>The only user of a shape that is not in the table changes it, or moves it.\<close>

lemma own_inv:
  assumes i: "inv rt D E" and p: "objects rt p = Some ob" "obj_shape ob = a" "shapes rt a = Some sh" "shape_refs sh = 1" "E a = 0"
    and a: "a \<notin> D" and b: "b = a \<or> shapes rt b = None"
    and sh': "shape_ok sh'" "shape_refs sh' = 1" and ob': "obj_shape ob' = b" "prop_size sh' \<le> length (obj_prop ob')"
  shows "inv (set_object (move_shape_to rt a b sh') p ob') D E" "users rt a = {p}"
proof -
  let ?rt = "set_object (move_shape_to rt a b sh') p ob'"
  have "card (users rt a) = 1" using invD(4) [OF i p(3)] p(4,5) by simp
  moreover have "p \<in> users rt a" using p(1,2) by (auto simp: users_def)
  ultimately show ua: "users rt a = {p}" by (metis card_1_singletonE singletonD)
  have ub: "users rt b = {}" if "b \<noteq> a" using invD(7) [OF i] b that by (fastforce simp: users_def)
  have nb: "b \<notin> D" using invD(1) [OF i] b a by (auto simp: table_part_def)
  have u: "users ?rt x = (if x = b then {p} else if x = a then {} else users rt x)" for x
  proof -
    have "p \<notin> users rt x" if "x \<noteq> a" using p(1,2) that by (auto simp: users_def)
    then show ?thesis using ua ub ob'(1) by (cases "x = b"; cases "x = a") (simp_all add: users_set_object)
  qed
  have d: "dom (objects ?rt) = dom (objects rt)" using p(1) by (auto simp: set_object_def move_shape_to_def)
  have sx: "shapes ?rt x = (if x = b then Some sh' else if x = a then None else shapes rt x)" for x
    by (simp add: set_object_def move_shape_to_def)
  have Eb: "E b = 0" using b p(5) invD(6) [OF i] by blast
  show "inv ?rt D E"
  proof (rule invI)
    have "table_part ((shapes rt)(a := None, b \<mapsto> sh')) D (shape_hash_tab rt) (shape_hash_bits rt)"
      by (intro table_part_other invD(1) [OF i] a nb)
    then show "table_part (shapes ?rt) D (shape_hash_tab ?rt) (shape_hash_bits ?rt)" by (simp add: set_object_def move_shape_to_def del: fun_upd_apply)
    show "finite (dom (objects ?rt))" "card (dom (objects ?rt)) < 2 ^ 31 - 1" using invD(2,3) [OF i] d by simp_all
    show "sh_inv (int (card (users ?rt x)) + E x) s" if "shapes ?rt x = Some s" for x s
      using that sh' Eb inv_sh [OF i, of x s] unfolding u sx by (auto simp: sh_inv_def split: if_splits)
    show "0 \<le> E x \<and> E x \<le> 1" for x by (rule invD(5) [OF i])
    show "E x = 0" if "shapes ?rt x = None" for x using that p(5) invD(6) [OF i, of x] unfolding sx by (auto split: if_splits)
    show "\<exists>s. shapes ?rt (obj_shape o2) = Some s \<and> prop_size s \<le> length (obj_prop o2)" if q: "objects ?rt q = Some o2" for q o2
    proof (cases "q = p")
      case True
      then have "o2 = ob'" using q by (simp add: set_object_def)
      then show ?thesis using ob' unfolding sx by simp
    next
      case False
      then have q': "objects rt q = Some o2" using q by (simp add: set_object_def move_shape_to_def)
      then have "obj_shape o2 \<noteq> a" using ua False by (auto simp: users_def)
      moreover have "obj_shape o2 \<noteq> b" if "b \<noteq> a" using ub [OF that] q' by (auto simp: users_def)
      ultimately show ?thesis using invD(7) [OF i q'] unfolding sx by auto
    qed
  qed
qed

end
