(* ===== verification/Object_Props.thy ===== *)
theory Object_Props
  imports Object_Inv
begin

subsection \<open>Adding a property to the own shape\<close>

text \<open>Nothing that the program can see has changed.\<close>

lemma malloc_block_inv:
  assumes al: "alloc_ok alloc" and i: "inv rt D E"
  obtains ok m where "js_malloc_block alloc rt n = (ok, rt\<lparr>rt_mem := m\<rparr>)" "inv (rt\<lparr>rt_mem := m\<rparr>) D E" "ok \<Longrightarrow> n < 2 ^ 29"
proof -
  obtain r m where rm: "alloc (rt_mem rt) (\<lambda>a. True) n = (r, m)" by fastforce
  have "n < 2 ^ 29" if "r \<noteq> None" using al rm that unfolding alloc_ok_def by blast
  moreover have "js_malloc_block alloc rt n = (r \<noteq> None, rt\<lparr>rt_mem := m\<rparr>)" using rm by (simp add: js_malloc_block_def)
  ultimately show ?thesis using that inv_mem [OF i] by blast
qed

lemma length_resize_values [simp]: "length (resize_values n vs) = n"
  by (simp add: resize_values_def)

lemma entries_resize: "length ns \<le> length vs \<Longrightarrow> length ns \<le> n \<Longrightarrow> entries ns (resize_values n vs) = entries ns vs"
proof -
  assume l: "length ns \<le> length vs" "length ns \<le> n"
  have "zip ns (resize_values n vs) = zip ns vs"
  proof (rule nth_equalityI)
    fix i assume "i < length (zip ns (resize_values n vs))"
    then show "zip ns (resize_values n vs) ! i = zip ns vs ! i" using l by (simp add: resize_values_def nth_append)
  qed (use l in simp)
  then show ?thesis by (simp add: entries_def)
qed

lemma values_inv:
  assumes i: "inv rt D E" and p: "objects rt p = Some ob" and s: "obj_shape ob' = obj_shape ob"
    and sh: "shapes rt (obj_shape ob) = Some sh" "prop_size sh \<le> length (obj_prop ob')"
  shows "inv (set_object rt p ob') D E"
proof (rule invI)
  let ?rt = "set_object rt p ob'"
  have u: "users ?rt x = users rt x" for x using p s by (auto simp: users_def set_object_def split: if_splits)
  have d: "dom (objects ?rt) = dom (objects rt)" using p by (auto simp: set_object_def)
  show "finite (dom (objects ?rt))" "card (dom (objects ?rt)) < 2 ^ 31 - 1" using invD(2,3) [OF i] d by simp_all
  show "sh_inv (int (card (users ?rt x)) + E x) t" if "shapes ?rt x = Some t" for x t
    unfolding u using inv_sh [OF i, of x t] that by (simp add: set_object_def)
  show "\<exists>t. shapes ?rt (obj_shape o2) = Some t \<and> prop_size t \<le> length (obj_prop o2)" if "objects ?rt q = Some o2" for q o2
    using that invD(7) [OF i, of q o2] s sh by (auto simp: set_object_def split: if_splits)
qed (use invD(1,5,6) [OF i] in \<open>simp_all add: set_object_def\<close>)

lemma realloc_values_inv:
  assumes al: "alloc_ok alloc" and i: "inv rt D E" and p: "objects rt p = Some ob" "shapes rt (obj_shape ob) = Some sh" and n: "prop_size sh \<le> n"
  shows "\<exists>ok rt' vs. js_realloc_values alloc rt p n = Some (ok, rt') \<and> inv rt' D E \<and> shapes rt' = shapes rt \<and>
     objects rt' = (objects rt)(p \<mapsto> ob\<lparr>obj_prop := vs\<rparr>) \<and> (ok \<longrightarrow> vs = resize_values n (obj_prop ob) \<and> 16 * n < 2 ^ 29) \<and> (\<not> ok \<longrightarrow> vs = obj_prop ob)"
proof -
  obtain ok m where 1: "js_malloc_block alloc rt (16 * n) = (ok, rt\<lparr>rt_mem := m\<rparr>)" "inv (rt\<lparr>rt_mem := m\<rparr>) D E" "ok \<Longrightarrow> 16 * n < 2 ^ 29"
    using malloc_block_inv [OF al i] by blast
  show ?thesis
  proof (cases ok)
    case True
    have "inv (set_object (rt\<lparr>rt_mem := m\<rparr>) p (ob\<lparr>obj_prop := resize_values n (obj_prop ob)\<rparr>)) D E"
      by (rule values_inv [OF 1(2)]) (use p n in simp_all)
    then show ?thesis using True 1 p
      by (intro exI [of _ True] exI [of _ "set_object (rt\<lparr>rt_mem := m\<rparr>) p (ob\<lparr>obj_prop := resize_values n (obj_prop ob)\<rparr>)"]
          exI [of _ "resize_values n (obj_prop ob)"]) (simp add: js_realloc_values_def set_object_def)
  next
    case False
    then show ?thesis using 1 p by (auto simp: js_realloc_values_def fun_upd_idem)
  qed
qed

text \<open>Moving or changing the own shape keeps the views of the other objects.\<close>

lemma own_views:
  assumes i: "inv rt D E" and p: "objects rt p = Some ob" "obj_shape ob = a" and u: "users rt a = {p}" and b: "b = a \<or> shapes rt b = None"
    and q: "q \<noteq> p"
  shows "view (set_object (move_shape_to rt a b sh') p ob') q = view rt q"
proof (rule view_cong)
  show "objects (set_object (move_shape_to rt a b sh') p ob') q = objects rt q" using q by (simp add: set_object_def move_shape_to_def)
  fix o2 assume o2: "objects rt q = Some o2"
  have "obj_shape o2 \<noteq> a" using u o2 q by (auto simp: users_def)
  moreover obtain s where "shapes rt (obj_shape o2) = Some s" using invD(7) [OF i o2] by blast
  ultimately show "map_option sig_of (shapes (set_object (move_shape_to rt a b sh') p ob') (obj_shape o2)) = map_option sig_of (shapes rt (obj_shape o2))"
    using b by (auto simp: set_object_def move_shape_to_def)
qed

lemma view_own: "view (set_object (move_shape_to rt a b sh) p ob) p = (if obj_shape ob = b then Some (proto sh, entries (names (sh_prop sh)) (obj_prop ob)) else view (set_object (move_shape_to rt a b sh) p ob) p)"
  by (simp add: view_def set_object_def move_shape_to_def)

definition owns :: "('m, 'v) shape_runtime \<Rightarrow> nat set \<Rightarrow> (nat \<Rightarrow> int) \<Rightarrow> nat \<Rightarrow> 'v JSObject \<Rightarrow> JSShape \<Rightarrow> bool" where
  "owns rt D E p ob sh \<longleftrightarrow>
     objects rt p = Some ob \<and> shapes rt (obj_shape ob) = Some sh \<and> shape_refs sh = 1 \<and> E (obj_shape ob) = 0 \<and> obj_shape ob \<notin> D"

lemma of_nat_mask: "0 < n \<Longrightarrow> n \<le> 2 ^ 32 \<Longrightarrow> unat (of_nat (n - 1) :: u32) + 1 = n"
proof (cases n)
  case (Suc k)
  moreover assume "n \<le> 2 ^ 32"
  ultimately have "k < 2 ^ 32" by simp
  then show ?thesis using Suc by (simp add: unsigned_of_nat take_bit_nat_eq_self)
qed simp

lemma resize_step:
  assumes al: "alloc_ok alloc" and i: "inv rt D E" and o: "owns rt D E p ob sh"
    and sh': "shape_ok sh'" "shape_refs sh' = 1" "names (sh_prop sh') = names (sh_prop sh)" "proto sh' = proto sh"
    and l: "prop_size sh' \<le> length (obj_prop ob)" and b: "b = obj_shape ob \<or> shapes rt b = None"
  shows "inv (set_object (move_shape_to rt (obj_shape ob) b sh') p (ob\<lparr>obj_shape := b\<rparr>)) D E"
    "owns (set_object (move_shape_to rt (obj_shape ob) b sh') p (ob\<lparr>obj_shape := b\<rparr>)) D E p (ob\<lparr>obj_shape := b\<rparr>) sh'"
    "view (set_object (move_shape_to rt (obj_shape ob) b sh') p (ob\<lparr>obj_shape := b\<rparr>)) q = view rt q"
proof -
  let ?rt = "set_object (move_shape_to rt (obj_shape ob) b sh') p (ob\<lparr>obj_shape := b\<rparr>)"
  note o' = o [unfolded owns_def]
  have own: "inv ?rt D E" "users rt (obj_shape ob) = {p}"
    using own_inv [OF i, of p ob "obj_shape ob" sh b sh' "ob\<lparr>obj_shape := b\<rparr>"] o' b sh' l by simp_all
  then show "inv ?rt D E" by simp
  have "b \<notin> D" "E b = 0" using b o' invD(1) [OF i] invD(6) [OF i] by (auto simp: table_part_def)
  then show "owns ?rt D E p (ob\<lparr>obj_shape := b\<rparr>) sh'" using sh' by (simp add: owns_def set_object_def move_shape_to_def)
  show "view ?rt q = view rt q"
  proof (cases "q = p")
    case True
    then show ?thesis using o' sh'(3,4) by (simp add: view_def set_object_def move_shape_to_def)
  qed (use own_views [OF i _ refl own(2) b] o' in blast)
qed

lemma realloc_values_keeps:
  assumes al: "alloc_ok alloc" and i: "inv rt D E" and p: "objects rt p = Some ob" "shapes rt (obj_shape ob) = Some sh" and n: "prop_size sh \<le> n"
  shows "\<exists>ok rt' vs. js_realloc_values alloc rt p n = Some (ok, rt') \<and> inv rt' D E \<and> shapes rt' = shapes rt \<and>
     objects rt' = (objects rt)(p \<mapsto> ob\<lparr>obj_prop := vs\<rparr>) \<and> (ok \<longrightarrow> length vs = n \<and> 16 * n < 2 ^ 29) \<and> (\<forall>q. view rt' q = view rt q) \<and>
     entries (names (sh_prop sh)) vs = entries (names (sh_prop sh)) (obj_prop ob)"
proof -
  obtain ok rt1 vs where 1: "js_realloc_values alloc rt p n = Some (ok, rt1)" "inv rt1 D E" "shapes rt1 = shapes rt"
      "objects rt1 = (objects rt)(p \<mapsto> ob\<lparr>obj_prop := vs\<rparr>)" "ok \<longrightarrow> vs = resize_values n (obj_prop ob) \<and> 16 * n < 2 ^ 29" "\<not> ok \<longrightarrow> vs = obj_prop ob"
    using realloc_values_inv [OF al i p n] by blast
  have "prop_size sh \<le> length (obj_prop ob)" "prop_count sh \<le> prop_size sh"
    using invD(7) [OF i p(1)] p(2) shape_ok_small [of sh] invD(4) [OF i p(2)] by auto
  then have ev: "entries (names (sh_prop sh)) vs = entries (names (sh_prop sh)) (obj_prop ob)"
    using 1(5,6) n entries_resize [of "names (sh_prop sh)" "obj_prop ob" n] by (cases ok) (auto simp: prop_count_def)
  have "view rt1 q = view rt q" for q
    using 1(3,4) p ev by (cases "q = p") (auto simp: view_def split: option.splits)
  then show ?thesis using 1 ev by (intro exI [of _ ok] exI [of _ rt1] exI [of _ vs]) auto
qed

lemma realloc_shape_fresh:
  assumes al: "alloc_ok alloc"
  obtains r m where "js_realloc_shape alloc rt a n = (r, rt\<lparr>rt_mem := m\<rparr>)" "\<And>b. r = Some b \<Longrightarrow> (b = a \<or> shapes rt b = None) \<and> n < 2 ^ 29"
proof -
  obtain r m where rm: "alloc (rt_mem rt) (\<lambda>b. b = a \<or> shapes rt b = None) n = (r, m)" by fastforce
  have "(b = a \<or> shapes rt b = None) \<and> n < 2 ^ 29" if "r = Some b" for b
    using al [unfolded alloc_ok_def, rule_format, of "rt_mem rt" "\<lambda>b. b = a \<or> shapes rt b = None" n b m] rm that by simp
  moreover have "js_realloc_shape alloc rt a n = (r, rt\<lparr>rt_mem := m\<rparr>)" using rm by (simp add: js_realloc_shape_def)
  ultimately show ?thesis using that by blast
qed

text \<open>The resized shape: the same names and flags, a new table or only more room.\<close>

lemma rehashed_shape:
  assumes ok: "shape_ok sh" and k: "0 < k" "prop_count sh \<le> m" "get_shape_size k m < 2 ^ 29"
  shows "\<exists>pr tab. rehash_loop (sh_prop sh) (replicate k 0) (of_nat (k - 1)) 0 = Some (pr, tab) \<and> names pr = names (sh_prop sh) \<and>
     shape_ok (sh\<lparr>prop_hash := tab, prop_hash_mask := of_nat (k - 1), prop_size := m, sh_prop := pr\<rparr>)"
proof -
  define msk where "msk = (of_nat (k - 1) :: u32)"
  have km: "unat msk + 1 = k" unfolding msk_def using k by (intro of_nat_mask) (simp_all add: get_shape_size_def)
  have "hash_ok (take 0 (sh_prop sh)) (replicate k 0) msk" using hash_ok_empty [OF km [symmetric]] by simp
  from rehash_loop_ok [OF this] obtain pr tab where 1: "rehash_loop (sh_prop sh) (replicate k 0) msk 0 = Some (pr, tab)"
      "hash_ok pr tab msk" "names pr = names (sh_prop sh)"
    using shape_ok_small [OF ok] by (auto simp: prop_count_def)
  have "length (filter (\<lambda>q. pr_atom q = JS_ATOM_NULL) pr) = length (filter (\<lambda>q. pr_atom q = JS_ATOM_NULL) (sh_prop sh))"
    by (simp only: deleted_names 1(3))
  moreover have "get_shape_size (unat msk + 1) m < 2 ^ 29" using k(3) km by simp
  ultimately have "shape_ok (sh\<lparr>prop_hash := tab, prop_hash_mask := msk, prop_size := m, sh_prop := pr\<rparr>)"
    using ok 1(2) names_ok_cong [OF 1(3)] names_length [OF 1(3)] k(2) by (simp add: shape_ok_def prop_count_def)
  then show ?thesis using 1 unfolding msk_def by blast
qed

text \<open>
  What the resizing of the properties leaves: the same views, and the own shape \<open>sh'\<close> of the object,
  perhaps at another address.
\<close>

definition resized :: "('m, 'v) shape_runtime \<Rightarrow> nat set \<Rightarrow> (nat \<Rightarrow> int) \<Rightarrow> nat \<Rightarrow> nat \<Rightarrow> JSShape \<Rightarrow>
    ('m, 'v) shape_runtime \<Rightarrow> 'v JSObject \<Rightarrow> JSShape \<Rightarrow> bool" where
  "resized rt D E p a sh rt' ob' sh' \<longleftrightarrow>
     inv rt' D E \<and> owns rt' D E p ob' sh' \<and> view rt' = view rt \<and> dom (objects rt') = dom (objects rt) \<and>
     names (sh_prop sh') = names (sh_prop sh) \<and> is_hashed sh' = is_hashed sh \<and> proto sh' = proto sh \<and>
     shapes rt' = (shapes rt)(a := None, obj_shape ob' \<mapsto> sh')"

lemma resized_step:
  assumes al: "alloc_ok alloc" and z: "resized rt D E p a sh rt1 ob1 sh" and a: "obj_shape ob1 = a"
    and sh': "shape_ok sh'" "shape_refs sh' = 1" "names (sh_prop sh') = names (sh_prop sh)" "proto sh' = proto sh" "is_hashed sh' = is_hashed sh"
    and l: "prop_size sh' \<le> length (obj_prop ob1)" and b: "b = a \<or> shapes rt1 b = None"
  shows "resized rt D E p a sh (set_object (move_shape_to rt1 a b sh') p (ob1\<lparr>obj_shape := b\<rparr>)) (ob1\<lparr>obj_shape := b\<rparr>) sh'"
    (is "resized _ _ _ _ _ _ ?rt _ _")
proof -
  note z' = z [unfolded resized_def]
  have i: "inv rt1 D E" and o: "owns rt1 D E p ob1 sh" using z' by blast+
  have "dom (objects ?rt) = dom (objects rt1)" using o by (auto simp: owns_def set_object_def move_shape_to_def)
  moreover have "shapes ?rt = (shapes rt)(a := None, b \<mapsto> sh')" using z' a by (auto simp: set_object_def move_shape_to_def)
  moreover have "b = obj_shape ob1 \<or> shapes rt1 b = None" using b a by simp
  note st = resize_step [OF al i o sh'(1-4) l this, unfolded a]
  moreover have "view ?rt = view rt1" using st(3) by blast
  ultimately show ?thesis using z' sh' unfolding resized_def by simp
qed

lemma resized_mem: "resized rt D E p a sh rt1 ob1 sh1 \<Longrightarrow> resized rt D E p a sh (rt1\<lparr>rt_mem := m\<rparr>) ob1 sh1"
  by (simp add: resized_def inv_mem owns_def)

lemma resize_properties_inv:
  assumes al: "alloc_ok alloc" and i: "inv rt D E" and o: "owns rt D E p ob sh" and n: "prop_size sh < n" "n \<le> 2 ^ 26"
  shows "\<exists>ok rt' ob' sh'. resize_properties alloc rt p n = Some (ok, rt') \<and> resized rt D E p (obj_shape ob) sh rt' ob' sh' \<and>
     (if ok then n \<le> prop_size sh' else obj_shape ob' = obj_shape ob \<and> sh' = sh)"
proof -
  note o' = o [unfolded owns_def]
  let ?a = "obj_shape ob"
  have sok: "shape_ok sh" using invD(4) [OF i] o' by blast
  have small: "prop_size sh < 2 ^ 26" "prop_count sh \<le> prop_size sh" "unat (prop_hash_mask sh) < 2 ^ 27" using shape_ok_small [OF sok] by simp_all
  define m where "m = max n (prop_size sh * 3 div 2)"
  have m: "n \<le> m" "m \<le> 2 ^ 27" "prop_size sh \<le> m" using n small by (auto simp: m_def)
  have "nat (int (prop_size sh) * 3 div 2) = prop_size sh * 3 div 2" by (simp add: nat_div_distrib)
  then have ms: "max n (nat (int (prop_size sh) * 3 div 2)) = m" by (simp add: m_def)
  have c3: "cint (int (prop_size sh) * 3) = Some (int (prop_size sh) * 3)" using small by simp
  obtain ok rt1 vs where 1: "js_realloc_values alloc rt p m = Some (ok, rt1)" "inv rt1 D E" "shapes rt1 = shapes rt"
      "objects rt1 = (objects rt)(p \<mapsto> ob\<lparr>obj_prop := vs\<rparr>)" "ok \<longrightarrow> length vs = m \<and> 16 * m < 2 ^ 29" "\<forall>q. view rt1 q = view rt q"
    using realloc_values_keeps [OF al i _ _ m(3)] o' by blast
  let ?ob = "ob\<lparr>obj_prop := vs\<rparr>" and ?k = "unat (prop_hash_mask sh) + 1"
  have z: "resized rt D E p ?a sh rt1 ?ob sh" using 1 o' by (auto simp: resized_def owns_def fun_upd_idem)
  have p1: "objects rt1 p = Some ?ob" using 1(4) by simp
  obtain k where k: "grow_hash_size ?k m = Some k" "?k \<le> k"
    using grow_hash_size_ok [of ?k m] small m by auto
  show ?thesis
  proof (cases ok)
    case False
    then have "resize_properties alloc rt p n = Some (False, rt1)" using o' c3 1(1) by (simp add: resize_properties_def ms Let_def)
    then show ?thesis using z by (intro exI [of _ False] exI [of _ rt1] exI [of _ ?ob] exI [of _ sh]) simp
  next
    case True
    note def = resize_properties_def ms Let_def
    have lv: "m = length (obj_prop ?ob)" using 1(5) True by simp
    show ?thesis
    proof (cases "k = ?k")
      case False
      obtain r mm where 2: "js_malloc_shape alloc rt1 (get_shape_size k m) = (r, rt1\<lparr>rt_mem := mm\<rparr>)"
          "\<And>b. r = Some b \<Longrightarrow> shapes rt1 b = None \<and> get_shape_size k m < 2 ^ 29" using malloc_shape_inv [OF al 1(2)] by metis
      show ?thesis
      proof (cases r)
        case None
        then have "resize_properties alloc rt p n = Some (False, rt1\<lparr>rt_mem := mm\<rparr>)"
          using o' c3 1(1) True p1 k(1) False 2(1) by (simp add: def)
        then show ?thesis using resized_mem [OF z, of mm] by (intro exI [of _ False] exI [of _ "rt1\<lparr>rt_mem := mm\<rparr>"] exI [of _ ?ob] exI [of _ sh]) simp
      next
        case (Some b)
        note b = 2(2) [OF Some]
        obtain pr tab where 3: "rehash_loop (sh_prop sh) (replicate k 0) (of_nat (k - 1)) 0 = Some (pr, tab)" "names pr = names (sh_prop sh)"
            "shape_ok (sh\<lparr>prop_hash := tab, prop_hash_mask := of_nat (k - 1), prop_size := m, sh_prop := pr\<rparr>)" (is "shape_ok ?sh")
          using rehashed_shape [OF sok, of k m] k(2) small m b by auto
        let ?rt = "set_object (move_shape_to (rt1\<lparr>rt_mem := mm\<rparr>) ?a b ?sh) p (?ob\<lparr>obj_shape := b\<rparr>)"
        have "resize_properties alloc rt p n = Some (True, ?rt)"
          using o' c3 1(1) True p1 k(1) False 2(1) 3(1) Some by (simp add: def)
        moreover have "resized rt D E p ?a sh ?rt (?ob\<lparr>obj_shape := b\<rparr>) ?sh"
          by (rule resized_step [OF al resized_mem [OF z]]) (use 3 o' b lv in simp_all)
        ultimately show ?thesis using m(1) by (intro exI [of _ True] exI [of _ ?rt] exI [of _ "?ob\<lparr>obj_shape := b\<rparr>"] exI [of _ ?sh]) simp
      qed
    next
      case keep: True
      obtain r mm where 2: "js_realloc_shape alloc rt1 ?a (get_shape_size k m) = (r, rt1\<lparr>rt_mem := mm\<rparr>)"
          "\<And>b. r = Some b \<Longrightarrow> (b = ?a \<or> shapes rt1 b = None) \<and> get_shape_size k m < 2 ^ 29" using realloc_shape_fresh [OF al] by metis
      show ?thesis
      proof (cases r)
        case None
        then have "resize_properties alloc rt p n = Some (False, rt1\<lparr>rt_mem := mm\<rparr>)"
          using o' c3 1(1) True p1 k(1) keep 2(1) by (simp add: def)
        then show ?thesis using resized_mem [OF z, of mm] by (intro exI [of _ False] exI [of _ "rt1\<lparr>rt_mem := mm\<rparr>"] exI [of _ ?ob] exI [of _ sh]) simp
      next
        case (Some b)
        let ?sh = "sh\<lparr>prop_size := m\<rparr>"
        let ?rt = "set_object (move_shape_to (rt1\<lparr>rt_mem := mm\<rparr>) ?a b ?sh) p (?ob\<lparr>obj_shape := b\<rparr>)"
        have "shape_ok ?sh" using sok 2(2) [OF Some] small m keep by (simp add: shape_ok_def prop_count_def)
        then have "resized rt D E p ?a sh ?rt (?ob\<lparr>obj_shape := b\<rparr>) ?sh"
          by (intro resized_step [OF al resized_mem [OF z]]) (use o' 2(2) [OF Some] lv in simp_all)
        moreover have "resize_properties alloc rt p n = Some (True, ?rt)"
          using o' c3 1(1) True p1 k(1) keep 2(1) Some by (simp add: def)
        ultimately show ?thesis using m(1) by (intro exI [of _ True] exI [of _ ?rt] exI [of _ "?ob\<lparr>obj_shape := b\<rparr>"] exI [of _ ?sh]) simp
      qed
    qed
  qed
qed

subsection \<open>Adding a property to the own shape\<close>

lemma hashed_upd: "hashed (S(a \<mapsto> sh)) = (if is_hashed sh then insert a (hashed S) else hashed S - {a})" "hashed (S(a := None)) = hashed S - {a}"
  by (auto simp: hashed_def)

lemma hashed_same: "same_shapes S S' \<Longrightarrow> hashed S' = hashed S"
proof -
  assume s: "same_shapes S S'"
  have "(\<exists>sh. S' a = Some sh \<and> is_hashed sh) \<longleftrightarrow> (\<exists>sh. S a = Some sh \<and> is_hashed sh)" for a
  proof (cases "S a")
    case None
    then show ?thesis using same_shapes_None [OF s, of a] by simp
  next
    case (Some sh)
    then obtain v where "S' a = Some (sh\<lparr>shape_hash_next := v\<rparr>)" using same_shapesD [OF s] by blast
    then show ?thesis using Some by simp
  qed
  then show ?thesis by (simp add: hashed_def)
qed

text \<open>A shape changes where it is.\<close>

lemma change_inv:
  assumes i: "inv rt D E" and a: "shapes rt a = Some sh"
    and sh': "shape_ok sh'" "shape_refs sh' = shape_refs sh" "is_hashed sh' = is_hashed sh \<or> shape_refs sh = 1" "prop_size sh' = prop_size sh"
    and t: "a \<notin> D \<or> sh_hash sh' = sh_hash sh \<and> shape_hash_next sh' = shape_hash_next sh"
  shows "inv (set_shape rt a sh') D E"
proof (rule invI)
  let ?rt = "set_shape rt a sh'"
  have "table_part ((shapes rt)(a \<mapsto> sh')) D (shape_hash_tab rt) (shape_hash_bits rt)"
    using t table_part_other [OF invD(1) [OF i]] table_part_upd [OF invD(1) [OF i] a] by blast
  then show "table_part (shapes ?rt) D (shape_hash_tab ?rt) (shape_hash_bits ?rt)" by (simp add: set_shape_def del: fun_upd_apply)
  show "sh_inv (int (card (users ?rt x)) + E x) s" if "shapes ?rt x = Some s" for x s
    using that inv_sh [OF i a] inv_sh [OF i, of x s] sh' by (auto simp: set_shape_def sh_inv_def split: if_splits)
  show "E x = 0" if "shapes ?rt x = None" for x using that invD(6) [OF i, of x] by (auto simp: set_shape_def split: if_splits)
  show "\<exists>s. shapes ?rt (obj_shape o2) = Some s \<and> prop_size s \<le> length (obj_prop o2)" if "objects ?rt q = Some o2" for q o2
    using that invD(7) [OF i, of q o2] a sh'(4) by (auto simp: set_shape_def)
qed (use invD(2,3,5) [OF i] in \<open>simp_all add: set_shape_def\<close>)

lemma view_others:
  assumes "objects rt' q = objects rt q" and "q \<notin> users rt b" and "\<And>x. x \<noteq> b \<Longrightarrow> map_option sig_of (shapes rt' x) = map_option sig_of (shapes rt x)"
  shows "view rt' q = view rt q"
  by (rule view_cong) (use assms in \<open>auto simp: users_def\<close>)

lemma owns_users: "inv rt D E \<Longrightarrow> owns rt D' E p ob sh \<Longrightarrow> users rt (obj_shape ob) = {p}"
proof -
  assume i: "inv rt D E" and o: "owns rt D' E p ob sh"
  have "card (users rt (obj_shape ob)) = 1" using invD(4) [OF i, of "obj_shape ob" sh] o by (simp add: owns_def)
  moreover have "p \<in> users rt (obj_shape ob)" using o by (auto simp: owns_def users_def)
  ultimately show ?thesis by (metis card_1_singletonE singletonD)
qed

text \<open>The state after an operation of which no reference is left over.\<close>

definition quiet :: "('m, 'v) shape_runtime \<Rightarrow> bool" where
  "quiet rt \<longleftrightarrow> inv rt (hashed (shapes rt)) (\<lambda>_. 0)"

text \<open>The object \<open>p\<close> got room for one more property, and the other objects are as they were.\<close>

definition added :: "('m, 'v) shape_runtime \<Rightarrow> nat \<Rightarrow> u32 \<Rightarrow> nat \<Rightarrow> nat option \<Rightarrow> ('m, 'v) shape_runtime \<Rightarrow> bool" where
  "added rt p a f r rt' \<longleftrightarrow>
     quiet rt' \<and> dom (objects rt') = dom (objects rt) \<and> (\<forall>q. q \<noteq> p \<longrightarrow> view rt' q = view rt q) \<and>
     (case r of
        None \<Rightarrow> view rt' p = view rt p
      | Some i \<Rightarrow> \<exists>ob' sh' ns. objects rt' p = Some ob' \<and> shapes rt' (obj_shape ob') = Some sh' \<and>
          names (sh_prop sh') = ns @ [(a, f)] \<and> i = length ns \<and> view rt p = Some (proto sh', entries ns (obj_prop ob')))"

lemma append_to_own:
  assumes i: "inv rt D E" and o: "owns rt D E p ob sh" and room: "prop_count sh < prop_size sh"
    and a: "a \<noteq> JS_ATOM_NULL" "index_of (sh_prop sh) a = None" and f: "f < 64"
  shows "\<exists>rt1 sh1 sh'. (if is_hashed sh then js_shape_hash_link (set_shape rt (obj_shape ob) (sh\<lparr>sh_hash := h\<rparr>)) (obj_shape ob) else Some rt) = Some rt1 \<and>
     shapes rt1 (obj_shape ob) = Some sh1 \<and> append_property sh1 a f = Some sh' \<and>
     inv (set_shape rt1 (obj_shape ob) sh') (if is_hashed sh then insert (obj_shape ob) D else D) E \<and>
     objects rt1 = objects rt \<and> shapes (set_shape rt1 (obj_shape ob) sh') = (shapes rt)(obj_shape ob \<mapsto> sh') \<and>
     names (sh_prop sh') = names (sh_prop sh) @ [(a, f)] \<and> proto sh' = proto sh \<and> is_hashed sh' = is_hashed sh"
proof -
  let ?b = "obj_shape ob"
  note o' = o [unfolded owns_def]
  have sok: "shape_ok sh" using invD(4) [OF i] o' by blast
  have "\<exists>rt1 sh1 h' v. (if is_hashed sh then js_shape_hash_link (set_shape rt ?b (sh\<lparr>sh_hash := h\<rparr>)) ?b else Some rt) = Some rt1 \<and>
      inv rt1 (if is_hashed sh then insert ?b D else D) E \<and> objects rt1 = objects rt \<and>
      shapes rt1 = (shapes rt)(?b \<mapsto> sh1) \<and> sh1 = sh\<lparr>sh_hash := h', shape_hash_next := v\<rparr>"
  proof (cases "is_hashed sh")
    case True
    let ?rt = "set_shape rt ?b (sh\<lparr>sh_hash := h\<rparr>)"
    have "inv ?rt D E" by (rule change_inv [OF i, of _ sh]) (use o' sok in simp_all)
    moreover have "shapes ?rt ?b = Some (sh\<lparr>sh_hash := h\<rparr>)" by (simp add: set_shape_def)
    ultimately obtain rt1 v where "js_shape_hash_link ?rt ?b = Some rt1" "inv rt1 (insert ?b D) E" "objects rt1 = objects ?rt"
        "shapes rt1 = (shapes ?rt)(?b \<mapsto> (sh\<lparr>sh_hash := h\<rparr>)\<lparr>shape_hash_next := v\<rparr>)" using link_inv o' by blast
    then show ?thesis using True by (auto simp: set_shape_def)
  next
    case False
    then show ?thesis using i o' by (intro exI [of _ rt] exI [of _ sh] exI [of _ "sh_hash sh"] exI [of _ "shape_hash_next sh"]) (auto simp: fun_upd_idem)
  qed
  then obtain rt1 sh1 h' v where 1: "(if is_hashed sh then js_shape_hash_link (set_shape rt ?b (sh\<lparr>sh_hash := h\<rparr>)) ?b else Some rt) = Some rt1"
      "inv rt1 (if is_hashed sh then insert ?b D else D) E" "objects rt1 = objects rt"
      "shapes rt1 = (shapes rt)(?b \<mapsto> sh1)" "sh1 = sh\<lparr>sh_hash := h', shape_hash_next := v\<rparr>" by blast
  have s1: "shapes rt1 ?b = Some sh1" using 1(4) by simp
  have "shape_ok sh1" "prop_count sh1 < prop_size sh1" "index_of (sh_prop sh1) a = None" using sok room a(2) 1(5) by (simp_all add: prop_count_def)
  then obtain sh' where 2: "append_property sh1 a f = Some sh'" "shape_ok sh'" "names (sh_prop sh') = names (sh_prop sh1) @ [(a, f)]"
      "sh' = sh1\<lparr>sh_prop := sh_prop sh', prop_hash := prop_hash sh', has_small_array_index := has_small_array_index sh'\<rparr>"
    using append_property_ok [OF _ _ a(1) _ f] by blast
  define ps tab hs where "ps = sh_prop sh'" and "tab = prop_hash sh'" and "hs = has_small_array_index sh'"
  have 3: "sh' = sh1\<lparr>sh_prop := ps, prop_hash := tab, has_small_array_index := hs\<rparr>" using 2(4) by (simp add: ps_def tab_def hs_def)
  have "inv (set_shape rt1 ?b sh') (if is_hashed sh then insert ?b D else D) E"
    by (rule change_inv [OF 1(2) s1 2(2)]) (simp_all add: 3)
  then show ?thesis using 1 s1 2(1,3) 3 by (intro exI [of _ rt1] exI [of _ sh1] exI [of _ sh']) (simp add: set_shape_def)
qed

text \<open>The shape leaves the table while it changes.\<close>

lemma unlink_own:
  assumes q: "quiet rt" and p: "objects rt p = Some ob" "shapes rt (obj_shape ob) = Some sh" "shape_refs sh = 1"
  shows "\<exists>rt1. (if is_hashed sh then js_shape_hash_unlink rt (obj_shape ob) else Some rt) = Some rt1 \<and>
     inv rt1 (hashed (shapes rt) - {obj_shape ob}) (\<lambda>_. 0) \<and> objects rt1 = objects rt \<and> same_shapes (shapes rt) (shapes rt1) \<and>
     owns rt1 (hashed (shapes rt) - {obj_shape ob}) (\<lambda>_. 0) p ob sh"
proof (cases "is_hashed sh")
  case True
  then have "obj_shape ob \<in> hashed (shapes rt)" using p by (auto simp: hashed_def)
  then obtain rt1 where "js_shape_hash_unlink rt (obj_shape ob) = Some rt1" "inv rt1 (hashed (shapes rt) - {obj_shape ob}) (\<lambda>_. 0)" "objects rt1 = objects rt"
     "same_shapes (shapes rt) (shapes rt1)" "shapes rt1 (obj_shape ob) = Some sh" using unlink_inv [of rt _ "\<lambda>_. 0"] q p unfolding quiet_def by blast
  then show ?thesis using True p by (simp add: owns_def)
next
  case False
  then have "obj_shape ob \<notin> hashed (shapes rt)" using p by (auto simp: hashed_def)
  then show ?thesis using False p q by (simp add: owns_def quiet_def)
qed

lemma view_same_shapes: "objects rt' = objects rt \<Longrightarrow> same_shapes (shapes rt) (shapes rt') \<Longrightarrow> view rt' = view rt"
  by (rule ext, rule view_cong) (auto simp: sig_same_shapes)

lemma relink_own:
  assumes i: "inv rt D E" and o: "owns rt D E p ob sh"
  shows "\<exists>rt'. (if is_hashed sh then js_shape_hash_link rt (obj_shape ob) else Some rt) = Some rt' \<and>
     inv rt' (if is_hashed sh then insert (obj_shape ob) D else D) E \<and> objects rt' = objects rt \<and> same_shapes (shapes rt) (shapes rt')"
proof (cases "is_hashed sh")
  case True
  obtain rt' v where "js_shape_hash_link rt (obj_shape ob) = Some rt'" "inv rt' (insert (obj_shape ob) D) E" "objects rt' = objects rt"
      "shapes rt' = (shapes rt)(obj_shape ob \<mapsto> sh\<lparr>shape_hash_next := v\<rparr>)"
    using link_inv [OF i] o unfolding owns_def by blast
  then show ?thesis using True same_shapes_upd [of "shapes rt" "obj_shape ob" sh v] o by (simp add: owns_def)
qed (use i in simp)

lemma index_of_names: "names ps = names qs \<Longrightarrow> index_of ps a = index_of qs a"
proof -
  assume n: "names ps = names qs"
  have "find (\<lambda>i. pr_atom (ps ! i) = a) [0..<length ps] = find (\<lambda>i. pr_atom (qs ! i) = a) [0..<length ps]"
    by (rule find_cong) (use names_nth [OF n] in auto)
  then show ?thesis using names_length [OF n] by (simp add: index_of_def)
qed

lemma add_shape_property_inv:
  assumes al: "alloc_ok alloc" and q: "quiet rt" and p: "objects rt p = Some ob" "shapes rt (obj_shape ob) = Some sh" "shape_refs sh = 1"
    and a: "a \<noteq> JS_ATOM_NULL" "index_of (sh_prop sh) a = None" and f: "f < 64"
  shows "\<exists>ok rt'. add_shape_property alloc rt p a f = Some (ok, rt') \<and> added rt p a f (if ok then Some (prop_count sh) else None) rt'"
proof -
  let ?a = "obj_shape ob" and ?h = "shape_hash (shape_hash (sh_hash sh) a) (of_nat f)"
  define D where "D = hashed (shapes rt) - {?a}"
  have sok: "shape_ok sh" using invD(4) q p unfolding quiet_def by blast
  obtain rt1 where 1: "(if is_hashed sh then js_shape_hash_unlink rt ?a else Some rt) = Some rt1" "inv rt1 D (\<lambda>_. 0)" "objects rt1 = objects rt"
      "same_shapes (shapes rt) (shapes rt1)" "owns rt1 D (\<lambda>_. 0) p ob sh"
    using unlink_own [OF q p] unfolding D_def by blast
  have v1: "view rt1 = view rt" by (rule view_same_shapes [OF 1(3,4)])
  have o1: "shapes rt1 ?a = Some sh" "?a \<notin> D" using 1(5) by (simp_all add: owns_def)
  have h1: "hashed (shapes rt1) - {?a} = D" "hashed (shapes rt) = (if is_hashed sh then insert ?a D else D)"
    using hashed_same [OF 1(4)] p(2) by (auto simp: D_def hashed_def)
  have z1: "resized rt1 D (\<lambda>_. 0) p ?a sh rt1 ob sh" using 1(2,5) o1 by (auto simp: resized_def fun_upd_idem)
  have "\<exists>ok rt2 ob2 sh2. (if prop_count sh \<ge> prop_size sh then resize_properties alloc rt1 p (prop_count sh + 1) else Some (True, rt1)) = Some (ok, rt2) \<and>
      resized rt1 D (\<lambda>_. 0) p ?a sh rt2 ob2 sh2 \<and> (if ok then prop_count sh + 1 \<le> prop_size sh2 else obj_shape ob2 = ?a \<and> sh2 = sh)"
  proof (cases "prop_count sh \<ge> prop_size sh")
    case True
    then have "prop_size sh < prop_count sh + 1" "prop_count sh + 1 \<le> 2 ^ 26" using shape_ok_small [OF sok] by simp_all
    from resize_properties_inv [OF al 1(2,5) this] show ?thesis unfolding if_P [OF True] .
  next
    case False
    then show ?thesis using z1 by (intro exI [of _ True] exI [of _ rt1] exI [of _ ob] exI [of _ sh]) simp
  qed
  then obtain ok rt2 ob2 sh2 where 2: "(if prop_count sh \<ge> prop_size sh then resize_properties alloc rt1 p (prop_count sh + 1) else Some (True, rt1)) = Some (ok, rt2)"
      "resized rt1 D (\<lambda>_. 0) p ?a sh rt2 ob2 sh2" "if ok then prop_count sh + 1 \<le> prop_size sh2 else obj_shape ob2 = ?a \<and> sh2 = sh"
    by blast
  note z = 2(2) [unfolded resized_def]
  have i2: "inv rt2 D (\<lambda>_. 0)" and o2: "owns rt2 D (\<lambda>_. 0) p ob2 sh2" using z by blast+
  have h2: "hashed (shapes rt2) = (if is_hashed sh then insert (obj_shape ob2) D else D)"
    using z o2 h1(1) by (auto simp: hashed_upd owns_def)
  show ?thesis
  proof (cases ok)
    case False
    then have eq: "obj_shape ob2 = ?a" "sh2 = sh" using 2(3) by auto
    obtain rt3 where 3: "(if is_hashed sh then js_shape_hash_link rt2 ?a else Some rt2) = Some rt3"
        "inv rt3 (if is_hashed sh then insert ?a D else D) (\<lambda>_. 0)" "objects rt3 = objects rt2" "same_shapes (shapes rt2) (shapes rt3)"
      using relink_own [OF i2 o2] unfolding eq by blast
    have "quiet rt3" using 3(2) unfolding quiet_def hashed_same [OF 3(4)] h2 eq .
    moreover have "view rt3 = view rt" using view_same_shapes [OF 3(3,4)] z v1 by simp
    moreover have "add_shape_property alloc rt p a f = Some (False, rt3)"
      using p 1(1) 2(1) 3(1) False by (simp add: add_shape_property_def Let_def)
    ultimately show ?thesis using z 3(3) 1(3) by (intro exI [of _ False] exI [of _ rt3]) (simp add: added_def)
  next
    case True
    have "prop_count sh2 < prop_size sh2" using 2(3) True names_length [of "sh_prop sh2" "sh_prop sh"] z by (simp add: prop_count_def)
    moreover have "index_of (sh_prop sh2) a = None" using a(2) z index_of_names [of "sh_prop sh2" "sh_prop sh"] by simp
    ultimately obtain rt3 sh3 sh' where 3: "(if is_hashed sh2 then js_shape_hash_link (set_shape rt2 (obj_shape ob2) (sh2\<lparr>sh_hash := ?h\<rparr>)) (obj_shape ob2) else Some rt2) = Some rt3"
        "shapes rt3 (obj_shape ob2) = Some sh3" "append_property sh3 a f = Some sh'"
        "inv (set_shape rt3 (obj_shape ob2) sh') (if is_hashed sh2 then insert (obj_shape ob2) D else D) (\<lambda>_. 0)"
        "objects rt3 = objects rt2" "shapes (set_shape rt3 (obj_shape ob2) sh') = (shapes rt2)(obj_shape ob2 \<mapsto> sh')"
        "names (sh_prop sh') = names (sh_prop sh2) @ [(a, f)]" "proto sh' = proto sh2" "is_hashed sh' = is_hashed sh2"
      using append_to_own [OF i2 o2 _ a(1) _ f] by blast
    let ?rt = "set_shape rt3 (obj_shape ob2) sh'"
    have ob: "objects ?rt = objects rt2" "objects rt2 p = Some ob2" "shapes rt2 (obj_shape ob2) = Some sh2" using 3(5) o2 by (simp_all add: set_shape_def owns_def)
    have "hashed (shapes ?rt) = (if is_hashed sh2 then insert (obj_shape ob2) D else D)"
      unfolding 3(6) hashed_upd 3(9) h2 using z o2 by (auto simp: owns_def)
    then have "quiet ?rt" using 3(4) by (simp add: quiet_def)
    moreover have "view ?rt r = view rt r" if "r \<noteq> p" for r
    proof -
      have "view ?rt r = view rt2 r"
        by (rule view_others [of _ _ _ "obj_shape ob2"]) (use ob(1) owns_users [OF i2 o2] that 3(6) in simp_all)
      then show ?thesis using z v1 by simp
    qed
    moreover have "view rt p = Some (proto sh', entries (names (sh_prop sh)) (obj_prop ob2))"
    proof -
      have "view rt2 p = Some (proto sh2, entries (names (sh_prop sh2)) (obj_prop ob2))" using ob(2,3) by (simp add: view_def)
      then show ?thesis using z v1 3(8) by simp
    qed
    moreover have "add_shape_property alloc rt p a f = Some (True, ?rt)"
      using p 1(1) 2(1) 3(1-3) True ob by (simp add: add_shape_property_def Let_def)
    ultimately show ?thesis using z ob 3(6,7) 1(3) by (intro exI [of _ True] exI [of _ ?rt]) (auto simp: added_def prop_count_def)
  qed
qed

lemma add_to_own_shape_inv:
  assumes al: "alloc_ok alloc" and q: "quiet rt" and p: "objects rt p = Some ob" "shapes rt (obj_shape ob) = Some sh" "shape_refs sh = 1"
    and a: "a \<noteq> JS_ATOM_NULL" "index_of (sh_prop sh) a = None" and f: "f < 64"
  shows "\<exists>r rt'. add_to_own_shape alloc rt p a f = Some (r, rt') \<and> added rt p a f r rt'"
proof -
  obtain ok rt' where 1: "add_shape_property alloc rt p a f = Some (ok, rt')" "added rt p a f (if ok then Some (prop_count sh) else None) rt'"
    using add_shape_property_inv [OF al q p a f] by blast
  show ?thesis
  proof (cases ok)
    case True
    obtain ob' sh' ns where 2: "objects rt' p = Some ob'" "shapes rt' (obj_shape ob') = Some sh'" "names (sh_prop sh') = ns @ [(a, f)]" "prop_count sh = length ns"
      using 1(2) True by (auto simp: added_def)
    have "length (sh_prop sh') = Suc (length ns)" using arg_cong [OF 2(3), of length] by simp
    then have "add_to_own_shape alloc rt p a f = Some (Some (prop_count sh), rt')"
      using p 1(1) True 2 by (simp add: add_to_own_shape_def prop_count_def)
    then show ?thesis using 1(2) True by auto
  next
    case False
    then show ?thesis using p 1 by (auto simp: add_to_own_shape_def)
  qed
qed

subsection \<open>Switching to another shape\<close>

lemma shape_free_objects: "shape_free (rt\<lparr>objects := X\<rparr>) a = map_option (\<lambda>rt. rt\<lparr>objects := X\<rparr>) (shape_free rt a)"
proof -
  have u: "js_shape_hash_unlink (rt\<lparr>objects := X\<rparr>) a = map_option (\<lambda>rt. rt\<lparr>objects := X\<rparr>) (js_shape_hash_unlink rt a)" for rt
    by (simp add: js_shape_hash_unlink_def set_shape_def Let_def map_option_bind split: option.splits bind_splits)
  have c: "set_shape (rt\<lparr>objects := X\<rparr>) a sh = (set_shape rt a sh)\<lparr>objects := X\<rparr>" for rt sh
    by (simp add: set_shape_def)
  have f0: "shape_free0 (rt\<lparr>objects := X\<rparr>) a = map_option (\<lambda>rt. rt\<lparr>objects := X\<rparr>) (shape_free0 rt a)" for rt
    by (auto simp: shape_free0_def u split: bind_splits)
  show ?thesis by (auto simp: shape_free_def c f0 Let_def split: bind_splits)
qed

lemma shape_free_set_object: "shape_free (set_object rt p ob) a = map_option (\<lambda>rt. set_object rt p ob) (shape_free rt a)"
proof (cases "shape_free rt a")
  case None
  then show ?thesis using shape_free_objects [where rt = rt and X = "(objects rt)(p \<mapsto> ob)" and a = a] by (simp add: set_object_def)
next
  case (Some rt')
  then have "rt'\<lparr>objects := objects rt\<rparr> = rt'" using shape_free_objects [where rt = rt and X = "objects rt" and a = a] by simp
  then have "objects rt' = objects rt" by (metis shape_runtime.select_convs(6) shape_runtime.surjective shape_runtime.update_convs(6))
  then show ?thesis using Some shape_free_objects [where rt = rt and X = "(objects rt)(p \<mapsto> ob)" and a = a] by (simp add: set_object_def)
qed

lemma dup_shape_set_object: "js_dup_shape (set_object rt p ob) a = map_option (\<lambda>rt. set_object rt p ob) (js_dup_shape rt a)"
  by (auto simp: js_dup_shape_def set_object_def set_shape_def split: bind_splits)

lemma set_object_twice [simp]: "set_object (set_object rt p x) p y = set_object rt p y"
  by (simp add: set_object_def)

text \<open>The object takes the new shape \<open>b\<close>, to which the operation holds a reference, and gives up its old one.\<close>

lemma switch_inv:
  assumes i: "inv rt (hashed (shapes rt)) ((\<lambda>_. 0)(b := 1))" and p: "objects rt p = Some ob" "shapes rt (obj_shape ob) = Some sh"
    and b: "obj_shape ob \<noteq> b" "shapes rt b = Some shb" and ob': "obj_shape ob' = b" "prop_size shb \<le> length (obj_prop ob')"
  shows "\<exists>rt' v. shape_free (set_object rt p ob') (obj_shape ob) = Some rt' \<and> quiet rt' \<and> objects rt' = (objects rt)(p \<mapsto> ob') \<and>
     (\<forall>q. q \<noteq> p \<longrightarrow> view rt' q = view rt q) \<and> shapes rt' b = Some (shb\<lparr>shape_hash_next := v\<rparr>)"
proof -
  let ?a = "obj_shape ob" and ?rt = "set_object rt p ob'"
  let ?E = "(\<lambda>_. 0)(?a := (1 :: int))"
  have "inv ?rt (hashed (shapes rt)) (((\<lambda>_. 0)(b := 1))(b := 0, ?a := 1))"
    by (rule point_inv [OF i p(1) refl b(1) _ _ ob'(1) b(2) ob'(2)]) (use b in simp_all)
  moreover have "((\<lambda>_. 0)(b := 1))(b := 0, ?a := 1) = ?E" by auto
  ultimately have i1: "inv ?rt (hashed (shapes rt)) ?E" by simp
  have a: "shapes ?rt ?a = Some sh" "is_hashed sh \<longleftrightarrow> ?a \<in> hashed (shapes rt)" using p by (auto simp: set_object_def hashed_def)
  obtain rt' S where 1: "shape_free ?rt ?a = Some rt'" "objects rt' = objects ?rt" "same_shapes (shapes ?rt) S"
      "if shape_refs sh = 1 then inv rt' (hashed (shapes rt) - {?a}) (?E(?a := 0)) \<and> shapes rt' = S(?a := None)
       else inv rt' (hashed (shapes rt)) (?E(?a := 0)) \<and> S = shapes ?rt \<and> shapes rt' = S(?a \<mapsto> sh\<lparr>shape_refs := shape_refs sh - 1\<rparr>)"
    using free_inv [OF i1 a(1) _ a(2)] by auto
  have E0: "?E(?a := 0) = (\<lambda>_. 0)" by auto
  have sS: "same_shapes (shapes rt) S" using 1(3) by (simp add: set_object_def)
  have q: "quiet rt'"
  proof (cases "shape_refs sh = 1")
    case True
    then show ?thesis using 1(4) hashed_same [OF sS] by (simp only: if_True quiet_def E0 hashed_upd)
  next
    case False
    then have "hashed (shapes rt') = hashed (shapes rt)" using 1(4) hashed_same [OF sS] a(2) by (auto simp: hashed_upd)
    then show ?thesis using 1(4) False by (simp only: if_False quiet_def E0)
  qed
  have o: "objects rt' = (objects rt)(p \<mapsto> ob')" using 1(2) by (simp add: set_object_def)
  have v: "view rt' r = view rt r" if "r \<noteq> p" for r
  proof (rule view_cong)
    show "objects rt' r = objects rt r" using o that by simp
    fix o2 assume o2: "objects rt r = Some o2"
    then have "objects rt' r = Some o2" using o that by simp
    then have "shapes rt' (obj_shape o2) \<noteq> None" using invD(7) q unfolding quiet_def by blast
    then show "map_option sig_of (shapes rt' (obj_shape o2)) = map_option sig_of (shapes rt (obj_shape o2))"
      using 1(4) sig_same_shapes [OF sS, of "obj_shape o2"] p(2) by (auto simp: sig_of_def set_object_def split: if_splits)
  qed
  obtain w where "S b = Some (shb\<lparr>shape_hash_next := w\<rparr>)" using same_shapesD [OF sS b(2)] .
  then have "shapes rt' b = Some (shb\<lparr>shape_hash_next := w\<rparr>)" using 1(4) b(1) by (auto split: if_splits)
  then show ?thesis using 1(1) q o v by blast
qed

end
