(* ===== verification/Object_Add.thy ===== *)
theory Object_Add
  imports Object_Props
begin

text \<open>
  \<open>add_property\<close>: the object moves to a shape of the table that has the properties it needs, or
  to a copy of its shape, or extends its own shape.
\<close>

lemma added_trans:
  "added rt1 p a f r rt2 \<Longrightarrow> view rt1 = view rt \<Longrightarrow> dom (objects rt1) = dom (objects rt) \<Longrightarrow> added rt p a f r rt2"
  by (cases r) (simp_all add: added_def)

lemma quiet_mem: "quiet rt \<Longrightarrow> quiet (rt\<lparr>rt_mem := m\<rparr>)"
  by (simp add: quiet_def inv_mem)

lemma quietD:
  assumes "quiet rt" and "objects rt p = Some ob" and "shapes rt (obj_shape ob) = Some sh"
  shows "shape_ok sh" "prop_size sh \<le> length (obj_prop ob)" "prop_count sh \<le> prop_size sh"
    "view rt p = Some (proto sh, entries (names (sh_prop sh)) (obj_prop ob))"
  using invD(4,7) [of rt "hashed (shapes rt)" "\<lambda>_. 0"] assms shape_ok_small [of sh] unfolding quiet_def by (fastforce simp: view_def)+

lemma realloc_values_cases:
  assumes al: "alloc_ok alloc" and p: "objects rt p = Some ob"
  shows "\<exists>m. js_realloc_values alloc rt p n = Some (False, rt\<lparr>rt_mem := m\<rparr>) \<or>
     js_realloc_values alloc rt p n = Some (True, set_object (rt\<lparr>rt_mem := m\<rparr>) p (ob\<lparr>obj_prop := resize_values n (obj_prop ob)\<rparr>))"
proof -
  obtain r m where "alloc (rt_mem rt) (\<lambda>a. True) (16 * n) = (r, m)" by fastforce
  then show ?thesis using p by (cases r) (auto simp: js_realloc_values_def js_malloc_block_def)
qed

lemma use_found_shape_inv:
  assumes al: "alloc_ok alloc" and q: "quiet rt" and p: "objects rt p = Some ob" "shapes rt (obj_shape ob) = Some sh"
    and b: "shapes rt b = Some shb" "is_hashed shb" "proto shb = proto sh" "names (sh_prop shb) = names (sh_prop sh) @ [(a, f)]"
  shows "\<exists>r rt'. use_found_shape alloc rt p sh b = Some (r, rt') \<and> added rt p a f r rt'"
proof -
  note pq = quietD [OF q p]
  have i: "inv rt (hashed (shapes rt)) (\<lambda>_. 0)" using q by (simp add: quiet_def)
  have len: "prop_count shb = Suc (prop_count sh)" using arg_cong [OF b(4), of length] by (simp add: prop_count_def)
  have ab: "obj_shape ob \<noteq> b" using len p(2) b(1) by auto
  have okb: "prop_count shb \<le> prop_size shb" using invD(4) [OF i b(1)] shape_ok_small [of shb] by blast
  have ev: "\<exists>ok m vs. (if prop_size shb \<noteq> prop_size sh then js_realloc_values alloc rt p (prop_size shb) else Some (True, rt)) =
      Some (ok, if ok then set_object (rt\<lparr>rt_mem := m\<rparr>) p (ob\<lparr>obj_prop := vs\<rparr>) else rt\<lparr>rt_mem := m\<rparr>) \<and>
      prop_size shb \<le> length vs \<and> entries (names (sh_prop sh)) vs = entries (names (sh_prop sh)) (obj_prop ob)"
  proof (cases "prop_size shb = prop_size sh")
    case True
    then show ?thesis using pq p by (intro exI [of _ True] exI [of _ "rt_mem rt"] exI [of _ "obj_prop ob"]) (simp add: set_object_def fun_upd_idem)
  next
    case False
    have "entries (names (sh_prop sh)) (resize_values (prop_size shb) (obj_prop ob)) = entries (names (sh_prop sh)) (obj_prop ob)"
      using pq(2,3) okb len by (intro entries_resize) (simp_all add: prop_count_def)
    then show ?thesis using False realloc_values_cases [OF al p(1), of "prop_size shb"]
      by (elim exE disjE) (rule exI, rule exI, rule exI [of _ "resize_values (prop_size shb) (obj_prop ob)"], force)+
  qed
  then obtain ok m vs where 1: "(if prop_size shb \<noteq> prop_size sh then js_realloc_values alloc rt p (prop_size shb) else Some (True, rt)) =
      Some (ok, if ok then set_object (rt\<lparr>rt_mem := m\<rparr>) p (ob\<lparr>obj_prop := vs\<rparr>) else rt\<lparr>rt_mem := m\<rparr>)"
      "prop_size shb \<le> length vs" "entries (names (sh_prop sh)) vs = entries (names (sh_prop sh)) (obj_prop ob)" by blast
  show ?thesis
  proof (cases ok)
    case False
    then have "use_found_shape alloc rt p sh b = Some (None, rt\<lparr>rt_mem := m\<rparr>)" using b(1) 1(1) by (simp add: use_found_shape_def)
    then show ?thesis using quiet_mem [OF q, of m] by (auto simp: added_def)
  next
    case True
    let ?rt = "rt\<lparr>rt_mem := m\<rparr>" and ?ob = "ob\<lparr>obj_prop := vs, obj_shape := b\<rparr>"
    let ?shb = "shb\<lparr>shape_refs := shape_refs shb + 1\<rparr>"
    obtain rt1 where 2: "js_dup_shape ?rt b = Some rt1" "inv rt1 (hashed (shapes rt)) ((\<lambda>_. 0)(b := 1))" "objects rt1 = objects rt"
        "shapes rt1 = (shapes rt)(b \<mapsto> ?shb)"
      using dup_inv [OF inv_mem [OF i, of m], of b shb] b(1,2) by auto
    have h: "hashed (shapes rt1) = hashed (shapes rt)" using 2(4) b(1,2) by (auto simp: hashed_def)
    obtain rt' v where 3: "shape_free (set_object rt1 p ?ob) (obj_shape ob) = Some rt'" "quiet rt'" "objects rt' = (objects rt1)(p \<mapsto> ?ob)"
        "\<forall>q. q \<noteq> p \<longrightarrow> view rt' q = view rt1 q" "shapes rt' b = Some (?shb\<lparr>shape_hash_next := v\<rparr>)"
      using switch_inv [of rt1 b p ob sh ?shb ?ob] 2 h p ab 1(2) by (auto simp: h)
    have "view rt1 x = view rt x" for x by (rule view_cong) (use 2(3,4) b(1) in \<open>auto simp: sig_of_def\<close>)
    moreover have "use_found_shape alloc rt p sh b = Some (Some (prop_count sh), rt')"
      using b(1) 1(1) True 2(1) 3(1) p len by (simp add: use_found_shape_def dup_shape_set_object) (simp add: set_object_def)
    ultimately show ?thesis using 3 2(3) p(1) b(3,4) 1(3) pq(4)
      by (intro exI [of _ "Some (prop_count sh)"] exI [of _ rt'])
        (auto simp: added_def prop_count_def intro!: exI [of _ "names (sh_prop sh)"])
  qed
qed

text \<open>The object gets a copy of its shape, which the operation has made.\<close>

lemma switch_to_clone:
  assumes i: "inv rt (hashed (shapes rt)) ((\<lambda>_. 0)(b := 1))" and p: "objects rt p = Some ob" "shapes rt (obj_shape ob) = Some sh"
    and b: "obj_shape ob \<noteq> b" "shapes rt b = Some shb" "sh_prop shb = sh_prop sh" "proto shb = proto sh" "prop_size shb = prop_size sh"
  shows "\<exists>rt' v. shape_free rt (obj_shape ob) = Some rt' \<and> quiet (set_object rt' p (ob\<lparr>obj_shape := b\<rparr>)) \<and>
     objects (set_object rt' p (ob\<lparr>obj_shape := b\<rparr>)) = (objects rt)(p \<mapsto> ob\<lparr>obj_shape := b\<rparr>) \<and>
     view (set_object rt' p (ob\<lparr>obj_shape := b\<rparr>)) = view rt \<and> shapes (set_object rt' p (ob\<lparr>obj_shape := b\<rparr>)) b = Some (shb\<lparr>shape_hash_next := v\<rparr>)"
proof -
  let ?ob = "ob\<lparr>obj_shape := b\<rparr>"
  have l: "prop_size shb \<le> length (obj_prop ?ob)" using invD(7) [OF i p(1)] p(2) b(5) by auto
  obtain rt1 v where 1: "shape_free (set_object rt p ?ob) (obj_shape ob) = Some rt1" "quiet rt1" "objects rt1 = (objects rt)(p \<mapsto> ?ob)"
      "\<forall>q. q \<noteq> p \<longrightarrow> view rt1 q = view rt q" "shapes rt1 b = Some (shb\<lparr>shape_hash_next := v\<rparr>)"
    using switch_inv [OF i p b(1,2) _ l] by auto
  obtain rt' where 2: "shape_free rt (obj_shape ob) = Some rt'" "rt1 = set_object rt' p ?ob"
    using 1(1) unfolding shape_free_set_object by blast
  have "view rt1 q = view rt q" for q
    using 1(3,4,5) p b(3,4) by (cases "q = p") (simp_all add: view_def)
  then have "view rt1 = view rt" by blast
  then show ?thesis using 1 2 by blast
qed

lemma add_property_clone:
  assumes al: "alloc_ok alloc" and q: "quiet rt" and p: "objects rt p = Some ob" "shapes rt (obj_shape ob) = Some sh"
    and a: "a \<noteq> JS_ATOM_NULL" "index_of (sh_prop sh) a = None" and f: "f < 64"
    and h: "is_hashed sh" "find_hashed_shape_prop rt sh a f = Some None" "shape_refs sh \<noteq> 1"
  shows "\<exists>r rt'. add_property alloc rt p a f = Some (r, rt') \<and> added rt p a f r rt'"
proof -
  let ?a = "obj_shape ob" and ?D = "hashed (shapes rt)"
  have i: "inv rt ?D (\<lambda>_. 0)" using q by (simp add: quiet_def)
  obtain c rt1 where 1: "js_clone_shape alloc rt ?a = Some (c, rt1)" "objects rt1 = objects rt"
      "case c of None \<Rightarrow> inv rt1 ?D (\<lambda>_. 0) \<and> shapes rt1 = shapes rt
       | Some b \<Rightarrow> inv rt1 ?D ((\<lambda>_. 0)(b := 1)) \<and> shapes rt b = None \<and> shapes rt1 = (shapes rt)(b \<mapsto> sh\<lparr>shape_refs := 1, is_hashed := False\<rparr>)"
    using clone_inv [OF al i p(2)] by blast
  show ?thesis
  proof (cases c)
    case None
    then have "view rt1 = view rt" "quiet rt1" using 1(2,3) view_same_shapes [of rt1 rt] by (simp_all add: quiet_def)
    then show ?thesis using 1(1,2) None by (intro exI [of _ None] exI [of _ rt1]) (simp add: add_property_def p h added_def)
  next
    case (Some b)
    let ?sh = "sh\<lparr>shape_refs := 1, is_hashed := False\<rparr>"
    have b: "inv rt1 ?D ((\<lambda>_. 0)(b := 1))" "shapes rt b = None" "shapes rt1 = (shapes rt)(b \<mapsto> ?sh)" using 1(3) Some by simp_all
    have ab: "?a \<noteq> b" "b \<notin> ?D" using b(2) p(2) by (auto simp: hashed_def)
    let ?rt = "set_shape rt1 b (?sh\<lparr>is_hashed := True\<rparr>)"
    have "inv ?rt ?D ((\<lambda>_. 0)(b := 1))" by (rule change_inv [OF b(1), of b ?sh]) (use b(3) ab(2) quietD(1) [OF q p] in simp_all)
    moreover have "shapes ?rt b = Some (?sh\<lparr>is_hashed := True\<rparr>)" by (simp add: set_shape_def)
    ultimately obtain rt2 v where 2: "js_shape_hash_link ?rt b = Some rt2" "inv rt2 (insert b ?D) ((\<lambda>_. 0)(b := 1))" "objects rt2 = objects rt"
        "shapes rt2 = (shapes rt)(b \<mapsto> ?sh\<lparr>is_hashed := True, shape_hash_next := v\<rparr>)"
      using link_inv [OF _ ab(2)] 1(2) b(3) by (fastforce simp: set_shape_def)
    have "hashed (shapes rt2) = insert b ?D" using 2(4) by (simp add: hashed_upd)
    then have i2: "inv rt2 (hashed (shapes rt2)) ((\<lambda>_. 0)(b := 1))" using 2(2) by simp
    have p2: "objects rt2 p = Some ob" "shapes rt2 ?a = Some sh" using p 2(3,4) ab(1) by simp_all
    obtain rt3 w where 3: "shape_free rt2 ?a = Some rt3" "quiet (set_object rt3 p (ob\<lparr>obj_shape := b\<rparr>))"
        "objects (set_object rt3 p (ob\<lparr>obj_shape := b\<rparr>)) = (objects rt2)(p \<mapsto> ob\<lparr>obj_shape := b\<rparr>)"
        "view (set_object rt3 p (ob\<lparr>obj_shape := b\<rparr>)) = view rt2"
        "shapes (set_object rt3 p (ob\<lparr>obj_shape := b\<rparr>)) b = Some (?sh\<lparr>is_hashed := True, shape_hash_next := w\<rparr>)"
      using switch_to_clone [OF i2 p2 ab(1), of "?sh\<lparr>is_hashed := True, shape_hash_next := v\<rparr>"] 2(4) by auto
    have "view rt2 q = view rt q" for q
      by (rule view_others [of _ _ _ b]) (use 2(3,4) b(2) invD(7) [OF i, of q] in \<open>auto simp: users_def\<close>)
    then have v: "view (set_object rt3 p (ob\<lparr>obj_shape := b\<rparr>)) = view rt" using 3(4) by auto
    obtain r' rt' where 4: "add_to_own_shape alloc (set_object rt3 p (ob\<lparr>obj_shape := b\<rparr>)) p a f = Some (r', rt')"
        "added (set_object rt3 p (ob\<lparr>obj_shape := b\<rparr>)) p a f r' rt'"
      using add_to_own_shape_inv [OF al 3(2) _ _ _ a(1) _ f, of p "ob\<lparr>obj_shape := b\<rparr>" "?sh\<lparr>is_hashed := True, shape_hash_next := w\<rparr>"] 3(3,5) a(2) by auto
    have "added rt p a f r' rt'" by (rule added_trans [OF 4(2) v]) (use 3(3) 2(3) p(1) in auto)
    moreover have "add_property alloc rt p a f = Some (r', rt')"
      using 1(1) Some b(3) 2(1) 3(1) 4(1) by (simp add: add_property_def p h)
    ultimately show ?thesis by blast
  qed
qed

lemma add_property_inv:
  assumes al: "alloc_ok alloc" and q: "quiet rt" and p: "objects rt p = Some ob" "shapes rt (obj_shape ob) = Some sh"
    and a: "a \<noteq> JS_ATOM_NULL" "index_of (sh_prop sh) a = None" and f: "f < 64"
  shows "\<exists>r rt'. add_property alloc rt p a f = Some (r, rt') \<and> added rt p a f r rt'"
proof -
  let ?a = "obj_shape ob" and ?D = "hashed (shapes rt)"
  have i: "inv rt ?D (\<lambda>_. 0)" using q by (simp add: quiet_def)
  note own = add_to_own_shape_inv [OF al _ _ _ _ a(1) _ f]
  have one: "is_hashed sh \<or> shape_refs sh = 1" using invD(4) [OF i p(2)] by blast
  show ?thesis
  proof (cases "is_hashed sh")
    case False
    then have "add_property alloc rt p a f = add_to_own_shape alloc rt p a f" using p by (simp add: add_property_def)
    then show ?thesis using own [OF q p _ a(2)] one False by simp
  next
    case h: True
    obtain r where r: "find_hashed_shape_prop rt sh a f = Some r"
        "\<And>c. r = Some c \<Longrightarrow> c \<in> ?D \<and> (\<exists>sh1. shapes rt c = Some sh1 \<and> proto sh1 = proto sh \<and> names (sh_prop sh1) = names (sh_prop sh) @ [(a, f)])"
      using find_prop_ok [OF invD(1) [OF i]] by blast
    show ?thesis
    proof (cases r)
      case (Some b)
      then have "add_property alloc rt p a f = use_found_shape alloc rt p sh b" using p h r(1) by (simp add: add_property_def)
      then show ?thesis using use_found_shape_inv [OF al q p] r(2) [OF Some] by (auto simp: hashed_def)
    next
      case None
      show ?thesis
      proof (cases "shape_refs sh = 1")
        case True
        then have "add_property alloc rt p a f = add_to_own_shape alloc rt p a f" using p h r(1) None by (simp add: add_property_def)
        then show ?thesis using own [OF q p True a(2)] by simp
      next
        case False
        then show ?thesis using add_property_clone [OF al q p a f h] r(1) None by simp
      qed
    qed
  qed
qed

end
