(* ===== verification/Object_Update.thy ===== *)
theory Object_Update
  imports Object_Add
begin

text \<open>
  Changing the flags of a property and deleting a property. Both take the shape of the object out of
  the table first, or copy it; the deletion compacts the shape when half of it is unused.
\<close>

subsection \<open>The list of properties\<close>

lemma entries_simps [simp]:
  "entries [] vs = []" "entries ns [] = []"
  "entries (n # ns) (v # vs) = (if fst n = JS_ATOM_NULL then entries ns vs else (fst n, snd n, v) # entries ns vs)"
  by (simp_all add: entries_def split_beta)

lemma entries_snoc:
  "length ns < length vs \<Longrightarrow> a \<noteq> JS_ATOM_NULL \<Longrightarrow> entries (ns @ [(a, f)]) (vs[length ns := v]) = entries ns vs @ [(a, f, v)]"
proof (induction ns arbitrary: vs)
  case Nil
  then show ?case by (cases vs) simp_all
next
  case (Cons n ns)
  then show ?case by (cases vs) simp_all
qed

lemma entries_names: "length ns \<le> length vs \<Longrightarrow> map fst (entries ns vs) = filter (\<lambda>a. a \<noteq> JS_ATOM_NULL) (map fst ns)"
proof (induction ns arbitrary: vs)
  case (Cons n ns)
  then show ?case by (cases vs) simp_all
qed simp

definition with_flags :: "u32 \<Rightarrow> nat \<Rightarrow> (u32 \<times> nat \<times> 'w) list \<Rightarrow> (u32 \<times> nat \<times> 'w) list" where
  "with_flags a f = map (\<lambda>(b, g, v). if b = a then (b, f, v) else (b, g, v))"

definition without :: "u32 \<Rightarrow> (u32 \<times> nat \<times> 'w) list \<Rightarrow> (u32 \<times> nat \<times> 'w) list" where
  "without a = filter (\<lambda>(b, g, v). b \<noteq> a)"

lemma unused_name:
  assumes "\<forall>j<length ns. fst (ns ! j) \<noteq> a"
  shows "with_flags a f (entries ns vs) = entries ns vs" "without a (entries ns vs) = entries ns vs"
proof -
  have "\<forall>x\<in>set (entries ns vs). fst x \<noteq> a"
    using assms by (fastforce simp: entries_def in_set_zip)
  then show "with_flags a f (entries ns vs) = entries ns vs" "without a (entries ns vs) = entries ns vs"
    unfolding with_flags_def without_def by (auto intro!: map_idI filter_True)
qed

lemma entries_update:
  assumes "i < length ns" and "\<forall>j<length ns. fst (ns ! j) = a \<longleftrightarrow> j = i" and "a \<noteq> JS_ATOM_NULL"
  shows "entries (ns[i := (a, f)]) vs = with_flags a f (entries ns vs)"
    "entries (ns[i := (JS_ATOM_NULL, g)]) (vs[i := u]) = without a (entries ns vs)"
proof -
  have "entries (ns[i := (a, f)]) vs = with_flags a f (entries ns vs) \<and>
      entries (ns[i := (JS_ATOM_NULL, g)]) (vs[i := u]) = without a (entries ns vs)"
    using assms
  proof (induction ns arbitrary: i vs)
    case (Cons n ns)
    show ?case
    proof (cases vs)
      case (Cons v vs')
      show ?thesis
      proof (cases i)
        case 0
        have "\<forall>j<length ns. fst (ns ! j) \<noteq> a" "fst n = a" using Cons.prems(2) 0 by auto
        then show ?thesis using unused_name(1) [of ns a f vs'] unused_name(2) [of ns a vs'] Cons.prems(3) Cons 0 by (simp add: with_flags_def without_def)
      next
        case (Suc k)
        have "k < length ns" "\<forall>j<length ns. fst (ns ! j) = a \<longleftrightarrow> j = k" "fst n \<noteq> a" using Cons.prems(1,2) Suc by auto
        then show ?thesis using Cons.IH [of k vs'] Cons.prems(3) Cons Suc by (simp add: with_flags_def without_def)
      qed
    qed (simp add: with_flags_def without_def)
  qed simp
  then show "entries (ns[i := (a, f)]) vs = with_flags a f (entries ns vs)"
    "entries (ns[i := (JS_ATOM_NULL, g)]) (vs[i := u]) = without a (entries ns vs)" by blast+
qed

lemma entries_compact:
  assumes "length ps \<le> length vs" and "ns = filter (\<lambda>x. fst x \<noteq> JS_ATOM_NULL) (names ps)"
    and "take (length ns) ws = map snd (filter (\<lambda>x. pr_atom (fst x) \<noteq> JS_ATOM_NULL) (zip ps vs))"
  shows "entries ns ws = entries (names ps) vs"
proof -
  have zip_take_length: "zip xs (take (length xs) ys) = zip xs ys" for xs :: "(u32 \<times> nat) list" and ys :: "'a option list"
    by (rule nth_equalityI) simp_all
  have t: "entries ns ws = entries ns (take (length ns) ws)"
    unfolding entries_def by (metis zip_take_length)
  have "entries (filter (\<lambda>x. fst x \<noteq> JS_ATOM_NULL) (names ps)) (map snd (filter (\<lambda>x. pr_atom (fst x) \<noteq> JS_ATOM_NULL) (zip ps vs))) = entries (names ps) vs"
    using assms(1)
  proof (induction ps arbitrary: vs)
    case (Cons p ps)
    then show ?case by (cases vs) simp_all
  qed simp
  then show ?thesis using t assms by simp
qed

subsection \<open>Taking the shape out of the table\<close>

lemma prepare_update_inv:
  assumes al: "alloc_ok alloc" and q: "quiet rt" and p: "objects rt p = Some ob" "shapes rt (obj_shape ob) = Some sh"
  shows "\<exists>ok rt'. js_shape_prepare_update alloc rt p = Some (ok, rt') \<and> quiet rt' \<and> dom (objects rt') = dom (objects rt) \<and> view rt' = view rt \<and>
     (ok \<longrightarrow> (\<exists>b v. objects rt' p = Some (ob\<lparr>obj_shape := b\<rparr>) \<and> shapes rt' b = Some (sh\<lparr>shape_refs := 1, is_hashed := False, shape_hash_next := v\<rparr>)))"
proof -
  let ?a = "obj_shape ob" and ?D = "hashed (shapes rt)"
  have i: "inv rt ?D (\<lambda>_. 0)" using q by (simp add: quiet_def)
  note def = js_shape_prepare_update_def p
  show ?thesis
  proof (cases "is_hashed sh")
    case False
    then have "shape_refs sh = 1" using invD(4) [OF i p(2)] by blast
    then have "sh\<lparr>shape_refs := 1, is_hashed := False, shape_hash_next := shape_hash_next sh\<rparr> = sh" using False by (cases sh) simp
    then show ?thesis using False q p by (intro exI [of _ True] exI [of _ rt]) (auto simp: def intro!: exI [of _ ?a] exI [of _ "shape_hash_next sh"])
  next
    case h: True
    show ?thesis
    proof (cases "shape_refs sh = 1")
      case True
      obtain rt1 where 1: "js_shape_hash_unlink rt ?a = Some rt1" "inv rt1 (?D - {?a}) (\<lambda>_. 0)" "objects rt1 = objects rt"
          "same_shapes (shapes rt) (shapes rt1)" "shapes rt1 ?a = Some sh"
        using unlink_own [OF q p True] h by (auto simp: owns_def)
      let ?sh = "sh\<lparr>is_hashed := False\<rparr>" and ?rt = "set_shape rt1 ?a (sh\<lparr>is_hashed := False\<rparr>)"
      have "inv ?rt (?D - {?a}) (\<lambda>_. 0)" by (rule change_inv [OF 1(2,5)]) (use quietD(1) [OF q p] True in simp_all)
      moreover have "hashed (shapes ?rt) = ?D - {?a}" using hashed_same [OF 1(4)] by (simp add: set_shape_def hashed_upd)
      ultimately have "quiet ?rt" by (simp add: quiet_def)
      moreover have "view ?rt q = view rt1 q" for q by (rule view_cong) (use 1(5) in \<open>auto simp: set_shape_def sig_of_def\<close>)
      then have "view ?rt = view rt" using view_same_shapes [OF 1(3,4)] by auto
      moreover have "sh\<lparr>shape_refs := 1, is_hashed := False, shape_hash_next := shape_hash_next sh\<rparr> = ?sh" using True by (cases sh) simp
      ultimately show ?thesis using h True 1 p
        by (intro exI [of _ True] exI [of _ ?rt]) (auto simp: def set_shape_def intro!: exI [of _ ?a] exI [of _ "shape_hash_next sh"])
    next
      case False
      obtain c rt1 where 1: "js_clone_shape alloc rt ?a = Some (c, rt1)" "objects rt1 = objects rt"
          "case c of None \<Rightarrow> inv rt1 ?D (\<lambda>_. 0) \<and> shapes rt1 = shapes rt
           | Some b \<Rightarrow> inv rt1 ?D ((\<lambda>_. 0)(b := 1)) \<and> shapes rt b = None \<and> shapes rt1 = (shapes rt)(b \<mapsto> sh\<lparr>shape_refs := 1, is_hashed := False\<rparr>)"
        using clone_inv [OF al i p(2)] by blast
      show ?thesis
      proof (cases c)
        case None
        then have "view rt1 = view rt" "quiet rt1" using 1(2,3) view_same_shapes [of rt1 rt] by (simp_all add: quiet_def)
        then show ?thesis using 1(1,2) None h False by (intro exI [of _ False] exI [of _ rt1]) (simp add: def)
      next
        case (Some b)
        let ?sh = "sh\<lparr>shape_refs := 1, is_hashed := False\<rparr>"
        have b: "inv rt1 ?D ((\<lambda>_. 0)(b := 1))" "shapes rt b = None" "shapes rt1 = (shapes rt)(b \<mapsto> ?sh)" using 1(3) Some by simp_all
        have ab: "?a \<noteq> b" "b \<notin> ?D" using b(2) p(2) by (auto simp: hashed_def)
        have "hashed (shapes rt1) = ?D" using b(3) ab(2) by (simp add: hashed_upd)
        then have i1: "inv rt1 (hashed (shapes rt1)) ((\<lambda>_. 0)(b := 1))" using b(1) by simp
        obtain rt3 w where 3: "shape_free rt1 ?a = Some rt3" "quiet (set_object rt3 p (ob\<lparr>obj_shape := b\<rparr>))"
            "objects (set_object rt3 p (ob\<lparr>obj_shape := b\<rparr>)) = (objects rt1)(p \<mapsto> ob\<lparr>obj_shape := b\<rparr>)"
            "view (set_object rt3 p (ob\<lparr>obj_shape := b\<rparr>)) = view rt1"
            "shapes (set_object rt3 p (ob\<lparr>obj_shape := b\<rparr>)) b = Some (?sh\<lparr>shape_hash_next := w\<rparr>)"
          using switch_to_clone [OF i1 _ _ ab(1), of p sh ?sh] 1(2) b(3) p ab(1) by auto
        have "view rt1 q = view rt q" for q
          by (rule view_others [of _ _ _ b]) (use 1(2) b(2,3) invD(7) [OF i, of q] in \<open>auto simp: users_def\<close>)
        then have "view (set_object rt3 p (ob\<lparr>obj_shape := b\<rparr>)) = view rt" using 3(4) by auto
        then show ?thesis using 1(1,2) Some h False 3 p(1)
          by (intro exI [of _ True] exI [of _ "set_object rt3 p (ob\<lparr>obj_shape := b\<rparr>)"]) (auto simp: def)
      qed
    qed
  qed
qed

subsection \<open>Updates of one object\<close>

lemma hash_ok_names:
  assumes n: "length ps = length qs" "\<And>i. i < length ps \<Longrightarrow> pr_atom (ps ! i) = pr_atom (qs ! i) \<and> hash_next (ps ! i) = hash_next (qs ! i)"
  shows "hash_ok ps tab msk = hash_ok qs tab msk"
proof -
  have b: "bucket ps msk c = bucket qs msk c" for c using n by (auto simp: bucket_def intro!: arg_cong [of _ _ rev] filter_cong)
  have "chain ps h (bucket qs msk c) = chain qs h (bucket qs msk c)" for h c
    by (rule chain_cong) (use n in \<open>auto simp: set_bucket\<close>)
  then show ?thesis by (simp add: hash_ok_def b)
qed

lemma shape_flags_ok:
  assumes "shape_ok sh" and "i < length (sh_prop sh)"
  shows "shape_ok (sh\<lparr>sh_prop := (sh_prop sh)[i := (sh_prop sh ! i)\<lparr>pr_flags := f\<rparr>]\<rparr>)"
proof -
  let ?ps = "(sh_prop sh)[i := (sh_prop sh ! i)\<lparr>pr_flags := f\<rparr>]"
  have at: "pr_atom (?ps ! j) = pr_atom (sh_prop sh ! j) \<and> hash_next (?ps ! j) = hash_next (sh_prop sh ! j)" for j by (simp add: nth_upd)
  then have "hash_ok ?ps (prop_hash sh) (prop_hash_mask sh)" "names_ok ?ps"
    using assms hash_ok_names [of ?ps "sh_prop sh"] by (simp_all add: shape_ok_def names_ok_def)
  moreover have "map pr_atom ?ps = map pr_atom (sh_prop sh)" using assms(2) by (simp add: map_update list_update_same_conv)
  then have "length (filter (\<lambda>a. a = JS_ATOM_NULL) (map pr_atom ?ps)) = length (filter (\<lambda>a. a = JS_ATOM_NULL) (map pr_atom (sh_prop sh)))" by simp
  then have "length (filter (\<lambda>pr. pr_atom pr = JS_ATOM_NULL) ?ps) = length (filter (\<lambda>pr. pr_atom pr = JS_ATOM_NULL) (sh_prop sh))"
    by (simp add: filter_map comp_def)
  ultimately show ?thesis using assms(1) by (simp add: shape_ok_def prop_count_def)
qed

text \<open>The list of properties of the object \<open>p\<close> has changed by \<open>g\<close>, and nothing else.\<close>

definition updated :: "('m, 'v) shape_runtime \<Rightarrow> nat \<Rightarrow> ((u32 \<times> nat \<times> 'v option) list \<Rightarrow> (u32 \<times> nat \<times> 'v option) list) \<Rightarrow>
    ('m, 'v) shape_runtime \<Rightarrow> bool" where
  "updated rt p g rt' \<longleftrightarrow>
     quiet rt' \<and> dom (objects rt') = dom (objects rt) \<and> view rt' p = map_option (map_prod id g) (view rt p) \<and> (\<forall>q. q \<noteq> p \<longrightarrow> view rt' q = view rt q)"

lemma updated_id: "quiet rt' \<Longrightarrow> dom (objects rt') = dom (objects rt) \<Longrightarrow> view rt' = view rt \<Longrightarrow> updated rt p id rt'"
  by (simp add: updated_def map_prod.id option.map_id)

lemma updated_trans: "updated rt p g rt1 \<Longrightarrow> updated rt1 p h rt2 \<Longrightarrow> updated rt p (h \<circ> g) rt2"
  by (simp add: updated_def option.map_comp map_prod.comp)

lemma updated_from: "view rt1 = view rt \<Longrightarrow> dom (objects rt1) = dom (objects rt) \<Longrightarrow> updated rt1 p g rt' \<Longrightarrow> updated rt p g rt'"
  by (simp add: updated_def)

lemma set_object_same [simp]: "objects rt p = Some ob \<Longrightarrow> set_object rt p ob = rt"
  by (simp add: set_object_def fun_upd_idem)

lemma set_shape_move: "set_shape rt a sh = move_shape_to rt a a sh"
  by (simp add: set_shape_def move_shape_to_def)

lemma own_update:
  assumes q: "quiet rt" and p: "objects rt p = Some ob" "shapes rt (obj_shape ob) = Some sh" "\<not> is_hashed sh"
    and sh': "shape_ok sh'" "shape_refs sh' = 1" "\<not> is_hashed sh'" "proto sh' = proto sh" and b: "b = obj_shape ob \<or> shapes rt b = None"
    and ob': "obj_shape ob' = b" "prop_size sh' \<le> length (obj_prop ob')"
    and g: "entries (names (sh_prop sh')) (obj_prop ob') = g (entries (names (sh_prop sh)) (obj_prop ob))"
  shows "updated rt p g (set_object (move_shape_to rt (obj_shape ob) b sh') p ob')"
proof -
  let ?rt = "set_object (move_shape_to rt (obj_shape ob) b sh') p ob'" and ?D = "hashed (shapes rt)"
  have i: "inv rt ?D (\<lambda>_. 0)" using q by (simp add: quiet_def)
  have a: "obj_shape ob \<notin> ?D" "shape_refs sh = 1" using p invD(4) [OF i p(2)] by (auto simp: hashed_def)
  have i1: "inv ?rt ?D (\<lambda>_. 0)" "users rt (obj_shape ob) = {p}"
    using own_inv [OF i p(1) refl p(2) a(2) refl a(1) b sh'(1,2) ob'] by simp_all
  have "b \<notin> ?D" using a(1) b by (auto simp: hashed_def)
  then have "hashed (shapes ?rt) = ?D" using a(1) sh'(3) by (simp add: set_object_def move_shape_to_def hashed_upd)
  then have "quiet ?rt" using i1(1) by (simp add: quiet_def)
  moreover have "dom (objects ?rt) = dom (objects rt)" using p(1) by (auto simp: set_object_def move_shape_to_def)
  moreover have "view ?rt p = map_option (map_prod id g) (view rt p)"
    using p sh'(4) ob'(1) g by (simp add: view_def set_object_def move_shape_to_def)
  ultimately show ?thesis using own_views [OF i p(1) refl i1(2) b] by (simp add: updated_def)
qed

lemma own_name:
  assumes "shape_ok sh" and "a \<noteq> JS_ATOM_NULL" and "index_of (sh_prop sh) a = Some i"
  shows "i < length (names (sh_prop sh))" "\<forall>j<length (names (sh_prop sh)). fst (names (sh_prop sh) ! j) = a \<longleftrightarrow> j = i" "pr_atom (sh_prop sh ! i) = a"
proof -
  have nm: "names_ok (sh_prop sh)" using assms(1) by (simp add: shape_ok_def)
  then have i: "i < length (sh_prop sh)" "pr_atom (sh_prop sh ! i) = a" using index_of_Some [OF nm assms(2), of i] assms(3) by simp_all
  then show "i < length (names (sh_prop sh))" "pr_atom (sh_prop sh ! i) = a" by simp_all
  show "\<forall>j<length (names (sh_prop sh)). fst (names (sh_prop sh) ! j) = a \<longleftrightarrow> j = i"
    using nm i assms(2) unfolding names_ok_def names_def by auto
qed

lemma update_flags_inv:
  assumes al: "alloc_ok alloc" and q: "quiet rt" and p: "objects rt p = Some ob" "shapes rt (obj_shape ob) = Some sh"
    and a: "a \<noteq> JS_ATOM_NULL" "index_of (sh_prop sh) a = Some i" and f: "f < 64"
  shows "\<exists>r rt'. js_update_property_flags alloc rt p i f = Some (r, rt') \<and>
     (r = 0 \<and> updated rt p (with_flags a f) rt' \<or> r = -1 \<and> updated rt p id rt')"
proof -
  note n = own_name [OF quietD(1) [OF q p] a]
  have il: "i < length (sh_prop sh)" using n(1) by simp
  note def = js_update_property_flags_def p il
  let ?ns = "names (sh_prop sh)"
  have ni: "?ns ! i = (a, pr_flags (sh_prop sh ! i))" using il n(3) by (simp add: names_def)
  show ?thesis
  proof (cases "f = pr_flags (sh_prop sh ! i)")
    case True
    then have "?ns[i := (a, f)] = ?ns" using ni by (metis list_update_id)
    then have "with_flags a f (entries ?ns (obj_prop ob)) = entries ?ns (obj_prop ob)"
      using entries_update(1) [OF n(1,2) a(1), of f "obj_prop ob"] by simp
    then have "updated rt p (with_flags a f) rt" using q quietD(4) [OF q p] by (simp add: updated_def)
    then show ?thesis using True by (auto simp: def)
  next
    case False
    obtain ok rt1 where 1: "js_shape_prepare_update alloc rt p = Some (ok, rt1)" "quiet rt1" "dom (objects rt1) = dom (objects rt)" "view rt1 = view rt"
        "ok \<longrightarrow> (\<exists>b v. objects rt1 p = Some (ob\<lparr>obj_shape := b\<rparr>) \<and> shapes rt1 b = Some (sh\<lparr>shape_refs := 1, is_hashed := False, shape_hash_next := v\<rparr>))"
      using prepare_update_inv [OF al q p] by blast
    show ?thesis
    proof (cases ok)
      case True
      then obtain b v where 2: "objects rt1 p = Some (ob\<lparr>obj_shape := b\<rparr>)" "shapes rt1 b = Some (sh\<lparr>shape_refs := 1, is_hashed := False, shape_hash_next := v\<rparr>)"
          (is "_ = Some ?sh1") using 1(5) by blast
      let ?ob = "ob\<lparr>obj_shape := b\<rparr>" and ?ps = "(sh_prop sh)[i := set_flags (sh_prop sh ! i) f]"
      let ?sh = "?sh1\<lparr>sh_prop := ?ps\<rparr>"
      have ns: "names ?ps = ?ns[i := (a, f)]" using f n(3) il by (simp add: names_def map_update set_flags_def)
      have q1: "shape_ok ?sh1" "prop_size ?sh1 \<le> length (obj_prop ?ob)" using quietD(1,2) [OF 1(2) 2(1)] 2(2) by auto
      have "shape_ok ?sh"
        using q1(1) shape_flags_ok [of ?sh1 i "f mod 64"] il by (simp add: set_flags_def)
      then have "updated rt1 p (with_flags a f) (set_object (move_shape_to rt1 (obj_shape ?ob) b ?sh) p ?ob)"
        by (intro own_update [OF 1(2) 2(1), of ?sh1]) (use 2 q1 ns entries_update(1) [OF n(1,2) a(1)] in simp_all)
      moreover have "set_object (move_shape_to rt1 b b ?sh) p ?ob = set_shape rt1 b ?sh"
        using 2(1) by (simp add: set_shape_move [symmetric]) (simp add: set_shape_def set_object_def fun_upd_idem)
      ultimately have "updated rt p (with_flags a f) (set_shape rt1 b ?sh)" using updated_from [OF 1(4,3)] by simp
      then show ?thesis using 1(1) True False 2 by (auto simp: def)
    next
      case False': False
      then show ?thesis using 1 False updated_id [OF 1(2-4)] by (auto simp: def)
    qed
  qed
qed

subsection \<open>Compaction\<close>

lemma names_ok_distinct: "names_ok ps \<longleftrightarrow> distinct (filter (\<lambda>a. a \<noteq> JS_ATOM_NULL) (map fst (names ps)))"
proof (induction ps)
  case (Cons p ps)
  have "names_ok (p # ps) \<longleftrightarrow> names_ok ps \<and> (pr_atom p \<noteq> JS_ATOM_NULL \<longrightarrow> (\<forall>j<length ps. pr_atom (ps ! j) \<noteq> pr_atom p))"
    unfolding names_ok_def list.size add_0_right add_Suc_right All_less_Suc2 by (auto simp: eq_commute)
  moreover have "(\<forall>j<length ps. pr_atom (ps ! j) \<noteq> pr_atom p) \<longleftrightarrow> pr_atom p \<notin> set (map pr_atom ps)"
    by (metis in_set_conv_nth length_map nth_map)
  ultimately show ?case using Cons.IH by (auto simp: names_def)
qed (simp add: names_ok_def)

lemma compacted_shape:
  assumes ok: "shape_ok sh" and k: "0 < k" "get_shape_size k m < 2 ^ 29" "prop_count sh - deleted_prop_count sh \<le> m"
    and vs: "prop_count sh \<le> length vs"
  shows "\<exists>pr tab ws. compact_loop (sh_prop sh) 0 [] (replicate k 0) (of_nat (k - 1)) m vs = Some (pr, tab, ws) \<and> length ws = length vs \<and>
     length pr = prop_count sh - deleted_prop_count sh \<and> entries (names pr) ws = entries (names (sh_prop sh)) vs \<and>
     shape_ok (sh\<lparr>prop_hash := tab, prop_hash_mask := of_nat (k - 1), prop_size := m, deleted_prop_count := 0, sh_prop := pr\<rparr>)"
proof -
  define msk where "msk = (of_nat (k - 1) :: u32)"
  let ?live = "\<lambda>x. fst x \<noteq> JS_ATOM_NULL"
  have km: "unat msk + 1 = k" unfolding msk_def using k by (intro of_nat_mask) (simp_all add: get_shape_size_def)
  have live: "length (filter (\<lambda>p. pr_atom p \<noteq> JS_ATOM_NULL) (sh_prop sh)) = prop_count sh - deleted_prop_count sh"
    using ok sum_length_filter_compl [of "\<lambda>p. pr_atom p = JS_ATOM_NULL" "sh_prop sh"] by (simp add: shape_ok_def prop_count_def)
  have h0: "hash_ok [] (replicate k 0) msk" by (rule hash_ok_empty [OF km [symmetric]])
  have "m \<le> 2 ^ 26" using k(2) by (simp add: get_shape_size_def)
  then obtain pr tab ws where 1: "compact_loop (sh_prop sh) 0 [] (replicate k 0) msk m vs = Some (pr, tab, ws)" "hash_ok pr tab msk"
      "names pr = filter ?live (names (sh_prop sh))" "length ws = length vs"
      "take (length pr) ws = map snd (filter (\<lambda>x. pr_atom (fst x) \<noteq> JS_ATOM_NULL) (zip (sh_prop sh) vs))"
    using compact_loop_ok [OF h0, of "sh_prop sh" m 0 vs] live k(3) vs by (auto simp: prop_count_def)
  have len: "length pr = prop_count sh - deleted_prop_count sh"
    using arg_cong [OF 1(3), of length] live by (simp add: names_def filter_map comp_def)
  have "names_ok pr" using ok unfolding shape_ok_def names_ok_distinct 1(3) by (simp add: filter_map comp_def)
  moreover have "filter (\<lambda>p. pr_atom p = JS_ATOM_NULL) pr = []"
  proof -
    have "\<forall>x\<in>set (names pr). fst x \<noteq> JS_ATOM_NULL" unfolding 1(3) by simp
    then show ?thesis by (auto simp: names_def filter_empty_conv)
  qed
  moreover have "get_shape_size (unat msk + 1) m < 2 ^ 29" using k(2) km by simp
  ultimately have "shape_ok (sh\<lparr>prop_hash := tab, prop_hash_mask := msk, prop_size := m, deleted_prop_count := 0, sh_prop := pr\<rparr>)"
    using 1(2) len k(3) by (simp add: shape_ok_def prop_count_def)
  moreover have "entries (names pr) ws = entries (names (sh_prop sh)) vs"
    using entries_compact [OF _ 1(3), of vs ws] vs 1(5) by (simp add: prop_count_def)
  ultimately show ?thesis using 1 len unfolding msk_def by blast
qed

lemma compact_properties_inv:
  assumes al: "alloc_ok alloc" and q: "quiet rt" and p: "objects rt p = Some ob" "shapes rt (obj_shape ob) = Some sh" "\<not> is_hashed sh"
    and s: "JS_PROP_INITIAL_SIZE \<le> prop_size sh"
  shows "\<exists>r rt'. compact_properties alloc rt p = Some (r, rt') \<and> updated rt p id rt'"
proof -
  let ?a = "obj_shape ob" and ?n = "prop_count sh - deleted_prop_count sh"
  define m where "m = max JS_PROP_INITIAL_SIZE ?n"
  note pq = quietD [OF q p(1,2)]
  have i: "inv rt (hashed (shapes rt)) (\<lambda>_. 0)" using q by (simp add: quiet_def)
  have r1: "shape_refs sh = 1" using invD(4) [OF i p(2)] p(3) by blast
  have m: "?n \<le> m" "m \<le> prop_size sh" "0 < m" using s pq(3) by (auto simp: m_def JS_PROP_INITIAL_SIZE_def)
  obtain k where k: "shrink_hash_size (unat (prop_hash_mask sh) + 1) m = Some k" "0 < k" using shrink_hash_size_ok [OF m(3)] by (metis Suc_eq_plus1 zero_less_Suc)
  obtain r mm where 1: "js_malloc_shape alloc rt (get_shape_size k m) = (r, rt\<lparr>rt_mem := mm\<rparr>)"
      "\<And>b. r = Some b \<Longrightarrow> shapes rt b = None \<and> get_shape_size k m < 2 ^ 29" using malloc_shape_inv [OF al i] by metis
  note def = compact_properties_def p m_def [symmetric] m(2) k(1) [unfolded Suc_eq_plus1 [symmetric]] Let_def
  have np: "\<not> prop_size sh < m" using m(2) by simp
  show ?thesis
  proof (cases r)
    case None
    then have "compact_properties alloc rt p = Some (-1, rt\<lparr>rt_mem := mm\<rparr>)" using 1(1) np by (simp add: def)
    then show ?thesis using updated_id [OF quiet_mem [OF q, of mm]] by simp
  next
    case (Some b)
    let ?rt = "rt\<lparr>rt_mem := mm\<rparr>"
    obtain pr tab ws where 2: "compact_loop (sh_prop sh) 0 [] (replicate k 0) (of_nat (k - 1)) m (obj_prop ob) = Some (pr, tab, ws)"
        "length ws = length (obj_prop ob)" "length pr = ?n" "entries (names pr) ws = entries (names (sh_prop sh)) (obj_prop ob)"
        "shape_ok (sh\<lparr>prop_hash := tab, prop_hash_mask := of_nat (k - 1), prop_size := m, deleted_prop_count := 0, sh_prop := pr\<rparr>)" (is "shape_ok ?sh")
      using compacted_shape [OF pq(1) k(2) _ m(1), of "obj_prop ob"] 1(2) [OF Some] pq(2,3) by auto
    let ?ob = "ob\<lparr>obj_shape := b, obj_prop := ws\<rparr>"
    let ?rt1 = "set_object (move_shape_to ?rt ?a b ?sh) p ?ob"
    have u: "updated ?rt p id ?rt1"
      by (rule own_update [OF quiet_mem [OF q, of mm], of p ob sh]) (use p r1 2 1(2) [OF Some] m pq(2) in simp_all)
    then have q1: "inv ?rt1 (hashed (shapes ?rt1)) (\<lambda>_. 0)" by (simp add: updated_def quiet_def)
    have p1: "objects ?rt1 p = Some ?ob" "shapes ?rt1 (obj_shape ?ob) = Some ?sh" by (simp_all add: set_object_def move_shape_to_def)
    obtain ok rt2 vs where 3: "js_realloc_values alloc ?rt1 p m = Some (ok, rt2)" "inv rt2 (hashed (shapes ?rt1)) (\<lambda>_. 0)" "shapes rt2 = shapes ?rt1"
        "objects rt2 = (objects ?rt1)(p \<mapsto> ?ob\<lparr>obj_prop := vs\<rparr>)" "\<forall>q. view rt2 q = view ?rt1 q"
      using realloc_values_keeps [OF al q1 p1, of m] by auto
    have "updated ?rt1 p id rt2" by (rule updated_id) (use 3 p1 in \<open>auto simp: quiet_def\<close>)
    with u have "updated ?rt p (id \<circ> id) rt2" by (rule updated_trans)
    then have "updated rt p id rt2" by (simp add: updated_def)
    moreover have "compact_properties alloc rt p = Some (0, rt2)"
      using 1(1) Some np 2(1,3) 3(1) by (simp add: def)
    ultimately show ?thesis by blast
  qed
qed

subsection \<open>Deletion\<close>

lemma entries_mem: "(a, f, v) \<in> set (entries ns vs) \<longleftrightarrow> (\<exists>i<length ns. i < length vs \<and> ns ! i = (a, f) \<and> vs ! i = v \<and> a \<noteq> JS_ATOM_NULL)"
  by (force simp: entries_def in_set_zip)

definition deleted :: "('m, 'v) shape_runtime \<Rightarrow> nat \<Rightarrow> u32 \<Rightarrow> int \<Rightarrow> ('m, 'v) shape_runtime \<Rightarrow> bool" where
  "deleted rt p a r rt' \<longleftrightarrow>
     r = 1 \<and> updated rt p (without a) rt' \<or>
     updated rt p id rt' \<and> (\<exists>pr l f v. view rt p = Some (pr, l) \<and> (a, f, v) \<in> set l \<and> (r = 0 \<and> even f \<or> r = -1 \<and> odd f))"

text \<open>The deletion from a shape that no other object uses.\<close>

lemma delete_own:
  assumes al: "alloc_ok alloc" and q: "quiet rt" and p: "objects rt p = Some ob" "shapes rt b = Some sh" "\<not> is_hashed sh" "obj_shape ob = b" "obj_prop ob = vs"
    and a: "a \<noteq> JS_ATOM_NULL" "index_of (sh_prop sh) a = Some i" and lpr: "delete_find sh a = Some (Some (lpr, i))"
  shows "\<exists>sh' rt'. unlink_property sh a lpr i = Some sh' \<and>
     (if deleted_prop_count sh' \<ge> 8 \<and> deleted_prop_count sh' \<ge> prop_count sh' div 2
      then do { (_, rt) \<leftarrow> compact_properties alloc (set_object (set_shape rt b sh') p (ob\<lparr>obj_prop := vs[i := u]\<rparr>)) p; Some (1 :: int, rt) }
      else Some (1, set_object (set_shape rt b sh') p (ob\<lparr>obj_prop := vs[i := u]\<rparr>))) = Some (1, rt') \<and>
     updated rt p (without a) rt'"
proof -
  let ?ob = "ob\<lparr>obj_prop := vs[i := u]\<rparr>"
  have p2: "shapes rt (obj_shape ob) = Some sh" using p by simp
  note pq = quietD [OF q p(1) p2]
  have r1: "shape_refs sh = 1" using invD(4) [of rt "hashed (shapes rt)" "\<lambda>_. 0"] q p unfolding quiet_def by blast
  obtain lpr' sh' where 1: "delete_find sh a = Some (Some (lpr', i))" "unlink_property sh a lpr' i = Some sh'" "shape_ok sh'"
      "names (sh_prop sh') = (names (sh_prop sh))[i := (JS_ATOM_NULL, 0)]"
      "sh' = sh\<lparr>sh_prop := sh_prop sh', prop_hash := prop_hash sh', deleted_prop_count := deleted_prop_count sh + 1\<rparr>"
    using unlink_shape_ok [OF pq(1) a] by blast
  define ps tab where "ps = sh_prop sh'" and "tab = prop_hash sh'"
  have 2: "sh' = sh\<lparr>sh_prop := ps, prop_hash := tab, deleted_prop_count := deleted_prop_count sh + 1\<rparr>" using 1(5) by (simp add: ps_def tab_def)
  let ?rt = "set_object (set_shape rt b sh') p ?ob"
  note n = own_name [OF pq(1) a]
  have u: "updated rt p (without a) ?rt" 
    using own_update [OF q p(1) p2 p(3), of sh' b ?ob "without a"] 1(3,4) 2 r1 p pq(2) entries_update(2) [OF n(1,2) a(1), of 0 vs u]
    by (simp add: set_shape_move)
  have p1: "objects ?rt p = Some ?ob" "shapes ?rt (obj_shape ?ob) = Some sh'" "\<not> is_hashed sh'" using 2 p by (simp_all add: set_object_def set_shape_def)
  have lp: "lpr' = lpr" using 1(1) lpr by simp
  show ?thesis
  proof (cases "deleted_prop_count sh' \<ge> 8 \<and> deleted_prop_count sh' \<ge> prop_count sh' div 2")
    case True
    have "deleted_prop_count sh' \<le> prop_count sh'" using 1(3) by (simp add: shape_ok_def prop_count_def)
    then have "JS_PROP_INITIAL_SIZE \<le> prop_size sh'" using True shape_ok_small [OF 1(3)] by (simp add: JS_PROP_INITIAL_SIZE_def)
    then obtain r rt' where 3: "compact_properties alloc ?rt p = Some (r, rt')" "updated ?rt p id rt'"
      using compact_properties_inv [OF al _ p1] u by (auto simp: updated_def)
    have "updated rt p (without a) rt'" using updated_trans [OF u 3(2)] by simp
    then show ?thesis using True 1(2) lp 3(1) by (intro exI [of _ sh'] exI [of _ rt']) auto
  next
    case False
    then show ?thesis using 1(2) lp u by (intro exI [of _ sh'] exI [of _ ?rt]) auto
  qed
qed

lemma delete_property_inv:
  assumes al: "alloc_ok alloc" and q: "quiet rt" and p: "objects rt p = Some ob" "shapes rt (obj_shape ob) = Some sh"
    and a: "a \<noteq> JS_ATOM_NULL" and v: "\<forall>(b, f, v)\<in>set (entries (names (sh_prop sh)) (obj_prop ob)). v \<noteq> None"
  shows "\<exists>r rt'. delete_property alloc undef rt p a = Some (r, rt') \<and> deleted rt p a r rt'"
proof -
  note pq = quietD [OF q p]
  note def = delete_property_def p
  let ?ns = "names (sh_prop sh)"
  show ?thesis
  proof (cases "index_of (sh_prop sh) a")
    case None
    have "delete_find sh a = Some None" using pq(1) by (intro delete_find_missing [OF _ None]) (simp add: shape_ok_def)
    then have "delete_property alloc undef rt p a = Some (1, rt)" by (simp add: def)
    moreover have "\<forall>j<length ?ns. fst (?ns ! j) \<noteq> a" using None by (simp add: index_of_None names_def)
    then have "updated rt p (without a) rt" using q pq(4) unused_name(2) [of ?ns a "obj_prop ob"] by (simp add: updated_def)
    ultimately show ?thesis by (auto simp: deleted_def)
  next
    case (Some i)
    note n = own_name [OF pq(1) a Some]
    have il: "i < length (sh_prop sh)" "i < length (obj_prop ob)" using n(1) pq(2,3) by (simp_all add: prop_count_def)
    have m: "(a, pr_flags (sh_prop sh ! i), obj_prop ob ! i) \<in> set (entries ?ns (obj_prop ob))"
      unfolding entries_mem using il n(3) a by (auto simp: names_def)
    then obtain w where w: "obj_prop ob ! i = Some w" using v by fastforce
    obtain lpr where lpr: "delete_find sh a = Some (Some (lpr, i))" using unlink_shape_ok [OF pq(1) a Some] by blast
    show ?thesis
    proof (cases "even (pr_flags (sh_prop sh ! i))")
      case True
      then have "delete_property alloc undef rt p a = Some (0, rt)" using lpr il by (simp add: def)
      then show ?thesis using m True pq(4) updated_id [OF q] by (auto simp: deleted_def)
    next
      case odd: False
      obtain ok rt1 where 1: "js_shape_prepare_update alloc rt p = Some (ok, rt1)" "quiet rt1" "dom (objects rt1) = dom (objects rt)" "view rt1 = view rt"
          "ok \<longrightarrow> (\<exists>b v. objects rt1 p = Some (ob\<lparr>obj_shape := b\<rparr>) \<and> shapes rt1 b = Some (sh\<lparr>shape_refs := 1, is_hashed := False, shape_hash_next := v\<rparr>))"
        using prepare_update_inv [OF al q p] by blast
      show ?thesis
      proof (cases ok)
        case True
        then obtain b x where 2: "objects rt1 p = Some (ob\<lparr>obj_shape := b\<rparr>)" "shapes rt1 b = Some (sh\<lparr>shape_refs := 1, is_hashed := False, shape_hash_next := x\<rparr>)"
            (is "_ = Some ?sh1") using 1(5) by blast
        have "delete_find ?sh1 a = Some (Some (lpr, i))" using lpr by (simp add: delete_find_def)
        then obtain sh' rt' where 3: "unlink_property ?sh1 a lpr i = Some sh'"
            "(if deleted_prop_count sh' \<ge> 8 \<and> deleted_prop_count sh' \<ge> prop_count sh' div 2
              then do { (_, rt) \<leftarrow> compact_properties alloc (set_object (set_shape rt1 b sh') p (ob\<lparr>obj_shape := b, obj_prop := (obj_prop ob)[i := Some undef]\<rparr>)) p; Some (1 :: int, rt) }
              else Some (1, set_object (set_shape rt1 b sh') p (ob\<lparr>obj_shape := b, obj_prop := (obj_prop ob)[i := Some undef]\<rparr>))) = Some (1, rt')"
            "updated rt1 p (without a) rt'"
          using delete_own [OF al 1(2) 2(1,2) _ _ _ a, of "obj_prop ob" i lpr "Some undef"] Some by auto
        have "delete_property alloc undef rt p a = Some (1, rt')"
          using lpr il odd 1(1) True 2 3(1,2) w by (auto simp: def Let_def split: if_splits)
        then show ?thesis using updated_from [OF 1(4,3) 3(3)] by (auto simp: deleted_def)
      next
        case False
        then have "delete_property alloc undef rt p a = Some (-1, rt1)" using lpr il odd 1(1) by (simp add: def)
        then show ?thesis using m odd pq(4) updated_id [OF 1(2-4)] by (auto simp: deleted_def)
      qed
    qed
  qed
qed

end
