(* ===== verification/Simulation.thy ===== *)
theory Simulation
  imports Main
begin

text \<open>
  Sequences of operations against an abstract specification: the interface of the components whose
  operations return a result and a new state. The number counts the operations that the state still
  allows, for the components whose counters may not overflow.
\<close>

fun run_steps :: "('op \<Rightarrow> 's \<Rightarrow> ('r \<times> 's) option) \<Rightarrow> 'op list \<Rightarrow> 's \<Rightarrow> ('r list \<times> 's) option" where
  "run_steps step [] s = Some ([], s)"
| "run_steps step (c # cs) s =
     (case step c s of
        None \<Rightarrow> None
      | Some (r, s') \<Rightarrow> map_option (\<lambda>(rs, s''). (r # rs, s'')) (run_steps step cs s'))"

fun spec_steps :: "('op \<Rightarrow> 'r \<Rightarrow> 'a \<Rightarrow> 'a \<Rightarrow> bool) \<Rightarrow> 'op list \<Rightarrow> 'r list \<Rightarrow> 'a \<Rightarrow> 'a \<Rightarrow> bool" where
  "spec_steps spec [] [] a b \<longleftrightarrow> a = b"
| "spec_steps spec (c # cs) (r # rs) a b \<longleftrightarrow> (\<exists>a'. spec c r a a' \<and> spec_steps spec cs rs a' b)"
| "spec_steps spec _ _ a b \<longleftrightarrow> False"

locale simulation =
  fixes step :: "'op \<Rightarrow> 's \<Rightarrow> ('r \<times> 's) option"
    and spec :: "'op \<Rightarrow> 'r \<Rightarrow> 'a \<Rightarrow> 'a \<Rightarrow> bool"
    and abst :: "'s \<Rightarrow> 'a"
    and good :: "nat \<Rightarrow> 's \<Rightarrow> bool"
    and legal :: "'op \<Rightarrow> bool"
  assumes step_ok: "good (Suc n) s \<Longrightarrow> legal c \<Longrightarrow> \<exists>r s'. step c s = Some (r, s') \<and> good n s' \<and> spec c r (abst s) (abst s')"
begin

lemma run_refines:
  "good (length cs + n) s \<Longrightarrow> list_all legal cs \<Longrightarrow>
     \<exists>rs s'. run_steps step cs s = Some (rs, s') \<and> good n s' \<and> spec_steps spec cs rs (abst s) (abst s')"
proof (induction cs arbitrary: s)
  case (Cons c cs)
  obtain r s1 where 1: "step c s = Some (r, s1)" "good (length cs + n) s1" "spec c r (abst s) (abst s1)"
    using step_ok [of "length cs + n" s c] Cons.prems by auto
  obtain rs s' where 2: "run_steps step cs s1 = Some (rs, s')" "good n s'" "spec_steps spec cs rs (abst s1) (abst s')"
    using Cons.IH [OF 1(2)] Cons.prems(2) by auto
  then show ?case using 1 by (intro exI [of _ "r # rs"] exI [of _ s']) auto
qed simp

end

end
