(* ===== verification/Object_Heap.thy ===== *)
theory Object_Heap
  imports Object_Update Simulation
begin

text \<open>
  The life of objects, and the contract of the whole component: the objects behave as independent
  lists of properties in insertion order, however their shapes are shared, copied and compacted.
\<close>

subsection \<open>Creation and release\<close>

lemma quietI: "inv rt D (\<lambda>_. 0) \<Longrightarrow> hashed (shapes rt) = D \<Longrightarrow> quiet rt"
  by (simp add: quiet_def)

lemma new_object_inv:
  assumes i: "inv rt D ((\<lambda>_. 0)(a := 1))" and a: "shapes rt a = Some sh" "objects rt p = None" and c: "card (dom (objects rt)) + 1 < 2 ^ 31 - 1"
    and ob: "obj_shape ob = a" "prop_size sh \<le> length (obj_prop ob)"
  shows "inv (set_object rt p ob) D (\<lambda>_. 0)"
proof (rule invI)
  let ?rt = "set_object rt p ob"
  have fu: "finite (users rt x)" for x by (rule finite_users [OF i])
  have pu: "p \<notin> users rt x" for x using a(2) by (auto simp: users_def)
  have c1: "int (card (users ?rt x)) + 0 = int (card (users rt x)) + ((\<lambda>_. 0)(a := 1)) x" for x
    using pu fu ob(1) by (simp add: users_set_object)
  have d: "dom (objects ?rt) = insert p (dom (objects rt))" by (auto simp: set_object_def)
  show "finite (dom (objects ?rt))" "card (dom (objects ?rt)) < 2 ^ 31 - 1" using invD(2) [OF i] c a(2) by (auto simp: d domIff card_insert_if)
  show "sh_inv (int (card (users ?rt x)) + 0) s" if "shapes ?rt x = Some s" for x s
    unfolding c1 using inv_sh [OF i, of x s] that by (simp add: set_object_def)
  show "\<exists>s. shapes ?rt (obj_shape o2) = Some s \<and> prop_size s \<le> length (obj_prop o2)" if "objects ?rt q = Some o2" for q o2
    using that invD(7) [OF i, of q o2] ob a(1) by (auto simp: set_object_def split: if_splits)
qed (use invD(1) [OF i] in \<open>simp_all add: set_object_def\<close>)

lemma drop_reference:
  assumes i: "inv rt (hashed (shapes rt)) ((\<lambda>_. 0)(a := 1))" and a: "shapes rt a = Some sh"
  shows "\<exists>rt'. shape_free rt a = Some rt' \<and> quiet rt' \<and> objects rt' = objects rt \<and> view rt' = view rt"
proof -
  have E0: "((\<lambda>_. 0)(a := (1 :: int)))(a := 0) = (\<lambda>_. 0)" by auto
  have h: "is_hashed sh \<longleftrightarrow> a \<in> hashed (shapes rt)" using a by (auto simp: hashed_def)
  obtain rt' S where 1: "shape_free rt a = Some rt'" "objects rt' = objects rt" "same_shapes (shapes rt) S"
     "if shape_refs sh = 1 then inv rt' (hashed (shapes rt) - {a}) (\<lambda>_. 0) \<and> shapes rt' = S(a := None)
      else inv rt' (hashed (shapes rt)) (\<lambda>_. 0) \<and> S = shapes rt \<and> shapes rt' = S(a \<mapsto> sh\<lparr>shape_refs := shape_refs sh - 1\<rparr>)"
    using free_inv [OF i a _ h] unfolding E0 by (metis fun_upd_same)
  have q: "quiet rt'"
  proof (cases "shape_refs sh = 1")
    case True
    then show ?thesis using 1(4) hashed_same [OF 1(3)] by (intro quietI [of rt' "hashed (shapes rt) - {a}"]) (simp_all add: hashed_upd)
  next
    case False
    then have "hashed (shapes rt') = hashed (shapes rt)" using 1(4) h by (auto simp: hashed_upd)
    then show ?thesis using 1(4) False by (intro quietI [of rt' "hashed (shapes rt)"]) simp_all
  qed
  have "view rt' r = view rt r" for r
  proof (rule view_cong)
    show "objects rt' r = objects rt r" using 1(2) by simp
    fix o2 assume "objects rt r = Some o2"
    then have "shapes rt' (obj_shape o2) \<noteq> None" using invD(7) [of rt'] q 1(2) unfolding quiet_def by fastforce
    then show "map_option sig_of (shapes rt' (obj_shape o2)) = map_option sig_of (shapes rt (obj_shape o2))"
      using 1(4) sig_same_shapes [OF 1(3), of "obj_shape o2"] a by (auto simp: sig_of_def split: if_splits)
  qed
  then show ?thesis using 1(1,2) q by blast
qed

text \<open>A new object \<open>p\<close> without properties, or nothing.\<close>

definition created :: "('m, 'v) shape_runtime \<Rightarrow> u64 \<Rightarrow> nat option \<Rightarrow> ('m, 'v) shape_runtime \<Rightarrow> bool" where
  "created rt pr r rt' \<longleftrightarrow>
     quiet rt' \<and>
     (case r of
        None \<Rightarrow> dom (objects rt') = dom (objects rt) \<and> view rt' = view rt
      | Some p \<Rightarrow> objects rt p = None \<and> dom (objects rt') = insert p (dom (objects rt)) \<and> view rt' = (view rt)(p \<mapsto> (pr, [])))"

lemma new_from_shape_inv:
  assumes al: "alloc_ok alloc" and i: "inv rt (hashed (shapes rt)) ((\<lambda>_. 0)(a := 1))" and a: "shapes rt a = Some sh" "sh_prop sh = []"
    and c: "card (dom (objects rt)) + 1 < 2 ^ 31 - 1"
  shows "\<exists>r rt'. JS_NewObjectFromShape alloc rt a = Some (r, rt') \<and> created rt (proto sh) r rt'"
proof -
  obtain r m where 1: "alloc (rt_mem rt) (\<lambda>p. objects rt p = None) 72 = (r, m)" by fastforce
  let ?rt = "rt\<lparr>rt_mem := m\<rparr>"
  have fail: "\<exists>rt'. shape_free (rt\<lparr>rt_mem := x\<rparr>) a = Some rt' \<and> created rt (proto sh) None rt'" for x
    using drop_reference [of "rt\<lparr>rt_mem := x\<rparr>" a sh] inv_mem [OF i, of x] a(1) by (auto simp: created_def)
  show ?thesis
  proof (cases r)
    case None
    then show ?thesis using fail [of m] 1 a(1) by (auto simp: JS_NewObjectFromShape_def)
  next
    case (Some p)
    then have p: "objects rt p = None" using al [unfolded alloc_ok_def, rule_format, of "rt_mem rt" "\<lambda>p. objects rt p = None" 72 p m] 1 by simp
    obtain ok x where 2: "js_malloc_block alloc ?rt (16 * prop_size sh) = (ok, ?rt\<lparr>rt_mem := x\<rparr>)" using malloc_block_inv [OF al inv_mem [OF i, of m]] by metis
    let ?ob = "\<lparr>obj_shape = a, obj_prop = replicate (prop_size sh) None\<rparr>"
    let ?rt1 = "set_object (rt\<lparr>rt_mem := x\<rparr>) p ?ob"
    show ?thesis
    proof (cases ok)
      case True
      have "inv ?rt1 (hashed (shapes rt)) (\<lambda>_. 0)"
        using new_object_inv [OF inv_mem [OF i, of x], of sh p ?ob] a(1) p c by simp
      then have "quiet ?rt1" by (intro quietI [of _ "hashed (shapes rt)"]) (simp_all add: set_object_def)
      moreover have "view ?rt1 q = ((view rt)(p \<mapsto> (proto sh, []))) q" for q
        using a by (cases "q = p") (simp_all add: view_def set_object_def entries_def split: option.split)
      then have "view ?rt1 = (view rt)(p \<mapsto> (proto sh, []))" by blast
      ultimately have "created rt (proto sh) (Some p) ?rt1" using p by (auto simp: created_def set_object_def)
      then show ?thesis using 1 Some 2 True a(1) by (auto simp: JS_NewObjectFromShape_def)
    next
      case False
      then show ?thesis using fail [of x] 1 Some 2 a(1) by (auto simp: JS_NewObjectFromShape_def)
    qed
  qed
qed

lemma new_shape_inv:
  assumes al: "alloc_ok alloc" and q: "quiet rt"
  shows "\<exists>r rt'. js_new_shape alloc rt pr = Some (r, rt') \<and> objects rt' = objects rt \<and> view rt' = view rt \<and>
     (case r of None \<Rightarrow> quiet rt'
      | Some a \<Rightarrow> inv rt' (hashed (shapes rt')) ((\<lambda>_. 0)(a := 1)) \<and> (\<exists>sh. shapes rt' a = Some sh \<and> proto sh = pr \<and> sh_prop sh = []))"
proof -
  let ?D = "hashed (shapes rt)" and ?n = "get_shape_size JS_PROP_INITIAL_HASH_SIZE JS_PROP_INITIAL_SIZE"
  have i: "inv rt ?D (\<lambda>_. 0)" using q by (simp add: quiet_def)
  have "\<exists>c rt1. (if 2 * (shape_hash_count rt + 1) > 2 ^ shape_hash_bits rt then resize_shape_hash alloc rt (shape_hash_bits rt + 1) else Some (0, rt)) = Some (c, rt1) \<and>
      inv rt1 ?D (\<lambda>_. 0) \<and> objects rt1 = objects rt \<and> same_shapes (shapes rt) (shapes rt1)"
  proof (cases "2 * (shape_hash_count rt + 1) > 2 ^ shape_hash_bits rt")
    case True
    have "shape_hash_bits rt + 1 < 31" using invD(1) [OF i] by (simp add: table_part_def)
    from resize_shape_hash_ok [OF invD(1) [OF i] al this] obtain c m S tab bits where
      1: "resize_shape_hash alloc rt (shape_hash_bits rt + 1) = Some (c, rt\<lparr>rt_mem := m, shapes := S, shape_hash_tab := tab, shape_hash_bits := bits\<rparr>)"
        "table_part S ?D tab bits" "same_shapes (shapes rt) S" by blast
    have "inv (rt\<lparr>rt_mem := m, shapes := S, shape_hash_tab := tab, shape_hash_bits := bits\<rparr>) ?D (\<lambda>_. 0)"
      using inv_chains [OF i 1(3,2), where m = m and c = "shape_hash_count rt"] by simp
    then show ?thesis using 1 True by auto
  next
    case False
    then show ?thesis using i by simp
  qed
  then obtain c rt1 where 1: "(if 2 * (shape_hash_count rt + 1) > 2 ^ shape_hash_bits rt then resize_shape_hash alloc rt (shape_hash_bits rt + 1) else Some (0, rt)) = Some (c, rt1)"
      "inv rt1 ?D (\<lambda>_. 0)" "objects rt1 = objects rt" "same_shapes (shapes rt) (shapes rt1)" by blast
  have v1: "view rt1 = view rt" by (rule view_same_shapes [OF 1(3,4)])
  have h1: "hashed (shapes rt1) = ?D" by (rule hashed_same [OF 1(4)])
  obtain r m where 2: "js_malloc_shape alloc rt1 ?n = (r, rt1\<lparr>rt_mem := m\<rparr>)" "inv (rt1\<lparr>rt_mem := m\<rparr>) ?D (\<lambda>_. 0)"
      "\<And>b. r = Some b \<Longrightarrow> shapes rt1 b = None \<and> ?n < 2 ^ 29" using malloc_shape_inv [OF al 1(2)] by blast
  show ?thesis
  proof (cases r)
    case None
    then have "quiet (rt1\<lparr>rt_mem := m\<rparr>)" using 2(2) h1 by (simp add: quiet_def)
    moreover have "js_new_shape alloc rt pr = Some (None, rt1\<lparr>rt_mem := m\<rparr>)"
      unfolding js_new_shape_def js_new_shape2_def 1(1) using 2(1) None by simp
    ultimately show ?thesis using 1(3) v1 by simp
  next
    case (Some a)
    let ?sh = "\<lparr>prop_hash = replicate JS_PROP_INITIAL_HASH_SIZE 0, shape_refs = 1, is_hashed = True, has_small_array_index = False,
       sh_hash = shape_initial_hash pr, prop_hash_mask = of_nat (JS_PROP_INITIAL_HASH_SIZE - 1), prop_size = JS_PROP_INITIAL_SIZE,
       deleted_prop_count = 0, shape_hash_next = None, proto = pr, sh_prop = []\<rparr>"
    let ?rt = "set_shape (rt1\<lparr>rt_mem := m\<rparr>) a ?sh"
    have ok: "shape_ok ?sh" using hash_ok_empty [of 4 3]
      by (simp add: shape_ok_def JS_PROP_INITIAL_HASH_SIZE_def JS_PROP_INITIAL_SIZE_def names_ok_def prop_count_def get_shape_size_def)
    have i1: "inv ?rt ?D ((\<lambda>_. 0)(a := 1))" using fresh_inv [OF 2(2) _ ok] 2(3) [OF Some] by simp
    have a: "a \<notin> ?D" unfolding h1 [symmetric] using 2(3) [OF Some] by (auto simp: hashed_def)
    have Sa: "shapes ?rt a = Some ?sh" by (simp add: set_shape_def)
    from link_inv [OF i1 a Sa] obtain rt2 v where 3: "js_shape_hash_link ?rt a = Some rt2" "inv rt2 (insert a ?D) ((\<lambda>_. 0)(a := 1))" "objects rt2 = objects ?rt"
        "shapes rt2 = (shapes ?rt)(a \<mapsto> ?sh\<lparr>shape_hash_next := v\<rparr>)" by blast
    have s2: "shapes rt2 = (shapes rt1)(a \<mapsto> ?sh\<lparr>shape_hash_next := v\<rparr>)" "objects rt2 = objects rt" using 3(3,4) 1(3) by (simp_all add: set_shape_def)
    have h2: "hashed (shapes rt2) = insert a ?D" unfolding s2 by (simp add: hashed_upd h1)
    have "view rt2 q = view rt1 q" for q
      by (rule view_others [of _ _ _ a]) (use s2 1(3) 2(3) [OF Some] invD(7) [OF 1(2), of q] in \<open>auto simp: users_def\<close>)
    then have "view rt2 = view rt" using v1 by auto
    moreover have "js_new_shape alloc rt pr = Some (Some a, rt2)"
      unfolding js_new_shape_def js_new_shape2_def 1(1) using 2(1) Some 3(1) by (simp add: Let_def)
    ultimately show ?thesis using 3(2) h2 s2 by (intro exI [of _ "Some a"] exI [of _ rt2]) simp
  qed
qed

lemma new_object_class_inv:
  assumes al: "alloc_ok alloc" and q: "quiet rt" and c: "card (dom (objects rt)) + 1 < 2 ^ 31 - 1"
  shows "\<exists>r rt'. JS_NewObjectProtoClass alloc rt pr = Some (r, rt') \<and> created rt pr r rt'"
proof -
  have i: "inv rt (hashed (shapes rt)) (\<lambda>_. 0)" using q by (simp add: quiet_def)
  have from_view: "created rt1 pr r rt' \<Longrightarrow> objects rt1 = objects rt \<Longrightarrow> view rt1 = view rt \<Longrightarrow> created rt pr r rt'" for rt1 r rt'
    by (cases r) (simp_all add: created_def)
  obtain r where r: "find_hashed_shape_proto rt pr = Some r"
      "\<And>a. r = Some a \<Longrightarrow> a \<in> hashed (shapes rt) \<and> (\<exists>sh. shapes rt a = Some sh \<and> proto sh = pr \<and> sh_prop sh = [])"
    using find_proto_ok [OF invD(1) [OF i]] by blast
  show ?thesis
  proof (cases r)
    case (Some a)
    then obtain sh where sh: "shapes rt a = Some sh" "proto sh = pr" "sh_prop sh = []" "is_hashed sh" using r(2) by (fastforce simp: hashed_def)
    let ?sh = "sh\<lparr>shape_refs := shape_refs sh + 1\<rparr>"
    obtain rt1 where 1: "js_dup_shape rt a = Some rt1" "inv rt1 (hashed (shapes rt)) ((\<lambda>_. 0)(a := 1))" "objects rt1 = objects rt"
        "shapes rt1 = (shapes rt)(a \<mapsto> ?sh)" using dup_inv [OF i sh(1) refl sh(4)] by blast
    have "hashed (shapes rt1) = hashed (shapes rt)" using 1(4) sh by (auto simp: hashed_def)
    then obtain r' rt' where 2: "JS_NewObjectFromShape alloc rt1 a = Some (r', rt')" "created rt1 (proto ?sh) r' rt'"
      using new_from_shape_inv [OF al, of rt1 a ?sh] 1 c sh(3) by auto
    have "view rt1 q = view rt q" for q by (rule view_cong) (use 1(3,4) sh(1) in \<open>auto simp: sig_of_def\<close>)
    then have "view rt1 = view rt" by blast
    then have "created rt pr r' rt'" using from_view [of rt1] 2(2) 1(3) sh(2) by simp
    then show ?thesis using r(1) Some 1(1) 2(1) by (auto simp: JS_NewObjectProtoClass_def)
  next
    case None
    obtain s rt1 where 1: "js_new_shape alloc rt pr = Some (s, rt1)" "objects rt1 = objects rt" "view rt1 = view rt"
        "case s of None \<Rightarrow> quiet rt1
         | Some a \<Rightarrow> inv rt1 (hashed (shapes rt1)) ((\<lambda>_. 0)(a := 1)) \<and> (\<exists>sh. shapes rt1 a = Some sh \<and> proto sh = pr \<and> sh_prop sh = [])"
      using new_shape_inv [OF al q] by blast
    show ?thesis
    proof (cases s)
      case None
      then show ?thesis using 1 r(1) \<open>r = None\<close> by (auto simp: JS_NewObjectProtoClass_def created_def)
    next
      case (Some a)
      then obtain sh where sh: "inv rt1 (hashed (shapes rt1)) ((\<lambda>_. 0)(a := 1))" "shapes rt1 a = Some sh" "proto sh = pr" "sh_prop sh = []" using 1(4) by auto
      then obtain r' rt' where 2: "JS_NewObjectFromShape alloc rt1 a = Some (r', rt')" "created rt1 pr r' rt'"
        using new_from_shape_inv [OF al sh(1,2,4)] 1(2) c by auto
      then show ?thesis using from_view [OF 2(2) 1(2,3)] 1(1) r(1) Some None by (auto simp: JS_NewObjectProtoClass_def)
    qed
  qed
qed

lemma release_inv:
  assumes q: "quiet rt" and p: "objects rt p = Some ob"
  shows "\<exists>rt'. object_release rt p = Some rt' \<and> quiet rt' \<and> dom (objects rt') = dom (objects rt) - {p} \<and> view rt' = (view rt)(p := None)"
proof -
  let ?a = "obj_shape ob" and ?rt = "rt\<lparr>objects := (objects rt)(p := None)\<rparr>"
  have i: "inv rt (hashed (shapes rt)) (\<lambda>_. 0)" using q by (simp add: quiet_def)
  obtain sh where sh: "shapes rt ?a = Some sh" using invD(7) [OF i p] by blast
  have u: "users ?rt x = users rt x - {p}" for x by (auto simp: users_def)
  have c: "int (card (users ?rt x)) + ((\<lambda>_. 0)(?a := 1)) x = int (card (users rt x)) + 0" for x
  proof (cases "x = ?a")
    case True
    then have "p \<in> users rt x" using p by (auto simp: users_def)
    from card_Suc_Diff1 [OF finite_users [OF i] this] show ?thesis using True by (simp add: u)
  next
    case False
    then have "p \<notin> users rt x" using p by (auto simp: users_def)
    then show ?thesis using False by (simp add: u)
  qed
  have d: "dom (objects ?rt) = dom (objects rt) - {p}" by auto
  have "inv ?rt (hashed (shapes rt)) ((\<lambda>_. 0)(?a := 1))"
  proof (rule invI)
    show "finite (dom (objects ?rt))" "card (dom (objects ?rt)) < 2 ^ 31 - 1"
      using invD(2,3) [OF i] card_Diff1_le [of "dom (objects rt)" p] unfolding d by auto
    show "sh_inv (int (card (users ?rt x)) + ((\<lambda>_. 0)(?a := 1)) x) s" if "shapes ?rt x = Some s" for x s
      unfolding c using inv_sh [OF i, of x s] that by simp
    show "((\<lambda>_. 0)(?a := 1)) x = 0" if "shapes ?rt x = None" for x using that sh by auto
    show "\<exists>s. shapes ?rt (obj_shape o2) = Some s \<and> prop_size s \<le> length (obj_prop o2)" if "objects ?rt r = Some o2" for r o2
      using that invD(7) [OF i, of r o2] by (auto split: if_splits)
  qed (use invD(1) [OF i] in simp_all)
  then obtain rt1 where 1: "shape_free ?rt ?a = Some rt1" "quiet rt1" "objects rt1 = objects ?rt" "view rt1 = view ?rt"
    using drop_reference [of ?rt ?a sh] sh by auto
  obtain rt2 where 2: "shape_free rt ?a = Some rt2" "rt1 = rt2\<lparr>objects := (objects rt)(p := None)\<rparr>"
    using 1(1) unfolding shape_free_objects by blast
  have "rt2\<lparr>objects := objects rt\<rparr> = rt2" using 2(1) shape_free_objects [where rt = rt and X = "objects rt" and a = ?a] by simp
  then have "objects rt2 = objects rt" by (metis shape_runtime.select_convs(6) shape_runtime.surjective shape_runtime.update_convs(6))
  then have "object_release rt p = Some rt1" using p 2 by (simp add: object_release_def)
  moreover have "view ?rt r = ((view rt)(p := None)) r" for r by (simp add: view_def split: option.split)
  then have "view ?rt = (view rt)(p := None)" by blast
  ultimately show ?thesis using 1(2-4) by auto
qed

subsection \<open>Defining a property\<close>

lemma write_value:
  fixes rt :: "('m, 'v) shape_runtime" and v :: "'v option"
  assumes q: "quiet rt" and p: "objects rt p = Some ob" "shapes rt (obj_shape ob) = Some sh" "names (sh_prop sh) = ns @ [(a, f)]" and a: "a \<noteq> JS_ATOM_NULL"
  defines "rt' \<equiv> set_object rt p (ob\<lparr>obj_prop := (obj_prop ob)[length ns := v]\<rparr>)"
  shows "length ns < length (obj_prop ob)" "quiet rt'" "\<And>q. q \<noteq> p \<Longrightarrow> view rt' q = view rt q"
    "view rt' p = Some (proto sh, entries ns (obj_prop ob) @ [(a, f, v)])"
proof -
  note pq = quietD [OF q p(1,2)]
  have len: "prop_count sh = Suc (length ns)" using arg_cong [OF p(3), of length] by (simp add: prop_count_def)
  then show l: "length ns < length (obj_prop ob)" using pq(2,3) by simp
  have "inv rt' (hashed (shapes rt)) (\<lambda>_. 0)" unfolding rt'_def
    by (rule values_inv [OF _ p(1) _ p(2)]) (use q pq(2) in \<open>simp_all add: quiet_def\<close>)
  then show "quiet rt'" by (simp add: quiet_def rt'_def set_object_def)
  show "view rt' q = view rt q" if "q \<noteq> p" for q using that by (simp add: rt'_def view_def set_object_def split: option.split)
  show "view rt' p = Some (proto sh, entries ns (obj_prop ob) @ [(a, f, v)])"
    using p l entries_snoc [OF l a, of f v] by (simp add: rt'_def view_def set_object_def)
qed

lemma define_inv:
  assumes al: "alloc_ok alloc" and q: "quiet rt" and p: "objects rt p = Some ob" "shapes rt (obj_shape ob) = Some sh" and a: "a \<noteq> JS_ATOM_NULL" and f: "f < 64"
  shows "\<exists>r rt'. JS_DefinePrivateField alloc f rt p a v = Some (r, rt') \<and>
     (r = -1 \<and> updated rt p id rt' \<or> r = 0 \<and> updated rt p (\<lambda>l. l @ [(a, f, Some v)]) rt' \<and> index_of (sh_prop sh) a = None)"
proof -
  note pq = quietD [OF q p]
  have find: "find_own_property1 sh a = Some (index_of (sh_prop sh) a)" using find_property [OF _ _ a] pq(1) by (simp add: shape_ok_def)
  note def = JS_DefinePrivateField_def p find
  show ?thesis
  proof (cases "index_of (sh_prop sh) a")
    case (Some i)
    then show ?thesis using updated_id [OF q] by (simp add: def)
  next
    case None
    obtain r rt1 where 1: "add_property alloc rt p a f = Some (r, rt1)" "added rt p a f r rt1" using add_property_inv [OF al q p a None f] by blast
    show ?thesis
    proof (cases r)
      case None
      then have "updated rt p id rt1" using 1(2) by (auto simp: added_def updated_def map_prod.id option.map_id)
      then show ?thesis using 1(1) \<open>index_of (sh_prop sh) a = None\<close> None by (simp add: def)
    next
      case (Some i)
      obtain ob1 sh1 ns where 2: "objects rt1 p = Some ob1" "shapes rt1 (obj_shape ob1) = Some sh1" "names (sh_prop sh1) = ns @ [(a, f)]" "i = length ns"
          "view rt p = Some (proto sh1, entries ns (obj_prop ob1))" "quiet rt1" using 1(2) Some by (auto simp: added_def)
      note l = write_value(1) [OF 2(6,1,2,3) a] and w = write_value(2-4) [OF 2(6,1,2,3) a, where v = "Some v"]
      let ?rt = "set_object rt1 p (ob1\<lparr>obj_prop := (obj_prop ob1)[length ns := Some v]\<rparr>)"
      have "dom (objects ?rt) = dom (objects rt)" using 1(2) 2(1) by (auto simp: added_def set_object_def)
      then have "updated rt p (\<lambda>l. l @ [(a, f, Some v)]) ?rt" using w 2(5) 1(2) by (simp add: updated_def added_def)
      moreover have "JS_DefinePrivateField alloc f rt p a v = Some (0, ?rt)" using 1(1) None Some 2(1,4) l by (simp add: def)
      ultimately show ?thesis using None by blast
    qed
  qed
qed

end
