(* ===== verification/Object_Refine.thy ===== *)
theory Object_Refine
  imports Object_Heap Simulation
begin

text \<open>
  The properties of objects against their specification: lists of properties in insertion order,
  one for each object, with no shapes at all.
\<close>

subsection \<open>Looking up a property\<close>

definition find_own_property :: "('m, 'v) shape_runtime \<Rightarrow> nat \<Rightarrow> u32 \<Rightarrow> (nat \<times> 'v option) option option" where
  "find_own_property rt p a =
     do {
       ob \<leftarrow> objects rt p;
       sh \<leftarrow> shapes rt (obj_shape ob);
       r \<leftarrow> find_own_property1 sh a;
       (case r of
          None \<Rightarrow> Some None
        | Some i \<Rightarrow> do { pr \<leftarrow> rd (sh_prop sh) i; v \<leftarrow> rd (obj_prop ob) i; Some (Some (pr_flags pr, v)) })
     }"

subsection \<open>Operations\<close>

datatype 'v obj_op =
    NewObject u64
  | Define nat u32 nat 'v
  | SetFlags nat u32 nat
  | Delete nat u32
  | Release nat

text \<open>
  Running an operation: the result is the code that the function returns, the address for a new
  object, \<open>- 1\<close> where the object or the property does not exist.
\<close>

definition set_property_flags :: "'m alloc_fn \<Rightarrow> ('m, 'v) shape_runtime \<Rightarrow> nat \<Rightarrow> u32 \<Rightarrow> nat \<Rightarrow> (int \<times> ('m, 'v) shape_runtime) option" where
  "set_property_flags alloc rt p a f =
     do {
       ob \<leftarrow> objects rt p;
       sh \<leftarrow> shapes rt (obj_shape ob);
       r \<leftarrow> find_own_property1 sh a;
       (case r of None \<Rightarrow> Some (-1, rt) | Some i \<Rightarrow> js_update_property_flags alloc rt p i f)
     }"

definition new_result :: "nat option \<Rightarrow> int" where
  "new_result r = (case r of None \<Rightarrow> -1 | Some p \<Rightarrow> int p)"

fun run_op :: "'m alloc_fn \<Rightarrow> 'v \<Rightarrow> 'v obj_op \<Rightarrow> ('m, 'v) shape_runtime \<Rightarrow> (int \<times> ('m, 'v) shape_runtime) option" where
  "run_op alloc undef (NewObject pr) rt = map_option (\<lambda>(r, rt). (new_result r, rt)) (JS_NewObjectProtoClass alloc rt pr)"
| "run_op alloc undef (Define p a f v) rt = (if objects rt p = None then Some (-1, rt) else JS_DefinePrivateField alloc f rt p a v)"
| "run_op alloc undef (SetFlags p a f) rt = (if objects rt p = None then Some (-1, rt) else set_property_flags alloc rt p a f)"
| "run_op alloc undef (Delete p a) rt = (if objects rt p = None then Some (-1, rt) else delete_property alloc undef rt p a)"
| "run_op alloc undef (Release p) rt = (if objects rt p = None then Some (-1, rt) else map_option (Pair 0) (object_release rt p))"

fun op_legal :: "'v obj_op \<Rightarrow> bool" where
  "op_legal (Define p a f v) \<longleftrightarrow> a \<noteq> JS_ATOM_NULL \<and> f < 64"
| "op_legal (SetFlags p a f) \<longleftrightarrow> a \<noteq> JS_ATOM_NULL \<and> f < 64"
| "op_legal (Delete p a) \<longleftrightarrow> a \<noteq> JS_ATOM_NULL"
| "op_legal _ \<longleftrightarrow> True"

subsection \<open>The specification\<close>

type_synonym 'v prop_maps = "nat \<Rightarrow> (u64 \<times> (u32 \<times> nat \<times> 'v) list) option"

text \<open>
  Every operation may fail with \<open>- 1\<close> for want of memory and then changes nothing. A definition
  appends the property, unless the name is taken; a deletion removes a property whose flags have
  the configurable bit.
\<close>

fun spec_op :: "'v obj_op \<Rightarrow> int \<Rightarrow> 'v prop_maps \<Rightarrow> 'v prop_maps \<Rightarrow> bool" where
  "spec_op (NewObject pr) r A A' \<longleftrightarrow> r = -1 \<and> A' = A \<or> (\<exists>p. r = int p \<and> A p = None \<and> A' = A(p \<mapsto> (pr, [])))"
| "spec_op (Define p a f v) r A A' \<longleftrightarrow>
     r = -1 \<and> A' = A \<or>
     (\<exists>pr l. r = 0 \<and> A p = Some (pr, l) \<and> a \<notin> fst ` set l \<and> A' = A(p \<mapsto> (pr, l @ [(a, f, v)])))"
| "spec_op (SetFlags p a f) r A A' \<longleftrightarrow>
     r = -1 \<and> A' = A \<or>
     (\<exists>pr l. r = 0 \<and> A p = Some (pr, l) \<and> a \<in> fst ` set l \<and> A' = A(p \<mapsto> (pr, with_flags a f l)))"
| "spec_op (Delete p a) r A A' \<longleftrightarrow>
     (case A p of
        None \<Rightarrow> r = -1 \<and> A' = A
      | Some (pr, l) \<Rightarrow>
          r = 1 \<and> A' = A(p \<mapsto> (pr, without a l)) \<or>
          A' = A \<and> (\<exists>f v. (a, f, v) \<in> set l \<and> (r = 0 \<and> even f \<or> r = -1 \<and> odd f)))"
| "spec_op (Release p) r A A' \<longleftrightarrow> (if A p = None then r = -1 \<and> A' = A else r = 0 \<and> A' = A(p := None))"

text \<open>What a runtime stands for, and when it is well-formed with room for \<open>n\<close> more objects.\<close>

definition plain :: "(u32 \<times> nat \<times> 'v option) list \<Rightarrow> (u32 \<times> nat \<times> 'v) list" where
  "plain l = map (\<lambda>(a, f, v). (a, f, the v)) l"

definition properties :: "('m, 'v) shape_runtime \<Rightarrow> 'v prop_maps" where
  "properties rt p = map_option (map_prod id plain) (view rt p)"

definition values_set :: "('m, 'v) shape_runtime \<Rightarrow> bool" where
  "values_set rt \<longleftrightarrow> (\<forall>p pr l. view rt p = Some (pr, l) \<longrightarrow> (\<forall>(a, f, v)\<in>set l. v \<noteq> None))"

definition heap_ok :: "nat \<Rightarrow> ('m, 'v) shape_runtime \<Rightarrow> bool" where
  "heap_ok n rt \<longleftrightarrow> quiet rt \<and> values_set rt \<and> card (dom (objects rt)) + n < 2 ^ 31 - 1"

subsection \<open>One operation\<close>

lemma plain_simps [simp]: "plain [] = []" "plain ((a, f, v) # l) = (a, f, the v) # plain l" "plain (k @ l) = plain k @ plain l"
  "plain (with_flags a g l) = with_flags a g (plain l)" "plain (without a l) = without a (plain l)" "fst ` set (plain l) = fst ` set l"
  by (induction l) (auto simp: plain_def with_flags_def without_def)

lemma plain_mem: "(a, f, v) \<in> set l \<Longrightarrow> (a, f, the v) \<in> set (plain l)"
  by (force simp: plain_def)

lemma view_object: "quiet rt \<Longrightarrow> view rt p = None \<longleftrightarrow> objects rt p = None"
  using invD(7) [of rt "hashed (shapes rt)" "\<lambda>_. 0" p] unfolding quiet_def by (fastforce simp: view_def split: option.splits)

lemma object_shape:
  assumes "quiet rt" and "objects rt p \<noteq> None"
  obtains ob sh where "objects rt p = Some ob" "shapes rt (obj_shape ob) = Some sh" "view rt p = Some (proto sh, entries (names (sh_prop sh)) (obj_prop ob))"
proof -
  obtain ob where ob: "objects rt p = Some ob" using assms(2) by blast
  then obtain sh where "shapes rt (obj_shape ob) = Some sh" using invD(7) assms(1) unfolding quiet_def by blast
  then show ?thesis using that ob by (simp add: view_def)
qed

lemma updated_properties:
  assumes u: "updated rt p g rt'" and p: "view rt p = Some (pr, l)"
  shows "properties rt' = (properties rt)(p \<mapsto> (pr, plain (g l)))"
proof
  fix q
  show "properties rt' q = ((properties rt)(p \<mapsto> (pr, plain (g l)))) q"
    using u p by (cases "q = p") (simp_all add: updated_def properties_def)
qed

lemma updated_heap:
  assumes u: "updated rt p g rt'" and h: "heap_ok n rt" and g: "\<And>l. \<forall>(a, f, v)\<in>set l. v \<noteq> None \<Longrightarrow> \<forall>(a, f, v)\<in>set (g l). v \<noteq> None"
  shows "heap_ok n rt'"
proof -
  have v: "\<forall>(a, f, w)\<in>set l. w \<noteq> None" if "view rt q = Some (pr, l)" for q pr l
    using h that unfolding heap_ok_def values_set_def by blast
  have "\<forall>(a, f, w)\<in>set l. w \<noteq> None" if l: "view rt' q = Some (pr, l)" for q pr l
  proof (cases "q = p")
    case True
    then obtain l0 where "view rt p = Some (pr, l0)" "l = g l0" using u l by (auto simp: updated_def)
    then show ?thesis using g [OF v] by blast
  next
    case False
    then show ?thesis using u l v by (simp add: updated_def)
  qed
  then show ?thesis using u h unfolding heap_ok_def values_set_def by (simp add: updated_def)
qed

lemma same_properties: "updated rt p id rt' \<Longrightarrow> properties rt' = properties rt"
proof
  fix q assume "updated rt p id rt'"
  then show "properties rt' q = properties rt q"
    by (cases "q = p") (simp_all add: updated_def properties_def map_prod.id option.map_id)
qed

lemma index_of_entries:
  assumes "shape_ok sh" and "prop_count sh \<le> length vs" and "a \<noteq> JS_ATOM_NULL"
  shows "index_of (sh_prop sh) a = None \<longleftrightarrow> a \<notin> fst ` set (entries (names (sh_prop sh)) vs)"
proof -
  have "fst ` set (entries (names (sh_prop sh)) vs) = set (filter (\<lambda>a. a \<noteq> JS_ATOM_NULL) (map fst (names (sh_prop sh))))"
    using entries_names [of "names (sh_prop sh)" vs] assms(2) by (metis list.set_map names_simps(4) prop_count_def)
  moreover have "index_of (sh_prop sh) a = None \<longleftrightarrow> a \<notin> set (map pr_atom (sh_prop sh))"
    unfolding index_of_None by (metis in_set_conv_nth length_map nth_map)
  moreover have "map fst (names (sh_prop sh)) = map pr_atom (sh_prop sh)" by (simp add: names_def)
  ultimately show ?thesis using assms(3) by (simp only: set_filter mem_Collect_eq) blast
qed

text \<open>The steps on an object that exists.\<close>

lemma heapD: "heap_ok n rt \<Longrightarrow> quiet rt" "heap_ok (Suc n) rt \<Longrightarrow> heap_ok n rt"
  by (simp_all add: heap_ok_def)

lemma keeps_values:
  assumes "\<forall>(b, f, v)\<in>set l. v \<noteq> None"
  shows "\<forall>(b, f, v)\<in>set (with_flags a g l). v \<noteq> None" "\<forall>(b, f, v)\<in>set (without a l). v \<noteq> None"
  using assms by (fastforce simp: with_flags_def without_def split: if_splits)+

lemma define_step:
  assumes al: "alloc_ok alloc" and h: "heap_ok n rt" and p: "objects rt p \<noteq> None" and a: "a \<noteq> JS_ATOM_NULL" "f < 64"
  shows "\<exists>r rt'. JS_DefinePrivateField alloc f rt p a v = Some (r, rt') \<and> heap_ok n rt' \<and> spec_op (Define p a f v) r (properties rt) (properties rt')"
proof -
  obtain ob sh where o: "objects rt p = Some ob" "shapes rt (obj_shape ob) = Some sh" "view rt p = Some (proto sh, entries (names (sh_prop sh)) (obj_prop ob))"
    using object_shape [OF heapD(1) [OF h] p] .
  obtain r rt' where 1: "JS_DefinePrivateField alloc f rt p a v = Some (r, rt')"
      "r = -1 \<and> updated rt p id rt' \<or> r = 0 \<and> updated rt p (\<lambda>l. l @ [(a, f, Some v)]) rt' \<and> index_of (sh_prop sh) a = None"
    using define_inv [OF al heapD(1) [OF h] o(1,2) a] by blast
  have "a \<notin> fst ` set (entries (names (sh_prop sh)) (obj_prop ob))" if "index_of (sh_prop sh) a = None"
    using that index_of_entries [OF quietD(1) [OF heapD(1) [OF h] o(1,2)] _ a(1), of "obj_prop ob"] quietD(2,3) [OF heapD(1) [OF h] o(1,2)] by simp
  then have "spec_op (Define p a f v) r (properties rt) (properties rt')"
    using 1(2) same_properties [of rt p rt'] updated_properties [OF _ o(3), of "\<lambda>l. l @ [(a, f, Some v)]" rt'] o(3)
    by (auto simp: properties_def)
  moreover have "heap_ok n rt'" using 1(2) updated_heap [OF _ h, of p _ rt'] by fastforce
  ultimately show ?thesis using 1(1) by blast
qed

lemma flags_step:
  assumes al: "alloc_ok alloc" and h: "heap_ok n rt" and p: "objects rt p \<noteq> None" and a: "a \<noteq> JS_ATOM_NULL" "f < 64"
  shows "\<exists>r rt'. set_property_flags alloc rt p a f = Some (r, rt') \<and> heap_ok n rt' \<and> spec_op (SetFlags p a f) r (properties rt) (properties rt')"
proof -
  note q = heapD(1) [OF h]
  obtain ob sh where o: "objects rt p = Some ob" "shapes rt (obj_shape ob) = Some sh" "view rt p = Some (proto sh, entries (names (sh_prop sh)) (obj_prop ob))"
    using object_shape [OF q p] .
  note pq = quietD [OF q o(1,2)]
  have find: "find_own_property1 sh a = Some (index_of (sh_prop sh) a)" using find_property [OF _ _ a(1)] pq(1) by (simp add: shape_ok_def)
  show ?thesis
  proof (cases "index_of (sh_prop sh) a")
    case None
    then show ?thesis using o find h by (simp add: set_property_flags_def)
  next
    case (Some i)
    then have mem: "a \<in> fst ` set (entries (names (sh_prop sh)) (obj_prop ob))"
      using index_of_entries [OF pq(1) _ a(1), of "obj_prop ob"] pq(2,3) by auto
    obtain r rt' where 1: "js_update_property_flags alloc rt p i f = Some (r, rt')"
        "r = 0 \<and> updated rt p (with_flags a f) rt' \<or> r = -1 \<and> updated rt p id rt'"
      using update_flags_inv [OF al q o(1,2) a(1) Some a(2)] by blast
    have "spec_op (SetFlags p a f) r (properties rt) (properties rt')"
      using 1(2) same_properties [of rt p rt'] updated_properties [OF _ o(3), of "with_flags a f" rt'] o(3) mem by (auto simp: properties_def)
    moreover have "heap_ok n rt'"
      using 1(2)
    proof (elim disjE conjE)
      assume "updated rt p (with_flags a f) rt'" then show ?thesis by (rule updated_heap [OF _ h keeps_values(1)])
    next
      assume "updated rt p id rt'" then show ?thesis by (rule updated_heap [OF _ h]) simp
    qed
    ultimately show ?thesis using 1(1) o find Some by (simp add: set_property_flags_def)
  qed
qed

lemma delete_step:
  assumes al: "alloc_ok alloc" and h: "heap_ok n rt" and p: "objects rt p \<noteq> None" and a: "a \<noteq> JS_ATOM_NULL"
  shows "\<exists>r rt'. delete_property alloc undef rt p a = Some (r, rt') \<and> heap_ok n rt' \<and> spec_op (Delete p a) r (properties rt) (properties rt')"
proof -
  note q = heapD(1) [OF h]
  obtain ob sh where o: "objects rt p = Some ob" "shapes rt (obj_shape ob) = Some sh" "view rt p = Some (proto sh, entries (names (sh_prop sh)) (obj_prop ob))"
    using object_shape [OF q p] .
  have "\<forall>(b, f, v)\<in>set (entries (names (sh_prop sh)) (obj_prop ob)). v \<noteq> None" using h o(3) unfolding heap_ok_def values_set_def by blast
  then obtain r rt' where 1: "delete_property alloc undef rt p a = Some (r, rt')" "deleted rt p a r rt'"
    using delete_property_inv [OF al q o(1,2) a] by blast
  consider "r = 1" "updated rt p (without a) rt'" |
    f v where "updated rt p id rt'" "(a, f, v) \<in> set (entries (names (sh_prop sh)) (obj_prop ob))" "r = 0 \<and> even f \<or> r = -1 \<and> odd f"
    using 1(2) o(3) unfolding deleted_def by auto
  then have "heap_ok n rt' \<and> spec_op (Delete p a) r (properties rt) (properties rt')"
  proof cases
    case 1
    then show ?thesis using updated_heap [OF 1(2) h keeps_values(2)] updated_properties [OF 1(2) o(3)] o(3) by (simp add: properties_def)
  next
    case 2
    then show ?thesis using updated_heap [OF 2(1) h] same_properties [OF 2(1)] plain_mem [OF 2(2)] o(3) by (auto simp: properties_def)
  qed
  then show ?thesis using 1(1) by blast
qed

lemma new_step:
  assumes al: "alloc_ok alloc" and h: "heap_ok (Suc n) rt"
  shows "\<exists>r rt'. JS_NewObjectProtoClass alloc rt pr = Some (r, rt') \<and> heap_ok n rt' \<and> spec_op (NewObject pr) (new_result r) (properties rt) (properties rt')"
proof -
  have q: "quiet rt" "card (dom (objects rt)) + 1 < 2 ^ 31 - 1" using h by (simp_all add: heap_ok_def)
  obtain r rt' where 1: "JS_NewObjectProtoClass alloc rt pr = Some (r, rt')" "created rt pr r rt'" using new_object_class_inv [OF al q] by blast
  have fin: "finite (dom (objects rt))" using invD(2) q(1) unfolding quiet_def by blast
  show ?thesis
  proof (cases r)
    case None
    then have "view rt' = view rt" using 1(2) by (simp add: created_def)
    then have "properties rt' = properties rt" "values_set rt' = values_set rt" by (simp_all add: properties_def values_set_def fun_eq_iff)
    then show ?thesis using 1 None h by (auto simp: created_def heap_ok_def new_result_def)
  next
    case (Some p)
    have v: "view rt' = (view rt)(p \<mapsto> (pr, []))" and o: "objects rt p = None" using 1(2) Some by (simp_all add: created_def)
    then have "properties rt' = (properties rt)(p \<mapsto> (pr, []))" "properties rt p = None" using view_object [OF q(1), of p] by (auto simp: properties_def fun_eq_iff)
    moreover have "heap_ok n rt'" using 1(2) Some h v o fin by (auto simp: created_def heap_ok_def values_set_def card_insert_if domIff)
    ultimately show ?thesis using 1(1) Some by (auto simp: new_result_def)
  qed
qed

lemma release_step:
  assumes h: "heap_ok n rt" and p: "objects rt p \<noteq> None"
  shows "\<exists>rt'. object_release rt p = Some rt' \<and> heap_ok n rt' \<and> spec_op (Release p) 0 (properties rt) (properties rt')"
proof -
  note q = heapD(1) [OF h]
  obtain ob where "objects rt p = Some ob" using p by blast
  then obtain rt' where 1: "object_release rt p = Some rt'" "quiet rt'" "dom (objects rt') = dom (objects rt) - {p}" "view rt' = (view rt)(p := None)"
    using release_inv [OF q] by blast
  have "card (dom (objects rt')) \<le> card (dom (objects rt))" unfolding 1(3) by (rule card_Diff1_le)
  then have "heap_ok n rt'" using 1(2,4) h by (auto simp: heap_ok_def values_set_def split: if_splits)
  moreover have "properties rt' = (properties rt)(p := None)" using 1(4) by (auto simp: properties_def fun_eq_iff)
  moreover have "properties rt p \<noteq> None" using view_object [OF q, of p] p by (simp add: properties_def)
  ultimately show ?thesis using 1(1) by simp
qed

lemma run_op_refines:
  assumes al: "alloc_ok alloc" and h: "heap_ok (Suc n) rt" and l: "op_legal c"
  shows "\<exists>r rt'. run_op alloc undef c rt = Some (r, rt') \<and> heap_ok n rt' \<and> spec_op c r (properties rt) (properties rt')"
proof -
  note h' = heapD(2) [OF h]
  have none: "objects rt p = None \<Longrightarrow> properties rt p = None" for p using view_object [OF heapD(1) [OF h], of p] by (simp add: properties_def)
  show ?thesis
  proof (cases c)
    case (NewObject pr)
    then show ?thesis using new_step [OF al h, of pr] by fastforce
  next
    case (Define p a f v)
    then show ?thesis using define_step [OF al h', of p a f v] l h' by (cases "objects rt p = None") auto
  next
    case (SetFlags p a f)
    then show ?thesis using flags_step [OF al h', of p a f] l h' by (cases "objects rt p = None") auto
  next
    case (Delete p a)
    show ?thesis
    proof (cases "objects rt p = None")
      case True
      then show ?thesis using Delete none [OF True] h' by simp
    next
      case False
      then show ?thesis using Delete delete_step [OF al h' False, of a undef] l by (simp del: spec_op.simps not_None_eq)
    qed
  next
    case (Release p)
    show ?thesis
    proof (cases "objects rt p = None")
      case True
      then show ?thesis using Release none [OF True] h' by simp
    next
      case False
      then show ?thesis using Release release_step [OF h' False] by auto
    qed
  qed
qed

subsection \<open>Sequences of operations\<close>

interpretation objs: simulation "run_op alloc undef" spec_op properties "\<lambda>n rt. alloc_ok alloc \<and> heap_ok n rt" op_legal for alloc undef
proof unfold_locales
  fix n and c :: "'b obj_op" and s :: "('a, 'b) shape_runtime" assume "alloc_ok alloc \<and> heap_ok (Suc n) s" "op_legal c"
  then show "\<exists>r s'. run_op alloc undef c s = Some (r, s') \<and> (alloc_ok alloc \<and> heap_ok n s') \<and> spec_op c r (properties s) (properties s')"
    using run_op_refines [of alloc n s c undef] by simp
qed

text \<open>The start of a runtime, with its empty table of shapes.\<close>

definition empty_runtime :: "'m \<Rightarrow> ('m, 'v) shape_runtime" where
  "empty_runtime m = \<lparr>rt_mem = m, shape_hash_bits = 0, shape_hash_count = 0, shape_hash_tab = [], shapes = (\<lambda>_. None), objects = (\<lambda>_. None)\<rparr>"

lemma init_heap_ok:
  assumes "init_shape_hash alloc (empty_runtime m :: ('m, 'v) shape_runtime) = (0, rt)" and "n < 2 ^ 31 - 1"
  shows "heap_ok n rt" "properties rt = (\<lambda>_. None)"
proof -
  obtain x where rt: "rt = \<lparr>rt_mem = x, shape_hash_bits = 4, shape_hash_count = 0, shape_hash_tab = replicate 16 None, shapes = (\<lambda>_. None), objects = (\<lambda>_. None)\<rparr>"
    using assms(1) by (auto simp: init_shape_hash_def js_malloc_block_def empty_runtime_def split: prod.splits if_splits)
  have "inv rt {} (\<lambda>_. 0)"
    using table_part_empty [of 4 "\<lambda>_. None"] by (intro invI) (simp_all add: rt)
  then have "quiet rt" by (intro quietI) (simp_all add: rt hashed_def)
  then show "heap_ok n rt" using assms(2) by (simp add: heap_ok_def values_set_def view_def rt)
  show "properties rt = (\<lambda>_. None)" by (auto simp: properties_def view_def rt)
qed

text \<open>An allocator that hands out increasing addresses.\<close>

definition counting_alloc :: "nat alloc_fn" where
  "counting_alloc m free n = (if free m \<and> n < 2 ^ 29 then (Some m, m + 1) else (None, m + 1))"

lemma counting_alloc_ok: "alloc_ok counting_alloc"
  by (simp add: alloc_ok_def counting_alloc_def)

definition start_runtime :: "(nat, nat) shape_runtime" where
  "start_runtime = snd (init_shape_hash counting_alloc (empty_runtime 1))"

lemma start_heap_ok: "n < 2 ^ 31 - 1 \<Longrightarrow> heap_ok n start_runtime"
proof -
  have "fst (init_shape_hash counting_alloc (empty_runtime 1 :: (nat, nat) shape_runtime)) = 0"
    by (simp add: init_shape_hash_def js_malloc_block_def counting_alloc_def empty_runtime_def)
  then have "init_shape_hash counting_alloc (empty_runtime 1) = (0, start_runtime)" by (simp add: start_runtime_def prod_eq_iff)
  then show "n < 2 ^ 31 - 1 \<Longrightarrow> heap_ok n start_runtime" by (rule init_heap_ok)
qed

text \<open>One object with one property.\<close>

definition one_object :: "nat obj_op list" where
  "one_object = [NewObject 9, Define 3 5 7 50]"

lemmas new_object_defs =
  JS_NewObjectProtoClass_def find_hashed_shape_proto_def get_shape_hash_def shape_initial_hash_def shape_hash_def
  unat_drop_bit_eq find_hashed_loop.simps js_new_shape_def js_new_shape2_def js_malloc_shape_def counting_alloc_def
  get_shape_size_def JS_PROP_INITIAL_HASH_SIZE_def JS_PROP_INITIAL_SIZE_def js_shape_hash_link_def set_shape_def
  JS_NewObjectFromShape_def set_object_def js_malloc_block_def new_result_def Let_def

lemmas define_defs =
  JS_DefinePrivateField_def find_own_property1_def bucket_of_def find_loop.simps add_property_def find_hashed_shape_prop_def
  add_to_own_shape_def add_shape_property_def js_shape_hash_unlink_def unlink_loop.simps js_shape_hash_link_def
  append_property_def hash_insert_def set_flags_def set_hash_next_def set_object_def set_shape_def
  shape_hash_def get_shape_hash_def find_hashed_loop.simps prop_count_def Let_def

lemma two_None: "(replicate 2 None)[0 := v] = [v, None]"
  by (simp add: numeral_2_eq_2)

lemma one_object_run:
  "\<exists>rt. run_steps (run_op counting_alloc 0) one_object start_runtime = Some ([3, 0], rt) \<and> properties rt 3 = Some (9, [(5, 7, 50)])"
proof -
  have "\<exists>rt. run_op counting_alloc 0 (NewObject 9) start_runtime = Some (3, rt) \<and>
      (\<exists>rt'. run_op counting_alloc 0 (Define 3 5 7 50) rt = Some (0, rt') \<and> properties rt' 3 = Some (9, [(5, 7, 50)]))"
    apply (simp add: start_runtime_def empty_runtime_def init_shape_hash_def new_object_defs)
    apply (simp add: define_defs)
    apply (simp add: properties_def view_def names_def entries_def plain_def JS_ATOM_NULL_def two_None)
    done
  then show ?thesis by (auto simp: one_object_def)
qed

lemma one_object_legal: "list_all op_legal one_object" "length one_object = 2"
  by (simp_all add: one_object_def JS_ATOM_NULL_def)



text \<open>
  Claim C12. The hash chains find exactly the properties of the list. In a well-formed heap, the
  lookup of a name in an object, which follows the chain of one bucket of the shape, ends and
  returns the flags and the value that the list of properties gives for the name, or nothing
  when the name is not in the list.
\<close>

theorem object_lookup:
  assumes "heap_ok n rt" and "properties rt p = Some (pr, l)" and "a \<noteq> JS_ATOM_NULL"
  shows "find_own_property rt p a = Some (map_option (\<lambda>(f, v). (f, Some v)) (map_of l a))"
proof -
  note q = heapD(1) [OF assms(1)]
  have "objects rt p \<noteq> None" using assms(2) view_object [OF q, of p] by (auto simp: properties_def)
  then obtain ob sh where o: "objects rt p = Some ob" "shapes rt (obj_shape ob) = Some sh" "view rt p = Some (proto sh, entries (names (sh_prop sh)) (obj_prop ob))"
    using object_shape [OF q] by blast
  let ?ns = "names (sh_prop sh)" and ?vs = "obj_prop ob"
  note pq = quietD [OF q o(1,2)]
  have l: "l = plain (entries ?ns ?vs)" using assms(2) o(3) by (simp add: properties_def)
  have find: "find_own_property1 sh a = Some (index_of (sh_prop sh) a)" using find_property [OF _ _ assms(3)] pq(1) by (simp add: shape_ok_def)
  have len: "prop_count sh \<le> length ?vs" using pq(2,3) by simp
  show ?thesis
  proof (cases "index_of (sh_prop sh) a")
    case None
    then have "a \<notin> fst ` set l" using index_of_entries [OF pq(1) len assms(3)] l by simp
    then have "map_of l a = None" by (simp add: map_of_eq_None_iff)
    then show ?thesis using o find None by (simp add: find_own_property_def)
  next
    case (Some i)
    note n = own_name [OF pq(1) assms(3) Some]
    have il: "i < length (sh_prop sh)" "i < length ?vs" using n(1) len by (simp_all add: prop_count_def)
    have m: "(a, pr_flags (sh_prop sh ! i), ?vs ! i) \<in> set (entries ?ns ?vs)"
      unfolding entries_mem using il n(3) assms(3) by (auto simp: names_def)
    then have v: "?vs ! i \<noteq> None" using assms(1) o(3) unfolding heap_ok_def values_set_def by fastforce
    have "distinct (map fst (entries ?ns ?vs))"
      using pq(1) entries_names [of ?ns ?vs] len by (simp add: shape_ok_def names_ok_distinct prop_count_def)
    moreover have "map fst l = map fst (entries ?ns ?vs)" by (auto simp: l plain_def)
    ultimately have "map_of l a = Some (pr_flags (sh_prop sh ! i), the (?vs ! i))" using plain_mem [OF m] l by (intro map_of_is_SomeI) simp_all
    then show ?thesis using o find Some il v by (auto simp: find_own_property_def)
  qed
qed

theorem object_lookup_witness:
  "\<exists>rt. properties rt 3 = Some (9, [(5, 7, 50)]) \<and> find_own_property (rt :: (nat, nat) shape_runtime) 3 5 = Some (Some (7, Some 50)) \<and>
     find_own_property rt 3 6 = Some None"
proof -
  obtain rt where rt: "run_steps (run_op counting_alloc 0) one_object start_runtime = Some ([3, 0], rt)" "properties rt 3 = Some (9, [(5, 7, 50)])"
    using one_object_run by blast
  have "heap_ok 0 rt"
    using objs.run_refines [of counting_alloc one_object 0 start_runtime 0] counting_alloc_ok start_heap_ok [of 2] one_object_legal rt(1) by simp
  then show ?thesis using object_lookup [of 0 rt 3 9 "[(5, 7, 50)]"] rt(2) by (intro exI [of _ rt]) (simp add: JS_ATOM_NULL_def)
qed



end
