(* ===== verification/Spec2Isabelle.thy ===== *)
theory Spec2Isabelle
  imports Cutils Dyn_Buf String_Convert Exchange Array_Sort Unicode_Script Gc_Collect Object_Refine
begin

text \<open>
  A verification library for the QuickJS engine that \<open>quickjs_dart\<close> binds to Dart
  (\<open>src/cpp/src/quickjs\<close>). This theory collects the components; each is developed in the theories
  named below and stated there, next to its definitions.

  \<^bold>\<open>How the program is modelled.\<close> A function of the source is an Isabelle function of the same name
  with explicit state. A result \<open>None\<close> stands for what the C program must not do: an access outside
  a block, a use of freed or uninitialised memory, signed overflow, a failing assertion, or a loop
  that never ends; so a theorem of the form \<open>\<exists>y. f x = Some y \<and> \<dots>\<close> says that the code is safe and
  returns. Loops that need not end are \<open>partial_function (option)\<close>; no fuel is used. Machine words
  are \<open>8\<close>, \<open>16\<close>, \<open>32\<close> or \<open>64 word\<close>; an \<open>int\<close> of the source is an integer with its range checked
  (\<open>cint\<close>) where it can overflow. Allocators, comparison functions, user code and conversions that
  call user code are parameters, and what is used of them is a hypothesis with a witness
  (\<open>reallocator\<close>, \<open>c_allocator\<close>, \<open>alloc_ok\<close>, \<open>ordered_cmp\<close>).

  \<^item> \<open>QJS_Prelude\<close>: checked memory accesses, byte orders, the shared lemmas and simplification
    sets. \<open>Simulation\<close>: sequences of operations against a specification, as a locale.
  \<^item> \<open>Cutils\<close> (\<open>cutils.c\<close>, \<open>cutils.h\<close>): string helpers, unaligned loads and stores.
  \<^item> \<open>Dyn_Buf\<close> (\<open>cutils.c\<close>, \<open>dbuf_\<dots>\<close>): the growable buffer over any allocator; appending refines
    concatenation, and the error flag tells whether anything was lost.
  \<^item> \<open>Utf8\<close> (\<open>cutils.c\<close>, \<open>unicode_to_utf8\<close>, \<open>unicode_from_utf8\<close>): the two directions are inverse and
    overlong forms are rejected.
  \<^item> \<open>Js_Malloc\<close> (\<open>quickjs.c\<close>, \<open>js_def_malloc\<close> and the functions of the runtime over it): the counters
    of the default allocator are exact, and what its limit bounds on each platform.
  \<^item> \<open>Js_String\<close>, \<open>String_Buffer\<close>, \<open>String_Convert\<close> (\<open>quickjs.c\<close>, \<open>js_sub_string\<close>, \<open>string_buffer_\<dots>\<close>,
    \<open>JS_NewStringLen\<close>, \<open>JS_ToCStringLen2\<close>): strings in bytes or 16-bit units over the allocator of
    the runtime. The buffer refines a sequence of units, strings stay in their smallest
    representation, and every string survives the way through UTF-8. The locale \<open>str_allocator\<close> is
    what strings need of the runtime; \<open>Js_String\<close> derives it from the contract \<open>c_allocator\<close> of the C
    library, through the model of the memory functions.
  \<^item> \<open>Rqsort\<close>, \<open>Rqsort_Order\<close>, \<open>Rqsort_Cmp\<close>, \<open>Exchange\<close> (\<open>cutils.c\<close>, \<open>rqsort\<close>, \<open>heapsortx\<close>, \<open>exchange_\<dots>\<close>):
    safety and termination for every comparator, the fifty-entry stack included, sorting for
    comparators that are consistent, and the exchange of elements at the level of bytes.
  \<^item> \<open>Sort_Clients\<close>, \<open>Array_Sort\<close> (\<open>quickjs.c\<close>, \<open>js_typed_array_sort\<close>, \<open>js_array_sort\<close>): the two sorts
    of the language on top of \<open>rqsort\<close>, with user comparison functions that may do anything.
  \<^item> \<open>Char_Range\<close> (\<open>libunicode.c\<close>, \<open>cr_\<dots>\<close>): sets of code points as sorted lists of boundaries.
  \<^item> \<open>Unicode_Index\<close>, \<open>Unicode_Tables\<close>, \<open>Unicode_Case\<close>, \<open>Unicode_Case_Set\<close>: the packed tables of
    \<open>libunicode-table.h\<close> byte for byte, the character predicates and the case conversion.
  \<^item> \<open>Unicode_Runs\<close>, \<open>Unicode_Decode\<close>, \<open>Unicode_Prop_Tables\<close>, \<open>Unicode_Names\<close>, \<open>Unicode_Prop\<close>,
    \<open>Unicode_Script\<close>: the queries for categories, properties and scripts, up to the sets of code
    points that the Unicode standard gives.
  \<^item> \<open>Intrusive_List\<close> (\<open>list.h\<close>): the linked lists over a memory of nodes refine sequences.
  \<^item> \<open>Gc_Mark\<close>, \<open>Gc_Free\<close>, \<open>Gc_Collect\<close> (\<open>quickjs.c\<close>, \<open>JS_RunGC\<close> and the functions it calls): the
    trial deletion frees exactly what cannot be reached, and nothing that is in use.
  \<^item> \<open>Shape_Props\<close>, \<open>Shape_Table\<close>, \<open>Object_Model\<close> (\<open>quickjs.c\<close>, shapes, \<open>add_property\<close>, \<open>delete_property\<close>
    and others), with the invariant in \<open>Object_Inv\<close>, the steps in \<open>Object_Props\<close>, \<open>Object_Add\<close>,
    \<open>Object_Update\<close> and \<open>Object_Heap\<close>, and the contract in \<open>Object_Refine\<close>: objects that share
    shapes behave as independent lists of properties in insertion order.

  \<^bold>\<open>Bounds.\<close> The segment stack of \<open>rqsort\<close> has fifty entries and the proof shows that arrays
  below \<open>2 ^ 32\<close> elements never need more. The theorems on objects assume fewer than
  \<open>2 ^ 31 - 1\<close> live objects, so that reference counts do not overflow, and an allocator
  that refuses blocks of 512 megabytes, which keeps a shape below the \<open>2 ^ 26\<close> properties that its
  hash chains can index. Strings are built of at most \<open>2 ^ 28\<close> units: the growth of the buffer by
  half overflows an \<open>int\<close> for sizes near the limit of \<open>2 ^ 30 - 1\<close> that the code checks.

  \<^bold>\<open>Not modelled.\<close> The parser, the bytecode compiler and interpreter, the built-in objects other than
  the parts above, modules and serialization of \<open>quickjs.c\<close>; the regular expression compiler and
  matcher \<open>libregexp.c\<close>; Unicode normalization; \<open>quickjs-libc.c\<close> and the foreign function
  interface, which only pass arguments to the operating system or to the engine. In the
  components above, the reference counts of atoms and values are left out except in the
  collector, and floating point occurs only as the comparison of doubles.
\<close>

end
